(* ===== verification/ApePrelude.thy ===== *)
theory ApePrelude
  imports
    Main
    "HOL-Library.Word"
    "HOL-Library.Monad_Syntax"
    "HOL-Library.Multiset"
    "HOL-Library.Char_ord"
    "HOL-Library.List_Lexorder"
    "HOL-Library.AList"
begin

text \<open>
  The vocabulary the component theories share: machine words, the result type of code
  that may have undefined behaviour, the collections of simplification rules, and lemmas on
  lists, options and words that several components need.

  A C++ operation that may read or write outside an object, dereference NULL or otherwise
  has no defined result is a function into \<open>'a option\<close>: \<open>None\<close> is the undefined behaviour,
  \<open>Some\<close> the defined result. Errors that the code reports itself (a negative return code, a
  NULL pointer as a result) are ordinary values and never \<open>None\<close>.
\<close>

named_theorems c_simps \<open>unfoldings of the C library functions on memory\<close>
named_theorems inv_simps \<open>what the operations do to the fields an invariant reads\<close>

type_synonym u8 = "8 word"
type_synonym u16 = "16 word"
type_synonym u32 = "32 word"
type_synonym u64 = "64 word"
type_synonym bytes = "char list"

abbreviation NUL :: char where "NUL \<equiv> CHR 0x00"
abbreviation CR :: char where "CR \<equiv> CHR 0x0D"
abbreviation LF :: char where "LF \<equiv> CHR 0x0A"
abbreviation SP :: char where "SP \<equiv> CHR 0x20"
abbreviation CRLF :: string where "CRLF \<equiv> [CR, LF]"
abbreviation CRLF2 :: string where "CRLF2 \<equiv> [CR, LF, CR, LF]"

section \<open>Undefined behaviour\<close>

definition defined_if :: "bool \<Rightarrow> unit option" where
  "defined_if b = (if b then Some () else None)"

lemma defined_if_True [simp]: "defined_if True = Some ()"
  by (simp add: defined_if_def)

lemma defined_if_False [simp]: "defined_if False = None"
  by (simp add: defined_if_def)

lemma defined_if_eq_Some [simp]: "defined_if b = Some u \<longleftrightarrow> b"
  by (simp add: defined_if_def)

lemma defined_if_bind_Some:
  "(defined_if b \<bind> f = Some y) \<longleftrightarrow> (b \<and> f () = Some y)"
  by (simp add: defined_if_def)

lemma bind_eq_Some_iff:
  "(m \<bind> f = Some y) \<longleftrightarrow> (\<exists>x. m = Some x \<and> f x = Some y)"
  by (cases m) auto

lemma map_option_eq_SomeE:
  "map_option f m = Some y \<Longrightarrow> (\<And>x. m = Some x \<Longrightarrow> y = f x \<Longrightarrow> P) \<Longrightarrow> P"
  by (cases m) auto

section \<open>Lists\<close>

definition iter_perm :: "('a list \<Rightarrow> 'a list) \<Rightarrow> bool" where
  "iter_perm f \<longleftrightarrow> (\<forall>xs. mset (f xs) = mset xs)"

lemma iter_perm_id [simp]: "iter_perm (\<lambda>xs. xs)"
  by (simp add: iter_perm_def)

lemma iter_perm_rev [simp]: "iter_perm rev"
  by (simp add: iter_perm_def)

lemma iter_perm_set: "iter_perm f \<Longrightarrow> set (f xs) = set xs"
  by (metis iter_perm_def set_mset_mset)

lemma iter_perm_Nil [simp]: "iter_perm f \<Longrightarrow> f [] = []"
  by (metis iter_perm_def mset_zero_iff mset.simps(1))

lemma iter_perm_length: "iter_perm f \<Longrightarrow> length (f xs) = length xs"
  by (metis iter_perm_def size_mset)

lemma drop_eq_ConsD: "drop n xs = y # ys \<Longrightarrow> n < length xs \<and> xs ! n = y \<and> drop (Suc n) xs = ys"
  by (metis drop_eq_Nil2 leI list.distinct(1) nth_via_drop Cons_nth_drop_Suc list.inject)

lemma take_append_exact [simp]: "length xs = n \<Longrightarrow> take n (xs @ ys) = xs"
  by simp

lemma drop_append_exact [simp]: "length xs = n \<Longrightarrow> drop n (xs @ ys) = ys"
  by simp

lemma nth_append_exact [simp]: "length xs = n \<Longrightarrow> (xs @ y # ys) ! n = y"
  by auto

lemma takeWhile_append_hit:
  "(\<forall>x\<in>set xs. P x) \<Longrightarrow> \<not> P y \<Longrightarrow> takeWhile P (xs @ y # ys) = xs"
  by (induction xs) auto

lemma takeWhile_all_id: "(\<forall>x\<in>set xs. P x) \<Longrightarrow> takeWhile P xs = xs"
  by (induction xs) auto

section \<open>Words\<close>

lemma unat_add_no_wrap:
  fixes a b :: "'a::len word"
  shows "unat a + unat b < 2 ^ LENGTH('a) \<Longrightarrow> unat (a + b) = unat a + unat b"
  by (simp add: unat_word_ariths)

lemma unat_of_nat_small:
  "n < 2 ^ LENGTH('a::len) \<Longrightarrow> unat (of_nat n :: 'a word) = n"
  by (simp add: unat_of_nat)

lemma unat_u32_lt: "unat (w :: u32) < 4294967296"
  using unsigned_less [of w, where ?'a = nat] by simp

end
