(* ===== verification/CString.thy ===== *)
theory CString
  imports ApePrelude
begin

text \<open>
  The C library functions that the code calls on raw memory: strlen, strchr, strstr,
  strncasecmp, atoi, tolower, and the sscanf and sprintf conversions that occur in it.

  Memory is a byte list and a pointer into it is an offset; a function that scans memory takes
  the suffix that starts at its argument and returns \<open>None\<close> where the scan would leave the
  memory before it finds what stops it (a terminating NUL, a byte that ends the number). The
  buffers of the program are not NUL-terminated, so these outcomes are real.
  A \<open>std::string\<close> is a byte list; its \<open>c_str()\<close> is the list followed by NUL.
\<close>

section \<open>Character classes (C locale)\<close>

definition c_isdigit :: "char \<Rightarrow> bool" where
  "c_isdigit c = (48 \<le> (of_char c :: nat) \<and> (of_char c :: nat) \<le> 57)"

definition c_isspace :: "char \<Rightarrow> bool" where
  "c_isspace c = ((of_char c :: nat) = 32 \<or> (9 \<le> (of_char c :: nat) \<and> (of_char c :: nat) \<le> 13))"

definition c_isupper :: "char \<Rightarrow> bool" where
  "c_isupper c = (65 \<le> (of_char c :: nat) \<and> (of_char c :: nat) \<le> 90)"

definition c_islower :: "char \<Rightarrow> bool" where
  "c_islower c = (97 \<le> (of_char c :: nat) \<and> (of_char c :: nat) \<le> 122)"

definition c_isxdigit :: "char \<Rightarrow> bool" where
  "c_isxdigit c = (c_isdigit c
     \<or> (65 \<le> (of_char c :: nat) \<and> (of_char c :: nat) \<le> 70)
     \<or> (97 \<le> (of_char c :: nat) \<and> (of_char c :: nat) \<le> 102))"

definition c_tolower :: "char \<Rightarrow> char" where
  "c_tolower c = (if c_isupper c then char_of ((of_char c :: nat) + 32) else c)"

definition xdigit_val :: "char \<Rightarrow> nat" where
  "xdigit_val c =
     (if c_isdigit c then of_char c - 48
      else if 97 \<le> (of_char c :: nat) then of_char c - 87
      else of_char c - 55)"

lemmas char_class_defs [c_simps] =
  c_isdigit_def c_isspace_def c_isupper_def c_islower_def c_isxdigit_def xdigit_val_def c_tolower_def

section \<open>Scanning memory\<close>

fun c_strlen :: "bytes \<Rightarrow> nat option" where
  "c_strlen [] = None"
| "c_strlen (c # cs) = (if c = NUL then Some 0 else map_option Suc (c_strlen cs))"

text \<open>The outer option is the undefined behaviour, the inner one the NULL result.\<close>

fun c_strchr :: "char \<Rightarrow> bytes \<Rightarrow> nat option option" where
  "c_strchr c [] = None"
| "c_strchr c (x # xs) =
     (if x = c then Some (Some 0)
      else if x = NUL then Some None
      else map_option (map_option Suc) (c_strchr c xs))"

fun c_prefix :: "bytes \<Rightarrow> bytes \<Rightarrow> bool option" where
  "c_prefix [] s = Some True"
| "c_prefix (n # ns) [] = None"
| "c_prefix (n # ns) (x # xs) = (if x = n then c_prefix ns xs else Some False)"

fun c_strstr :: "bytes \<Rightarrow> bytes \<Rightarrow> nat option option" where
  "c_strstr pat [] = None"
| "c_strstr pat (x # xs) =
     (case c_prefix pat (x # xs) of
        None \<Rightarrow> None
      | Some True \<Rightarrow> Some (Some 0)
      | Some False \<Rightarrow>
          if x = NUL then Some None
          else map_option (map_option Suc) (c_strstr pat xs))"

text \<open>
  \<open>strncasecmp(p, lit, n) == 0\<close> for a literal of length \<open>n\<close>: the comparison stops at the first
  difference, and memory that ends in a NUL differs from the literal there.
\<close>

fun c_caseeq :: "bytes \<Rightarrow> bytes \<Rightarrow> bool option" where
  "c_caseeq [] s = Some True"
| "c_caseeq (n # ns) [] = None"
| "c_caseeq (n # ns) (x # xs) =
     (if c_tolower x = c_tolower n then c_caseeq ns xs else Some False)"

fun span_m :: "(char \<Rightarrow> bool) \<Rightarrow> bytes \<Rightarrow> (bytes \<times> bytes) option" where
  "span_m P [] = None"
| "span_m P (x # xs) =
     (if P x then map_option (\<lambda>(a, b). (x # a, b)) (span_m P xs) else Some ([], x # xs))"

definition peek :: "bytes \<Rightarrow> nat \<Rightarrow> char option" where
  "peek mem p = (if p < length mem then Some (mem ! p) else None)"

definition strchr_at :: "bytes \<Rightarrow> nat \<Rightarrow> char \<Rightarrow> nat option option" where
  "strchr_at mem p c = map_option (map_option ((+) p)) (c_strchr c (drop p mem))"

definition strstr_at :: "bytes \<Rightarrow> nat \<Rightarrow> bytes \<Rightarrow> nat option option" where
  "strstr_at mem p pat = map_option (map_option ((+) p)) (c_strstr pat (drop p mem))"

definition caseeq_at :: "bytes \<Rightarrow> nat \<Rightarrow> bytes \<Rightarrow> bool option" where
  "caseeq_at mem p lit = c_caseeq lit (drop p mem)"

definition sub :: "bytes \<Rightarrow> nat \<Rightarrow> nat \<Rightarrow> bytes option" where
  \<comment> \<open>the \<open>n\<close> bytes at \<open>p\<close>, as \<open>std::string(p, n)\<close> and memcpy read them\<close>
  "sub mem p n = (if p + n \<le> length mem then Some (take n (drop p mem)) else None)"

definition c_str :: "string \<Rightarrow> bytes" where
  \<comment> \<open>what a callee that takes \<open>const char *\<close> sees of \<open>s.c_str()\<close>\<close>
  "c_str s = takeWhile (\<lambda>c. c \<noteq> NUL) s"

section \<open>Numbers\<close>

definition digits_val :: "nat \<Rightarrow> bytes \<Rightarrow> nat" where
  "digits_val b ds = foldl (\<lambda>a d. a * b + xdigit_val d) 0 ds"

definition wrap_int32 :: "int \<Rightarrow> int" where
  "wrap_int32 i = (i + 2 ^ 31) mod 2 ^ 32 - 2 ^ 31"

definition clamp_long :: "int \<Rightarrow> int" where
  "clamp_long i = max (- (2 ^ 63)) (min (2 ^ 63 - 1) i)"

definition scan_sign :: "bytes \<Rightarrow> (bool \<times> bytes) option" where
  "scan_sign s =
     (case s of
        [] \<Rightarrow> None
      | c # cs \<Rightarrow>
          if c = CHR ''-'' then Some (True, cs)
          else if c = CHR ''+'' then Some (False, cs)
          else Some (False, s))"

definition c_atoi :: "bytes \<Rightarrow> int option" where
  "c_atoi s = do {
     (ws, r) \<leftarrow> span_m c_isspace s;
     (neg, r') \<leftarrow> scan_sign r;
     (ds, rest) \<leftarrow> span_m c_isdigit r';
     Some (wrap_int32 (clamp_long ((if neg then - 1 else 1) * int (digits_val 10 ds))))
   }"

text \<open>
  \<open>strtoul\<close> as sscanf's \<open>%u\<close> and \<open>%X\<close> use it: saturation at the 64-bit maximum, a minus sign
  negates modulo \<open>2^64\<close>, and the result is stored in 32 bits.
\<close>

definition ulong_to_u32 :: "bool \<Rightarrow> nat \<Rightarrow> u32" where
  "ulong_to_u32 neg v =
     (if 2 ^ 64 \<le> v then of_nat (2 ^ 64 - 1) else if neg then - of_nat v else of_nat v)"

text \<open>
  \<open>sscanf(p, "%0X", &n)\<close>: a zero field width is no width. \<open>None\<close> inside: no conversion.
  A prefix \<open>0x\<close> is skipped; its \<open>0\<close> already counts as a digit.
\<close>

definition scan_hex :: "bytes \<Rightarrow> u32 option option" where
  "scan_hex s = do {
     (ws, r) \<leftarrow> span_m c_isspace s;
     (neg, r1) \<leftarrow> scan_sign r;
     c \<leftarrow> peek r1 0;
     if c = CHR ''0'' then do {
       x \<leftarrow> peek r1 1;
       (ds, rest) \<leftarrow> span_m c_isxdigit (drop (if c_tolower x = CHR ''x'' then 2 else 1) r1);
       Some (Some (ulong_to_u32 neg (digits_val 16 ds)))
     } else do {
       (ds, rest) \<leftarrow> span_m c_isxdigit r1;
       Some (if ds = [] then None else Some (ulong_to_u32 neg (digits_val 16 ds)))
     }
   }"

definition scan_udec :: "bytes \<Rightarrow> u32 option option" where
  "scan_udec s = do {
     (ws, r) \<leftarrow> span_m c_isspace s;
     (neg, r1) \<leftarrow> scan_sign r;
     (ds, rest) \<leftarrow> span_m c_isdigit r1;
     Some (if ds = [] then None else Some (ulong_to_u32 neg (digits_val 10 ds)))
   }"

section \<open>Formatting\<close>

definition xdigit :: "nat \<Rightarrow> char" where
  "xdigit n = (if n < 10 then char_of (n + 48) else char_of (n + 87))"

fun fmt_base :: "nat \<Rightarrow> nat \<Rightarrow> string" where
  "fmt_base b n = (if n < b \<or> b < 2 then [xdigit n] else fmt_base b (n div b) @ [xdigit (n mod b)])"

declare fmt_base.simps [simp del]

definition fmt_u :: "nat \<Rightarrow> string" where "fmt_u n = fmt_base 10 n"
definition fmt_x :: "nat \<Rightarrow> string" where "fmt_x n = fmt_base 16 n"
definition fmt_d :: "int \<Rightarrow> string" where
  "fmt_d i = (if i < 0 then CHR ''-'' # fmt_u (nat (- i)) else fmt_u (nat i))"

definition pad_left :: "char \<Rightarrow> nat \<Rightarrow> string \<Rightarrow> string" where
  "pad_left c w s = replicate (w - length s) c @ s"

text \<open>\<open>snprintf(buf, n, ...)\<close> keeps at most \<open>n - 1\<close> characters.\<close>

definition snprintf_cut :: "nat \<Rightarrow> string \<Rightarrow> string" where
  "snprintf_cut n s = take (n - 1) s"


section \<open>Lemmas on scanning\<close>

lemma c_strlen_hit: "NUL \<notin> set s \<Longrightarrow> c_strlen (s @ NUL # r) = Some (length s)"
  by (induction s) auto

lemma c_strchr_hit:
  "c \<notin> set xs \<Longrightarrow> NUL \<notin> set xs \<Longrightarrow> c_strchr c (xs @ c # ys) = Some (Some (length xs))"
  by (induction xs) auto

lemma c_strchr_SomeD:
  "c_strchr c s = Some (Some i) \<Longrightarrow> i < length s \<and> s ! i = c \<and> c \<notin> set (take i s)"
proof (induction s arbitrary: i)
  case (Cons x xs)
  then show ?case by (cases i) (auto split: if_splits)
qed simp

lemma c_strchr_append: "c_strchr c s = Some r \<Longrightarrow> c_strchr c (s @ t) = Some r"
  by (induction s arbitrary: r) (auto split: if_splits)

lemma c_prefix_append: "c_prefix pat s = Some b \<Longrightarrow> c_prefix pat (s @ t) = Some b"
  by (induction pat s rule: c_prefix.induct) (auto split: if_splits)

lemma c_prefix_True_iff: "c_prefix pat s = Some True \<longleftrightarrow> take (length pat) s = pat"
  by (induction pat s rule: c_prefix.induct) auto

lemma c_prefix_hit [simp]: "c_prefix pat (pat @ t) = Some True"
  by (simp add: c_prefix_True_iff)

lemma c_strstr_append: "c_strstr pat s = Some r \<Longrightarrow> c_strstr pat (s @ t) = Some r"
proof (induction s arbitrary: r)
  case (Cons x xs)
  from Cons.prems obtain b where b: "c_prefix pat (x # xs) = Some b"
    by (auto split: option.splits)
  have "c_prefix pat (x # xs @ t) = Some b"
    using c_prefix_append [OF b, of t] by simp
  with b Cons show ?case by (cases b) (auto split: if_splits)
qed simp

lemma c_strstr_SomeD:
  "c_strstr pat s = Some (Some i) \<Longrightarrow> i < length s \<and> take (length pat) (drop i s) = pat"
proof (induction s arbitrary: i)
  case (Cons x xs)
  from Cons.prems obtain b where b: "c_prefix pat (x # xs) = Some b"
    by (auto split: option.splits)
  show ?case
  proof (cases b)
    case True
    with b Cons.prems show ?thesis using c_prefix_True_iff [of pat "x # xs"] by auto
  next
    case False
    with b Cons show ?thesis by (auto split: if_splits)
  qed
qed simp

lemma c_caseeq_append: "c_caseeq lit s = Some b \<Longrightarrow> c_caseeq lit (s @ t) = Some b"
  by (induction lit s rule: c_caseeq.induct) (auto split: if_splits)

lemma c_caseeq_defined: "length lit \<le> length s \<Longrightarrow> \<exists>b. c_caseeq lit s = Some b"
  by (induction lit s rule: c_caseeq.induct) auto

lemma c_caseeq_refl [simp]: "c_caseeq lit (lit @ t) = Some True"
  by (induction lit) auto

lemma c_strstr_crlf_hit:
  "CR \<notin> set xs \<Longrightarrow> NUL \<notin> set xs \<Longrightarrow> c_strstr CRLF (xs @ CR # LF # ys) = Some (Some (length xs))"
proof (induction xs)
  case (Cons x xs)
  then have "c_prefix CRLF (x # xs @ CR # LF # ys) = Some False" by auto
  moreover have "x \<noteq> NUL" using Cons.prems by auto
  ultimately show ?case using Cons by simp
qed simp

text \<open>
  The first empty line of a block of non-empty lines without CR and NUL is found at the CRLF
  that ends the last of them.
\<close>

definition line_ok :: "string \<Rightarrow> bool" where
  "line_ok l \<longleftrightarrow> l \<noteq> [] \<and> CR \<notin> set l \<and> NUL \<notin> set l"

lemma c_strstr_crlf2_skip:
  assumes "CR \<notin> set xs" "NUL \<notin> set xs"
  shows "c_strstr CRLF2 (xs @ r) = map_option (map_option ((+) (length xs))) (c_strstr CRLF2 r)"
  using assms
proof (induction xs)
  case Nil
  show ?case by (cases "c_strstr CRLF2 r") (simp_all add: option.map_ident)
next
  case (Cons x xs)
  then have "c_prefix CRLF2 (x # xs @ r) = Some False" by auto
  with Cons show ?case
    by (cases "c_strstr CRLF2 r") (auto simp: option.map_comp comp_def)
qed

lemma c_strstr_crlf2_lines:
  assumes "\<forall>l\<in>set ls. line_ok l" and "line_ok l0"
  shows "c_strstr CRLF2 (l0 @ concat (map (\<lambda>l. CRLF @ l) ls) @ CRLF @ CRLF @ r)
     = Some (Some (length l0 + length (concat (map (\<lambda>l. CRLF @ l) ls))))"
  using assms
proof (induction ls arbitrary: l0)
  case Nil
  then show ?case by (simp add: line_ok_def c_strstr_crlf2_skip)
next
  case (Cons l ls)
  let ?r = "l @ concat (map (\<lambda>l. CRLF @ l) ls) @ CRLF @ CRLF @ r"
  from Cons.prems obtain h t where l: "l = h # t" and h: "h \<noteq> CR"
    by (cases l) (auto simp: line_ok_def)
  have IH: "c_strstr CRLF2 ?r = Some (Some (length l + length (concat (map (\<lambda>l. CRLF @ l) ls))))"
    using Cons by simp
  have p1: "c_prefix CRLF2 (CR # LF # ?r) = Some False" using h by (simp add: l)
  have p2: "c_prefix CRLF2 (LF # ?r) = Some False" by simp
  have "c_strstr CRLF2 (CRLF @ ?r)
      = Some (Some (2 + length l + length (concat (map (\<lambda>l. CRLF @ l) ls))))"
    using p1 p2 IH by simp
  then show ?case
    using Cons.prems by (simp add: line_ok_def c_strstr_crlf2_skip)
qed

lemma span_m_SomeD:
  "span_m P s = Some (a, b) \<Longrightarrow> s = a @ b \<and> (\<forall>x\<in>set a. P x) \<and> (\<exists>y ys. b = y # ys \<and> \<not> P y)"
  by (induction s arbitrary: a b) (auto split: if_splits)

lemma span_m_hit [simp]:
  "(\<forall>x\<in>set a. P x) \<Longrightarrow> \<not> P y \<Longrightarrow> span_m P (a @ y # ys) = Some (a, y # ys)"
  by (induction a) auto

lemma strchr_at_SomeD:
  assumes "strchr_at mem p c = Some (Some q)"
  shows "p \<le> q \<and> q < length mem \<and> mem ! q = c"
  using assms by (auto simp: strchr_at_def dest!: c_strchr_SomeD)

lemma strstr_at_SomeD:
  assumes "strstr_at mem p pat = Some (Some q)"
  shows "p \<le> q \<and> q < length mem"
  using assms by (auto simp: strstr_at_def dest!: c_strstr_SomeD)

lemma strchr_at_append:
  assumes "strchr_at mem p c = Some r" shows "strchr_at (mem @ t) p c = Some r"
proof -
  from assms have "p \<le> length mem" by (cases "p \<le> length mem") (auto simp: strchr_at_def)
  with assms show ?thesis by (auto simp: strchr_at_def dest: c_strchr_append)
qed

lemma c_str_id [simp]: "NUL \<notin> set s \<Longrightarrow> c_str s = s"
  unfolding c_str_def by (rule takeWhile_all_id) auto

lemma NUL_notin_c_str [simp]: "NUL \<notin> set (c_str s)"
  unfolding c_str_def by (metis (mono_tags, lifting) set_takeWhileD)

lemma length_c_str_le: "length (c_str s) \<le> length s"
  by (simp add: c_str_def length_takeWhile_le)

section \<open>Lemmas on numbers\<close>

lemma c_isdigit_plain:
  assumes "c_isdigit c"
  shows "\<not> c_isspace c" "c \<noteq> CHR ''-''" "c \<noteq> CHR ''+''" "c \<noteq> CR" "c \<noteq> NUL" "c_isxdigit c"
  using assms by (auto simp: char_class_defs)

lemma c_isxdigit_plain:
  assumes "c_isxdigit c" shows "\<not> c_isspace c" "c \<noteq> CHR ''-''" "c \<noteq> CHR ''+''" "c \<noteq> CR" "c \<noteq> NUL"
  using assms by (auto simp: char_class_defs)

lemma of_char_xdigit:
  "n < 16 \<Longrightarrow> (of_char (xdigit n) :: nat) = (if n < 10 then n + 48 else n + 87)"
  by (simp add: xdigit_def)

lemma xdigit_class:
  assumes "n < 16"
  shows "c_isxdigit (xdigit n)" and "xdigit_val (xdigit n) = n"
  using assms by (auto simp: of_char_xdigit c_isxdigit_def c_isdigit_def xdigit_val_def)

lemma xdigit_isdigit: "n < 10 \<Longrightarrow> c_isdigit (xdigit n)"
  by (simp add: of_char_xdigit c_isdigit_def)

lemma fmt_base_digits:
  assumes "2 \<le> b" shows "\<exists>ns. fmt_base b n = map xdigit ns \<and> ns \<noteq> [] \<and> (\<forall>k\<in>set ns. k < b)"
  using assms
proof (induction n rule: less_induct)
  case (less n)
  show ?case
  proof (cases "n < b")
    case True
    then have "fmt_base b n = map xdigit [n]" by (simp add: fmt_base.simps [of b n])
    with True show ?thesis by (metis list.distinct(1) list.set_cases set_ConsD empty_iff empty_set)
  next
    case False
    with less.prems have "n div b < n" by simp
    with less obtain ns where ns: "fmt_base b (n div b) = map xdigit ns" "ns \<noteq> []" "\<forall>k\<in>set ns. k < b"
      by blast
    with False less.prems have "fmt_base b n = map xdigit (ns @ [n mod b])"
      by (simp add: fmt_base.simps [of b n])
    with ns less.prems show ?thesis by (intro exI [of _ "ns @ [n mod b]"]) auto
  qed
qed

lemma digits_val_snoc [simp]: "digits_val b (xs @ [d]) = digits_val b xs * b + xdigit_val d"
  by (simp add: digits_val_def)

lemma digits_val_fmt_base:
  assumes "2 \<le> b" "b \<le> 16" shows "digits_val b (fmt_base b n) = n"
  using assms
proof (induction n rule: less_induct)
  case (less n)
  show ?case
  proof (cases "n < b")
    case True
    with less.prems show ?thesis
      by (simp add: fmt_base.simps [of b n] digits_val_def xdigit_class)
  next
    case False
    with less have "digits_val b (fmt_base b (n div b)) = n div b" by simp
    moreover have "n mod b < 16"
      using less.prems mod_less_divisor [of b n] by linarith
    ultimately show ?thesis
      using False less.prems by (simp add: fmt_base.simps [of b n] xdigit_class)
  qed
qed

lemma fmt_u_digit: "c \<in> set (fmt_u n) \<Longrightarrow> c_isdigit c"
  using fmt_base_digits [of 10 n] by (auto simp: fmt_u_def xdigit_isdigit)

lemma fmt_x_xdigit: "c \<in> set (fmt_x n) \<Longrightarrow> c_isxdigit c"
  using fmt_base_digits [of 16 n] by (auto simp: fmt_x_def xdigit_class)

lemma fmt_u_nonempty [simp]: "fmt_u n \<noteq> []" and fmt_x_nonempty [simp]: "fmt_x n \<noteq> []"
  using fmt_base_digits [of 10 n] fmt_base_digits [of 16 n] by (auto simp: fmt_u_def fmt_x_def)

lemma scan_sign_plain: "c \<noteq> CHR ''-'' \<Longrightarrow> c \<noteq> CHR ''+'' \<Longrightarrow> scan_sign (c # cs) = Some (False, c # cs)"
  by (simp add: scan_sign_def)

lemma span_m_none_taken: "\<not> P c \<Longrightarrow> span_m P (c # cs) = Some ([], c # cs)"
  by simp

lemma c_atoi_spaces_fmt_u:
  assumes n: "n < 2 ^ 31" and ws: "\<forall>x\<in>set ws. c_isspace x" and y: "\<not> c_isdigit y"
  shows "c_atoi (ws @ fmt_u n @ y # ys) = Some (int n)"
proof -
  obtain d ds where d: "fmt_u n = d # ds" by (cases "fmt_u n") auto
  have dg: "\<forall>x\<in>set (d # ds). c_isdigit x" using fmt_u_digit [of _ n] by (simp add: d)
  then have pl: "\<not> c_isspace d" "d \<noteq> CHR ''-''" "d \<noteq> CHR ''+''" by (auto dest: c_isdigit_plain)
  have v: "digits_val 10 (d # ds) = n"
    using digits_val_fmt_base [of 10 n] by (simp add: d [symmetric] fmt_u_def)
  have "span_m c_isspace (ws @ d # ds @ y # ys) = Some (ws, d # ds @ y # ys)"
    using ws pl by simp
  moreover have "span_m c_isdigit ((d # ds) @ y # ys) = Some (d # ds, y # ys)"
    using dg y by (intro span_m_hit) auto
  moreover have "wrap_int32 (clamp_long (int n)) = int n"
    using n by (simp add: wrap_int32_def clamp_long_def)
  ultimately show ?thesis using pl v by (simp add: c_atoi_def d scan_sign_plain)
qed

lemma c_atoi_fmt_u: "n < 2 ^ 31 \<Longrightarrow> \<not> c_isdigit y \<Longrightarrow> c_atoi (fmt_u n @ y # ys) = Some (int n)"
  using c_atoi_spaces_fmt_u [of n "[]" y ys] by simp

lemma fmt_x_zero [simp]: "fmt_x 0 = ''0''"
proof -
  have "(char_of (48 :: nat) :: char) = CHR ''0''" by (rule char_of_eq_iff [THEN iffD2]) code_simp
  then show ?thesis by (simp add: fmt_x_def fmt_base.simps xdigit_def)
qed

lemma fmt_x_head:
  assumes "fmt_x n = d # ds" "n \<noteq> 0" shows "d \<noteq> CHR ''0''"
  using assms
proof (induction n arbitrary: d ds rule: less_induct)
  case (less n)
  show ?case
  proof (cases "n < 16")
    case True
    with less.prems have "d = xdigit n" by (simp add: fmt_x_def fmt_base.simps [of 16 n])
    with True less.prems(2) xdigit_class(2) [of n] show ?thesis
      by (auto simp: char_class_defs)
  next
    case False
    obtain e es where e: "fmt_x (n div 16) = e # es" by (cases "fmt_x (n div 16)") auto
    with False less.prems have "d = e" by (simp add: fmt_x_def fmt_base.simps [of 16 n])
    with less.IH [of "n div 16" e es] e False show ?thesis by simp
  qed
qed

lemma scan_hex_fmt_x:
  assumes n: "n < 2 ^ 32" and y: "\<not> c_isxdigit y" "c_tolower y \<noteq> CHR ''x''"
  shows "scan_hex (fmt_x n @ y # ys) = Some (Some (of_nat n))"
proof (cases "n = 0")
  case True
  have "span_m c_isxdigit (y # ys) = Some ([], y # ys)" using y by simp
  with True y show ?thesis
    by (simp add: scan_hex_def scan_sign_plain c_isspace_def peek_def digits_val_def ulong_to_u32_def)
next
  case False
  obtain d ds where d: "fmt_x n = d # ds" by (cases "fmt_x n") auto
  have dg: "\<forall>x\<in>set (d # ds). c_isxdigit x" using fmt_x_xdigit [of _ n] by (simp add: d)
  then have pl: "\<not> c_isspace d" "d \<noteq> CHR ''-''" "d \<noteq> CHR ''+''" by (auto dest: c_isxdigit_plain)
  have v: "digits_val 16 (d # ds) = n"
    using digits_val_fmt_base [of 16 n] by (simp add: d [symmetric] fmt_x_def)
  have "span_m c_isxdigit ((d # ds) @ y # ys) = Some (d # ds, y # ys)"
    using dg y by (intro span_m_hit) auto
  with fmt_x_head [OF d False] pl v n show ?thesis
    by (simp add: scan_hex_def d scan_sign_plain peek_def ulong_to_u32_def)
qed

lemma length_fmt_base:
  assumes "2 \<le> b" "n < b ^ k" "0 < k" shows "length (fmt_base b n) \<le> k"
  using assms(2,3)
proof (induction k arbitrary: n)
  case (Suc k)
  show ?case
  proof (cases "n < b")
    case True
    then show ?thesis by (simp add: fmt_base.simps [of b n])
  next
    case False
    then have "k \<noteq> 0" using Suc.prems(1) by (cases k) auto
    moreover have "n div b < b ^ k"
      using Suc.prems(1) by (metis less_mult_imp_div_less mult.commute power_Suc)
    ultimately have "length (fmt_base b (n div b)) \<le> k" using Suc.IH by simp
    with False assms(1) show ?thesis by (simp add: fmt_base.simps [of b n])
  qed
qed simp

end
