(* ===== verification/Buffer.thy ===== *)
theory Buffer
  imports CString
begin

text \<open>
  \<open>CBuffer\<close> of frame/interface/buffer.h: the growable byte buffer that the connections read into
  and write from, and \<open>CHandlerAllocator\<close> of frame/interface/handleralloc.h.

  A buffer is its allocation \<open>cb_base\<close> (a list as long as the allocation), the recorded capacity
  and the write position. The bytes that malloc and realloc hand out are indeterminate: they come
  from a parameter \<open>fresh\<close>, and every theorem holds for all of them.
\<close>

section \<open>State and operations\<close>

definition BUFFER_INIT_CAPACITY :: u32 where "BUFFER_INIT_CAPACITY = 10240"

definition BUFFER_ALIGN :: "u32 \<Rightarrow> u32" where
  "BUFFER_ALIGN sz = and (sz + 2047) (not 2047)"

record cbuffer =
  cb_base :: bytes
  cb_capacity :: u32
  cb_loc :: u32

definition fresh_bytes :: "(nat \<Rightarrow> char) \<Rightarrow> nat \<Rightarrow> nat \<Rightarrow> bytes" where
  "fresh_bytes fresh a b = map fresh [a..<b]"

definition realloc :: "(nat \<Rightarrow> char) \<Rightarrow> bytes \<Rightarrow> nat \<Rightarrow> bytes" where
  "realloc fresh old n = take n old @ fresh_bytes fresh (length old) n"

definition cbuffer_new :: "(nat \<Rightarrow> char) \<Rightarrow> u32 \<Rightarrow> cbuffer" where
  "cbuffer_new fresh cap =
     \<lparr>cb_base = fresh_bytes fresh 0 (unat cap), cb_capacity = cap, cb_loc = 0\<rparr>"

text \<open>\<open>add_capacity()\<close> doubles, \<open>add_capacity(n)\<close> adds; both add modulo \<open>2^32\<close> and reallocate.\<close>

definition add_capacity_by :: "(nat \<Rightarrow> char) \<Rightarrow> u32 \<Rightarrow> cbuffer \<Rightarrow> cbuffer" where
  "add_capacity_by fresh n b =
     (let cap = cb_capacity b + n
      in b\<lparr>cb_capacity := cap, cb_base := realloc fresh (cb_base b) (unat cap)\<rparr>)"

definition add_capacity :: "(nat \<Rightarrow> char) \<Rightarrow> cbuffer \<Rightarrow> cbuffer" where
  "add_capacity fresh b = add_capacity_by fresh (cb_capacity b) b"

text \<open>memcpy into the allocation at the write position: undefined when it does not fit.\<close>

definition cb_memcpy :: "bytes \<Rightarrow> cbuffer \<Rightarrow> cbuffer option" where
  "cb_memcpy p b =
     (let l = unat (cb_loc b)
      in if l + length p \<le> length (cb_base b)
         then Some (b\<lparr>cb_base := take l (cb_base b) @ p @ drop (l + length p) (cb_base b)\<rparr>)
         else None)"

definition inc_loc :: "u32 \<Rightarrow> cbuffer \<Rightarrow> cbuffer" where
  "inc_loc n b = b\<lparr>cb_loc := cb_loc b + n\<rparr>"

definition reset_loc :: "u32 \<Rightarrow> cbuffer \<Rightarrow> cbuffer" where
  "reset_loc n b = b\<lparr>cb_loc := n\<rparr>"

definition cb_left :: "cbuffer \<Rightarrow> u32" where
  "cb_left b = cb_capacity b - cb_loc b"

definition cb_len :: "cbuffer \<Rightarrow> u32" where
  "cb_len b = cb_loc b"

text \<open>
  \<open>append(p, len)\<close>: \<open>loc_ + len > capacity_\<close> is an unsigned 32-bit comparison. The lengths of the
  program's appends are non-negative ints, so \<open>len\<close> is the length of the byte list.
\<close>

definition cb_append :: "(nat \<Rightarrow> char) \<Rightarrow> bytes \<Rightarrow> cbuffer \<Rightarrow> cbuffer option" where
  "cb_append fresh p b = do {
     let len = (of_nat (length p) :: u32);
     let b1 = (if cb_capacity b < cb_loc b + len
               then add_capacity_by fresh (cb_capacity b + len + cb_capacity b) b else b);
     b2 \<leftarrow> cb_memcpy p b1;
     Some (inc_loc len b2)
   }"

text \<open>\<open>append(const char *)\<close> measures its argument with strlen: it stops at the first NUL.\<close>

definition cb_append_cstr :: "(nat \<Rightarrow> char) \<Rightarrow> string \<Rightarrow> cbuffer \<Rightarrow> cbuffer option" where
  "cb_append_cstr fresh s b = cb_append fresh (c_str s) b"

fun cb_append_all :: "(nat \<Rightarrow> char) \<Rightarrow> bytes list \<Rightarrow> cbuffer \<Rightarrow> cbuffer option" where
  "cb_append_all fresh [] b = Some b"
| "cb_append_all fresh (p # ps) b = cb_append fresh p b \<bind> cb_append_all fresh ps"

definition cb_contents :: "cbuffer \<Rightarrow> bytes" where
  "cb_contents b = take (unat (cb_loc b)) (cb_base b)"

section \<open>The handler allocator\<close>

text \<open>
  One fixed block of 160 bytes that serves an allocation when it is free and large enough
  (strictly larger than the request); every other request goes to the heap.
\<close>

definition STORAGE_SIZE :: nat where "STORAGE_SIZE = 160"

datatype block = Storage | Heap nat

record halloc =
  in_use :: bool

definition halloc_new :: halloc where "halloc_new = \<lparr>in_use = False\<rparr>"

definition ha_allocate :: "nat \<Rightarrow> nat \<Rightarrow> halloc \<Rightarrow> block \<times> halloc" where
  \<comment> \<open>the first argument is the address the heap returns when it is asked\<close>
  "ha_allocate addr n a =
     (if \<not> in_use a \<and> n < STORAGE_SIZE then (Storage, a\<lparr>in_use := True\<rparr>) else (Heap addr, a))"

fun ha_deallocate :: "block \<Rightarrow> halloc \<Rightarrow> halloc" where
  "ha_deallocate Storage a = a\<lparr>in_use := False\<rparr>"
| "ha_deallocate (Heap _) a = a"

section \<open>Correctness of the buffer\<close>

definition cbuffer_ok :: "cbuffer \<Rightarrow> bool" where
  "cbuffer_ok b \<longleftrightarrow> length (cb_base b) = unat (cb_capacity b) \<and> cb_loc b \<le> cb_capacity b"

lemma length_fresh_bytes [simp]: "length (fresh_bytes fresh a b) = b - a"
  by (simp add: fresh_bytes_def)

lemma length_realloc [simp]: "length (realloc fresh old n) = n"
  by (simp add: realloc_def)

lemma cbuffer_new_ok [simp]: "cbuffer_ok (cbuffer_new fresh cap)"
  by (simp add: cbuffer_ok_def cbuffer_new_def)

lemma cbuffer_new_contents [simp]: "cb_contents (cbuffer_new fresh cap) = []"
  by (simp add: cb_contents_def cbuffer_new_def)

lemma cb_contents_length: "cbuffer_ok b \<Longrightarrow> length (cb_contents b) = unat (cb_loc b)"
  by (auto simp: cbuffer_ok_def cb_contents_def word_le_nat_alt)

lemma take_realloc: "k \<le> length old \<Longrightarrow> k \<le> n \<Longrightarrow> take k (realloc fresh old n) = take k old"
  by (simp add: realloc_def)

text \<open>Growth keeps the contents as long as the new capacity does not wrap around.\<close>

lemma add_capacity_by_ok:
  assumes "cbuffer_ok b" "unat (cb_capacity b) + unat n < 2 ^ 32"
  shows "cbuffer_ok (add_capacity_by fresh n b)"
    and "cb_contents (add_capacity_by fresh n b) = cb_contents b"
    and "unat (cb_capacity (add_capacity_by fresh n b)) = unat (cb_capacity b) + unat n"
    and "cb_loc (add_capacity_by fresh n b) = cb_loc b"
proof -
  have sum: "unat (cb_capacity b + n) = unat (cb_capacity b) + unat n"
    using assms(2) by (intro unat_add_no_wrap) simp
  then show "unat (cb_capacity (add_capacity_by fresh n b)) = unat (cb_capacity b) + unat n"
    by (simp add: add_capacity_by_def)
  have le: "unat (cb_loc b) \<le> unat (cb_capacity b)" "length (cb_base b) = unat (cb_capacity b)"
    using assms(1) by (auto simp: cbuffer_ok_def word_le_nat_alt)
  then show "cbuffer_ok (add_capacity_by fresh n b)"
    by (simp add: add_capacity_by_def cbuffer_ok_def word_le_nat_alt sum)
  show "cb_contents (add_capacity_by fresh n b) = cb_contents b"
    using le by (simp add: add_capacity_by_def cb_contents_def sum take_realloc)
  show "cb_loc (add_capacity_by fresh n b) = cb_loc b" by (simp add: add_capacity_by_def Let_def)
qed

lemma cb_memcpy_room:
  assumes "cbuffer_ok b" "unat (cb_loc b) + length p \<le> unat (cb_capacity b)"
  shows "\<exists>b2. cb_memcpy p b = Some b2 \<and> cb_contents (inc_loc (of_nat (length p)) b2) = cb_contents b @ p
    \<and> cbuffer_ok (inc_loc (of_nat (length p)) b2) \<and> cb_capacity b2 = cb_capacity b \<and> cb_loc b2 = cb_loc b"
proof -
  have cap: "unat (cb_capacity b) < 2 ^ 32" using unat_u32_lt [of "cb_capacity b"] by simp
  have lp: "unat (of_nat (length p) :: u32) = length p"
    using assms(2) cap by (intro unat_of_nat_small) simp
  have sum: "unat (cb_loc b + of_nat (length p)) = unat (cb_loc b) + length p"
    using assms(2) cap by (subst unat_add_no_wrap) (auto simp: lp)
  have base: "length (cb_base b) = unat (cb_capacity b)" using assms(1) by (simp add: cbuffer_ok_def)
  have tk: "length (take (unat (cb_loc b)) (cb_base b)) = unat (cb_loc b)"
    using assms base by simp
  show ?thesis
    using assms base tk
    by (auto simp: cb_memcpy_def Let_def inc_loc_def cb_contents_def sum cbuffer_ok_def word_le_nat_alt)
qed

definition append_fits :: "nat \<Rightarrow> cbuffer \<Rightarrow> bool" where
  \<comment> \<open>no 32-bit sum that appending \<open>n\<close> bytes may form wraps around\<close>
  "append_fits n b \<longleftrightarrow> 3 * unat (cb_capacity b) + n < 2 ^ 32"

lemma cb_append_ok:
  assumes ok: "cbuffer_ok b" and fits: "append_fits (length p) b"
  shows "\<exists>b'. cb_append fresh p b = Some b' \<and> cbuffer_ok b' \<and> cb_contents b' = cb_contents b @ p
    \<and> unat (cb_capacity b') \<le> 3 * unat (cb_capacity b) + length p
    \<and> (cb_capacity b' = cb_capacity b \<or> unat (cb_capacity b) < unat (cb_loc b) + length p)"
proof -
  let ?c = "cb_capacity b" and ?len = "of_nat (length p) :: u32"
  have lp: "unat ?len = length p" using fits by (intro unat_of_nat_small) (simp add: append_fits_def)
  have loc: "unat (cb_loc b) \<le> unat ?c" using ok by (simp add: cbuffer_ok_def word_le_nat_alt)
  have s1: "unat (cb_loc b + ?len) = unat (cb_loc b) + length p"
    using fits loc by (subst unat_add_no_wrap) (auto simp: lp append_fits_def)
  have s2: "unat (?c + ?len) = unat ?c + length p"
    using fits by (subst unat_add_no_wrap) (auto simp: lp append_fits_def)
  define d where "d = ?c + ?len + ?c"
  have s3: "unat d = 2 * unat ?c + length p"
    using fits s2 unfolding d_def by (subst unat_add_no_wrap) (auto simp: append_fits_def)
  have app: "cb_append fresh p b =
      (if ?c < cb_loc b + ?len then cb_memcpy p (add_capacity_by fresh d b) else cb_memcpy p b)
        \<bind> (\<lambda>b2. Some (inc_loc ?len b2))"
    by (simp add: cb_append_def Let_def d_def)
  show ?thesis
  proof (cases "?c < cb_loc b + ?len")
    case True
    let ?b1 = "add_capacity_by fresh d b"
    note g = add_capacity_by_ok [OF ok, of d fresh]
    have fit: "unat ?c + unat d < 2 ^ 32" using fits by (simp add: s3 append_fits_def)
    have room: "unat (cb_loc ?b1) + length p \<le> unat (cb_capacity ?b1)"
      using loc by (simp add: g [OF fit] s3)
    from cb_memcpy_room [OF g(1) [OF fit] room] True show ?thesis
      by (auto simp: app g [OF fit] s3 inc_loc_def word_less_nat_alt s1)
  next
    case False
    then have room: "unat (cb_loc b) + length p \<le> unat ?c" by (simp add: word_less_nat_alt s1)
    from cb_memcpy_room [OF ok room] False show ?thesis
      by (auto simp: app inc_loc_def)
  qed
qed

lemma cb_append_all_ok:
  assumes "cbuffer_ok b" "unat (cb_capacity b) \<le> 1073741824" "unat (cb_loc b) + length (concat ps) \<le> 268435456"
  shows "\<exists>b'. cb_append_all fresh ps b = Some b' \<and> cbuffer_ok b' \<and> cb_contents b' = cb_contents b @ concat ps
    \<and> unat (cb_capacity b') \<le> 1073741824 \<and> unat (cb_loc b') = unat (cb_loc b) + length (concat ps)"
  using assms
proof (induction ps arbitrary: b)
  case (Cons p ps)
  have "append_fits (length p) b" using Cons(3,4) by (simp add: append_fits_def)
  with cb_append_ok [OF Cons(2)] obtain b1 where b1: "cb_append fresh p b = Some b1" "cbuffer_ok b1"
    "cb_contents b1 = cb_contents b @ p" "unat (cb_capacity b1) \<le> 3 * unat (cb_capacity b) + length p"
    "cb_capacity b1 = cb_capacity b \<or> unat (cb_capacity b) < unat (cb_loc b) + length p" by blast
  have cap: "unat (cb_capacity b1) \<le> 1073741824" using b1(4,5) Cons(3,4) by auto
  have loc: "unat (cb_loc b1) = unat (cb_loc b) + length p"
    using cb_contents_length [OF b1(2)] cb_contents_length [OF Cons(2)] b1(3) by simp
  with Cons(1) [OF b1(2) cap] Cons(4) b1 show ?case by auto
qed simp

text \<open>
  C12. A buffer that starts with at most 1 GiB of capacity and is filled to at most 256 MiB holds exactly the bytes
  appended to it, in order; no append reads or writes outside its allocation, and the 32-bit size
  computations of the growth do not wrap around: the capacity stays at or below 1 GiB.
\<close>

theorem appends_are_kept:
  assumes "cbuffer_ok b" "unat (cb_capacity b) \<le> 2 ^ 30" "unat (cb_loc b) + length (concat ps) \<le> 2 ^ 28"
  shows "\<exists>b'. cb_append_all fresh ps b = Some b' \<and> cb_contents b' = cb_contents b @ concat ps
    \<and> length (cb_base b') = unat (cb_capacity b') \<and> unat (cb_capacity b') \<le> 2 ^ 30"
  using cb_append_all_ok [of b ps fresh] assms by (auto simp: cbuffer_ok_def)

theorem appends_are_kept_witness:
  "\<exists>b'. cb_append_all (\<lambda>_. NUL) [''abc'', [], ''de''] (cbuffer_new (\<lambda>_. NUL) 2) = Some b' \<and> cb_contents b' = ''abcde''
    \<and> length (cb_base b') = unat (cb_capacity b') \<and> unat (cb_capacity b') \<le> 2 ^ 30"
  using appends_are_kept [of "cbuffer_new (\<lambda>_. NUL) 2" "[''abc'', [], ''de'']" "\<lambda>_. NUL"]
  by (simp add: cbuffer_new_def [of _ 2] fresh_bytes_def cbuffer_ok_def cb_contents_def [of "\<lparr>cb_base = _, cb_capacity = _, cb_loc = _\<rparr>"])

text \<open>
  The handler allocator never hands out its block while it is handed out: of two allocations in a row
  at most one is the block, and after the block is given back it can be used again.
\<close>

theorem handler_storage_exclusive:
  "fst (ha_allocate x n a) = Storage \<Longrightarrow> fst (ha_allocate y m (snd (ha_allocate x n a))) \<noteq> Storage
    \<and> (m < STORAGE_SIZE \<longrightarrow> fst (ha_allocate y m (ha_deallocate Storage (snd (ha_allocate x n a)))) = Storage)"
  by (auto simp: ha_allocate_def split: if_splits)

theorem handler_storage_exclusive_witness:
  "fst (ha_allocate 1 64 halloc_new) = Storage \<and> fst (ha_allocate 2 64 (snd (ha_allocate 1 64 halloc_new))) \<noteq> Storage"
proof -
  have "fst (ha_allocate 1 64 halloc_new) = Storage" by (simp add: ha_allocate_def halloc_new_def STORAGE_SIZE_def)
  from handler_storage_exclusive [OF this, of 2 64] this show ?thesis by blast
qed

end
