(* ===== verification/UrlCode.thy ===== *)
theory UrlCode
  imports CString
begin

text \<open>
  The URL encoder and decoder of frame/interface/urlcode.h, and the hex dump of
  frame/interface/loghelper.h that the message classes print.
\<close>

section \<open>Encoding\<close>

definition isOrdinaryChar :: "char \<Rightarrow> bool" where
  "isOrdinaryChar c = (let ch = c_tolower c in c_islower ch \<or> c_isdigit ch)"

text \<open>\<open>sprintf(tmp, "%%%x", (unsigned char)c)\<close>: no leading zero.\<close>

definition url_encode_char :: "char \<Rightarrow> string" where
  "url_encode_char c =
     (if isOrdinaryChar c then [c]
      else if c = SP then ''+''
      else CHR ''%'' # fmt_x (of_char c))"

fun url_encode :: "string \<Rightarrow> string" where
  "url_encode [] = []"
| "url_encode (c # cs) = url_encode_char c @ url_encode cs"

section \<open>Decoding\<close>

definition getAsDec :: "char \<Rightarrow> string" where
  "getAsDec hex =
     (let tmp = c_tolower hex in
      if tmp = CHR ''a'' then ''10''
      else if tmp = CHR ''b'' then ''11''
      else if tmp = CHR ''c'' then ''12''
      else if tmp = CHR ''d'' then ''13''
      else if tmp = CHR ''e'' then ''14''
      else if tmp = CHR ''f'' then ''15''
      else if tmp = CHR ''g'' then ''16''
      else [hex])"

definition hex_digit :: "char \<Rightarrow> int" where
  "hex_digit c = (case c_atoi (getAsDec c @ [NUL]) of Some v \<Rightarrow> v | None \<Rightarrow> 0)"

text \<open>
  The loop adds \<open>digit * 16^(len - 1 - i)\<close> over the characters before the NUL.
\<close>

fun convertToDec_loop :: "string \<Rightarrow> int" where
  "convertToDec_loop [] = 0"
| "convertToDec_loop (c # cs) = 16 ^ length cs * hex_digit c + convertToDec_loop cs"

definition convertToDec :: "string \<Rightarrow> int" where
  "convertToDec hex = convertToDec_loop (c_str hex)"

text \<open>
  \<open>sprintf(tmp, "%c", v)\<close> stores the low byte of \<open>v\<close>; \<open>append(tmp)\<close> stops at a NUL byte.
\<close>

definition decoded_byte :: "char \<Rightarrow> char \<Rightarrow> string" where
  "decoded_byte a b = c_str [char_of (nat (convertToDec [a, b] mod 256))]"

text \<open>
  The decoder reads the memory \<open>s\<close> and stops after \<open>n\<close> characters, except that a percent sign
  always takes the two bytes that follow it, also beyond the given length.
\<close>

fun url_decode :: "bytes \<Rightarrow> nat \<Rightarrow> string option" where
  "url_decode s 0 = Some []"
| "url_decode [] (Suc n) = None"
| "url_decode (c # cs) (Suc n) =
     (if c = CHR ''+'' then map_option (\<lambda>r. SP # r) (url_decode cs n)
      else if c = CHR ''%'' then
        (case cs of
           a # b # rest \<Rightarrow> map_option (\<lambda>r. decoded_byte a b @ r) (url_decode rest (n - 2))
         | _ \<Rightarrow> None)
      else map_option (\<lambda>r. c # r) (url_decode cs n))"

section \<open>Round trip\<close>

lemma c_atoi_single:
  assumes "c_isdigit c" shows "c_atoi [c, NUL] = Some (int (of_char c - 48))"
proof -
  have "span_m c_isdigit ([c] @ [NUL]) = Some ([c], [NUL])"
    using assms by (intro span_m_hit) (auto simp: c_isdigit_def)
  moreover have "(of_char c :: nat) - 48 < 10" using assms by (auto simp: c_isdigit_def)
  ultimately show ?thesis
    using c_isdigit_plain [OF assms] assms
    by (simp add: c_atoi_def scan_sign_plain digits_val_def xdigit_val_def wrap_int32_def clamp_long_def)
qed

lemma hex_digit_digit:
  assumes "c_isdigit c" shows "hex_digit c = int (of_char c - 48)"
proof -
  have t: "c_tolower c = c" using assms by (simp add: c_tolower_def c_isupper_def c_isdigit_def)
  have "c \<notin> set ''abcdefg''" using assms by (auto simp: c_isdigit_def)
  then show ?thesis by (simp add: hex_digit_def getAsDec_def t c_atoi_single assms)
qed

lemma hex_digit_letters:
  "hex_digit CHR ''a'' = 10" "hex_digit CHR ''b'' = 11" "hex_digit CHR ''c'' = 12"
  "hex_digit CHR ''d'' = 13" "hex_digit CHR ''e'' = 14" "hex_digit CHR ''f'' = 15"
  by code_simp+

lemma xdigit_letters:
  "xdigit 10 = CHR ''a''" "xdigit 11 = CHR ''b''" "xdigit 12 = CHR ''c''"
  "xdigit 13 = CHR ''d''" "xdigit 14 = CHR ''e''" "xdigit 15 = CHR ''f''"
  by code_simp+

lemma hex_digit_xdigit:
  assumes "n < 16" shows "hex_digit (xdigit n) = int n"
proof (cases "n < 10")
  case True
  with assms show ?thesis
    by (simp add: hex_digit_digit xdigit_isdigit of_char_xdigit)
next
  case False
  with assms have "n = 10 \<or> n = 11 \<or> n = 12 \<or> n = 13 \<or> n = 14 \<or> n = 15" by linarith
  then show ?thesis by (elim disjE) (simp_all add: xdigit_letters hex_digit_letters)
qed

lemma xdigit_not_NUL: "n < 16 \<Longrightarrow> xdigit n \<noteq> NUL"
  using c_isxdigit_plain(5) xdigit_class(1) by blast

lemma decoded_byte_hex:
  assumes "n < 16" "m < 16" "0 < 16 * n + m"
  shows "decoded_byte (xdigit n) (xdigit m) = [char_of (16 * n + m)]"
proof -
  have "c_str [xdigit n, xdigit m] = [xdigit n, xdigit m]"
    using assms by (intro c_str_id) (auto dest: xdigit_not_NUL [of n] xdigit_not_NUL [of m])
  then have v: "convertToDec [xdigit n, xdigit m] = int (16 * n + m)"
    using assms by (simp add: convertToDec_def hex_digit_xdigit)
  have nz: "(char_of (16 * n + m) :: char) \<noteq> NUL"
  proof
    assume "(char_of (16 * n + m) :: char) = NUL"
    then have "of_char (char_of (16 * n + m) :: char) = (of_char NUL :: nat)" by (rule arg_cong)
    with assms show False by simp
  qed
  have "nat (int (16 * n + m) mod 256) = 16 * n + m" using assms by (simp add: nat_mod_distrib)
  with v nz show ?thesis by (simp only: decoded_byte_def) (simp add: c_str_def)
qed

lemma fmt_x_two:
  assumes "16 \<le> n" "n < 256" shows "fmt_x n = [xdigit (n div 16), xdigit (n mod 16)]"
proof -
  have "n div 16 < 16" using assms by linarith
  with assms show ?thesis
    by (simp add: fmt_x_def fmt_base.simps [of 16 n] fmt_base.simps [of 16 "n div 16"])
qed

lemma ordinary_plain: "isOrdinaryChar c \<Longrightarrow> c \<noteq> CHR ''+'' \<and> c \<noteq> CHR ''%''"
  by (auto simp: isOrdinaryChar_def c_tolower_def c_isupper_def c_islower_def c_isdigit_def)

lemma url_decode_pct:
  "url_decode (CHR ''%'' # a # b # s) (Suc (Suc (Suc n)))
     = map_option (\<lambda>r. decoded_byte a b @ r) (url_decode s n)"
  by simp

lemma url_decode_encode_char:
  assumes "16 \<le> (of_char c :: nat)"
  shows "url_decode (url_encode_char c @ s) (length (url_encode_char c) + n)
     = map_option (\<lambda>r. c # r) (url_decode s n)"
proof (cases "isOrdinaryChar c \<or> c = SP")
  case True
  then show ?thesis using ordinary_plain [of c] by (auto simp: url_encode_char_def)
next
  case False
  let ?k = "of_char c :: nat"
  have f: "fmt_x ?k = [xdigit (?k div 16), xdigit (?k mod 16)]"
    using assms by (intro fmt_x_two) simp_all
  have lt: "?k div 16 < 16" using nat_of_char_less_256 [of c] by linarith
  have "decoded_byte (xdigit (?k div 16)) (xdigit (?k mod 16)) = [char_of (16 * (?k div 16) + ?k mod 16)]"
    using assms lt by (intro decoded_byte_hex) auto
  also have "16 * (?k div 16) + ?k mod 16 = ?k" by simp
  finally have d: "decoded_byte (xdigit (?k div 16)) (xdigit (?k mod 16)) = [c]" by simp
  have e: "url_encode_char c = [CHR ''%'', xdigit (?k div 16), xdigit (?k mod 16)]"
    using False f by (simp add: url_encode_char_def)
  have l: "length (url_encode_char c) + n = Suc (Suc (Suc n))" by (simp add: e)
  show ?thesis
    unfolding l by (simp only: e append_Cons append_Nil url_decode_pct d)
qed

text \<open>
  C16. The URL decoder inverts the URL encoder on every text whose bytes are at least 16, whatever
  memory follows the encoded text, and without reading it.
\<close>

theorem url_roundtrip:
  assumes "\<forall>c\<in>set s. 16 \<le> (of_char c :: nat)"
  shows "url_decode (url_encode s @ rest) (length (url_encode s)) = Some s"
  using assms
proof (induction s)
  case (Cons c cs)
  then have "url_decode (url_encode_char c @ (url_encode cs @ rest))
      (length (url_encode_char c) + length (url_encode cs)) = Some (c # cs)"
    by (subst url_decode_encode_char) simp_all
  then show ?case by simp
qed simp

theorem url_roundtrip_witness:
  "url_decode (url_encode ''a b%7'' @ [NUL]) (length (url_encode ''a b%7'')) = Some ''a b%7''"
  by (rule url_roundtrip) simp

text \<open>
  A byte below 16 is encoded with a single hex digit, and the decoder then swallows the
  character after it: such a byte followed by a digit \<open>d\<close> comes back as the one byte \<open>16 * n + d\<close>.
\<close>

theorem url_roundtrip_breaks_small_bytes:
  assumes "0 < n" "n < 16" "d < 10"
  shows "url_decode (url_encode [char_of n, xdigit d] @ rest) (length (url_encode [char_of n, xdigit d]))
    = Some [char_of (16 * n + d)]"
proof -
  have oc: "of_char (char_of n :: char) = n" using assms by simp
  have no: "\<not> isOrdinaryChar (char_of n)"
    using assms
    by (auto simp: isOrdinaryChar_def c_tolower_def c_isupper_def c_islower_def c_isdigit_def)
  have ns: "(char_of n :: char) \<noteq> SP"
  proof
    assume "(char_of n :: char) = SP"
    then have "of_char (char_of n :: char) = (of_char SP :: nat)" by (rule arg_cong)
    with assms show False by simp
  qed
  have f: "fmt_x n = [xdigit n]" using assms by (simp add: fmt_x_def fmt_base.simps [of 16 n])
  have od: "isOrdinaryChar (xdigit d)"
    using xdigit_isdigit [OF assms(3)]
    by (auto simp: isOrdinaryChar_def c_tolower_def c_isupper_def c_isdigit_def)
  have "url_encode [char_of n, xdigit d] = [CHR ''%'', xdigit n, xdigit d]"
    using no ns od oc f by (simp add: url_encode_char_def)
  moreover have "decoded_byte (xdigit n) (xdigit d) = [char_of (16 * n + d)]"
    using assms by (intro decoded_byte_hex) auto
  ultimately show ?thesis
    using url_decode_pct [of "xdigit n" "xdigit d" rest 0] by simp
qed

theorem url_roundtrip_breaks_small_bytes_witness:
  "url_decode (url_encode [char_of (10 :: nat), xdigit 1] @ []) (length (url_encode [char_of (10 :: nat), xdigit 1]))
    = Some [char_of (161 :: nat)]"
  using url_roundtrip_breaks_small_bytes [of 10 1 "[]"] by simp

section \<open>The hex dump of the log helper\<close>

definition GetVisibleAscii :: "char \<Rightarrow> char" where
  "GetVisibleAscii c = (if 33 \<le> (of_char c :: nat) \<and> (of_char c :: nat) \<le> 126 then c else CHR ''.'')"

definition hex2 :: "char \<Rightarrow> string" where
  "hex2 c = pad_left (CHR ''0'') 2 (fmt_x (of_char c))"

definition dump_index :: "nat \<Rightarrow> nat \<Rightarrow> string" where
  "dump_index indent i = replicate indent SP @ ''['' @ pad_left SP 2 (fmt_u i) @ '']''"

fun sep_words :: "string list \<Rightarrow> string" where
  "sep_words [] = []"
| "sep_words [w] = w"
| "sep_words (w # ws) = w @ SP # sep_words ws"

definition dump_full_line :: "nat \<Rightarrow> nat \<Rightarrow> bytes \<Rightarrow> string" where
  "dump_full_line indent i bs =
     dump_index indent i @ ''  '' @ sep_words (map hex2 bs) @ ''    ''
       @ sep_words (map (\<lambda>c. [GetVisibleAscii c]) bs) @ [LF]"

definition dump_last_line :: "nat \<Rightarrow> nat \<Rightarrow> bytes \<Rightarrow> string" where
  "dump_last_line indent i bs =
     dump_index indent i @ '' '' @ concat (map (\<lambda>c. SP # hex2 c) bs)
       @ replicate ((8 - length bs) * 3 + 3) SP @ concat (map (\<lambda>c. [SP, GetVisibleAscii c]) bs) @ [LF]"

function dump_lines :: "nat \<Rightarrow> nat \<Rightarrow> bytes \<Rightarrow> string" where
  "dump_lines indent i bs =
     (if 8 \<le> length bs then dump_full_line indent i (take 8 bs) @ dump_lines indent (Suc i) (drop 8 bs)
      else if bs = [] then [] else dump_last_line indent i bs)"
  by pat_completeness auto
termination
  by (relation "measure (\<lambda>(indent, i, bs). length bs)") auto

declare dump_lines.simps [simp del]

definition GetBinaryDumpInfo :: "bytes \<Rightarrow> nat \<Rightarrow> string" where
  "GetBinaryDumpInfo buf indent = dump_lines indent 0 buf"

lemma visible_not_LF [simp]: "GetVisibleAscii c \<noteq> LF" "LF \<noteq> GetVisibleAscii c"
  by (auto simp: GetVisibleAscii_def)

lemma hex2_no_LF: "LF \<notin> set (hex2 c)"
proof -
  have "x \<noteq> LF" if "x \<in> set (fmt_x (of_char c))" for x
    using fmt_x_xdigit [OF that] by (auto simp: char_class_defs)
  then show ?thesis by (auto simp: hex2_def pad_left_def)
qed

lemma index_no_LF: "LF \<notin> set (dump_index indent i)"
proof -
  have "x \<noteq> LF" if "x \<in> set (fmt_u i)" for x
    using fmt_u_digit [OF that] by (auto simp: char_class_defs)
  then show ?thesis by (auto simp: dump_index_def pad_left_def)
qed

lemma sep_words_no_LF: "\<forall>w\<in>set ws. LF \<notin> set w \<Longrightarrow> LF \<notin> set (sep_words ws)"
  by (induction ws rule: sep_words.induct) auto

lemma dump_line_one_LF:
  "count_list (dump_full_line indent i bs) LF = 1" "count_list (dump_last_line indent i bs) LF = 1"
proof -
  have a: "LF \<notin> set (sep_words (map hex2 bs))" "LF \<notin> set (sep_words (map (\<lambda>c. [GetVisibleAscii c]) bs))"
    by (rule sep_words_no_LF; auto simp: hex2_no_LF)+
  have b: "LF \<notin> set (concat (map (\<lambda>c. SP # hex2 c) bs))"
    "LF \<notin> set (concat (map (\<lambda>c. [SP, GetVisibleAscii c]) bs))"
    by (auto simp: hex2_no_LF)
  note z = count_notin [of LF]
  show "count_list (dump_full_line indent i bs) LF = 1"
    by (simp add: dump_full_line_def count_list_append z index_no_LF a)
  show "count_list (dump_last_line indent i bs) LF = 1"
    using b by (simp only: dump_last_line_def count_list_append)
      (simp add: z index_no_LF)
qed

text \<open>
  The hex dump of \<open>n\<close> bytes has one line for each started group of eight bytes: dumped
  bytes never inject a line break.
\<close>

theorem dump_line_count: "count_list (GetBinaryDumpInfo buf indent) LF = (length buf + 7) div 8"
proof -
  have "count_list (dump_lines indent i bs) LF = (length bs + 7) div 8" for i bs
  proof (induction indent i bs rule: dump_lines.induct)
    case (1 indent i bs)
    show ?case
    proof (cases "8 \<le> length bs")
      case True
      with 1 show ?thesis
        by (simp add: dump_lines.simps [of indent i bs] count_list_append dump_line_one_LF)
    next
      case False
      have "(length bs + 7) div 8 = (if bs = [] then 0 else 1)"
      proof (cases bs)
        case (Cons c cs)
        with False have "length cs < 7" by simp
        with Cons show ?thesis by simp
      qed simp
      with False show ?thesis
        by (auto simp: dump_lines.simps [of indent i bs] dump_line_one_LF)
    qed
  qed
  then show ?thesis by (simp add: GetBinaryDumpInfo_def)
qed

end
