(* ===== verification/Events.thy ===== *)
theory Events
  imports CString UrlCode
begin

text \<open>
  The protocol numbers (frame/protocol/protocol.h), the error codes
  (frame/interface/errorcode.h) and the event and message classes of frame/event: records that
  extend each other as the structs inherit, and \<open>net_msg\<close> for a pointer to the common base class,
  whose virtual functions dispatch on the constructor.

  Every event carries its address, so that the session theories can say which object was handed
  over and which was deleted. The header and cookie tables are \<open>boost::unordered_map\<close>s: a list
  of distinct keys in no particular order, and whatever iterates over one takes the iteration
  order as a parameter (a function that permutes the list).
\<close>

section \<open>Protocol numbers and error codes\<close>

datatype ESocketType = E_TCP | E_UDP | E_SOCKET

datatype EProtocolType =
  E_PROTOCOL_ERROR | E_PROTOCOL_HTTP | E_PROTOCOL_THRIFT | E_PROTOCOL_FTD | E_PROTOCOL_ALL

fun protocol_num :: "EProtocolType \<Rightarrow> nat" where
  "protocol_num E_PROTOCOL_ERROR = 0"
| "protocol_num E_PROTOCOL_HTTP = 1"
| "protocol_num E_PROTOCOL_THRIFT = 2"
| "protocol_num E_PROTOCOL_FTD = 3"
| "protocol_num E_PROTOCOL_ALL = 4"

datatype EErrorCode = SUCCESS | ERROR_TIME_OUT | ERROR_PEER_CLOSE | ERROR_USER_CLOSE | ERROR_UNDEFINED

fun error_num :: "EErrorCode \<Rightarrow> int" where
  "error_num SUCCESS = 0"
| "error_num ERROR_TIME_OUT = - 10260001"
| "error_num ERROR_PEER_CLOSE = - 10260002"
| "error_num ERROR_USER_CLOSE = - 10260003"
| "error_num ERROR_UNDEFINED = - 10260100"

section \<open>Events\<close>

record sevent =
  ev_addr :: nat
  ev_id :: int

record snet_event = sevent +
  ev_ip :: bytes
  ev_port :: u32
  ev_connid :: u32
  ev_time :: nat
  ev_session_name :: string

definition snet_event_new :: "nat \<Rightarrow> int \<Rightarrow> snet_event" where
  "snet_event_new addr i =
     \<lparr>ev_addr = addr, ev_id = i, ev_ip = replicate 16 NUL, ev_port = 0, ev_connid = 0,
      ev_time = 0, ev_session_name = []\<rparr>"

text \<open>
  \<open>memcpy(ip, iip, strlen(iip))\<close> into an array of 16 bytes: a longer address overruns it.
\<close>

definition event_Init :: "nat \<Rightarrow> string \<Rightarrow> u32 \<Rightarrow> 'a snet_event_scheme \<Rightarrow> 'a snet_event_scheme option" where
  "event_Init now iip pt e = do {
     defined_if (length (c_str iip) \<le> 16);
     Some (e\<lparr>ev_ip := c_str iip @ drop (length (c_str iip)) (ev_ip e), ev_port := pt, ev_time := now\<rparr>)
   }"

definition event_NoticeInfo :: "'a snet_event_scheme \<Rightarrow> string option" where
  "event_NoticeInfo e = do {
     defined_if (NUL \<in> set (ev_ip e));
     Some (snprintf_cut 31 (c_str (ev_ip e) @ '':'' @ fmt_u (unat (ev_port e))))
   }"

definition CONNECTED_EVENT_ID :: int where "CONNECTED_EVENT_ID = 101"
definition PEERCLOSE_EVENT_ID :: int where "PEERCLOSE_EVENT_ID = 102"

section \<open>Messages\<close>

datatype direction = E_Request | E_Response | E_One_Way

record snet_message = snet_event +
  direction :: direction
  isheartbeat :: bool
  code :: int
  ctx :: "nat option"

definition SetReply :: "int \<Rightarrow> 'a snet_message_scheme \<Rightarrow> 'a snet_message_scheme" where
  "SetReply n m = m\<lparr>direction := E_Response, code := n\<rparr>"

definition IsReply :: "'a snet_message_scheme \<Rightarrow> bool" where
  "IsReply m \<longleftrightarrow> direction m = E_Response"

definition snet_message_IsOk :: "'a snet_message_scheme \<Rightarrow> bool" where
  "snet_message_IsOk m \<longleftrightarrow> code m = 0"

datatype EHttpVersion = HTTP_1_0 | HTTP_1_1

record scookie =
  ck_value :: string
  ck_path :: string
  ck_domain :: string
  ck_expires :: int

record shttp_message = snet_message +
  keepalive :: bool
  requestno :: u32
  httpversion :: EHttpVersion
  http_method :: string
  url :: string
  xforwordip :: string
  http_body :: string
  headers :: "(string \<times> string) list"
  cookies :: "(string \<times> scookie) list"

definition shttp_message_new :: "nat \<Rightarrow> shttp_message" where
  "shttp_message_new addr =
     \<lparr>ev_addr = addr, ev_id = int (protocol_num E_PROTOCOL_HTTP), ev_ip = replicate 16 NUL,
      ev_port = 0, ev_connid = 0, ev_time = 0, ev_session_name = [],
      direction = E_Request, isheartbeat = False, code = - 1, ctx = None,
      keepalive = False, requestno = 0, httpversion = HTTP_1_0, http_method = [], url = [],
      xforwordip = [], http_body = [], headers = [], cookies = []\<rparr>"

definition shttp_message_IsOk :: "shttp_message \<Rightarrow> bool" where
  "shttp_message_IsOk m \<longleftrightarrow> code m = 200"

definition AddHeader :: "string \<Rightarrow> string \<Rightarrow> shttp_message \<Rightarrow> shttp_message" where
  "AddHeader key v m = m\<lparr>headers := AList.update key v (headers m)\<rparr>"

definition SetCookie :: "string \<Rightarrow> string \<Rightarrow> string \<Rightarrow> string \<Rightarrow> int \<Rightarrow> shttp_message \<Rightarrow> shttp_message" where
  "SetCookie key v path domain e m =
     m\<lparr>cookies := AList.update key
         \<lparr>ck_value = v, ck_path = path, ck_domain = domain, ck_expires = e\<rparr> (cookies m)\<rparr>"

record sthrift_message = snet_message +
  seqid :: u32
  thrift_method :: string
  thrift_body :: string

definition sthrift_message_new :: "nat \<Rightarrow> sthrift_message" where
  "sthrift_message_new addr =
     \<lparr>ev_addr = addr, ev_id = int (protocol_num E_PROTOCOL_THRIFT), ev_ip = replicate 16 NUL,
      ev_port = 0, ev_connid = 0, ev_time = 0, ev_session_name = [],
      direction = E_Request, isheartbeat = False, code = - 1, ctx = None,
      seqid = 0, thrift_method = [], thrift_body = []\<rparr>"

section \<open>Printing\<close>

definition version_text :: "EHttpVersion \<Rightarrow> string" where
  "version_text v = (if v = HTTP_1_1 then ''HTTP/1.1'' else ''HTTP/1.0'')"

definition http_first_line :: "shttp_message \<Rightarrow> string" where
  "http_first_line m =
     (if direction m = E_Request
      then http_method m @ '' '' @ url m @ '' '' @ version_text (httpversion m) @ CRLF
      else version_text (httpversion m) @ '' '' @ snprintf_cut 31 (fmt_d (code m) @ '' '' @ CRLF))"

definition http_BriefInfo :: "shttp_message \<Rightarrow> string" where
  "http_BriefInfo m = http_first_line m"

definition http_NoticeInfo ::
  "((string \<times> string) list \<Rightarrow> (string \<times> string) list) \<Rightarrow> ((string \<times> scookie) list \<Rightarrow> (string \<times> scookie) list)
     \<Rightarrow> shttp_message \<Rightarrow> string" where
  "http_NoticeInfo iter_h iter_c m =
     (let indent = ''    '' in
      indent @ http_first_line m
        @ concat (map (\<lambda>(k, v). indent @ k @ '': '' @ v @ CRLF) (iter_h (headers m)))
        @ concat (map (\<lambda>(k, c). indent @ ''Cookie: '' @ k @ ''='' @ ck_value c @ '';path='' @ ck_path c
                                @ ''; domain='' @ ck_domain c @ CRLF) (iter_c (cookies m)))
        @ indent @ http_body m)"

definition thrift_BriefInfo :: "sthrift_message \<Rightarrow> string" where
  "thrift_BriefInfo m =
     thrift_method m
       @ snprintf_cut 63 ('', seq['' @ fmt_d (sint (seqid m)) @ ''], code['' @ fmt_d (code m) @ '']'')"

definition thrift_NoticeInfo :: "sthrift_message \<Rightarrow> string" where
  "thrift_NoticeInfo m =
     ''      '' @ thrift_BriefInfo m @ [LF]
       @ (if thrift_body m \<noteq> [] then GetBinaryDumpInfo (thrift_body m) 6 else [])"

section \<open>A pointer to the base class\<close>

datatype net_msg = HttpMsg shttp_message | ThriftMsg sthrift_message

fun nm_addr :: "net_msg \<Rightarrow> nat" where
  "nm_addr (HttpMsg m) = ev_addr m"
| "nm_addr (ThriftMsg m) = ev_addr m"

fun nm_direction :: "net_msg \<Rightarrow> direction" where
  "nm_direction (HttpMsg m) = direction m"
| "nm_direction (ThriftMsg m) = direction m"

fun nm_isheartbeat :: "net_msg \<Rightarrow> bool" where
  "nm_isheartbeat (HttpMsg m) = isheartbeat m"
| "nm_isheartbeat (ThriftMsg m) = isheartbeat m"

fun nm_code :: "net_msg \<Rightarrow> int" where
  "nm_code (HttpMsg m) = code m"
| "nm_code (ThriftMsg m) = code m"

fun nm_ctx :: "net_msg \<Rightarrow> nat option" where
  "nm_ctx (HttpMsg m) = ctx m"
| "nm_ctx (ThriftMsg m) = ctx m"

fun nm_set_ctx :: "nat option \<Rightarrow> net_msg \<Rightarrow> net_msg" where
  "nm_set_ctx c (HttpMsg m) = HttpMsg (m\<lparr>ctx := c\<rparr>)"
| "nm_set_ctx c (ThriftMsg m) = ThriftMsg (m\<lparr>ctx := c\<rparr>)"

fun nm_connid :: "net_msg \<Rightarrow> u32" where
  "nm_connid (HttpMsg m) = ev_connid m"
| "nm_connid (ThriftMsg m) = ev_connid m"

fun nm_set_connid :: "u32 \<Rightarrow> net_msg \<Rightarrow> net_msg" where
  "nm_set_connid c (HttpMsg m) = HttpMsg (m\<lparr>ev_connid := c\<rparr>)"
| "nm_set_connid c (ThriftMsg m) = ThriftMsg (m\<lparr>ev_connid := c\<rparr>)"

fun nm_SetReply :: "int \<Rightarrow> net_msg \<Rightarrow> net_msg" where
  "nm_SetReply n (HttpMsg m) = HttpMsg (SetReply n m)"
| "nm_SetReply n (ThriftMsg m) = ThriftMsg (SetReply n m)"

text \<open>\<open>GetSequenceId\<close> and \<open>IsOk\<close> are virtual: HTTP overrides both, Thrift the first.\<close>

fun GetSequenceId :: "net_msg \<Rightarrow> u32" where
  "GetSequenceId (HttpMsg m) = 0"
| "GetSequenceId (ThriftMsg m) = seqid m"

fun IsOk :: "net_msg \<Rightarrow> bool" where
  "IsOk (HttpMsg m) = shttp_message_IsOk m"
| "IsOk (ThriftMsg m) = snet_message_IsOk m"

fun msg_Init :: "nat \<Rightarrow> string \<Rightarrow> u32 \<Rightarrow> net_msg \<Rightarrow> net_msg option" where
  "msg_Init now iip pt (HttpMsg m) = map_option HttpMsg (event_Init now iip pt m)"
| "msg_Init now iip pt (ThriftMsg m) = map_option ThriftMsg (event_Init now iip pt m)"

fun BriefInfo :: "net_msg \<Rightarrow> string" where
  "BriefInfo (HttpMsg m) = http_BriefInfo m"
| "BriefInfo (ThriftMsg m) = thrift_BriefInfo m"

lemma nm_SetReply_simps [simp]:
  "nm_addr (nm_SetReply n m) = nm_addr m"
  "nm_direction (nm_SetReply n m) = E_Response"
  "nm_code (nm_SetReply n m) = n"
  "nm_ctx (nm_SetReply n m) = nm_ctx m"
  "nm_connid (nm_SetReply n m) = nm_connid m"
  "GetSequenceId (nm_SetReply n m) = GetSequenceId m"
  by (cases m; simp add: SetReply_def)+

lemma nm_set_simps [simp]:
  "nm_addr (nm_set_ctx c m) = nm_addr m"
  "nm_addr (nm_set_connid i m) = nm_addr m"
  "nm_ctx (nm_set_ctx c m) = c"
  "nm_ctx (nm_set_connid i m) = nm_ctx m"
  "nm_connid (nm_set_connid i m) = i"
  "nm_direction (nm_set_ctx c m) = nm_direction m"
  "nm_direction (nm_set_connid i m) = nm_direction m"
  "nm_code (nm_set_ctx c m) = nm_code m"
  "nm_code (nm_set_connid i m) = nm_code m"
  "GetSequenceId (nm_set_ctx c m) = GetSequenceId m"
  "GetSequenceId (nm_set_connid i m) = GetSequenceId m"
  by (cases m; simp)+

lemma AddHeader_lookup: "map_of (headers (AddHeader k v m)) = (map_of (headers m))(k \<mapsto> v)"
  by (simp add: AddHeader_def update_conv')

lemma AddHeader_distinct:
  "distinct (map fst (headers m)) \<Longrightarrow> distinct (map fst (headers (AddHeader k v m)))"
  by (simp add: AddHeader_def distinct_update)

end
