(* ===== verification/BaseParser.thy ===== *)
theory BaseParser
  imports Events Buffer
begin

text \<open>
  What frame/protocol/baseparser.h asks of every parser: the result of \<open>Decode\<close> as a pointer, the
  contract its comment states, and the registry of parser factories (baseparser.cc).
\<close>

section \<open>The result of Decode\<close>

text \<open>
  NULL for an illegal packet, else a pointer into (or past, or before) the buffer, as the offset in
  the memory that the parser was given.
\<close>

datatype decode_ptr = PNull | PAt int

section \<open>The contract\<close>

text \<open>
  The comment of \<open>CBaseParser::Decode\<close> says that the result is NULL, the packet itself (incomplete),
  the end of the data (complete) or the address of the next packet. As a law: a result that is
  neither NULL nor the packet itself lies behind the packet's start and not behind the data.
\<close>

locale packet_decoder =
  fixes dec :: "bytes \<Rightarrow> nat \<Rightarrow> u32 \<Rightarrow> 'm \<Rightarrow> (decode_ptr \<times> 'm) option"
    and max_mem :: nat
  assumes advance:
    "length mem < max_mem \<Longrightarrow> buf + unat len \<le> length mem \<Longrightarrow>
     dec mem buf len m = Some (PAt p, m') \<Longrightarrow> p \<noteq> int buf \<Longrightarrow>
     int buf < p \<and> p \<le> int (buf + unat len)"
begin

lemma remaining_shrinks:
  assumes "length mem < max_mem" "buf + unat len \<le> length mem"
    and "dec mem buf len m = Some (PAt p, m')" "p \<noteq> int buf"
  shows "0 \<le> p" and "buf + unat len - nat p < unat len"
proof -
  from advance [OF assms] have "int buf < p" "p \<le> int (buf + unat len)" by auto
  moreover define e where "e = unat len"
  ultimately show "0 \<le> p" and "buf + unat len - nat p < unat len"
    unfolding e_def [symmetric] by linarith+
qed

end

section \<open>The factory registry\<close>

text \<open>
  \<open>factories_\<close> has one slot for each protocol number below \<open>E_PROTOCOL_ALL\<close>; the static objects of
  httpparser.h and thriftparser.h register themselves when the program starts.
\<close>

datatype parser_kind = HttpParser | ThriftParser

type_synonym parser_registry = "EProtocolType \<Rightarrow> parser_kind option"

definition factories_empty :: parser_registry where "factories_empty = (\<lambda>_. None)"

definition RegisterFactory :: "EProtocolType \<Rightarrow> parser_kind \<Rightarrow> parser_registry \<Rightarrow> parser_registry" where
  "RegisterFactory proto f r = r(proto := Some f)"

definition factories_init :: parser_registry where
  "factories_init =
     RegisterFactory E_PROTOCOL_THRIFT ThriftParser
       (RegisterFactory E_PROTOCOL_HTTP HttpParser factories_empty)"

definition CreateParser :: "parser_registry \<Rightarrow> EProtocolType \<Rightarrow> parser_kind option" where
  "CreateParser r proto =
     (if protocol_num E_PROTOCOL_ALL \<le> protocol_num proto \<or> r proto = None then None else r proto)"

text \<open>
  After the start-up registrations a parser exists for exactly the two protocols that have
  one: the FTD address scheme, which the address parser accepts, has none.
\<close>

theorem parser_created_iff:
  "CreateParser factories_init proto \<noteq> None \<longleftrightarrow> proto \<in> {E_PROTOCOL_HTTP, E_PROTOCOL_THRIFT}"
  by (cases proto) (simp_all add: CreateParser_def factories_init_def RegisterFactory_def factories_empty_def)

end
