(* ===== verification/Thrift.thy ===== *)
theory Thrift
  imports BaseParser
begin

text \<open>
  The framed Thrift parser of frame/protocol/thriftparser.cc on a little-endian host: the header
  struct is loaded from the packet bytes and byte-swapped, lengths are 32-bit unsigned and wrap
  around, and every copy out of the buffer is a read of memory that may not exist.
\<close>

section \<open>Bytes of an integer\<close>

fun le_bytes :: "nat \<Rightarrow> nat \<Rightarrow> bytes" where
  "le_bytes 0 n = []"
| "le_bytes (Suc k) n = char_of (n mod 256) # le_bytes k (n div 256)"

fun le_val :: "bytes \<Rightarrow> nat" where
  "le_val [] = 0"
| "le_val (c # cs) = of_char c + 256 * le_val cs"

lemma length_le_bytes [simp]: "length (le_bytes k n) = k"
  by (induction k arbitrary: n) auto

lemma le_val_le_bytes: "le_val (le_bytes k n) = n mod 256 ^ k"
proof (induction k arbitrary: n)
  case (Suc k)
  have "n mod 256 ^ Suc k = n mod (256 * 256 ^ k)" by simp
  also have "\<dots> = 256 * (n div 256 mod 256 ^ k) + n mod 256" by (rule mod_mult2_eq)
  finally show ?case using Suc by simp
qed simp

lemma le_bytes_le_val: "length bs = k \<Longrightarrow> le_bytes k (le_val bs) = bs"
proof (induction bs arbitrary: k)
  case (Cons c cs)
  have a: "(of_char c + 256 * le_val cs) mod 256 = (of_char c :: nat)" by simp
  have b: "(of_char c + 256 * le_val cs) div 256 = le_val cs" by simp
  from Cons show ?case by (cases k) (auto simp only: le_val.simps le_bytes.simps a b length_Cons, simp_all)
qed simp

lemma le_val_bound: "le_val bs < 256 ^ length bs"
proof (induction bs)
  case (Cons c cs)
  define k N where kN: "k = (of_char c :: nat)" "N = (256 :: nat) ^ length cs"
  have "k < 256" by (simp add: kN)
  moreover from Cons have "Suc (le_val cs) \<le> N" by (simp add: kN)
  ultimately have "k + 256 * le_val cs < 256 * N" by linarith
  then show ?case by (simp add: kN)
qed simp

text \<open>\<open>htonl\<close>, \<open>ntohl\<close> and their 16-bit forms reverse the bytes of the stored value.\<close>

definition store32 :: "u32 \<Rightarrow> bytes" where "store32 w = le_bytes 4 (unat w)"
definition store16 :: "u16 \<Rightarrow> bytes" where "store16 w = le_bytes 2 (unat w)"
definition load32 :: "bytes \<Rightarrow> nat \<Rightarrow> u32 option" where
  "load32 mem p = map_option (\<lambda>bs. of_nat (le_val bs)) (sub mem p 4)"
definition load16 :: "bytes \<Rightarrow> nat \<Rightarrow> u16 option" where
  "load16 mem p = map_option (\<lambda>bs. of_nat (le_val bs)) (sub mem p 2)"
definition bswap32 :: "u32 \<Rightarrow> u32" where "bswap32 w = of_nat (le_val (rev (store32 w)))"
definition bswap16 :: "u16 \<Rightarrow> u16" where "bswap16 w = of_nat (le_val (rev (store16 w)))"

lemma length_store [simp]: "length (store32 w) = 4" "length (store16 h) = 2"
  by (simp_all add: store32_def store16_def)

lemma load_store:
  "of_nat (le_val (store32 w)) = w" "of_nat (le_val (store16 h)) = h"
proof -
  have "unat w < 256 ^ 4" "unat h < 256 ^ 2"
    using unsigned_less [of w, where ?'a = nat] unsigned_less [of h, where ?'a = nat] by simp_all
  then show "of_nat (le_val (store32 w)) = w" "of_nat (le_val (store16 h)) = h"
    by (simp_all add: store32_def store16_def le_val_le_bytes)
qed

lemma store_of_le_val:
  "length bs = 4 \<Longrightarrow> store32 (of_nat (le_val bs)) = bs"
  "length cs = 2 \<Longrightarrow> store16 (of_nat (le_val cs)) = cs"
proof -
  show "length bs = 4 \<Longrightarrow> store32 (of_nat (le_val bs)) = bs"
    using le_val_bound [of bs]
    by (simp add: store32_def unat_of_nat_small le_bytes_le_val)
  show "length cs = 2 \<Longrightarrow> store16 (of_nat (le_val cs)) = cs"
    using le_val_bound [of cs]
    by (simp add: store16_def unat_of_nat_small le_bytes_le_val)
qed

lemma store_bswap: "store32 (bswap32 w) = rev (store32 w)" "store16 (bswap16 h) = rev (store16 h)"
  by (simp_all add: bswap32_def bswap16_def store_of_le_val)

lemma bswap_bswap [simp]: "bswap32 (bswap32 w) = w" "bswap16 (bswap16 h) = h"
  by (simp_all add: bswap32_def [of "bswap32 w"] bswap16_def [of "bswap16 h"] store_bswap load_store)

lemma sub_at: "sub (pre @ bs @ rest) (length pre) (length bs) = Some bs"
  by (simp add: sub_def)

lemma sub_at_eq:
  "p = length pre \<Longrightarrow> n = length bs \<Longrightarrow> sub (pre @ bs @ rest) p n = Some bs"
  by (simp add: sub_def)

lemma load32_at: "load32 (pre @ store32 w @ rest) (length pre) = Some w"
  using sub_at [of pre "store32 w" rest] by (simp add: load32_def load_store)

lemma load16_at: "load16 (pre @ store16 w @ rest) (length pre) = Some w"
  using sub_at [of pre "store16 w" rest] by (simp add: load16_def load_store)

section \<open>The parser\<close>

definition THRIFT_HEAD_SIZE :: nat where "THRIFT_HEAD_SIZE = 12"

record thrift_head =
  th_size :: u32
  th_version :: u16
  th_type :: u16
  th_methodlen :: u32

definition T_CALL :: u16 where "T_CALL = 1"
definition T_REPLY :: u16 where "T_REPLY = 2"
definition T_EXCEPTION :: u16 where "T_EXCEPTION = 3"
definition T_ONEWAY :: u16 where "T_ONEWAY = 4"
definition VERSION_1 :: u16 where "VERSION_1 = 0x8001"

text \<open>The header struct read from the packet and converted to host order.\<close>

definition load_head :: "bytes \<Rightarrow> nat \<Rightarrow> thrift_head option" where
  "load_head mem buf = do {
     sz \<leftarrow> load32 mem buf;
     ver \<leftarrow> load16 mem (buf + 4);
     ty \<leftarrow> load16 mem (buf + 6);
     ml \<leftarrow> load32 mem (buf + 8);
     Some \<lparr>th_size = bswap32 sz, th_version = bswap16 ver, th_type = bswap16 ty, th_methodlen = bswap32 ml\<rparr>
   }"

definition thrift_is_heartbeat_name :: "string \<Rightarrow> bool" where
  "thrift_is_heartbeat_name m \<longleftrightarrow> c_caseeq ''AllsparkHeartBeat'' (m @ [NUL]) = Some True"

definition thrift_decode ::
  "bytes \<Rightarrow> nat \<Rightarrow> u32 \<Rightarrow> sthrift_message \<Rightarrow> (decode_ptr \<times> sthrift_message) option" where
  "thrift_decode mem buf len msg =
     (if len < of_nat THRIFT_HEAD_SIZE then Some (PAt (int buf), msg)
      else do {
        head \<leftarrow> load_head mem buf;
        if len < th_size head + 4 then Some (PAt (int buf), msg)
        else if th_type head \<noteq> T_CALL \<and> th_type head \<noteq> T_ONEWAY \<and> th_type head \<noteq> T_REPLY
        then Some (PNull, msg)
        else do {
          let msg1 = msg\<lparr>direction := (if th_type head = T_REPLY then E_Response else E_Request)\<rparr>;
          let skip = of_nat THRIFT_HEAD_SIZE + th_methodlen head;
          if len < skip then Some (PNull, msg1)
          else do {
            meth \<leftarrow> sub mem (buf + THRIFT_HEAD_SIZE) (unat (th_methodlen head));
            let msg2 = msg1\<lparr>thrift_method := meth\<rparr>;
            let msg3 = (if th_methodlen head = 17 \<and> thrift_is_heartbeat_name meth
                        then msg2\<lparr>isheartbeat := True\<rparr> else msg2);
            sq \<leftarrow> load32 mem (buf + unat skip);
            let skip2 = skip + 4;
            let bodylen = th_size head + 4 - skip2;
            body \<leftarrow> sub mem (buf + unat skip2) (unat bodylen);
            Some (PAt (int (buf + unat skip2 + unat bodylen)), msg3\<lparr>seqid := sq, thrift_body := body\<rparr>)
          }
        }
      })"

definition thrift_encode_head :: "sthrift_message \<Rightarrow> bytes" where
  "thrift_encode_head m =
     store32 (bswap32 (of_nat (THRIFT_HEAD_SIZE + length (thrift_method m) + length (thrift_body m))))
     @ store16 (bswap16 VERSION_1)
     @ store16 (bswap16 (if IsReply m then T_REPLY else T_CALL))
     @ store32 (bswap32 (of_nat (length (thrift_method m))))"

text \<open>The pieces that Encode appends to the buffer, in order.\<close>

definition thrift_encode :: "sthrift_message \<Rightarrow> bytes list" where
  "thrift_encode m =
     [thrift_encode_head m, thrift_method m, store32 (bswap32 (seqid m)), thrift_body m]"

definition thrift_heartbeat :: "nat \<Rightarrow> direction \<Rightarrow> sthrift_message" where
  "thrift_heartbeat addr dir =
     (sthrift_message_new addr)\<lparr>thrift_method := ''HeartBeat'', seqid := 0, direction := dir, isheartbeat := True\<rparr>"

section \<open>Lemmas\<close>

lemma length_thrift_encode_head [simp]: "length (thrift_encode_head m) = 12"
  by (simp add: thrift_encode_head_def)

lemma length_thrift_encode:
  "length (concat (thrift_encode m)) = 16 + length (thrift_method m) + length (thrift_body m)"
  by (simp add: thrift_encode_def)

lemma load_head_stored:
  "load_head (pre @ store32 (bswap32 sz) @ store16 (bswap16 ver) @ store16 (bswap16 ty) @ store32 (bswap32 ml) @ rest)
     (length pre)
   = Some \<lparr>th_size = sz, th_version = ver, th_type = ty, th_methodlen = ml\<rparr>"
proof -
  let ?a = "store32 (bswap32 sz)" and ?b = "store16 (bswap16 ver)"
  let ?c = "store16 (bswap16 ty)" and ?d = "store32 (bswap32 ml)"
  show ?thesis
    using load32_at [of pre _ "?b @ ?c @ ?d @ rest"]
      load16_at [of "pre @ ?a" _ "?c @ ?d @ rest"]
      load16_at [of "pre @ ?a @ ?b" _ "?d @ rest"]
      load32_at [of "pre @ ?a @ ?b @ ?c" _ "rest"]
    unfolding load_head_def by (simp add: ac_simps)
qed

lemma load_head_encoded:
  "load_head (pre @ thrift_encode_head m @ rest) (length pre) = Some
     \<lparr>th_size = of_nat (12 + length (thrift_method m) + length (thrift_body m)),
      th_version = VERSION_1, th_type = (if IsReply m then T_REPLY else T_CALL),
      th_methodlen = of_nat (length (thrift_method m))\<rparr>"
  unfolding thrift_encode_head_def THRIFT_HEAD_SIZE_def append_assoc by (rule load_head_stored)

lemma sub_SomeD: "sub mem p n = Some bs \<Longrightarrow> p + n \<le> length mem \<and> bs = take n (drop p mem)"
  by (simp add: sub_def split: if_splits)

lemma load32_SomeD: "load32 mem p = Some w \<Longrightarrow> p + 4 \<le> length mem"
  by (auto simp: load32_def dest: sub_SomeD)

lemma load_head_defined: "buf + 12 \<le> length mem \<Longrightarrow> \<exists>h. load_head mem buf = Some h"
  by (simp add: load_head_def load32_def load16_def sub_def)


section \<open>Round trip\<close>

definition thrift_fits :: "sthrift_message \<Rightarrow> bool" where
  "thrift_fits m \<longleftrightarrow> 16 + length (thrift_method m) + length (thrift_body m) < 2 ^ 31"

text \<open>What the receiver's message object holds after decoding what the sender encoded.\<close>

definition thrift_received :: "sthrift_message \<Rightarrow> sthrift_message \<Rightarrow> sthrift_message" where
  "thrift_received m msg =
     msg\<lparr>direction := (if IsReply m then E_Response else E_Request),
         thrift_method := thrift_method m,
         isheartbeat := (isheartbeat msg \<or> length (thrift_method m) = 17 \<and> thrift_is_heartbeat_name (thrift_method m)),
         seqid := bswap32 (seqid m), thrift_body := thrift_body m\<rparr>"

lemma T_consts [simp]: "T_REPLY \<noteq> T_CALL" "T_CALL \<noteq> T_REPLY" "T_ONEWAY \<noteq> T_REPLY" "T_REPLY \<noteq> T_ONEWAY"
  by (simp_all add: T_REPLY_def T_CALL_def T_ONEWAY_def)

lemma thrift_decode_encoded:
  assumes fits: "thrift_fits m" and len: "length (concat (thrift_encode m)) \<le> unat len"
  shows "thrift_decode (pre @ concat (thrift_encode m) @ rest) (length pre) len msg
    = Some (PAt (int (length pre + length (concat (thrift_encode m)))), thrift_received m msg)"
proof -
  define l b where lb: "l = length (thrift_method m)" "b = length (thrift_body m)"
  have small: "16 + l + b < 2 ^ 31" using fits by (simp add: thrift_fits_def lb)
  let ?sz = "of_nat (12 + l + b) :: u32"
  have usz: "unat ?sz = 12 + l + b" using small by (intro unat_of_nat_small) simp
  have ul: "unat (of_nat l :: u32) = l" using small by (intro unat_of_nat_small) simp
  have tot: "?sz + 4 = of_nat (16 + l + b)" by simp
  have utot: "unat (of_nat (16 + l + b) :: u32) = 16 + l + b" using small by (intro unat_of_nat_small) simp
  have skip: "(12 :: u32) + of_nat l = of_nat (12 + l)" by simp
  have uskip: "unat (of_nat (12 + l) :: u32) = 12 + l" using small by (intro unat_of_nat_small) simp
  have skip2: "of_nat (12 + l) + (4 :: u32) = of_nat (16 + l)" by simp
  have uskip2: "unat (of_nat (16 + l) :: u32) = 16 + l" using small by (intro unat_of_nat_small) simp
  have body: "of_nat (16 + l + b) - of_nat (16 + l) = (of_nat b :: u32)" by simp
  have ub: "unat (of_nat b :: u32) = b" using small by (intro unat_of_nat_small) simp
  have lent: "length (concat (thrift_encode m)) = 16 + l + b" by (simp add: length_thrift_encode lb)
  have nlt: "\<not> len < 12" "\<not> len < of_nat (16 + l + b)" "\<not> len < of_nat (12 + l)"
    using len utot uskip by (auto simp: lent word_less_nat_alt)
  let ?mem = "pre @ concat (thrift_encode m) @ rest"
  have e: "?mem = pre @ thrift_encode_head m @ (thrift_method m @ store32 (bswap32 (seqid m)) @ thrift_body m @ rest)"
    by (simp add: thrift_encode_def)
  have head: "load_head ?mem (length pre) = Some
     \<lparr>th_size = ?sz, th_version = VERSION_1, th_type = (if IsReply m then T_REPLY else T_CALL),
      th_methodlen = of_nat l\<rparr>"
    unfolding e load_head_encoded by (simp add: lb)
  have meth: "sub ?mem (length pre + 12) l = Some (thrift_method m)"
    unfolding e
    using sub_at_eq [of "length pre + 12" "pre @ thrift_encode_head m" l "thrift_method m"
        "store32 (bswap32 (seqid m)) @ thrift_body m @ rest"] by (simp add: lb)
  have sq: "load32 ?mem (length pre + (12 + l)) = Some (bswap32 (seqid m))"
    unfolding e
    using load32_at [of "pre @ thrift_encode_head m @ thrift_method m" "bswap32 (seqid m)"
        "thrift_body m @ rest"] by (simp add: lb add.assoc)
  have bd: "sub ?mem (length pre + (16 + l)) b = Some (thrift_body m)"
    unfolding e
    using sub_at_eq [of "length pre + (16 + l)"
        "pre @ thrift_encode_head m @ thrift_method m @ store32 (bswap32 (seqid m))" b "thrift_body m" rest]
    by (simp add: lb)
  have ty: "\<not> ((if IsReply m then T_REPLY else T_CALL) \<noteq> T_CALL \<and>
      (if IsReply m then T_REPLY else T_CALL) \<noteq> T_ONEWAY \<and> (if IsReply m then T_REPLY else T_CALL) \<noteq> T_REPLY)"
    by auto
  have seventeen: "(of_nat l :: u32) = 17 \<longleftrightarrow> l = 17"
  proof
    assume "(of_nat l :: u32) = 17"
    then have "unat (of_nat l :: u32) = unat (17 :: u32)" by (rule arg_cong)
    with ul show "l = 17" by simp
  qed simp
  show ?thesis
    unfolding thrift_decode_def THRIFT_HEAD_SIZE_def
    using nlt
    by (cases msg) (auto simp: head ty Let_def tot skip skip2 uskip uskip2 body ub ul meth sq bd
        thrift_received_def lent lb [symmetric] seventeen simp del: of_nat_add)
qed



definition sample_thrift :: sthrift_message where
  "sample_thrift = (sthrift_message_new 7)\<lparr>thrift_method := ''QueryByNo'', seqid := 5, thrift_body := ''xyz''\<rparr>"


lemma take_encoded:
  "12 \<le> n \<Longrightarrow> take n (concat (thrift_encode m)) = thrift_encode_head m
     @ take (n - 12) (thrift_method m @ store32 (bswap32 (seqid m)) @ thrift_body m)"
  by (simp add: thrift_encode_def)

lemma thrift_decode_partial:
  assumes fits: "thrift_fits m" and len: "unat len < length (concat (thrift_encode m))"
  shows "thrift_decode (pre @ take (unat len) (concat (thrift_encode m)) @ stale) (length pre) len msg
    = Some (PAt (int (length pre)), msg)"
proof (cases "len < 12")
  case True
  then show ?thesis by (simp add: thrift_decode_def THRIFT_HEAD_SIZE_def)
next
  case False
  then have n: "12 \<le> unat len" by (simp add: word_less_nat_alt)
  define l b where lb: "l = length (thrift_method m)" "b = length (thrift_body m)"
  have small: "16 + l + b < 2 ^ 31" using fits by (simp add: thrift_fits_def lb)
  have "unat (of_nat (16 + l + b) :: u32) = 16 + l + b" using small by (intro unat_of_nat_small) simp
  then have lt: "len < of_nat (16 + l + b)"
    using len by (simp add: word_less_nat_alt length_thrift_encode lb del: of_nat_add)
  have tot: "(of_nat (12 + l + b) :: u32) + 4 = of_nat (16 + l + b)" by simp
  show ?thesis
    using False lt
    by (simp add: thrift_decode_def THRIFT_HEAD_SIZE_def take_encoded [OF n] load_head_encoded
        lb [symmetric] tot del: of_nat_add)
qed

text \<open>
  A packet of which only a proper part has arrived is incomplete, whatever stale bytes the
  buffer holds behind it: the decoder returns the packet itself and leaves the message alone.
\<close>

theorem thrift_partial_is_incomplete:
  assumes "thrift_fits m" and "unat len < length (concat (thrift_encode m))"
  shows "thrift_decode (pre @ take (unat len) (concat (thrift_encode m)) @ stale) (length pre) len msg
    = Some (PAt (int (length pre)), msg)"
  using assms by (rule thrift_decode_partial)

theorem thrift_partial_is_incomplete_witness:
  "thrift_decode (''p'' @ take (unat (20 :: u32)) (concat (thrift_encode sample_thrift)) @ ''stale'') (length ''p'') 20
      (sthrift_message_new 1)
    = Some (PAt (int (length ''p'')), sthrift_message_new 1)"
  by (rule thrift_partial_is_incomplete)
    (simp_all add: thrift_fits_def sample_thrift_def length_thrift_encode)

section \<open>Memory safety\<close>

text \<open>
  When the decoder has a defined result in a memory below 2 GB, the wrapped lengths cannot have
  wrapped: the result is the packet itself, or it lies at least 16 bytes behind it and within the
  data.
\<close>

lemma unat_add_below:
  fixes a b :: u32
  assumes "unat a + unat b < 2 ^ 32" shows "unat (a + b) = unat a + unat b"
  using assms by (intro unat_add_no_wrap) simp

lemma thrift_decode_advance:
  assumes mem: "length mem < 2 ^ 31" and dec: "thrift_decode mem buf len m = Some (PAt p, m')"
    and p: "p \<noteq> int buf"
  shows "int buf + 16 \<le> p \<and> p \<le> int (buf + unat len)"
proof -
  from p dec obtain head where len: "\<not> len < 12" and head: "load_head mem buf = Some head"
    by (auto simp: thrift_decode_def THRIFT_HEAD_SIZE_def bind_eq_Some_iff split: if_splits)
  define l skip2 bl where "l = th_methodlen head" and "skip2 = 12 + l + 4"
    and "bl = th_size head + 4 - skip2"
  note d = l_def [symmetric] skip2_def [symmetric] bl_def [symmetric]
  from p dec len head have tot: "\<not> len < th_size head + 4"
    by (auto simp: thrift_decode_def THRIFT_HEAD_SIZE_def split: if_splits)
  from p dec len head tot have "buf + 12 + unat l \<le> length mem"
    and bd: "buf + unat skip2 + unat bl \<le> length mem" and pe: "p = int (buf + unat skip2 + unat bl)"
    by (auto simp: thrift_decode_def THRIFT_HEAD_SIZE_def bind_eq_Some_iff Let_def d
        split: if_splits dest!: sub_SomeD)
  then have l: "unat l < 2 ^ 31" using mem by linarith
  have "unat (12 + l) = 12 + unat l" using l by (subst unat_add_below) auto
  then have s2: "unat skip2 = 16 + unat l"
    unfolding skip2_def using l by (subst unat_add_below) auto
  have "unat (skip2 + bl) = unat skip2 + unat bl"
    using bd mem by (intro unat_add_below) simp
  moreover have "skip2 + bl = th_size head + 4" by (simp add: bl_def)
  ultimately have "unat skip2 + unat bl \<le> unat len"
    using tot by (simp add: word_less_nat_alt)
  moreover define q e where "q = buf + unat skip2 + unat bl" and "e = unat len"
  ultimately have "p = int q" "buf + 16 \<le> q" "q \<le> buf + e"
    using pe s2 by simp_all
  then show ?thesis unfolding e_def [symmetric] by linarith
qed

interpretation thrift_wire: packet_decoder thrift_decode "2 ^ 31"
proof unfold_locales
  fix mem buf len and m m' :: sthrift_message and p
  assume "length mem < 2 ^ 31" "thrift_decode mem buf len m = Some (PAt p, m')" "p \<noteq> int buf"
  then show "int buf < p \<and> p \<le> int (buf + unat len)"
    using thrift_decode_advance [of mem buf len m p m'] by simp
qed



text \<open>
  The decoder has no defined result on a frame whose size field is smaller than what the
  header itself needs: with an empty method name and a size of 8 to 11, the body length
  underflows to almost 4 GB and the copy leaves any buffer of a realistic size.
\<close>

theorem thrift_undersized_frame_undefined:
  assumes head: "load_head mem buf = Some h" and "th_methodlen h = 0"
    and "th_type h = T_CALL" and "8 \<le> unat (th_size h)" "unat (th_size h) < 12"
    and "12 \<le> unat len" "unat (th_size h) + 4 \<le> unat len" and "length mem < 2 ^ 31"
  shows "thrift_decode mem buf len msg = None"
proof -
  define s where "s = th_size h"
  have s: "unat s = 8 \<or> unat s = 9 \<or> unat s = 10 \<or> unat s = 11" using assms(4,5) s_def by auto
  moreover have "s = of_nat (unat s)" by simp
  ultimately have "s = of_nat 8 \<or> s = of_nat 9 \<or> s = of_nat 10 \<or> s = of_nat 11"
    by (elim disjE) simp_all
  then have bl: "2 ^ 31 \<le> unat (s + 4 - 16)"
    by (auto simp: unsigned_minus_1_eq_mask mask_eq_exp_minus_1)
  have "unat (s + 4) = unat s + 4" using assms(5) by (subst unat_add_below) (auto simp: s_def)
  then have nlt: "\<not> len < s + 4" "\<not> len < 12"
    using assms(6,7) by (auto simp: s_def word_less_nat_alt)
  have big: "sub mem (buf + 16) (unat (s + 4 - 16)) = None"
    using bl assms(8) by (simp add: sub_def)
  show ?thesis
    using nlt big assms(2,3)
    by (auto simp: thrift_decode_def THRIFT_HEAD_SIZE_def head Let_def s_def [symmetric] bind_eq_None_conv)
qed


definition undersized_frame :: bytes where
  "undersized_frame =
     store32 (bswap32 8) @ store16 (bswap16 VERSION_1) @ store16 (bswap16 T_CALL) @ store32 (bswap32 0)
     @ store32 7"

theorem thrift_undersized_frame_undefined_witness:
  "thrift_decode undersized_frame 0 16 (sthrift_message_new 1) = None"
proof -
  have h: "load_head undersized_frame 0
      = Some \<lparr>th_size = 8, th_version = VERSION_1, th_type = T_CALL, th_methodlen = 0\<rparr>"
    using load_head_stored [of "[]" 8 VERSION_1 T_CALL 0 "store32 7"] by (simp add: undersized_frame_def)
  show ?thesis
    by (rule thrift_undersized_frame_undefined [OF h]) (simp_all add: undersized_frame_def)
qed

section \<open>Sequence numbers and heartbeats on the wire\<close>

text \<open>
  Decode forgets the \<open>ntohl\<close> that Encode's \<open>htonl\<close> asks for, and two of these decoders cancel
  out: a server that is built on this parser and copies the decoded sequence number into its
  response sends a response whose decoded sequence number is the client's own.
\<close>

theorem thrift_seqid_two_hops:
  assumes "thrift_fits req" "length (concat (thrift_encode req)) \<le> unat l1"
    and "thrift_decode (concat (thrift_encode req) @ r1) 0 l1 m1 = Some (p1, srv)"
    and "thrift_fits resp" "length (concat (thrift_encode resp)) \<le> unat l2"
    and "seqid resp = seqid srv"
    and "thrift_decode (concat (thrift_encode resp) @ r2) 0 l2 m2 = Some (p2, cli)"
  shows "seqid cli = seqid req"
proof -
  have "srv = thrift_received req m1"
    using assms(3) thrift_decode_encoded [OF assms(1,2), of "[]" r1 m1] by simp
  moreover have "cli = thrift_received resp m2"
    using assms(7) thrift_decode_encoded [OF assms(4,5), of "[]" r2 m2] by simp
  ultimately show ?thesis using assms(6) by (simp add: thrift_received_def)
qed

theorem thrift_seqid_two_hops_witness:
  "seqid (thrift_received (sample_thrift\<lparr>seqid := bswap32 5\<rparr>) (sthrift_message_new 2)) = seqid sample_thrift"
proof (rule thrift_seqid_two_hops)
  show "thrift_fits sample_thrift" "thrift_fits (sample_thrift\<lparr>seqid := bswap32 5\<rparr>)"
    by (simp_all add: thrift_fits_def sample_thrift_def)
  show "length (concat (thrift_encode sample_thrift)) \<le> unat (30 :: u32)"
    "length (concat (thrift_encode (sample_thrift\<lparr>seqid := bswap32 5\<rparr>))) \<le> unat (30 :: u32)"
    by (simp_all add: length_thrift_encode sample_thrift_def)
  then show "thrift_decode (concat (thrift_encode sample_thrift) @ ''zz'') 0 30 (sthrift_message_new 1)
      = Some (PAt 28, thrift_received sample_thrift (sthrift_message_new 1))"
    "thrift_decode (concat (thrift_encode (sample_thrift\<lparr>seqid := bswap32 5\<rparr>)) @ ''zz'') 0 30 (sthrift_message_new 2)
      = Some (PAt 28, thrift_received (sample_thrift\<lparr>seqid := bswap32 5\<rparr>) (sthrift_message_new 2))"
    using thrift_decode_encoded [of sample_thrift 30 "[]" "''zz''" "sthrift_message_new 1"]
      thrift_decode_encoded [of "sample_thrift\<lparr>seqid := bswap32 5\<rparr>" 30 "[]" "''zz''" "sthrift_message_new 2"]
    by (simp_all add: length_thrift_encode sample_thrift_def thrift_fits_def)
  show "seqid (sample_thrift\<lparr>seqid := bswap32 5\<rparr>) = seqid (thrift_received sample_thrift (sthrift_message_new 1))"
    by (simp add: thrift_received_def sample_thrift_def)
qed

text \<open>
  A peer that answers with the sequence number the protocol asks for (the number of the
  request, sent in network order) is misread: the client decodes its byte reversal.
\<close>

theorem thrift_seqid_conforming_peer:
  assumes "thrift_fits resp" "length (concat (thrift_encode resp)) \<le> unat len"
    and "seqid resp = seqid req"
    and "thrift_decode (concat (thrift_encode resp) @ rest) 0 len m = Some (p, cli)"
  shows "seqid cli = bswap32 (seqid req)"
  using assms(3,4) thrift_decode_encoded [OF assms(1,2), of "[]" rest m]
  by (simp add: thrift_received_def)

theorem thrift_seqid_conforming_peer_witness:
  "seqid (thrift_received sample_thrift (sthrift_message_new 2)) = bswap32 (seqid sample_thrift)
     \<and> bswap32 (seqid sample_thrift) \<noteq> seqid sample_thrift"
proof
  show "seqid (thrift_received sample_thrift (sthrift_message_new 2)) = bswap32 (seqid sample_thrift)"
  proof (rule thrift_seqid_conforming_peer)
    show "thrift_fits sample_thrift" by (simp add: thrift_fits_def sample_thrift_def)
    show "length (concat (thrift_encode sample_thrift)) \<le> unat (30 :: u32)"
      by (simp add: length_thrift_encode sample_thrift_def)
    show "thrift_decode (concat (thrift_encode sample_thrift) @ ''zz'') 0 30 (sthrift_message_new 2)
      = Some (PAt 28, thrift_received sample_thrift (sthrift_message_new 2))"
      using thrift_decode_encoded [of sample_thrift 30 "[]" "''zz''" "sthrift_message_new 2"]
      by (simp add: length_thrift_encode sample_thrift_def thrift_fits_def)
  qed simp
  have four: "(4 :: nat) = Suc (Suc (Suc (Suc 0)))" by simp
  have "bswap32 5 = 0x05000000" by (simp only: bswap32_def store32_def four le_bytes.simps) simp
  then show "bswap32 (seqid sample_thrift) \<noteq> seqid sample_thrift" by (simp add: sample_thrift_def)
qed

text \<open>
  The parser does not recognise its own heartbeat: what CreateHeartBeatMessage builds decodes
  to a message that is not marked as a heartbeat, because Decode looks for another method name.
\<close>

theorem thrift_own_heartbeat_not_recognised:
  "\<exists>m. thrift_decode (concat (thrift_encode (thrift_heartbeat a dir)) @ rest) 0
         (of_nat (length (concat (thrift_encode (thrift_heartbeat a dir))))) (sthrift_message_new b)
       = Some (PAt (int (length (concat (thrift_encode (thrift_heartbeat a dir))))), m)
     \<and> thrift_method m = ''HeartBeat'' \<and> \<not> isheartbeat m"
proof -
  let ?h = "thrift_heartbeat a dir"
  have "thrift_fits ?h" by (simp add: thrift_fits_def thrift_heartbeat_def sthrift_message_new_def)
  moreover have "length (concat (thrift_encode ?h)) = 25"
    by (simp add: length_thrift_encode thrift_heartbeat_def sthrift_message_new_def)
  ultimately show ?thesis
    using thrift_decode_encoded [of ?h 25 "[]" rest "sthrift_message_new b"]
    by (simp add: thrift_received_def thrift_heartbeat_def sthrift_message_new_def)
qed

end
