(* ===== verification/HttpDecode.thy ===== *)
theory HttpDecode
  imports BaseParser
begin

text \<open>
  The decoding half of frame/protocol/httpparser.cc: request and status lines, header lines,
  cookies, chunked and length-delimited bodies, as pointer arithmetic on the connection's buffer.

  The decoder is given the whole memory \<open>mem\<close> of the buffer, the packet's offset \<open>buf\<close> and the
  number \<open>len\<close> of received bytes. Its searches (strchr, strstr, sscanf) do not know \<open>len\<close>: they read
  on into whatever the buffer holds behind the data, and leave the memory where nothing stops
  them. strptime with mktime depends on the process's time zone and is a parameter of the model.
\<close>

section \<open>Trimming\<close>

text \<open>
  Both loops stop before they would drop the last character, so a blank field keeps one space.
  For an empty field the loops still read the two bytes around it.
\<close>

fun trim_left :: "string \<Rightarrow> string" where
  "trim_left (x # y # r) = (if x = SP then trim_left (y # r) else x # y # r)"
| "trim_left xs = xs"

definition trim_right :: "string \<Rightarrow> string" where
  "trim_right w = rev (trim_left (rev w))"

definition trim :: "bytes \<Rightarrow> nat \<Rightarrow> nat \<Rightarrow> bool \<Rightarrow> string option" where
  "trim mem p n tolowercase =
     (if n = 0 then do { defined_if (0 < p \<and> p < length mem); Some [] }
      else do {
        w \<leftarrow> sub mem p n;
        Some (map (\<lambda>c. if tolowercase then c_tolower c else c) (trim_right (trim_left w)))
      })"

section \<open>Header values\<close>

definition str_caseeq :: "string \<Rightarrow> string \<Rightarrow> bool" where
  \<comment> \<open>\<open>s.length() == n && strncasecmp(s.c_str(), lit, n) == 0\<close>\<close>
  "str_caseeq s lit \<longleftrightarrow> length s = length lit \<and> c_caseeq lit (s @ [NUL]) = Some True"

definition httptime_parse :: "(string \<Rightarrow> int option) \<Rightarrow> string \<Rightarrow> int" where
  "httptime_parse strptime_mktime s =
     (case strptime_mktime (c_str s) of None \<Rightarrow> 0 | Some t \<Rightarrow> if t > 0 then t else 0)"

record cookie_state =
  cs_begin :: nat
  cs_split1 :: nat
  cs_split2 :: nat
  cs_key :: string
  cs_value :: string
  cs_path :: string
  cs_domain :: string
  cs_expires :: int

definition cookie_start :: cookie_state where
  "cookie_start = \<lparr>cs_begin = 0, cs_split1 = 0, cs_split2 = 0, cs_key = [], cs_value = [],
     cs_path = [], cs_domain = [], cs_expires = 0\<rparr>"

fun skip_spaces :: "bytes \<Rightarrow> nat \<Rightarrow> nat \<Rightarrow> nat" where
  \<comment> \<open>the second argument counts what is left before \<open>end\<close>\<close>
  "skip_spaces s 0 p = p"
| "skip_spaces s (Suc n) p = (if p < length s \<and> s ! p = SP then skip_spaces s n (Suc p) else p)"

text \<open>One attribute \<open>name=value\<close> between \<open>begin\<close>, \<open>split1\<close> and \<open>split2\<close>.\<close>

definition cookie_attr :: "(string \<Rightarrow> int option) \<Rightarrow> bytes \<Rightarrow> cookie_state \<Rightarrow> cookie_state option" where
  "cookie_attr spt s c = do {
     let b = cs_begin c;
     let v = take (cs_split2 c - cs_split1 c - 1) (drop (cs_split1 c + 1) s);
     is_path \<leftarrow> c_caseeq ''path'' (drop b s @ [NUL]);
     is_domain \<leftarrow> (if is_path then Some False else c_caseeq ''domain'' (drop b s @ [NUL]));
     is_expires \<leftarrow> (if is_path \<or> is_domain then Some False else c_caseeq ''expires'' (drop b s @ [NUL]));
     let c1 = (if is_path then c\<lparr>cs_path := cs_path c @ v\<rparr>
               else if is_domain then c\<lparr>cs_domain := cs_domain c @ v\<rparr>
               else if is_expires then c\<lparr>cs_expires := httptime_parse spt v\<rparr>
               else c\<lparr>cs_key := cs_key c @ take (cs_split1 c - b) (drop b s), cs_value := cs_value c @ v\<rparr>);
     let b1 = cs_split2 c + 1;
     Some (c1\<lparr>cs_begin := skip_spaces s (length s - b1) b1\<rparr>)
   }"

definition cookie_char :: "(string \<Rightarrow> int option) \<Rightarrow> bytes \<Rightarrow> nat \<Rightarrow> cookie_state \<Rightarrow> cookie_state option" where
  "cookie_char spt s p c =
     (if \<not> cs_begin c < length s then Some c
      else
        let c1 = (if s ! p = CHR ''='' then c\<lparr>cs_split1 := p\<rparr>
                  else if s ! p = CHR '';'' then c\<lparr>cs_split2 := p\<rparr>
                  else if Suc p = length s then c\<lparr>cs_split2 := length s\<rparr>
                  else c)
        in if cs_begin c1 < cs_split1 c1 \<and> cs_split1 c1 + 1 \<le> cs_split2 c1
           then cookie_attr spt s c1 else Some c1)"

fun cookie_loop :: "(string \<Rightarrow> int option) \<Rightarrow> bytes \<Rightarrow> nat list \<Rightarrow> cookie_state \<Rightarrow> cookie_state option" where
  "cookie_loop spt s [] c = Some c"
| "cookie_loop spt s (p # ps) c = cookie_char spt s p c \<bind> cookie_loop spt s ps"

definition DecodeCookie :: "(string \<Rightarrow> int option) \<Rightarrow> string \<Rightarrow> shttp_message \<Rightarrow> shttp_message option" where
  "DecodeCookie spt s m = do {
     c \<leftarrow> cookie_loop spt s [0..<length s] cookie_start;
     Some (if cs_key c \<noteq> [] then SetCookie (cs_key c) (cs_value c) (cs_path c) (cs_domain c) (cs_expires c) m
           else m)
   }"

record http_parser =
  contentlen :: int
  ischunked :: bool

definition http_parser_new :: http_parser where
  "http_parser_new = \<lparr>contentlen = 0, ischunked = False\<rparr>"

definition ParseHeader ::
  "(string \<Rightarrow> int option) \<Rightarrow> string \<Rightarrow> string \<Rightarrow> http_parser \<Rightarrow> shttp_message
     \<Rightarrow> (http_parser \<times> shttp_message) option" where
  "ParseHeader spt key v ps m =
     (if str_caseeq key ''connection'' then
        Some (ps, if str_caseeq v ''close'' then m\<lparr>keepalive := False\<rparr>
                  else if str_caseeq v ''keep-alive'' then m\<lparr>keepalive := True\<rparr>
                  else m)
      else if str_caseeq key ''x-forwarded-for'' then
        Some (ps, m\<lparr>xforwordip := takeWhile (\<lambda>c. c \<noteq> CHR '','') v\<rparr>)
      else if str_caseeq key ''content-length'' then do {
        n \<leftarrow> c_atoi (v @ [NUL]);
        Some (ps\<lparr>contentlen := n\<rparr>, m)
      }
      else if str_caseeq key ''Transfer-Encoding'' \<and> str_caseeq v ''chunked'' then
        Some (ps\<lparr>ischunked := True\<rparr>, m)
      else if str_caseeq key ''Set-Cookie'' then
        map_option (\<lambda>m'. (ps, m')) (DecodeCookie spt v m)
      else Some (ps, m))"

section \<open>Header lines\<close>

text \<open>One turn of the loop: \<open>begin\<close> and \<open>end\<close> delimit the line.\<close>

definition header_line ::
  "(string \<Rightarrow> int option) \<Rightarrow> bytes \<Rightarrow> nat \<Rightarrow> nat \<Rightarrow> http_parser \<Rightarrow> shttp_message
     \<Rightarrow> (http_parser \<times> shttp_message) option" where
  "header_line spt mem b e ps m = do {
     co \<leftarrow> strchr_at mem b (CHR '':'');
     (case co of
        Some colon \<Rightarrow>
          if colon < e then do {
            key \<leftarrow> trim mem b (colon - b) True;
            v \<leftarrow> trim mem (colon + 1) (e - colon - 1) False;
            ParseHeader spt key v ps (AddHeader key v m)
          } else Some (ps, m)
      | None \<Rightarrow> Some (ps, m))
   }"

function header_loop ::
  "(string \<Rightarrow> int option) \<Rightarrow> bytes \<Rightarrow> nat \<Rightarrow> nat \<Rightarrow> nat option \<Rightarrow> http_parser \<Rightarrow> shttp_message
     \<Rightarrow> (http_parser \<times> shttp_message) option" where
  "header_loop spt mem headend b None ps m = Some (ps, m)"
| "header_loop spt mem headend b (Some e) ps m =
     (if b < headend \<and> e \<le> headend then do {
        (ps1, m1) \<leftarrow> header_line spt mem b e ps m;
        e' \<leftarrow> strstr_at mem (e + 2) CRLF;
        header_loop spt mem headend (e + 2) e' ps1 m1
      } else Some (ps, m))"
  by pat_completeness auto
termination
  by (relation "measure (\<lambda>(spt, mem, headend, b, eo, ps, m). case eo of None \<Rightarrow> 0 | Some e \<Rightarrow> Suc headend - e)")
    (auto dest!: strstr_at_SomeD split: option.splits)

section \<open>Chunks\<close>

text \<open>
  \<open>lim\<close> is \<open>buf + len\<close>. The result is \<open>Inl p\<close> for \<open>return p\<close> inside the loop and \<open>Inr begin\<close> when
  the loop is left; a chunk header without a CRLF makes the code add to a NULL pointer.
\<close>

function chunk_loop ::
  "bytes \<Rightarrow> nat \<Rightarrow> nat \<Rightarrow> nat \<Rightarrow> shttp_message \<Rightarrow> ((decode_ptr + nat) \<times> shttp_message) option" where
  "chunk_loop mem buf lim b m =
     (if lim < b then Some (Inr b, m)
      else do {
        r \<leftarrow> scan_hex (drop b mem);
        (case r of
           None \<Rightarrow> Some (Inl PNull, m)
         | Some w \<Rightarrow>
             if sint w < 0 then Some (Inl PNull, m)
             else do {
               q \<leftarrow> strstr_at mem b CRLF;
               (case q of
                  None \<Rightarrow> None
                | Some e \<Rightarrow>
                    let b1 = e + 2; n = unat w in
                    if n = 0 then Some (Inr b1, m)
                    else if lim < b1 + n then Some (Inl (PAt (int buf)), m)
                    else do {
                      d \<leftarrow> sub mem b1 n;
                      chunk_loop mem buf lim (b1 + n + 2) (m\<lparr>http_body := http_body m @ d\<rparr>)
                    })
             })
      })"
  by pat_completeness auto
termination
  by (relation "measure (\<lambda>(mem, buf, lim, b, m). Suc lim - b)")
    (auto dest!: strstr_at_SomeD split: option.splits)

declare chunk_loop.simps [simp del]

section \<open>Decode\<close>

definition http_keywords :: "string list" where
  "http_keywords = [''GET'', ''POST'', ''HEAD'', ''TRACE'', ''PUT'', ''DELETE'', ''OPTIONS'', ''CONNECT'', ''HTTP/'']"

text \<open>The chain of strncasecmp tests, in the code's order.\<close>

fun first_keyword :: "bytes \<Rightarrow> nat \<Rightarrow> string list \<Rightarrow> string option option" where
  "first_keyword mem p [] = Some None"
| "first_keyword mem p (k # ks) = do {
     b \<leftarrow> caseeq_at mem p k;
     if b then Some (Some k) else first_keyword mem p ks
   }"

text \<open>From behind the first line on: headers and body.\<close>

definition http_body_part ::
  "bytes \<Rightarrow> nat \<Rightarrow> nat \<Rightarrow> nat \<Rightarrow> http_parser \<Rightarrow> shttp_message
     \<Rightarrow> (decode_ptr \<times> http_parser \<times> shttp_message) option" where
  "http_body_part mem buf lim b ps m =
     (if ischunked ps then do {
        (r, m1) \<leftarrow> chunk_loop mem buf lim b m;
        Some (case r of Inl p \<Rightarrow> p | Inr e \<Rightarrow> PAt (int e + 2), ps, m1)
      }
      else if int lim < int b + contentlen ps then Some (PAt (int buf), ps, m)
      else do {
        m1 \<leftarrow> (if contentlen ps > 0
               then map_option (\<lambda>d. m\<lparr>http_body := d\<rparr>) (sub mem b (nat (contentlen ps)))
               else Some m);
        Some (PAt (int b + contentlen ps), ps, m1)
      })"

definition http_headers_part ::
  "(string \<Rightarrow> int option) \<Rightarrow> bytes \<Rightarrow> nat \<Rightarrow> nat \<Rightarrow> nat \<Rightarrow> http_parser \<Rightarrow> shttp_message
     \<Rightarrow> (decode_ptr \<times> http_parser \<times> shttp_message) option" where
  "http_headers_part spt mem buf lim b ps m = do {
     ho \<leftarrow> strstr_at mem b CRLF2;
     (case ho of
        None \<Rightarrow> Some (PAt (int buf), ps, m)
      | Some headend \<Rightarrow>
          if lim < headend then Some (PAt (int buf), ps, m)
          else do {
            e \<leftarrow> strstr_at mem b CRLF;
            (ps1, m1) \<leftarrow> header_loop spt mem headend b e ps m;
            http_body_part mem buf lim (headend + 4) ps1 m1
          })
   }"

text \<open>The version number at \<open>b\<close>: \<open>None\<close> inside when it is neither 1.1 nor 1.0.\<close>

definition http_version_at :: "bytes \<Rightarrow> nat \<Rightarrow> shttp_message \<Rightarrow> shttp_message option option" where
  "http_version_at mem b m = do {
     v11 \<leftarrow> caseeq_at mem b ''1.1'';
     if v11 then Some (Some (m\<lparr>httpversion := HTTP_1_1, keepalive := True\<rparr>))
     else do {
       v10 \<leftarrow> caseeq_at mem b ''1.0'';
       Some (if v10 then Some (m\<lparr>httpversion := HTTP_1_0, keepalive := False\<rparr>) else None)
     }
   }"

definition http_decode ::
  "(string \<Rightarrow> int option) \<Rightarrow> bytes \<Rightarrow> nat \<Rightarrow> nat \<Rightarrow> http_parser \<Rightarrow> shttp_message
     \<Rightarrow> (decode_ptr \<times> http_parser \<times> shttp_message) option" where
  "http_decode spt mem buf len ps0 msg =
     (if len < 16 then Some (PAt (int buf), ps0, msg)
      else do {
        let ps = ps0\<lparr>contentlen := 0, ischunked := False\<rparr>;
        let lim = buf + len;
        kw \<leftarrow> first_keyword mem buf http_keywords;
        (case kw of
           None \<Rightarrow> Some (PNull, ps, msg)
         | Some k \<Rightarrow>
             if k \<noteq> ''HTTP/'' then do {
               meth \<leftarrow> sub mem buf (length k);
               let m1 = msg\<lparr>http_method := meth\<rparr>;
               let b = buf + length k + 1;
               eo \<leftarrow> strchr_at mem b SP;
               (case eo of
                  None \<Rightarrow> Some (PNull, ps, m1)
                | Some e \<Rightarrow>
                    if lim \<le> e + 9 then Some (PNull, ps, m1)
                    else do {
                      u \<leftarrow> sub mem b (e - b);
                      let m2 = m1\<lparr>url := u\<rparr>;
                      vo \<leftarrow> http_version_at mem (e + 6) m2;
                      (case vo of
                         None \<Rightarrow> Some (PNull, ps, m2)
                       | Some m3 \<Rightarrow> http_headers_part spt mem buf lim (e + 11) ps m3)
                    })
             } else do {
               let b = buf + 5;
               vo \<leftarrow> http_version_at mem b msg;
               (case vo of
                  None \<Rightarrow> Some (PNull, ps, msg)
                | Some m1 \<Rightarrow> do {
                    c \<leftarrow> peek mem (b + 3);
                    if c \<noteq> SP then Some (PNull, ps, m1)
                    else do {
                      n \<leftarrow> c_atoi (drop (b + 4) mem);
                      let m2 = SetReply n m1;
                      lo \<leftarrow> strstr_at mem (buf + 1) CRLF;
                      (case lo of
                         None \<Rightarrow> Some (PNull, ps, m2)
                       | Some l \<Rightarrow>
                           if lim \<le> l then Some (PNull, ps, m2)
                           else http_headers_part spt mem buf lim (l + 2) ps m2)
                    }
                  })
             })
      })"

end
