(* ===== verification/HttpEncode.thy ===== *)
theory HttpEncode
  imports BaseParser
begin

text \<open>
  The encoding half of frame/protocol/httpparser.cc. The encoders are modelled as the list of byte
  strings that they append to the output buffer, in order; an \<open>append(s.c_str())\<close> contributes the
  bytes of \<open>s\<close> up to its first NUL.

  Three things come from outside: the iteration orders of the two unordered maps, and the text
  that gmtime and strftime write for a time (\<open>he_date\<close>); \<open>he_now\<close> is the result of time(NULL).
\<close>

section \<open>The environment and the defaults\<close>

record http_env =
  he_iter_h :: "(string \<times> string) list \<Rightarrow> (string \<times> string) list"
  he_iter_c :: "(string \<times> scookie) list \<Rightarrow> (string \<times> scookie) list"
  he_date :: "int \<Rightarrow> string"
  he_now :: int

definition http_env_ok :: "http_env \<Rightarrow> bool" where
  "http_env_ok env \<longleftrightarrow> iter_perm (he_iter_h env) \<and> iter_perm (he_iter_c env)"

definition httptime :: "http_env \<Rightarrow> int \<Rightarrow> string" where
  "httptime env t = c_str (he_date env t)"

text \<open>The static maps, in the order in which a \<open>std::map\<close> iterates.\<close>

definition sm_default_header :: "(string \<times> string) list" where
  "sm_default_header =
     [(''Cache-Control'', ''no-cache''),
      (''Content-Type'', ''text/html; charset=utf-8''),
      (''Server'', ''Ape Http Server 1.0'')]"

definition sm_default_request_header :: "(string \<times> string) list" where
  "sm_default_request_header = [(''User-Agent'', ''ApeHttpClient'')]"

definition status_table :: "(int \<times> string) list" where
  "status_table =
     [(200, ''200 OK''), (201, ''201 Created''), (202, ''202 Accepted''), (204, ''204 No Content''),
      (300, ''300 Multiple Choices''), (301, ''301 Moved Permanently''),
      (302, ''302 Moved Temporarily''), (304, ''304 Not Modified''), (400, ''400 Bad Request''),
      (401, ''401 Unauthorized''), (403, ''403 Forbidden''), (404, ''404 Not Found''),
      (405, ''405 Method Not Allowed''), (500, ''500 Internal Server Error''),
      (501, ''501 Not Implemented''), (502, ''502 Bad Gateway''), (503, ''503 Service Unavailable'')]"

definition GetStatus :: "int \<Rightarrow> string" where
  "GetStatus c =
     (case map_of status_table c of
        Some s \<Rightarrow> s
      | None \<Rightarrow> snprintf_cut 7 (fmt_d c @ '' Unknow Code''))"

definition connection_text :: "bool \<Rightarrow> string" where
  "connection_text ka = (if ka then ''Keep-Alive'' else ''Close'')"

section \<open>Headers and cookies\<close>

text \<open>
  The caller's headers, and the names of the defaults that they do not replace. The list of names
  is sorted, so \<open>binary_search\<close> is membership.
\<close>

fun encode_headers :: "(string \<times> string) list \<Rightarrow> string list \<Rightarrow> bytes list \<times> string list" where
  "encode_headers [] ds = ([], ds)"
| "encode_headers ((k, v) # hs) ds =
     (let (ps, ds') = encode_headers hs (if k \<in> set ds then removeAll k ds else ds)
      in ([c_str k, '': '', c_str v, CRLF] @ ps, ds'))"

fun encode_defaults :: "(string \<times> string) list \<Rightarrow> string list \<Rightarrow> bytes list" where
  "encode_defaults table [] = []"
| "encode_defaults table (d # ds) =
     [c_str d, '': '', c_str (case map_of table d of Some v \<Rightarrow> v | None \<Rightarrow> []), CRLF]
       @ encode_defaults table ds"

definition encode_request_cookies :: "(string \<times> scookie) list \<Rightarrow> bytes list" where
  "encode_request_cookies cs =
     (if cs \<noteq> [] then [''Cookie: ''] else [])
     @ concat (map (\<lambda>(k, c). [c_str k, ''='', c_str (url_encode (ck_value c)), ''; '']) cs)
     @ (if cs \<noteq> [] then [CRLF] else [])"

definition encode_response_cookie :: "http_env \<Rightarrow> string \<times> scookie \<Rightarrow> bytes list" where
  "encode_response_cookie env kc =
     (let (k, c) = kc in
      [''Set-Cookie: '', c_str k, ''='', c_str (url_encode (ck_value c)), ''; path='', c_str (ck_path c)]
      @ (if ck_domain c \<noteq> [] then [''; domain='', c_str (ck_domain c)] else [])
      @ (if ck_expires c > 0 then [''; expires='', httptime env (ck_expires c)] else [])
      @ [CRLF])"

section \<open>Requests\<close>

text \<open>
  An absolute URL is split into the host that goes to the Host line and the path.
\<close>

definition split_url :: "string \<Rightarrow> bytes option \<times> bytes" where
  \<comment> \<open>the host (\<open>None\<close> unless the URL starts with http://) and the request target\<close>
  "split_url u =
     (if c_caseeq ''http://'' (u @ [NUL]) = Some True then
        let host = drop 7 u in
        (case c_strchr (CHR ''/'') (host @ [NUL]) of
           Some (Some i) \<Rightarrow> (Some (take i host), c_str (drop i host))
         | _ \<Rightarrow> (Some host, ''/''))
      else (None, if c_str u = [] then ''/'' else c_str u))"

definition length_text :: "string \<Rightarrow> string" where
  "length_text b = snprintf_cut 31 (fmt_d (wrap_int32 (int (length b))))"

definition EncodeRequest :: "http_env \<Rightarrow> shttp_message \<Rightarrow> bytes list" where
  "EncodeRequest env m =
     (let (host, target) = split_url (url m);
          (hs, ds) = encode_headers (he_iter_h env (headers m)) (map fst sm_default_request_header)
      in [if http_method m = [] then ''GET'' else c_str (http_method m), '' '', target, '' '',
          (if httpversion m = HTTP_1_1 then ''HTTP/1.1'' @ CRLF else ''HTTP/1.0'' @ CRLF)]
         @ (case host of
              Some h \<Rightarrow> if h \<noteq> [] then [''Host: '', h, CRLF] else []
            | None \<Rightarrow> [])
         @ hs
         @ encode_request_cookies (he_iter_c env (cookies m))
         @ [''Connection: '', connection_text (keepalive m), CRLF]
         @ encode_defaults sm_default_request_header ds
         @ (if http_body m \<noteq> []
            then [''Content-Length: '', length_text (http_body m), CRLF2, c_str (http_body m)]
            else [CRLF]))"

section \<open>Responses\<close>

definition EncodeResponse :: "http_env \<Rightarrow> shttp_message \<Rightarrow> bytes list" where
  "EncodeResponse env m =
     (let (hs, ds) = encode_headers (he_iter_h env (headers m)) (map fst sm_default_header)
      in [if httpversion m = HTTP_1_1 then ''HTTP/1.1 '' else ''HTTP/1.0 '', GetStatus (code m), CRLF]
         @ hs
         @ concat (map (encode_response_cookie env) (he_iter_c env (cookies m)))
         @ encode_defaults sm_default_header ds
         @ [''Date: '', httptime env (he_now env), CRLF]
         @ [''Connection: '', connection_text (keepalive m), CRLF]
         @ (if httpversion m = HTTP_1_1
            then [''Transfer-Encoding: chunked'' @ CRLF, CRLF,
                  snprintf_cut 31 (fmt_x (length (http_body m) mod 2 ^ 32)), CRLF,
                  c_str (http_body m), CRLF @ ''0'' @ CRLF2]
            else [''Content-Length: '', length_text (http_body m), CRLF2, c_str (http_body m)]))"

definition http_encode :: "http_env \<Rightarrow> shttp_message \<Rightarrow> bytes list" where
  "http_encode env m = (if direction m = E_Request then EncodeRequest env m else EncodeResponse env m)"

definition http_heartbeat :: "nat \<Rightarrow> direction \<Rightarrow> shttp_message" where
  "http_heartbeat addr dir =
     (let m = (shttp_message_new addr)\<lparr>keepalive := True, httpversion := HTTP_1_1\<rparr>
      in if dir = E_Request then m\<lparr>http_method := ''GET'', url := ''/HeartBeat''\<rparr> else SetReply 200 m)"

section \<open>The encoded text\<close>

text \<open>
  The header part of a message is a list of lines \<open>key: value\<close>.
\<close>

definition hdr_line :: "string \<times> string \<Rightarrow> string" where
  "hdr_line kv = fst kv @ '': '' @ snd kv"

definition hdr_block :: "(string \<times> string) list \<Rightarrow> string" where
  "hdr_block kvs = concat (map (\<lambda>kv. hdr_line kv @ CRLF) kvs)"

lemma hdr_block_simps [simp]:
  "hdr_block [] = []"
  "hdr_block (kv # kvs) = fst kv @ '': '' @ snd kv @ CRLF @ hdr_block kvs"
  "hdr_block (xs @ ys) = hdr_block xs @ hdr_block ys"
  by (simp_all add: hdr_block_def hdr_line_def)

definition cstr_pair :: "string \<times> string \<Rightarrow> string \<times> string" where
  "cstr_pair kv = (c_str (fst kv), c_str (snd kv))"

fun left_defaults :: "(string \<times> string) list \<Rightarrow> string list \<Rightarrow> string list" where
  "left_defaults [] ds = ds"
| "left_defaults ((k, v) # hs) ds = left_defaults hs (removeAll k ds)"

lemma encode_headers_eq:
  "concat (fst (encode_headers hs ds)) = hdr_block (map cstr_pair hs)
   \<and> snd (encode_headers hs ds) = left_defaults hs ds"
proof (induction hs ds rule: encode_headers.induct)
  case (2 k v hs ds)
  have r: "k \<notin> set ds \<Longrightarrow> removeAll k ds = ds" by (simp add: removeAll_id)
  from 2 show ?case by (auto simp: cstr_pair_def r split: prod.splits if_splits)
qed simp

lemma left_defaults_subset: "set (left_defaults hs ds) \<subseteq> set ds"
  by (induction hs ds rule: left_defaults.induct) auto

definition default_lines :: "(string \<times> string) list \<Rightarrow> string list \<Rightarrow> (string \<times> string) list" where
  "default_lines table ds = map (\<lambda>d. (c_str d, c_str (case map_of table d of Some v \<Rightarrow> v | None \<Rightarrow> []))) ds"

lemma encode_defaults_eq: "concat (encode_defaults table ds) = hdr_block (default_lines table ds)"
  by (induction ds) (simp_all add: default_lines_def)

definition response_cookie_line :: "http_env \<Rightarrow> string \<times> scookie \<Rightarrow> string \<times> string" where
  "response_cookie_line env kc =
     (''Set-Cookie'',
      c_str (fst kc) @ ''='' @ c_str (url_encode (ck_value (snd kc))) @ ''; path='' @ c_str (ck_path (snd kc))
      @ (if ck_domain (snd kc) \<noteq> [] then ''; domain='' @ c_str (ck_domain (snd kc)) else [])
      @ (if ck_expires (snd kc) > 0 then ''; expires='' @ httptime env (ck_expires (snd kc)) else []))"

lemma encode_response_cookies_eq:
  "concat (concat (map (encode_response_cookie env) cs)) = hdr_block (map (response_cookie_line env) cs)"
  by (induction cs) (auto simp: encode_response_cookie_def response_cookie_line_def split: prod.splits)

definition response_lines :: "http_env \<Rightarrow> shttp_message \<Rightarrow> (string \<times> string) list" where
  "response_lines env m =
     map cstr_pair (he_iter_h env (headers m))
     @ map (response_cookie_line env) (he_iter_c env (cookies m))
     @ default_lines sm_default_header (left_defaults (he_iter_h env (headers m)) (map fst sm_default_header))
     @ [(''Date'', httptime env (he_now env)), (''Connection'', connection_text (keepalive m))]"

definition status_line :: "shttp_message \<Rightarrow> string" where
  "status_line m = (if httpversion m = HTTP_1_1 then ''HTTP/1.1 '' else ''HTTP/1.0 '') @ GetStatus (code m)"

lemma EncodeResponse_10:
  assumes "httpversion m = HTTP_1_0"
  shows "concat (EncodeResponse env m) = status_line m @ CRLF
    @ hdr_block (response_lines env m @ [(''Content-Length'', length_text (http_body m))])
    @ CRLF @ c_str (http_body m)"
  using assms encode_headers_eq [of "he_iter_h env (headers m)" "map fst sm_default_header"]
  by (auto simp: EncodeResponse_def status_line_def response_lines_def encode_defaults_eq
      encode_response_cookies_eq split: prod.splits)

lemma EncodeResponse_11:
  assumes "httpversion m = HTTP_1_1"
  shows "concat (EncodeResponse env m) = status_line m @ CRLF
    @ hdr_block (response_lines env m @ [(''Transfer-Encoding'', ''chunked'')])
    @ CRLF @ snprintf_cut 31 (fmt_x (length (http_body m) mod 2 ^ 32)) @ CRLF @ c_str (http_body m) @ CRLF
    @ ''0'' @ CRLF2"
  using assms encode_headers_eq [of "he_iter_h env (headers m)" "map fst sm_default_header"]
  by (auto simp: EncodeResponse_def status_line_def response_lines_def encode_defaults_eq
      encode_response_cookies_eq split: prod.splits)

end
