(* ===== verification/HttpRoundtrip.thy ===== *)
theory HttpRoundtrip
  imports HttpDecode HttpEncode
begin

text \<open>
  What the HTTP decoder does on texts of the shape that the encoder writes: the header loop on a
  block of lines \<open>key: value\<close> is a fold of ParseHeader over the lines, and decoding an encoded
  response gives back what it carries.
\<close>

section \<open>Trimming a field\<close>

definition field_ok :: "string \<Rightarrow> bool" where
  "field_ok v \<longleftrightarrow> v \<noteq> [] \<and> hd v \<noteq> SP \<and> last v \<noteq> SP \<and> CR \<notin> set v \<and> NUL \<notin> set v"

definition key_ok :: "string \<Rightarrow> bool" where
  "key_ok k \<longleftrightarrow> field_ok k \<and> CHR '':'' \<notin> set k"

lemma trim_left_id [simp]: "hd v \<noteq> SP \<Longrightarrow> trim_left v = v"
  by (cases v rule: trim_left.cases) auto

lemma trim_right_id [simp]: "v \<noteq> [] \<Longrightarrow> last v \<noteq> SP \<Longrightarrow> trim_right v = v"
  by (simp add: trim_right_def hd_rev)

lemma trim_left_space [simp]: "v \<noteq> [] \<Longrightarrow> hd v \<noteq> SP \<Longrightarrow> trim_left (SP # v) = v"
  by (cases v) auto

lemma trim_at:
  assumes "w \<noteq> []"
  shows "trim (pre @ w @ r) (length pre) (length w) low
    = Some (map (\<lambda>c. if low then c_tolower c else c) (trim_right (trim_left w)))"
  using assms by (simp add: trim_def sub_def)

section \<open>The header loop on a block of lines\<close>

definition line_kv_ok :: "string \<times> string \<Rightarrow> bool" where
  "line_kv_ok kv \<longleftrightarrow> key_ok (fst kv) \<and> field_ok (snd kv)"

definition parse_line ::
  "(string \<Rightarrow> int option) \<Rightarrow> string \<times> string \<Rightarrow> http_parser \<times> shttp_message
     \<Rightarrow> (http_parser \<times> shttp_message) option" where
  "parse_line spt kv pm =
     (let key = map c_tolower (fst kv) in
      ParseHeader spt key (snd kv) (fst pm) (AddHeader key (snd kv) (snd pm)))"

fun parse_lines ::
  "(string \<Rightarrow> int option) \<Rightarrow> (string \<times> string) list \<Rightarrow> http_parser \<times> shttp_message
     \<Rightarrow> (http_parser \<times> shttp_message) option" where
  "parse_lines spt [] pm = Some pm"
| "parse_lines spt (kv # kvs) pm = parse_line spt kv pm \<bind> parse_lines spt kvs"

lemma parse_lines_append:
  "parse_lines spt (xs @ ys) pm = parse_lines spt xs pm \<bind> parse_lines spt ys"
  by (induction xs arbitrary: pm) (auto split: Option.bind_splits)

lemma line_ok_hdr_line: "line_kv_ok kv \<Longrightarrow> line_ok (hdr_line kv)"
  by (auto simp: line_kv_ok_def key_ok_def field_ok_def line_ok_def hdr_line_def)

lemma header_line_eq:
  assumes "line_kv_ok kv"
  shows "header_line spt (pre @ hdr_line kv @ r) (length pre) (length pre + length (hdr_line kv)) ps m
    = parse_line spt kv (ps, m)"
proof -
  obtain k v where kv: "kv = (k, v)" by (cases kv)
  have k: "k \<noteq> []" "hd k \<noteq> SP" "last k \<noteq> SP" "CHR '':'' \<notin> set k" "NUL \<notin> set k"
    and v: "v \<noteq> []" "hd v \<noteq> SP" "last v \<noteq> SP"
    using assms by (auto simp: kv line_kv_ok_def key_ok_def field_ok_def)
  let ?mem = "pre @ hdr_line kv @ r"
  have mem: "?mem = pre @ k @ CHR '':'' # (SP # v) @ r" by (simp add: kv hdr_line_def)
  have colon: "strchr_at ?mem (length pre) (CHR '':'') = Some (Some (length pre + length k))"
    using k by (simp add: strchr_at_def mem c_strchr_hit)
  have t1: "trim ?mem (length pre) (length k) True = Some (map c_tolower k)"
    unfolding mem using trim_at [of k pre "CHR '':'' # (SP # v) @ r" True] k by simp
  have t2: "trim ?mem (length pre + length k + 1) (Suc (length v)) False = Some v"
    unfolding mem using trim_at [of "SP # v" "pre @ k @ '':''" r False] v by simp
  show ?thesis
    using colon t1 t2 by (simp add: header_line_def parse_line_def kv hdr_line_def Let_def)
qed

lemma strstr_at_crlf:
  "CR \<notin> set l \<Longrightarrow> NUL \<notin> set l \<Longrightarrow> p = length pre
    \<Longrightarrow> strstr_at (pre @ l @ CR # LF # r) p CRLF = Some (Some (length pre + length l))"
  by (simp add: strstr_at_def c_strstr_crlf_hit)

lemma header_loop_block:
  assumes "\<forall>x\<in>set (kv # kvs). line_kv_ok x"
    and "headend = length pre + length (hdr_block (kv # kvs)) - 2"
  shows "header_loop spt (pre @ hdr_block (kv # kvs) @ CRLF @ r) headend (length pre)
      (Some (length pre + length (hdr_line kv))) ps m = parse_lines spt (kv # kvs) (ps, m)"
  using assms
proof (induction kvs arbitrary: kv pre ps m)
  case Nil
  let ?mem = "pre @ hdr_block [kv] @ CRLF @ r" and ?e = "length pre + length (hdr_line kv)"
  have mem: "?mem = pre @ hdr_line kv @ CRLF @ CRLF @ r" by (simp add: hdr_line_def)
  have he: "headend = ?e" using Nil.prems(2) by (simp add: hdr_line_def)
  have l: "line_kv_ok kv" "hdr_line kv \<noteq> []"
    using Nil.prems(1) line_ok_hdr_line [of kv] by (auto simp: line_ok_def)
  have hl: "header_line spt ?mem (length pre) ?e ps m = parse_line spt kv (ps, m)"
    unfolding mem by (rule header_line_eq [OF l(1)])
  have next_end: "strstr_at ?mem (?e + 2) CRLF = Some (Some (?e + 2))"
    unfolding mem using strstr_at_crlf [of "[]" "?e + 2" "pre @ hdr_line kv @ CRLF" r] by simp
  show ?case
    using l(2) he hl next_end by (cases "parse_line spt kv (ps, m)") (auto split: prod.splits)
next
  case (Cons kv2 kvs)
  let ?mem = "pre @ hdr_block (kv # kv2 # kvs) @ CRLF @ r" and ?e = "length pre + length (hdr_line kv)"
  let ?pre2 = "pre @ hdr_line kv @ CRLF"
  have mem: "?mem = pre @ hdr_line kv @ CRLF @ hdr_block (kv2 # kvs) @ CRLF @ r" by (simp add: hdr_line_def)
  have mem2: "?mem = ?pre2 @ hdr_block (kv2 # kvs) @ CRLF @ r" by (simp add: hdr_line_def)
  have l: "line_kv_ok kv" "hdr_line kv \<noteq> []" "line_ok (hdr_line kv2)"
    using Cons.prems(1) line_ok_hdr_line [of kv] line_ok_hdr_line [of kv2] by (auto simp: line_ok_def)
  have hl: "header_line spt ?mem (length pre) ?e ps m = parse_line spt kv (ps, m)"
    unfolding mem by (rule header_line_eq [OF l(1)])
  have mem3: "?mem = ?pre2 @ hdr_line kv2 @ CR # LF # (hdr_block kvs @ CRLF @ r)"
    by (simp add: hdr_line_def)
  have next_end: "strstr_at ?mem (?e + 2) CRLF = Some (Some (length ?pre2 + length (hdr_line kv2)))"
    unfolding mem3 using l(3) by (intro strstr_at_crlf) (simp_all add: line_ok_def)
  have he: "headend = length ?pre2 + length (hdr_block (kv2 # kvs)) - 2" "length pre < headend" "?e \<le> headend"
    using Cons.prems(2) by (simp_all add: hdr_line_def)
  have IH: "header_loop spt ?mem headend (length ?pre2) (Some (length ?pre2 + length (hdr_line kv2))) ps1 m1
      = parse_lines spt (kv2 # kvs) (ps1, m1)" for ps1 m1
    unfolding mem2 using Cons.prems(1) by (intro Cons.IH) (simp_all add: he(1))
  define M where "M = ?mem"
  note M = M_def [symmetric]
  have len2: "?e + 2 = length ?pre2" by simp
  have "header_loop spt M headend (length pre) (Some ?e) ps m
      = parse_line spt kv (ps, m) \<bind> (\<lambda>pm. header_loop spt M headend (length ?pre2)
          (Some (length ?pre2 + length (hdr_line kv2))) (fst pm) (snd pm))"
    using he(2,3)
    by (subst header_loop.simps(2))
      (simp only: hl [unfolded M] next_end [unfolded M len2] len2 simp_thms if_True bind.bind_lunit case_prod_unfold)
  also have "\<dots> = parse_line spt kv (ps, m) \<bind> parse_lines spt (kv2 # kvs)"
    by (simp only: IH [unfolded M] prod.collapse)
  finally show ?case unfolding M by simp
qed

text \<open>Headers and body of a packet whose header lines start at the end of \<open>pre\<close>.\<close>

lemma hdr_block_as_lines:
  "hdr_block (kv # kvs) = hdr_line kv @ concat (map (\<lambda>l. CRLF @ l) (map hdr_line kvs)) @ CRLF"
  by (induction kvs arbitrary: kv) (simp_all add: hdr_line_def)

lemma http_headers_part_block:
  assumes ok: "\<forall>x\<in>set (kv # kvs). line_kv_ok x"
    and lim: "length pre + length (hdr_block (kv # kvs)) \<le> lim + 2"
  shows "http_headers_part spt (pre @ hdr_block (kv # kvs) @ CRLF @ r) buf lim (length pre) ps m
    = (case parse_lines spt (kv # kvs) (ps, m) of
         None \<Rightarrow> None
       | Some (ps1, m1) \<Rightarrow>
           http_body_part (pre @ hdr_block (kv # kvs) @ CRLF @ r) buf lim
             (length pre + length (hdr_block (kv # kvs)) + 2) ps1 m1)"
proof -
  let ?mem = "pre @ hdr_block (kv # kvs) @ CRLF @ r"
  let ?h = "length pre + length (hdr_block (kv # kvs)) - 2"
  have big: "2 \<le> length (hdr_block (kv # kvs))" by simp
  have d: "drop (length pre) ?mem
      = hdr_line kv @ concat (map (\<lambda>l. CRLF @ l) (map hdr_line kvs)) @ CRLF @ CRLF @ r"
    by (simp only: hdr_block_as_lines) simp
  have "c_strstr CRLF2 (drop (length pre) ?mem) = Some (Some (length (hdr_block (kv # kvs)) - 2))"
    unfolding d using ok line_ok_hdr_line
    by (subst c_strstr_crlf2_lines) (auto simp: hdr_block_as_lines comp_def simp del: hdr_block_simps)
  then have he: "strstr_at ?mem (length pre) CRLF2 = Some (Some ?h)"
    using big by (simp add: strstr_at_def)
  have mem2: "?mem = pre @ hdr_line kv @ CR # LF # (hdr_block kvs @ CRLF @ r)" by (simp add: hdr_line_def)
  have e: "strstr_at ?mem (length pre) CRLF = Some (Some (length pre + length (hdr_line kv)))"
    unfolding mem2 using ok line_ok_hdr_line [of kv] by (intro strstr_at_crlf) (simp_all add: line_ok_def)
  have loop: "header_loop spt ?mem ?h (length pre) (Some (length pre + length (hdr_line kv))) ps m
      = parse_lines spt (kv # kvs) (ps, m)"
    using ok by (intro header_loop_block) simp_all
  have "?h + 4 = length pre + length (hdr_block (kv # kvs)) + 2" using big by linarith
  moreover have "\<not> lim < ?h" using lim by linarith
  ultimately show ?thesis
    unfolding http_headers_part_def
    by (simp add: he e loop del: hdr_block_simps parse_lines.simps header_loop.simps append.simps split: option.splits)
qed


section \<open>What single header lines do\<close>

lemma c_tolower_NUL_iff [simp]: "c_tolower c = NUL \<longleftrightarrow> c = NUL"
proof
  assume h: "c_tolower c = NUL"
  show "c = NUL"
  proof (cases "c_isupper c")
    case True
    then have "(of_char (c_tolower c) :: nat) = of_char c + 32"
      by (simp add: c_tolower_def c_isupper_def)
    with h show ?thesis by simp
  qed (use h in \<open>simp add: c_tolower_def\<close>)
qed (simp add: c_tolower_def c_isupper_def)

lemma c_caseeq_nul_defined: "NUL \<notin> set lit \<Longrightarrow> \<exists>b. c_caseeq lit (s @ [NUL]) = Some b"
proof (induction lit arbitrary: s)
  case (Cons n ns s)
  note IH = Cons.IH and prems = Cons.prems
  have "c_tolower n \<noteq> c_tolower NUL"
    using prems c_tolower_NUL_iff [of n] by (auto simp: c_tolower_def c_isupper_def)
  note ne = this
  show ?case
  proof (cases s)
    case Nil
    with ne have "c_caseeq (n # ns) (s @ [NUL]) = Some False" by auto
    then show ?thesis by blast
  next
    case (Cons x xs)
    with IH [of xs] prems show ?thesis by (cases "c_tolower x = c_tolower n") auto
  qed
qed (auto intro: exI [of _ True])

text \<open>A header line that touches nothing but the header and cookie tables.\<close>

definition core_eq :: "shttp_message \<Rightarrow> shttp_message \<Rightarrow> bool" where
  "core_eq m m' \<longleftrightarrow> m' = m\<lparr>headers := headers m', cookies := cookies m'\<rparr>"

lemma core_eq_refl [simp]: "core_eq m m"
  by (simp add: core_eq_def)

lemma core_eq_fields:
  assumes "core_eq m m'"
  shows "code m' = code m" "http_body m' = http_body m" "keepalive m' = keepalive m"
    "httpversion m' = httpversion m" "direction m' = direction m" "url m' = url m"
    "http_method m' = http_method m" "isheartbeat m' = isheartbeat m" "ev_addr m' = ev_addr m"
proof -
  from assms obtain h c where e: "m' = m\<lparr>headers := h, cookies := c\<rparr>"
    unfolding core_eq_def by blast
  show "code m' = code m" "http_body m' = http_body m" "keepalive m' = keepalive m"
    "httpversion m' = httpversion m" "direction m' = direction m" "url m' = url m"
    "http_method m' = http_method m" "isheartbeat m' = isheartbeat m" "ev_addr m' = ev_addr m"
    unfolding e by simp_all
qed

lemma core_eq_trans: "core_eq a b \<Longrightarrow> core_eq b c \<Longrightarrow> core_eq a c"
  unfolding core_eq_def by (cases a; cases b; cases c) simp

lemma core_eq_AddHeader [simp]: "core_eq m (AddHeader k v m)"
  by (cases m) (simp add: core_eq_def AddHeader_def)

lemma core_eq_SetCookie [simp]: "core_eq m (SetCookie k v p d e m)"
  by (cases m) (simp add: core_eq_def SetCookie_def)

lemma cookie_attr_defined: "\<exists>c'. cookie_attr spt s c = Some c'"
proof -
  obtain b1 b2 b3 where
    "c_caseeq ''path'' (drop (cs_begin c) s @ [NUL]) = Some b1"
    "c_caseeq ''domain'' (drop (cs_begin c) s @ [NUL]) = Some b2"
    "c_caseeq ''expires'' (drop (cs_begin c) s @ [NUL]) = Some b3"
    using c_caseeq_nul_defined [of "''path''"] c_caseeq_nul_defined [of "''domain''"]
      c_caseeq_nul_defined [of "''expires''"] by fastforce
  then show ?thesis by (simp add: cookie_attr_def Let_def)
qed

lemma cookie_loop_defined: "\<exists>c'. cookie_loop spt s ps c = Some c'"
proof (induction ps arbitrary: c)
  case (Cons p ps)
  have "\<exists>c1. cookie_char spt s p c = Some c1"
    using cookie_attr_defined [of spt s] by (simp add: cookie_char_def Let_def)
  with Cons show ?case by auto
qed simp

text \<open>The cookie parser is total: no cookie header makes it leave its string.\<close>

lemma DecodeCookie_defined: "\<exists>m'. DecodeCookie spt s m = Some m' \<and> core_eq m m'"
  using cookie_loop_defined [of spt s "[0..<length s]" cookie_start] by (auto simp: DecodeCookie_def)

definition harmless_key :: "string \<Rightarrow> bool" where
  "harmless_key k \<longleftrightarrow>
     (\<forall>s\<in>set [''connection'', ''x-forwarded-for'', ''content-length'', ''Transfer-Encoding''].
        \<not> str_caseeq (map c_tolower k) s)"

lemma parse_line_harmless:
  assumes "harmless_key (fst kv)"
  shows "\<exists>m'. parse_line spt kv (ps, m) = Some (ps, m') \<and> core_eq m m'"
proof -
  let ?m1 = "AddHeader (map c_tolower (fst kv)) (snd kv) m"
  obtain m' where "DecodeCookie spt (snd kv) ?m1 = Some m'" "core_eq ?m1 m'"
    using DecodeCookie_defined by blast
  moreover have "core_eq m m'" if "core_eq ?m1 m'" using core_eq_trans [OF core_eq_AddHeader that] .
  ultimately show ?thesis
    using assms by (auto simp: parse_line_def ParseHeader_def harmless_key_def Let_def)
qed

lemma parse_lines_harmless:
  assumes "\<forall>kv\<in>set kvs. harmless_key (fst kv)"
  shows "\<exists>m'. parse_lines spt kvs (ps, m) = Some (ps, m') \<and> core_eq m m'"
  using assms
proof (induction kvs arbitrary: m)
  case (Cons kv kvs)
  then obtain m1 where 1: "parse_line spt kv (ps, m) = Some (ps, m1)" "core_eq m m1"
    using parse_line_harmless [of kv spt ps m] by auto
  moreover obtain m2 where "parse_lines spt kvs (ps, m1) = Some (ps, m2)" "core_eq m1 m2"
    using Cons.IH [of m1] Cons.prems by auto
  ultimately show ?case using core_eq_trans by auto
qed simp

lemma connection_evals:
  "map c_tolower ''Connection'' = ''connection''" "str_caseeq ''connection'' ''connection''"
  "str_caseeq ''Close'' ''close''" "\<not> str_caseeq ''Keep-Alive'' ''close''"
  "str_caseeq ''Keep-Alive'' ''keep-alive''"
  by code_simp+

lemma parse_line_connection:
  "parse_line spt (''Connection'', connection_text ka) (ps, m)
    = Some (ps, (AddHeader ''connection'' (connection_text ka) m)\<lparr>keepalive := ka\<rparr>)"
  unfolding parse_line_def fst_conv snd_conv connection_evals(1) Let_def
  by (simp add: ParseHeader_def connection_text_def connection_evals del: list.map)

lemma length_evals:
  "map c_tolower ''Content-Length'' = ''content-length''"
  "\<not> str_caseeq ''content-length'' ''connection''" "\<not> str_caseeq ''content-length'' ''x-forwarded-for''"
  "str_caseeq ''content-length'' ''content-length''"
  "map c_tolower ''Transfer-Encoding'' = ''transfer-encoding''"
  "\<not> str_caseeq ''transfer-encoding'' ''connection''" "\<not> str_caseeq ''transfer-encoding'' ''x-forwarded-for''"
  "\<not> str_caseeq ''transfer-encoding'' ''content-length''"
  "str_caseeq ''transfer-encoding'' ''Transfer-Encoding''" "str_caseeq ''chunked'' ''chunked''"
  by code_simp+

lemma length_text_plain: "length b < 2 ^ 31 \<Longrightarrow> length_text b = fmt_u (length b)"
  using length_fmt_base [of 10 "length b" 10]
  by (simp add: length_text_def wrap_int32_def fmt_d_def snprintf_cut_def fmt_u_def)

lemma parse_line_content_length:
  assumes "length b < 2 ^ 31"
  shows "parse_line spt (''Content-Length'', length_text b) (ps, m)
    = Some (ps\<lparr>contentlen := int (length b)\<rparr>, AddHeader ''content-length'' (length_text b) m)"
proof -
  have "c_atoi (length_text b @ [NUL]) = Some (int (length b))"
    unfolding length_text_plain [OF assms] using assms
    by (intro c_atoi_fmt_u) (simp_all add: c_isdigit_def)
  then show ?thesis
    unfolding parse_line_def fst_conv snd_conv length_evals(1) Let_def
    by (simp add: ParseHeader_def length_evals del: list.map)
qed

lemma parse_line_chunked:
  "parse_line spt (''Transfer-Encoding'', ''chunked'') (ps, m)
    = Some (ps\<lparr>ischunked := True\<rparr>, AddHeader ''transfer-encoding'' ''chunked'' m)"
  unfolding parse_line_def fst_conv snd_conv length_evals(5) Let_def
  by (simp add: ParseHeader_def length_evals del: list.map)


section \<open>The status line\<close>

lemma status_table_texts:
  "list_all (\<lambda>(c, s). take 4 s = fmt_d c @ [SP] \<and> CR \<notin> set s \<and> NUL \<notin> set s) status_table"
  by code_simp

lemma map_of_status_table:
  assumes "map_of status_table c = Some s"
  shows "s = fmt_d c @ SP # drop 4 s" and "CR \<notin> set s" and "NUL \<notin> set s"
proof -
  from assms have "(c, s) \<in> set status_table" by (rule map_of_SomeD)
  with status_table_texts have t: "take 4 s = fmt_d c @ [SP]" "CR \<notin> set s" "NUL \<notin> set s"
    by (auto simp: list_all_iff)
  then show "CR \<notin> set s" "NUL \<notin> set s" by simp_all
  have "s = take 4 s @ drop 4 s" by simp
  with t(1) show "s = fmt_d c @ SP # drop 4 s" by simp
qed

lemma fmt_u_plain: "CR \<notin> set (fmt_u n)" "NUL \<notin> set (fmt_u n)"
  using fmt_u_digit [of CR n] fmt_u_digit [of NUL n] by (auto simp: c_isdigit_def)

lemma GetStatus_text:
  assumes "0 \<le> c" "c < 10 ^ 5"
  obtains t where "GetStatus c = fmt_u (nat c) @ SP # t" "CR \<notin> set t" "NUL \<notin> set t"
proof (cases "map_of status_table c")
  case None
  let ?d = "fmt_u (nat c)"
  have len: "length ?d \<le> 5"
    using assms length_fmt_base [of 10 "nat c" 5] by (simp add: fmt_u_def)
  then have "GetStatus c = ?d @ SP # take (5 - length ?d) ''Unknow Code''"
    using None assms
    by (simp add: GetStatus_def fmt_d_def snprintf_cut_def take_Cons' Suc_diff_le [symmetric])
  moreover have "CR \<notin> set (take (5 - length ?d) ''Unknow Code'')" "NUL \<notin> set (take (5 - length ?d) ''Unknow Code'')"
    by (auto dest!: in_set_takeD)
  ultimately show ?thesis using that by blast
next
  case (Some s)
  note s = map_of_status_table [OF Some]
  have g: "GetStatus c = s" using Some by (simp add: GetStatus_def)
  from assms have "fmt_d c = fmt_u (nat c)" by (simp add: fmt_d_def)
  with s(1) g have "GetStatus c = fmt_u (nat c) @ SP # drop 4 s" by simp
  moreover have "CR \<notin> set (drop 4 s)" "NUL \<notin> set (drop 4 s)" using s by (auto dest: in_set_dropD)
  ultimately show ?thesis using that by blast
qed

lemma first_keyword_http:
  "first_keyword (pre @ ''HTTP/'' @ r) (length pre) http_keywords = Some (Some ''HTTP/'')"
  by (simp add: caseeq_at_def http_keywords_def c_tolower_def c_isupper_def)

lemma http_version_at_hit:
  "http_version_at (pre @ ''HTTP/1.1'' @ r) (length pre + 5) m
    = Some (Some (m\<lparr>httpversion := HTTP_1_1, keepalive := True\<rparr>))"
  "http_version_at (pre @ ''HTTP/1.0'' @ r) (length pre + 5) m
    = Some (Some (m\<lparr>httpversion := HTTP_1_0, keepalive := False\<rparr>))"
  by (simp_all add: http_version_at_def caseeq_at_def c_tolower_def c_isupper_def)

definition with_version :: "EHttpVersion \<Rightarrow> shttp_message \<Rightarrow> shttp_message" where
  "with_version v m = m\<lparr>httpversion := v, keepalive := (v = HTTP_1_1)\<rparr>"

text \<open>Decoding a packet that starts with a status line is decoding its header block.\<close>

lemma http_decode_status_line:
  assumes c: "0 \<le> code e" "code e < 10 ^ 5" and len: "16 \<le> len" "length (status_line e) + 2 \<le> len"
  shows "http_decode spt (pre @ status_line e @ CRLF @ r) (length pre) len ps0 msg
    = http_headers_part spt (pre @ status_line e @ CRLF @ r) (length pre) (length pre + len)
        (length pre + length (status_line e) + 2) (ps0\<lparr>contentlen := 0, ischunked := False\<rparr>)
        (SetReply (code e) (with_version (httpversion e) msg))"
proof -
  obtain t where t: "GetStatus (code e) = fmt_u (nat (code e)) @ SP # t" "CR \<notin> set t" "NUL \<notin> set t"
    using GetStatus_text [OF c] .
  let ?v = "if httpversion e = HTTP_1_1 then ''HTTP/1.1'' else ''HTTP/1.0''"
  let ?mem = "pre @ status_line e @ CRLF @ r"
  have sl: "status_line e = ?v @ SP # fmt_u (nat (code e)) @ SP # t"
    by (simp add: status_line_def t(1))
  have mem1: "?mem = pre @ ''HTTP/'' @ drop 5 (status_line e) @ CRLF @ r" by (simp add: sl)
  have kw: "first_keyword ?mem (length pre) http_keywords = Some (Some ''HTTP/'')"
    unfolding mem1 by (rule first_keyword_http)
  have mem2: "?mem = pre @ ?v @ drop 8 (status_line e) @ CRLF @ r" by (simp add: sl)
  have ver: "http_version_at ?mem (length pre + 5) msg = Some (Some (with_version (httpversion e) msg))"
    unfolding mem2 using http_version_at_hit [of pre _ msg]
    by (cases "httpversion e") (simp_all add: with_version_def)
  have sp: "peek ?mem (length pre + 5 + 3) = Some SP"
    by (simp add: peek_def sl nth_append)
  have d: "drop (length pre + 5 + 4) ?mem = fmt_u (nat (code e)) @ SP # t @ CRLF @ r" by (simp add: sl)
  have code: "c_atoi (drop (length pre + 5 + 4) ?mem) = Some (code e)"
    unfolding d using c by (subst c_atoi_fmt_u) (simp_all add: c_isdigit_def)
  let ?l1 = "drop 1 (status_line e)"
  have mem3: "?mem = (pre @ ''H'') @ ?l1 @ CR # LF # r" by (simp add: sl)
  have "CR \<notin> set ?l1" "NUL \<notin> set ?l1" using t fmt_u_plain by (auto simp: sl)
  then have crlf: "strstr_at ?mem (length pre + 1) CRLF = Some (Some (length pre + length (status_line e)))"
    unfolding mem3 using strstr_at_crlf [of ?l1 "length pre + 1" "pre @ ''H''" r] by (simp add: sl)
  define M where "M = ?mem"
  note facts = kw ver sp code crlf
  have "http_decode spt M (length pre) len ps0 msg
    = http_headers_part spt M (length pre) (length pre + len)
        (length pre + length (status_line e) + 2) (ps0\<lparr>contentlen := 0, ischunked := False\<rparr>)
        (SetReply (code e) (with_version (httpversion e) msg))"
    using len facts [folded M_def] unfolding http_decode_def by (simp add: Let_def)
  then show ?thesis unfolding M_def .
qed

section \<open>Responses\<close>

definition header_map :: "(string \<rightharpoonup> string) \<Rightarrow> (string \<times> string) list \<Rightarrow> (string \<rightharpoonup> string)" where
  \<comment> \<open>the table after the lines: names in lower case, a later line replaces an earlier one\<close>
  "header_map = foldl (\<lambda>f kv. f(map c_tolower (fst kv) \<mapsto> snd kv))"

lemma ParseHeader_headers:
  assumes "ParseHeader spt k v ps m = Some (ps', m')" shows "headers m' = headers m"
  using assms DecodeCookie_defined [of spt v m]
  by (auto simp: ParseHeader_def core_eq_def DecodeCookie_def SetCookie_def split: if_splits Option.bind_splits)

lemma parse_lines_headers:
  assumes "parse_lines spt kvs (ps, m) = Some (ps', m')"
  shows "map_of (headers m') = header_map (map_of (headers m)) kvs"
  using assms
proof (induction kvs arbitrary: ps m)
  case (Cons kv kvs)
  then obtain ps1 m1 where 1: "parse_line spt kv (ps, m) = Some (ps1, m1)"
    and 2: "parse_lines spt kvs (ps1, m1) = Some (ps', m')"
    by (auto split: Option.bind_splits)
  from 1 have "headers m1 = headers (AddHeader (map c_tolower (fst kv)) (snd kv) m)"
    by (auto simp: parse_line_def Let_def dest: ParseHeader_headers)
  with Cons.IH [OF 2] show ?case by (simp add: header_map_def AddHeader_def update_conv' fun_upd_def)
qed (simp add: header_map_def)

definition response_ok :: "http_env \<Rightarrow> shttp_message \<Rightarrow> bool" where
  "response_ok env m \<longleftrightarrow>
     http_env_ok env \<and> 0 \<le> code m \<and> code m < 10 ^ 5
     \<and> (\<forall>kv\<in>set (headers m). line_kv_ok kv \<and> harmless_key (fst kv))
     \<and> (\<forall>kc\<in>set (cookies m). field_ok (snd (response_cookie_line env kc)))
     \<and> field_ok (httptime env (he_now env))
     \<and> NUL \<notin> set (http_body m) \<and> length (http_body m) < 2 ^ 31"

definition response_all_lines :: "http_env \<Rightarrow> shttp_message \<Rightarrow> (string \<times> string) list" where
  "response_all_lines env m = response_lines env m
     @ [if httpversion m = HTTP_1_1 then (''Transfer-Encoding'', ''chunked'')
        else (''Content-Length'', length_text (http_body m))]"

definition response_received :: "http_env \<Rightarrow> shttp_message \<Rightarrow> shttp_message \<Rightarrow> shttp_message \<Rightarrow> bool" where
  "response_received env e msg m' \<longleftrightarrow>
     direction m' = E_Response \<and> code m' = code e \<and> httpversion m' = httpversion e
     \<and> keepalive m' = keepalive e \<and> http_body m' = http_body e
     \<and> map_of (headers m') = header_map (map_of (headers msg)) (response_all_lines env e)"

lemma default_lines_ok:
  "list_all (\<lambda>kv. line_kv_ok kv \<and> harmless_key (fst kv)) (default_lines sm_default_header (map fst sm_default_header))"
  by code_simp

lemma response_head_ok:
  assumes "response_ok env m"
  defines "H \<equiv> map cstr_pair (he_iter_h env (headers m))
     @ map (response_cookie_line env) (he_iter_c env (cookies m))
     @ default_lines sm_default_header (left_defaults (he_iter_h env (headers m)) (map fst sm_default_header))
     @ [(''Date'', httptime env (he_now env))]"
  shows "\<forall>kv\<in>set H. line_kv_ok kv \<and> harmless_key (fst kv)"
proof -
  have it: "set (he_iter_h env (headers m)) = set (headers m)" "set (he_iter_c env (cookies m)) = set (cookies m)"
    using assms(1) by (auto simp: response_ok_def http_env_ok_def iter_perm_set)
  have h: "line_kv_ok (cstr_pair kv) \<and> harmless_key (fst (cstr_pair kv))" if "kv \<in> set (headers m)" for kv
  proof -
    from that assms(1) have "line_kv_ok kv" "harmless_key (fst kv)" by (auto simp: response_ok_def)
    moreover from this(1) have "cstr_pair kv = kv"
      by (simp add: line_kv_ok_def key_ok_def field_ok_def cstr_pair_def)
    ultimately show ?thesis by simp
  qed
  have ev: "key_ok ''Set-Cookie''" "harmless_key ''Set-Cookie''" "key_ok ''Date''" "harmless_key ''Date''"
    by code_simp+
  have c: "line_kv_ok (response_cookie_line env kc) \<and> harmless_key (fst (response_cookie_line env kc))"
    if "kc \<in> set (cookies m)" for kc
    using that assms(1) ev(1,2) by (auto simp: response_ok_def line_kv_ok_def response_cookie_line_def)
  have d: "line_kv_ok kv \<and> harmless_key (fst kv)"
    if "kv \<in> set (default_lines sm_default_header ds)" "set ds \<subseteq> set (map fst sm_default_header)" for kv ds
  proof -
    from that have "kv \<in> set (default_lines sm_default_header (map fst sm_default_header))"
      unfolding default_lines_def set_map by blast
    with default_lines_ok show ?thesis unfolding list_all_iff by blast
  qed
  have dt: "line_kv_ok (''Date'', httptime env (he_now env))"
    using assms(1) ev(3) by (simp add: response_ok_def line_kv_ok_def)
  show ?thesis
    unfolding H_def using h c d [OF _ left_defaults_subset] dt ev(4) by (auto simp: it)
qed

lemma connection_line_ok: "line_kv_ok (''Connection'', connection_text ka)"
  by (cases ka) (simp_all add: connection_text_def, code_simp+)

lemma last_line_ok:
  assumes "length b < 2 ^ 31"
  shows "line_kv_ok (''Content-Length'', length_text b)" and "line_kv_ok (''Transfer-Encoding'', ''chunked'')"
proof -
  have ev: "key_ok ''Content-Length''" by code_simp
  have "SP \<notin> set (fmt_u (length b))" using fmt_u_digit [of SP "length b"] by (auto simp: c_isdigit_def)
  then have "hd (fmt_u (length b)) \<noteq> SP" "last (fmt_u (length b)) \<noteq> SP"
    by (metis fmt_u_nonempty hd_in_set, metis fmt_u_nonempty last_in_set)
  then have "field_ok (fmt_u (length b))"
    using fmt_u_plain [of "length b"] by (simp add: field_ok_def)
  with ev show "line_kv_ok (''Content-Length'', length_text b)"
    by (simp add: line_kv_ok_def length_text_plain [OF assms])
  show "line_kv_ok (''Transfer-Encoding'', ''chunked'')" by code_simp
qed

lemma response_lines_parsed:
  assumes ok: "response_ok env e" and m: "httpversion m = httpversion e"
  shows "\<exists>m'. parse_lines spt (response_all_lines env e) (ps, m)
      = Some ((if httpversion e = HTTP_1_1 then ps\<lparr>ischunked := True\<rparr>
               else ps\<lparr>contentlen := int (length (http_body e))\<rparr>), m')
    \<and> core_eq (m\<lparr>keepalive := keepalive e\<rparr>) m'"
proof -
  define H where "H = map cstr_pair (he_iter_h env (headers e))
     @ map (response_cookie_line env) (he_iter_c env (cookies e))
     @ default_lines sm_default_header (left_defaults (he_iter_h env (headers e)) (map fst sm_default_header))
     @ [(''Date'', httptime env (he_now env))]"
  define L where "L = (if httpversion e = HTTP_1_1 then (''Transfer-Encoding'', ''chunked'')
        else (''Content-Length'', length_text (http_body e)))"
  have all: "response_all_lines env e = H @ [(''Connection'', connection_text (keepalive e)), L]"
    by (simp add: response_all_lines_def response_lines_def H_def L_def)
  obtain m1 where m1: "parse_lines spt H (ps, m) = Some (ps, m1)" "core_eq m m1"
    using parse_lines_harmless [of H spt ps m] response_head_ok [OF ok] unfolding H_def by blast
  have len: "length (http_body e) < 2 ^ 31" using ok by (simp add: response_ok_def)
  let ?m2 = "(AddHeader ''connection'' (connection_text (keepalive e)) m1)\<lparr>keepalive := keepalive e\<rparr>"
  have upd: "core_eq (m\<lparr>keepalive := keepalive e\<rparr>) (AddHeader k v ?m2)" for k v
    using m1(2) by (cases m; cases m1) (simp add: core_eq_def AddHeader_def)
  show ?thesis
    using m1(1) upd parse_line_connection [of spt "keepalive e" ps m1] parse_line_chunked [of spt ps ?m2]
      parse_line_content_length [OF len, of spt ps ?m2]
    by (cases "httpversion e") (auto simp: all parse_lines_append L_def)
qed

lemma response_all_lines_ok:
  assumes "response_ok env e" shows "\<forall>kv\<in>set (response_all_lines env e). line_kv_ok kv"
  using assms response_head_ok [OF assms] connection_line_ok last_line_ok [of "http_body e"]
  by (auto simp: response_all_lines_def response_lines_def response_ok_def)

lemma response_all_lines_Cons: "\<exists>kv kvs. response_all_lines env e = kv # kvs"
  by (cases "response_all_lines env e") (auto simp: response_all_lines_def)

lemma chunk_body_part:
  assumes b: "b \<noteq> []" "length b < 2 ^ 31" and body: "http_body m = []" and ch: "ischunked ps"
    and p: "p = length pre" and lim: "length pre + length (fmt_x (length b)) + length b + 9 \<le> lim"
  shows "http_body_part (pre @ fmt_x (length b) @ CRLF @ b @ CRLF @ ''0'' @ CRLF @ CRLF @ r) buf lim p ps m
    = Some (PAt (int (length pre + length (fmt_x (length b)) + length b + 9)), ps, m\<lparr>http_body := b\<rparr>)"
proof -
  let ?x = "fmt_x (length b)"
  let ?mem = "pre @ ?x @ CRLF @ b @ CRLF @ ''0'' @ CRLF @ CRLF @ r"
  let ?lim = lim
  have y: "\<not> c_isxdigit CR" "c_tolower CR \<noteq> CHR ''x''" by (simp_all add: char_class_defs)
  have x_plain: "CR \<notin> set ?x" "NUL \<notin> set ?x"
    using fmt_x_xdigit [of CR "length b"] fmt_x_xdigit [of NUL "length b"]
    by (auto simp: c_isxdigit_def c_isdigit_def)
  have s1: "scan_hex (drop (length pre) ?mem) = Some (Some (of_nat (length b)))"
    using scan_hex_fmt_x [OF _ y] b(2) by simp
  have q1: "strstr_at ?mem (length pre) CRLF = Some (Some (length pre + length ?x))"
    using strstr_at_crlf [OF x_plain] by simp
  have n: "unat (of_nat (length b) :: u32) = length b" "\<not> sint (of_nat (length b) :: u32) < 0"
    using b(2) by (simp_all add: unat_of_nat_small signed_of_nat signed_take_bit_int_eq_self)
  have d1: "sub ?mem (length pre + length ?x + 2) (length b) = Some b" by (simp add: sub_def)
  let ?b2 = "length pre + length ?x + 2 + length b + 2"
  have mem2: "?mem = (pre @ ?x @ CRLF @ b @ CRLF) @ ''0'' @ CRLF @ CRLF @ r" by simp
  have s2: "scan_hex (drop ?b2 ?mem) = Some (Some 0)"
  proof -
    have "drop ?b2 ?mem = ''0'' @ CRLF @ CRLF @ r" unfolding mem2 by (rule drop_append_exact) simp
    then show ?thesis using scan_hex_fmt_x [of 0 CR "LF # CRLF @ r", OF _ y] by simp
  qed
  have q2: "strstr_at ?mem ?b2 CRLF = Some (Some (?b2 + 1))"
    unfolding mem2 using strstr_at_crlf [of "''0''" ?b2 "pre @ ?x @ CRLF @ b @ CRLF" "CRLF @ r"] by simp
  define M where "M = ?mem"
  note f = s1 q1 d1 s2 q2
  have c2: "chunk_loop M buf ?lim ?b2 (m\<lparr>http_body := b\<rparr>) = Some (Inr (?b2 + 3), m\<lparr>http_body := b\<rparr>)"
    using f [folded M_def] lim by (subst chunk_loop.simps) (simp add: Let_def)
  have c1: "chunk_loop M buf ?lim (length pre) m = Some (Inr (?b2 + 3), m\<lparr>http_body := b\<rparr>)"
    using f [folded M_def] lim b(1) n body c2 by (subst chunk_loop.simps) (simp add: Let_def)
  show ?thesis
    unfolding M_def [symmetric] p using ch c1 by (simp add: http_body_part_def)
qed

lemma plain_body_part:
  assumes "\<not> ischunked ps" "contentlen ps = int (length b)" "http_body m = []"
    and "p = length pre" "length pre + length b \<le> lim"
  shows "http_body_part (pre @ b @ r) buf lim p ps m
    = Some (PAt (int (length pre + length b)), ps, m\<lparr>http_body := b\<rparr>)"
  using assms by (cases "b = []") (simp_all add: http_body_part_def sub_def)

lemma response_text:
  assumes "response_ok env e"
  shows "concat (EncodeResponse env e) = status_line e @ CRLF @ hdr_block (response_all_lines env e) @ CRLF
    @ (if httpversion e = HTTP_1_1
       then fmt_x (length (http_body e)) @ CRLF @ http_body e @ CRLF @ ''0'' @ CRLF2
       else http_body e)"
proof -
  have len: "length (http_body e) < 2 ^ 31" and nul: "c_str (http_body e) = http_body e"
    using assms by (auto simp: response_ok_def)
  have "length (fmt_x (length (http_body e))) \<le> 8"
    using len length_fmt_base [of 16 "length (http_body e)" 8] by (simp add: fmt_x_def)
  then have x: "snprintf_cut 31 (fmt_x (length (http_body e) mod 2 ^ 32)) = fmt_x (length (http_body e))"
    using len by (simp add: snprintf_cut_def)
  show ?thesis
    using EncodeResponse_10 [of e env] EncodeResponse_11 [of e env] x
    by (cases "httpversion e") (simp_all add: response_all_lines_def nul)
qed

definition response_tail :: "shttp_message \<Rightarrow> bytes" where
  \<comment> \<open>what follows the header block of an encoded response\<close>
  "response_tail e = (if httpversion e = HTTP_1_1
     then fmt_x (length (http_body e)) @ CRLF @ http_body e @ CRLF @ ''0'' @ CRLF2 else http_body e)"

lemma response_head_decoded:
  assumes ok: "response_ok env e" and body: "http_body msg = []"
    and len: "length (concat (EncodeResponse env e)) \<le> len"
  shows "\<exists>H ps2 m'. pre @ concat (EncodeResponse env e) = H @ response_tail e
    \<and> http_decode spt (pre @ concat (EncodeResponse env e) @ r) (length pre) len ps msg
        = http_body_part (H @ response_tail e @ r) (length pre) (length pre + len) (length H) ps2 m'
    \<and> ischunked ps2 = (httpversion e = HTTP_1_1)
    \<and> (httpversion e = HTTP_1_0 \<longrightarrow> contentlen ps2 = int (length (http_body e)))
    \<and> http_body m' = [] \<and> response_received env e msg (m'\<lparr>http_body := http_body e\<rparr>)"
proof -
  let ?L = "response_all_lines env e" and ?b = "http_body e"
  let ?tail = "response_tail e"
  let ?pre2 = "pre @ status_line e @ CRLF"
  let ?m1 = "SetReply (code e) (with_version (httpversion e) msg)"
  let ?ps1 = "ps\<lparr>contentlen := 0, ischunked := False\<rparr>"
  have blen: "length ?b < 2 ^ 31" using ok by (simp add: response_ok_def)
  note E_txt = response_text [OF ok, folded response_tail_def]
  define E where "E = concat (EncodeResponse env e)"
  have Elen: "length E = length (status_line e) + 2 + length (hdr_block ?L) + 2 + length ?tail"
    by (simp add: E_def E_txt)
  from response_all_lines_Cons obtain kv kvs where L: "?L = kv # kvs" by blast
  have lim1: "length ?pre2 + length (hdr_block ?L) \<le> length pre + len + 2"
    using len Elen by (simp add: E_def)
  have c: "0 \<le> code e" "code e < 10 ^ 5" using ok by (auto simp: response_ok_def)
  have mem: "pre @ E @ r = pre @ status_line e @ CRLF @ (hdr_block ?L @ CRLF @ ?tail @ r)"
    by (simp only: E_def E_txt append_assoc)
  have mem2: "pre @ E @ r = ?pre2 @ hdr_block ?L @ CRLF @ (?tail @ r)"
    by (simp only: E_def E_txt append_assoc)
  have mem3: "pre @ E @ r = (?pre2 @ hdr_block ?L @ CRLF) @ ?tail @ r"
    by (simp only: E_def E_txt append_assoc)
  have big: "16 \<le> len" "length (status_line e) + 2 \<le> len"
  proof -
    have "14 \<le> length (hdr_block ?L)"
      by (simp add: response_all_lines_def response_lines_def)
    then show "16 \<le> len" "length (status_line e) + 2 \<le> len"
      using len Elen by (simp_all add: E_def)
  qed
  obtain m' where m': "parse_lines spt ?L (?ps1, ?m1)
      = Some ((if httpversion e = HTTP_1_1 then ?ps1\<lparr>ischunked := True\<rparr>
               else ?ps1\<lparr>contentlen := int (length ?b)\<rparr>), m')"
    and ce: "core_eq (?m1\<lparr>keepalive := keepalive e\<rparr>) m'"
    using response_lines_parsed [OF ok, of ?m1 spt ?ps1] by (auto simp: with_version_def SetReply_def)
  define ps2 where "ps2 = (if httpversion e = HTTP_1_1 then ?ps1\<lparr>ischunked := True\<rparr>
               else ?ps1\<lparr>contentlen := int (length ?b)\<rparr>)"
  have step1: "http_decode spt (pre @ E @ r) (length pre) len ps msg
      = http_headers_part spt (pre @ E @ r) (length pre) (length pre + len) (length ?pre2) ?ps1 ?m1"
    unfolding mem using http_decode_status_line [OF c big, of spt pre _ ps msg] by (simp add: add.assoc)
  have step2: "http_headers_part spt (pre @ E @ r) (length pre) (length pre + len) (length ?pre2) ?ps1 ?m1
      = http_body_part (pre @ E @ r) (length pre) (length pre + len)
          (length ?pre2 + length (hdr_block ?L) + 2) ps2 m'"
    unfolding mem2 using m' http_headers_part_block [of kv kvs ?pre2 "length pre + len" spt "?tail @ r"]
      response_all_lines_ok [OF ok] lim1 by (simp only: L ps2_def) simp
  have body': "http_body m' = []" using core_eq_fields(2) [OF ce] body by (simp add: SetReply_def with_version_def)
  have hm: "map_of (headers m') = header_map (map_of (headers msg)) ?L"
    using parse_lines_headers [OF m'] by (simp add: SetReply_def with_version_def)
  have "response_received env e msg (m'\<lparr>http_body := ?b\<rparr>)"
    using hm core_eq_fields [OF ce] by (simp add: response_received_def SetReply_def with_version_def)
  moreover have "length (?pre2 @ hdr_block ?L @ CRLF) = length ?pre2 + length (hdr_block ?L) + 2" by simp
  ultimately show ?thesis
    using step1 step2 body' mem3
    by (intro exI [of _ "?pre2 @ hdr_block ?L @ CRLF"] exI [of _ ps2] exI [of _ m'])
      (cases "httpversion e"; simp add: E_def E_txt ps2_def add.assoc)
qed

lemma response_decoded:
  assumes ok: "response_ok env e" and body: "http_body msg = []"
    and ne: "httpversion e = HTTP_1_1 \<longrightarrow> http_body e \<noteq> []"
    and len: "length (concat (EncodeResponse env e)) \<le> len"
  shows "\<exists>ps' m'. http_decode spt (pre @ concat (EncodeResponse env e) @ r) (length pre) len ps msg
      = Some (PAt (int (length pre + length (concat (EncodeResponse env e)))), ps', m')
    \<and> response_received env e msg m'"
proof -
  let ?E = "concat (EncodeResponse env e)" and ?b = "http_body e"
  obtain H ps2 m' where H: "pre @ ?E = H @ response_tail e"
    and d: "http_decode spt (pre @ ?E @ r) (length pre) len ps msg
        = http_body_part (H @ response_tail e @ r) (length pre) (length pre + len) (length H) ps2 m'"
    and f: "ischunked ps2 = (httpversion e = HTTP_1_1)"
      "httpversion e = HTTP_1_0 \<longrightarrow> contentlen ps2 = int (length ?b)" "http_body m' = []"
    and rc: "response_received env e msg (m'\<lparr>http_body := ?b\<rparr>)"
    using response_head_decoded [OF ok body len, of pre spt r ps] by blast
  have total: "length pre + length ?E = length H + length (response_tail e)"
    using arg_cong [OF H, of length] by simp
  have blen: "length ?b < 2 ^ 31" using ok by (simp add: response_ok_def)
  have lim: "length H + length (response_tail e) \<le> length pre + len" using total len by simp
  have "http_body_part (H @ response_tail e @ r) (length pre) (length pre + len) (length H) ps2 m'
      = Some (PAt (int (length H + length (response_tail e))), ps2, m'\<lparr>http_body := ?b\<rparr>)"
    using ne f blen lim chunk_body_part [of ?b m' ps2 "length H" H "length pre + len" r "length pre"]
      plain_body_part [of ps2 ?b m' "length H" H "length pre + len" r "length pre"]
    by (cases "httpversion e") (simp_all add: response_tail_def)
  with d rc total show ?thesis by auto
qed

lemma response_decoded_empty:
  assumes ok: "response_ok env e" and body: "http_body msg = []"
    and v: "httpversion e = HTTP_1_1" "http_body e = []"
    and len: "length (concat (EncodeResponse env e)) \<le> len"
  shows "\<exists>pre' ps' m'. pre @ concat (EncodeResponse env e) = pre' @ ''0'' @ CRLF2
    \<and> http_decode spt (pre @ concat (EncodeResponse env e) @ r) (length pre) len ps msg
        = Some (PAt (int (length pre')), ps', m')
    \<and> response_received env e msg m'"
proof -
  let ?E = "concat (EncodeResponse env e)"
  have t: "response_tail e = ''0'' @ CRLF @ CRLF @ ''0'' @ CRLF2" using v by (simp add: response_tail_def)
  obtain H ps2 m' where H: "pre @ ?E = H @ response_tail e"
    and d: "http_decode spt (pre @ ?E @ r) (length pre) len ps msg
        = http_body_part (H @ response_tail e @ r) (length pre) (length pre + len) (length H) ps2 m'"
    and f: "ischunked ps2" "http_body m' = []"
    and rc: "response_received env e msg (m'\<lparr>http_body := []\<rparr>)"
    using response_head_decoded [OF ok body len, of pre spt r ps] v by auto
  have "length pre + length ?E = length H + 10"
    using arg_cong [OF H, of length] by (simp add: t)
  then have lim: "length H + 10 \<le> length pre + len" using len by simp
  define M where "M = H @ response_tail e @ r"
  have s: "scan_hex (drop (length H) M) = Some (Some 0)"
    unfolding M_def t using scan_hex_fmt_x [of 0 CR] by (simp add: char_class_defs)
  have q: "strstr_at M (length H) CRLF = Some (Some (length H + 1))"
    unfolding M_def t using strstr_at_crlf [of "''0''" "length H" H] by simp
  have "chunk_loop M (length pre) (length pre + len) (length H) m' = Some (Inr (length H + 3), m')"
    using s q lim by (subst chunk_loop.simps) (simp add: Let_def)
  then have "http_body_part M (length pre) (length pre + len) (length H) ps2 m'
      = Some (PAt (int (length H + 5)), ps2, m')"
    using f by (simp add: http_body_part_def)
  moreover have "m'\<lparr>http_body := []\<rparr> = m'" using f(2) by (cases m') simp
  ultimately show ?thesis
    using d rc H unfolding M_def by (intro exI [of _ "H @ ''0'' @ CRLF2"]) (auto simp: t)
qed

lemma c_tolower_evals:
  "c_tolower (CHR ''0'') = CHR ''0''" "c_tolower (CHR ''G'') = CHR ''g''" "c_tolower (CHR ''P'') = CHR ''p''"
  "c_tolower (CHR ''H'') = CHR ''h''" "c_tolower (CHR ''T'') = CHR ''t''" "c_tolower (CHR ''D'') = CHR ''d''"
  "c_tolower (CHR ''O'') = CHR ''o''" "c_tolower (CHR ''C'') = CHR ''c''"
  by code_simp+

lemma first_keyword_none:
  "first_keyword (pre @ CHR ''0'' # r) (length pre) http_keywords = Some None"
  by (simp add: caseeq_at_def http_keywords_def c_tolower_evals)

section \<open>The round trip of responses\<close>


definition sample_env :: http_env where
  "sample_env = \<lparr>he_iter_h = (\<lambda>xs. xs), he_iter_c = (\<lambda>xs. xs),
     he_date = (\<lambda>_. ''Fri, 23 May 2014 06:36:18 GMT''), he_now = 0\<rparr>"

definition sample_response :: shttp_message where
  "sample_response = (shttp_message_new 1)
     \<lparr>direction := E_Response, code := 404, httpversion := HTTP_1_1, keepalive := True,
      http_body := ''gone'', headers := [(''X-Trace'', ''a b'')],
      cookies := [(''sid'', \<lparr>ck_value = ''1 2'', ck_path = ''/'', ck_domain = [], ck_expires = 7\<rparr>)]\<rparr>"

lemma sample_response_ok: "response_ok sample_env sample_response"
proof -
  have "http_env_ok sample_env" by (simp add: http_env_ok_def sample_env_def)
  moreover have "0 \<le> code sample_response \<and> code sample_response < 10 ^ 5
     \<and> (\<forall>kv\<in>set (headers sample_response). line_kv_ok kv \<and> harmless_key (fst kv))
     \<and> (\<forall>kc\<in>set (cookies sample_response). field_ok (snd (response_cookie_line sample_env kc)))
     \<and> field_ok (httptime sample_env (he_now sample_env))
     \<and> NUL \<notin> set (http_body sample_response)"
    by code_simp
  moreover have "length (http_body sample_response) < 2 ^ 31" by (simp add: sample_response_def)
  ultimately show ?thesis by (simp add: response_ok_def)
qed


text \<open>
  The encoder ends an HTTP/1.1 response without body with two last chunks, and the decoder stops
  after the first: the five bytes of the second stay in the buffer, and once enough data for
  another packet has arrived the decoder rejects it. A connection on which such a response (the
  encoder's own heartbeat reply is one) was received cannot receive another.
\<close>

theorem http_response_empty_body_breaks_stream:
  assumes "response_ok env e" and "direction e = E_Response"
    and "httpversion e = HTTP_1_1" and "http_body e = []" and "http_body msg = []"
    and "length (concat (http_encode env e)) \<le> len"
  shows "\<exists>p ps' m'. http_decode spt (pre @ concat (http_encode env e) @ r) (length pre) len ps msg
        = Some (PAt (int p), ps', m')
    \<and> p + 5 = length pre + length (concat (http_encode env e))
    \<and> response_received env e msg m'
    \<and> (\<forall>len2 ps2 msg2. 16 \<le> len2 \<longrightarrow>
         map_option fst (http_decode spt (pre @ concat (http_encode env e) @ r) p len2 ps2 msg2) = Some PNull)"
proof -
  let ?E = "concat (http_encode env e)"
  have eq: "http_encode env e = EncodeResponse env e" using assms(2) by (simp add: http_encode_def)
  obtain pre' ps' m' where p: "pre @ ?E = pre' @ ''0'' @ CRLF2"
    and d: "http_decode spt (pre @ ?E @ r) (length pre) len ps msg = Some (PAt (int (length pre')), ps', m')"
    and rc: "response_received env e msg m'"
    using response_decoded_empty [OF assms(1) assms(5) assms(3,4), of len pre spt r ps] assms(6)
    unfolding eq by blast
  have mem: "pre @ ?E @ r = pre' @ CHR ''0'' # CRLF2 @ r"
    using p by (metis append.assoc append_Cons append_Nil)
  have len: "length pre' + 5 = length pre + length ?E" using arg_cong [OF p, of length] by simp
  have "map_option fst (http_decode spt (pre @ ?E @ r) (length pre') len2 ps2 msg2) = Some PNull"
    if "16 \<le> len2" for len2 ps2 msg2
    using that first_keyword_none [of pre' "CRLF2 @ r"] by (simp add: mem http_decode_def)
  with d rc len show ?thesis by (intro exI [of _ "length pre'"] exI [of _ ps'] exI [of _ m']) simp
qed

definition sample_heartbeat_reply :: shttp_message where
  "sample_heartbeat_reply = http_heartbeat 1 E_Response"

theorem http_response_empty_body_breaks_stream_witness:
  "\<exists>p ps' m'. http_decode (\<lambda>_. None) (''xy'' @ concat (http_encode sample_env sample_heartbeat_reply) @ ''HT'') 2
        (length (concat (http_encode sample_env sample_heartbeat_reply))) http_parser_new (shttp_message_new 2)
        = Some (PAt (int p), ps', m')
    \<and> p + 5 = 2 + length (concat (http_encode sample_env sample_heartbeat_reply))
    \<and> response_received sample_env sample_heartbeat_reply (shttp_message_new 2) m'
    \<and> (\<forall>len2 ps2 msg2. 16 \<le> len2 \<longrightarrow>
         map_option fst (http_decode (\<lambda>_. None)
           (''xy'' @ concat (http_encode sample_env sample_heartbeat_reply) @ ''HT'') p len2 ps2 msg2) = Some PNull)"
proof -
  have "http_env_ok sample_env" by (simp add: http_env_ok_def sample_env_def)
  moreover have "field_ok (httptime sample_env (he_now sample_env))" by code_simp
  ultimately have ok: "response_ok sample_env sample_heartbeat_reply"
    by (simp add: response_ok_def sample_heartbeat_reply_def http_heartbeat_def SetReply_def shttp_message_new_def)
  have f: "direction sample_heartbeat_reply = E_Response" "httpversion sample_heartbeat_reply = HTTP_1_1"
    "http_body sample_heartbeat_reply = []" "http_body (shttp_message_new 2) = []"
    by (simp_all add: sample_heartbeat_reply_def http_heartbeat_def SetReply_def shttp_message_new_def Let_def)
  have two: "length ''xy'' = 2" by simp
  show ?thesis
    using http_response_empty_body_breaks_stream [OF ok f order.refl, of "\<lambda>_. None" "''xy''" "''HT''" http_parser_new]
    unfolding two .
qed

end
