(* ===== verification/NodeLink.thy ===== *)
theory NodeLink
  imports ApePrelude
begin

text \<open>
  The circular doubly linked lists of frame/common/timermanager.h (\<open>stNodeLink\<close>) at the level of
  pointers. A store maps the address of a link to its \<open>prev\<close> and \<open>next\<close>, NULL being \<open>None\<close>; following
  NULL has no defined result. A spoke or the ready list is a ring: a head and the list of the nodes
  behind it. The pointer assignments of the manager are the list operations that TimerWheel uses:
  appending at the end, taking a node out, and moving a whole spoke to the ready list.
\<close>

record link_store =
  lk_prev :: "nat \<Rightarrow> nat option"
  lk_next :: "nat \<Rightarrow> nat option"

definition link_new :: "nat \<Rightarrow> link_store \<Rightarrow> link_store" where
  \<comment> \<open>the constructor: a circle of its own\<close>
  "link_new a s = s\<lparr>lk_prev := (lk_prev s)(a \<mapsto> a), lk_next := (lk_next s)(a \<mapsto> a)\<rparr>"

definition link_before :: "nat \<Rightarrow> nat \<Rightarrow> link_store \<Rightarrow> link_store option" where
  \<comment> \<open>the four assignments that put node \<open>n\<close> in front of head \<open>h\<close>\<close>
  "link_before h n s =
     (let s1 = s\<lparr>lk_prev := (lk_prev s)(n := lk_prev s h)\<rparr>
      in case lk_prev s1 h of
           None \<Rightarrow> None
         | Some p \<Rightarrow>
             let s2 = s1\<lparr>lk_next := (lk_next s1)(p \<mapsto> n)\<rparr>;
                 s3 = s2\<lparr>lk_next := (lk_next s2)(n \<mapsto> h)\<rparr>
             in Some (s3\<lparr>lk_prev := (lk_prev s3)(h \<mapsto> n)\<rparr>))"

definition link_remove :: "nat \<Rightarrow> link_store \<Rightarrow> link_store" where
  \<comment> \<open>\<open>RemoveTimer\<close>\<close>
  "link_remove n s =
     (let s1 = (case lk_prev s n of None \<Rightarrow> s | Some p \<Rightarrow> s\<lparr>lk_next := (lk_next s)(p := lk_next s n)\<rparr>);
          s2 = (case lk_next s1 n of None \<Rightarrow> s1 | Some q \<Rightarrow> s1\<lparr>lk_prev := (lk_prev s1)(q := lk_prev s1 n)\<rparr>)
      in s2\<lparr>lk_prev := (lk_prev s2)(n := None), lk_next := (lk_next s2)(n := None)\<rparr>)"

definition link_bypass :: "nat \<Rightarrow> link_store \<Rightarrow> link_store option" where
  \<comment> \<open>\<open>link->prev->next = link->next; link->next->prev = link->prev\<close>\<close>
  "link_bypass n s =
     (case lk_prev s n of
        None \<Rightarrow> None
      | Some p \<Rightarrow>
          let s1 = s\<lparr>lk_next := (lk_next s)(p := lk_next s n)\<rparr>
          in (case lk_next s1 n of
                None \<Rightarrow> None
              | Some q \<Rightarrow> Some (s1\<lparr>lk_prev := (lk_prev s1)(q := lk_prev s1 n)\<rparr>)))"

text \<open>
  The inner loop of \<open>DetectTimerList\<close>: spoke \<open>h\<close> goes node by node behind the ready list \<open>r\<close>. The fuel
  bounds the turns.
\<close>

fun drain_spoke :: "nat \<Rightarrow> nat \<Rightarrow> nat \<Rightarrow> nat \<Rightarrow> link_store \<Rightarrow> link_store option" where
  "drain_spoke 0 h r link s = (if link = h then Some s else None)"
| "drain_spoke (Suc fuel) h r link s =
     (if link = h then Some s
      else case link_bypass link s of
             None \<Rightarrow> None
           | Some s1 \<Rightarrow>
               (case lk_next s1 link of
                  None \<Rightarrow> None
                | Some q \<Rightarrow>
                    (case link_before r link s1 of
                       None \<Rightarrow> None
                     | Some s2 \<Rightarrow> drain_spoke fuel h r q s2)))"

section \<open>Rings\<close>

fun linked :: "link_store \<Rightarrow> nat list \<Rightarrow> bool" where
  "linked s (a # b # xs) = (lk_next s a = Some b \<and> lk_prev s b = Some a \<and> linked s (b # xs))"
| "linked s xs = True"

definition ring :: "link_store \<Rightarrow> nat \<Rightarrow> nat list \<Rightarrow> bool" where
  "ring s h xs \<longleftrightarrow> distinct (h # xs) \<and> linked s (h # xs @ [h])"

lemma linked_append: "linked s (xs @ a # ys) \<longleftrightarrow> linked s (xs @ [a]) \<and> linked s (a # ys)"
proof (induction xs)
  case (Cons x xs)
  then show ?case by (cases xs) auto
qed simp

lemma linked_cong:
  assumes "\<forall>a\<in>set (butlast xs). lk_next s' a = lk_next s a" "\<forall>a\<in>set (tl xs). lk_prev s' a = lk_prev s a"
  shows "linked s' xs = linked s xs"
  using assms
proof (induction xs rule: induct_list012)
  case (3 a b xs)
  then have "linked s' (b # xs) = linked s (b # xs)" by (intro 3) auto
  with 3(3,4) show ?case by simp
qed simp_all

lemma ring_cong:
  "\<forall>a\<in>set (h # xs). lk_next s' a = lk_next s a \<and> lk_prev s' a = lk_prev s a \<Longrightarrow> ring s' h xs = ring s h xs"
  unfolding ring_def by (subst linked_cong [of _ s' s]) (auto simp: butlast_append)

lemma ring_link_new: "ring (link_new a s) a []"
  by (simp add: ring_def link_new_def)

lemma last_split: "us @ [p] = h # xs \<Longrightarrow> h # xs @ ys = us @ p # ys"
  by (drule arg_cong [of _ _ "\<lambda>l. l @ ys"]) simp

lemma ring_prev:
  assumes "ring s h xs" shows "lk_prev s h = Some (last (h # xs))"
proof -
  have "butlast (h # xs) @ [last (h # xs)] = h # xs" by (rule append_butlast_last_id) simp
  from last_split [OF this, of "[h]"] assms have "linked s (butlast (h # xs) @ last (h # xs) # [h])"
    by (simp only: ring_def)
  then show ?thesis by (simp add: linked_append [of s _ _ "[h]"])
qed

lemma ring_link_before:
  assumes r: "ring s h xs" and n: "n \<notin> set (h # xs)"
  shows "\<exists>s'. link_before h n s = Some s' \<and> ring s' h (xs @ [n])
    \<and> (\<forall>a. a \<notin> set (n # h # xs) \<longrightarrow> lk_next s' a = lk_next s a \<and> lk_prev s' a = lk_prev s a)"
proof -
  define us p where "us = butlast (h # xs)" and "p = last (h # xs)"
  have hx: "us @ [p] = h # xs" unfolding us_def p_def by (rule append_butlast_last_id) simp
  let ?s = "\<lparr>lk_prev = (lk_prev s)(n := Some p, h := Some n), lk_next = (lk_next s)(p := Some n, n := Some h)\<rparr>"
  have p: "lk_prev s h = Some p" using ring_prev [OF r] by (simp add: p_def)
  have d: "distinct (us @ [p])" "linked s (us @ p # [h])"
    using r unfolding ring_def last_split [OF hx] hx by simp_all
  have nn: "n \<notin> set (us @ [p])" using n unfolding hx by simp
  have tl: "tl (us @ [p]) = xs" unfolding hx by simp
  have "linked ?s (us @ [p]) = linked s (us @ [p])"
    by (rule linked_cong) (use d(1) nn r n in \<open>auto simp: tl ring_def\<close>)
  moreover have "linked s (us @ [p])" using d(2) by (simp add: linked_append [of s us p "[h]"])
  moreover have "p \<noteq> n" "h \<noteq> n" using n nn by auto
  ultimately have "linked ?s (us @ p # [n, h])" by (simp add: linked_append [of ?s us p "[n, h]"])
  then have "linked ?s (h # xs @ [n, h])" unfolding last_split [OF hx, of "[n, h]"] .
  then have "ring ?s h (xs @ [n])" using r n by (auto simp: ring_def)
  moreover have "link_before h n s = Some ?s"
    using p \<open>h \<noteq> n\<close> by (cases s) (simp add: link_before_def Let_def)
  moreover have "p \<in> set (h # xs)" unfolding hx [symmetric] by simp
  ultimately show ?thesis by (intro exI [of _ ?s]) auto
qed

text \<open>Taking one node out of a ring.\<close>

lemma linked_skip:
  assumes d: "distinct (h # as @ n # bs)" and l: "linked s (h # as @ n # bs @ [h])"
    and p: "p = last (h # as)" and q: "q = hd (bs @ [h])"
  shows "lk_prev s n = Some p" "lk_next s n = Some q"
    and "(\<And>a. a \<noteq> n \<Longrightarrow> lk_next s' a = (if a = p then Some q else lk_next s a)) \<Longrightarrow>
      (\<And>a. a \<noteq> n \<Longrightarrow> lk_prev s' a = (if a = q then Some p else lk_prev s a)) \<Longrightarrow> linked s' (h # as @ bs @ [h])"
proof -
  define us vs where "us = butlast (h # as)" and "vs = tl (bs @ [h])"
  have ha: "us @ [p] = h # as" unfolding us_def p by (rule append_butlast_last_id) simp
  have bh: "q # vs = bs @ [h]" unfolding vs_def q by (rule list.collapse) simp
  have "linked s (us @ p # n # q # vs)" using l unfolding last_split [OF ha, symmetric] bh by simp
  then have l': "linked s (us @ [p])" "linked s (q # vs)" "lk_prev s n = Some p" "lk_next s n = Some q"
    by (simp_all add: linked_append [of s us p "n # q # vs"])
  show "lk_prev s n = Some p" "lk_next s n = Some q" by (fact l')+
  assume nx: "\<And>a. a \<noteq> n \<Longrightarrow> lk_next s' a = (if a = p then Some q else lk_next s a)"
    and pv: "\<And>a. a \<noteq> n \<Longrightarrow> lk_prev s' a = (if a = q then Some p else lk_prev s a)"
  have qin: "q \<in> set (bs @ [h])" unfolding bh [symmetric] by simp
  have pin: "p \<in> set (h # as)" unfolding ha [symmetric] by simp
  have dus: "distinct (us @ [p])" "n \<notin> set (us @ [p])" using d unfolding ha by auto
  have tl: "tl (us @ [p]) = as" unfolding ha by simp
  have "linked s' (us @ [p]) = linked s (us @ [p])"
  proof (rule linked_cong)
    have "a \<noteq> n" "a \<noteq> p" if "a \<in> set us" for a using dus that by auto
    then show "\<forall>a\<in>set (butlast (us @ [p])). lk_next s' a = lk_next s a" using nx by simp
    have "a \<noteq> n" "a \<noteq> q" if "a \<in> set as" for a using d qin that by auto
    then show "\<forall>a\<in>set (tl (us @ [p])). lk_prev s' a = lk_prev s a" using pv by (simp add: tl)
  qed
  moreover
  have bl: "butlast (q # vs) = bs" unfolding bh by simp
  have dvs: "distinct (q # vs)" using d unfolding bh by auto
  have vs_sub: "set vs \<subseteq> set (bs @ [h])" unfolding bh [symmetric] by auto
  have "linked s' (q # vs) = linked s (q # vs)"
  proof (intro linked_cong)
    have "a \<noteq> n" "a \<noteq> p" if "a \<in> set bs" for a using d pin that by auto
    then show "\<forall>a\<in>set (butlast (q # vs)). lk_next s' a = lk_next s a" using nx by (simp only: bl) simp
    have "a \<noteq> n" "a \<noteq> q" if "a \<in> set vs" for a using d dvs that vs_sub by auto
    then show "\<forall>a\<in>set (tl (q # vs)). lk_prev s' a = lk_prev s a" using pv by simp
  qed
  moreover have "n \<noteq> p" "n \<noteq> q" using d pin qin by auto
  ultimately have "linked s' (us @ p # q # vs)"
    using l' nx [of p] pv [of q] by (simp add: linked_append [of s' us p "q # vs"])
  then show "linked s' (h # as @ bs @ [h])" unfolding last_split [OF ha, symmetric] bh .
qed

lemma ring_remove:
  assumes r: "ring s h xs" and n: "n \<in> set xs"
  shows "ring (link_remove n s) h (remove1 n xs)"
    and "\<forall>a. a \<notin> set (h # xs) \<longrightarrow>
      lk_next (link_remove n s) a = lk_next s a \<and> lk_prev (link_remove n s) a = lk_prev s a"
    and "lk_next (link_remove n s) n = None \<and> lk_prev (link_remove n s) n = None"
proof -
  obtain as bs where xs: "xs = as @ n # bs" using split_list [OF n] by blast
  define p q where "p = last (h # as)" and "q = hd (bs @ [h])"
  have d: "distinct (h # as @ n # bs)" "linked s (h # as @ n # bs @ [h])" using r unfolding ring_def xs by simp_all
  note sk = linked_skip [OF d p_def q_def]
  have "p \<in> set (h # as)" unfolding p_def by (rule last_in_set) simp
  then have pin: "p \<in> set (h # xs)" "p \<noteq> n" using d(1) unfolding xs by auto
  have "q \<in> set (bs @ [h])" unfolding q_def by (rule hd_in_set) simp
  then have qin: "q \<in> set (h # xs)" "q \<noteq> n" using d(1) unfolding xs by auto
  have eq: "link_remove n s = \<lparr>lk_prev = ((lk_prev s)(q := Some p))(n := None), lk_next = ((lk_next s)(p := Some q))(n := None)\<rparr>"
    using sk(1,2) pin(2) qin(2) by (cases s) (simp add: link_remove_def fun_upd_twist)
  have "linked (link_remove n s) (h # as @ bs @ [h])" by (rule sk(3)) (simp_all add: eq)
  moreover have "remove1 n xs = as @ bs" using d(1) by (simp add: xs remove1_append)
  ultimately show "ring (link_remove n s) h (remove1 n xs)" using d(1) by (auto simp: ring_def)
  show "\<forall>a. a \<notin> set (h # xs) \<longrightarrow>
      lk_next (link_remove n s) a = lk_next s a \<and> lk_prev (link_remove n s) a = lk_prev s a"
    using pin qin n by (auto simp: eq)
  show "lk_next (link_remove n s) n = None \<and> lk_prev (link_remove n s) n = None" by (simp add: eq)
qed

lemma ring_bypass_first:
  assumes r: "ring s h (n # xs)"
  shows "\<exists>s'. link_bypass n s = Some s' \<and> ring s' h xs \<and> lk_next s' n = Some (hd (xs @ [h]))
    \<and> (\<forall>a. a \<notin> set (h # n # xs) \<longrightarrow> lk_next s' a = lk_next s a \<and> lk_prev s' a = lk_prev s a)"
proof -
  define q where "q = hd (xs @ [h])"
  have d: "distinct (h # [] @ n # xs)" "linked s (h # [] @ n # xs @ [h])" using r by (simp_all add: ring_def)
  note sk = linked_skip [OF d _ q_def, of h]
  have "q \<in> set (xs @ [h])" unfolding q_def by (rule hd_in_set) simp
  then have qin: "q \<in> set (h # xs)" "q \<noteq> n" "h \<noteq> n" using d(1) by auto
  let ?s = "\<lparr>lk_prev = (lk_prev s)(q := Some h), lk_next = (lk_next s)(h := Some q)\<rparr>"
  have "link_bypass n s = Some ?s"
    using sk(1,2) qin(3) by (cases s) (simp add: link_bypass_def)
  moreover have "linked ?s (h # [] @ xs @ [h])" by (rule sk(3)) simp_all
  then have "ring ?s h xs" using d(1) by (simp add: ring_def)
  ultimately show ?thesis
    using sk(2) qin by (intro exI [of _ ?s]) (auto simp: q_def)
qed

lemma ring_next: "ring s h xs \<Longrightarrow> lk_next s h = Some (hd (xs @ [h]))"
  by (cases xs) (simp_all add: ring_def)

section \<open>The manager's lists\<close>

text \<open>
  C22. The pointer code refines the lists of the wheel: linking a node in front of a head appends it to
  the list of that head, \<open>RemoveTimer\<close> takes it out of the list that holds it, and each leaves
  every other list of the manager alone. A new link is an empty list.
\<close>

theorem links_refine_lists:
  assumes r: "ring s h xs" and o: "ring s g ys" "set (h # xs) \<inter> set (g # ys) = {}"
    and n: "n \<notin> set (h # xs) \<union> set (g # ys)" and m: "m \<in> set xs"
  shows "(\<exists>s'. link_before h n s = Some s' \<and> ring s' h (xs @ [n]) \<and> ring s' g ys)
    \<and> (ring (link_remove m s) h (remove1 m xs) \<and> ring (link_remove m s) g ys)
    \<and> (ring (link_new n s) n [] \<and> ring (link_new n s) h xs)"
proof (intro conjI [OF _ conjI])
  from ring_link_before [OF r, of n] n obtain s' where
    s': "link_before h n s = Some s'" "ring s' h (xs @ [n])"
      "\<forall>a. a \<notin> set (n # h # xs) \<longrightarrow> lk_next s' a = lk_next s a \<and> lk_prev s' a = lk_prev s a"
    by blast
  have "ring s' g ys = ring s g ys" by (rule ring_cong) (use s'(3) o(2) n in auto)
  with s'(1,2) o(1) show "\<exists>s'. link_before h n s = Some s' \<and> ring s' h (xs @ [n]) \<and> ring s' g ys" by blast
  have "ring (link_remove m s) g ys = ring s g ys"
    by (rule ring_cong) (use ring_remove(2) [OF r m] o(2) in auto)
  with ring_remove(1) [OF r m] o(1) show "ring (link_remove m s) h (remove1 m xs) \<and> ring (link_remove m s) g ys"
    by simp
  have "ring (link_new n s) h xs = ring s h xs" by (rule ring_cong) (use n in \<open>auto simp: link_new_def\<close>)
  with r show "ring (link_new n s) n [] \<and> ring (link_new n s) h xs" by (simp add: ring_link_new)
qed

lemma drain_spoke_ring:
  assumes "ring s h xs" "ring s r ys" "set (h # xs) \<inter> set (r # ys) = {}" "length xs \<le> fuel"
    "link = hd (xs @ [h])"
  shows "\<exists>s'. drain_spoke fuel h r link s = Some s' \<and> ring s' h [] \<and> ring s' r (ys @ xs)
    \<and> (\<forall>a. a \<notin> set (h # xs) \<union> set (r # ys) \<longrightarrow> lk_next s' a = lk_next s a \<and> lk_prev s' a = lk_prev s a)"
  using assms
proof (induction xs arbitrary: s ys fuel link)
  case Nil
  then show ?case by (cases fuel) (simp_all add: ring_def)
next
  case (Cons n xs)
  then obtain f where f: "fuel = Suc f" "length xs \<le> f" by (cases fuel) auto
  from ring_bypass_first [OF Cons.prems(1)] obtain s1 where
    s1: "link_bypass n s = Some s1" "ring s1 h xs" "lk_next s1 n = Some (hd (xs @ [h]))"
      "\<forall>a. a \<notin> set (h # n # xs) \<longrightarrow> lk_next s1 a = lk_next s a \<and> lk_prev s1 a = lk_prev s a"
    by blast
  have "ring s1 r ys = ring s r ys" by (rule ring_cong) (use s1(4) Cons.prems(3) in auto)
  then have r1: "ring s1 r ys" using Cons.prems(2) by simp
  have "n \<notin> set (r # ys)" "n \<notin> set (h # xs)" using Cons.prems(1,3) by (auto simp: ring_def)
  from ring_link_before [OF r1 this(1)] obtain s2 where
    s2: "link_before r n s1 = Some s2" "ring s2 r (ys @ [n])"
      "\<forall>a. a \<notin> set (n # r # ys) \<longrightarrow> lk_next s2 a = lk_next s1 a \<and> lk_prev s2 a = lk_prev s1 a"
    by blast
  have "ring s2 h xs = ring s1 h xs"
    by (rule ring_cong) (use s2(3) Cons.prems(1,3) in \<open>auto simp: ring_def\<close>)
  then have h2: "ring s2 h xs" using s1(2) by simp
  have "set (h # xs) \<inter> set (r # ys @ [n]) = {}" using Cons.prems(1,3) by (auto simp: ring_def)
  from Cons.IH [OF h2 s2(2) this f(2) refl] obtain s' where
    s': "drain_spoke f h r (hd (xs @ [h])) s2 = Some s'" "ring s' h []" "ring s' r ((ys @ [n]) @ xs)"
      "\<forall>a. a \<notin> set (h # xs) \<union> set (r # ys @ [n]) \<longrightarrow> lk_next s' a = lk_next s2 a \<and> lk_prev s' a = lk_prev s2 a"
    by blast
  have "n \<noteq> h" using Cons.prems(1) by (auto simp: ring_def)
  then have run: "drain_spoke fuel h r link s = Some s'"
    using s1(1,3) s2(1) s'(1) Cons.prems(5) by (simp add: f(1))
  show ?case
  proof (rule exI [of _ s'], intro conjI)
    show "ring s' r (ys @ n # xs)" using s'(3) by simp
    show "\<forall>a. a \<notin> set (h # n # xs) \<union> set (r # ys) \<longrightarrow> lk_next s' a = lk_next s a \<and> lk_prev s' a = lk_prev s a"
      using s'(4) s2(3) s1(4) by simp
  qed (fact run s'(2))+
qed

text \<open>
  The loop of \<open>DetectTimerList\<close> that empties a spoke ends, follows no NULL pointer, appends the nodes
  of the spoke to the ready list in their order and leaves the spoke an empty list.
\<close>

theorem drain_spoke_appends:
  assumes "ring s h xs" "ring s r ys" "set (h # xs) \<inter> set (r # ys) = {}" "lk_next s h = Some link"
  shows "\<exists>s'. drain_spoke (length xs) h r link s = Some s' \<and> ring s' h [] \<and> ring s' r (ys @ xs)"
  using drain_spoke_ring [OF assms(1,2,3) le_refl, of link] ring_next [OF assms(1)] assms(4) by auto

definition two_rings :: link_store where
  "two_rings = \<lparr>lk_prev = [1 \<mapsto> 3, 2 \<mapsto> 1, 3 \<mapsto> 2, 5 \<mapsto> 6, 6 \<mapsto> 5], lk_next = [1 \<mapsto> 2, 2 \<mapsto> 3, 3 \<mapsto> 1, 5 \<mapsto> 6, 6 \<mapsto> 5]\<rparr>"

lemma two_rings: "ring two_rings 1 [2, 3]" "ring two_rings 5 [6]"
  by (simp_all add: two_rings_def ring_def)

theorem links_refine_lists_witness:
  "(\<exists>s'. link_before 1 9 two_rings = Some s' \<and> ring s' 1 [2, 3, 9] \<and> ring s' 5 [6])
   \<and> ring (link_remove 2 two_rings) 1 [3]"
  using links_refine_lists [OF two_rings, of 9 2] by simp

theorem drain_spoke_appends_witness:
  "\<exists>s'. drain_spoke 2 1 5 2 two_rings = Some s' \<and> ring s' 1 [] \<and> ring s' 5 [6, 2, 3]"
  using drain_spoke_appends [OF two_rings, of 2] by (simp add: two_rings_def numeral_2_eq_2)

end
