(* ===== verification/TimerWheel.thy ===== *)
theory TimerWheel
  imports NodeLink
begin

text \<open>
  \<open>CTimerManager\<close> of frame/common/timermanager.cc: the hierarchical timing wheel. Wheel 0 has 256
  spokes of 10 ms each, wheels 1 to 4 have 64 spokes of \<open>2^8\<close>, \<open>2^14\<close>, \<open>2^20\<close> and \<open>2^26\<close> ticks.

  A spoke is the list of the nodes that its circular links hold, from \<open>spoke->next\<close> on; NodeLink
  shows that the pointer updates of the code are the list operations used here. Times are numbers of
  milliseconds, with the reductions modulo \<open>2^64\<close> and \<open>2^32\<close> of the C++ types written out. The clock
  (gettimeofday) is a parameter: \<open>clock n\<close> is what the \<open>n\<close>-th call returns, and the manager counts
  the calls.
\<close>

section \<open>State\<close>

definition GRANULARITY :: nat where "GRANULARITY = 10"
definition WHEEL_BITS1 :: nat where "WHEEL_BITS1 = 8"
definition WHEEL_BITS2 :: nat where "WHEEL_BITS2 = 6"
definition WHEEL_SIZE1 :: nat where "WHEEL_SIZE1 = 2 ^ WHEEL_BITS1"
definition WHEEL_SIZE2 :: nat where "WHEEL_SIZE2 = 2 ^ WHEEL_BITS2"
definition WHEEL_NUM :: nat where "WHEEL_NUM = 5"

lemmas wheel_consts = GRANULARITY_def WHEEL_BITS1_def WHEEL_BITS2_def WHEEL_SIZE1_def WHEEL_SIZE2_def WHEEL_NUM_def

record timer_node =
  tn_addr :: nat
  dead_time :: nat
  tn_timer :: nat

record wheel =
  spokes :: "nat \<Rightarrow> timer_node list"
  wh_size :: nat
  spokeindex :: nat

definition wheel_new :: "nat \<Rightarrow> wheel" where
  "wheel_new n = \<lparr>spokes = (\<lambda>_. []), wh_size = n, spokeindex = 0\<rparr>"

record timer_manager =
  wheels :: "nat \<Rightarrow> wheel"
  checktime :: nat
  readynodes :: "timer_node list"
  tm_reads :: nat

type_synonym clock = "nat \<Rightarrow> nat"

definition GetCurrentMillisec :: "clock \<Rightarrow> timer_manager \<Rightarrow> nat \<times> timer_manager" where
  "GetCurrentMillisec clk m = (clk (tm_reads m) mod 2 ^ 64, m\<lparr>tm_reads := Suc (tm_reads m)\<rparr>)"

definition timer_manager_new :: "clock \<Rightarrow> nat \<Rightarrow> timer_manager" where
  \<comment> \<open>the second argument is the number of clock readings before the construction\<close>
  "timer_manager_new clk r =
     \<lparr>wheels = (\<lambda>i. wheel_new (if i = 0 then WHEEL_SIZE1 else WHEEL_SIZE2)),
      checktime = clk r mod 2 ^ 64, readynodes = [], tm_reads = Suc r\<rparr>"

section \<open>Operations\<close>

definition threshold :: "nat \<Rightarrow> nat" where
  \<comment> \<open>\<open>threshold1\<close> to \<open>threshold4\<close>\<close>
  "threshold k = 2 ^ (WHEEL_BITS1 + (k - 1) * WHEEL_BITS2)"

definition add_spoke :: "nat \<Rightarrow> nat \<Rightarrow> timer_node \<Rightarrow> timer_manager \<Rightarrow> timer_manager" where
  \<comment> \<open>link the node in front of the spoke's head, that is at the end of its list\<close>
  "add_spoke k j node m =
     (let w = wheels m k in
      m\<lparr>wheels := (wheels m)(k := w\<lparr>spokes := (spokes w)(j := spokes w j @ [node])\<rparr>)\<rparr>)"

definition level_of :: "nat \<Rightarrow> nat" where
  "level_of interval =
     (if interval < threshold 1 then 0 else if interval < threshold 2 then 1
      else if interval < threshold 3 then 2 else if interval < threshold 4 then 3 else 4)"

definition spoke_index :: "timer_manager \<Rightarrow> nat \<Rightarrow> nat \<Rightarrow> nat" where
  "spoke_index m k interval =
     (if k = 0 then (interval + spokeindex (wheels m 0)) mod 2 ^ 32 mod WHEEL_SIZE1
      else (interval - threshold k + spokeindex (wheels m k) * threshold k) mod 2 ^ 32
             div threshold k mod WHEEL_SIZE2)"

definition AddTimerNode :: "nat \<Rightarrow> timer_node \<Rightarrow> timer_manager \<Rightarrow> timer_manager" where
  "AddTimerNode milseconds node m =
     (let interval = milseconds div GRANULARITY; k = level_of interval
      in add_spoke k (spoke_index m k interval) node m)"

definition AddToReadyNode :: "timer_node \<Rightarrow> timer_manager \<Rightarrow> timer_manager" where
  "AddToReadyNode node m = m\<lparr>readynodes := readynodes m @ [node]\<rparr>"

definition AddTimer :: "clock \<Rightarrow> nat \<Rightarrow> nat \<Rightarrow> nat \<Rightarrow> timer_manager \<Rightarrow> timer_node \<times> timer_manager" where
  \<comment> \<open>the address is that of the new node\<close>
  "AddTimer clk addr milseconds timer m =
     (let (now, m1) = GetCurrentMillisec clk m;
          node = \<lparr>tn_addr = addr, dead_time = (now + milseconds) mod 2 ^ 64, tn_timer = timer\<rparr>
      in (node, AddTimerNode milseconds node m1))"

text \<open>Unlinking takes the node out of the list that holds it, a spoke or the ready list.\<close>

definition RemoveTimer :: "timer_node \<Rightarrow> timer_manager \<Rightarrow> timer_manager" where
  "RemoveTimer node m =
     m\<lparr>wheels := (\<lambda>i. (wheels m i)\<lparr>spokes := (\<lambda>j. remove1 node (spokes (wheels m i) j))\<rparr>),
       readynodes := remove1 node (readynodes m)\<rparr>"

fun cascade_nodes :: "nat \<Rightarrow> timer_node list \<Rightarrow> timer_manager \<Rightarrow> timer_manager" where
  "cascade_nodes now [] m = m"
| "cascade_nodes now (node # nodes) m =
     cascade_nodes now nodes
       (if dead_time node \<le> now then AddToReadyNode node m
        else AddTimerNode ((dead_time node - now) mod 2 ^ 32) node m)"

text \<open>\<open>Cascade(0)\<close> is never called; the recursion ends at the last wheel.\<close>

function Cascade :: "clock \<Rightarrow> nat \<Rightarrow> timer_manager \<Rightarrow> timer_manager" where
  "Cascade clk k m =
     (if k < 1 \<or> WHEEL_NUM \<le> k then m
      else
        let (now, m0) = GetCurrentMillisec clk m;
            w = wheels m0 k;
            nodes = spokes w (spokeindex w);
            m1 = m0\<lparr>wheels := (wheels m0)(k := w\<lparr>spokes := (spokes w)(spokeindex w := []),
                                                 spokeindex := Suc (spokeindex w)\<rparr>)\<rparr>;
            m2 = cascade_nodes now nodes m1
        in if wh_size (wheels m2 k) \<le> spokeindex (wheels m2 k)
           then Cascade clk (Suc k) (m2\<lparr>wheels := (wheels m2)(k := (wheels m2 k)\<lparr>spokeindex := 0\<rparr>)\<rparr>)
           else m2)"
  by pat_completeness auto
termination by (relation "measure (\<lambda>(clk, k, m). WHEEL_NUM - k)") (auto simp: wheel_consts)

declare Cascade.simps [simp del]

text \<open>One turn of the loop of \<open>DetectTimerList\<close>: the current spoke moves to the ready list.\<close>

definition tick :: "clock \<Rightarrow> timer_manager \<Rightarrow> timer_manager" where
  "tick clk m =
     (let w = wheels m 0; s = spokeindex w;
          m1 = m\<lparr>wheels := (wheels m)(0 := w\<lparr>spokes := (spokes w)(s := []), spokeindex := Suc s\<rparr>),
                 readynodes := readynodes m @ spokes w s\<rparr>;
          m2 = (if wh_size w \<le> Suc s
                then Cascade clk 1 (m1\<lparr>wheels := (wheels m1)(0 := (wheels m1 0)\<lparr>spokeindex := 0\<rparr>)\<rparr>)
                else m1)
      in m2\<lparr>checktime := (checktime m2 + GRANULARITY) mod 2 ^ 64\<rparr>)"

definition loopnum :: "nat \<Rightarrow> timer_manager \<Rightarrow> nat" where
  "loopnum now m = (if checktime m < now then (now - checktime m) div GRANULARITY mod 2 ^ 32 else 0)"

definition detect_ready :: "clock \<Rightarrow> timer_manager \<Rightarrow> timer_manager" where
  \<comment> \<open>\<open>DetectTimerList\<close> up to the call of \<open>DoTimeOutCallBack\<close>\<close>
  "detect_ready clk m =
     (let (now, m0) = GetCurrentMillisec clk m in (tick clk ^^ loopnum now m0) m0)"

end
