(* ===== verification/TimerWheelProps.thy ===== *)
theory TimerWheelProps
  imports TimerWheel
begin

text \<open>
  Correctness of the timing wheel: no node is lost or duplicated, every index is inside its wheel,
  and no timer is late. Lateness is measured with the number of ticks after which a spoke is
  visited (\<open>due\<close>): the invariant \<open>timely\<close> says that the visit comes no later than the dead line of
  every node in the spoke. A spoke of wheel 0 is visited to fire its nodes, a spoke of a higher wheel to
  distribute them over the lower ones.
\<close>

section \<open>Shape\<close>

lemma threshold_simps [simp]:
  "threshold 1 = 256" "threshold (Suc 0) = 256" "threshold 2 = 16384" "threshold 3 = 1048576" "threshold 4 = 67108864"
  by (simp_all add: threshold_def wheel_consts)

lemma threshold_pos [simp]: "0 < threshold k"
  by (simp add: threshold_def)

lemma threshold_Suc: "1 \<le> k \<Longrightarrow> threshold (Suc k) = 64 * threshold k"
  by (cases k) (simp_all add: threshold_def wheel_consts power_add)

definition wheels_shape :: "timer_manager \<Rightarrow> bool" where
  "wheels_shape m \<longleftrightarrow> wh_size (wheels m 0) = 256 \<and> (\<forall>k\<in>{1..4}. wh_size (wheels m k) = 64)"

definition sidx :: "timer_manager \<Rightarrow> nat \<Rightarrow> nat" where
  "sidx m k = spokeindex (wheels m k)"

definition indices_ok :: "timer_manager \<Rightarrow> bool" where
  "indices_ok m \<longleftrightarrow> sidx m 0 < 256 \<and> (\<forall>k\<in>{1..4}. sidx m k < 64)"

lemma level_of_le: "level_of i \<le> 4"
  by (simp add: level_of_def)

lemma level_of_bounds:
  "level_of i = 0 \<Longrightarrow> i < 256"
  "level_of i = k \<Longrightarrow> 1 \<le> k \<Longrightarrow> threshold k \<le> i"
  "level_of i = k \<Longrightarrow> 1 \<le> k \<Longrightarrow> k < 4 \<Longrightarrow> i < 64 * threshold k"
  by (auto simp: level_of_def split: if_splits)

lemma mod_mult_div: "(x :: nat) mod (t * c) div t = x div t mod c"
proof (cases "t = 0")
  case False
  have "x mod (t * c) = t * (x div t mod c) + x mod t" by (rule mod_mult2_eq)
  with False show ?thesis by simp
qed simp

lemma threshold_dvd: "k \<le> 4 \<Longrightarrow> \<exists>c. (2 :: nat) ^ 32 = threshold k * (64 * c)"
proof -
  assume "k \<le> 4"
  then have "8 + (k - 1) * 6 + 6 \<le> 32" by simp
  then have "(2 :: nat) ^ 32 = 2 ^ (8 + (k - 1) * 6) * (2 ^ 6 * 2 ^ (32 - (8 + (k - 1) * 6 + 6)))"
    by (simp flip: power_add)
  moreover have "threshold k = 2 ^ (8 + (k - 1) * 6)" by (simp add: threshold_def wheel_consts)
  ultimately have "(2 :: nat) ^ 32 = threshold k * (64 * 2 ^ (32 - (8 + (k - 1) * 6 + 6)))" by simp
  then show ?thesis by blast
qed

lemma spoke_index_eq:
  assumes k: "1 \<le> k" "k \<le> 4" and i: "threshold k \<le> i"
  shows "spoke_index m k i = (i div threshold k - 1 + sidx m k) mod 64"
proof -
  let ?t = "threshold k"
  obtain c where c: "(2 :: nat) ^ 32 = ?t * (64 * c)" using threshold_dvd [OF k(2)] by blast
  have "(i - ?t + sidx m k * ?t) div ?t = i div ?t - 1 + sidx m k"
    using i le_div_geq [of ?t i] by (subst div_mult_self1) simp_all
  then have "(i - ?t + sidx m k * ?t) mod 2 ^ 32 div ?t mod 64 = (i div ?t - 1 + sidx m k) mod 64"
    unfolding c mod_mult_div by (simp add: mod_mod_cancel add.commute)
  with k show ?thesis by (simp add: spoke_index_def sidx_def wheel_consts add.commute)
qed

lemma spoke_index_0: "i < 256 \<Longrightarrow> sidx m 0 < 256 \<Longrightarrow> spoke_index m 0 i = (i + sidx m 0) mod 256"
  by (simp add: spoke_index_def sidx_def wheel_consts)

lemma spoke_index_bound:
  assumes "wheels_shape m" "k \<le> 4" shows "spoke_index m k i < wh_size (wheels m k)"
proof (cases "k = 0")
  case False
  then have "k \<in> {1..4}" using assms(2) by simp
  with assms(1) have "wh_size (wheels m k) = 64" unfolding wheels_shape_def by blast
  with False show ?thesis by (simp add: spoke_index_def wheel_consts)
qed (use assms in \<open>simp add: spoke_index_def wheels_shape_def wheel_consts\<close>)

section \<open>When a spoke is visited\<close>

primrec turn :: "(nat \<Rightarrow> nat) \<Rightarrow> nat \<Rightarrow> int" where
  \<comment> \<open>ticks until wheel \<open>k + 1\<close> is turned\<close>
  "turn s 0 = 256 - int (s 0)"
| "turn s (Suc k) = turn s k + int (threshold (Suc k)) * (63 - int (s (Suc k)))"

definition due :: "(nat \<Rightarrow> nat) \<Rightarrow> nat \<Rightarrow> nat \<Rightarrow> int" where
  "due s k j =
     (if k = 0 then (int j - int (s 0)) mod 256
      else turn s (k - 1) + int (threshold k) * ((int j - int (s k)) mod 64))"

definition pending :: "nat \<Rightarrow> nat \<Rightarrow> int" where
  \<comment> \<open>wheel \<open>p\<close> should have been turned already: everything from there on is early by a full turn\<close>
  "pending p k = (if p \<le> k then int (threshold p) else 0)"

definition timely :: "nat \<Rightarrow> nat \<Rightarrow> timer_manager \<Rightarrow> bool" where
  "timely c p m \<longleftrightarrow>
     (\<forall>k\<le>4. \<forall>j < wh_size (wheels m k). \<forall>n\<in>set (spokes (wheels m k) j).
        int c + 10 * (due (sidx m) k j - pending p k) \<le> int (dead_time n))"

lemma turn_le: "turn s k \<le> int (threshold (Suc k))"
proof (induction k)
  case (Suc k)
  have "int (threshold (Suc k)) * (63 - int (s (Suc k))) \<le> int (threshold (Suc k)) * 63"
    by (rule mult_left_mono) simp_all
  moreover have "int (threshold (Suc (Suc k))) = 64 * int (threshold (Suc k))"
    using threshold_Suc [of "Suc k"] by simp
  ultimately show ?case using Suc unfolding turn.simps by linarith
qed simp

lemma turn_cong: "(\<And>i. i \<le> k \<Longrightarrow> s i = s' i) \<Longrightarrow> turn s k = turn s' k"
  by (induction k) auto

lemma turn_zero: "(\<And>i. i \<le> k \<Longrightarrow> s i = 0) \<Longrightarrow> turn s k = int (threshold (Suc k))"
  by (induction k) (simp_all add: threshold_Suc)


section \<open>Placing a node\<close>

lemma spokes_add_spoke:
  "spokes (wheels (add_spoke k j n m) k') j' =
     spokes (wheels m k') j' @ (if k' = k \<and> j' = j then [n] else [])"
  by (simp add: add_spoke_def Let_def)

lemma add_spoke_same [simp]:
  "wh_size (wheels (add_spoke k j n m) i) = wh_size (wheels m i)"
  "sidx (add_spoke k j n m) = sidx m" "checktime (add_spoke k j n m) = checktime m"
  "readynodes (add_spoke k j n m) = readynodes m" "tm_reads (add_spoke k j n m) = tm_reads m"
  by (simp_all add: add_spoke_def Let_def sidx_def fun_eq_iff)

lemma AddTimerNode_same [simp]:
  "wh_size (wheels (AddTimerNode ms n m) i) = wh_size (wheels m i)"
  "sidx (AddTimerNode ms n m) = sidx m" "checktime (AddTimerNode ms n m) = checktime m"
  "readynodes (AddTimerNode ms n m) = readynodes m" "tm_reads (AddTimerNode ms n m) = tm_reads m"
  by (simp_all add: AddTimerNode_def Let_def)

lemma AddToReadyNode_same [simp]:
  "wheels (AddToReadyNode n m) = wheels m" "sidx (AddToReadyNode n m) = sidx m"
  "checktime (AddToReadyNode n m) = checktime m" "tm_reads (AddToReadyNode n m) = tm_reads m"
  "readynodes (AddToReadyNode n m) = readynodes m @ [n]"
  by (simp_all add: AddToReadyNode_def sidx_def fun_eq_iff)

lemma wheels_shape_cong:
  "(\<And>i. wh_size (wheels m' i) = wh_size (wheels m i)) \<Longrightarrow> wheels_shape m' = wheels_shape m"
  by (simp add: wheels_shape_def)

text \<open>The spoke chosen for an interval is visited after at most that many ticks.\<close>

lemma due_spoke_index:
  assumes s0: "sidx m 0 < 256" and i: "i < 2 ^ 32"
  shows "due (sidx m) (level_of i) (spoke_index m (level_of i) i) \<le> int i"
proof (cases "level_of i = 0")
  case True
  then have "i < 256" by (rule level_of_bounds(1))
  with s0 True show ?thesis
    by (simp add: spoke_index_0 due_def zmod_int mod_diff_left_eq)
next
  case False
  let ?k = "level_of i" and ?s = "sidx m"
  let ?t = "threshold ?k"
  define q where "q = i div ?t"
  have k: "1 \<le> ?k" "?k \<le> 4" using False level_of_le by auto
  have ge: "?t \<le> i" using level_of_bounds(2) k(1) by blast
  then have q1: "1 \<le> q" unfolding q_def using div_le_mono [OF ge, of ?t] by simp
  have q64: "q \<le> 64"
  proof (cases "?k = 4")
    case True
    then show ?thesis using i unfolding q_def by (simp add: div_le_mono [of i 4294967295 67108864, simplified])
  next
    case False
    then have "i < 64 * ?t" using level_of_bounds(3) [OF refl k(1)] k(2) by simp
    then show ?thesis unfolding q_def by (simp add: less_mult_imp_div_less less_imp_le)
  qed
  have "int ((q - 1 + ?s ?k) mod 64) - int (?s ?k) = (int (q - 1) + int (?s ?k)) mod 64 - int (?s ?k)"
    by (simp add: zmod_int)
  then have "(int (spoke_index m ?k i) - int (?s ?k)) mod 64 = int (q - 1) mod 64"
    using spoke_index_eq [OF k ge] by (simp add: q_def mod_diff_left_eq)
  also have "\<dots> = int q - 1" using q1 q64 by simp
  finally have off: "(int (spoke_index m ?k i) - int (?s ?k)) mod 64 = int q - 1" .
  have R: "turn ?s (?k - 1) \<le> int ?t" using turn_le [of ?s "?k - 1"] k(1) by simp
  have qt: "int q * int ?t \<le> int i" unfolding q_def by (simp flip: of_nat_mult)
  have "due ?s ?k (spoke_index m ?k i) = turn ?s (?k - 1) + int ?t * (int q - 1)"
    using False by (simp add: due_def off)
  also have "\<dots> \<le> int q * int ?t" using R by (simp add: algebra_simps)
  finally show ?thesis using qt by linarith
qed

lemma timely_AddTimerNode:
  assumes t: "timely c 5 m" and s0: "sidx m 0 < 256" and ms: "ms < 2 ^ 32"
    and d: "c + ms \<le> dead_time n"
  shows "timely c 5 (AddTimerNode ms n m)"
proof -
  let ?i = "ms div 10"
  have "due (sidx m) (level_of ?i) (spoke_index m (level_of ?i) ?i) \<le> int ?i"
    using ms by (intro due_spoke_index s0) simp
  moreover have "10 * int ?i \<le> int ms" by (simp add: zdiv_int)
  ultimately have "int c + 10 * due (sidx m) (level_of ?i) (spoke_index m (level_of ?i) ?i) \<le> int (dead_time n)"
    using d by linarith
  with t show ?thesis
    by (auto simp: timely_def AddTimerNode_def Let_def spokes_add_spoke pending_def wheel_consts)
qed


section \<open>Cascading\<close>

lemma timely_cong:
  assumes "\<And>k j. k \<le> 4 \<Longrightarrow> j < wh_size (wheels m k) \<Longrightarrow> spokes (wheels m' k) j = spokes (wheels m k) j"
    and "\<And>k. wh_size (wheels m' k) = wh_size (wheels m k)"
    and "\<And>k j. k \<le> 4 \<Longrightarrow> j < wh_size (wheels m k) \<Longrightarrow> spokes (wheels m k) j \<noteq> [] \<Longrightarrow>
      int c' + 10 * (due (sidx m') k j - pending p' k) \<le> int c + 10 * (due (sidx m) k j - pending p k)"
    and "timely c p m"
  shows "timely c' p' m'"
  unfolding timely_def
proof (intro allI impI ballI)
  fix k j n assume k: "k \<le> 4" and j: "j < wh_size (wheels m' k)" and n: "n \<in> set (spokes (wheels m' k) j)"
  have j': "j < wh_size (wheels m k)" using j assms(2) by simp
  with n k assms(1) have n': "n \<in> set (spokes (wheels m k) j)" by simp
  then have "spokes (wheels m k) j \<noteq> []" by auto
  from assms(3) [OF k j' this] show "int c' + 10 * (due (sidx m') k j - pending p' k) \<le> int (dead_time n)"
    using assms(4) k j' n' unfolding timely_def by fastforce
qed

definition take_spoke :: "nat \<Rightarrow> timer_manager \<Rightarrow> timer_manager" where
  \<comment> \<open>empty the current spoke of wheel \<open>k\<close> and step to the next\<close>
  "take_spoke k m =
     (let w = wheels m k in
      m\<lparr>wheels := (wheels m)(k := w\<lparr>spokes := (spokes w)(spokeindex w := []), spokeindex := Suc (spokeindex w)\<rparr>)\<rparr>)"

definition reset_spoke :: "nat \<Rightarrow> timer_manager \<Rightarrow> timer_manager" where
  "reset_spoke k m = m\<lparr>wheels := (wheels m)(k := (wheels m k)\<lparr>spokeindex := 0\<rparr>)\<rparr>"

lemma take_spoke_same [simp]:
  "wh_size (wheels (take_spoke k m) i) = wh_size (wheels m i)"
  "sidx (take_spoke k m) = (sidx m)(k := Suc (sidx m k))"
  "spokes (wheels (take_spoke k m) i) j = (if i = k \<and> j = sidx m k then [] else spokes (wheels m i) j)"
  "checktime (take_spoke k m) = checktime m" "readynodes (take_spoke k m) = readynodes m"
  "tm_reads (take_spoke k m) = tm_reads m"
  by (auto simp: take_spoke_def Let_def sidx_def fun_eq_iff)

lemma reset_spoke_same [simp]:
  "wh_size (wheels (reset_spoke k m) i) = wh_size (wheels m i)"
  "sidx (reset_spoke k m) = (sidx m)(k := 0)"
  "spokes (wheels (reset_spoke k m) i) j = spokes (wheels m i) j"
  "checktime (reset_spoke k m) = checktime m" "readynodes (reset_spoke k m) = readynodes m"
  "tm_reads (reset_spoke k m) = tm_reads m"
  by (auto simp: reset_spoke_def sidx_def fun_eq_iff)

lemma GetCurrentMillisec_same [simp]:
  "wheels (snd (GetCurrentMillisec clk m)) = wheels m" "checktime (snd (GetCurrentMillisec clk m)) = checktime m"
  "readynodes (snd (GetCurrentMillisec clk m)) = readynodes m" "sidx (snd (GetCurrentMillisec clk m)) = sidx m"
  "tm_reads (snd (GetCurrentMillisec clk m)) = Suc (tm_reads m)"
  "fst (GetCurrentMillisec clk m) = clk (tm_reads m) mod 2 ^ 64"
  by (simp_all add: GetCurrentMillisec_def sidx_def fun_eq_iff)

lemma Cascade_eq:
  "Cascade clk k m =
     (if k < 1 \<or> 5 \<le> k then m
      else
        let now = clk (tm_reads m) mod 2 ^ 64;
            m2 = cascade_nodes now (spokes (wheels m k) (sidx m k))
                   (take_spoke k (snd (GetCurrentMillisec clk m)))
        in if wh_size (wheels m2 k) \<le> sidx m2 k then Cascade clk (Suc k) (reset_spoke k m2) else m2)"
  by (subst Cascade.simps)
    (simp add: Let_def GetCurrentMillisec_def take_spoke_def reset_spoke_def sidx_def wheel_consts)

lemma turn_upd: "k < i \<Longrightarrow> turn (s(i := x)) k = turn s k"
  by (rule turn_cong) auto

lemma turn_shift:
  assumes "1 \<le> k" "k \<le> i" shows "turn (s(k := x)) i = turn s i + int (threshold k) * (int (s k) - int x)"
  using assms(2)
proof (induction i rule: dec_induct)
  case base
  obtain k' where "k = Suc k'" using assms(1) by (cases k) auto
  then show ?case using turn_upd [of k' k s x] by (simp add: fun_upd_def algebra_simps)
qed simp

lemma turn_shift_0: "turn (s(0 := x)) i = turn s i + (int (s 0) - int x)"
  by (induction i) simp_all

lemma mod_step:
  fixes a :: int assumes "a mod m \<noteq> 0" "0 < m" shows "(a - 1) mod m = a mod m - 1"
proof -
  have "(a - 1) mod m = (a mod m - 1) mod m" by (simp add: mod_diff_left_eq)
  also have "\<dots> = a mod m - 1"
    using assms pos_mod_bound [of m a] pos_mod_sign [of m a] by (intro mod_pos_pos_trivial) linarith+
  finally show ?thesis .
qed

lemma mod_diff_nonzero:
  "j < n \<Longrightarrow> s < n \<Longrightarrow> j \<noteq> s \<Longrightarrow> (int j - int s) mod int n \<noteq> 0"
  by (metis int_ops(1) mod_eq_dvd_iff mod_less of_nat_eq_iff zmod_int dvd_eq_mod_eq_0)

text \<open>Turning wheel \<open>k\<close> when all lower wheels stand at zero discharges what was pending.\<close>

lemma timely_take_spoke:
  assumes sh: "wheels_shape m" and k: "1 \<le> k" "k \<le> 4" and z: "\<forall>i<k. sidx m i = 0" and s: "sidx m k < 64"
    and t: "timely c k m"
  shows "timely c 5 (take_spoke k m)"
proof (rule timely_cong [where m = "m\<lparr>wheels := (wheels m)(k := (wheels m k)\<lparr>spokes := (spokes (wheels m k))(sidx m k := [])\<rparr>)\<rparr>" and c = c and p = k])
  let ?m0 = "m\<lparr>wheels := (wheels m)(k := (wheels m k)\<lparr>spokes := (spokes (wheels m k))(sidx m k := [])\<rparr>)\<rparr>"
  have sx: "sidx ?m0 = sidx m" by (simp add: sidx_def fun_eq_iff)
  show "timely c k ?m0" using t unfolding timely_def sx by auto
  fix i j assume i: "i \<le> 4" and j: "j < wh_size (wheels ?m0 i)" and ne: "spokes (wheels ?m0 i) j \<noteq> []"
  have sizes: "wh_size (wheels m k) = 64" using sh k by (simp add: wheels_shape_def)
  show "int c + 10 * (due (sidx (take_spoke k m)) i j - pending 5 i)
      \<le> int c + 10 * (due (sidx ?m0) i j - pending k i)"
  proof (cases "i = k")
    case True
    with ne have jk: "j \<noteq> sidx m k" by auto
    have j64: "j < 64" using j True sizes by simp
    have "(int j - int (sidx m k)) mod 64 \<noteq> 0" using mod_diff_nonzero [OF j64 s jk] by simp
    then have st: "(int j - int (Suc (sidx m k))) mod 64 = (int j - int (sidx m k)) mod 64 - 1"
      using mod_step [of "int j - int (sidx m k)" 64] by (simp add: algebra_simps)
    have t1: "turn ((sidx m)(k := Suc (sidx m k))) (k - Suc 0) = turn (sidx m) (k - Suc 0)"
      using k by (intro turn_upd) simp
    have "due ((sidx m)(k := Suc (sidx m k))) k j = due (sidx m) k j - int (threshold k)"
      using k by (simp add: due_def t1 st right_diff_distrib del: of_nat_Suc)
    with True k show ?thesis unfolding sx take_spoke_same by (simp add: pending_def)
  next
    case False
    then show ?thesis
    proof (cases "i < k")
      case True
      have "due ((sidx m)(k := Suc (sidx m k))) i j = due (sidx m) i j"
        using True by (simp add: due_def turn_upd)
      with True i show ?thesis unfolding sx take_spoke_same by (simp add: pending_def)
    next
      case nl: False
      then have "due ((sidx m)(k := Suc (sidx m k))) i j = due (sidx m) i j - int (threshold k)"
        using False k turn_shift [OF k(1), of "i - 1" "sidx m" "Suc (sidx m k)"]
        by (simp add: due_def algebra_simps)
      with nl i show ?thesis unfolding sx take_spoke_same by (simp add: pending_def)
    qed
  qed
qed (auto simp: sidx_def)

lemma timely_reset_spoke:
  assumes k: "1 \<le> k" "k \<le> 4" and s: "sidx m k = 64" and t: "timely c 5 m"
  shows "timely c (Suc k) (reset_spoke k m)"
proof (rule timely_cong [OF _ _ _ t])
  fix i j :: nat assume i: "i \<le> 4"
  have thr: "threshold (Suc k) = 64 * threshold k" using threshold_Suc k by simp
  show "int c + 10 * (due (sidx (reset_spoke k m)) i j - pending (Suc k) i)
      \<le> int c + 10 * (due (sidx m) i j - pending 5 i)"
  proof (cases "k < i")
    case True
    have "due ((sidx m)(k := 0)) i j = due (sidx m) i j + 64 * int (threshold k)"
      using True k s turn_shift [OF k(1), of "i - 1" "sidx m" 0] by (simp add: due_def)
    with True i show ?thesis unfolding reset_spoke_same by (simp add: pending_def thr)
  next
    case False
    have md: "(int j - int (((sidx m)(k := 0)) i)) mod 64 = (int j - int (sidx m i)) mod 64"
      using s by (cases "i = k") simp_all
    have tn: "turn ((sidx m)(k := 0)) (i - 1) = turn (sidx m) (i - 1)" if "i \<noteq> 0"
      using False that by (intro turn_upd) simp
    have "due ((sidx m)(k := 0)) i j = due (sidx m) i j"
      using k tn unfolding due_def md by (cases "i = 0") simp_all
    with False i show ?thesis unfolding reset_spoke_same by (simp add: pending_def)
  qed
qed simp_all


definition nodes_bounded :: "nat \<Rightarrow> timer_manager \<Rightarrow> bool" where
  \<comment> \<open>no dead line in a wheel is \<open>2^32\<close> ms or more behind the given time\<close>
  "nodes_bounded now m \<longleftrightarrow>
     (\<forall>k\<le>4. \<forall>j < wh_size (wheels m k). \<forall>n\<in>set (spokes (wheels m k) j). dead_time n < now + 2 ^ 32)"

lemma nodes_bounded_mono: "nodes_bounded a m \<Longrightarrow> a \<le> b \<Longrightarrow> nodes_bounded b m"
  unfolding nodes_bounded_def by (meson add_le_mono1 order_less_le_trans)

lemma nodes_bounded_AddTimerNode:
  "nodes_bounded now m \<Longrightarrow> dead_time n < now + 2 ^ 32 \<Longrightarrow> nodes_bounded now (AddTimerNode ms n m)"
  by (auto simp: nodes_bounded_def AddTimerNode_def Let_def spokes_add_spoke)

lemma cascade_nodes_same [simp]:
  "wh_size (wheels (cascade_nodes now ns m) i) = wh_size (wheels m i)"
  "sidx (cascade_nodes now ns m) = sidx m" "checktime (cascade_nodes now ns m) = checktime m"
  "tm_reads (cascade_nodes now ns m) = tm_reads m"
  by (induction ns arbitrary: m) auto

lemma timely_cascade_nodes:
  assumes "timely c 5 m" "sidx m 0 < 256" "c \<le> now" "\<forall>n\<in>set ns. dead_time n < now + 2 ^ 32"
    and "nodes_bounded now m"
  shows "timely c 5 (cascade_nodes now ns m) \<and> nodes_bounded now (cascade_nodes now ns m)"
  using assms
proof (induction ns arbitrary: m)
  case (Cons n ns)
  show ?case
  proof (cases "dead_time n \<le> now")
    case True
    have eq: "timely c 5 (AddToReadyNode n m)" "nodes_bounded now (AddToReadyNode n m)"
      using Cons.prems by (simp_all add: timely_def nodes_bounded_def)
    from Cons.IH [OF eq(1)] eq(2) True Cons.prems show ?thesis by simp
  next
    case False
    let ?ms = "(dead_time n - now) mod 2 ^ 32"
    have "dead_time n - now < 2 ^ 32" using Cons.prems(4) False by (simp add: less_diff_conv2 add.commute)
    then have ms: "?ms = dead_time n - now" by (rule mod_less)
    have "timely c 5 (AddTimerNode ?ms n m)"
      using Cons.prems False by (intro timely_AddTimerNode) (simp_all add: ms)
    moreover have "nodes_bounded now (AddTimerNode ?ms n m)"
      using Cons.prems by (intro nodes_bounded_AddTimerNode) simp_all
    ultimately show ?thesis using Cons.IH [of "AddTimerNode ?ms n m"] Cons.prems False by simp
  qed
qed simp

text \<open>The clock never runs backwards and does not overflow.\<close>

definition clock_ok :: "clock \<Rightarrow> bool" where
  "clock_ok clk \<longleftrightarrow> mono clk \<and> (\<forall>n. clk n < 2 ^ 63)"

lemma clock_mod [simp]: "clock_ok clk \<Longrightarrow> clk n mod 18446744073709551616 = clk n"
proof -
  assume "clock_ok clk"
  then have "clk n < 2 ^ 63" by (simp add: clock_ok_def)
  then show ?thesis by simp
qed

lemma clock_mono: "clock_ok clk \<Longrightarrow> a \<le> b \<Longrightarrow> clk a \<le> clk b"
  by (simp add: clock_ok_def mono_def)

lemma wheels_shape_size: "wheels_shape m \<Longrightarrow> 1 \<le> k \<Longrightarrow> k \<le> 4 \<Longrightarrow> wh_size (wheels m k) = 64"
  by (simp add: wheels_shape_def)

lemma Cascade_timely:
  assumes "clock_ok clk" "1 \<le> k" "k \<le> 5" "wheels_shape m" "\<forall>i<k. sidx m i = 0"
    and "\<forall>i\<in>{k..4}. sidx m i < 64" "timely c k m" "c \<le> clk (tm_reads m)" "nodes_bounded (clk (tm_reads m)) m"
  shows "timely c 5 (Cascade clk k m) \<and> indices_ok (Cascade clk k m) \<and> wheels_shape (Cascade clk k m)
    \<and> checktime (Cascade clk k m) = checktime m \<and> tm_reads m \<le> tm_reads (Cascade clk k m)
    \<and> nodes_bounded (clk (tm_reads (Cascade clk k m))) (Cascade clk k m)"
  using assms
proof (induction "5 - k" arbitrary: k m)
  case 0
  then have k5: "k = 5" by simp
  have "indices_ok m" using 0(6) by (simp add: indices_ok_def k5)
  then show ?case using 0(2-) by (simp add: Cascade_eq k5)
next
  case (Suc n)
  note IH = Suc(1) and P = Suc(3-)
  have k: "1 \<le> k" "k \<le> 4" using Suc(2) P(2) by simp_all
  note [simp] = clock_mod [OF P(1)]
    let ?now = "clk (tm_reads m)"
    let ?m0 = "snd (GetCurrentMillisec clk m)"
    let ?nodes = "spokes (wheels m k) (sidx m k)"
    define m2 where "m2 = cascade_nodes ?now ?nodes (take_spoke k ?m0)"
    have sz: "wh_size (wheels m k) = 64" using wheels_shape_size [OF P(4) k] .
    have sk: "sidx m k < 64" using P(6) k by simp
    have t0: "timely c k ?m0" using P(7) by (simp add: timely_def)
    have sh0: "wheels_shape ?m0" using P(4) by (simp add: wheels_shape_def)
    have t1: "timely c 5 (take_spoke k ?m0)"
      using timely_take_spoke [OF sh0 k _ _ t0] P(5) sk by simp
    have nb1: "nodes_bounded ?now (take_spoke k ?m0)" using P(9) by (simp add: nodes_bounded_def)
    have nb: "\<forall>n\<in>set ?nodes. dead_time n < ?now + 2 ^ 32"
      using P(9) k sk sz unfolding nodes_bounded_def by auto
    have s0: "sidx (take_spoke k ?m0) 0 < 256" using P(5) k by simp
    have m2: "timely c 5 m2" "nodes_bounded ?now m2"
      using timely_cascade_nodes [OF t1 s0 P(8) nb nb1] by (simp_all add: m2_def)
    have sx2: "sidx m2 = (sidx m)(k := Suc (sidx m k))" by (simp add: m2_def)
    have r2: "tm_reads m2 = Suc (tm_reads m)" "checktime m2 = checktime m" by (simp_all add: m2_def)
    have sh2: "wheels_shape m2" unfolding m2_def using P(4) by (simp add: wheels_shape_def)
    have le: "?now \<le> clk (tm_reads m2)" by (rule clock_mono [OF P(1)]) (simp add: r2)
    have sz2: "wh_size (wheels m2 k) = 64" using wheels_shape_size [OF sh2 k] .
    have eq: "Cascade clk k m = (if 64 \<le> sidx m2 k then Cascade clk (Suc k) (reset_spoke k m2) else m2)"
      using k sz2 by (subst Cascade_eq) (simp add: Let_def m2_def)
    show ?case
    proof (cases "64 \<le> sidx m2 k")
      case True
      then have s64: "sidx m2 k = 64" using sk by (simp add: sx2)
      let ?m3 = "reset_spoke k m2"
      have arg: "Cascade clk (Suc k) ?m3 = Cascade clk k m" using True by (simp add: eq)
      have t3: "timely c (Suc k) ?m3" by (rule timely_reset_spoke [OF k s64 m2(1)])
      have sh3: "wheels_shape ?m3" using sh2 by (simp add: wheels_shape_def)
      have z: "\<forall>i<Suc k. sidx ?m3 i = 0" using P(5) by (auto simp: sx2 less_Suc_eq)
      have hi: "\<forall>i\<in>{Suc k..4}. sidx ?m3 i < 64" using P(6) by (auto simp: sx2)
      have now3: "c \<le> clk (tm_reads ?m3)" using le P(8) by simp
      have nb3: "nodes_bounded (clk (tm_reads ?m3)) ?m3"
        using nodes_bounded_mono [OF m2(2) le] by (simp add: nodes_bounded_def)
      have n: "n = 5 - Suc k" "1 \<le> Suc k" "Suc k \<le> 5" using Suc(2) k by simp_all
      note IH [OF n(1) P(1) n(2,3) sh3 z hi t3 now3 nb3]
      then show ?thesis unfolding arg by (auto simp: r2 dest: Suc_leD)
    next
      case no: False
      have "indices_ok m2" using P(5,6) k no by (auto simp: indices_ok_def sx2)
      then show ?thesis using no m2(1) sh2 nodes_bounded_mono [OF m2(2) le] by (simp add: eq r2)
    qed
qed


section \<open>One tick and the whole detection\<close>

definition wheel_inv :: "clock \<Rightarrow> timer_manager \<Rightarrow> bool" where
  "wheel_inv clk m \<longleftrightarrow>
     wheels_shape m \<and> indices_ok m \<and> timely (checktime m) 5 m
     \<and> checktime m \<le> clk (tm_reads m) \<and> nodes_bounded (clk (tm_reads m)) m"

lemma tick_eq:
  assumes "wheels_shape m"
  shows "tick clk m =
    (let m1 = (take_spoke 0 m)\<lparr>readynodes := readynodes m @ spokes (wheels m 0) (sidx m 0)\<rparr>;
         m2 = (if 256 \<le> Suc (sidx m 0) then Cascade clk 1 (reset_spoke 0 m1) else m1)
     in m2\<lparr>checktime := (checktime m2 + 10) mod 2 ^ 64\<rparr>)"
  using assms
  by (simp add: tick_def take_spoke_def reset_spoke_def sidx_def Let_def wheel_consts wheels_shape_def)

lemma timely_take_spoke_0:
  assumes sh: "wheels_shape m" and s: "sidx m 0 < 256" and t: "timely c 5 m"
  shows "timely (c + 10) 5 (take_spoke 0 m)"
proof (rule timely_cong [where m = "m\<lparr>wheels := (wheels m)(0 := (wheels m 0)\<lparr>spokes := (spokes (wheels m 0))(sidx m 0 := [])\<rparr>)\<rparr>" and c = c and p = 5])
  let ?m0 = "m\<lparr>wheels := (wheels m)(0 := (wheels m 0)\<lparr>spokes := (spokes (wheels m 0))(sidx m 0 := [])\<rparr>)\<rparr>"
  have sx: "sidx ?m0 = sidx m" by (simp add: sidx_def fun_eq_iff)
  show "timely c 5 ?m0" using t unfolding timely_def sx by auto
  fix i j assume i: "i \<le> 4" and j: "j < wh_size (wheels ?m0 i)" and ne: "spokes (wheels ?m0 i) j \<noteq> []"
  have "due ((sidx m)(0 := Suc (sidx m 0))) i j = due (sidx m) i j - 1"
  proof (cases "i = 0")
    case True
    with ne j sh have j0: "j \<noteq> sidx m 0" "j < 256" by (auto simp: wheels_shape_def)
    have "(int j - int (sidx m 0)) mod 256 \<noteq> 0" using mod_diff_nonzero [OF j0(2) s j0(1)] by simp
    then have "(int j - int (Suc (sidx m 0))) mod 256 = (int j - int (sidx m 0)) mod 256 - 1"
      using mod_step [of "int j - int (sidx m 0)" 256] by (simp add: algebra_simps)
    with True show ?thesis by (simp add: due_def)
  next
    case False
    then show ?thesis using turn_shift_0 [of "sidx m" "Suc (sidx m 0)" "i - 1"] by (simp add: due_def)
  qed
  then show "int (c + 10) + 10 * (due (sidx (take_spoke 0 m)) i j - pending 5 i)
      \<le> int c + 10 * (due (sidx ?m0) i j - pending 5 i)"
    unfolding sx take_spoke_same by simp
qed (auto simp: sidx_def)

lemma timely_reset_spoke_0:
  assumes s: "sidx m 0 = 256" and t: "timely c 5 m"
  shows "timely c 1 (reset_spoke 0 m)"
proof (rule timely_cong [OF _ _ _ t])
  fix i j :: nat assume i: "i \<le> 4"
  show "int c + 10 * (due (sidx (reset_spoke 0 m)) i j - pending 1 i)
      \<le> int c + 10 * (due (sidx m) i j - pending 5 i)"
  proof (cases "i = 0")
    case True
    with s show ?thesis by (simp add: due_def pending_def)
  next
    case False
    then have "due ((sidx m)(0 := 0)) i j = due (sidx m) i j + 256"
      using s turn_shift_0 [of "sidx m" 0 "i - 1"] by (simp add: due_def)
    with False i show ?thesis unfolding reset_spoke_same by (simp add: pending_def)
  qed
qed simp_all

lemma tick_inv:
  assumes clk: "clock_ok clk" and inv: "wheel_inv clk m" and c: "checktime m + 10 \<le> clk (tm_reads m)"
  shows "wheel_inv clk (tick clk m) \<and> checktime (tick clk m) = checktime m + 10
    \<and> tm_reads m \<le> tm_reads (tick clk m)"
proof -
  have inv': "wheels_shape m" "indices_ok m" "timely (checktime m) 5 m" "nodes_bounded (clk (tm_reads m)) m"
    using inv by (auto simp: wheel_inv_def)
  have s: "sidx m 0 < 256" using inv'(2) by (simp add: indices_ok_def)
  define m1 where "m1 = (take_spoke 0 m)\<lparr>readynodes := readynodes m @ spokes (wheels m 0) (sidx m 0)\<rparr>"
  define m2 where "m2 = (if 256 \<le> Suc (sidx m 0) then Cascade clk 1 (reset_spoke 0 m1) else m1)"
  have w1: "wheels m1 = wheels (take_spoke 0 m)" "checktime m1 = checktime m" "tm_reads m1 = tm_reads m"
    and sx1: "sidx m1 = (sidx m)(0 := Suc (sidx m 0))"
    by (simp_all add: m1_def sidx_def take_spoke_def Let_def fun_eq_iff)
  let ?c = "checktime m + 10"
  have t1: "timely ?c 5 m1"
    using timely_take_spoke_0 [OF inv'(1) s inv'(3)] unfolding timely_def w1 sx1 take_spoke_same by simp
  have sh1: "wheels_shape m1" using inv'(1) by (simp add: wheels_shape_def w1)
  have nb1: "nodes_bounded (clk (tm_reads m)) m1" using inv'(4) by (simp add: nodes_bounded_def w1)
  have "timely ?c 5 m2 \<and> indices_ok m2 \<and> wheels_shape m2 \<and> checktime m2 = checktime m
      \<and> tm_reads m \<le> tm_reads m2 \<and> nodes_bounded (clk (tm_reads m2)) m2"
  proof (cases "256 \<le> Suc (sidx m 0)")
    case True
    then have s1: "sidx m1 0 = 256" using s by (simp add: sx1)
    let ?r = "reset_spoke 0 m1"
    have t2: "timely ?c 1 ?r" by (rule timely_reset_spoke_0 [OF s1 t1])
    have sh2: "wheels_shape ?r" using sh1 by (simp add: wheels_shape_def)
    have z: "\<forall>i<1. sidx ?r i = 0" and hi: "\<forall>i\<in>{1..4}. sidx ?r i < 64"
      using inv'(2) by (auto simp: indices_ok_def sx1)
    have nb2: "nodes_bounded (clk (tm_reads ?r)) ?r" using nb1 by (simp add: nodes_bounded_def w1)
    have le: "?c \<le> clk (tm_reads ?r)" using c by (simp add: w1)
    from Cascade_timely [OF clk _ _ sh2 z hi t2 le nb2] True show ?thesis
      by (simp add: m2_def w1)
  next
    case False
    then have "indices_ok m1" using inv'(2) by (auto simp: indices_ok_def sx1)
    with False t1 sh1 nb1 show ?thesis by (simp add: m2_def w1)
  qed
  note r = this
  have "clk (tm_reads m) < 2 ^ 63" using clk by (simp add: clock_ok_def)
  then have nowrap: "?c mod 2 ^ 64 = ?c" using c by simp
  have eq: "tick clk m = m2\<lparr>checktime := ?c\<rparr>"
    unfolding tick_eq [OF inv'(1)] Let_def m1_def [symmetric] m2_def [symmetric] using r nowrap by simp
  have wt: "wheels (m2\<lparr>checktime := ?c\<rparr>) = wheels m2" "sidx (m2\<lparr>checktime := ?c\<rparr>) = sidx m2"
    by (simp_all add: sidx_def fun_eq_iff)
  have "?c \<le> clk (tm_reads m2)" using c clock_mono [OF clk, of "tm_reads m" "tm_reads m2"] r by linarith
  then show ?thesis
    using r unfolding eq wheel_inv_def wheels_shape_def indices_ok_def timely_def nodes_bounded_def wt by simp
qed

lemma ticks_inv:
  assumes clk: "clock_ok clk" and inv: "wheel_inv clk m" and c: "checktime m + 10 * n \<le> clk (tm_reads m)"
  shows "wheel_inv clk ((tick clk ^^ n) m) \<and> checktime ((tick clk ^^ n) m) = checktime m + 10 * n
    \<and> tm_reads m \<le> tm_reads ((tick clk ^^ n) m)"
  using c
proof (induction n)
  case (Suc n)
  let ?m = "(tick clk ^^ n) m"
  have IH: "wheel_inv clk ?m" "checktime ?m = checktime m + 10 * n" "tm_reads m \<le> tm_reads ?m"
    using Suc by auto
  have "checktime ?m + 10 \<le> clk (tm_reads ?m)"
    using Suc.prems IH(2) clock_mono [OF clk IH(3)] by simp
  from tick_inv [OF clk IH(1) this] IH show ?case by simp
qed (use inv in simp)

lemma detect_ready_inv:
  assumes clk: "clock_ok clk" and inv: "wheel_inv clk m"
  shows "wheel_inv clk (detect_ready clk m)
    \<and> ((clk (tm_reads m) - checktime m) div 10 < 2 ^ 32 \<longrightarrow> clk (tm_reads m) < checktime (detect_ready clk m) + 10)
    \<and> tm_reads m < tm_reads (detect_ready clk m)"
proof -
  let ?now = "clk (tm_reads m)" and ?m0 = "snd (GetCurrentMillisec clk m)"
  let ?l = "loopnum ?now m"
  have le: "checktime m \<le> ?now" using inv by (simp add: wheel_inv_def)
  have mono: "?now \<le> clk (Suc (tm_reads m))" by (rule clock_mono [OF clk]) simp
  have inv0: "wheel_inv clk ?m0"
    using inv mono nodes_bounded_mono [of ?now m "clk (Suc (tm_reads m))"]
    by (auto simp: wheel_inv_def wheels_shape_def indices_ok_def timely_def nodes_bounded_def)
  have "?l \<le> (?now - checktime m) div 10" by (simp add: loopnum_def wheel_consts)
  then have "10 * ?l \<le> ?now - checktime m" by (simp add: less_eq_div_iff_mult_less_eq mult.commute)
  then have b: "checktime ?m0 + 10 * ?l \<le> clk (tm_reads ?m0)" using le mono by simp
  have eq: "detect_ready clk m = (tick clk ^^ ?l) ?m0"
    using clock_mod [OF clk] by (simp add: detect_ready_def GetCurrentMillisec_def loopnum_def)
  have "?now < checktime m + 10 * ?l + 10" if "(?now - checktime m) div 10 < 2 ^ 32"
  proof -
    define d where "d = ?now - checktime m"
    have "d < 10 * (d div 10) + 10" by presburger
    with that le show ?thesis unfolding d_def by (simp add: loopnum_def wheel_consts) linarith
  qed
  with ticks_inv [OF clk inv0 b] show ?thesis unfolding eq by simp
qed


section \<open>No node is lost\<close>

definition all_nodes :: "timer_manager \<Rightarrow> timer_node multiset" where
  "all_nodes m =
     (\<Sum>k\<le>4. \<Sum>j<wh_size (wheels m k). mset (spokes (wheels m k) j)) + mset (readynodes m)"

lemma sum_delta2:
  fixes x :: "'a :: comm_monoid_add"
  assumes "K \<le> N" "(J :: nat) < sz K"
  shows "sum (\<lambda>k. sum (\<lambda>j. if k = K \<and> j = J then x else 0) {..<sz k}) {..N :: nat} = x"
proof -
  have "sum (\<lambda>j. if k = K \<and> j = J then x else 0) {..<sz k} = (if k = K then x else 0)" for k
    using assms by (cases "k = K") simp_all
  then show ?thesis using assms by simp
qed

lemma all_nodes_AddTimerNode:
  assumes "wheels_shape m"
  shows "all_nodes (AddTimerNode ms n m) = add_mset n (all_nodes m)"
proof -
  let ?i = "ms div GRANULARITY"
  let ?k = "level_of ?i" and ?j = "spoke_index m (level_of ?i) ?i"
  have "mset (spokes (wheels (AddTimerNode ms n m) k) j)
      = mset (spokes (wheels m k) j) + (if k = ?k \<and> j = ?j then {#n#} else 0)" for k j
    by (simp add: AddTimerNode_def Let_def spokes_add_spoke)
  moreover have "(\<Sum>k\<le>4. \<Sum>j<wh_size (wheels m k). (if k = ?k \<and> j = ?j then {#n#} else 0)) = {#n#}"
    by (rule sum_delta2) (use level_of_le spoke_index_bound [OF assms] in auto)
  ultimately show ?thesis by (simp add: all_nodes_def sum.distrib)
qed

lemma all_nodes_AddToReadyNode [simp]: "all_nodes (AddToReadyNode n m) = add_mset n (all_nodes m)"
  by (simp add: all_nodes_def)

lemma all_nodes_cascade_nodes:
  "wheels_shape m \<Longrightarrow> all_nodes (cascade_nodes now ns m) = mset ns + all_nodes m"
proof (induction ns arbitrary: m)
  case (Cons n ns)
  have "wheels_shape (AddToReadyNode n m)" "\<And>ms. wheels_shape (AddTimerNode ms n m)"
    using Cons.prems by (simp_all add: wheels_shape_def)
  with Cons show ?case by (simp add: all_nodes_AddTimerNode)
qed simp

lemma all_nodes_take_spoke:
  assumes "k \<le> 4" "sidx m k < wh_size (wheels m k)"
  shows "all_nodes (take_spoke k m) + mset (spokes (wheels m k) (sidx m k)) = all_nodes m"
proof -
  let ?x = "mset (spokes (wheels m k) (sidx m k))"
  have "(\<Sum>i\<le>4. \<Sum>j<wh_size (wheels m i). mset (spokes (wheels m i) j))
      = (\<Sum>i\<le>4. \<Sum>j<wh_size (wheels m i).
          mset (spokes (wheels (take_spoke k m) i) j) + (if i = k \<and> j = sidx m k then ?x else 0))"
    by (intro sum.cong refl) simp
  also have "\<dots> = (\<Sum>i\<le>4. \<Sum>j<wh_size (wheels m i). mset (spokes (wheels (take_spoke k m) i) j)) +
        (\<Sum>i\<le>4. \<Sum>j<wh_size (wheels m i). (if i = k \<and> j = sidx m k then ?x else 0))"
    by (simp only: sum.distrib)
  also have "(\<Sum>i\<le>4. \<Sum>j<wh_size (wheels m i). (if i = k \<and> j = sidx m k then ?x else 0)) = ?x"
    by (rule sum_delta2) (use assms in auto)
  finally show ?thesis by (simp add: all_nodes_def)
qed

lemma all_nodes_checktime [simp]: "all_nodes (m\<lparr>checktime := c\<rparr>) = all_nodes m"
  by (simp add: all_nodes_def)

lemma all_nodes_reset_spoke [simp]: "all_nodes (reset_spoke k m) = all_nodes m"
  by (simp add: all_nodes_def)

lemma Cascade_all_nodes:
  assumes "1 \<le> k" "k \<le> 5" "wheels_shape m" "\<forall>i\<in>{k..4}. sidx m i < 64"
  shows "all_nodes (Cascade clk k m) = all_nodes m"
  using assms
proof (induction "5 - k" arbitrary: k m)
  case 0
  then show ?case by (simp add: Cascade_eq)
next
  case (Suc n)
  then have k: "1 \<le> k" "k \<le> 4" "sidx m k < 64" by simp_all
  let ?m0 = "snd (GetCurrentMillisec clk m)"
  define m2 where "m2 = cascade_nodes (clk (tm_reads m) mod 2 ^ 64) (spokes (wheels m k) (sidx m k)) (take_spoke k ?m0)"
  have sz: "wh_size (wheels m k) = 64" using wheels_shape_size [OF Suc.prems(3) k(1,2)] .
  have sh1: "wheels_shape (take_spoke k ?m0)" using Suc.prems(3) by (simp add: wheels_shape_def)
  have a0: "all_nodes ?m0 = all_nodes m" by (simp add: all_nodes_def)
  have a2: "all_nodes m2 = all_nodes m"
    using all_nodes_take_spoke [of k ?m0] k sz
    by (simp add: m2_def all_nodes_cascade_nodes [OF sh1] a0 add.commute)
  have sx2: "sidx m2 = (sidx m)(k := Suc (sidx m k))" and sz2: "wh_size (wheels m2 k) = 64"
    by (simp_all add: m2_def sz)
  have eq: "Cascade clk k m = (if 64 \<le> sidx m2 k then Cascade clk (Suc k) (reset_spoke k m2) else m2)"
    using k sz2 by (subst Cascade_eq) (simp add: Let_def m2_def)
  have "wheels_shape (reset_spoke k m2)" using Suc.prems(3) by (simp add: m2_def wheels_shape_def)
  moreover have "\<forall>i\<in>{Suc k..4}. sidx (reset_spoke k m2) i < 64" using Suc.prems(4) by (auto simp: sx2)
  ultimately have "all_nodes (Cascade clk (Suc k) (reset_spoke k m2)) = all_nodes (reset_spoke k m2)"
    using Suc.hyps(2) k by (intro Suc.hyps(1)) simp_all
  then show ?case by (simp add: eq a2)
qed

lemma tick_all_nodes:
  assumes "wheels_shape m" "indices_ok m" shows "all_nodes (tick clk m) = all_nodes m"
proof -
  define m1 where "m1 = (take_spoke 0 m)\<lparr>readynodes := readynodes m @ spokes (wheels m 0) (sidx m 0)\<rparr>"
  have s: "sidx m 0 < 256" "wh_size (wheels m 0) = 256"
    using assms by (auto simp: indices_ok_def wheels_shape_def)
  have w1: "wheels m1 = wheels (take_spoke 0 m)" and sx1: "sidx m1 = (sidx m)(0 := Suc (sidx m 0))"
    by (simp_all add: m1_def sidx_def take_spoke_def Let_def fun_eq_iff)
  have a1: "all_nodes m1 = all_nodes m"
    using all_nodes_take_spoke [of 0 m] s unfolding all_nodes_def w1 by (simp add: m1_def add.assoc)
  have "wheels_shape (reset_spoke 0 m1)" using assms(1) by (simp add: wheels_shape_def w1)
  moreover have "\<forall>i\<in>{1..4}. sidx (reset_spoke 0 m1) i < 64" using assms(2) by (auto simp: sx1 indices_ok_def)
  ultimately have "all_nodes (Cascade clk 1 (reset_spoke 0 m1)) = all_nodes (reset_spoke 0 m1)"
    by (intro Cascade_all_nodes) simp_all
  then show ?thesis
    unfolding tick_eq [OF assms(1)] Let_def m1_def [symmetric] by (simp add: a1)
qed

lemma detect_ready_eq:
  assumes "clock_ok clk"
  shows "detect_ready clk m = (tick clk ^^ loopnum (clk (tm_reads m)) m) (snd (GetCurrentMillisec clk m))"
  using clock_mod [OF assms] by (simp add: detect_ready_def GetCurrentMillisec_def loopnum_def)

lemma ticks_all_nodes:
  assumes clk: "clock_ok clk" and inv: "wheel_inv clk m" and c: "checktime m + 10 * n \<le> clk (tm_reads m)"
  shows "all_nodes ((tick clk ^^ n) m) = all_nodes m"
  using c
proof (induction n)
  case (Suc n)
  have "wheel_inv clk ((tick clk ^^ n) m)" using ticks_inv [OF clk inv, of n] Suc.prems by simp
  then have "wheels_shape ((tick clk ^^ n) m)" "indices_ok ((tick clk ^^ n) m)" by (simp_all add: wheel_inv_def)
  from tick_all_nodes [OF this] Suc show ?case by simp
qed simp

lemma loopnum_le:
  assumes "checktime m \<le> now" shows "checktime m + 10 * loopnum now m \<le> now"
proof -
  have "loopnum now m \<le> (now - checktime m) div 10" by (simp add: loopnum_def wheel_consts)
  then have "10 * loopnum now m \<le> now - checktime m" by (simp add: less_eq_div_iff_mult_less_eq mult.commute)
  with assms show ?thesis by simp
qed

lemma wheel_inv_read:
  assumes clk: "clock_ok clk" and inv: "wheel_inv clk m"
  shows "wheel_inv clk (snd (GetCurrentMillisec clk m))"
proof -
  have "clk (tm_reads m) \<le> clk (Suc (tm_reads m))" by (rule clock_mono [OF clk]) simp
  with inv nodes_bounded_mono [of "clk (tm_reads m)" m "clk (Suc (tm_reads m))"] show ?thesis
    by (auto simp: wheel_inv_def wheels_shape_def indices_ok_def timely_def nodes_bounded_def)
qed

lemma turn_pos: "indices_ok m \<Longrightarrow> k < 4 \<Longrightarrow> 0 \<le> turn (sidx m) k"
proof (induction k)
  case (Suc k)
  then have "sidx m (Suc k) < 64" by (simp add: indices_ok_def)
  with Suc show ?case by simp
qed (simp add: indices_ok_def)

lemma due_nonneg: "indices_ok m \<Longrightarrow> k \<le> 4 \<Longrightarrow> 0 \<le> due (sidx m) k j"
  using turn_pos [of m "k - 1"] by (simp add: due_def)

lemma in_all_nodes:
  "n \<in># all_nodes m \<longleftrightarrow>
     n \<in> set (readynodes m) \<or> (\<exists>k\<le>4. \<exists>j < wh_size (wheels m k). n \<in> set (spokes (wheels m k) j))"
  by (auto simp: all_nodes_def set_mset_sum)

text \<open>The invariant holds of a new manager and is kept by every operation.\<close>

lemma wheel_inv_new:
  assumes clk: "clock_ok clk" shows "wheel_inv clk (timer_manager_new clk r)"
proof -
  have "clk r \<le> clk (Suc r)" by (rule clock_mono [OF clk]) simp
  then show ?thesis
    using clock_mod [OF clk] by (simp add: wheel_inv_def timer_manager_new_def wheels_shape_def indices_ok_def
        timely_def nodes_bounded_def wheel_new_def sidx_def wheel_consts)
qed

lemma wheel_inv_AddTimer:
  assumes clk: "clock_ok clk" and inv: "wheel_inv clk m" and ms: "ms < 2 ^ 32"
  shows "wheel_inv clk (snd (AddTimer clk addr ms timer m))"
proof -
  let ?m0 = "snd (GetCurrentMillisec clk m)" and ?now = "clk (tm_reads m)"
  define n where "n = \<lparr>tn_addr = addr, dead_time = ?now + ms, tn_timer = timer\<rparr>"
  have "?now < 2 ^ 63" using clk by (simp add: clock_ok_def)
  then have "(?now + ms) mod 2 ^ 64 = ?now + ms" using ms by simp
  then have eq: "snd (AddTimer clk addr ms timer m) = AddTimerNode ms n ?m0"
    using clock_mod [OF clk] by (simp add: AddTimer_def GetCurrentMillisec_def Let_def n_def)
  have i0: "wheel_inv clk ?m0" by (rule wheel_inv_read [OF clk inv])
  then have i: "wheels_shape ?m0" "indices_ok ?m0" "timely (checktime m) 5 ?m0"
      "checktime m \<le> clk (Suc (tm_reads m))" "nodes_bounded (clk (Suc (tm_reads m))) ?m0"
    by (simp_all add: wheel_inv_def)
  have "checktime m \<le> ?now" using inv by (simp add: wheel_inv_def)
  then have "timely (checktime m) 5 (AddTimerNode ms n ?m0)"
    using i ms by (intro timely_AddTimerNode) (simp_all add: indices_ok_def n_def)
  moreover have "?now \<le> clk (Suc (tm_reads m))" by (rule clock_mono [OF clk]) simp
  then have "nodes_bounded (clk (Suc (tm_reads m))) (AddTimerNode ms n ?m0)"
    using i ms by (intro nodes_bounded_AddTimerNode) (simp_all add: n_def)
  ultimately show ?thesis
    using i unfolding eq wheel_inv_def by (simp add: wheels_shape_def indices_ok_def)
qed

lemma wheel_inv_RemoveTimer: "wheel_inv clk m \<Longrightarrow> wheel_inv clk (RemoveTimer n m)"
proof -
  have s: "sidx (RemoveTimer n m) = sidx m" by (simp add: sidx_def RemoveTimer_def fun_eq_iff)
  have "wh_size (wheels (RemoveTimer n m) k) = wh_size (wheels m k)" for k by (simp add: RemoveTimer_def)
  moreover have "x \<in> set (spokes (wheels m k) j)" if "x \<in> set (spokes (wheels (RemoveTimer n m) k) j)" for k j x
    using that notin_set_remove1 [of x "spokes (wheels m k) j" n] by (auto simp: RemoveTimer_def)
  moreover have "checktime (RemoveTimer n m) = checktime m" "tm_reads (RemoveTimer n m) = tm_reads m"
    by (simp_all add: RemoveTimer_def)
  ultimately show "wheel_inv clk m \<Longrightarrow> wheel_inv clk (RemoveTimer n m)"
    unfolding wheel_inv_def wheels_shape_def indices_ok_def timely_def nodes_bounded_def s by auto
qed

lemma all_nodes_detect_ready:
  assumes clk: "clock_ok clk" and inv: "wheel_inv clk m"
  shows "all_nodes (detect_ready clk m) = all_nodes m"
proof -
  let ?m0 = "snd (GetCurrentMillisec clk m)" and ?now = "clk (tm_reads m)"
  have "checktime m \<le> ?now" using inv by (simp add: wheel_inv_def)
  then have "checktime ?m0 + 10 * loopnum ?now m \<le> clk (tm_reads ?m0)"
    using loopnum_le [of m ?now] clock_mono [OF clk, of "tm_reads m" "Suc (tm_reads m)"] by simp
  from ticks_all_nodes [OF clk wheel_inv_read [OF clk inv] this] show ?thesis
    by (simp add: detect_ready_eq [OF clk] all_nodes_def)
qed

text \<open>
  C10. No timer node is lost or duplicated by a detection: what it does not hand to the ready list
  it keeps in the wheels, through any number of ticks and cascades.
\<close>

theorem detection_conserves_timers:
  assumes clk: "clock_ok clk" and inv: "wheel_inv clk m"
  shows "all_nodes (detect_ready clk m) = all_nodes m"
  by (rule all_nodes_detect_ready [OF clk inv])

text \<open>
  C6. A timer is never late by a tick or more: after a detection at time \<open>now\<close>, every timer whose dead line is at
  least 10 ms old is on the ready list (whose callbacks the detection then runs), from whichever
  wheel. The detections must be less than 497 days apart.
\<close>

theorem timers_never_late:
  assumes clk: "clock_ok clk" and inv: "wheel_inv clk m" and n: "n \<in># all_nodes m"
    and gap: "(clk (tm_reads m) - checktime m) div 10 < 2 ^ 32"
    and dead: "dead_time n + 10 \<le> clk (tm_reads m)"
  shows "n \<in> set (readynodes (detect_ready clk m))"
proof (rule ccontr)
  let ?d = "detect_ready clk m"
  assume "n \<notin> set (readynodes ?d)"
  moreover have "n \<in># all_nodes ?d" using n all_nodes_detect_ready [OF clk inv] by simp
  ultimately obtain k j where k: "k \<le> 4" "j < wh_size (wheels ?d k)" "n \<in> set (spokes (wheels ?d k) j)"
    unfolding in_all_nodes by blast
  have d: "wheel_inv clk ?d" "clk (tm_reads m) < checktime ?d + 10"
    using detect_ready_inv [OF clk inv] gap by auto
  then have "int (checktime ?d) + 10 * (due (sidx ?d) k j - pending 5 k) \<le> int (dead_time n)"
    using k unfolding wheel_inv_def timely_def by blast
  moreover have "0 \<le> due (sidx ?d) k j" using d(1) k(1) by (intro due_nonneg) (simp_all add: wheel_inv_def)
  ultimately show False using d(2) dead k(1) by (simp add: pending_def)
qed

definition sample_clock :: "nat \<Rightarrow> clock" where
  "sample_clock t = (\<lambda>n. if n = 0 then 0 else if n = 1 then 900 else t)"

definition sample_wheel :: "nat \<Rightarrow> timer_node \<times> timer_manager" where
  \<comment> \<open>a manager built at time 0 to which a timer of 500 ms is added at time 900\<close>
  "sample_wheel t = AddTimer (sample_clock t) 1 500 7 (timer_manager_new (sample_clock t) 0)"

lemma sample_clock_ok: "900 \<le> t \<Longrightarrow> t < 2 ^ 63 \<Longrightarrow> clock_ok (sample_clock t)"
  by (auto simp: clock_ok_def sample_clock_def mono_def)

lemma sample_wheel_inv: "900 \<le> t \<Longrightarrow> t < 2 ^ 63 \<Longrightarrow> wheel_inv (sample_clock t) (snd (sample_wheel t))"
  unfolding sample_wheel_def by (intro wheel_inv_AddTimer wheel_inv_new sample_clock_ok) simp_all

lemma sample_wheel_eq:
  assumes "900 \<le> t" "t < 2 ^ 63"
  shows "fst (sample_wheel t) = \<lparr>tn_addr = 1, dead_time = 1400, tn_timer = 7\<rparr>"
    and "snd (sample_wheel t) = AddTimerNode 500 (fst (sample_wheel t))
      (snd (GetCurrentMillisec (sample_clock t) (timer_manager_new (sample_clock t) 0)))"
    and "tm_reads (snd (sample_wheel t)) = 2" and "checktime (snd (sample_wheel t)) = 0"
  by (simp_all add: sample_wheel_def AddTimer_def GetCurrentMillisec_def timer_manager_new_def sample_clock_def Let_def)

lemma sample_clock_2 [simp]: "sample_clock t 2 = t"
  by (simp add: sample_clock_def)

lemma sample_wheel_node:
  assumes "900 \<le> t" "t < 2 ^ 63" shows "fst (sample_wheel t) \<in># all_nodes (snd (sample_wheel t))"
proof -
  have "wheels_shape (snd (GetCurrentMillisec (sample_clock t) (timer_manager_new (sample_clock t) 0)))"
    by (simp add: wheels_shape_def timer_manager_new_def wheel_new_def wheel_consts)
  then show ?thesis unfolding sample_wheel_eq(2) [OF assms] by (simp add: all_nodes_AddTimerNode)
qed

theorem detection_conserves_timers_witness:
  "all_nodes (detect_ready (sample_clock 1410) (snd (sample_wheel 1410))) = all_nodes (snd (sample_wheel 1410))"
  by (rule detection_conserves_timers) (simp_all add: sample_clock_ok sample_wheel_inv)

theorem timers_never_late_witness:
  "fst (sample_wheel 1410) \<in> set (readynodes (detect_ready (sample_clock 1410) (snd (sample_wheel 1410))))"
  by (rule timers_never_late [OF sample_clock_ok sample_wheel_inv sample_wheel_node])
    (simp_all add: sample_wheel_eq(1,3,4))

section \<open>Wheel 0 fires by its own time\<close>

lemma Cascade_keeps:
  "1 \<le> k \<Longrightarrow> sidx (Cascade clk k m) 0 = sidx m 0
    \<and> set (readynodes m) \<subseteq> set (readynodes (Cascade clk k m))
    \<and> set (spokes (wheels m 0) j) \<subseteq> set (spokes (wheels (Cascade clk k m) 0) j)"
proof (induction "5 - k" arbitrary: k m)
  case 0
  then show ?case by (simp add: Cascade_eq)
next
  case (Suc n)
  let ?m0 = "snd (GetCurrentMillisec clk m)"
  have keep: "set (readynodes m1) \<subseteq> set (readynodes (cascade_nodes now ns m1))
    \<and> set (spokes (wheels m1 0) j) \<subseteq> set (spokes (wheels (cascade_nodes now ns m1) 0) j)" for now ns m1
  proof (induction ns arbitrary: m1)
    case (Cons n ns)
    have "set (spokes (wheels m1 0) j) \<subseteq> set (spokes (wheels (AddTimerNode ms n m1) 0) j)" for ms
      by (simp add: AddTimerNode_def Let_def spokes_add_spoke)
    with Cons [of "AddToReadyNode n m1"] Cons [of "AddTimerNode ((dead_time n - now) mod 2 ^ 32) n m1"]
    show ?case by auto
  qed simp
  define m2 where "m2 = cascade_nodes (clk (tm_reads m) mod 2 ^ 64) (spokes (wheels m k) (sidx m k)) (take_spoke k ?m0)"
  have m2: "sidx m2 0 = sidx m 0" "set (readynodes m) \<subseteq> set (readynodes m2)"
    "set (spokes (wheels m 0) j) \<subseteq> set (spokes (wheels m2 0) j)"
    using Suc.prems keep [of "take_spoke k ?m0"] by (auto simp: m2_def)
  have "Cascade clk k m = (if wh_size (wheels m2 k) \<le> sidx m2 k then Cascade clk (Suc k) (reset_spoke k m2) else m2)"
    using Suc.hyps(2) Suc.prems by (subst Cascade_eq) (simp add: Let_def m2_def)
  moreover have "n = 5 - Suc k" using Suc.hyps(2) by simp
  ultimately show ?case
    using Suc.hyps(1) [of "Suc k" "reset_spoke k m2"] Suc.prems m2 by auto
qed

lemma tick_keeps:
  assumes "wheels_shape m" "sidx m 0 < 256"
  shows "sidx (tick clk m) 0 = (sidx m 0 + 1) mod 256"
    and "set (readynodes m) \<subseteq> set (readynodes (tick clk m))"
    and "set (spokes (wheels m 0) (sidx m 0)) \<subseteq> set (readynodes (tick clk m))"
    and "j \<noteq> sidx m 0 \<Longrightarrow> set (spokes (wheels m 0) j) \<subseteq> set (spokes (wheels (tick clk m) 0) j)"
proof -
  define m1 where "m1 = (take_spoke 0 m)\<lparr>readynodes := readynodes m @ spokes (wheels m 0) (sidx m 0)\<rparr>"
  have w1: "wheels m1 = wheels (take_spoke 0 m)" "sidx m1 = (sidx m)(0 := Suc (sidx m 0))"
    "readynodes m1 = readynodes m @ spokes (wheels m 0) (sidx m 0)"
    by (simp_all add: m1_def sidx_def take_spoke_def Let_def fun_eq_iff)
  have sc: "sidx (x\<lparr>checktime := c\<rparr>) = sidx x" for x c by (simp add: sidx_def fun_eq_iff)
  note t = tick_eq [OF assms(1), of clk, folded m1_def, unfolded Let_def]
  note k = Cascade_keeps [of 1 clk "reset_spoke 0 m1"]
  have "Suc (sidx m 0) mod 256 = (if 255 \<le> sidx m 0 then 0 else Suc (sidx m 0))"
    using assms(2) by (simp add: mod_Suc)
  then show "sidx (tick clk m) 0 = (sidx m 0 + 1) mod 256"
    using k by (auto simp: t sc w1)
  show "set (readynodes m) \<subseteq> set (readynodes (tick clk m))"
    and "set (spokes (wheels m 0) (sidx m 0)) \<subseteq> set (readynodes (tick clk m))"
    using k by (auto simp: t w1)
  show "set (spokes (wheels m 0) j) \<subseteq> set (spokes (wheels (tick clk m) 0) j)" if "j \<noteq> sidx m 0"
    using that k [of j] by (auto simp: t w1)
qed

lemma wheel0_fires:
  assumes clk: "clock_ok clk" and inv: "wheel_inv clk m" and c: "checktime m + 10 * n \<le> clk (tm_reads m)"
    and x: "x \<in> set (spokes (wheels m 0) ((sidx m 0 + d) mod 256))" and d: "d < 256"
  shows "sidx ((tick clk ^^ n) m) 0 = (sidx m 0 + n) mod 256
    \<and> (if n \<le> d then x \<in> set (spokes (wheels ((tick clk ^^ n) m) 0) ((sidx m 0 + d) mod 256))
       else x \<in> set (readynodes ((tick clk ^^ n) m)))"
  using c
proof (induction n)
  case 0
  have "sidx m 0 < 256" using inv by (simp add: wheel_inv_def indices_ok_def)
  with x show ?case by simp
next
  case (Suc n)
  let ?m = "(tick clk ^^ n) m"
  have "wheel_inv clk ?m" using ticks_inv [OF clk inv, of n] Suc.prems by simp
  then have i: "wheels_shape ?m" "sidx ?m 0 < 256" by (simp_all add: wheel_inv_def indices_ok_def)
  note k = tick_keeps [OF i]
  from Suc have IH: "sidx ?m 0 = (sidx m 0 + n) mod 256"
    "n \<le> d \<Longrightarrow> x \<in> set (spokes (wheels ?m 0) ((sidx m 0 + d) mod 256))"
    "\<not> n \<le> d \<Longrightarrow> x \<in> set (readynodes ?m)" by (simp_all split: if_splits)
  have ne: "(sidx m 0 + d) mod 256 \<noteq> sidx ?m 0" if "n < d"
  proof
    assume "(sidx m 0 + d) mod 256 = sidx ?m 0"
    then have "256 dvd (sidx m 0 + d) - (sidx m 0 + n)"
      unfolding IH(1) using that by (intro mod_eq_dvd_iff_nat [THEN iffD1]) simp_all
    then have "256 dvd d - n" by simp
    with that d show False by (auto dest: dvd_imp_le)
  qed
  have "sidx (tick clk ?m) 0 = (sidx m 0 + Suc n) mod 256"
    unfolding k(1) IH(1) by (simp add: mod_Suc_eq)
  moreover have "x \<in> set (spokes (wheels (tick clk ?m) 0) ((sidx m 0 + d) mod 256))" if "Suc n \<le> d"
    using IH(2) k(4) [OF ne] that by auto
  moreover have "x \<in> set (readynodes (tick clk ?m))" if "d < Suc n"
  proof (cases "n = d")
    case True
    with IH(1,2) k(3) show ?thesis by auto
  next
    case False
    with that IH(3) k(2) show ?thesis by auto
  qed
  ultimately show ?case by simp
qed

text \<open>
  A timer of less than 2.56 s runs on the wheel's time, which lags behind the clock by as much as passed since the
  last detection: it fires in the first detection after the wheel time has run for its interval, whatever its dead line. If the wheel time
  lags, that is too early: the witness fires a timer of 500 ms one millisecond after it was added.
\<close>

theorem short_timer_runs_on_wheel_time:
  assumes clk: "clock_ok clk" and inv: "wheel_inv clk m" and ms: "ms < 2560"
    and t: "AddTimer clk addr ms timer m = (node, m')"
    and run: "checktime m + 10 * (ms div 10) + 10 \<le> clk (tm_reads m')"
    and gap: "(clk (tm_reads m') - checktime m) div 10 < 2 ^ 32"
  shows "node \<in> set (readynodes (detect_ready clk m'))"
proof -
  let ?m0 = "snd (GetCurrentMillisec clk m)"
  have m': "m' = AddTimerNode ms node ?m0"
    using t by (auto simp: AddTimer_def GetCurrentMillisec_def Let_def)
  have inv': "wheel_inv clk m'" using wheel_inv_AddTimer [OF clk inv, of ms addr timer] ms t by simp
  have s: "sidx m 0 < 256" using inv by (simp add: wheel_inv_def indices_ok_def)
  define d where "d = ms div 10"
  have d: "d < 256" using ms by (simp add: d_def)
  then have "level_of d = 0" by (simp add: level_of_def)
  then have x: "node \<in> set (spokes (wheels m' 0) ((sidx m' 0 + d) mod 256))"
    using spoke_index_0 [OF d, of ?m0] s
    by (simp add: m' AddTimerNode_def Let_def wheel_consts spokes_add_spoke d_def add.commute)
  let ?now = "clk (tm_reads m')" and ?r = "snd (GetCurrentMillisec clk m')"
  have ck: "checktime m' = checktime m" by (simp add: m')
  let ?l = "loopnum ?now m'"
  have "?l = (?now - checktime m) div 10"
    using run gap by (simp add: loopnum_def ck wheel_consts)
  moreover have "10 * d + 10 \<le> ?now - checktime m" using run by (simp add: d_def)
  then have "d + 1 \<le> (?now - checktime m) div 10" by (simp add: less_eq_div_iff_mult_less_eq)
  ultimately have l: "\<not> ?l \<le> d" by simp
  have "checktime m' + 10 * ?l \<le> ?now" using inv' by (intro loopnum_le) (simp add: wheel_inv_def)
  then have "checktime ?r + 10 * ?l \<le> clk (tm_reads ?r)"
    using clock_mono [OF clk, of "tm_reads m'" "Suc (tm_reads m')"] by simp
  from wheel0_fires [OF clk wheel_inv_read [OF clk inv'] this _ d, of node] x l show ?thesis
    by (simp add: detect_ready_eq [OF clk])
qed

theorem short_timer_runs_on_wheel_time_witness:
  "fst (sample_wheel 901) \<in> set (readynodes (detect_ready (sample_clock 901) (snd (sample_wheel 901))))
    \<and> sample_clock 901 (tm_reads (snd (sample_wheel 901))) + 499 = dead_time (fst (sample_wheel 901))"
proof -
  have c: "clock_ok (sample_clock 901)" by (rule sample_clock_ok) simp_all
  have i: "wheel_inv (sample_clock 901) (timer_manager_new (sample_clock 901) 0)" by (rule wheel_inv_new [OF c])
  have t: "AddTimer (sample_clock 901) 1 500 7 (timer_manager_new (sample_clock 901) 0)
      = (fst (sample_wheel 901), snd (sample_wheel 901))" by (simp add: sample_wheel_def)
  have z: "checktime (timer_manager_new (sample_clock 901) 0) = 0"
    by (simp add: timer_manager_new_def sample_clock_def)
  have "fst (sample_wheel 901) \<in> set (readynodes (detect_ready (sample_clock 901) (snd (sample_wheel 901))))"
    by (rule short_timer_runs_on_wheel_time [OF c i _ t]) (simp_all add: sample_wheel_eq(1,3) z)
  then show ?thesis by (simp add: sample_wheel_eq(1,3))
qed
end
