(* ===== verification/RequestTable.thy ===== *)
theory RequestTable
  imports Events
begin

text \<open>
  The table of outstanding requests of a session: a \<open>std::multimap\<close> from sequence numbers to request
  timers (\<open>request_history_\<close> of frame/session/session.h). A multimap is a list sorted by key; an
  insertion goes behind the entries with the same key, \<open>find\<close> returns the first of them.

  The interface that the session relies on is the locale \<open>request_table\<close>.
\<close>

section \<open>The multimap\<close>

fun mm_insert :: "'k::linorder \<Rightarrow> 'v \<Rightarrow> ('k \<times> 'v) list \<Rightarrow> ('k \<times> 'v) list" where
  "mm_insert k v [] = [(k, v)]"
| "mm_insert k v ((k', v') # r) =
     (if k < k' then (k, v) # (k', v') # r else (k', v') # mm_insert k v r)"

fun mm_find :: "'k \<Rightarrow> ('k \<times> 'v) list \<Rightarrow> 'v option" where
  "mm_find k [] = None"
| "mm_find k ((k', v) # r) = (if k' = k then Some v else mm_find k r)"

fun mm_erase :: "'k \<Rightarrow> ('k \<times> 'v) list \<Rightarrow> ('k \<times> 'v) list" where
  \<comment> \<open>erase the entry that \<open>find\<close> returned\<close>
  "mm_erase k [] = []"
| "mm_erase k ((k', v) # r) = (if k' = k then r else (k', v) # mm_erase k r)"

section \<open>What a session relies on\<close>

locale request_table =
  fixes ins :: "'k \<Rightarrow> 'v \<Rightarrow> 't \<Rightarrow> 't"
    and look :: "'k \<Rightarrow> 't \<Rightarrow> 'v option"
    and del :: "'k \<Rightarrow> 't \<Rightarrow> 't"
    and entries :: "'t \<Rightarrow> ('k \<times> 'v) multiset"
  assumes entries_ins: "entries (ins k v t) = add_mset (k, v) (entries t)"
    and look_in: "look k t = Some v \<Longrightarrow> (k, v) \<in># entries t"
    and look_none: "look k t = None \<longleftrightarrow> k \<notin> fst ` set_mset (entries t)"
    and entries_del: "look k t = Some v \<Longrightarrow> entries (del k t) = entries t - {#(k, v)#}"
begin

lemma look_ins_new: "k \<notin> fst ` set_mset (entries t) \<Longrightarrow> look k (ins k v t) = Some v"
proof -
  assume new: "k \<notin> fst ` set_mset (entries t)"
  have "look k (ins k v t) \<noteq> None" by (simp add: look_none entries_ins)
  then obtain v' where v': "look k (ins k v t) = Some v'" by auto
  then have "(k, v') \<in># add_mset (k, v) (entries t)" using look_in [OF v'] by (simp add: entries_ins)
  with new v' show ?thesis by force
qed

lemma del_ins_new: "k \<notin> fst ` set_mset (entries t) \<Longrightarrow> entries (del k (ins k v t)) = entries t"
  using entries_del [OF look_ins_new] by (simp add: entries_ins)

text \<open>Taking out one of several entries with the same key leaves the others.\<close>

lemma size_del: "look k t = Some v \<Longrightarrow> size (entries (del k t)) + 1 = size (entries t)"
  using entries_del look_in by (metis Suc_eq_plus1 size_Suc_Diff1)

end

lemma mm_insert_entries: "mset (mm_insert k v t) = add_mset (k, v) (mset t)"
  by (induction k v t rule: mm_insert.induct) auto

lemma mm_find_in: "mm_find k t = Some v \<Longrightarrow> (k, v) \<in> set t"
  by (induction k t rule: mm_find.induct) (auto split: if_splits)

lemma mm_find_none: "mm_find k t = None \<longleftrightarrow> k \<notin> fst ` set t"
  by (induction k t rule: mm_find.induct) auto

lemma mm_erase_entries: "mm_find k t = Some v \<Longrightarrow> mset (mm_erase k t) = mset t - {#(k, v)#}"
proof (induction k t rule: mm_erase.induct)
  case (2 k k' v' r)
  then show ?case
    by (cases "k' = k") (auto dest!: mm_find_in simp: add_mset_diff_bothsides)
qed simp

interpretation mm: request_table mm_insert mm_find mm_erase mset
  by unfold_locales (simp_all add: mm_insert_entries mm_find_in mm_find_none mm_erase_entries)

lemma mm_find_insert_other: "k \<noteq> k' \<Longrightarrow> mm_find k' (mm_insert k v t) = mm_find k' t"
  by (induction k v t rule: mm_insert.induct) auto

lemma mm_find_insert_old: "mm_find k t = Some v' \<Longrightarrow> sorted (map fst t) \<Longrightarrow> mm_find k (mm_insert k v t) = Some v'"
  by (induction k v t rule: mm_insert.induct) (force split: if_splits dest: mm_find_in)+

lemma mm_insert_sorted: "sorted (map fst t) \<Longrightarrow> sorted (map fst (mm_insert k v t))"
proof (induction k v t rule: mm_insert.induct)
  case (2 k v k' v' r)
  have "set (mm_insert k v r) = insert (k, v) (set r)"
    using mm_insert_entries [of k v r] by (metis set_mset_add_mset_insert set_mset_mset)
  with 2 show ?case by auto
qed simp

end
