(* ===== verification/Connection.thy ===== *)
theory Connection
  imports HttpEncode HttpDecode Thrift
begin

text \<open>
  \<open>CConnection\<close> of frame/net/connection.cc, up to the calls into its session: its state, the
  dispatch to the parser, writing, and starting a read. What the class asks of the socket, of the
  timers and of its owner is recorded in a trace of effects; their completions are the handlers of
  NetIO, which run later.
\<close>

section \<open>The environment\<close>

text \<open>
  What the code takes from outside: the parameters of the HTTP encoder, \<open>strptime\<close> with
  \<open>mktime\<close>, the contents of allocated memory, the time of day and the result of
  \<open>remote_endpoint()\<close> (\<open>None\<close> when it throws).
\<close>

record net_env =
  ne_http :: http_env
  ne_spt :: "string \<Rightarrow> int option"
  ne_fresh :: "nat \<Rightarrow> char"
  ne_now :: nat
  ne_endpoint :: "(string \<times> u32) option"

section \<open>Effects\<close>

datatype timer_ref = ReqTimer nat | HeartTimer | ReconnTimer

datatype effect =
    EvRead net_msg \<comment> \<open>the owner's \<open>OnRead\<close>\<close>
  | EvConnected \<comment> \<open>the owner's \<open>OnConnected\<close>\<close>
  | EvAccept \<comment> \<open>the owner's \<open>OnAccept\<close>\<close>
  | EvPeerClose \<comment> \<open>the owner's \<open>OnPeerClose\<close>\<close>
  | EvDelete net_msg
  | SockWrite net_msg bytes \<comment> \<open>\<open>async_write\<close> of these bytes, requested for this message\<close>
  | SockRead nat \<comment> \<open>\<open>async_read_some\<close> of at most so many bytes\<close>
  | SockClose
  | SockConnect nat \<comment> \<open>\<open>async_connect\<close> to the endpoint with this position in the resolver's list\<close>
  | Resolve string string
  | ConnTimerStart int
  | ConnTimerCancel
  | TimerStart timer_ref nat
  | TimerStop timer_ref
  | TimerDelete timer_ref

section \<open>State\<close>

definition MAX_PACKET_SIZE :: nat where "MAX_PACKET_SIZE = 16 * 1024 * 1024"

record connection =
  cn_id :: u32
  cn_buffer :: cbuffer
  cn_writebuf :: cbuffer
  cn_remoteip :: string
  cn_remoteport :: u32
  cn_connected :: bool
  cn_close_after_write :: bool
  cn_session :: bool \<comment> \<open>whether \<open>session_\<close> is set\<close>
  cn_kind :: parser_kind
  cn_parser :: http_parser
  cn_dealing :: bool
  cn_next :: nat \<comment> \<open>the address of the next object the connection or its session allocates\<close>
  cn_trace :: "effect list"

definition emit :: "effect \<Rightarrow> connection \<Rightarrow> connection" where
  "emit e c = c\<lparr>cn_trace := cn_trace c @ [e]\<rparr>"

text \<open>The program exits when there is no parser for the protocol.\<close>

definition connection_new :: "net_env \<Rightarrow> EProtocolType \<Rightarrow> u32 \<Rightarrow> nat \<Rightarrow> connection option" where
  "connection_new env pro sm_mark next_addr = do {
     kind \<leftarrow> CreateParser factories_init pro;
     Some \<lparr>cn_id = sm_mark + 1,
       cn_buffer = cbuffer_new (ne_fresh env) BUFFER_INIT_CAPACITY,
       cn_writebuf = cbuffer_new (ne_fresh env) BUFFER_INIT_CAPACITY,
       cn_remoteip = [], cn_remoteport = 0, cn_connected = False, cn_close_after_write = False,
       cn_session = True, cn_kind = kind, cn_parser = http_parser_new, cn_dealing = False,
       cn_next = next_addr, cn_trace = []\<rparr>
   }"

definition SetOwner :: "bool \<Rightarrow> connection \<Rightarrow> connection" where
  "SetOwner b c = c\<lparr>cn_session := b\<rparr>"

section \<open>The parser\<close>

definition CreateMessage :: "connection \<Rightarrow> net_msg \<times> connection" where
  "CreateMessage c =
     ((case cn_kind c of
         HttpParser \<Rightarrow> HttpMsg (shttp_message_new (cn_next c))
       | ThriftParser \<Rightarrow> ThriftMsg (sthrift_message_new (cn_next c))),
      c\<lparr>cn_next := Suc (cn_next c)\<rparr>)"

definition CreateHeartBeatMessage :: "direction \<Rightarrow> connection \<Rightarrow> net_msg \<times> connection" where
  "CreateHeartBeatMessage dir c =
     ((case cn_kind c of
         HttpParser \<Rightarrow> HttpMsg (http_heartbeat (cn_next c) dir)
       | ThriftParser \<Rightarrow> ThriftMsg (thrift_heartbeat (cn_next c) dir)),
      c\<lparr>cn_next := Suc (cn_next c)\<rparr>)"

text \<open>
  \<open>Decode\<close> and \<open>Encode\<close> cast the message to the type of their protocol: undefined for any other.
  The decoder gets the address \<open>p\<close> in the read buffer and the number of bytes up to its end.
\<close>

fun conn_decode ::
  "net_env \<Rightarrow> connection \<Rightarrow> nat \<Rightarrow> nat \<Rightarrow> net_msg \<Rightarrow> (decode_ptr \<times> connection \<times> net_msg) option" where
  "conn_decode env c p len (HttpMsg m) =
     (if cn_kind c = HttpParser then do {
        (r, ps, m') \<leftarrow> http_decode (ne_spt env) (cb_base (cn_buffer c)) p len (cn_parser c) m;
        Some (r, c\<lparr>cn_parser := ps\<rparr>, HttpMsg m')
      } else None)"
| "conn_decode env c p len (ThriftMsg m) =
     (if cn_kind c = ThriftParser then do {
        (r, m') \<leftarrow> thrift_decode (cb_base (cn_buffer c)) p (of_nat len) m;
        Some (r, c, ThriftMsg m')
      } else None)"

fun conn_encode :: "net_env \<Rightarrow> connection \<Rightarrow> net_msg \<Rightarrow> bytes list option" where
  "conn_encode env c (HttpMsg m) = (if cn_kind c = HttpParser then Some (http_encode (ne_http env) m) else None)"
| "conn_encode env c (ThriftMsg m) = (if cn_kind c = ThriftParser then Some (thrift_encode m) else None)"

section \<open>Writing and reading\<close>

text \<open>
  The message is appended to the write buffer, and the whole buffer is given to the socket. On a
  connection that is not connected nothing happens.
\<close>

definition AsyncWrite :: "net_env \<Rightarrow> net_msg \<Rightarrow> bool \<Rightarrow> connection \<Rightarrow> connection option" where
  "AsyncWrite env m close_it c =
     (if \<not> cn_connected c then Some c
      else do {
        pieces \<leftarrow> conn_encode env c m;
        wb \<leftarrow> cb_append_all (ne_fresh env) pieces (cn_writebuf c);
        Some (emit (SockWrite m (cb_contents wb))
                (c\<lparr>cn_writebuf := wb, cn_close_after_write := close_it\<rparr>))
      })"

definition read_endpoint :: "net_env \<Rightarrow> connection \<Rightarrow> connection" where
  "read_endpoint env c =
     (case ne_endpoint env of
        Some (ip, port) \<Rightarrow> c\<lparr>cn_remoteip := ip, cn_remoteport := port\<rparr>
      | None \<Rightarrow> c)"

definition AsyncReadInner :: "net_env \<Rightarrow> connection \<Rightarrow> connection" where
  "AsyncReadInner env c =
     (if \<not> cn_connected c then c
      else
        let c1 = (if cn_remoteip c = [] \<or> cn_remoteport c = 0 then read_endpoint env c else c)
        in if \<not> cn_dealing c1 then emit (SockRead (unat (cb_left (cn_buffer c1) - 1))) c1 else c1)"

definition AsyncRead :: "connection \<Rightarrow> connection" where
  \<comment> \<open>\<open>AsyncReadInner\<close> is posted to the service and runs as a handler of its own\<close>
  "AsyncRead c = c\<lparr>cn_connected := True\<rparr>"

definition GetRemoteIp :: "net_env \<Rightarrow> connection \<Rightarrow> string \<times> connection" where
  "GetRemoteIp env c =
     (let c1 = (if cn_remoteip c = [] \<and> cn_connected c then read_endpoint env c else c)
      in (cn_remoteip c1, c1))"

definition GetRemotePort :: "net_env \<Rightarrow> connection \<Rightarrow> u32 \<times> connection" where
  "GetRemotePort env c =
     (let c1 = (if cn_remoteport c = 0 \<and> cn_connected c then read_endpoint env c else c)
      in (cn_remoteport c1, c1))"

end
