(* ===== verification/ThreadTimer.thy ===== *)
theory ThreadTimer
  imports TimerWheel
begin

text \<open>
  \<open>CThreadTimer\<close> (frame/common/threadtimer.h and .cc) and the part of \<open>CTimerManager\<close> that runs the
  callbacks. A \<open>timer_system\<close> is one manager with the timer objects that belong to it, by address; a
  timer object that was destroyed is absent. The callbacks are supplied by the users of a timer and
  are a parameter: \<open>cb t y\<close> lists the timer operations that the callback of timer \<open>t\<close> performs in
  state \<open>y\<close>. A use of a destroyed object, of a NULL manager or of a freed node has no defined result
  and is \<open>None\<close>.
\<close>

datatype timer_status = TS_WAITING | TS_TIME_OUT | TS_USER_CANCLE

datatype timer_type = TIMER_ONCE | TIMER_CIRCLE

record thread_timer =
  tt_owner :: bool \<comment> \<open>\<open>powner_\<close> is the manager, not NULL\<close>
  tt_interval :: u32
  tt_type :: timer_type
  tt_status :: timer_status
  tt_node :: "timer_node option"

record timer_system =
  ty_manager :: timer_manager
  ty_timers :: "nat \<rightharpoonup> thread_timer"
  ty_next :: nat \<comment> \<open>the address of the next node\<close>
  ty_fired :: "nat list" \<comment> \<open>the timers whose callbacks were called\<close>

definition tt_new :: "thread_timer" where
  \<comment> \<open>the default constructor\<close>
  "tt_new = \<lparr>tt_owner = False, tt_interval = 0, tt_type = TIMER_ONCE, tt_status = TS_WAITING, tt_node = None\<rparr>"

definition tt_Init :: "u32 \<Rightarrow> timer_type \<Rightarrow> thread_timer \<Rightarrow> thread_timer" where
  "tt_Init i ty T = T\<lparr>tt_owner := True, tt_interval := i, tt_type := ty\<rparr>"

definition tt_SetInterval :: "u32 \<Rightarrow> thread_timer \<Rightarrow> thread_timer" where
  "tt_SetInterval i T = T\<lparr>tt_interval := i\<rparr>"

definition tt_Stop :: "nat \<Rightarrow> timer_system \<Rightarrow> timer_system option" where
  "tt_Stop t y =
     (case ty_timers y t of
        None \<Rightarrow> None
      | Some T \<Rightarrow>
          (case tt_node T of
             None \<Rightarrow> Some (y\<lparr>ty_timers := (ty_timers y)(t \<mapsto> T\<lparr>tt_status := TS_USER_CANCLE\<rparr>)\<rparr>)
           | Some n \<Rightarrow>
               if tt_owner T
               then Some (y\<lparr>ty_manager := RemoveTimer n (ty_manager y),
                            ty_timers := (ty_timers y)(t \<mapsto> T\<lparr>tt_status := TS_USER_CANCLE, tt_node := None\<rparr>)\<rparr>)
               else None))"

definition tt_arm :: "clock \<Rightarrow> nat \<Rightarrow> timer_system \<Rightarrow> timer_system option" where
  \<comment> \<open>\<open>Start\<close> behind its call of \<open>Stop\<close>\<close>
  "tt_arm clk t y =
     (case ty_timers y t of
        None \<Rightarrow> None
      | Some T \<Rightarrow>
          if tt_owner T
          then let (n, m) = AddTimer clk (ty_next y) (unat (tt_interval T)) t (ty_manager y)
               in Some (y\<lparr>ty_manager := m, ty_next := Suc (ty_next y),
                          ty_timers := (ty_timers y)(t \<mapsto> T\<lparr>tt_status := TS_TIME_OUT, tt_node := Some n\<rparr>)\<rparr>)
          else None)"

definition tt_Start :: "clock \<Rightarrow> nat \<Rightarrow> timer_system \<Rightarrow> timer_system option" where
  "tt_Start clk t y = Option.bind (tt_Stop t y) (tt_arm clk t)"

text \<open>What a callback may do to the timers. The destructor does not unlink the node.\<close>

datatype timer_op = OpStart nat | OpStop nat | OpSetInterval nat u32 | OpDelete nat

fun tt_op :: "clock \<Rightarrow> timer_op \<Rightarrow> timer_system \<Rightarrow> timer_system option" where
  "tt_op clk (OpStart t) y = tt_Start clk t y"
| "tt_op clk (OpStop t) y = tt_Stop t y"
| "tt_op clk (OpSetInterval t i) y =
     map_option (\<lambda>T. y\<lparr>ty_timers := (ty_timers y)(t \<mapsto> tt_SetInterval i T)\<rparr>) (ty_timers y t)"
| "tt_op clk (OpDelete t) y =
     map_option (\<lambda>T. y\<lparr>ty_timers := (ty_timers y)(t := None)\<rparr>) (ty_timers y t)"

fun tt_ops :: "clock \<Rightarrow> timer_op list \<Rightarrow> timer_system \<Rightarrow> timer_system option" where
  "tt_ops clk [] y = Some y"
| "tt_ops clk (c # cs) y = Option.bind (tt_op clk c y) (tt_ops clk cs)"

type_synonym callbacks = "nat \<Rightarrow> timer_system \<Rightarrow> timer_op list"

definition tt_Callback :: "clock \<Rightarrow> callbacks \<Rightarrow> nat \<Rightarrow> timer_system \<Rightarrow> timer_system option" where
  "tt_Callback clk cb t y =
     (case ty_timers y t of
        None \<Rightarrow> None
      | Some T \<Rightarrow>
          let y1 = y\<lparr>ty_timers := (ty_timers y)(t \<mapsto> T\<lparr>tt_node := None\<rparr>)\<rparr>
          in Option.bind (if tt_type T = TIMER_CIRCLE then tt_Start clk t y1 else Some y1)
               (\<lambda>y2. let y3 = y2\<lparr>ty_fired := ty_fired y2 @ [t]\<rparr> in tt_ops clk (cb t y3) y3))"

section \<open>The callbacks of the ready list\<close>

lemma AddTimer_readynodes [simp]: "readynodes (snd (AddTimer clk a ms t m)) = readynodes m"
  by (simp add: AddTimer_def GetCurrentMillisec_def Let_def AddTimerNode_def add_spoke_def)

lemma RemoveTimer_readynodes [simp]: "readynodes (RemoveTimer n m) = remove1 n (readynodes m)"
  by (simp add: RemoveTimer_def)

lemma tt_Stop_ready:
  "tt_Stop t y = Some y' \<Longrightarrow> length (readynodes (ty_manager y')) \<le> length (readynodes (ty_manager y))"
  by (auto simp: tt_Stop_def length_remove1 split: option.splits if_splits)

lemma tt_arm_ready:
  "tt_arm clk t y = Some y' \<Longrightarrow> readynodes (ty_manager y') = readynodes (ty_manager y)"
  by (auto simp: tt_arm_def split: option.splits if_splits prod.splits) (metis AddTimer_readynodes snd_conv)

lemma tt_Start_ready:
  "tt_Start clk t y = Some y' \<Longrightarrow> length (readynodes (ty_manager y')) \<le> length (readynodes (ty_manager y))"
  unfolding tt_Start_def bind_eq_Some_iff using tt_Stop_ready tt_arm_ready by fastforce

lemma tt_op_ready:
  "tt_op clk c y = Some y' \<Longrightarrow> length (readynodes (ty_manager y')) \<le> length (readynodes (ty_manager y))"
  by (cases c) (auto dest: tt_Start_ready tt_Stop_ready)

lemma tt_ops_ready:
  "tt_ops clk cs y = Some y' \<Longrightarrow> length (readynodes (ty_manager y')) \<le> length (readynodes (ty_manager y))"
proof (induction cs arbitrary: y)
  case (Cons c cs)
  then show ?case by (auto simp: bind_eq_Some_iff dest: tt_op_ready intro: le_trans)
qed simp

lemma tt_Callback_ready:
  assumes "tt_Callback clk cb t y = Some y'"
  shows "length (readynodes (ty_manager y')) \<le> length (readynodes (ty_manager y))"
  using assms
  by (auto simp: tt_Callback_def bind_eq_Some_iff Let_def split: option.splits if_splits
      dest!: tt_ops_ready tt_Start_ready)

text \<open>
  The loop takes the successor of the node after its callback, from the node itself, and then frees
  it: a callback must not have freed the node already.
\<close>

function (sequential) DoTimeOutCallBack :: "clock \<Rightarrow> callbacks \<Rightarrow> timer_system \<Rightarrow> timer_system option" where
  "DoTimeOutCallBack clk cb y =
     (case readynodes (ty_manager y) of
        [] \<Rightarrow> Some y
      | n # _ \<Rightarrow>
          (case tt_Callback clk cb (tn_timer n) y of
             None \<Rightarrow> None
           | Some y1 \<Rightarrow>
               (case readynodes (ty_manager y1) of
                  [] \<Rightarrow> None
                | n1 # ns \<Rightarrow>
                    if n1 = n
                    then DoTimeOutCallBack clk cb (y1\<lparr>ty_manager := (ty_manager y1)\<lparr>readynodes := ns\<rparr>\<rparr>)
                    else None)))"
  by pat_completeness auto
termination
  by (relation "measure (\<lambda>(clk, cb, y). length (readynodes (ty_manager y)))")
    (auto dest!: tt_Callback_ready)

declare DoTimeOutCallBack.simps [simp del]

definition DetectTimerList :: "clock \<Rightarrow> callbacks \<Rightarrow> timer_system \<Rightarrow> timer_system option" where
  "DetectTimerList clk cb y = DoTimeOutCallBack clk cb (y\<lparr>ty_manager := detect_ready clk (ty_manager y)\<rparr>)"

end
