(* ===== verification/Session.thy ===== *)
theory Session
  imports Connection RequestTable ThreadTimer
begin

text \<open>
  \<open>CSession\<close> (frame/session/session.cc) and its subclass \<open>CHttpSession\<close> (httpsession.cc): connection
  status, the requests that wait for their answer, the messages that wait for the connection, and,
  for HTTP, the responses that wait for an earlier one. The operations that go through the
  connection's handlers are in NetIO.

  A session and its connection belong together, so the record holds both. Callbacks of the owner
  are effects in the connection's trace: the owner's handlers reach back into a session only by
  posting to the service, so their own calls are later operations. The owner, and whoever else takes
  a message, owns it from then on. A call through a NULL owner is undefined behaviour (\<open>None\<close>).
\<close>

section \<open>State\<close>

datatype session_status = S_WAITING | S_CONNECTED | S_TIME_OUT | S_CONNECTING | S_CLOSED


record req_timer =
  rt_msg :: net_msg
  rt_interval :: nat
  rt_status :: timer_status

record response_item =
  ri_no :: u32
  ri_response :: "shttp_message option"

record session =
  ss_conn :: connection
  ss_status :: session_status
  ss_proto :: EProtocolType
  ss_owner :: bool
  ss_name :: string
  ss_addr :: string
  ss_ip :: string
  ss_port :: u32
  ss_autoreconnect :: bool
  ss_heartbeat :: int
  ss_timer_reconn :: bool \<comment> \<open>whether the timer object exists\<close>
  ss_timer_heartbeat :: bool
  ss_history :: "(u32 \<times> req_timer) list"
  ss_waiting :: "(net_msg \<times> int) list"
  ss_http :: bool \<comment> \<open>whether the object is a \<open>CHttpSession\<close>\<close>
  ss_dwseq :: u32
  ss_deque :: "response_item list"

definition RECONNECT_INTERVAL :: nat where "RECONNECT_INTERVAL = 3000"

text \<open>The session factory registry: HTTP has a factory of its own, every other protocol gets a \<open>CSession\<close>.\<close>

type_synonym session_registry = "EProtocolType \<Rightarrow> bool"

definition session_factories :: session_registry where
  "session_factories = (\<lambda>_. False)(E_PROTOCOL_HTTP := True)"

definition CreateSession :: "EProtocolType \<Rightarrow> bool option" where
  \<comment> \<open>whether the new object is a \<open>CHttpSession\<close>; \<open>None\<close> is NULL\<close>
  "CreateSession proto =
     (if protocol_num E_PROTOCOL_ALL \<le> protocol_num proto then None else Some (session_factories proto))"

text \<open>Construction and \<open>Init\<close>; the addresses of the objects it allocates start at \<open>next_addr\<close>.\<close>

definition session_Init ::
  "net_env \<Rightarrow> bool \<Rightarrow> EProtocolType \<Rightarrow> bool \<Rightarrow> bool \<Rightarrow> int \<Rightarrow> u32 \<Rightarrow> nat \<Rightarrow> session option" where
  "session_Init env http pro owner autoreconnect heartbeat sm_mark next_addr = do {
     c \<leftarrow> connection_new env pro sm_mark next_addr;
     Some \<lparr>ss_conn = c, ss_status = S_WAITING, ss_proto = pro, ss_owner = owner, ss_name = [], ss_addr = [],
       ss_ip = [], ss_port = 0, ss_autoreconnect = autoreconnect, ss_heartbeat = heartbeat,
       ss_timer_reconn = False, ss_timer_heartbeat = False, ss_history = [], ss_waiting = [],
       ss_http = http, ss_dwseq = 0, ss_deque = []\<rparr>
   }"

definition semit :: "effect \<Rightarrow> session \<Rightarrow> session" where
  "semit e s = s\<lparr>ss_conn := emit e (ss_conn s)\<rparr>"

definition SetStatus :: "session_status \<Rightarrow> session \<Rightarrow> session" where
  "SetStatus st s = s\<lparr>ss_status := st\<rparr>"

definition on_conn :: "(connection \<Rightarrow> connection option) \<Rightarrow> session \<Rightarrow> session option" where
  "on_conn f s = map_option (\<lambda>c. s\<lparr>ss_conn := c\<rparr>) (f (ss_conn s))"

definition owner_OnRead :: "net_msg \<Rightarrow> session \<Rightarrow> session option" where
  "owner_OnRead m s = (if ss_owner s then Some (semit (EvRead m) s) else None)"

definition ERROR_REPLY_CLOSE :: int where "ERROR_REPLY_CLOSE = error_num ERROR_PEER_CLOSE"
definition ERROR_REPLY_TIMEOUT :: int where "ERROR_REPLY_TIMEOUT = error_num ERROR_TIME_OUT"

text \<open>\<open>owner_ != NULL ? owner_->OnRead(this, msg) : delete msg\<close> with an error code as the reply.\<close>

definition reply_error :: "int \<Rightarrow> net_msg \<Rightarrow> session \<Rightarrow> session" where
  "reply_error n m s = semit (if ss_owner s then EvRead (nm_SetReply n m) else EvDelete (nm_SetReply n m)) s"

section \<open>Sending\<close>

text \<open>\<open>timeout\<close> is an int that the timer takes as a \<open>uint32_t\<close>.\<close>

definition DoSendRequest :: "net_env \<Rightarrow> net_msg \<Rightarrow> int \<Rightarrow> session \<Rightarrow> session option" where
  "DoSendRequest env m timeout s =
     (if ss_status s \<noteq> S_CONNECTED then owner_OnRead (nm_SetReply ERROR_REPLY_CLOSE m) s
      else
        let interval = nat (timeout mod 2 ^ 32);
            s1 = semit (TimerStart (ReqTimer (nm_addr m)) interval) s;
            t = \<lparr>rt_msg = m, rt_interval = interval, rt_status = TS_TIME_OUT\<rparr>;
            s2 = s1\<lparr>ss_history := mm_insert (GetSequenceId m) t (ss_history s1)\<rparr>
        in on_conn (AsyncWrite env m False) s2)"

definition session_DoSendTo :: "net_env \<Rightarrow> net_msg \<Rightarrow> int \<Rightarrow> session \<Rightarrow> session option" where
  "session_DoSendTo env m0 timeout s =
     (let m = nm_set_connid (cn_id (ss_conn s)) m0 in
      if ss_status s = S_CONNECTING \<or> ss_status s = S_WAITING
      then Some (s\<lparr>ss_waiting := ss_waiting s @ [(m, timeout)]\<rparr>)
      else if nm_direction m = E_Request then DoSendRequest env m timeout s
      else do {
        s1 \<leftarrow> on_conn (AsyncWrite env m False) s;
        Some (semit (EvDelete m) s1)
      })"

definition base_DoSendBack :: "net_env \<Rightarrow> net_msg \<Rightarrow> bool \<Rightarrow> session \<Rightarrow> session option" where
  "base_DoSendBack env m close_it s = do {
     s1 \<leftarrow> on_conn (AsyncWrite env m close_it) s;
     Some (semit (EvDelete m) s1)
   }"

fun flush_responses :: "net_env \<Rightarrow> response_item list \<Rightarrow> session \<Rightarrow> session option" where
  \<comment> \<open>the loop of \<open>CHttpSession::DoSendBack\<close>; the list is the deque\<close>
  "flush_responses env [] s = Some (s\<lparr>ss_deque := []\<rparr>)"
| "flush_responses env (item # items) s =
     (case ri_response item of
        None \<Rightarrow> Some (s\<lparr>ss_deque := item # items\<rparr>)
      | Some m \<Rightarrow> base_DoSendBack env (HttpMsg m) (\<not> keepalive m) s \<bind> flush_responses env items)"

fun park_response :: "shttp_message \<Rightarrow> response_item list \<Rightarrow> response_item list option" where
  \<comment> \<open>store the response at its request; \<open>None\<close>: no such request\<close>
  "park_response m [] = None"
| "park_response m (item # items) =
     (if ri_no item = requestno m then Some (item\<lparr>ri_response := Some m\<rparr> # items)
      else map_option ((#) item) (park_response m items))"

text \<open>\<open>begin()\<close> of an empty deque is dereferenced: undefined.\<close>

definition http_DoSendBack :: "net_env \<Rightarrow> shttp_message \<Rightarrow> session \<Rightarrow> session option" where
  "http_DoSendBack env m s =
     (case ss_deque s of
        [] \<Rightarrow> None
      | item # items \<Rightarrow>
          if ri_no item = requestno m
          then base_DoSendBack env (HttpMsg m) (\<not> keepalive m) s \<bind> flush_responses env items
          else (case park_response m items of
                  Some items' \<Rightarrow> Some (s\<lparr>ss_deque := item # items'\<rparr>)
                | None \<Rightarrow> Some (semit (EvDelete (HttpMsg m)) s)))"

fun session_DoSendBack :: "net_env \<Rightarrow> net_msg \<Rightarrow> session \<Rightarrow> session option" where
  \<comment> \<open>the virtual call with \<open>close = false\<close>; an HTTP session casts the message\<close>
  "session_DoSendBack env (HttpMsg m) s =
     (if ss_http s then http_DoSendBack env m s else base_DoSendBack env (HttpMsg m) False s)"
| "session_DoSendBack env (ThriftMsg m) s =
     (if ss_http s then None else base_DoSendBack env (ThriftMsg m) False s)"

definition DoHeartBeat :: "net_env \<Rightarrow> session \<Rightarrow> session option" where
  "DoHeartBeat env s =
     (if ss_status s \<noteq> S_CONNECTED \<and> ss_status s \<noteq> S_TIME_OUT then Some s
      else
        let (m, c) = CreateHeartBeatMessage E_Request (ss_conn s) in do {
          s1 \<leftarrow> on_conn (AsyncWrite env m False) (s\<lparr>ss_conn := c\<rparr>);
          Some (semit (EvDelete m) s1)
        })"

section \<open>Receiving\<close>

definition base_OnRead :: "net_env \<Rightarrow> net_msg \<Rightarrow> session \<Rightarrow> session option" where
  "base_OnRead env m s =
     (if nm_isheartbeat m then
        let s1 = SetStatus S_CONNECTED s in do {
          s2 \<leftarrow> (if nm_direction m = E_Request then
                   let (r, c) = CreateHeartBeatMessage E_Response (ss_conn s1) in do {
                     s2 \<leftarrow> on_conn (AsyncWrite env r False) (s1\<lparr>ss_conn := c\<rparr>);
                     Some (semit (EvDelete r) s2)
                   } else Some s1);
          Some (semit (EvDelete m) s2)
        }
      else
        let deliver = (\<lambda>m s. if ss_owner s then Some (semit (EvRead m) (SetStatus S_CONNECTED s))
                             else Some (semit (EvDelete m) s))
        in if nm_direction m = E_Response then
             let s1 = (if IsOk m then SetStatus S_CONNECTED s else s); k = GetSequenceId m in
             (case mm_find k (ss_history s1) of
                None \<Rightarrow> Some (semit (EvDelete m) s1)
              | Some t \<Rightarrow>
                  let m' = nm_set_ctx (nm_ctx (rt_msg t)) m;
                      s2 = semit (TimerStop (ReqTimer (nm_addr (rt_msg t)))) (semit (EvDelete (rt_msg t)) s1)
                  in deliver m' (s2\<lparr>ss_history := mm_erase k (ss_history s2)\<rparr>))
           else deliver m s)"

fun session_OnRead :: "net_env \<Rightarrow> net_msg \<Rightarrow> session \<Rightarrow> session option" where
  \<comment> \<open>the virtual call: an HTTP session numbers the requests first\<close>
  "session_OnRead env (HttpMsg m) s =
     (if ss_http s \<and> direction m = E_Request then
        let n = ss_dwseq s + 1 in
        base_OnRead env (HttpMsg (m\<lparr>requestno := n\<rparr>))
          (s\<lparr>ss_dwseq := n, ss_deque := ss_deque s @ [\<lparr>ri_no = n, ri_response = None\<rparr>]\<rparr>)
      else base_OnRead env (HttpMsg m) s)"
| "session_OnRead env (ThriftMsg m) s =
     (if ss_http s \<and> direction m = E_Request then None else base_OnRead env (ThriftMsg m) s)"

section \<open>Time-outs and the end of a session\<close>

text \<open>
  The callback of a request timer, which was created for the message \<open>m\<close>. The entry it works on is
  the first one with the sequence number of \<open>m\<close>.
\<close>

definition DoRequestTimeOut :: "net_msg \<Rightarrow> session \<Rightarrow> session" where
  "DoRequestTimeOut m s =
     (let k = GetSequenceId m in
      case mm_find k (ss_history s) of
        None \<Rightarrow> s
      | Some t \<Rightarrow>
          let s1 = (if ss_owner s \<and> rt_status t = TS_TIME_OUT
                    then semit (EvRead (nm_SetReply ERROR_REPLY_TIMEOUT m)) s
                    else semit (EvDelete m) s)
          in s1\<lparr>ss_history := mm_erase k (ss_history s1)\<rparr>)"

fun clean_history :: "(u32 \<times> req_timer) list \<Rightarrow> session \<Rightarrow> session" where
  "clean_history [] s = s\<lparr>ss_history := []\<rparr>"
| "clean_history ((k, t) # ts) s =
     clean_history ts (reply_error ERROR_REPLY_CLOSE (rt_msg t)
       (semit (TimerStop (ReqTimer (nm_addr (rt_msg t)))) s))"

fun clean_waiting :: "(net_msg \<times> int) list \<Rightarrow> session \<Rightarrow> session" where
  "clean_waiting [] s = s\<lparr>ss_waiting := []\<rparr>"
| "clean_waiting ((m, t) # ws) s = clean_waiting ws (reply_error ERROR_REPLY_CLOSE m s)"

definition CleanRequestAndCallBack :: "session \<Rightarrow> session" where
  "CleanRequestAndCallBack s = (let s1 = clean_history (ss_history s) s in clean_waiting (ss_waiting s1) s1)"

definition start_reconnect :: "session \<Rightarrow> session" where
  "start_reconnect s = semit (TimerStart ReconnTimer RECONNECT_INTERVAL) (s\<lparr>ss_timer_reconn := True\<rparr>)"

definition session_OnPeerClose :: "session \<Rightarrow> session" where
  "session_OnPeerClose s =
     (let s1 = CleanRequestAndCallBack (SetStatus S_CLOSED s) in
      if ss_autoreconnect s1 then start_reconnect (SetStatus S_WAITING s1)
      else if ss_owner s1 then semit EvPeerClose s1
      else s1)"

definition session_OnAccept :: "session \<Rightarrow> session" where
  "session_OnAccept s =
     (let s1 = SetStatus S_CONNECTED s in if ss_owner s1 then semit EvAccept s1 else s1)"

definition session_OnConnected :: "session \<Rightarrow> session" where
  "session_OnConnected s = (if ss_owner s then semit EvConnected s else s)"

fun deal_waiting :: "net_env \<Rightarrow> (net_msg \<times> int) list \<Rightarrow> session \<Rightarrow> session option" where
  "deal_waiting env [] s = Some s"
| "deal_waiting env ((m, t) # ws) s = do {
     let s0 = s\<lparr>ss_waiting := ws\<rparr>;
     s1 \<leftarrow> (if ss_status s0 = S_CONNECTED then session_DoSendTo env m t s0
            else Some (reply_error ERROR_REPLY_CLOSE m s0));
     deal_waiting env ws s1
   }"

definition DealWaitingList :: "net_env \<Rightarrow> session \<Rightarrow> session option" where
  "DealWaitingList env s = deal_waiting env (ss_waiting s) s"

definition ConnectResult :: "net_env \<Rightarrow> int \<Rightarrow> session \<Rightarrow> session option" where
  "ConnectResult env result s =
     (let s1 =
        (if result = 0 then
           let a = SetStatus S_CONNECTED s;
               b = (if ss_heartbeat a > 0 \<and> \<not> ss_timer_heartbeat a
                    then semit (TimerStart HeartTimer (nat (max 1000 (ss_heartbeat a)))) (a\<lparr>ss_timer_heartbeat := True\<rparr>)
                    else a)
           in if ss_timer_reconn b then semit (TimerStop ReconnTimer) b else b
         else if ss_autoreconnect s then start_reconnect s
         else s)
      in DealWaitingList env (session_OnConnected s1))"

text \<open>The destructors: the HTTP part first, then timers and pending messages.\<close>

definition http_destroy :: "session \<Rightarrow> session" where
  "http_destroy s =
     (foldl (\<lambda>a item. case ri_response item of Some m \<Rightarrow> semit (EvDelete (HttpMsg m)) a | None \<Rightarrow> a) s (ss_deque s))
       \<lparr>ss_deque := []\<rparr>"

definition session_destroy :: "session \<Rightarrow> session" where
  "session_destroy s =
     (let a = (if ss_http s then http_destroy s else s);
          b = (if ss_timer_heartbeat a then semit (TimerDelete HeartTimer) (semit (TimerStop HeartTimer) a) else a);
          d = (if ss_timer_reconn b then semit (TimerDelete ReconnTimer) (semit (TimerStop ReconnTimer) b) else b)
      in CleanRequestAndCallBack (d\<lparr>ss_owner := False\<rparr>))"

end
