(* ===== verification/NetIO.thy ===== *)
theory NetIO
  imports Session
begin

text \<open>
  The handlers of \<open>CConnection\<close> (frame/net/connection.cc) that call into the session, and the session
  operations that call them: connecting, reading, the end of a write, closing. Each definition is one
  handler of the event loop or one call of the session's interface.
\<close>

section \<open>The end of a connection\<close>

definition conn_OnPeerClose :: "session \<Rightarrow> session" where
  "conn_OnPeerClose s0 =
     (let s = s0\<lparr>ss_conn := (ss_conn s0)\<lparr>cn_dealing := False\<rparr>\<rparr>;
          s1 = (if cn_connected (ss_conn s) \<and> cn_session (ss_conn s)
                then (let a = session_OnPeerClose s in a\<lparr>ss_conn := SetOwner False (ss_conn a)\<rparr>)
                else s);
          s2 = (if cn_connected (ss_conn s1) then semit SockClose s1 else s1)
      in s2\<lparr>ss_conn := (ss_conn s2)\<lparr>cn_connected := False\<rparr>\<rparr>)"

section \<open>Connecting\<close>

definition ConnectFinish :: "net_env \<Rightarrow> int \<Rightarrow> session \<Rightarrow> session option" where
  "ConnectFinish env result s0 =
     (let s = semit ConnTimerCancel s0;
          s1 = (if result = 0
                then s\<lparr>ss_conn := AsyncReadInner env ((ss_conn s)\<lparr>cn_connected := True\<rparr>)\<rparr>
                else s)
      in if cn_session (ss_conn s1) then ConnectResult env result s1 else Some s1)"

definition CONNECT_TIMEOUT :: int where "CONNECT_TIMEOUT = 3"

definition AsyncConnect :: "net_env \<Rightarrow> string \<Rightarrow> u32 \<Rightarrow> session \<Rightarrow> session option" where
  "AsyncConnect env ip port s =
     (if cn_connected (ss_conn s) then ConnectFinish env 0 s
      else Some (semit (ConnTimerStart CONNECT_TIMEOUT) (semit (Resolve ip (fmt_d (sint port))) s)))"

text \<open>
  The handlers get the outcome of their operation. \<open>nxt\<close> is the position of the next endpoint in the
  resolver's list and \<open>n_endpoints\<close> its length; a successful resolution has at least one.
\<close>

definition HandleResolve :: "net_env \<Rightarrow> bool \<Rightarrow> session \<Rightarrow> session option" where
  "HandleResolve env err s = (if err then ConnectFinish env (- 2) s else Some (semit (SockConnect 0) s))"

definition HandleConnected :: "net_env \<Rightarrow> bool \<Rightarrow> nat \<Rightarrow> nat \<Rightarrow> session \<Rightarrow> session option" where
  "HandleConnected env err nxt n_endpoints s =
     (if \<not> err then ConnectFinish env 0 s
      else if nxt = n_endpoints then ConnectFinish env (- 3) s
      else Some (semit (SockConnect nxt) (semit SockClose s)))"

definition HandleConnectTimeout :: "net_env \<Rightarrow> bool \<Rightarrow> session \<Rightarrow> session option" where
  "HandleConnectTimeout env aborted s =
     (if \<not> aborted then ConnectFinish env (- 3) (semit SockClose s) else Some s)"

definition DoConnect :: "net_env \<Rightarrow> session \<Rightarrow> session option" where
  "DoConnect env s0 =
     (let s = s0\<lparr>ss_conn := SetOwner True (ss_conn s0)\<rparr> in
      if ss_status s = S_CONNECTED \<or> ss_status s = S_CONNECTING then Some s
      else AsyncConnect env (ss_ip s) (ss_port s) (SetStatus S_CONNECTING s))"

definition session_Connect :: "net_env \<Rightarrow> string \<Rightarrow> u32 \<Rightarrow> session \<Rightarrow> session option" where
  "session_Connect env ip port s = DoConnect env (s\<lparr>ss_ip := ip, ss_port := port\<rparr>)"

definition session_Close :: "session \<Rightarrow> session" where
  "session_Close s0 =
     (let s = s0\<lparr>ss_conn := SetOwner False (ss_conn s0), ss_owner := False\<rparr> in
      if ss_status s = S_CLOSED then s
      else conn_OnPeerClose (CleanRequestAndCallBack (SetStatus S_CLOSED s)))"

section \<open>Reading\<close>

datatype read_end = RdClosed | RdPending int | RdNoFuel

text \<open>
  The loop of \<open>HandleRead\<close>. \<open>p\<close> is the offset of the current packet in the buffer; a decoder may
  send it backwards, and a packet before the buffer cannot be read. Each turn uses one unit of
  fuel.
\<close>

definition illegal_packet :: "net_msg \<Rightarrow> session \<Rightarrow> read_end \<times> session" where
  "illegal_packet m s = (RdClosed, conn_OnPeerClose (semit (EvDelete m) s))"

fun read_loop :: "net_env \<Rightarrow> nat \<Rightarrow> int \<Rightarrow> session \<Rightarrow> (read_end \<times> session) option" where
  "read_loop env fuel p s =
     (let buf_end = int (unat (cb_len (cn_buffer (ss_conn s)))) in
      if buf_end \<le> p then Some (RdPending p, s)
      else if p < 0 then None
      else (case fuel of
        0 \<Rightarrow> Some (RdNoFuel, s)
      | Suc fuel' \<Rightarrow> do {
          let c = (ss_conn s)\<lparr>cn_dealing := True\<rparr>;
          let (m0, c1) = CreateMessage c;
          m1 \<leftarrow> msg_Init (ne_now env) (cn_remoteip c1) (cn_remoteport c1) m0;
          (r, c2, m) \<leftarrow> conn_decode env c1 (nat p) (nat (buf_end - p)) m1;
          let s1 = s\<lparr>ss_conn := c2\<rparr>;
          (case r of
             PNull \<Rightarrow> Some (illegal_packet m s1)
           | PAt q \<Rightarrow>
               if buf_end < q then Some (illegal_packet m s1)
               else if q = p then Some (RdPending p, semit (EvDelete m) s1)
               else if cn_session c2 then session_OnRead env m s1 \<bind> read_loop env fuel' q
               else Some (illegal_packet m s1))
        }))"

declare read_loop.simps [simp del]

text \<open>What the handler does with the bytes behind the last complete packet.\<close>

definition keep_rest :: "net_env \<Rightarrow> int \<Rightarrow> cbuffer \<Rightarrow> cbuffer" where
  "keep_rest env p b =
     (let n = unat (cb_loc b); k = nat (int n - p);
          b1 = (if p < int n
                then reset_loc (of_nat k) (b\<lparr>cb_base := take k (drop (nat p) (cb_base b)) @ drop k (cb_base b)\<rparr>)
                else reset_loc 0 b)
      in if cb_left b1 \<le> 1024 then add_capacity (ne_fresh env) b1 else b1)"

definition HandleRead :: "net_env \<Rightarrow> nat \<Rightarrow> bool \<Rightarrow> nat \<Rightarrow> session \<Rightarrow> (read_end \<times> session) option" where
  "HandleRead env fuel err n s =
     (let c = ss_conn s in
      if err then Some (RdClosed, conn_OnPeerClose (s\<lparr>ss_conn := c\<lparr>cn_buffer := reset_loc 0 (cn_buffer c)\<rparr>\<rparr>))
      else
        let b = inc_loc (of_nat n) (cn_buffer c);
            s1 = s\<lparr>ss_conn := c\<lparr>cn_connected := True, cn_buffer := b\<rparr>\<rparr>
        in if MAX_PACKET_SIZE < unat (cb_len b) then Some (RdClosed, conn_OnPeerClose s1)
           else do {
             (e, s2) \<leftarrow> read_loop env fuel 0 s1;
             (case e of
                RdPending p \<Rightarrow>
                  let c2 = (ss_conn s2)\<lparr>cn_dealing := False\<rparr>;
                      c3 = c2\<lparr>cn_buffer := keep_rest env p (cn_buffer c2)\<rparr>
                  in Some (e, s2\<lparr>ss_conn := AsyncReadInner env c3\<rparr>)
              | _ \<Rightarrow> Some (e, s2))
           })"

definition HandleWrite :: "bool \<Rightarrow> session \<Rightarrow> session" where
  \<comment> \<open>the out queue, which the second test of the code consults, is never filled\<close>
  "HandleWrite err s =
     (if err \<or> cn_close_after_write (ss_conn s) then conn_OnPeerClose s else s)"

end
