(* ===== verification/ProtocolHelper.thy ===== *)
theory ProtocolHelper
  imports Events
begin

text \<open>
  \<open>ParseAddr\<close> of frame/protocol/protocolhelper.cc: an address \<open>scheme://host:port\<close> is read with
  \<open>sscanf(addr, "%31[^:]://%[^:]:%u", pro, ip, port)\<close>. The host goes to an array of 32 bytes without
  a bound on its length.
\<close>

section \<open>Reading an address\<close>

definition ADDR_IP_SIZE :: nat where "ADDR_IP_SIZE = 32"

record parsed_addr =
  pa_proto :: EProtocolType
  pa_ip :: string
  pa_port :: u32

text \<open>
  The conversions of the sscanf call: the scheme, the host, and the port if the third conversion
  succeeds. \<open>None\<close> outside: the host overruns its array; \<open>None\<close> inside: fewer than two conversions.
\<close>

definition scan_addr :: "string \<Rightarrow> (string \<times> string \<times> u32 option) option option" where
  "scan_addr addr =
     (let a = c_str addr;
          pro = take 31 (takeWhile (\<lambda>c. c \<noteq> CHR '':'') a);
          r = drop (length pro) a;
          ip = takeWhile (\<lambda>c. c \<noteq> CHR '':'') (drop 3 r);
          r2 = drop (3 + length ip) r
      in if pro = [] \<or> take 3 r \<noteq> ''://'' \<or> ip = [] then Some None
         else if ADDR_IP_SIZE \<le> length ip then None
         else (case r2 of
                 [] \<Rightarrow> Some (Some (pro, ip, None))
               | _ # r3 \<Rightarrow> map_option (\<lambda>p. Some (pro, ip, p)) (scan_udec (r3 @ [NUL]))))"

definition starts_caseeq :: "string \<Rightarrow> string \<Rightarrow> bool" where
  "starts_caseeq lit s \<longleftrightarrow> c_caseeq lit (s @ [NUL]) = Some True"

text \<open>
  The result code with the parsed address for the code 0. The port of an address without one is 80
  for HTTP; for the other schemes it keeps the value that the caller's variable had.
\<close>

definition ParseAddr :: "string \<Rightarrow> u32 \<Rightarrow> (int \<times> parsed_addr option) option" where
  "ParseAddr addr port0 = do {
     r \<leftarrow> scan_addr addr;
     Some (case r of
         None \<Rightarrow> (- 1, None)
       | Some (pro, ip, po) \<Rightarrow>
           let port = (case po of Some p \<Rightarrow> p | None \<Rightarrow> port0) in
           if starts_caseeq ''http'' pro
           then (0, Some \<lparr>pa_proto = E_PROTOCOL_HTTP, pa_ip = ip, pa_port = (if po = None then 80 else port)\<rparr>)
           else if starts_caseeq ''thrift'' pro
           then (0, Some \<lparr>pa_proto = E_PROTOCOL_THRIFT, pa_ip = ip, pa_port = port\<rparr>)
           else if starts_caseeq ''ftd'' pro
           then (0, Some \<lparr>pa_proto = E_PROTOCOL_FTD, pa_ip = ip, pa_port = port\<rparr>)
           else (- 2, None))
   }"

end
