(* ===== verification/SessionManagers.thy ===== *)
theory SessionManagers
  imports NetIO ProtocolHelper
begin

text \<open>
  The two halves of a network thread's session manager: \<open>CSocSessionManager\<close> for accepted
  connections (frame/net/socsessionmanager.cc) and \<open>CSosSessionManager\<close> for outgoing ones with its
  containers of short and of persistent sessions (frame/net/sossessionmanager.cc).

  A container holds its sessions by value; what a pointer to a session identifies is the id of its
  connection. Destroyed sessions move to a list of the dead, with the trace of what they did.
\<close>

section \<open>Accepted sessions\<close>

fun om_put :: "'k::linorder \<Rightarrow> 'v \<Rightarrow> ('k \<times> 'v) list \<Rightarrow> ('k \<times> 'v) list" where
  \<comment> \<open>\<open>m[k] = v\<close> for a \<open>std::map\<close>: a list sorted by key\<close>
  "om_put k v [] = [(k, v)]"
| "om_put k v ((k', v') # r) =
     (if k < k' then (k, v) # (k', v') # r else if k = k' then (k, v) # r else (k', v') # om_put k v r)"

record soc_manager =
  soc_sessions :: "(u32 \<times> session) list"
  soc_dead :: "session list"

definition session_id :: "session \<Rightarrow> u32" where
  "session_id s = cn_id (ss_conn s)"

definition soc_OnAccept :: "session \<Rightarrow> soc_manager \<Rightarrow> soc_manager" where
  "soc_OnAccept s m = m\<lparr>soc_sessions := om_put (session_id s) s (soc_sessions m)\<rparr>"

definition soc_OnPeerClose :: "u32 \<Rightarrow> soc_manager \<Rightarrow> int \<times> soc_manager" where
  "soc_OnPeerClose i m =
     (case map_of (soc_sessions m) i of
        Some s \<Rightarrow> (0, m\<lparr>soc_sessions := AList.update i (SetStatus S_CLOSED s) (soc_sessions m)\<rparr>)
      | None \<Rightarrow> (- 1, m))"

text \<open>A message for a connection that is gone is logged and not deleted.\<close>

definition soc_DoSendBack :: "net_env \<Rightarrow> u32 \<Rightarrow> net_msg \<Rightarrow> soc_manager \<Rightarrow> soc_manager option" where
  "soc_DoSendBack env i msg m =
     (case map_of (soc_sessions m) i of
        Some s \<Rightarrow> map_option (\<lambda>s'. m\<lparr>soc_sessions := AList.update i s' (soc_sessions m)\<rparr>) (session_DoSendBack env msg s)
      | None \<Rightarrow> Some m)"

fun soc_check :: "(u32 \<times> session) list \<Rightarrow> (u32 \<times> session) list \<times> session list" where
  \<comment> \<open>the sessions that stay, and those that were closed and destroyed\<close>
  "soc_check [] = ([], [])"
| "soc_check ((i, s) # r) =
     (let (keep, dead) = soc_check r in
      if ss_status s = S_CONNECTED then ((i, SetStatus S_TIME_OUT s) # keep, dead)
      else if ss_status s = S_TIME_OUT \<or> ss_status s = S_CLOSED
      then (keep, session_destroy (session_Close s) # dead)
      else ((i, s) # keep, dead))"

definition soc_DoCheckSession :: "soc_manager \<Rightarrow> soc_manager" where
  "soc_DoCheckSession m =
     (let (keep, dead) = soc_check (soc_sessions m)
      in m\<lparr>soc_sessions := keep, soc_dead := soc_dead m @ dead\<rparr>)"

section \<open>Short sessions\<close>

text \<open>One session per name. The tables of both containers are unordered maps.\<close>

type_synonym short_container = "(string \<times> session) list"

definition short_GetSession :: "string \<Rightarrow> short_container \<Rightarrow> session option" where
  "short_GetSession name c = map_of c name"

definition short_AddSession :: "string \<Rightarrow> session \<Rightarrow> short_container \<Rightarrow> short_container \<times> session list" where
  \<comment> \<open>a session for a name that has one is destroyed\<close>
  "short_AddSession name s c =
     (if map_of c name \<noteq> None then (c, [session_destroy s]) else (AList.update name s c, []))"

fun delete_session :: "u32 \<Rightarrow> ('k \<times> session) list \<Rightarrow> int \<times> ('k \<times> session) list" where
  \<comment> \<open>\<open>DeleteSession\<close> of both containers: it only marks the session\<close>
  "delete_session i [] = (- 1, [])"
| "delete_session i ((k, s) # r) =
     (if session_id s = i then (0, (k, SetStatus S_CLOSED s) # r)
      else let (n, r') = delete_session i r in (n, (k, s) # r'))"

fun short_CheckSession :: "short_container \<Rightarrow> short_container \<times> session list" where
  "short_CheckSession [] = ([], [])"
| "short_CheckSession ((n, s) # r) =
     (let (keep, dead) = short_CheckSession r in
      if ss_status s = S_CONNECTED \<or> ss_status s = S_WAITING \<or> ss_status s = S_CONNECTING
      then ((n, SetStatus S_TIME_OUT s) # keep, dead)
      else (keep, session_destroy (session_Close s) # dead))"

section \<open>Persistent sessions\<close>

text \<open>One session per address, and for each name the sorted list of its addresses.\<close>

record session_group =
  sg_addrs :: "string list"
  sg_current :: nat

record pers_container =
  pc_sessions :: "(string \<times> session) list"
  pc_groups :: "(string \<times> session_group) list"

definition pers_empty :: pers_container where
  "pers_empty = \<lparr>pc_sessions = [], pc_groups = []\<rparr>"

fun rr_loop :: "nat \<Rightarrow> (string \<times> session) list \<Rightarrow> session_group \<Rightarrow> string option \<times> session_group" where
  \<comment> \<open>the round-robin loop of \<open>GetSession(name)\<close>, with the number of turns left\<close>
  "rr_loop 0 ss g = (None, g)"
| "rr_loop (Suc i) ss g =
     (let g1 = (if length (sg_addrs g) \<le> sg_current g then g\<lparr>sg_current := 0\<rparr> else g);
          a = sg_addrs g1 ! sg_current g1
      in if map_of ss a \<noteq> None then (Some a, g1\<lparr>sg_current := Suc (sg_current g1)\<rparr>)
         else rr_loop i ss g1)"

definition pers_GetSession :: "string \<Rightarrow> pers_container \<Rightarrow> string option \<times> pers_container" where
  \<comment> \<open>the address of the session found\<close>
  "pers_GetSession name c =
     (case map_of (pc_groups c) name of
        None \<Rightarrow> (None, c)
      | Some g \<Rightarrow>
          if sg_addrs g = [] then (None, c)
          else let (r, g') = rr_loop (length (sg_addrs g)) (pc_sessions c) g
               in (r, c\<lparr>pc_groups := AList.update name g' (pc_groups c)\<rparr>))"

definition pers_GetSession_addr :: "string \<Rightarrow> string \<Rightarrow> pers_container \<Rightarrow> session option" where
  "pers_GetSession_addr name addr c = map_of (pc_sessions c) addr"

definition pers_GetSession_connid :: "string \<Rightarrow> u32 \<Rightarrow> pers_container \<Rightarrow> string option" where
  \<comment> \<open>the first address with a session; the connection id is not used\<close>
  "pers_GetSession_connid name connid c =
     (case map_of (pc_groups c) name of
        None \<Rightarrow> None
      | Some g \<Rightarrow> find (\<lambda>a. map_of (pc_sessions c) a \<noteq> None) (sg_addrs g))"

definition pers_AddSession :: "string \<Rightarrow> string \<Rightarrow> session \<Rightarrow> pers_container \<Rightarrow> pers_container" where
  "pers_AddSession name addr s c =
     (let c1 = (if map_of (pc_sessions c) addr = None
                then c\<lparr>pc_sessions := AList.update addr s (pc_sessions c)\<rparr> else c);
          g = (case map_of (pc_groups c1) name of Some g \<Rightarrow> g | None \<Rightarrow> \<lparr>sg_addrs = [], sg_current = 0\<rparr>);
          g' = (if addr \<in> set (sg_addrs g) then g else g\<lparr>sg_addrs := sort (sg_addrs g @ [addr])\<rparr>)
      in c1\<lparr>pc_groups := AList.update name g' (pc_groups c1)\<rparr>)"

section \<open>Outgoing sessions\<close>

record sos_manager =
  so_short :: short_container
  so_pers :: pers_container
  so_dead :: "session list"
  so_unsent :: "net_msg list" \<comment> \<open>messages given back through \<open>OnRead(NULL, msg)\<close>\<close>
  so_mark :: u32 \<comment> \<open>\<open>CConnection::sm_mark_\<close>\<close>

definition sos_manager_new :: "u32 \<Rightarrow> sos_manager" where
  "sos_manager_new mark =
     \<lparr>so_short = [], so_pers = pers_empty, so_dead = [], so_unsent = [], so_mark = mark\<rparr>"

definition put_short :: "string \<Rightarrow> session \<Rightarrow> sos_manager \<Rightarrow> sos_manager" where
  "put_short name s m = m\<lparr>so_short := AList.update name s (so_short m)\<rparr>"

definition put_pers :: "string \<Rightarrow> session \<Rightarrow> sos_manager \<Rightarrow> sos_manager" where
  "put_pers addr s m = m\<lparr>so_pers := (so_pers m)\<lparr>pc_sessions := AList.update addr s (pc_sessions (so_pers m))\<rparr>\<rparr>"

text \<open>
  \<open>DoConnect\<close>. \<open>port0\<close> is what the uninitialised variable \<open>port\<close> holds and \<open>next_addr\<close> the address of the
  next object to be allocated.
\<close>

definition sos_new_session ::
  "net_env \<Rightarrow> u32 \<Rightarrow> nat \<Rightarrow> string \<Rightarrow> string \<Rightarrow> bool \<Rightarrow> int \<Rightarrow> sos_manager
     \<Rightarrow> (int \<times> session option) option" where
  "sos_new_session env port0 next_addr name addr autoreconnect heartbeat m = do {
     (ret, pa) \<leftarrow> ParseAddr addr port0;
     (case pa of
        None \<Rightarrow> Some (- 1, None)
      | Some a \<Rightarrow> do {
          http \<leftarrow> CreateSession (pa_proto a);
          s0 \<leftarrow> session_Init env http (pa_proto a) True autoreconnect heartbeat (so_mark m) next_addr;
          s \<leftarrow> session_Connect env (pa_ip a) (pa_port a) (s0\<lparr>ss_addr := addr, ss_name := name\<rparr>);
          Some (0, Some s)
        })
   }"

definition sos_DoConnect ::
  "net_env \<Rightarrow> u32 \<Rightarrow> nat \<Rightarrow> string \<Rightarrow> string \<Rightarrow> bool \<Rightarrow> int \<Rightarrow> bool \<Rightarrow> sos_manager
     \<Rightarrow> (int \<times> sos_manager) option" where
  "sos_DoConnect env port0 next_addr name addr autoreconnect heartbeat addr_reuse m =
     (if name = [] then Some (- 1, m)
      else
        let found = (if addr_reuse then pers_GetSession_addr name addr (so_pers m)
                     else short_GetSession name (so_short m))
        in (case found of
              Some s \<Rightarrow> do {
                s' \<leftarrow> DoConnect env (s\<lparr>ss_owner := True\<rparr>);
                Some (0, if addr_reuse then put_pers addr s' m else put_short name s' m)
              }
            | None \<Rightarrow> do {
                (ret, so) \<leftarrow> sos_new_session env port0 next_addr name addr autoreconnect heartbeat m;
                Some (case so of
                    None \<Rightarrow> (ret, m)
                  | Some s \<Rightarrow>
                      let m1 = m\<lparr>so_mark := so_mark m + 1\<rparr> in
                      (ret, if addr_reuse
                            then m1\<lparr>so_pers := pers_AddSession name addr s (so_pers m1)\<rparr>
                            else (let (c, dead) = short_AddSession name s (so_short m1)
                                  in m1\<lparr>so_short := c, so_dead := so_dead m1 @ dead\<rparr>)))
              }))"

text \<open>The product \<open>timeout * 1000\<close> is an int: undefined when it overflows.\<close>

definition sos_DoSendTo :: "net_env \<Rightarrow> string \<Rightarrow> net_msg \<Rightarrow> int \<Rightarrow> sos_manager \<Rightarrow> sos_manager option" where
  "sos_DoSendTo env name msg timeout m =
     (let ms = timeout * 1000; ok = (- (2 ^ 31) \<le> ms \<and> ms < 2 ^ 31) in
      case short_GetSession name (so_short m) of
        Some s \<Rightarrow> do {
          _ \<leftarrow> defined_if ok;
          s' \<leftarrow> session_DoSendTo env msg ms s;
          Some (put_short name s' m)
        }
      | None \<Rightarrow>
          let (ao, c) = pers_GetSession name (so_pers m); m1 = m\<lparr>so_pers := c\<rparr> in
          (case ao of
             None \<Rightarrow> Some (m1\<lparr>so_unsent := so_unsent m1 @ [nm_SetReply (- 1) msg]\<rparr>)
           | Some a \<Rightarrow> do {
               _ \<leftarrow> defined_if ok;
               s \<leftarrow> map_of (pc_sessions c) a;
               s' \<leftarrow> session_DoSendTo env msg ms s;
               Some (put_pers a s' m1)
             }))"

definition sos_DoClose :: "string \<Rightarrow> u32 \<Rightarrow> sos_manager \<Rightarrow> sos_manager" where
  "sos_DoClose name connid m =
     (case short_GetSession name (so_short m) of
        Some s \<Rightarrow> put_short name (session_Close s) m
      | None \<Rightarrow>
          (case pers_GetSession_connid name connid (so_pers m) of
             None \<Rightarrow> m
           | Some a \<Rightarrow>
               (case map_of (pc_sessions (so_pers m)) a of
                  None \<Rightarrow> m
                | Some s \<Rightarrow> put_pers a (session_Close s) m)))"

definition sos_OnPeerClose :: "u32 \<Rightarrow> sos_manager \<Rightarrow> int \<times> sos_manager" where
  "sos_OnPeerClose i m =
     (let (r, c) = delete_session i (so_short m) in
      if r \<noteq> 0 then
        let (r2, ps) = delete_session i (pc_sessions (so_pers m))
        in (r2, m\<lparr>so_pers := (so_pers m)\<lparr>pc_sessions := ps\<rparr>\<rparr>)
      else (0, m\<lparr>so_short := c\<rparr>))"

text \<open>The body of the persistent container's \<open>CheckSession\<close> is commented out.\<close>

definition sos_DoCheckSession :: "sos_manager \<Rightarrow> sos_manager" where
  "sos_DoCheckSession m =
     (let (keep, dead) = short_CheckSession (so_short m)
      in m\<lparr>so_short := keep, so_dead := so_dead m @ dead\<rparr>)"

text \<open>The destructors of the containers destroy what they hold.\<close>

definition soc_destroy :: "soc_manager \<Rightarrow> soc_manager" where
  "soc_destroy m = m\<lparr>soc_sessions := [], soc_dead := soc_dead m @ map (\<lambda>(i, s). session_destroy s) (soc_sessions m)\<rparr>"

definition sos_destroy :: "sos_manager \<Rightarrow> sos_manager" where
  "sos_destroy m =
     m\<lparr>so_short := [], so_pers := pers_empty,
       so_dead := so_dead m @ map (\<lambda>(n, s). session_destroy s) (so_short m)
                  @ map (\<lambda>(a, s). session_destroy s) (pc_sessions (so_pers m))\<rparr>"

end
