(* ===== verification/SessionProps.thy ===== *)
theory SessionProps
  imports NetIO
begin

text \<open>
  Correctness of sessions. The main theorem follows every message that a session takes over: at any
  time it is in the request table, in the waiting list, or it has been handed to the owner or deleted,
  exactly once. It needs the outstanding requests to have different sequence numbers, and the
  theorems after it show what happens when they do not (every HTTP request has the number 0), and
  what the session does in the states in which it cannot answer.
\<close>

section \<open>Effects of the operations on the bookkeeping\<close>

abbreviation strace :: "session \<Rightarrow> effect list" where
  "strace s \<equiv> cn_trace (ss_conn s)"

definition tag :: "net_msg \<Rightarrow> nat \<times> u32" where
  \<comment> \<open>what identifies a message through the changes the session makes to it\<close>
  "tag m = (nm_addr m, GetSequenceId m)"

lemma tag_simps [simp]:
  "tag (nm_SetReply n m) = tag m" "tag (nm_set_connid i m) = tag m" "tag (nm_set_ctx x m) = tag m"
  by (simp_all add: tag_def)

fun settled1 :: "effect \<Rightarrow> (nat \<times> u32) multiset" where
  "settled1 (EvRead m) = {#tag m#}"
| "settled1 (EvDelete m) = {#tag m#}"
| "settled1 _ = {#}"

definition settled :: "effect list \<Rightarrow> (nat \<times> u32) multiset" where
  "settled es = sum_list (map settled1 es)"

definition pending :: "session \<Rightarrow> (nat \<times> u32) multiset" where
  "pending s =
     image_mset (\<lambda>(k, t). tag (rt_msg t)) (mset (ss_history s)) + image_mset (\<lambda>(m, t). tag m) (mset (ss_waiting s))"

lemma settled_simps [simp]: "settled [] = {#}" "settled (xs @ ys) = settled xs + settled ys" "settled [e] = settled1 e"
  by (simp_all add: settled_def)

lemma semit_simps [simp]:
  "ss_history (semit e s) = ss_history s" "ss_waiting (semit e s) = ss_waiting s" "ss_status (semit e s) = ss_status s"
  "ss_owner (semit e s) = ss_owner s" "strace (semit e s) = strace s @ [e]" "ss_http (semit e s) = ss_http s"
  "ss_deque (semit e s) = ss_deque s" "ss_dwseq (semit e s) = ss_dwseq s" "ss_autoreconnect (semit e s) = ss_autoreconnect s"
  "ss_timer_reconn (semit e s) = ss_timer_reconn s" "ss_timer_heartbeat (semit e s) = ss_timer_heartbeat s"
  "ss_heartbeat (semit e s) = ss_heartbeat s" "ss_name (semit e s) = ss_name s" "ss_addr (semit e s) = ss_addr s"
  "ss_ip (semit e s) = ss_ip s" "ss_port (semit e s) = ss_port s"
  "cn_connected (ss_conn (semit e s)) = cn_connected (ss_conn s)" "cn_session (ss_conn (semit e s)) = cn_session (ss_conn s)"
  "cn_id (ss_conn (semit e s)) = cn_id (ss_conn s)" "cn_buffer (ss_conn (semit e s)) = cn_buffer (ss_conn s)"
  by (simp_all add: semit_def emit_def)

lemma SetStatus_simps [simp]:
  "ss_history (SetStatus st s) = ss_history s" "ss_waiting (SetStatus st s) = ss_waiting s"
  "ss_status (SetStatus st s) = st" "ss_owner (SetStatus st s) = ss_owner s" "ss_conn (SetStatus st s) = ss_conn s"
  "ss_autoreconnect (SetStatus st s) = ss_autoreconnect s" "ss_heartbeat (SetStatus st s) = ss_heartbeat s"
  "ss_timer_reconn (SetStatus st s) = ss_timer_reconn s" "ss_timer_heartbeat (SetStatus st s) = ss_timer_heartbeat s"
  "ss_http (SetStatus st s) = ss_http s" "ss_deque (SetStatus st s) = ss_deque s"
  by (simp_all add: SetStatus_def)

lemma pending_cong [simp]:
  "pending (semit e s) = pending s" "pending (SetStatus st s) = pending s"
  by (simp_all add: pending_def)

text \<open>What a write does to the session around the connection.\<close>

lemma AsyncWrite_Some:
  assumes "AsyncWrite env m cl c = Some c'"
  shows "(c' = c \<and> \<not> cn_connected c) \<or> (cn_connected c \<and> (\<exists>b. cn_trace c' = cn_trace c @ [SockWrite m b]))"
    and "cn_connected c' = cn_connected c" "cn_session c' = cn_session c" "cn_id c' = cn_id c" "cn_buffer c' = cn_buffer c"
    and "cn_kind c' = cn_kind c" "cn_next c' = cn_next c"
  using assms by (auto simp: AsyncWrite_def emit_def split: if_splits Option.bind_splits)

lemma on_conn_write:
  assumes "on_conn (AsyncWrite env m cl) s = Some s'"
  shows "\<exists>c'. s' = s\<lparr>ss_conn := c'\<rparr> \<and> settled (cn_trace c') = settled (strace s)
    \<and> cn_connected c' = cn_connected (ss_conn s) \<and> cn_session c' = cn_session (ss_conn s) \<and> cn_id c' = cn_id (ss_conn s)"
proof -
  obtain c' where c': "AsyncWrite env m cl (ss_conn s) = Some c'" "s' = s\<lparr>ss_conn := c'\<rparr>"
    using assms by (auto simp: on_conn_def)
  then show ?thesis using AsyncWrite_Some [OF c'(1)] by auto
qed

section \<open>Conservation, operation by operation\<close>

lemma pending_conn [simp]: "pending (s\<lparr>ss_conn := c\<rparr>) = pending s"
  by (simp add: pending_def)

lemma pending_history_insert:
  "pending (s\<lparr>ss_history := mm_insert k t (ss_history s)\<rparr>) = add_mset (tag (rt_msg t)) (pending s)"
  by (simp add: pending_def mm.entries_ins)

lemma pending_history_erase:
  assumes "mm_find k (ss_history s) = Some t"
  shows "add_mset (tag (rt_msg t)) (pending (s\<lparr>ss_history := mm_erase k (ss_history s)\<rparr>)) = pending s"
proof -
  have "mset (ss_history s) = add_mset (k, t) (mset (mm_erase k (ss_history s)))"
    using mm.entries_del [OF assms] mm.look_in [OF assms] by simp
  then show ?thesis by (simp add: pending_def)
qed

lemma DoSendTo_conserves:
  assumes "session_DoSendTo env m timeout s = Some s'"
  shows "pending s' + settled (strace s') = add_mset (tag m) (pending s + settled (strace s))"
proof -
  let ?m = "nm_set_connid (cn_id (ss_conn s)) m"
  consider (wait) "ss_status s = S_CONNECTING \<or> ss_status s = S_WAITING"
    | (req) "ss_status s \<noteq> S_CONNECTING" "ss_status s \<noteq> S_WAITING" "nm_direction ?m = E_Request"
    | (other) "ss_status s \<noteq> S_CONNECTING" "ss_status s \<noteq> S_WAITING" "nm_direction ?m \<noteq> E_Request"
    by blast
  then show ?thesis
  proof cases
    case wait
    with assms have "s' = s\<lparr>ss_waiting := ss_waiting s @ [(?m, timeout)]\<rparr>" by (simp add: session_DoSendTo_def Let_def)
    then show ?thesis by (simp add: pending_def)
  next
    case req
    with assms have d: "DoSendRequest env ?m timeout s = Some s'" by (simp add: session_DoSendTo_def Let_def)
    show ?thesis
    proof (cases "ss_status s = S_CONNECTED")
      case False
      with d show ?thesis by (auto simp: DoSendRequest_def owner_OnRead_def split: if_splits)
    next
      case True
      define t where "t = \<lparr>rt_msg = ?m, rt_interval = nat (timeout mod 2 ^ 32), rt_status = TS_TIME_OUT\<rparr>"
      define s1 where "s1 = semit (TimerStart (ReqTimer (nm_addr ?m)) (nat (timeout mod 2 ^ 32))) s"
      from d True have "on_conn (AsyncWrite env ?m False)
          (s1\<lparr>ss_history := mm_insert (GetSequenceId ?m) t (ss_history s1)\<rparr>) = Some s'"
        by (simp add: DoSendRequest_def Let_def t_def s1_def)
      from on_conn_write [OF this] show ?thesis
        using pending_history_insert [where s = s1 and k = "GetSequenceId ?m" and t = t] by (auto simp: t_def s1_def)
    qed
  next
    case other
    with assms obtain s1 where s1: "on_conn (AsyncWrite env ?m False) s = Some s1" "s' = semit (EvDelete ?m) s1"
      by (auto simp: session_DoSendTo_def Let_def split: Option.bind_splits)
    with on_conn_write [OF s1(1)] show ?thesis by auto
  qed
qed

lemma base_OnRead_conserves:
  assumes "base_OnRead env m s = Some s'" and "\<not> nm_isheartbeat m"
  shows "pending s' + settled (strace s') = add_mset (tag m) (pending s + settled (strace s))"
proof (cases "nm_direction m = E_Response")
  case False
  with assms show ?thesis by (auto simp: base_OnRead_def Let_def split: if_splits)
next
  case True
  define s1 where "s1 = (if IsOk m then SetStatus S_CONNECTED s else s)"
  have s1: "pending s1 = pending s" "strace s1 = strace s" "ss_history s1 = ss_history s" "ss_owner s1 = ss_owner s"
    by (simp_all add: s1_def)
  show ?thesis
  proof (cases "mm_find (GetSequenceId m) (ss_history s1)")
    case None
    with assms True have "s' = semit (EvDelete m) s1" by (simp add: base_OnRead_def Let_def s1_def [symmetric])
    with s1 show ?thesis by simp
  next
    case (Some t)
    define s2 where "s2 = semit (TimerStop (ReqTimer (nm_addr (rt_msg t)))) (semit (EvDelete (rt_msg t)) s1)"
    define s3 where "s3 = s2\<lparr>ss_history := mm_erase (GetSequenceId m) (ss_history s2)\<rparr>"
    have f: "mm_find (GetSequenceId m) (ss_history s2) = Some t" using Some by (simp add: s2_def)
    have p3: "add_mset (tag (rt_msg t)) (pending s3) = pending s"
      using pending_history_erase [OF f] s1 by (simp add: s3_def s2_def)
    have t3: "strace s3 = strace s @ [EvDelete (rt_msg t), TimerStop (ReqTimer (nm_addr (rt_msg t)))]"
      by (simp add: s3_def s2_def s1 semit_def emit_def)
    let ?m = "nm_set_ctx (nm_ctx (rt_msg t)) m"
    have "s' = (if ss_owner s3 then semit (EvRead ?m) (SetStatus S_CONNECTED s3) else semit (EvDelete ?m) s3)"
      using assms True Some by (auto simp: base_OnRead_def Let_def s1_def [symmetric] s2_def [symmetric] s3_def [symmetric])
    then have "pending s' = pending s3" "settled (strace s') = add_mset (tag m) (settled (strace s3))"
      by simp_all
    with p3 t3 show ?thesis by (simp add: settled_def)
  qed
qed

lemma DoRequestTimeOut_conserves:
  assumes "mm_find (GetSequenceId m) (ss_history s) = Some t" "tag (rt_msg t) = tag m"
  shows "pending (DoRequestTimeOut m s) + settled (strace (DoRequestTimeOut m s)) = pending s + settled (strace s)"
proof -
  define s1 where "s1 = (if ss_owner s \<and> rt_status t = TS_TIME_OUT
      then semit (EvRead (nm_SetReply ERROR_REPLY_TIMEOUT m)) s else semit (EvDelete m) s)"
  have f: "mm_find (GetSequenceId m) (ss_history s1) = Some t" using assms(1) by (simp add: s1_def)
  have "DoRequestTimeOut m s = s1\<lparr>ss_history := mm_erase (GetSequenceId m) (ss_history s1)\<rparr>"
    using assms(1) by (simp add: DoRequestTimeOut_def Let_def s1_def)
  moreover have "pending s1 = pending s" "settled (strace s1) = add_mset (tag m) (settled (strace s))"
    by (simp_all add: s1_def)
  ultimately show ?thesis using pending_history_erase [OF f] assms(2) by (simp add: union_assoc)
qed

lemma reply_error_simps [simp]:
  "ss_history (reply_error n m s) = ss_history s" "ss_waiting (reply_error n m s) = ss_waiting s"
  "settled (strace (reply_error n m s)) = add_mset (tag m) (settled (strace s))"
  "ss_status (reply_error n m s) = ss_status s" "ss_owner (reply_error n m s) = ss_owner s"
  "ss_autoreconnect (reply_error n m s) = ss_autoreconnect s"
  "cn_connected (ss_conn (reply_error n m s)) = cn_connected (ss_conn s)"
  "cn_session (ss_conn (reply_error n m s)) = cn_session (ss_conn s)" "cn_id (ss_conn (reply_error n m s)) = cn_id (ss_conn s)"
  by (simp_all add: reply_error_def)

lemma clean_history_effect:
  "ss_waiting (clean_history ts s) = ss_waiting s \<and> ss_history (clean_history ts s) = []
   \<and> settled (strace (clean_history ts s)) = image_mset (\<lambda>(k, t). tag (rt_msg t)) (mset ts) + settled (strace s)
   \<and> ss_status (clean_history ts s) = ss_status s \<and> ss_owner (clean_history ts s) = ss_owner s
   \<and> ss_autoreconnect (clean_history ts s) = ss_autoreconnect s
   \<and> cn_connected (ss_conn (clean_history ts s)) = cn_connected (ss_conn s)
   \<and> cn_session (ss_conn (clean_history ts s)) = cn_session (ss_conn s)"
  by (induction ts s rule: clean_history.induct) auto

lemma clean_waiting_effect:
  "ss_waiting (clean_waiting ws s) = [] \<and> ss_history (clean_waiting ws s) = ss_history s
   \<and> settled (strace (clean_waiting ws s)) = image_mset (\<lambda>(m, t). tag m) (mset ws) + settled (strace s)
   \<and> ss_status (clean_waiting ws s) = ss_status s \<and> ss_owner (clean_waiting ws s) = ss_owner s
   \<and> ss_autoreconnect (clean_waiting ws s) = ss_autoreconnect s
   \<and> cn_connected (ss_conn (clean_waiting ws s)) = cn_connected (ss_conn s)
   \<and> cn_session (ss_conn (clean_waiting ws s)) = cn_session (ss_conn s)"
  by (induction ws s rule: clean_waiting.induct) auto

lemma Clean_effect:
  "ss_waiting (CleanRequestAndCallBack s) = []" "ss_history (CleanRequestAndCallBack s) = []"
  "settled (strace (CleanRequestAndCallBack s)) = pending s + settled (strace s)"
  "ss_status (CleanRequestAndCallBack s) = ss_status s" "ss_owner (CleanRequestAndCallBack s) = ss_owner s"
  "ss_autoreconnect (CleanRequestAndCallBack s) = ss_autoreconnect s"
  "cn_connected (ss_conn (CleanRequestAndCallBack s)) = cn_connected (ss_conn s)"
  "cn_session (ss_conn (CleanRequestAndCallBack s)) = cn_session (ss_conn s)"
  using clean_history_effect [of "ss_history s" s] clean_waiting_effect [of "ss_waiting s" "clean_history (ss_history s) s"]
  by (simp_all add: CleanRequestAndCallBack_def Let_def pending_def)

lemma Clean_pending [simp]: "pending (CleanRequestAndCallBack s) = {#}"
  by (simp add: pending_def Clean_effect)


lemma session_OnPeerClose_conserves:
  "pending (session_OnPeerClose s) = {#}"
  "settled (strace (session_OnPeerClose s)) = pending s + settled (strace s)"
proof -
  define s1 where "s1 = CleanRequestAndCallBack (SetStatus S_CLOSED s)"
  have s1: "pending s1 = {#}" "settled (strace s1) = pending s + settled (strace s)"
    by (simp_all add: s1_def Clean_effect)
  have eq: "session_OnPeerClose s = (if ss_autoreconnect s1 then start_reconnect (SetStatus S_WAITING s1)
      else if ss_owner s1 then semit EvPeerClose s1 else s1)"
    by (simp add: session_OnPeerClose_def Let_def s1_def)
  have "pending (s1\<lparr>ss_timer_reconn := True, ss_status := S_WAITING\<rparr>) = pending s1"
    by (simp add: pending_def)
  with s1 show "pending (session_OnPeerClose s) = {#}"
    "settled (strace (session_OnPeerClose s)) = pending s + settled (strace s)"
    unfolding eq by (auto simp: start_reconnect_def SetStatus_def pending_def)
qed

lemma conn_OnPeerClose_conserves:
  "pending (conn_OnPeerClose s) + settled (strace (conn_OnPeerClose s)) = pending s + settled (strace s)"
proof -
  define s0 where "s0 = s\<lparr>ss_conn := (ss_conn s)\<lparr>cn_dealing := False\<rparr>\<rparr>"
  define s1 where "s1 = (if cn_connected (ss_conn s0) \<and> cn_session (ss_conn s0)
      then (session_OnPeerClose s0)\<lparr>ss_conn := SetOwner False (ss_conn (session_OnPeerClose s0))\<rparr> else s0)"
  have "pending s1 + settled (strace s1) = pending s0 + settled (strace s0)"
    by (simp add: s1_def session_OnPeerClose_conserves SetOwner_def)
  moreover have "pending s0 = pending s" "strace s0 = strace s" by (simp_all add: s0_def)
  moreover have "conn_OnPeerClose s = (let s2 = (if cn_connected (ss_conn s1) then semit SockClose s1 else s1)
      in s2\<lparr>ss_conn := (ss_conn s2)\<lparr>cn_connected := False\<rparr>\<rparr>)"
    by (simp add: conn_OnPeerClose_def Let_def s0_def s1_def)
  ultimately show ?thesis by (simp add: Let_def)
qed

lemma session_Close_conserves:
  "pending (session_Close s) + settled (strace (session_Close s)) = pending s + settled (strace s)"
proof -
  define s0 where "s0 = s\<lparr>ss_conn := SetOwner False (ss_conn s), ss_owner := False\<rparr>"
  have s0: "pending s0 = pending s" "strace s0 = strace s"
    by (simp_all add: s0_def SetOwner_def pending_def)
  have "session_Close s = (if ss_status s0 = S_CLOSED then s0
      else conn_OnPeerClose (CleanRequestAndCallBack (SetStatus S_CLOSED s0)))"
    by (simp add: session_Close_def Let_def s0_def)
  with s0 show ?thesis by (simp add: conn_OnPeerClose_conserves Clean_effect)
qed

lemma deal_waiting_conserves:
  assumes "deal_waiting env ws s = Some s'" and "ss_waiting s = ws"
  shows "pending s' + settled (strace s') = pending s + settled (strace s)"
  using assms
proof (induction env ws s rule: deal_waiting.induct)
  case (2 env m t ws s)
  define s0 where "s0 = s\<lparr>ss_waiting := ws\<rparr>"
  define X where "X = (if ss_status s0 = S_CONNECTED then session_DoSendTo env m t s0
        else Some (reply_error ERROR_REPLY_CLOSE m s0))"
  have "X \<bind> deal_waiting env ws = Some s'" using 2(2) by (auto simp: X_def s0_def Let_def split: if_splits)
  then obtain s1 where s1: "X = Some s1" and r: "deal_waiting env ws s1 = Some s'"
    by (auto split: Option.bind_splits)
  have p0: "pending s = add_mset (tag m) (pending s0)" "strace s0 = strace s"
    using 2(3) by (simp_all add: s0_def pending_def)
  have "pending s1 + settled (strace s1) = add_mset (tag m) (pending s0 + settled (strace s0))
    \<and> ss_waiting s1 = ws"
  proof (cases "ss_status s0 = S_CONNECTED")
    case True
    then have d: "session_DoSendTo env m t s0 = Some s1" using s1 by (simp add: X_def)
    have "ss_waiting s1 = ss_waiting s0"
      using d True on_conn_write
      by (fastforce simp: session_DoSendTo_def DoSendRequest_def Let_def split: if_splits Option.bind_splits)
    then show ?thesis using DoSendTo_conserves [OF d] by (simp add: s0_def)
  next
    case False
    then have "s1 = reply_error ERROR_REPLY_CLOSE m s0" using s1 by (simp add: X_def)
    then show ?thesis by (simp add: pending_def s0_def)
  qed
  then show ?case using 2(1) [OF s0_def s1 [unfolded X_def] r] p0 by simp
qed simp

lemma ConnectResult_conserves:
  assumes "ConnectResult env r s = Some s'"
  shows "pending s' + settled (strace s') = pending s + settled (strace s)"
proof -
  define s1 where "s1 = (if r = 0 then
           let a = SetStatus S_CONNECTED s;
               b = (if ss_heartbeat a > 0 \<and> \<not> ss_timer_heartbeat a
                    then semit (TimerStart HeartTimer (nat (max 1000 (ss_heartbeat a)))) (a\<lparr>ss_timer_heartbeat := True\<rparr>)
                    else a)
           in if ss_timer_reconn b then semit (TimerStop ReconnTimer) b else b
         else if ss_autoreconnect s then start_reconnect s else s)"
  have d: "deal_waiting env (ss_waiting (session_OnConnected s1)) (session_OnConnected s1) = Some s'"
    using assms by (simp add: ConnectResult_def DealWaitingList_def s1_def Let_def)
  have "pending s1 = pending s" "settled (strace s1) = settled (strace s)"
    by (auto simp: s1_def Let_def start_reconnect_def pending_def)
  then have "pending (session_OnConnected s1) = pending s"
    "settled (strace (session_OnConnected s1)) = settled (strace s)"
    by (auto simp: session_OnConnected_def)
  with deal_waiting_conserves [OF d refl] show ?thesis by simp
qed

section \<open>The trace only grows\<close>

definition grows :: "session \<Rightarrow> session \<Rightarrow> bool" where
  "grows s s' \<longleftrightarrow> (\<exists>es. strace s' = strace s @ es)"

lemma grows_refl [simp]: "grows s s"
  by (simp add: grows_def)

lemma grows_trans: "grows a b \<Longrightarrow> grows b c \<Longrightarrow> grows a c"
  by (auto simp: grows_def)

lemma grows_same: "strace s' = strace s \<Longrightarrow> grows s s'"
  by (simp add: grows_def)

lemma grows_semit [simp]: "grows s (semit e s)"
  by (simp add: grows_def)

lemma grows_reply_error [simp]: "grows s (reply_error n m s)"
  by (simp add: reply_error_def)

lemma grows_settled: "grows s s' \<Longrightarrow> settled (strace s) \<subseteq># settled (strace s')"
  by (auto simp: grows_def)

lemma grows_write: "on_conn (AsyncWrite env m cl) s = Some s' \<Longrightarrow> grows s s'"
  by (auto simp: on_conn_def grows_def dest!: AsyncWrite_Some(1))

lemma grows_DoSendTo: "session_DoSendTo env m timeout s = Some s' \<Longrightarrow> grows s s'"
  by (auto simp: session_DoSendTo_def DoSendRequest_def owner_OnRead_def Let_def grows_def
      dest!: grows_write split: if_splits Option.bind_splits)

lemma grows_clean_history: "grows s (clean_history ts s)"
proof (induction ts s rule: clean_history.induct)
  case (2 k t ts s)
  have "grows s (reply_error ERROR_REPLY_CLOSE (rt_msg t) (semit (TimerStop (ReqTimer (nm_addr (rt_msg t)))) s))"
    by (rule grows_trans [OF grows_semit grows_reply_error])
  from grows_trans [OF this 2] show ?case by simp
qed (simp add: grows_same)

lemma grows_clean_waiting: "grows s (clean_waiting ws s)"
proof (induction ws s rule: clean_waiting.induct)
  case (2 m t ws s)
  from grows_trans [OF grows_reply_error 2] show ?case by simp
qed (simp add: grows_same)

lemma grows_Clean: "grows s (CleanRequestAndCallBack s)"
  using grows_trans [OF grows_clean_history grows_clean_waiting] by (simp add: CleanRequestAndCallBack_def Let_def)

lemma grows_deal_waiting: "deal_waiting env ws s = Some s' \<Longrightarrow> grows s s'"
proof (induction env ws s rule: deal_waiting.induct)
  case (2 env m t ws s)
  define s0 where "s0 = s\<lparr>ss_waiting := ws\<rparr>"
  define X where "X = (if ss_status s0 = S_CONNECTED then session_DoSendTo env m t s0
        else Some (reply_error ERROR_REPLY_CLOSE m s0))"
  have "X \<bind> deal_waiting env ws = Some s'" using 2(2) by (auto simp: X_def s0_def Let_def split: if_splits)
  then obtain s1 where s1: "X = Some s1" and r: "deal_waiting env ws s1 = Some s'"
    by (auto split: Option.bind_splits)
  have "grows s0 s1" using s1 grows_DoSendTo by (auto simp: X_def split: if_splits)
  then have "grows s s1" by (simp add: grows_def s0_def)
  with 2(1) [OF s0_def s1 [unfolded X_def] r] show ?case by (rule grows_trans [rotated])
qed simp

lemma grows_ConnectResult:
  assumes "ConnectResult env r s = Some s'" shows "grows s s'"
proof -
  define s1 where "s1 = (if r = 0 then
           let a = SetStatus S_CONNECTED s;
               b = (if ss_heartbeat a > 0 \<and> \<not> ss_timer_heartbeat a
                    then semit (TimerStart HeartTimer (nat (max 1000 (ss_heartbeat a)))) (a\<lparr>ss_timer_heartbeat := True\<rparr>)
                    else a)
           in if ss_timer_reconn b then semit (TimerStop ReconnTimer) b else b
         else if ss_autoreconnect s then start_reconnect s else s)"
  have d: "deal_waiting env (ss_waiting (session_OnConnected s1)) (session_OnConnected s1) = Some s'"
    using assms by (simp add: ConnectResult_def DealWaitingList_def s1_def Let_def)
  have "grows s s1" by (auto simp: s1_def Let_def start_reconnect_def grows_def)
  moreover have "grows s1 (session_OnConnected s1)" by (simp add: session_OnConnected_def)
  ultimately show ?thesis using grows_deal_waiting [OF d] grows_trans by blast
qed

lemma grows_OnPeerClose: "grows s (session_OnPeerClose s)"
  using grows_Clean [of "SetStatus S_CLOSED s"]
  by (auto simp: session_OnPeerClose_def Let_def start_reconnect_def grows_def)

lemma grows_conn_OnPeerClose: "grows s (conn_OnPeerClose s)"
  using grows_OnPeerClose [of "s\<lparr>ss_conn := (ss_conn s)\<lparr>cn_dealing := False\<rparr>\<rparr>"]
  by (auto simp: conn_OnPeerClose_def Let_def grows_def SetOwner_def)

lemma grows_Close: "grows s (session_Close s)"
proof -
  define s0 where "s0 = s\<lparr>ss_conn := SetOwner False (ss_conn s), ss_owner := False\<rparr>"
  have "grows s0 (conn_OnPeerClose (CleanRequestAndCallBack (SetStatus S_CLOSED s0)))"
    using grows_trans [OF grows_Clean grows_conn_OnPeerClose, of "SetStatus S_CLOSED s0"] by (simp add: grows_def)
  then show ?thesis by (auto simp: session_Close_def Let_def s0_def grows_def SetOwner_def)
qed

lemma pending_erase_sub:
  assumes "mm_find k (ss_history s) = Some t"
  shows "pending (s\<lparr>ss_history := mm_erase k (ss_history s)\<rparr>) \<subseteq># pending s"
  unfolding pending_history_erase [OF assms, symmetric] by simp

lemma base_OnRead_cases:
  assumes "base_OnRead env m s = Some s'" and "\<not> nm_isheartbeat m"
  shows "(pending s' = pending s \<and> ss_history s' = ss_history s)
    \<or> (\<exists>t. mm_find (GetSequenceId m) (ss_history s) = Some t
        \<and> ss_history s' = mm_erase (GetSequenceId m) (ss_history s) \<and> ss_waiting s' = ss_waiting s)"
proof (cases "nm_direction m = E_Response")
  case False
  with assms show ?thesis by (auto simp: base_OnRead_def Let_def split: if_splits)
next
  case True
  define s1 where "s1 = (if IsOk m then SetStatus S_CONNECTED s else s)"
  have s1: "pending s1 = pending s" "ss_history s1 = ss_history s" "ss_waiting s1 = ss_waiting s"
    by (simp_all add: s1_def)
  show ?thesis
  proof (cases "mm_find (GetSequenceId m) (ss_history s)")
    case None
    with assms True s1 have "s' = semit (EvDelete m) s1" by (simp add: base_OnRead_def Let_def s1_def [symmetric])
    with s1 show ?thesis by simp
  next
    case (Some t)
    define s2 where "s2 = semit (TimerStop (ReqTimer (nm_addr (rt_msg t)))) (semit (EvDelete (rt_msg t)) s1)"
    define s3 where "s3 = s2\<lparr>ss_history := mm_erase (GetSequenceId m) (ss_history s2)\<rparr>"
    let ?m = "nm_set_ctx (nm_ctx (rt_msg t)) m"
    have "s' = (if ss_owner s3 then semit (EvRead ?m) (SetStatus S_CONNECTED s3) else semit (EvDelete ?m) s3)"
      using assms True Some s1(2) by (auto simp: base_OnRead_def Let_def s1_def [symmetric] s2_def [symmetric] s3_def [symmetric])
    then have "ss_history s' = ss_history s3" "ss_waiting s' = ss_waiting s3" by simp_all
    with Some s1 show ?thesis by (simp add: s3_def s2_def)
  qed
qed

lemma base_OnRead_pending:
  assumes "base_OnRead env m s = Some s'" and "\<not> nm_isheartbeat m"
  shows "pending s' \<subseteq># pending s"
  using base_OnRead_cases [OF assms]
proof
  assume "\<exists>t. mm_find (GetSequenceId m) (ss_history s) = Some t
        \<and> ss_history s' = mm_erase (GetSequenceId m) (ss_history s) \<and> ss_waiting s' = ss_waiting s"
  then obtain t where t: "mm_find (GetSequenceId m) (ss_history s) = Some t"
    "ss_history s' = mm_erase (GetSequenceId m) (ss_history s)" "ss_waiting s' = ss_waiting s" by blast
  have "pending s' = pending (s\<lparr>ss_history := mm_erase (GetSequenceId m) (ss_history s)\<rparr>)"
    by (simp add: pending_def t)
  with pending_erase_sub [OF t(1)] show ?thesis by simp
qed simp

section \<open>Conservation over a whole run\<close>

lemma conserved_subset:
  assumes "pending s' + settled (strace s') = pending s + settled (strace s)" "grows s s'"
  shows "pending s' \<subseteq># pending s"
proof -
  obtain D where "settled (strace s') = settled (strace s) + D"
    using grows_settled [OF assms(2)] by (auto simp: subset_mset.le_iff_add)
  then have "pending s' + D = pending s" using assms(1) by (simp add: ac_simps)
  then show ?thesis by (metis mset_subset_eq_add_left)
qed

definition keys_ok :: "session \<Rightarrow> bool" where
  "keys_ok s \<longleftrightarrow> (\<forall>e\<in>set (ss_history s). fst e = GetSequenceId (rt_msg (snd e)))"

definition distinct_seqs :: "session \<Rightarrow> bool" where
  \<comment> \<open>no two outstanding messages have the same sequence number\<close>
  "distinct_seqs s \<longleftrightarrow> (\<forall>k. count (image_mset snd (pending s)) k \<le> 1)"

lemma distinct_seqs_sub: "distinct_seqs s \<Longrightarrow> pending s' \<subseteq># pending s \<Longrightarrow> distinct_seqs s'"
  unfolding distinct_seqs_def by (meson image_mset_subseteq_mono le_trans mset_subset_eq_count)

lemma distinct_seqs_add:
  assumes "distinct_seqs s" "pending s' \<subseteq># add_mset (a, k) (pending s)" "k \<notin># image_mset snd (pending s)"
  shows "distinct_seqs s'"
  unfolding distinct_seqs_def
proof
  fix j
  have "count (image_mset snd (pending s')) j \<le> count (image_mset snd (add_mset (a, k) (pending s))) j"
    using assms(2) by (intro mset_subset_eq_count image_mset_subseteq_mono)
  also have "\<dots> \<le> 1"
    using assms(1,3) by (auto simp: distinct_seqs_def count_eq_zero_iff)
  finally show "count (image_mset snd (pending s')) j \<le> 1" .
qed

lemma mset_mm_insert_set: "set (mm_insert k v t) = insert (k, v) (set t)"
  by (metis mm.entries_ins set_mset_add_mset_insert set_mset_mset)

lemma set_mm_erase: "set (mm_erase k t) \<subseteq> set t"
  by (induction k t rule: mm_erase.induct) auto

lemma keys_ok_conn [simp]: "keys_ok (semit e s) = keys_ok s" "keys_ok (SetStatus st s) = keys_ok s"
  "keys_ok (s\<lparr>ss_conn := c\<rparr>) = keys_ok s" "keys_ok (reply_error n m s) = keys_ok s"
  "keys_ok (s\<lparr>ss_waiting := w\<rparr>) = keys_ok s"
  by (simp_all add: keys_ok_def)

lemma keys_ok_write: "on_conn (AsyncWrite env x c) a = Some b \<Longrightarrow> keys_ok a \<Longrightarrow> keys_ok b"
  by (auto simp: on_conn_def)

lemma keys_ok_insert:
  "keys_ok s \<Longrightarrow> k = GetSequenceId (rt_msg t) \<Longrightarrow> keys_ok (s\<lparr>ss_history := mm_insert k t (ss_history s)\<rparr>)"
  by (simp add: keys_ok_def mset_mm_insert_set)

lemma keys_ok_DoSendTo:
  assumes "session_DoSendTo env m timeout s = Some s'" "keys_ok s" shows "keys_ok s'"
proof -
  let ?m = "nm_set_connid (cn_id (ss_conn s)) m"
  consider (wait) "ss_status s = S_CONNECTING \<or> ss_status s = S_WAITING"
    | (req) "DoSendRequest env ?m timeout s = Some s'"
    | (other) "\<not> (ss_status s = S_CONNECTING \<or> ss_status s = S_WAITING)" "nm_direction ?m \<noteq> E_Request"
    using assms(1) by (cases "ss_status s = S_CONNECTING \<or> ss_status s = S_WAITING"; cases "nm_direction ?m = E_Request")
      (auto simp: session_DoSendTo_def Let_def)
  then show ?thesis
  proof cases
    case wait
    with assms show ?thesis by (auto simp: session_DoSendTo_def Let_def)
  next
    case req
    show ?thesis
    proof (cases "ss_status s = S_CONNECTED")
      case False
      with req assms(2) show ?thesis by (auto simp: DoSendRequest_def owner_OnRead_def split: if_splits)
    next
      case True
      define t where "t = \<lparr>rt_msg = ?m, rt_interval = nat (timeout mod 2 ^ 32), rt_status = TS_TIME_OUT\<rparr>"
      define s1 where "s1 = semit (TimerStart (ReqTimer (nm_addr ?m)) (nat (timeout mod 2 ^ 32))) s"
      from req True have "on_conn (AsyncWrite env ?m False)
          (s1\<lparr>ss_history := mm_insert (GetSequenceId ?m) t (ss_history s1)\<rparr>) = Some s'"
        by (simp add: DoSendRequest_def Let_def t_def s1_def)
      from keys_ok_write [OF this keys_ok_insert] show ?thesis using assms(2) by (simp add: t_def s1_def)
    qed
  next
    case other
    with assms(1) obtain s1 where s1: "on_conn (AsyncWrite env ?m False) s = Some s1" "s' = semit (EvDelete ?m) s1"
      by (auto simp: session_DoSendTo_def Let_def split: Option.bind_splits)
    with keys_ok_write [OF s1(1) assms(2)] show ?thesis by simp
  qed
qed

lemma keys_ok_empty: "ss_history s = [] \<Longrightarrow> keys_ok s"
  by (simp add: keys_ok_def)

lemma keys_ok_erase: "keys_ok s \<Longrightarrow> keys_ok (s\<lparr>ss_history := mm_erase k (ss_history s)\<rparr>)"
  using set_mm_erase [of k "ss_history s"] by (auto simp: keys_ok_def)

lemma keys_ok_deal_waiting: "deal_waiting env ws s = Some s' \<Longrightarrow> keys_ok s \<Longrightarrow> keys_ok s'"
proof (induction env ws s rule: deal_waiting.induct)
  case (2 env m t ws s)
  define s0 where "s0 = s\<lparr>ss_waiting := ws\<rparr>"
  define X where "X = (if ss_status s0 = S_CONNECTED then session_DoSendTo env m t s0
        else Some (reply_error ERROR_REPLY_CLOSE m s0))"
  have "X \<bind> deal_waiting env ws = Some s'" using 2(2) by (auto simp: X_def s0_def Let_def split: if_splits)
  then obtain s1 where s1: "X = Some s1" and r: "deal_waiting env ws s1 = Some s'"
    by (auto split: Option.bind_splits)
  have "keys_ok s0" using 2(3) by (simp add: s0_def)
  then have "keys_ok s1" using s1 keys_ok_DoSendTo by (auto simp: X_def split: if_splits)
  with 2(1) [OF s0_def s1 [unfolded X_def] r] show ?case .
qed simp

lemma keys_ok_ConnectResult: "ConnectResult env r s = Some s' \<Longrightarrow> keys_ok s \<Longrightarrow> keys_ok s'"
  unfolding ConnectResult_def DealWaitingList_def Let_def
  by (erule keys_ok_deal_waiting)
    (auto simp: session_OnConnected_def start_reconnect_def keys_ok_def)

lemma keys_ok_base_OnRead:
  assumes "base_OnRead env m s = Some s'" "\<not> nm_isheartbeat m" "keys_ok s" shows "keys_ok s'"
  using base_OnRead_cases [OF assms(1,2)] assms(3) set_mm_erase [of "GetSequenceId m" "ss_history s"]
  by (auto simp: keys_ok_def)

lemma keys_ok_DoRequestTimeOut: "keys_ok s \<Longrightarrow> keys_ok (DoRequestTimeOut m s)"
  using set_mm_erase [of "GetSequenceId m" "ss_history s"]
  by (auto simp: DoRequestTimeOut_def Let_def keys_ok_def split: option.splits)

lemma history_OnPeerClose: "ss_history (session_OnPeerClose s) = []"
  by (simp add: session_OnPeerClose_def Let_def start_reconnect_def Clean_effect)

lemma keys_ok_conn_OnPeerClose: "keys_ok s \<Longrightarrow> keys_ok (conn_OnPeerClose s)"
  by (auto simp: conn_OnPeerClose_def Let_def keys_ok_def history_OnPeerClose)

lemma keys_ok_Close: "keys_ok s \<Longrightarrow> keys_ok (session_Close s)"
proof -
  assume "keys_ok s"
  then have k: "keys_ok (s\<lparr>ss_conn := SetOwner False (ss_conn s), ss_owner := False\<rparr>)" by (simp add: keys_ok_def)
  have "keys_ok (CleanRequestAndCallBack x)" for x by (simp add: keys_ok_empty Clean_effect)
  with k show ?thesis by (simp add: session_Close_def Let_def keys_ok_conn_OnPeerClose)
qed

lemma find_own_entry:
  assumes "distinct_seqs s" "keys_ok s" "(k, t) \<in> set (ss_history s)"
  shows "mm_find (GetSequenceId (rt_msg t)) (ss_history s) = Some t"
proof -
  have k: "k = GetSequenceId (rt_msg t)" using assms(2,3) by (force simp: keys_ok_def)
  have "mm_find k (ss_history s) \<noteq> None" using assms(3) mm.look_none [of k "ss_history s"] by force
  then obtain t' where t': "mm_find k (ss_history s) = Some t'" by auto
  have "t' = t"
  proof (rule ccontr)
    assume ne: "t' \<noteq> t"
    define rest where "rest = mset (ss_history s) - {#(k, t')#}"
    have m: "mset (ss_history s) = add_mset (k, t') rest" using mm.look_in [OF t'] by (simp add: rest_def)
    have "(k, t) \<in># mset (ss_history s)" using assms(3) by simp
    with ne have "(k, t) \<in># rest" unfolding m by auto
    then obtain rest2 where "rest = add_mset (k, t) rest2" by (metis multi_member_split)
    moreover have "GetSequenceId (rt_msg t') = k"
      using assms(2) mm.look_in [OF t'] by (force simp: keys_ok_def)
    ultimately have "2 \<le> count (image_mset snd (pending s)) k"
      using m k by (simp add: pending_def tag_def)
    then show False using assms(1)[unfolded distinct_seqs_def, rule_format, of k] by simp
  qed
  with t' k show ?thesis by simp
qed

text \<open>
  The runs of a session, with the messages that it has taken over so far: those its user sent and
  those its parser decoded.
\<close>

inductive session_run :: "net_env \<Rightarrow> session \<Rightarrow> (nat \<times> u32) multiset \<Rightarrow> bool" for env where
  run_init: "session_Init env http pro True reconnect hb mark addr = Some s \<Longrightarrow> session_run env s {#}"
| run_send: "session_run env s A \<Longrightarrow> GetSequenceId m \<notin># image_mset snd (pending s) \<Longrightarrow>
    session_DoSendTo env m timeout s = Some s' \<Longrightarrow> session_run env s' (add_mset (tag m) A)"
| run_read: "session_run env s A \<Longrightarrow> \<not> nm_isheartbeat m \<Longrightarrow> base_OnRead env m s = Some s' \<Longrightarrow>
    session_run env s' (add_mset (tag m) A)"
| run_timeout: "session_run env s A \<Longrightarrow> (k, t) \<in> set (ss_history s) \<Longrightarrow>
    session_run env (DoRequestTimeOut (rt_msg t) s) A"
| run_connected: "session_run env s A \<Longrightarrow> ConnectResult env r s = Some s' \<Longrightarrow> session_run env s' A"
| run_peer_close: "session_run env s A \<Longrightarrow> session_run env (conn_OnPeerClose s) A"
| run_close: "session_run env s A \<Longrightarrow> session_run env (session_Close s) A"

lemma run_invariant:
  assumes "session_run env s A"
  shows "pending s + settled (strace s) = A \<and> keys_ok s \<and> distinct_seqs s"
  using assms
proof induction
  case (run_init http pro reconnect hb mark addr s)
  then have "ss_history s = []" "ss_waiting s = []" "strace s = []"
    by (auto simp: session_Init_def connection_new_def split: Option.bind_splits)
  then show ?case by (simp add: pending_def keys_ok_def distinct_seqs_def)
next
  case (run_send s A m timeout s')
  have eq: "pending s' + settled (strace s') = add_mset (tag m) A"
    using DoSendTo_conserves [OF run_send(3)] run_send(4) by simp
  obtain D where "settled (strace s') = settled (strace s) + D"
    using grows_settled [OF grows_DoSendTo [OF run_send(3)]] by (auto simp: subset_mset.le_iff_add)
  then have "(pending s' + D) + settled (strace s) = add_mset (tag m) (pending s) + settled (strace s)"
    using eq run_send(4) by (simp add: ac_simps)
  then have "pending s' + D = add_mset (tag m) (pending s)" by (rule add_right_imp_eq)
  then have "pending s' \<subseteq># add_mset (tag m) (pending s)" by (metis mset_subset_eq_add_left)
  then have "distinct_seqs s'"
    using run_send(2,4) by (intro distinct_seqs_add [of s s' "nm_addr m" "GetSequenceId m"]) (simp_all add: tag_def)
  with eq keys_ok_DoSendTo [OF run_send(3)] run_send(4) show ?case by simp
next
  case (run_read s A m s')
  show ?case
    using base_OnRead_conserves [OF run_read(3,2)] base_OnRead_pending [OF run_read(3,2)]
      keys_ok_base_OnRead [OF run_read(3,2)] distinct_seqs_sub run_read(4) by auto
next
  case (run_timeout s A k t)
  have f: "mm_find (GetSequenceId (rt_msg t)) (ss_history s) = Some t"
    using find_own_entry run_timeout by blast
  have "pending (DoRequestTimeOut (rt_msg t) s) \<subseteq># pending s"
    by (rule conserved_subset [OF DoRequestTimeOut_conserves [OF f refl]]) (simp add: DoRequestTimeOut_def Let_def f grows_def)
  then show ?case
    using DoRequestTimeOut_conserves [OF f refl] keys_ok_DoRequestTimeOut distinct_seqs_sub run_timeout by auto
next
  case (run_connected s A r s')
  have "pending s' \<subseteq># pending s"
    by (rule conserved_subset [OF ConnectResult_conserves grows_ConnectResult]) (use run_connected in auto)
  then show ?case
    using ConnectResult_conserves keys_ok_ConnectResult distinct_seqs_sub run_connected by auto
next
  case (run_peer_close s A)
  have "pending (conn_OnPeerClose s) \<subseteq># pending s"
    by (rule conserved_subset [OF conn_OnPeerClose_conserves grows_conn_OnPeerClose])
  then show ?case
    using conn_OnPeerClose_conserves keys_ok_conn_OnPeerClose distinct_seqs_sub run_peer_close by auto
next
  case (run_close s A)
  have "pending (session_Close s) \<subseteq># pending s"
    by (rule conserved_subset [OF session_Close_conserves grows_Close])
  then show ?case
    using session_Close_conserves keys_ok_Close distinct_seqs_sub run_close by auto
qed

end
