(* ===== verification/SessionScenarios.thy ===== *)
theory SessionScenarios
  imports SessionFacts
begin

text \<open>
  What sessions do in particular situations: a reply finds its request; two outstanding HTTP requests;
  a connect that fails or times out; two writes in a row.
\<close>

section \<open>A reply goes to the request it answers\<close>

lemma base_OnRead_response:
  assumes "nm_direction r = E_Response" "\<not> nm_isheartbeat r" "ss_owner s"
    and "mm_find (GetSequenceId r) (ss_history s) = Some t"
  shows "\<exists>s'. session_OnRead env r s = Some s' \<and> ss_status s' = S_CONNECTED
    \<and> strace s' = strace s @ [EvDelete (rt_msg t), TimerStop (ReqTimer (nm_addr (rt_msg t))),
                              EvRead (nm_set_ctx (nm_ctx (rt_msg t)) r)]
    \<and> ss_history s' = mm_erase (GetSequenceId r) (ss_history s) \<and> ss_waiting s' = ss_waiting s"
proof -
  define s1 where "s1 = (if IsOk r then SetStatus S_CONNECTED s else s)"
  have s1: "ss_history s1 = ss_history s" "ss_conn s1 = ss_conn s" "ss_owner s1" "ss_waiting s1 = ss_waiting s"
    using assms(3) by (simp_all add: s1_def)
  define s2 where "s2 = semit (TimerStop (ReqTimer (nm_addr (rt_msg t)))) (semit (EvDelete (rt_msg t)) s1)"
  define s3 where "s3 = s2\<lparr>ss_history := mm_erase (GetSequenceId r) (ss_history s2)\<rparr>"
  let ?r = "nm_set_ctx (nm_ctx (rt_msg t)) r"
  have o: "ss_owner s3" using s1 by (simp add: s3_def s2_def)
  have "base_OnRead env r s = Some (semit (EvRead ?r) (SetStatus S_CONNECTED s3))"
    using assms(1,2,4) s1(1) o by (simp add: base_OnRead_def Let_def s1_def [symmetric] s2_def [symmetric] s3_def [symmetric])
  moreover have "session_OnRead env r s = base_OnRead env r s" using assms(1) by (cases r) simp_all
  moreover have "strace s3 = strace s @ [EvDelete (rt_msg t), TimerStop (ReqTimer (nm_addr (rt_msg t)))]"
    by (simp add: s3_def s2_def s1 semit_def emit_def)
  moreover have "ss_history s3 = mm_erase (GetSequenceId r) (ss_history s)" "ss_waiting s3 = ss_waiting s"
    by (simp_all add: s3_def s2_def s1)
  ultimately show ?thesis by simp
qed

text \<open>
  C11. In a run, a response whose sequence number is that of an outstanding request ends this request: the
  kept request is deleted, its timer stopped, and the owner gets the response with the context of
  that request; the other entries of the table stay.
\<close>

theorem response_reaches_its_request:
  assumes "session_run env s A" "(k, t) \<in> set (ss_history s)" "ss_owner s"
    and "nm_direction r = E_Response" "\<not> nm_isheartbeat r" "GetSequenceId r = GetSequenceId (rt_msg t)"
  shows "\<exists>s'. session_OnRead env r s = Some s' \<and> ss_status s' = S_CONNECTED
    \<and> strace s' = strace s @ [EvDelete (rt_msg t), TimerStop (ReqTimer (nm_addr (rt_msg t))),
                              EvRead (nm_set_ctx (nm_ctx (rt_msg t)) r)]
    \<and> mset (ss_history s') = mset (ss_history s) - {#(k, t)#}"
proof -
  have i: "keys_ok s" "distinct_seqs s" using run_invariant [OF assms(1)] by auto
  have f: "mm_find (GetSequenceId r) (ss_history s) = Some t"
    using find_own_entry [OF i(2,1) assms(2)] assms(6) by simp
  have k: "k = GetSequenceId r" using i(1) assms(2,6) by (force simp: keys_ok_def)
  from base_OnRead_response [OF assms(4,5,3) f] mm.entries_del [OF f] show ?thesis
    by (simp add: k) metis
qed

lemma sample_thrift_session:
  "\<exists>s. session_Init sample_net False E_PROTOCOL_THRIFT True False 0 0 0 = Some s \<and> ss_status s = S_WAITING
    \<and> ss_waiting s = [] \<and> ss_history s = [] \<and> ss_owner s \<and> ss_heartbeat s = 0 \<and> \<not> ss_timer_reconn s
    \<and> \<not> cn_connected (ss_conn s)"
proof -
  have p: "CreateParser factories_init E_PROTOCOL_THRIFT = Some ThriftParser"
    by (simp add: CreateParser_def factories_init_def RegisterFactory_def)
  obtain c where c: "connection_new sample_net E_PROTOCOL_THRIFT 0 0 = Some c" "\<not> cn_connected c"
    using p by (auto simp: connection_new_def)
  then show ?thesis by (auto simp: session_Init_def)
qed

lemma sample_call_run:
  "\<exists>s t. session_run sample_net s {#(7, 1)#} \<and> (1, t) \<in> set (ss_history s) \<and> ss_owner s \<and> GetSequenceId (rt_msg t) = 1"
proof -
  obtain s0 where s0: "session_Init sample_net False E_PROTOCOL_THRIFT True False 0 0 0 = Some s0"
    "ss_status s0 = S_WAITING" "ss_waiting s0 = []" "ss_history s0 = []" "ss_owner s0" "ss_heartbeat s0 = 0"
    "\<not> ss_timer_reconn s0" "\<not> cn_connected (ss_conn s0)"
    using sample_thrift_session by blast
  define s1 where "s1 = semit EvConnected (SetStatus S_CONNECTED s0)"
  have s1: "ss_status s1 = S_CONNECTED" "ss_waiting s1 = []" "ss_history s1 = []" "ss_owner s1" "\<not> cn_connected (ss_conn s1)"
    by (simp_all add: s1_def s0)
  have "ConnectResult sample_net 0 s0 = Some s1"
    by (simp add: ConnectResult_def session_OnConnected_def DealWaitingList_def s0 s1_def)
  with run_connected [OF run_init [OF s0(1)]] have 1: "session_run sample_net s1 {#}" by blast
  define m where "m = nm_set_connid (cn_id (ss_conn s1)) (sample_call 7 1)"
  define t where "t = \<lparr>rt_msg = m, rt_interval = 50, rt_status = TS_TIME_OUT\<rparr>"
  define s2 where "s2 = (semit (TimerStart (ReqTimer (nm_addr m)) 50) s1)\<lparr>ss_history := [(1, t)]\<rparr>"
  have m: "GetSequenceId m = 1" "nm_direction m = E_Request" "tag (sample_call 7 1) = (7, 1)"
    by (simp_all add: m_def sample_call_def sthrift_message_new_def tag_def)
  have w: "on_conn (AsyncWrite sample_net m False) s2 = Some s2"
    using s1(5) by (simp add: on_conn_def AsyncWrite_def s2_def)
  have "session_DoSendTo sample_net (sample_call 7 1) 50 s1 = Some s2"
    using w by (simp add: session_DoSendTo_def s1 m_def [symmetric] m DoSendRequest_def Let_def s2_def t_def)
  from run_send [OF 1 _ this] have "session_run sample_net s2 {#(7, 1)#}" by (simp add: m s1 pending_def)
  then show ?thesis using s1 m by (intro exI [of _ s2] exI [of _ t]) (simp add: s2_def t_def)
qed

theorem response_reaches_its_request_witness:
  "\<exists>s (t :: req_timer) s'. session_OnRead sample_net (ThriftMsg ((sthrift_message_new 9)\<lparr>seqid := 1, direction := E_Response\<rparr>)) s = Some s'
    \<and> ss_history s \<noteq> []
    \<and> strace s' = strace s @ [EvDelete (rt_msg t), TimerStop (ReqTimer (nm_addr (rt_msg t))),
        EvRead (nm_set_ctx (nm_ctx (rt_msg t)) (ThriftMsg ((sthrift_message_new 9)\<lparr>seqid := 1, direction := E_Response\<rparr>)))]"
proof -
  let ?r = "ThriftMsg ((sthrift_message_new 9)\<lparr>seqid := 1, direction := E_Response\<rparr>)"
  have r: "nm_direction ?r = E_Response" "\<not> nm_isheartbeat ?r" "GetSequenceId ?r = 1" by (simp_all add: sthrift_message_new_def)
  obtain s t where st: "session_run sample_net s {#(7, 1)#}" "(1, t) \<in> set (ss_history s)" "ss_owner s" "GetSequenceId (rt_msg t) = 1"
    using sample_call_run by blast
  have "GetSequenceId ?r = GetSequenceId (rt_msg t)" using r(3) st(4) by (rule trans [OF _ sym])
  from response_reaches_its_request [OF st(1-3) r(1,2) this] obtain s' where s': "session_OnRead sample_net ?r s = Some s'"
    "strace s' = strace s @ [EvDelete (rt_msg t), TimerStop (ReqTimer (nm_addr (rt_msg t))), EvRead (nm_set_ctx (nm_ctx (rt_msg t)) ?r)]"
    by (elim exE conjE)
  have "ss_history s \<noteq> []" using st(2) by auto
  with s' show ?thesis by (intro exI [of _ s] exI [of _ t] exI [of _ s'] conjI)
qed

lemma sample_http_session:
  "\<exists>s. session_Init sample_net True E_PROTOCOL_HTTP True False 0 0 0 = Some s \<and> ss_waiting s = [] \<and> strace s = []
    \<and> ss_owner s \<and> ss_http s \<and> ss_deque s = [] \<and> cn_kind (ss_conn s) = HttpParser \<and> ss_status s = S_WAITING"
proof -
  have p: "CreateParser factories_init E_PROTOCOL_HTTP = Some HttpParser"
    by (simp add: CreateParser_def factories_init_def RegisterFactory_def)
  obtain c where c: "connection_new sample_net E_PROTOCOL_HTTP 0 0 = Some c" "cn_trace c = []" "cn_kind c = HttpParser"
    using p by (auto simp: connection_new_def)
  then show ?thesis by (auto simp: session_Init_def)
qed

section \<open>HTTP: every request has the sequence number 0\<close>

text \<open>
  C15. Two requests are outstanding on an HTTP session, so both have the sequence number 0. When the second
  one times out, the owner gets it, but the entry of the first is erased: the first request is neither
  answered nor deleted. The next response then ends the entry of the second request and deletes
  this message, which the owner has already got.
\<close>

theorem http_timeout_ends_the_wrong_request:
  assumes "ss_history s = [(0, t1), (0, t2)]" "ss_waiting s = []" "ss_owner s"
    and "rt_msg t1 = HttpMsg q1" "rt_msg t2 = HttpMsg q2" "rt_status t1 = TS_TIME_OUT"
    and "direction r = E_Response" "\<not> isheartbeat r"
  shows "\<exists>b. session_OnRead env (HttpMsg r) (DoRequestTimeOut (HttpMsg q2) s) = Some b
    \<and> strace b = strace s @ [EvRead (HttpMsg (SetReply ERROR_REPLY_TIMEOUT q2)), EvDelete (HttpMsg q2),
                             TimerStop (ReqTimer (ev_addr q2)), EvRead (HttpMsg (r\<lparr>ctx := ctx q2\<rparr>))]
    \<and> pending b = {#}"
proof -
  define a where "a = (semit (EvRead (HttpMsg (SetReply ERROR_REPLY_TIMEOUT q2))) s)\<lparr>ss_history := [(0, t2)]\<rparr>"
  have a: "DoRequestTimeOut (HttpMsg q2) s = a"
    using assms by (simp add: DoRequestTimeOut_def a_def)
  have "mm_find (GetSequenceId (HttpMsg r)) (ss_history a) = Some t2" "ss_owner a" using assms by (simp_all add: a_def)
  with base_OnRead_response [of "HttpMsg r" a t2 env] assms show ?thesis
    by (auto simp: a pending_def) (auto simp: a_def)
qed

definition sample_pair :: "session \<Rightarrow> session" where
  "sample_pair s = s\<lparr>ss_history :=
     [(0, \<lparr>rt_msg = HttpMsg (shttp_message_new 1), rt_interval = 90, rt_status = TS_TIME_OUT\<rparr>),
      (0, \<lparr>rt_msg = HttpMsg (shttp_message_new 2), rt_interval = 50, rt_status = TS_TIME_OUT\<rparr>)]\<rparr>"

theorem http_timeout_ends_the_wrong_request_witness:
  "\<exists>s b. map (nm_addr \<circ> rt_msg \<circ> snd) (ss_history s) = [1, 2]
    \<and> session_OnRead sample_net (HttpMsg (SetReply 200 (shttp_message_new 3))) (DoRequestTimeOut (HttpMsg (shttp_message_new 2)) s) = Some b
    \<and> settled (strace b) = {#(2, 0), (2, 0), (3, 0)#} \<and> pending b = {#}"
proof -
  obtain s0 where s0: "session_Init sample_net True E_PROTOCOL_HTTP True False 0 0 0 = Some s0"
    "ss_waiting s0 = []" "strace s0 = []" "ss_owner s0"
    using sample_http_session by blast
  let ?s = "sample_pair s0"
  have "strace ?s = []" using s0 by (simp add: sample_pair_def)
  have "\<exists>b. session_OnRead sample_net (HttpMsg (SetReply 200 (shttp_message_new 3)))
        (DoRequestTimeOut (HttpMsg (shttp_message_new 2)) ?s) = Some b
    \<and> strace b = strace ?s @ [EvRead (HttpMsg (SetReply ERROR_REPLY_TIMEOUT (shttp_message_new 2))), EvDelete (HttpMsg (shttp_message_new 2)),
        TimerStop (ReqTimer (ev_addr (shttp_message_new 2))), EvRead (HttpMsg (SetReply 200 (shttp_message_new 3)\<lparr>ctx := ctx (shttp_message_new 2)\<rparr>))]
    \<and> pending b = {#}"
    by (rule http_timeout_ends_the_wrong_request
          [where ?t1.0 = "snd (ss_history ?s ! 0)" and ?t2.0 = "snd (ss_history ?s ! 1)" and ?q1.0 = "shttp_message_new 1"])
      (simp_all add: sample_pair_def s0, simp_all add: shttp_message_new_def SetReply_def)
  then obtain b where b: "session_OnRead sample_net (HttpMsg (SetReply 200 (shttp_message_new 3)))
        (DoRequestTimeOut (HttpMsg (shttp_message_new 2)) ?s) = Some b" "pending b = {#}"
      "strace b = [EvRead (HttpMsg (SetReply ERROR_REPLY_TIMEOUT (shttp_message_new 2))), EvDelete (HttpMsg (shttp_message_new 2)),
        TimerStop (ReqTimer (ev_addr (shttp_message_new 2))), EvRead (HttpMsg (SetReply 200 (shttp_message_new 3)\<lparr>ctx := ctx (shttp_message_new 2)\<rparr>))]"
    using \<open>strace ?s = []\<close> by auto
  have "settled (strace b) = {#(2, 0), (2, 0), (3, 0)#}"
    by (simp add: b(3) settled_def tag_def shttp_message_new_def SetReply_def)
  moreover have "map (nm_addr \<circ> rt_msg \<circ> snd) (ss_history ?s) = [1, 2]"
    by (simp add: sample_pair_def shttp_message_new_def)
  ultimately show ?thesis using b(1,2) by (intro exI [of _ ?s] exI [of _ b] conjI)
qed

section \<open>Connecting\<close>

text \<open>What a user and the reconnect timer can still do: connect again, or send.\<close>

fun later_calls :: "net_env \<Rightarrow> (net_msg \<times> int) option list \<Rightarrow> session \<Rightarrow> session option" where
  "later_calls env [] s = Some s"
| "later_calls env (None # cs) s = DoConnect env s \<bind> later_calls env cs"
| "later_calls env (Some (m, t) # cs) s = session_DoSendTo env m t s \<bind> later_calls env cs"

lemma later_calls_connecting:
  "ss_status s = S_CONNECTING \<Longrightarrow> \<exists>s'. later_calls env cs s = Some s' \<and> ss_status s' = S_CONNECTING
    \<and> strace s' = strace s \<and> length (ss_waiting s') = length (ss_waiting s) + length (filter (\<lambda>c. c \<noteq> None) cs)"
proof (induction cs arbitrary: s)
  case (Cons c cs)
  show ?case
  proof (cases c)
    case None
    have "DoConnect env s = Some (s\<lparr>ss_conn := SetOwner True (ss_conn s)\<rparr>)" using Cons(2) by (simp add: DoConnect_def Let_def)
    with Cons(1) [of "s\<lparr>ss_conn := SetOwner True (ss_conn s)\<rparr>"] Cons(2) None show ?thesis by (simp add: SetOwner_def)
  next
    case (Some a)
    obtain m t where a: "a = (m, t)" by (cases a)
    define s1 where "s1 = s\<lparr>ss_waiting := ss_waiting s @ [(nm_set_connid (cn_id (ss_conn s)) m, t)]\<rparr>"
    have "session_DoSendTo env m t s = Some s1" using Cons(2) by (simp add: session_DoSendTo_def s1_def)
    with Cons(1) [of s1] Cons(2) Some a show ?thesis by (simp add: s1_def)
  qed
qed simp

lemma deal_waiting_all:
  "ss_status s \<noteq> S_CONNECTED \<Longrightarrow> \<exists>s'. deal_waiting env ws s = Some s' \<and> ss_status s' = ss_status s
    \<and> (ss_waiting s = ws \<longrightarrow> ss_waiting s' = [])
    \<and> (\<exists>es. strace s' = strace s @ es \<and> EvConnected \<notin> set es)"
proof (induction ws arbitrary: s)
  case (Cons w ws)
  obtain m t where w: "w = (m, t)" by (cases w)
  define s0 where "s0 = s\<lparr>ss_waiting := ws\<rparr>"
  define s1 where "s1 = reply_error ERROR_REPLY_CLOSE m s0"
  have s1: "ss_status s1 = ss_status s" "ss_waiting s1 = ws" "\<exists>e. strace s1 = strace s @ [e] \<and> e \<noteq> EvConnected"
    by (auto simp: s1_def s0_def reply_error_def)
  have "ss_status s1 \<noteq> S_CONNECTED" using s1(1) Cons(2) by simp
  from Cons(1) [OF this] s1(2) obtain s' es where s': "deal_waiting env ws s1 = Some s'" "ss_status s' = ss_status s1"
    "ss_waiting s' = []" "strace s' = strace s1 @ es" "EvConnected \<notin> set es" by auto
  obtain e where e: "strace s1 = strace s @ [e]" "e \<noteq> EvConnected" using s1(3) by auto
  have "deal_waiting env (w # ws) s = Some s'"
    using s'(1) Cons(2) by (simp add: w s0_def [symmetric] s1_def [symmetric] Let_def) (simp add: s0_def)
  moreover have "strace s' = strace s @ (e # es)" using s'(4) e(1) by simp
  moreover have "EvConnected \<notin> set (e # es)" using s'(5) e(2) by auto
  ultimately show ?case using s'(2,3) s1(1) by metis
qed (auto simp: exI [of _ "[]"])

definition failed_start :: "session \<Rightarrow> session" where
  "failed_start s = session_OnConnected
     (if ss_autoreconnect s then start_reconnect (semit ConnTimerCancel s) else semit ConnTimerCancel s)"

lemma ConnectFinish_fail_eq:
  "r \<noteq> 0 \<Longrightarrow> cn_session (ss_conn s) \<Longrightarrow>
    ConnectFinish env r s = deal_waiting env (ss_waiting (failed_start s)) (failed_start s)"
  by (simp add: ConnectFinish_def ConnectResult_def DealWaitingList_def failed_start_def Let_def)

lemma failed_start_simps [simp]:
  "ss_status (failed_start s) = ss_status s" "ss_owner (failed_start s) = ss_owner s"
  "cn_session (ss_conn (failed_start s)) = cn_session (ss_conn s)" "ss_waiting (failed_start s) = ss_waiting s"
  by (auto simp: failed_start_def session_OnConnected_def start_reconnect_def)

lemma ConnectFinish_fails:
  assumes "r \<noteq> 0" "cn_session (ss_conn s)" "ss_status s \<noteq> S_CONNECTED" "ss_owner s"
  shows "\<exists>s1 es. ConnectFinish env r s = Some s1 \<and> ss_status s1 = ss_status s \<and> ss_waiting s1 = []
    \<and> strace s1 = strace s @ [ConnTimerCancel] @ (if ss_autoreconnect s then [TimerStart ReconnTimer RECONNECT_INTERVAL] else [])
         @ EvConnected # es \<and> EvConnected \<notin> set es"
proof -
  have "strace (failed_start s) = strace s @ [ConnTimerCancel] @ (if ss_autoreconnect s then [TimerStart ReconnTimer RECONNECT_INTERVAL] else []) @ [EvConnected]"
    using assms(4) by (auto simp: failed_start_def start_reconnect_def session_OnConnected_def)
  with deal_waiting_all [of "failed_start s" env "ss_waiting (failed_start s)"] assms(3) show ?thesis
    by (auto simp: ConnectFinish_fail_eq [OF assms(1,2)])
qed

lemma deal_waiting_keeps:
  "deal_waiting env ws s = Some s' \<Longrightarrow> ss_status s \<noteq> S_CONNECTED \<Longrightarrow>
    ss_owner s' = ss_owner s \<and> cn_session (ss_conn s') = cn_session (ss_conn s)"
proof (induction ws arbitrary: s)
  case (Cons w ws)
  obtain m t where w: "w = (m, t)" by (cases w)
  define s1 where "s1 = reply_error ERROR_REPLY_CLOSE m (s\<lparr>ss_waiting := ws\<rparr>)"
  have "deal_waiting env ws s1 = Some s'" using Cons(2,3) by (simp add: w s1_def Let_def)
  from Cons(1) [OF this] Cons(3) show ?case by (simp add: s1_def)
qed simp

lemma ConnectFinish_keeps:
  assumes "ConnectFinish env (- 3) s = Some s'" "ss_status s \<noteq> S_CONNECTED"
  shows "ss_owner s' = ss_owner s" "cn_session (ss_conn s') = cn_session (ss_conn s)"
proof -
  have "ss_owner s' = ss_owner s \<and> cn_session (ss_conn s') = cn_session (ss_conn s)"
  proof (cases "cn_session (ss_conn s)")
    case True
    then have "deal_waiting env (ss_waiting (failed_start s)) (failed_start s) = Some s'"
      using assms(1) ConnectFinish_fail_eq [of "- 3" s env] by simp
    from deal_waiting_keeps [OF this] assms(2) show ?thesis by simp
  qed (use assms(1) in \<open>auto simp: ConnectFinish_def\<close>)
  then show "ss_owner s' = ss_owner s" "cn_session (ss_conn s') = cn_session (ss_conn s)" by auto
qed


text \<open>
  A connect that times out is reported twice: by the timer, and by the completion of the connect that the
  timer aborted.
\<close>

theorem connect_timeout_reported_twice:
  assumes "ss_status s = S_CONNECTING" "cn_session (ss_conn s)" "ss_owner s"
  shows "\<exists>s1 s2. HandleConnectTimeout env False s = Some s1 \<and> HandleConnected env True n n s1 = Some s2
    \<and> count_list (strace s2) EvConnected = count_list (strace s) EvConnected + 2"
proof -
  have r: "(- 3 :: int) \<noteq> 0" by simp
  obtain s1 es where s1: "ConnectFinish env (- 3) (semit SockClose s) = Some s1" "ss_status s1 = S_CONNECTING"
    "strace s1 = strace (semit SockClose s) @ [ConnTimerCancel] @ (if ss_autoreconnect s then [TimerStart ReconnTimer RECONNECT_INTERVAL] else [])
         @ EvConnected # es" "EvConnected \<notin> set es"
    using ConnectFinish_fails [OF r, of "semit SockClose s" env] assms by auto
  have own: "ss_owner s1" "cn_session (ss_conn s1)" using ConnectFinish_keeps [OF s1(1)] assms by simp_all
  obtain s2 es2 where s2: "ConnectFinish env (- 3) s1 = Some s2"
    "strace s2 = strace s1 @ [ConnTimerCancel] @ (if ss_autoreconnect s1 then [TimerStart ReconnTimer RECONNECT_INTERVAL] else [])
         @ EvConnected # es2" "EvConnected \<notin> set es2"
    using ConnectFinish_fails [OF r own(2) _ own(1), of env] s1(2) by auto
  have "count_list es EvConnected = 0" "count_list es2 EvConnected = 0" using s1(4) s2(3) by (simp_all add: count_list_0_iff)
  then have "count_list (strace s2) EvConnected = count_list (strace s) EvConnected + 2"
    by (simp add: s1(3) s2(2) semit_def emit_def)
  then show ?thesis using s1(1) s2(1) by (simp add: HandleConnectTimeout_def HandleConnected_def)
qed

lemma sample_connecting:
  "\<exists>s. ss_status s = S_CONNECTING \<and> cn_session (ss_conn s) \<and> ss_owner s \<and> strace s = [] \<and> ss_waiting s = [(sample_call 1 1, 5)]"
proof -
  obtain s0 where s0: "session_Init sample_net False E_PROTOCOL_THRIFT True False 0 0 0 = Some s0" "ss_owner s0" using sample_thrift_session by blast
  let ?s = "s0\<lparr>ss_status := S_CONNECTING, ss_waiting := [(sample_call 1 1, 5)], ss_conn := (ss_conn s0)\<lparr>cn_session := True, cn_trace := []\<rparr>\<rparr>"
  show ?thesis by (rule exI [of _ ?s]) (simp add: s0)
qed


theorem connect_timeout_reported_twice_witness:
  "\<exists>s s1 s2. ss_status s = S_CONNECTING \<and> HandleConnectTimeout sample_net False s = Some s1
    \<and> HandleConnected sample_net True 1 1 s1 = Some s2 \<and> count_list (strace s2) EvConnected = 2"
proof -
  obtain s where s: "ss_status s = S_CONNECTING" "cn_session (ss_conn s)" "ss_owner s" "strace s = []" using sample_connecting by blast
  obtain s1 s2 where "HandleConnectTimeout sample_net False s = Some s1" "HandleConnected sample_net True 1 1 s1 = Some s2"
    "count_list (strace s2) EvConnected = count_list (strace s) EvConnected + 2"
    using connect_timeout_reported_twice [OF s(1-3), of sample_net 1] by blast
  then show ?thesis using s(1,4) by (intro exI [of _ s] exI [of _ s1] exI [of _ s2]) simp
qed

section \<open>The write buffer\<close>

lemma conn_encode_cong: "cn_kind c' = cn_kind c \<Longrightarrow> conn_encode env c' m = conn_encode env c m"
  by (cases m) simp_all

lemma AsyncWrite_eq:
  assumes "cn_connected c" "conn_encode env c m = Some e" "cbuffer_ok (cn_writebuf c)"
    and "unat (cb_capacity (cn_writebuf c)) \<le> 1073741824" "unat (cb_loc (cn_writebuf c)) + length (concat e) \<le> 268435456"
  shows "\<exists>c'. AsyncWrite env m b c = Some c' \<and> cn_trace c' = cn_trace c @ [SockWrite m (cb_contents (cn_writebuf c) @ concat e)]
    \<and> cb_contents (cn_writebuf c') = cb_contents (cn_writebuf c) @ concat e \<and> cbuffer_ok (cn_writebuf c')
    \<and> unat (cb_capacity (cn_writebuf c')) \<le> 1073741824
    \<and> unat (cb_loc (cn_writebuf c')) = unat (cb_loc (cn_writebuf c)) + length (concat e)
    \<and> cn_connected c' \<and> cn_kind c' = cn_kind c \<and> cn_close_after_write c' = b"
  using cb_append_all_ok [OF assms(3-5), of "ne_fresh env"] assms(1,2) by (auto simp: AsyncWrite_def emit_def)

text \<open>
  The write buffer is never emptied: the second message that is written on a connection is sent
  behind a copy of the first.
\<close>

theorem second_write_repeats_the_first:
  assumes "cn_connected c" "conn_encode env c m1 = Some e1" "conn_encode env c m2 = Some e2"
    and "cbuffer_ok (cn_writebuf c)" "unat (cb_capacity (cn_writebuf c)) \<le> 2 ^ 30"
    and "unat (cb_loc (cn_writebuf c)) + length (concat e1) + length (concat e2) \<le> 2 ^ 28"
  shows "\<exists>c1 c2. AsyncWrite env m1 b1 c = Some c1 \<and> AsyncWrite env m2 b2 c1 = Some c2
    \<and> cn_trace c2 = cn_trace c @ [SockWrite m1 (cb_contents (cn_writebuf c) @ concat e1),
                                 SockWrite m2 (cb_contents (cn_writebuf c) @ concat e1 @ concat e2)]"
proof -
  have b: "unat (cb_capacity (cn_writebuf c)) \<le> 1073741824" "unat (cb_loc (cn_writebuf c)) + length (concat e1) \<le> 268435456"
    using assms(5,6) by simp_all
  from AsyncWrite_eq [OF assms(1,2,4) b] obtain c1 where c1: "AsyncWrite env m1 b1 c = Some c1"
    "cn_trace c1 = cn_trace c @ [SockWrite m1 (cb_contents (cn_writebuf c) @ concat e1)]"
    "cb_contents (cn_writebuf c1) = cb_contents (cn_writebuf c) @ concat e1" "cbuffer_ok (cn_writebuf c1)"
    "unat (cb_capacity (cn_writebuf c1)) \<le> 1073741824"
    "unat (cb_loc (cn_writebuf c1)) = unat (cb_loc (cn_writebuf c)) + length (concat e1)" "cn_connected c1" "cn_kind c1 = cn_kind c"
    by blast
  have "conn_encode env c1 m2 = Some e2" using conn_encode_cong [OF c1(8)] assms(3) by simp
  moreover have "unat (cb_loc (cn_writebuf c1)) + length (concat e2) \<le> 268435456" using c1(6) assms(6) by simp
  ultimately obtain c2 where "AsyncWrite env m2 b2 c1 = Some c2"
    "cn_trace c2 = cn_trace c1 @ [SockWrite m2 (cb_contents (cn_writebuf c1) @ concat e2)]"
    using AsyncWrite_eq [OF c1(7) _ c1(4,5)] by blast
  then show ?thesis using c1(1,2,3) by auto
qed

definition sample_writer :: connection where
  "sample_writer = \<lparr>cn_id = 1, cn_buffer = \<lparr>cb_base = [], cb_capacity = 0, cb_loc = 0\<rparr>,
     cn_writebuf = \<lparr>cb_base = [], cb_capacity = 0, cb_loc = 0\<rparr>, cn_remoteip = [], cn_remoteport = 0,
     cn_connected = True, cn_close_after_write = False, cn_session = True, cn_kind = ThriftParser,
     cn_parser = http_parser_new, cn_dealing = False, cn_next = 0, cn_trace = []\<rparr>"

definition call_bytes :: "nat \<Rightarrow> u32 \<Rightarrow> bytes" where
  "call_bytes a n = concat (thrift_encode ((sthrift_message_new a)\<lparr>seqid := n, thrift_method := ''ping''\<rparr>))"

theorem second_write_repeats_the_first_witness:
  "\<exists>c1 c2. AsyncWrite sample_net (sample_call 1 1) False sample_writer = Some c1
    \<and> AsyncWrite sample_net (sample_call 2 2) False c1 = Some c2
    \<and> cn_trace c2 = [SockWrite (sample_call 1 1) (call_bytes 1 1), SockWrite (sample_call 2 2) (call_bytes 1 1 @ call_bytes 2 2)]"
proof -
  have e: "conn_encode sample_net sample_writer (sample_call a n)
      = Some (thrift_encode ((sthrift_message_new a)\<lparr>seqid := n, thrift_method := ''ping''\<rparr>))" for a n
    by (simp add: sample_call_def sample_writer_def)
  have l: "length (call_bytes a n) = 20" for a n
    by (simp add: call_bytes_def thrift_encode_def thrift_encode_head_def sthrift_message_new_def)
  have w: "cn_connected sample_writer" "cbuffer_ok (cn_writebuf sample_writer)" "cn_trace sample_writer = []"
    "unat (cb_capacity (cn_writebuf sample_writer)) \<le> 2 ^ 30" "cb_contents (cn_writebuf sample_writer) = []"
    "cb_loc (cn_writebuf sample_writer) = 0"
    by (simp_all add: sample_writer_def cbuffer_ok_def cb_contents_def)
  have room: "unat (cb_loc (cn_writebuf sample_writer)) + length (call_bytes 1 1) + length (call_bytes 2 2) \<le> 2 ^ 28"
    by (simp add: w(6) l)
  from second_write_repeats_the_first [OF w(1) e e w(2,4), of 1 1 2 2 False False, folded call_bytes_def, OF room]
  show ?thesis by (simp add: w(3,5))
qed

end
