(* ===== verification/HttpPipeline.thy ===== *)
theory HttpPipeline
  imports SessionScenarios
begin

text \<open>
  Pipelining in \<open>CHttpSession\<close>: whatever the order in which the application answers, the responses are
  written in the order in which the requests were read.
\<close>

section \<open>Writing a response\<close>

fun written1 :: "effect \<Rightarrow> net_msg list" where
  "written1 (SockWrite m _) = [m]"
| "written1 _ = []"

definition written :: "effect list \<Rightarrow> net_msg list" where
  \<comment> \<open>the messages in the order in which they are given to the socket\<close>
  "written es = concat (map written1 es)"

lemma written_simps [simp]: "written [] = []" "written (xs @ ys) = written xs @ written ys" "written (e # es) = written1 e @ written es"
  by (simp_all add: written_def)

definition enc_len :: "net_env \<Rightarrow> shttp_message \<Rightarrow> nat" where
  "enc_len env m = length (concat (http_encode (ne_http env) m))"

definition http_writer :: "session \<Rightarrow> bool" where
  "http_writer s \<longleftrightarrow> cn_connected (ss_conn s) \<and> cn_kind (ss_conn s) = HttpParser \<and> cbuffer_ok (cn_writebuf (ss_conn s))
     \<and> unat (cb_capacity (cn_writebuf (ss_conn s))) \<le> 1073741824"

abbreviation wloc :: "session \<Rightarrow> nat" where
  "wloc s \<equiv> unat (cb_loc (cn_writebuf (ss_conn s)))"

lemma http_writer_conn_cong: "ss_conn s' = ss_conn s \<Longrightarrow> http_writer s' = http_writer s"
  by (simp add: http_writer_def)

lemma base_DoSendBack_http:
  assumes "http_writer s" "wloc s + enc_len env m \<le> 268435456"
  shows "\<exists>s'. base_DoSendBack env (HttpMsg m) b s = Some s' \<and> http_writer s' \<and> wloc s' = wloc s + enc_len env m
    \<and> written (strace s') = written (strace s) @ [HttpMsg m] \<and> ss_deque s' = ss_deque s"
proof -
  let ?c = "ss_conn s"
  have e: "conn_encode env ?c (HttpMsg m) = Some (http_encode (ne_http env) m)"
    using assms(1) by (simp add: http_writer_def)
  obtain c' where c': "AsyncWrite env (HttpMsg m) b ?c = Some c'"
    "cn_trace c' = cn_trace ?c @ [SockWrite (HttpMsg m) (cb_contents (cn_writebuf ?c) @ concat (http_encode (ne_http env) m))]"
    "cbuffer_ok (cn_writebuf c')" "unat (cb_capacity (cn_writebuf c')) \<le> 1073741824"
    "unat (cb_loc (cn_writebuf c')) = wloc s + enc_len env m" "cn_connected c'" "cn_kind c' = cn_kind ?c"
    using AsyncWrite_eq [of ?c env "HttpMsg m" _ b] e assms unfolding http_writer_def enc_len_def by blast
  let ?s = "semit (EvDelete (HttpMsg m)) (s\<lparr>ss_conn := c'\<rparr>)"
  have "base_DoSendBack env (HttpMsg m) b s = Some ?s" by (simp add: base_DoSendBack_def on_conn_def c'(1))
  moreover have "http_writer ?s" "wloc ?s = wloc s + enc_len env m"
    using assms(1) c'(3-7) by (simp_all add: http_writer_def semit_def emit_def)
  ultimately show ?thesis using c'(2) by simp
qed

section \<open>Responses leave in the order of the requests\<close>

fun send_backs :: "net_env \<Rightarrow> shttp_message list \<Rightarrow> session \<Rightarrow> session option" where
  "send_backs env [] s = Some s"
| "send_backs env (m # ms) s = session_DoSendBack env (HttpMsg m) s \<bind> send_backs env ms"

lemma send_backs_snoc: "send_backs env (ms @ [m]) s = send_backs env ms s \<bind> session_DoSendBack env (HttpMsg m)"
  by (induction ms arbitrary: s) (auto split: Option.bind_splits)

definition answer :: "shttp_message list \<Rightarrow> u32 \<Rightarrow> shttp_message option" where
  "answer ms n = find (\<lambda>m. requestno m = n) ms"

definition items :: "(u32 \<Rightarrow> shttp_message option) \<Rightarrow> u32 list \<Rightarrow> response_item list" where
  "items f ns = map (\<lambda>n. \<lparr>ri_no = n, ri_response = f n\<rparr>) ns"

definition parked_len :: "net_env \<Rightarrow> (u32 \<Rightarrow> shttp_message option) \<Rightarrow> u32 list \<Rightarrow> nat" where
  "parked_len env f ns = sum_list (map (\<lambda>n. case f n of None \<Rightarrow> 0 | Some m \<Rightarrow> enc_len env m) ns)"

lemma flush_writes_answered_prefix:
  assumes "http_writer s" "wloc s + parked_len env f ns \<le> 268435456"
  shows "\<exists>s'. flush_responses env (items f ns) s = Some s' \<and> http_writer s'
    \<and> ss_deque s' = items f (dropWhile (\<lambda>n. f n \<noteq> None) ns)
    \<and> wloc s' + parked_len env f (dropWhile (\<lambda>n. f n \<noteq> None) ns) = wloc s + parked_len env f ns
    \<and> written (strace s') = written (strace s) @ map (\<lambda>n. HttpMsg (the (f n))) (takeWhile (\<lambda>n. f n \<noteq> None) ns)"
  using assms
proof (induction ns arbitrary: s)
  case Nil
  then show ?case by (simp add: items_def http_writer_def)
next
  case (Cons n ns)
  show ?case
  proof (cases "f n")
    case None
    with Cons(2) show ?thesis by (simp add: items_def http_writer_def)
  next
    case (Some m)
    have room: "wloc s + enc_len env m \<le> 268435456" using Cons(3) Some by (simp add: parked_len_def)
    from base_DoSendBack_http [OF Cons(2) room] obtain s1 where s1: "base_DoSendBack env (HttpMsg m) (\<not> keepalive m) s = Some s1"
      "http_writer s1" "wloc s1 = wloc s + enc_len env m" "written (strace s1) = written (strace s) @ [HttpMsg m]" by blast
    have room1: "wloc s1 + parked_len env f ns \<le> 268435456" using Cons(3) Some s1(3) by (simp add: parked_len_def)
    from Cons(1) [OF s1(2) room1] s1 Some show ?thesis by (auto simp: items_def parked_len_def)
  qed
qed

lemma park_response_items:
  "requestno m \<in> set ns \<Longrightarrow> distinct ns \<Longrightarrow>
   park_response m (items f ns) = Some (items (f(requestno m := Some m)) ns)"
proof (induction ns)
  case (Cons n ns)
  then show ?case by (auto simp: items_def)
qed simp

lemma items_Cons: "items f (n # ns) = \<lparr>ri_no = n, ri_response = f n\<rparr> # items f ns"
  by (simp add: items_def)

lemma items_cong: "(\<And>n. n \<in> set ns \<Longrightarrow> f n = g n) \<Longrightarrow> items f ns = items g ns"
  by (simp add: items_def)

lemma parked_len_cong: "(\<And>n. n \<in> set ns \<Longrightarrow> f n = g n) \<Longrightarrow> parked_len env f ns = parked_len env g ns"
  unfolding parked_len_def by (intro arg_cong [where f = sum_list] map_cong) auto

lemma answer_snoc: "answer (ms @ [m]) n = (case answer ms n of Some x \<Rightarrow> Some x | None \<Rightarrow> if requestno m = n then Some m else None)"
  unfolding answer_def by (induction ms) auto

lemma answer_None: "answer ms n = None \<longleftrightarrow> n \<notin> requestno ` set ms"
  by (auto simp: answer_def find_None_iff)

lemma parked_len_answer_sub: "parked_len env (answer ms) ns \<le> parked_len env (answer (ms @ [m])) ns"
  unfolding parked_len_def by (intro sum_list_mono) (auto simp: answer_snoc split: option.splits)

lemma parked_len_upd:
  "distinct ns \<Longrightarrow> n \<in> set ns \<Longrightarrow> f n = None \<Longrightarrow>
   parked_len env (f(n := Some m)) ns = parked_len env f ns + enc_len env m"
proof (induction ns)
  case (Cons k ns)
  show ?case
  proof (cases "k = n")
    case True
    with Cons(2) have "n \<notin> set ns" by simp
    then have "parked_len env (f(n := Some m)) ns = parked_len env f ns" by (intro parked_len_cong) auto
    with True Cons(4) show ?thesis by (simp add: parked_len_def)
  next
    case False
    with Cons show ?thesis by (simp add: parked_len_def)
  qed
qed simp

text \<open>One answer: the state of the session is a function of the answers given so far.\<close>

definition pipeline :: "net_env \<Rightarrow> u32 list \<Rightarrow> net_msg list \<Rightarrow> shttp_message list \<Rightarrow> nat \<Rightarrow> session \<Rightarrow> bool" where
  "pipeline env ns w0 ms tot s \<longleftrightarrow>
     (let P = (\<lambda>n. answer ms n \<noteq> None) in
      http_writer s \<and> ss_http s
      \<and> ss_deque s = items (answer ms) (dropWhile P ns)
      \<and> written (strace s) = w0 @ map (\<lambda>n. HttpMsg (the (answer ms n))) (takeWhile P ns)
      \<and> wloc s + parked_len env (answer ms) (dropWhile P ns) = tot)"

lemma base_DoSendBack_http_flag: "base_DoSendBack env m b s = Some s' \<Longrightarrow> ss_http s' = ss_http s"
  by (auto simp: base_DoSendBack_def on_conn_def split: Option.bind_splits)

lemma flush_http_flag: "flush_responses env is s = Some s' \<Longrightarrow> ss_http s' = ss_http s"
  by (induction env "is" s rule: flush_responses.induct)
    (auto split: option.splits Option.bind_splits dest: base_DoSendBack_http_flag)

lemma in_set_consE: "x \<in> set xs \<Longrightarrow> (\<And>y ys. xs = y # ys \<Longrightarrow> P) \<Longrightarrow> P"
  by (cases xs) auto

lemma in_dropWhile: "x \<in> set xs \<Longrightarrow> \<not> P x \<Longrightarrow> x \<in> set (dropWhile P xs)"
  by (induction xs) auto

lemma dropWhile_head: "dropWhile P xs = y # ys \<Longrightarrow> \<not> P y"
  by (induction xs) (auto split: if_splits)

lemma pipeline_step:
  assumes p: "pipeline env ns w0 ms tot s" and "distinct ns" and no: "requestno m \<in> set ns" "requestno m \<notin> requestno ` set ms"
    and room: "tot + enc_len env m \<le> 268435456"
  shows "\<exists>s'. session_DoSendBack env (HttpMsg m) s = Some s' \<and> pipeline env ns w0 (ms @ [m]) (tot + enc_len env m) s'"
proof -
  let ?P = "\<lambda>n. answer ms n \<noteq> None" and ?P' = "\<lambda>n. answer (ms @ [m]) n \<noteq> None"
  let ?dn = "takeWhile ?P ns" and ?n = "requestno m"
  from p have st: "http_writer s" "ss_http s" "ss_deque s = items (answer ms) (dropWhile ?P ns)"
    "written (strace s) = w0 @ map (\<lambda>n. HttpMsg (the (answer ms n))) ?dn"
    "wloc s + parked_len env (answer ms) (dropWhile ?P ns) = tot"
    by (simp_all add: pipeline_def Let_def)
  have none: "answer ms ?n = None" using no(2) by (simp add: answer_None)
  have ns: "ns = ?dn @ dropWhile ?P ns" by simp
  have "?n \<notin> set ?dn" using none set_takeWhileD by fastforce
  then have "?n \<in> set (dropWhile ?P ns)" using in_dropWhile [OF no(1), of ?P] none by simp
  then obtain r0 rs where r: "dropWhile ?P ns = r0 # rs" by (rule in_set_consE)
  have r0: "answer ms r0 = None" using dropWhile_head [OF r] by simp
  have dist: "distinct (r0 # rs)" using distinct_dropWhile [OF \<open>distinct ns\<close>, of ?P] unfolding r .
  have upd: "answer (ms @ [m]) k = (if k = ?n then Some m else answer ms k)" for k
    using none by (auto simp: answer_snoc split: option.splits)
  have f': "answer (ms @ [m]) = (answer ms)(?n := Some m)" by (auto simp: upd)
  have dn: "\<forall>k\<in>set ?dn. ?P k \<and> ?P' k \<and> k \<noteq> ?n"
    using set_takeWhileD [of _ ?P ns] \<open>?n \<notin> set ?dn\<close> by (auto simp: upd)
  have dmap: "map (\<lambda>n. HttpMsg (the (answer (ms @ [m]) n))) ?dn = map (\<lambda>n. HttpMsg (the (answer ms n))) ?dn"
    using dn by (auto simp: upd)
  have split': "takeWhile ?P' ns = ?dn @ takeWhile ?P' (r0 # rs)" "dropWhile ?P' ns = dropWhile ?P' (r0 # rs)"
  proof -
    have n: "ns = ?dn @ (r0 # rs)" unfolding r [symmetric] by (rule ns)
    show "takeWhile ?P' ns = ?dn @ takeWhile ?P' (r0 # rs)"
      by (subst n, rule takeWhile_append2) (use dn in blast)
    show "dropWhile ?P' ns = dropWhile ?P' (r0 # rs)"
      by (subst n, rule dropWhile_append2) (use dn in blast)
  qed
  show ?thesis
  proof (cases "r0 = ?n")
    case True
    then have nrs: "?n \<notin> set rs" using dist by auto
    have same: "answer (ms @ [m]) k = answer ms k" if "k \<in> set rs" for k using that nrs by (auto simp: upd)
    have i': "items (answer ms) rs = items (answer (ms @ [m])) rs" "parked_len env (answer ms) rs = parked_len env (answer (ms @ [m])) rs"
      using same by (auto intro!: items_cong parked_len_cong)
    have pl: "parked_len env (answer ms) (r0 # rs) = parked_len env (answer (ms @ [m])) rs"
      using r0 by (simp add: parked_len_def [of _ _ "r0 # rs"] i'(2) [unfolded parked_len_def] parked_len_def [of _ _ rs])
    have "wloc s + enc_len env m \<le> 268435456" using room st(5) by simp
    from base_DoSendBack_http [OF st(1) this] obtain s1 where s1: "base_DoSendBack env (HttpMsg m) (\<not> keepalive m) s = Some s1"
      "http_writer s1" "wloc s1 = wloc s + enc_len env m" "written (strace s1) = written (strace s) @ [HttpMsg m]" by blast
    have "wloc s1 + parked_len env (answer (ms @ [m])) rs \<le> 268435456" using room st(5) s1(3) r pl by simp
    from flush_writes_answered_prefix [OF s1(2) this] obtain s2 where s2: "flush_responses env (items (answer (ms @ [m])) rs) s1 = Some s2"
      "http_writer s2" "ss_deque s2 = items (answer (ms @ [m])) (dropWhile ?P' rs)"
      "wloc s2 + parked_len env (answer (ms @ [m])) (dropWhile ?P' rs) = wloc s1 + parked_len env (answer (ms @ [m])) rs"
      "written (strace s2) = written (strace s1) @ map (\<lambda>n. HttpMsg (the (answer (ms @ [m]) n))) (takeWhile ?P' rs)" by blast
    have P0: "?P' r0" "the (answer (ms @ [m]) r0) = m" by (simp_all add: upd True)
    have "session_DoSendBack env (HttpMsg m) s = Some s2"
      using st(2,3) r True s1(1) s2(1) by (simp add: http_DoSendBack_def items_Cons i'(1))
    moreover have "ss_http s2" using st(2) base_DoSendBack_http_flag [OF s1(1)] flush_http_flag [OF s2(1)] by simp
    moreover have "wloc s2 + parked_len env (answer (ms @ [m])) (dropWhile ?P' rs) = tot + enc_len env m"
      using s2(4) s1(3) st(5) r pl by simp
    moreover have "written (strace s2) = w0 @ map (\<lambda>n. HttpMsg (the (answer (ms @ [m]) n))) (takeWhile ?P' ns)"
      using s2(5) s1(4) st(4) P0 dmap split'(1) by simp
    moreover have "dropWhile ?P' ns = dropWhile ?P' rs" using split'(2) P0(1) by simp
    ultimately show ?thesis using s2(2,3) by (simp add: pipeline_def Let_def)
  next
    case False
    have "\<not> ?P' r0" using False r0 by (simp add: upd)
    then have d': "takeWhile ?P' ns = ?dn" "dropWhile ?P' ns = r0 # rs" using split' by simp_all
    have nrs: "?n \<in> set rs" using False \<open>?n \<in> set (dropWhile ?P ns)\<close> r by simp
    let ?s = "s\<lparr>ss_deque := items (answer (ms @ [m])) (r0 # rs)\<rparr>"
    have "park_response m (items (answer ms) rs) = Some (items (answer (ms @ [m])) rs)"
      using park_response_items [OF nrs] dist by (simp add: f')
    then have "session_DoSendBack env (HttpMsg m) s = Some ?s"
      using st(2,3) r False r0 by (simp add: http_DoSendBack_def items_def upd)
    moreover have "parked_len env (answer (ms @ [m])) (r0 # rs) = parked_len env (answer ms) (r0 # rs) + enc_len env m"
      unfolding f' using dist nrs none by (intro parked_len_upd) auto
    ultimately show ?thesis
      using st d' dmap r by (simp add: pipeline_def Let_def http_writer_def)
  qed
qed

lemma responses_in_order:
  assumes "http_writer s" "ss_http s" "ss_deque s = items (\<lambda>_. None) ns" "distinct ns"
    and "distinct (map requestno ms)" "requestno ` set ms \<subseteq> set ns"
    and "wloc s + sum_list (map (enc_len env) ms) \<le> 2 ^ 28"
  shows "\<exists>s'. send_backs env ms s = Some s'
    \<and> written (strace s') = written (strace s) @ map (\<lambda>n. HttpMsg (the (answer ms n))) (takeWhile (\<lambda>n. answer ms n \<noteq> None) ns)
    \<and> ss_deque s' = items (answer ms) (dropWhile (\<lambda>n. answer ms n \<noteq> None) ns)
    \<and> (set ns \<subseteq> requestno ` set ms \<longrightarrow>
         written (strace s') = written (strace s) @ map (\<lambda>n. HttpMsg (the (answer ms n))) ns \<and> ss_deque s' = [])"
proof -
  have "\<exists>s'. send_backs env ms s = Some s' \<and> pipeline env ns (written (strace s)) ms (wloc s + sum_list (map (enc_len env) ms)) s'"
    using assms(5-7)
  proof (induction ms rule: rev_induct)
    case Nil
    have z: "answer [] = (\<lambda>_. None)" "parked_len env (\<lambda>_. None) ns = 0" by (auto simp: answer_def parked_len_def)
    then have "pipeline env ns (written (strace s)) [] (wloc s) s"
      using assms(1-3) by (simp add: pipeline_def Let_def dropWhile_eq_self_iff) (cases ns; simp)
    then show ?case by simp
  next
    case (snoc m ms)
    then obtain s1 where s1: "send_backs env ms s = Some s1"
      "pipeline env ns (written (strace s)) ms (wloc s + sum_list (map (enc_len env) ms)) s1" by auto
    have "requestno m \<in> set ns" "requestno m \<notin> requestno ` set ms"
      "wloc s + sum_list (map (enc_len env) ms) + enc_len env m \<le> 268435456" using snoc(2-4) by auto
    from pipeline_step [OF s1(2) assms(4) this] s1(1) show ?case by (simp add: send_backs_snoc add.assoc)
  qed
  then obtain s' where s': "send_backs env ms s = Some s'"
    "pipeline env ns (written (strace s)) ms (wloc s + sum_list (map (enc_len env) ms)) s'" by blast
  let ?P = "\<lambda>n. answer ms n \<noteq> None"
  have all: "takeWhile ?P ns = ns \<and> dropWhile ?P ns = []" if "set ns \<subseteq> requestno ` set ms"
    using that by (auto simp: answer_None takeWhile_eq_all_conv)
  have f: "ss_deque s' = items (answer ms) (dropWhile ?P ns)"
    "written (strace s') = written (strace s) @ map (\<lambda>n. HttpMsg (the (answer ms n))) (takeWhile ?P ns)"
    using s'(2) unfolding pipeline_def Let_def by blast+
  have "written (strace s') = written (strace s) @ map (\<lambda>n. HttpMsg (the (answer ms n))) ns \<and> ss_deque s' = []"
    if "set ns \<subseteq> requestno ` set ms"
    unfolding f conjunct1 [OF all [OF that]] conjunct2 [OF all [OF that]] by (simp add: items_def)
  with s'(1) f show ?thesis by blast
qed

text \<open>
  A pipelined connection: the requests have the numbers \<open>ns\<close>, and the responses \<open>ms\<close> are given in any
  order, each to another of the requests. The responses are written in the order of the requests: after every
  number of them, exactly those whose request and all earlier requests are answered. When every request
  is answered, every response is written and nothing is left.
\<close>

theorem http_responses_in_request_order:
  assumes "http_writer s" "ss_http s" "ss_deque s = items (\<lambda>_. None) ns" "distinct ns"
    and "distinct (map requestno ms)" "requestno ` set ms \<subseteq> set ns"
    and "wloc s + sum_list (map (enc_len env) ms) \<le> 2 ^ 28"
  shows "\<exists>s'. send_backs env ms s = Some s'
    \<and> written (strace s') = written (strace s) @ map (\<lambda>n. HttpMsg (the (answer ms n))) (takeWhile (\<lambda>n. answer ms n \<noteq> None) ns)
    \<and> ss_deque s' = items (answer ms) (dropWhile (\<lambda>n. answer ms n \<noteq> None) ns)
    \<and> (set ns \<subseteq> requestno ` set ms \<longrightarrow>
         written (strace s') = written (strace s) @ map (\<lambda>n. HttpMsg (the (answer ms n))) ns \<and> ss_deque s' = [])"
  by (rule responses_in_order [OF assms])

definition sample_http_conn :: connection where
  "sample_http_conn = sample_writer\<lparr>cn_kind := HttpParser\<rparr>"

definition sample_reply :: "u32 \<Rightarrow> shttp_message" where
  "sample_reply n = SetReply 200 ((shttp_message_new 9)\<lparr>requestno := n, keepalive := True\<rparr>)"

theorem http_responses_in_request_order_witness:
  "\<exists>s s'. ss_deque s = items (\<lambda>_. None) [1, 2, 3] \<and> send_backs sample_net [sample_reply 2, sample_reply 3, sample_reply 1] s = Some s'
    \<and> written (strace s') = [HttpMsg (sample_reply 1), HttpMsg (sample_reply 2), HttpMsg (sample_reply 3)] \<and> ss_deque s' = []"
proof -
  obtain s0 where s0: "ss_http s0" "session_Init sample_net True E_PROTOCOL_HTTP True False 0 0 0 = Some s0"
    using sample_http_session by blast
  let ?s = "s0\<lparr>ss_deque := items (\<lambda>_. None) [1, 2, 3], ss_conn := sample_http_conn\<rparr>"
  let ?ms = "[sample_reply 2, sample_reply 3, sample_reply 1]"
  have len: "enc_len sample_net (sample_reply n) < 1000" for n
  proof -
    have "http_encode (ne_http sample_net) (sample_reply n) = http_encode (ne_http sample_net) (sample_reply 0)"
      by (simp add: http_encode_def EncodeResponse_def sample_reply_def SetReply_def shttp_message_new_def)
    moreover have "enc_len sample_net (sample_reply 0) < 1000" by code_simp
    ultimately show ?thesis by (simp add: enc_len_def)
  qed
  have w: "http_writer ?s" "wloc ?s = 0" "written (strace ?s) = []"
    by (simp_all add: http_writer_def sample_http_conn_def sample_writer_def cbuffer_ok_def)
  have 1: "ss_http ?s" "ss_deque ?s = items (\<lambda>_. None) [1, 2, 3]" "distinct [1, 2, 3 :: u32]" "distinct (map requestno ?ms)"
    "requestno ` set ?ms \<subseteq> set [1, 2, 3]"
    by (simp_all add: s0 sample_reply_def SetReply_def shttp_message_new_def)
  have room: "wloc ?s + sum_list (map (enc_len sample_net) ?ms) \<le> 2 ^ 28"
    unfolding w(2) using len [of 1] len [of 2] len [of 3] by simp
  have all: "set [1, 2, 3] \<subseteq> requestno ` set ?ms" by (simp add: sample_reply_def SetReply_def shttp_message_new_def)
  obtain s' where s': "send_backs sample_net ?ms ?s = Some s'"
    "written (strace s') = written (strace ?s) @ map (\<lambda>n. HttpMsg (the (answer ?ms n))) [1, 2, 3]" "ss_deque s' = []"
    using http_responses_in_request_order [OF w(1) 1 room] all by blast
  have "map (\<lambda>n. HttpMsg (the (answer ?ms n))) [1, 2, 3] = [HttpMsg (sample_reply 1), HttpMsg (sample_reply 2), HttpMsg (sample_reply 3)]"
    by (simp add: answer_def sample_reply_def SetReply_def shttp_message_new_def)
  with s' w(3) show ?thesis by (intro exI [of _ ?s] exI [of _ s']) simp
qed

end
