(* ===== verification/HttpLocality.thy ===== *)
theory HttpLocality
  imports HttpDecode
begin

text \<open>
  What the HTTP decoder does with memory that it does not need: if its result is defined, more memory behind
  the buffer does not change it. So a decoder run on the bytes that are known stands for all contents of the rest
  of the buffer.
\<close>

section \<open>More memory does not change a defined result\<close>

lemma drop_append_le: "f (drop p mem) = Some r \<Longrightarrow> f [] = None \<Longrightarrow> drop p (mem @ t) = drop p mem @ t"
  by (cases "p \<le> length mem") auto

lemma strstr_at_append: "strstr_at mem p pat = Some r \<Longrightarrow> strstr_at (mem @ t) p pat = Some r"
  using drop_append_le [of "c_strstr pat" p mem _ t] c_strstr_append [of pat "drop p mem" _ t]
  by (auto simp: strstr_at_def)

lemma caseeq_at_append: "caseeq_at mem p lit = Some b \<Longrightarrow> caseeq_at (mem @ t) p lit = Some b"
proof -
  assume a: "caseeq_at mem p lit = Some b"
  show ?thesis
  proof (cases "lit = []")
    case False
    then have "c_caseeq lit [] = None" by (cases lit) auto
    with a drop_append_le [of "c_caseeq lit" p mem b t] c_caseeq_append [of lit "drop p mem" b t]
    show ?thesis by (simp add: caseeq_at_def)
  qed (use a in \<open>simp add: caseeq_at_def\<close>)
qed

lemma sub_append: "sub mem p n = Some d \<Longrightarrow> sub (mem @ t) p n = Some d"
  by (auto simp: sub_def split: if_splits)

lemma peek_append: "peek mem p = Some c \<Longrightarrow> peek (mem @ t) p = Some c"
  by (auto simp: peek_def nth_append split: if_splits)

lemma span_m_append: "span_m P s = Some (a, b) \<Longrightarrow> span_m P (s @ t) = Some (a, b @ t)"
  by (induction s arbitrary: a b) (auto split: if_splits)

lemma scan_sign_append: "scan_sign s = Some (n, r) \<Longrightarrow> scan_sign (s @ t) = Some (n, r @ t)"
  by (auto simp: scan_sign_def split: list.splits if_splits)

lemma c_atoi_append: "c_atoi s = Some n \<Longrightarrow> c_atoi (s @ t) = Some n"
proof -
  assume "c_atoi s = Some n"
  then obtain ws r neg r' ds rest where a: "span_m c_isspace s = Some (ws, r)" "scan_sign r = Some (neg, r')"
    "span_m c_isdigit r' = Some (ds, rest)" "n = wrap_int32 (clamp_long ((if neg then - 1 else 1) * int (digits_val 10 ds)))"
    by (auto simp: c_atoi_def bind_eq_Some_iff)
  with span_m_append [OF a(1), of t] scan_sign_append [OF a(2), of t] span_m_append [OF a(3), of t]
  show ?thesis by (simp add: c_atoi_def)
qed

lemma c_atoi_drop_append: "c_atoi (drop p mem) = Some n \<Longrightarrow> c_atoi (drop p (mem @ t)) = Some n"
  using drop_append_le [of c_atoi p mem n t] c_atoi_append [of "drop p mem" n t] by (simp add: c_atoi_def [of "[]"])

lemma bind_append:
  assumes "m s \<bind> k s = Some x" "\<And>y. m s = Some y \<Longrightarrow> m s' = Some y" "\<And>y. k s y = Some x \<Longrightarrow> k s' y = Some x"
  shows "m s' \<bind> k s' = Some x"
  using assms by (cases "m s") auto

lemma scan_hex_append: "scan_hex s = Some w \<Longrightarrow> scan_hex (s @ t) = Some w"
proof -
  assume a: "scan_hex s = Some w"
  then obtain ws r neg r1 c where b: "span_m c_isspace s = Some (ws, r)" "scan_sign r = Some (neg, r1)" "peek r1 0 = Some c"
    by (auto simp: scan_hex_def bind_eq_Some_iff)
  note b' = span_m_append [OF b(1), of t] scan_sign_append [OF b(2), of t] peek_append [OF b(3), of t]
  show ?thesis
  proof (cases "c = CHR ''0''")
    case True
    with a b obtain x ds rest where x: "peek r1 1 = Some x"
      "span_m c_isxdigit (drop (if c_tolower x = CHR ''x'' then 2 else 1) r1) = Some (ds, rest)"
      "w = Some (ulong_to_u32 neg (digits_val 16 ds))" by (auto simp: scan_hex_def bind_eq_Some_iff)
    define k where "k = (if c_tolower x = CHR ''x'' then 2 else 1 :: nat)"
    have "drop k (r1 @ t) = drop k r1 @ t"
      by (rule drop_append_le [of "span_m c_isxdigit" k r1 "(ds, rest)"]) (use x(2) in \<open>simp_all add: k_def\<close>)
    with span_m_append [OF x(2) [folded k_def], of t] peek_append [OF x(1), of t] b' True x(3) show ?thesis
      by (simp add: scan_hex_def k_def)
  next
    case False
    with a b obtain ds rest where d: "span_m c_isxdigit r1 = Some (ds, rest)"
      "w = (if ds = [] then None else Some (ulong_to_u32 neg (digits_val 16 ds)))" by (auto simp: scan_hex_def bind_eq_Some_iff)
    with span_m_append [OF d(1), of t] b' False show ?thesis by (simp add: scan_hex_def)
  qed
qed

lemma trim_append: "trim mem p n b = Some r \<Longrightarrow> trim (mem @ t) p n b = Some r"
  by (auto simp: trim_def bind_eq_Some_iff dest: sub_append split: if_splits)

lemma header_line_append:
  assumes "header_line spt mem b e ps m = Some r" shows "header_line spt (mem @ t) b e ps m = Some r"
proof -
  from assms obtain co where co: "strchr_at mem b (CHR '':'') = Some co" by (auto simp: header_line_def bind_eq_Some_iff)
  note co' = strchr_at_append [OF co, of t]
  show ?thesis
  proof (cases "\<exists>colon. co = Some colon \<and> colon < e")
    case True
    then obtain colon where c: "co = Some colon" "colon < e" by blast
    with assms co obtain key v where kv: "trim mem b (colon - b) True = Some key" "trim mem (colon + 1) (e - colon - 1) False = Some v"
      "ParseHeader spt key v ps (AddHeader key v m) = Some r" by (auto simp: header_line_def bind_eq_Some_iff)
    with c co' trim_append [OF kv(1), of t] trim_append [OF kv(2), of t] show ?thesis by (simp add: header_line_def)
  next
    case False
    with assms co co' show ?thesis by (auto simp: header_line_def split: option.splits)
  qed
qed

lemma header_loop_append:
  "header_loop spt mem headend b eo ps m = Some r \<Longrightarrow> header_loop spt (mem @ t) headend b eo ps m = Some r"
proof (induction spt mem headend b eo ps m rule: header_loop.induct)
  case (2 spt mem headend b e ps m)
  show ?case
  proof (cases "b < headend \<and> e \<le> headend")
    case True
    with 2(2) obtain ps1 m1 e' where a: "header_line spt mem b e ps m = Some (ps1, m1)" "strstr_at mem (e + 2) CRLF = Some e'"
      "header_loop spt mem headend (e + 2) e' ps1 m1 = Some r" by (auto simp: bind_eq_Some_iff)
    from 2(1) [OF True a(1) refl a(2,3)] header_line_append [OF a(1), of t] strstr_at_append [OF a(2), of t] True
    show ?thesis by simp
  next
    case False
    with 2(2) show ?thesis by (simp only: header_loop.simps if_False)
  qed
qed simp

lemma scan_hex_drop_append: "scan_hex (drop p mem) = Some w \<Longrightarrow> scan_hex (drop p (mem @ t)) = Some w"
  using drop_append_le [of scan_hex p mem w t] scan_hex_append [of "drop p mem" w t] by (simp add: scan_hex_def [of "[]"])

lemma chunk_loop_append: "chunk_loop mem buf lim b m = Some r \<Longrightarrow> chunk_loop (mem @ t) buf lim b m = Some r"
proof (induction mem buf lim b m rule: chunk_loop.induct)
  case (1 mem buf lim b m)
  show ?case
  proof (cases "lim < b")
    case True
    with 1(2) show ?thesis by (simp add: chunk_loop.simps)
  next
    case False
    with 1(2) obtain w where w: "scan_hex (drop b mem) = Some w" by (auto simp: chunk_loop.simps [of mem] bind_eq_Some_iff)
    note w' = scan_hex_drop_append [OF w, of t]
    show ?thesis
    proof (cases "\<exists>n. w = Some n \<and> 0 \<le> sint n")
      case True
      then obtain n where n: "w = Some n" "\<not> sint n < 0" by force
      with 1(2) False w obtain q where q: "strstr_at mem b CRLF = Some (Some q)"
        by (auto simp: chunk_loop.simps [of mem] bind_eq_Some_iff split: option.splits)
      note q' = strstr_at_append [OF q, of t]
      define c where "c = (unat n \<noteq> 0 \<and> q + 2 + unat n \<le> lim)"
      show ?thesis
      proof (cases c)
        case True
        with 1(2) False w n q obtain d where d: "sub mem (q + 2) (unat n) = Some d"
          "chunk_loop mem buf lim (q + 2 + unat n + 2) (m\<lparr>http_body := http_body m @ d\<rparr>) = Some r"
          by (auto simp: chunk_loop.simps [of mem] bind_eq_Some_iff c_def Let_def)
        have "chunk_loop (mem @ t) buf lim (q + 2 + unat n + 2) (m\<lparr>http_body := http_body m @ d\<rparr>) = Some r"
          by (rule 1(1) [OF False w n(1) n(2) q refl refl refl _ _ d(1,2)]) (use True in \<open>simp_all add: c_def\<close>)
        with sub_append [OF d(1), of t] w' q' n False True show ?thesis
          by (simp add: chunk_loop.simps [of "mem @ t"] c_def Let_def)
      next
        case f: False
        with 1(2) False w n q w' q' show ?thesis by (auto simp: chunk_loop.simps [of mem] chunk_loop.simps [of "mem @ t"] c_def Let_def)
      qed
    next
      case f: False
      with 1(2) False w w' show ?thesis by (auto simp: chunk_loop.simps [of mem] chunk_loop.simps [of "mem @ t"] split: option.splits)
    qed
  qed
qed

lemma http_body_part_append:
  assumes "http_body_part mem buf lim b ps m = Some r" shows "http_body_part (mem @ t) buf lim b ps m = Some r"
proof (cases "ischunked ps")
  case True
  with assms obtain x where x: "chunk_loop mem buf lim b m = Some x" by (auto simp: http_body_part_def bind_eq_Some_iff)
  with assms True chunk_loop_append [OF x, of t] show ?thesis by (simp add: http_body_part_def)
next
  case F: False
  show ?thesis
  proof (cases "0 < contentlen ps \<and> \<not> int lim < int b + contentlen ps")
    case True
    with assms F obtain d where d: "sub mem b (nat (contentlen ps)) = Some d" by (auto simp: http_body_part_def bind_eq_Some_iff)
    with assms F True sub_append [OF d, of t] show ?thesis by (simp add: http_body_part_def)
  next
    case False
    with assms F show ?thesis by (auto simp: http_body_part_def)
  qed
qed

lemma http_headers_part_append:
  assumes "http_headers_part spt mem buf lim b ps m = Some r" shows "http_headers_part spt (mem @ t) buf lim b ps m = Some r"
proof -
  from assms obtain ho where ho: "strstr_at mem b CRLF2 = Some ho" by (auto simp: http_headers_part_def bind_eq_Some_iff)
  note ho' = strstr_at_append [OF ho, of t]
  show ?thesis
  proof (cases "\<exists>h. ho = Some h \<and> \<not> lim < h")
    case True
    then obtain h where h: "ho = Some h" "\<not> lim < h" by blast
    with assms ho obtain e x where e: "strstr_at mem b CRLF = Some e" "header_loop spt mem h b e ps m = Some x"
      by (auto simp: http_headers_part_def bind_eq_Some_iff)
    obtain ps1 m1 where x: "x = (ps1, m1)" by (cases x)
    with assms ho h e have "http_body_part mem buf lim (h + 4) ps1 m1 = Some r" by (simp add: http_headers_part_def)
    from http_body_part_append [OF this, of t] strstr_at_append [OF e(1), of t] header_loop_append [OF e(2), of t] h ho' x
    show ?thesis by (simp add: http_headers_part_def)
  next
    case False
    with assms ho ho' show ?thesis by (auto simp: http_headers_part_def split: option.splits)
  qed
qed

lemma first_keyword_append: "first_keyword mem p ks = Some r \<Longrightarrow> first_keyword (mem @ t) p ks = Some r"
proof (induction mem p ks rule: first_keyword.induct)
  case (2 mem p k ks)
  then obtain b where b: "caseeq_at mem p k = Some b" by (auto simp: bind_eq_Some_iff)
  with 2 caseeq_at_append [OF b, of t] show ?case by (cases b) simp_all
qed simp

lemma http_version_at_append: "http_version_at mem b m = Some r \<Longrightarrow> http_version_at (mem @ t) b m = Some r"
proof -
  assume a: "http_version_at mem b m = Some r"
  then obtain x where x: "caseeq_at mem b ''1.1'' = Some x" by (auto simp: http_version_at_def bind_eq_Some_iff)
  note x' = caseeq_at_append [OF x, of t]
  show ?thesis
  proof (cases x)
    case False
    with a x obtain y where y: "caseeq_at mem b ''1.0'' = Some y" by (auto simp: http_version_at_def bind_eq_Some_iff)
    with a x x' False caseeq_at_append [OF y, of t] show ?thesis by (simp add: http_version_at_def)
  qed (use a x x' in \<open>simp add: http_version_at_def\<close>)
qed

text \<open>The two branches of the decoder: a request line, a status line.\<close>

definition decode_request_line where
  "decode_request_line spt mem buf lim ps msg k = do {
     meth \<leftarrow> sub mem buf (length k);
     let m1 = msg\<lparr>http_method := meth\<rparr>;
     let b = buf + length k + 1;
     eo \<leftarrow> strchr_at mem b SP;
     (case eo of
        None \<Rightarrow> Some (PNull, ps, m1)
      | Some e \<Rightarrow>
          if lim \<le> e + 9 then Some (PNull, ps, m1)
          else do {
            u \<leftarrow> sub mem b (e - b);
            let m2 = m1\<lparr>url := u\<rparr>;
            vo \<leftarrow> http_version_at mem (e + 6) m2;
            (case vo of
               None \<Rightarrow> Some (PNull, ps, m2)
             | Some m3 \<Rightarrow> http_headers_part spt mem buf lim (e + 11) ps m3)
          })
   }"

definition decode_status_line where
  "decode_status_line spt mem buf lim ps msg = do {
     let b = buf + 5;
     vo \<leftarrow> http_version_at mem b msg;
     (case vo of
        None \<Rightarrow> Some (PNull, ps, msg)
      | Some m1 \<Rightarrow> do {
          c \<leftarrow> peek mem (b + 3);
          if c \<noteq> SP then Some (PNull, ps, m1)
          else do {
            n \<leftarrow> c_atoi (drop (b + 4) mem);
            let m2 = SetReply n m1;
            lo \<leftarrow> strstr_at mem (buf + 1) CRLF;
            (case lo of
               None \<Rightarrow> Some (PNull, ps, m2)
             | Some l \<Rightarrow>
                 if lim \<le> l then Some (PNull, ps, m2)
                 else http_headers_part spt mem buf lim (l + 2) ps m2)
          }
        })
   }"

lemma http_decode_lines:
  "http_decode spt mem buf len ps0 msg =
     (if len < 16 then Some (PAt (int buf), ps0, msg)
      else first_keyword mem buf http_keywords \<bind> (\<lambda>kw.
        let ps = ps0\<lparr>contentlen := 0, ischunked := False\<rparr> in
        case kw of
          None \<Rightarrow> Some (PNull, ps, msg)
        | Some k \<Rightarrow> if k \<noteq> ''HTTP/'' then decode_request_line spt mem buf (buf + len) ps msg k
                    else decode_status_line spt mem buf (buf + len) ps msg))"
  unfolding http_decode_def decode_request_line_def decode_status_line_def Let_def ..

lemma decode_request_line_append:
  assumes "decode_request_line spt mem buf lim ps msg k = Some r"
  shows "decode_request_line spt (mem @ t) buf lim ps msg k = Some r"
proof -
  from assms obtain meth eo where a: "sub mem buf (length k) = Some meth" "strchr_at mem (buf + length k + 1) SP = Some eo"
    by (auto simp: decode_request_line_def Let_def bind_eq_Some_iff)
  note a' = sub_append [OF a(1), of t] strchr_at_append [OF a(2), of t]
  show ?thesis
  proof (cases "\<exists>e. eo = Some e \<and> \<not> lim \<le> e + 9")
    case True
    then obtain e where e: "eo = Some e" "\<not> lim \<le> e + 9" by blast
    with assms a obtain u vo where u: "sub mem (buf + length k + 1) (e - (buf + length k + 1)) = Some u"
      "http_version_at mem (e + 6) (msg\<lparr>http_method := meth, url := u\<rparr>) = Some vo"
      by (auto simp: decode_request_line_def Let_def bind_eq_Some_iff)
    note u' = sub_append [OF u(1), of t] http_version_at_append [OF u(2), of t]
    show ?thesis
    proof (cases vo)
      case (Some m3)
      with assms a e u have "http_headers_part spt mem buf lim (e + 11) ps m3 = Some r" by (simp add: decode_request_line_def Let_def)
      from http_headers_part_append [OF this, of t] a' e u' Some show ?thesis by (simp add: decode_request_line_def Let_def)
    qed (use assms a a' e u u' in \<open>simp add: decode_request_line_def Let_def\<close>)
  next
    case False
    with assms a a' show ?thesis by (auto simp: decode_request_line_def Let_def split: option.splits)
  qed
qed

lemma decode_status_line_append:
  assumes "decode_status_line spt mem buf lim ps msg = Some r"
  shows "decode_status_line spt (mem @ t) buf lim ps msg = Some r"
proof -
  from assms obtain vo where v: "http_version_at mem (buf + 5) msg = Some vo" by (auto simp: decode_status_line_def Let_def bind_eq_Some_iff)
  note v' = http_version_at_append [OF v, of t]
  show ?thesis
  proof (cases vo)
    case None
    with assms v v' show ?thesis by (simp add: decode_status_line_def Let_def)
  next
    case (Some m1)
    with assms v obtain c where c: "peek mem (buf + 5 + 3) = Some c" by (auto simp: decode_status_line_def Let_def bind_eq_Some_iff)
    note c' = peek_append [OF c, of t]
    show ?thesis
    proof (cases "c = SP")
      case True
      with assms v Some c obtain n lo where n: "c_atoi (drop (buf + 5 + 4) mem) = Some n" "strstr_at mem (buf + 1) CRLF = Some lo"
        by (auto simp: decode_status_line_def Let_def bind_eq_Some_iff)
      note n' = c_atoi_drop_append [OF n(1), of t] strstr_at_append [OF n(2), of t]
      show ?thesis
      proof (cases "\<exists>l. lo = Some l \<and> \<not> lim \<le> l")
        case t: True
        then obtain l where l: "lo = Some l" "\<not> lim \<le> l" by blast
        with assms v Some c n True have "http_headers_part spt mem buf lim (l + 2) ps (SetReply n m1) = Some r"
          by (simp add: decode_status_line_def Let_def)
        from http_headers_part_append [OF this, of t] v' Some c' n' l True show ?thesis by (simp add: decode_status_line_def Let_def)
      next
        case False
        with assms v v' Some c c' n n' True show ?thesis by (auto simp: decode_status_line_def Let_def split: option.splits)
      qed
    next
      case False
      with assms v v' Some c c' show ?thesis by (simp add: decode_status_line_def Let_def)
    qed
  qed
qed

lemma http_decode_append:
  assumes "http_decode spt mem buf len ps msg = Some r" shows "http_decode spt (mem @ t) buf len ps msg = Some r"
proof (cases "len < 16")
  case True
  with assms show ?thesis by (simp add: http_decode_lines)
next
  case False
  with assms obtain kw where kw: "first_keyword mem buf http_keywords = Some kw" by (auto simp: http_decode_lines bind_eq_Some_iff)
  note kw' = first_keyword_append [OF kw, of t]
  show ?thesis
    using assms False kw kw'
    by (cases kw) (auto simp: http_decode_lines Let_def decode_request_line_append decode_status_line_append split: if_splits)
qed

end
