(* ===== verification/HttpReadLoop.thy ===== *)
theory HttpReadLoop
  imports HttpPipeline HttpLocality
begin

text \<open>
  The read loop of a connection on HTTP data that sends the decoder backwards.
\<close>

section \<open>Two packets that are read for ever\<close>

definition first_packet :: bytes where
  "first_packet = ''GET / HTTP/1.1'' @ CRLF @ ''A:b'' @ CRLF2"

definition backward_packet :: bytes where
  "backward_packet = ''GET / HTTP/1.1'' @ CRLF @ ''Content-Length:-61'' @ CRLF2"

lemma decode_first:
  "http_decode spt (first_packet @ backward_packet @ [NUL]) 0 61 ps m = Some (PAt 23, ps\<lparr>contentlen := 0, ischunked := False\<rparr>,
     AddHeader ''a'' ''b'' (m\<lparr>http_method := ''GET'', url := ''/'', httpversion := HTTP_1_1, keepalive := True\<rparr>))"
  by (code_simp, simp)

lemma decode_backward:
  "http_decode spt (first_packet @ backward_packet @ [NUL]) 23 38 ps m = Some (PAt 0, ps\<lparr>contentlen := - 61, ischunked := False\<rparr>,
     AddHeader ''content-length'' ''-61'' (m\<lparr>http_method := ''GET'', url := ''/'', httpversion := HTTP_1_1, keepalive := True\<rparr>))"
  by (code_simp, simp)
text \<open>The states in which the loop goes round.\<close>

definition looping :: "session \<Rightarrow> bool" where
  "looping s \<longleftrightarrow> ss_http s \<and> ss_owner s \<and> cn_kind (ss_conn s) = HttpParser \<and> cn_session (ss_conn s)
     \<and> cb_loc (cn_buffer (ss_conn s)) = 61 \<and> length (c_str (cn_remoteip (ss_conn s))) \<le> 16
     \<and> (\<exists>rest. cb_base (cn_buffer (ss_conn s)) = first_packet @ backward_packet @ NUL # rest)"

definition reads :: "effect list \<Rightarrow> nat" where
  "reads es = length (filter (\<lambda>e. case e of EvRead _ \<Rightarrow> True | _ \<Rightarrow> False) es)"

lemma reads_simps [simp]: "reads [] = 0" "reads (xs @ ys) = reads xs + reads ys" "reads [EvRead m] = 1"
  by (simp_all add: reads_def)

lemma base_OnRead_request:
  assumes "nm_direction m = E_Request" "\<not> nm_isheartbeat m" "ss_owner s"
  shows "base_OnRead env m s = Some (semit (EvRead m) (SetStatus S_CONNECTED s))"
  using assms by (simp add: base_OnRead_def)

lemma semit_conn_simps [simp]:
  "cn_kind (ss_conn (semit e s)) = cn_kind (ss_conn s)" "cn_remoteip (ss_conn (semit e s)) = cn_remoteip (ss_conn s)"
  by (simp_all add: semit_def emit_def)

lemma looping_turn:
  assumes l: "looping s" and p: "(p, q) = (0, 23) \<or> (p, q) = (23, 0)"
  shows "\<exists>s1. looping s1 \<and> reads (strace s1) = Suc (reads (strace s))
    \<and> (\<forall>fuel. read_loop env (Suc fuel) p s = read_loop env fuel q s1)"
proof -
  define c where "c = ss_conn s"
  from l obtain rest where st: "ss_http s" "ss_owner s" "cn_kind c = HttpParser" "cn_session c" "cb_loc (cn_buffer c) = 61"
    "length (c_str (cn_remoteip c)) \<le> 16" "cb_base (cn_buffer c) = first_packet @ backward_packet @ NUL # rest"
    by (auto simp: looping_def c_def)
  define c1 where "c1 = c\<lparr>cn_dealing := True, cn_next := Suc (cn_next c)\<rparr>"
  have cm: "CreateMessage (c\<lparr>cn_dealing := True\<rparr>) = (HttpMsg (shttp_message_new (cn_next c)), c1)"
    using st(3) by (simp add: CreateMessage_def c1_def)
  obtain m1 where ini: "event_Init (ne_now env) (cn_remoteip c) (cn_remoteport c) (shttp_message_new (cn_next c)) = Some m1"
    and m1: "direction m1 = E_Request" "\<not> isheartbeat m1"
    using st(6) by (auto simp: event_Init_def shttp_message_new_def)
  have init: "msg_Init (ne_now env) (cn_remoteip c1) (cn_remoteport c1) (HttpMsg (shttp_message_new (cn_next c))) = Some (HttpMsg m1)"
    using ini by (simp add: c1_def)
  have base: "cb_base (cn_buffer c1) = (first_packet @ backward_packet @ [NUL]) @ rest" using st(7) by (simp add: c1_def)
  note dec1 = http_decode_append [OF decode_first [of "ne_spt env" "cn_parser c1" m1], of rest, folded base]
  note dec2 = http_decode_append [OF decode_backward [of "ne_spt env" "cn_parser c1" m1], of rest, folded base]
  from p have "\<exists>ps' m2. http_decode (ne_spt env) (cb_base (cn_buffer c1)) (nat p) (nat (61 - p)) (cn_parser c1) m1 = Some (PAt q, ps', m2)
      \<and> direction m2 = E_Request \<and> \<not> isheartbeat m2"
  proof
    assume "(p, q) = (0, 23)"
    with dec1 m1 show ?thesis by (simp add: base AddHeader_def)
  next
    assume "(p, q) = (23, 0)"
    with dec2 m1 show ?thesis by (simp add: base AddHeader_def)
  qed
  then obtain ps' m2 where dec: "http_decode (ne_spt env) (cb_base (cn_buffer c1)) (nat p) (nat (61 - p)) (cn_parser c1) m1 = Some (PAt q, ps', m2)"
    and m2: "direction m2 = E_Request" "\<not> isheartbeat m2" by blast
  define c2 where "c2 = c1\<lparr>cn_parser := ps'\<rparr>"
  define n where "n = ss_dwseq s + 1"
  define s0 where "s0 = s\<lparr>ss_conn := c2, ss_dwseq := n, ss_deque := ss_deque s @ [\<lparr>ri_no = n, ri_response = None\<rparr>]\<rparr>"
  define m3 where "m3 = m2\<lparr>requestno := n\<rparr>"
  define s1 where "s1 = semit (EvRead (HttpMsg m3)) (SetStatus S_CONNECTED s0)"
  have cd: "conn_decode env c1 (nat p) (nat (61 - p)) (HttpMsg m1) = Some (PAt q, c2, HttpMsg m2)"
    using dec st(3) by (simp add: c1_def c2_def)
  have b: "base_OnRead env (HttpMsg m3) s0 = Some s1"
    unfolding s1_def by (rule base_OnRead_request) (use m2 st(2) in \<open>simp_all add: m3_def s0_def\<close>)
  have on: "session_OnRead env (HttpMsg m2) (s\<lparr>ss_conn := c2\<rparr>) = Some s1"
    using st(1) m2(1) b by (simp add: n_def s0_def m3_def Let_def)
  have "looping s1"
    using st by (auto simp: looping_def s1_def s0_def c2_def c1_def)
  moreover have "reads (strace s1) = Suc (reads (strace s))" by (simp add: s1_def s0_def c2_def c1_def c_def)
  moreover have "read_loop env (Suc fuel) p s = read_loop env fuel q s1" for fuel
  proof -
    have e: "int (unat (cb_len (cn_buffer c))) = 61" using st(5) by (simp add: cb_len_def)
    have ses: "cn_session c2" using st(4) by (simp add: c2_def c1_def)
    have pq: "0 \<le> p" "p < 61" "q \<noteq> p" "q \<le> 61" using p by auto
    show ?thesis
      unfolding read_loop.simps [of env "Suc fuel" p s] e Let_def c_def [symmetric] cm
      using pq ses init cd on by (simp del: conn_decode.simps msg_Init.simps session_OnRead.simps)
  qed
  ultimately show ?thesis by blast
qed


definition sample_looping :: "session \<Rightarrow> session" where
  "sample_looping s = s\<lparr>ss_conn := sample_http_conn\<lparr>cn_buffer :=
     \<lparr>cb_base = first_packet @ backward_packet @ NUL # [], cb_capacity = 62, cb_loc = 61\<rparr>\<rparr>\<rparr>"


end
