(* ===== verification/StreamRead.thy ===== *)
theory StreamRead
  imports HttpReadLoop
begin

text \<open>
  The read loop of a connection on any protocol that keeps the contract of a stream: messages one behind the
  other are delivered one by one, however the stream is brk into reads. The contract is a locale; the parsers
  of the program are its instances (\<open>ThriftReadLoop\<close>, \<open>HttpStream\<close>).
\<close>

section \<open>What the owner of a session sees\<close>

text \<open>What the owner is told: a request of the peer, or anything else.\<close>

datatype told =
    Call string string u32
  | Request u32 string string EHttpVersion bool bytes "string \<rightharpoonup> string"
  | Told_otherwise

definition told_request :: "shttp_message \<Rightarrow> told" where
  "told_request d = Request (requestno d) (http_method d) (url d) (httpversion d) (keepalive d) (http_body d) (map_of (headers d))"

fun call1 :: "effect \<Rightarrow> told list" where
  "call1 (EvRead (ThriftMsg d)) =
     [if direction d = E_Request then Call (thrift_method d) (thrift_body d) (seqid d) else Told_otherwise]"
| "call1 (EvRead (HttpMsg d)) = [if direction d = E_Request then told_request d else Told_otherwise]"
| "call1 EvConnected = [Told_otherwise]"
| "call1 EvAccept = [Told_otherwise]"
| "call1 EvPeerClose = [Told_otherwise]"
| "call1 _ = []"

definition calls :: "effect list \<Rightarrow> told list" where
  "calls es = concat (map call1 es)"

lemma calls_simps [simp]: "calls [] = []" "calls (xs @ ys) = calls xs @ calls ys" "calls (e # es) = call1 e @ calls es"
  by (simp_all add: calls_def)

text \<open>What is given to the socket.\<close>

fun sent1 :: "effect \<Rightarrow> bytes list" where
  "sent1 (SockWrite m b) = [b]"
| "sent1 _ = []"

definition sent :: "effect list \<Rightarrow> bytes list" where
  "sent es = concat (map sent1 es)"

lemma sent_simps [simp]: "sent [] = []" "sent (xs @ ys) = sent xs @ sent ys" "sent (e # es) = sent1 e @ sent es"
  by (simp_all add: sent_def)

text \<open>What a session has told its owner, the number of its last request and the requests that wait for an answer.\<close>

type_synonym view = "told list \<times> u32 \<times> response_item list"

definition view :: "session \<Rightarrow> view" where
  "view s = (calls (strace s), ss_dwseq s, ss_deque s)"

text \<open>What reading leaves alone.\<close>

definition reads_on :: "session \<Rightarrow> session \<Rightarrow> bool" where
  "reads_on s s' = (cn_writebuf (ss_conn s') = cn_writebuf (ss_conn s) \<and> cn_id (ss_conn s') = cn_id (ss_conn s)
     \<and> (\<exists>es. strace s' = strace s @ es \<and> sent es = []))"

lemma reads_on_refl [simp]: "reads_on s s"
  by (simp add: reads_on_def)

lemma reads_on_trans: "reads_on s1 s2 \<Longrightarrow> reads_on s2 s3 \<Longrightarrow> reads_on s1 s3"
  by (auto simp: reads_on_def)

definition reader :: "parser_kind \<Rightarrow> session \<Rightarrow> bool" where
  "reader k s \<longleftrightarrow> (ss_http s \<longleftrightarrow> k = HttpParser) \<and> ss_owner s \<and> cn_kind (ss_conn s) = k \<and> cn_session (ss_conn s)
     \<and> cn_connected (ss_conn s) \<and> length (c_str (cn_remoteip (ss_conn s))) \<le> 16"

section \<open>Splitting a stream\<close>

text \<open>\<open>enc\<close> gives the bytes of a message.\<close>

definition stream_of :: "('m \<Rightarrow> bytes) \<Rightarrow> 'm list \<Rightarrow> bytes" where
  "stream_of enc ms = concat (map enc ms)"

lemma stream_of_simps [simp]:
  "stream_of enc [] = []" "stream_of enc (m # ms) = enc m @ stream_of enc ms"
  "stream_of enc (xs @ ys) = stream_of enc xs @ stream_of enc ys"
  by (simp_all add: stream_of_def)

definition part_of :: "('m \<Rightarrow> bytes) \<Rightarrow> bytes \<Rightarrow> 'm list \<Rightarrow> bool" where
  \<comment> \<open>the bytes are a beginning of the first message, but not all of it\<close>
  "part_of enc r ms \<longleftrightarrow> (case ms of [] \<Rightarrow> r = [] | m # _ \<Rightarrow> \<exists>k < length (enc m). r = take k (enc m))"

text \<open>Where reads may end: \<open>brk m k\<close> allows an end behind \<open>k\<close> bytes of the message \<open>m\<close>.\<close>

fun fair_break :: "('m \<Rightarrow> bytes) \<Rightarrow> ('m \<Rightarrow> nat \<Rightarrow> bool) \<Rightarrow> 'm list \<Rightarrow> nat \<Rightarrow> bool" where
  "fair_break enc brk [] n = True"
| "fair_break enc brk (m # ms) n =
     (if n < length (enc m) then brk m n else fair_break enc brk ms (n - length (enc m)))"

lemma fair_break_behind [simp]: "fair_break enc brk (as @ bs) (length (stream_of enc as) + n) = fair_break enc brk bs n"
  by (induction as) (auto simp: add.assoc)

lemma fair_break_first: "fair_break enc brk (m # ms) k \<Longrightarrow> k < length (enc m) \<Longrightarrow> brk m k"
  by simp

lemma stream_split:
  "stream_of enc ms = xs @ ys
    \<Longrightarrow> \<exists>as bs r. ms = as @ bs \<and> xs = stream_of enc as @ r \<and> part_of enc r bs \<and> r @ ys = stream_of enc bs"
proof (induction ms arbitrary: xs)
  case Nil
  then show ?case by (intro exI [of _ "[]"]) (simp add: part_of_def)
next
  case (Cons m ms)
  show ?case
  proof (cases "length xs < length (enc m)")
    case True
    have "xs = take (length xs) (xs @ ys)" by simp
    also have "\<dots> = take (length xs) (enc m)" using Cons(2) True by (metis stream_of_simps(2) take_append diff_is_0_eq' less_imp_le_nat take0 append_Nil2)
    finally have "part_of enc xs (m # ms)" using True by (auto simp: part_of_def)
    then show ?thesis using Cons(2) by (intro exI [of _ "[]"] exI [of _ "m # ms"] exI [of _ xs]) simp
  next
    case False
    define xs' where "xs' = drop (length (enc m)) xs"
    have "enc m = take (length (enc m)) (xs @ ys)" using Cons(2) by (metis stream_of_simps(2) append_eq_conv_conj)
    then have x: "xs = enc m @ xs'" using False by (metis xs'_def append_take_drop_id linorder_not_less take_append diff_is_0_eq take0 append_Nil2)
    then have "stream_of enc ms = xs' @ ys" using Cons(2) by simp
    from Cons(1) [OF this] obtain as bs r where "ms = as @ bs" "xs' = stream_of enc as @ r" "part_of enc r bs" "r @ ys = stream_of enc bs" by blast
    then show ?thesis by (intro exI [of _ "m # as"] exI [of _ bs] exI [of _ r]) (simp add: x)
  qed
qed

section \<open>The buffer between two reads\<close>

definition sock_fill :: "bytes \<Rightarrow> session \<Rightarrow> session" where
  \<comment> \<open>the socket stores what it received behind the bytes already in the buffer\<close>
  "sock_fill c s =
     (let b = cn_buffer (ss_conn s); n = unat (cb_loc b)
      in s\<lparr>ss_conn := (ss_conn s)\<lparr>cn_buffer := b\<lparr>cb_base := take n (cb_base b) @ c @ drop (n + length c) (cb_base b)\<rparr>\<rparr>\<rparr>)"

definition buffer_state :: "bool \<Rightarrow> bytes \<Rightarrow> cbuffer \<Rightarrow> bool" where
  \<comment> \<open>with \<open>nul\<close> the last byte of the allocation, which no read reaches, is NUL\<close>
  "buffer_state nul r b \<longleftrightarrow> cbuffer_ok b \<and> unat (cb_capacity b) \<le> 67108864 \<and> cb_contents b = r
     \<and> unat (cb_loc b) + 1024 < unat (cb_capacity b) \<and> (nul \<longrightarrow> last (cb_base b) = NUL)"

lemma cb_left_unat: "cbuffer_ok b \<Longrightarrow> unat (cb_left b) = unat (cb_capacity b) - unat (cb_loc b)"
  by (simp add: cbuffer_ok_def cb_left_def unat_sub)

lemma last_realloc: "length old < n \<Longrightarrow> last (realloc fresh old n) = fresh (n - 1)"
  by (simp add: realloc_def fresh_bytes_def last_map)

lemma keep_rest_state:
  assumes ok: "cbuffer_ok b" and cap: "unat (cb_capacity b) \<le> 67108864" "1024 < unat (cb_capacity b)"
    and c: "cb_contents b = xs @ r" and r: "length r + 1024 \<le> MAX_PACKET_SIZE"
    and nul: "nul \<Longrightarrow> last (cb_base b) = NUL \<and> (\<forall>n. ne_fresh env n = NUL) \<and> length r < unat (cb_capacity b)"
  shows "buffer_state nul r (keep_rest env (int (length xs)) b)"
proof -
  define n where "n = unat (cb_loc b)"
  have n: "n = length xs + length r" "n \<le> length (cb_base b)" "take n (cb_base b) = xs @ r" "length (cb_base b) = unat (cb_capacity b)"
    using ok c cb_contents_length [OF ok] by (auto simp: n_def cb_contents_def cbuffer_ok_def word_le_nat_alt)
  have k32: "unat (of_nat (length r) :: u32) = length r" using r by (intro unat_of_nat_small) (simp add: MAX_PACKET_SIZE_def)
  define b1 where "b1 = (if int (length xs) < int n
      then reset_loc (of_nat (length r)) (b\<lparr>cb_base := take (length r) (drop (length xs) (cb_base b)) @ drop (length r) (cb_base b)\<rparr>)
      else reset_loc 0 b)"
  have d: "take (length r) (drop (length xs) (cb_base b)) = r"
    using arg_cong [OF n(3), of "drop (length xs)"] n(1) by (simp add: drop_take)
  have b1: "cbuffer_ok b1" "cb_contents b1 = r" "cb_capacity b1 = cb_capacity b" "unat (cb_loc b1) = length r"
    using n d k32 by (auto simp: b1_def reset_loc_def cbuffer_ok_def cb_contents_def word_le_nat_alt)
  have l1: "last (cb_base b1) = NUL" if "nul"
    using nul [OF that] n(4) by (simp add: b1_def reset_loc_def)
  have eq: "keep_rest env (int (length xs)) b = (if cb_left b1 \<le> 1024 then add_capacity (ne_fresh env) b1 else b1)"
    using n(1) by (simp add: keep_rest_def Let_def b1_def n_def [symmetric])
  have left: "unat (cb_left b1) = unat (cb_capacity b) - length r" using cb_left_unat [OF b1(1)] b1(3,4) by simp
  have loc: "length r \<le> unat (cb_capacity b)" using b1(1,3,4) by (simp add: cbuffer_ok_def word_le_nat_alt)
  show ?thesis
  proof (cases "cb_left b1 \<le> 1024")
    case True
    then have small: "unat (cb_capacity b) \<le> length r + 1024" using left by (simp add: word_le_nat_alt)
    have fit: "unat (cb_capacity b1) + unat (cb_capacity b1) < 2 ^ 32" using cap by (simp add: b1(3))
    note g = add_capacity_by_ok [OF b1(1) fit, of "ne_fresh env"]
    have "length (cb_base b1) < unat (cb_capacity b1 + cb_capacity b1)"
      using b1(1,3) cap fit by (subst unat_add_no_wrap) (auto simp: cbuffer_ok_def)
    then have "last (cb_base (add_capacity (ne_fresh env) b1)) = NUL" if "nul"
      using nul [OF that] by (simp add: add_capacity_def add_capacity_by_def Let_def last_realloc)
    then show ?thesis
      using True g b1 cap small r loc by (simp add: eq buffer_state_def add_capacity_def MAX_PACKET_SIZE_def)
  next
    case False
    then have "length r + 1024 < unat (cb_capacity b)" using left by (simp add: word_le_nat_alt)
    with False b1 l1 cap show ?thesis by (simp add: eq buffer_state_def)
  qed
qed

definition endpoint_ok :: "net_env \<Rightarrow> bool" where
  "endpoint_ok env \<longleftrightarrow> (case ne_endpoint env of Some (ip, _) \<Rightarrow> length (c_str ip) \<le> 16 | None \<Rightarrow> True)"

definition stream_env :: "bool \<Rightarrow> net_env \<Rightarrow> bool" where
  \<comment> \<open>with \<open>nul\<close> allocated memory is zero\<close>
  "stream_env nul env \<longleftrightarrow> endpoint_ok env \<and> (nul \<longrightarrow> (\<forall>n. ne_fresh env n = NUL))"

definition stream_ready :: "parser_kind \<Rightarrow> bool \<Rightarrow> bytes \<Rightarrow> session \<Rightarrow> bool" where
  "stream_ready k nul r s \<longleftrightarrow> reader k s \<and> buffer_state nul r (cn_buffer (ss_conn s))"

text \<open>The read handler fills the buffer, runs the loop and finishes.\<close>

definition finish_read :: "net_env \<Rightarrow> read_end \<times> session \<Rightarrow> (read_end \<times> session) option" where
  "finish_read env = (\<lambda>es. case fst es of
     RdPending p \<Rightarrow>
       let c2 = (ss_conn (snd es))\<lparr>cn_dealing := False\<rparr>; c3 = c2\<lparr>cn_buffer := keep_rest env p (cn_buffer c2)\<rparr>
       in Some (fst es, (snd es)\<lparr>ss_conn := AsyncReadInner env c3\<rparr>)
   | _ \<Rightarrow> Some (fst es, snd es))"

lemma HandleRead_begin:
  assumes s: "stream_ready k nul r s" and c: "length c \<le> 1024" and len: "length r + 1024 \<le> MAX_PACKET_SIZE"
  shows "\<exists>s1 rest. HandleRead env fuel False (length c) (sock_fill c s) = read_loop env fuel 0 s1 \<bind> finish_read env
    \<and> reader k s1 \<and> view s1 = view s \<and> reads_on s s1 \<and> cbuffer_ok (cn_buffer (ss_conn s1))
    \<and> cb_contents (cn_buffer (ss_conn s1)) = r @ c \<and> cb_base (cn_buffer (ss_conn s1)) = (r @ c) @ rest
    \<and> unat (cb_loc (cn_buffer (ss_conn s1))) = length (r @ c)
    \<and> unat (cb_capacity (cn_buffer (ss_conn s1))) \<le> 67108864 \<and> length (r @ c) < unat (cb_capacity (cn_buffer (ss_conn s1)))
    \<and> 1024 < unat (cb_capacity (cn_buffer (ss_conn s1))) \<and> rest \<noteq> [] \<and> (nul \<longrightarrow> last rest = NUL)"
proof -
  define b where "b = cn_buffer (ss_conn s)"
  define n where "n = unat (cb_loc b)"
  have b: "cbuffer_ok b" "unat (cb_capacity b) \<le> 67108864" "cb_contents b = r" "n + 1024 < unat (cb_capacity b)"
    "nul \<longrightarrow> last (cb_base b) = NUL" and t: "reader k s"
    using s by (simp_all add: stream_ready_def buffer_state_def b_def n_def)
  have nb: "take n (cb_base b) = r" "length (cb_base b) = unat (cb_capacity b)" "n = length r"
    using b cb_contents_length [OF b(1)] by (simp_all add: cb_contents_def n_def cbuffer_ok_def)
  define rest where "rest = drop (n + length c) (cb_base b)"
  have rest: "rest \<noteq> []" "nul \<longrightarrow> last rest = NUL" using b(4,5) nb(2) c by (simp_all add: rest_def)
  define b2 where "b2 = inc_loc (of_nat (length c)) (b\<lparr>cb_base := take n (cb_base b) @ c @ rest\<rparr>)"
  have uc: "unat (of_nat (length c) :: u32) = length c" using c by (intro unat_of_nat_small) simp
  have loc2: "unat (cb_loc b2) = n + length c"
    unfolding b2_def inc_loc_def using b c by (simp, subst unat_add_no_wrap) (simp_all add: uc n_def)
  have b2: "cbuffer_ok b2" "cb_contents b2 = r @ c" "cb_capacity b2 = cb_capacity b" "cb_base b2 = (r @ c) @ rest"
    using nb b loc2 c by (auto simp: cbuffer_ok_def cb_contents_def word_le_nat_alt b2_def inc_loc_def rest_def)
  define s1 where "s1 = s\<lparr>ss_conn := (ss_conn s)\<lparr>cn_connected := True, cn_buffer := b2\<rparr>\<rparr>"
  have t1: "reader k s1" "view s1 = view s" "reads_on s s1" using t by (simp_all add: reader_def view_def reads_on_def s1_def)
  have big: "unat (cb_len b2) \<le> MAX_PACKET_SIZE" using loc2 nb(3) c len by (simp add: cb_len_def)
  have "HandleRead env fuel False (length c) (sock_fill c s) = read_loop env fuel 0 s1 \<bind> finish_read env"
    using big by (simp add: HandleRead_def finish_read_def sock_fill_def Let_def b_def [symmetric] n_def [symmetric] rest_def [symmetric]
        b2_def [symmetric] s1_def [symmetric] case_prod_unfold)
  then show ?thesis using t1 b2 loc2 b rest c nb by (intro exI [of _ s1] exI [of _ rest]) (simp add: s1_def)
qed

text \<open>The completions of one read after the other, as long as the connection goes on reading.\<close>

fun feed :: "net_env \<Rightarrow> nat \<Rightarrow> bytes list \<Rightarrow> session \<Rightarrow> session option" where
  "feed env fuel [] s = Some s"
| "feed env fuel (c # cs) s =
     (case HandleRead env fuel False (length c) (sock_fill c s) of
        Some (RdPending p, s') \<Rightarrow> feed env fuel cs s'
      | _ \<Rightarrow> None)"

section \<open>The contract of a parser\<close>

definition new_message :: "parser_kind \<Rightarrow> nat \<Rightarrow> net_msg" where
  "new_message k a = (case k of HttpParser \<Rightarrow> HttpMsg (shttp_message_new a) | ThriftParser \<Rightarrow> ThriftMsg (sthrift_message_new a))"

text \<open>
  A complete message at the start of the data is decoded and consumed exactly, into a message that stands for
  \<open>m\<close> (\<open>means\<close>); an allowed beginning of one is reported as incomplete.
\<close>

locale wire_decoder =
  fixes kind :: parser_kind
    and nul :: bool \<comment> \<open>whether the decoder needs a NUL at the end of the memory\<close>
    and enc :: "'m \<Rightarrow> bytes"
    and ok :: "'m \<Rightarrow> bool"
    and brk :: "'m \<Rightarrow> nat \<Rightarrow> bool"
    and means :: "'m \<Rightarrow> net_msg \<Rightarrow> bool"
  assumes enc_size: "ok m \<Longrightarrow> 0 < length (enc m) \<and> length (enc m) + 1024 \<le> MAX_PACKET_SIZE"
    and complete: "ok m \<Longrightarrow> cn_kind c = kind \<Longrightarrow> cb_base (cn_buffer c) = pre @ enc m @ rest \<Longrightarrow> length (enc m) \<le> len
      \<Longrightarrow> len < 2 ^ 32 \<Longrightarrow> msg_Init now ip port (new_message kind a) = Some m1
      \<Longrightarrow> \<exists>ps m2. conn_decode env c (length pre) len m1
            = Some (PAt (int (length pre + length (enc m))), c\<lparr>cn_parser := ps\<rparr>, m2) \<and> means m m2"
    and partial: "ok m \<Longrightarrow> cn_kind c = kind \<Longrightarrow> cb_base (cn_buffer c) = pre @ take k (enc m) @ rest \<Longrightarrow> k < length (enc m)
      \<Longrightarrow> brk m k \<Longrightarrow> nul \<longrightarrow> rest \<noteq> [] \<and> last rest = NUL \<Longrightarrow> msg_Init now ip port (new_message kind a) = Some m1
      \<Longrightarrow> \<exists>ps m2. conn_decode env c (length pre) k m1 = Some (PAt (int (length pre)), c\<lparr>cn_parser := ps\<rparr>, m2)"

text \<open>On top of it the session takes the decoded message: what it tells its owner is \<open>deliver\<close>.\<close>

locale stream_protocol = wire_decoder +
  fixes deliver :: "'a \<Rightarrow> view \<Rightarrow> view"
  assumes delivered: "reader kind s \<Longrightarrow> means m m2 \<Longrightarrow> ok m \<Longrightarrow> \<exists>s1 e. session_OnRead env m2 s = Some s1 \<and> reader kind s1
      \<and> ss_conn s1 = emit (EvRead e) (ss_conn s) \<and> view s1 = deliver m (view s)"
begin

lemma new_CreateMessage:
  "cn_kind c = kind \<Longrightarrow> CreateMessage c = (new_message kind (cn_next c), c\<lparr>cn_next := Suc (cn_next c)\<rparr>)"
  by (cases kind) (simp_all add: CreateMessage_def new_message_def)

lemma new_Init: "length (c_str ip) \<le> 16 \<Longrightarrow> \<exists>m1. msg_Init now ip port (new_message kind a) = Some m1"
  by (cases kind) (simp_all add: new_message_def event_Init_def)

lemma turn:
  assumes t: "reader kind s" and p: "p = int (length pre)" "cb_base (cn_buffer (ss_conn s)) = pre @ enc m @ rest"
    and loc: "length pre + length (enc m) \<le> unat (cb_loc (cn_buffer (ss_conn s)))" and m: "ok m"
  shows "\<exists>s1. reader kind s1 \<and> cn_buffer (ss_conn s1) = cn_buffer (ss_conn s) \<and> view s1 = deliver m (view s) \<and> reads_on s s1
    \<and> (\<forall>fuel. read_loop env (Suc fuel) p s = read_loop env fuel (p + int (length (enc m))) s1)"
proof -
  define c where "c = ss_conn s"
  define L where "L = unat (cb_loc (cn_buffer c))"
  define c1 where "c1 = c\<lparr>cn_dealing := True, cn_next := Suc (cn_next c)\<rparr>"
  have st: "cn_kind c = kind" "cn_session c" "length (c_str (cn_remoteip c)) \<le> 16"
    using t by (simp_all add: reader_def c_def)
  have cm: "CreateMessage (c\<lparr>cn_dealing := True\<rparr>) = (new_message kind (cn_next c), c1)"
    using st(1) by (subst new_CreateMessage) (simp_all add: c1_def)
  obtain m1 where ini: "msg_Init (ne_now env) (cn_remoteip c1) (cn_remoteport c1) (new_message kind (cn_next c)) = Some m1"
    using new_Init [of "cn_remoteip c1" "ne_now env" "cn_remoteport c1" "cn_next c"] st(3) by (auto simp: c1_def)
  have L: "length pre + length (enc m) \<le> L" "L < 2 ^ 32" using loc unat_u32_lt [of "cb_loc (cn_buffer c)"] by (simp_all add: L_def c_def)
  have base: "cb_base (cn_buffer c1) = pre @ enc m @ rest" "cn_kind c1 = kind" using p(2) st(1) by (simp_all add: c1_def c_def)
  have len: "length (enc m) \<le> L - length pre" "L - length pre < 2 ^ 32" using L by simp_all
  obtain ps m2 where cd: "conn_decode env c1 (length pre) (L - length pre) m1
      = Some (PAt (int (length pre + length (enc m))), c1\<lparr>cn_parser := ps\<rparr>, m2)" and m2: "means m m2"
    using complete [OF m base(2,1) len ini] by blast
  define c2 where "c2 = c1\<lparr>cn_parser := ps\<rparr>"
  have r2: "reader kind (s\<lparr>ss_conn := c2\<rparr>)" using t by (simp add: reader_def c2_def c1_def c_def)
  obtain s1 e where s1: "session_OnRead env m2 (s\<lparr>ss_conn := c2\<rparr>) = Some s1" "reader kind s1"
    "ss_conn s1 = emit (EvRead e) c2" "view s1 = deliver m (view (s\<lparr>ss_conn := c2\<rparr>))"
    using delivered [OF r2 m2 m, of env] by auto
  have v: "view (s\<lparr>ss_conn := c2\<rparr>) = view s" by (simp add: view_def c2_def c1_def c_def)
  have "cn_buffer (ss_conn s1) = cn_buffer (ss_conn s)" by (simp add: s1(3) c2_def c1_def c_def emit_def)
  moreover have "reads_on s s1" by (simp add: reads_on_def s1(3) c2_def c1_def c_def emit_def)
  moreover have "read_loop env (Suc fuel) p s = read_loop env fuel (p + int (length (enc m))) s1" for fuel
  proof -
    have ses: "cn_session c2" using st(2) by (simp add: c2_def c1_def)
    have pos: "0 < length (enc m)" using enc_size [OF m] by blast
    define q where "q = p + int (length (enc m))"
    have pq: "0 \<le> p" "p < int L" "q \<noteq> p" "q \<le> int L" "nat p = length pre" "nat (int L - p) = L - length pre"
      unfolding q_def using p(1) L(1) pos by linarith+
    have q: "int (length pre + length (enc m)) = q" using p(1) by (simp add: q_def)
    show ?thesis unfolding q_def [symmetric]
      unfolding read_loop.simps [of env "Suc fuel" p s] cb_len_def Let_def c_def [symmetric] L_def [symmetric] cm
      using pq ses ini cd [unfolded q, folded c2_def] s1(1)
      by (simp del: conn_decode.simps msg_Init.simps session_OnRead.simps of_nat_diff)
  qed
  ultimately show ?thesis using s1(2,4) v by (intro exI [of _ s1]) simp
qed

lemma loop_end:
  assumes t: "reader kind s" and p: "p = int (length pre)" "cb_base (cn_buffer (ss_conn s)) = pre @ r @ rest"
    and loc: "unat (cb_loc (cn_buffer (ss_conn s))) = length pre + length r" and r: "part_of enc r ms" and ms: "\<forall>m\<in>set ms. ok m"
    and brk: "fair_break enc brk ms (length r)" and rest: "nul \<longrightarrow> rest \<noteq> [] \<and> last rest = NUL"
  shows "\<exists>s1. read_loop env (Suc fuel) p s = Some (RdPending p, s1) \<and> reader kind s1 \<and> cn_buffer (ss_conn s1) = cn_buffer (ss_conn s)
    \<and> view s1 = view s \<and> reads_on s s1"
proof (cases "r = []")
  case True
  with loc p t show ?thesis by (simp add: read_loop.simps cb_len_def)
next
  case False
  define c where "c = ss_conn s"
  define L where "L = unat (cb_loc (cn_buffer c))"
  define c1 where "c1 = c\<lparr>cn_dealing := True, cn_next := Suc (cn_next c)\<rparr>"
  have st: "cn_kind c = kind" "cn_session c" "length (c_str (cn_remoteip c)) \<le> 16"
    using t by (simp_all add: reader_def c_def)
  have cm: "CreateMessage (c\<lparr>cn_dealing := True\<rparr>) = (new_message kind (cn_next c), c1)"
    using st(1) by (subst new_CreateMessage) (simp_all add: c1_def)
  obtain m1 where ini: "msg_Init (ne_now env) (cn_remoteip c1) (cn_remoteport c1) (new_message kind (cn_next c)) = Some m1"
    using new_Init [of "cn_remoteip c1" "ne_now env" "cn_remoteport c1" "cn_next c"] st(3) by (auto simp: c1_def)
  obtain m ms' where m: "ms = m # ms'" using r False by (cases ms) (auto simp: part_of_def)
  obtain k where k: "k < length (enc m)" "r = take k (enc m)" using r m by (auto simp: part_of_def)
  have L: "L = length pre + k" using loc k by (simp add: L_def c_def)
  have base: "cb_base (cn_buffer c1) = pre @ take k (enc m) @ rest" "cn_kind c1 = kind"
    using p(2) st(1) k(2) by (simp_all add: c1_def c_def)
  have ok: "ok m" "brk m k" using ms brk k by (simp_all add: m)
  obtain ps m2 where cd: "conn_decode env c1 (length pre) k m1 = Some (PAt (int (length pre)), c1\<lparr>cn_parser := ps\<rparr>, m2)"
    using partial [OF ok(1) base(2,1) k(1) ok(2) rest ini] by blast
  have pq: "0 \<le> p" "p < int L" "nat p = length pre" "nat (int L - p) = k" using p L k False by auto
  have "read_loop env (Suc fuel) p s = Some (RdPending p, semit (EvDelete m2) (s\<lparr>ss_conn := c1\<lparr>cn_parser := ps\<rparr>\<rparr>))"
    unfolding read_loop.simps [of env "Suc fuel" p s] cb_len_def Let_def c_def [symmetric] L_def [symmetric] cm
    using pq ini cd p(1) by (simp del: conn_decode.simps msg_Init.simps session_OnRead.simps of_nat_diff)
  then show ?thesis using t by (simp add: reader_def c1_def c_def reads_on_def view_def semit_def emit_def)
qed

lemma loop:
  assumes "reader kind s" "p = int (length pre)" "cb_base (cn_buffer (ss_conn s)) = pre @ stream_of enc as @ r @ rest"
    and "unat (cb_loc (cn_buffer (ss_conn s))) = length pre + length (stream_of enc as) + length r"
    and "part_of enc r bs" "\<forall>m\<in>set (as @ bs). ok m" "length as < fuel"
    and "fair_break enc brk bs (length r)" "nul \<longrightarrow> rest \<noteq> [] \<and> last rest = NUL"
  shows "\<exists>s1. read_loop env fuel p s = Some (RdPending (p + int (length (stream_of enc as))), s1) \<and> reader kind s1
    \<and> cn_buffer (ss_conn s1) = cn_buffer (ss_conn s) \<and> view s1 = fold deliver as (view s) \<and> reads_on s s1"
  using assms
proof (induction as arbitrary: s p pre fuel)
  case Nil
  then obtain f where "fuel = Suc f" by (cases fuel) auto
  with loop_end [OF Nil(1,2) _ _ Nil(5) _ Nil(8,9), of env f] Nil(3,4,6) show ?case by simp
next
  case (Cons m ms)
  then obtain f where f: "fuel = Suc f" by (cases fuel) auto
  have b: "cb_base (cn_buffer (ss_conn s)) = pre @ enc m @ (stream_of enc ms @ r @ rest)" using Cons(4) by simp
  have l: "length pre + length (enc m) \<le> unat (cb_loc (cn_buffer (ss_conn s)))" using Cons(5) by simp
  have ok: "ok m" using Cons(7) by simp
  from turn [OF Cons(2,3) b l ok, of env] obtain s1 where s1: "reader kind s1" "cn_buffer (ss_conn s1) = cn_buffer (ss_conn s)"
    "view s1 = deliver m (view s)" "reads_on s s1" "read_loop env (Suc f) p s = read_loop env f (p + int (length (enc m))) s1" by blast
  have p': "p + int (length (enc m)) = int (length (pre @ enc m))" using Cons(3) by simp
  have b': "cb_base (cn_buffer (ss_conn s1)) = (pre @ enc m) @ stream_of enc ms @ r @ rest" using b s1(2) by simp
  have l': "unat (cb_loc (cn_buffer (ss_conn s1))) = length (pre @ enc m) + length (stream_of enc ms) + length r" using Cons(5) s1(2) by simp
  have "\<forall>m\<in>set (ms @ bs). ok m" "length ms < f" using Cons(7,8) f by simp_all
  from Cons(1) [OF s1(1) p' b' l' Cons(6) this Cons(9,10)] obtain s2 where
    s2: "read_loop env f (p + int (length (enc m))) s1 = Some (RdPending (p + int (length (enc m)) + int (length (stream_of enc ms))), s2)"
      "reader kind s2" "cn_buffer (ss_conn s2) = cn_buffer (ss_conn s1)" "view s2 = fold deliver ms (view s1)" "reads_on s1 s2"
    by blast
  then show ?case using f s1 reads_on_trans [OF s1(4) s2(5)] by (intro exI [of _ s2]) (simp add: add.assoc)
qed

lemma part_size: "part_of enc r ms \<Longrightarrow> \<forall>m\<in>set ms. ok m \<Longrightarrow> length r + 1024 \<le> MAX_PACKET_SIZE"
  using enc_size by (cases ms) (fastforce simp: part_of_def MAX_PACKET_SIZE_def)+

lemma HandleRead_stream:
  assumes s: "stream_ready kind nul r s" and c: "length c \<le> 1024" and split: "r @ c = stream_of enc as @ r'"
    and r': "part_of enc r' bs" and ok: "\<forall>m\<in>set (as @ bs). ok m" and f: "length as < fuel"
    and len: "length r + 1024 \<le> MAX_PACKET_SIZE" and env: "stream_env nul env" and brk: "fair_break enc brk bs (length r')"
  shows "\<exists>p s'. HandleRead env fuel False (length c) (sock_fill c s) = Some (RdPending p, s') \<and> stream_ready kind nul r' s'
    \<and> view s' = fold deliver as (view s) \<and> reads_on s s'
    \<and> (\<exists>n\<ge>1024. last (strace s') = SockRead n \<and> n < unat (cb_left (cn_buffer (ss_conn s'))))"
proof -
  obtain s1 rest where H: "HandleRead env fuel False (length c) (sock_fill c s) = read_loop env fuel 0 s1 \<bind> finish_read env"
    and t1: "reader kind s1" "view s1 = view s" "reads_on s s1"
    and b: "cbuffer_ok (cn_buffer (ss_conn s1))" "cb_contents (cn_buffer (ss_conn s1)) = r @ c"
      "cb_base (cn_buffer (ss_conn s1)) = (r @ c) @ rest" "unat (cb_loc (cn_buffer (ss_conn s1))) = length (r @ c)"
      "unat (cb_capacity (cn_buffer (ss_conn s1))) \<le> 67108864" "length (r @ c) < unat (cb_capacity (cn_buffer (ss_conn s1)))"
      "1024 < unat (cb_capacity (cn_buffer (ss_conn s1)))"
    and rest: "rest \<noteq> []" "nul \<longrightarrow> last rest = NUL"
    using HandleRead_begin [OF s c len, of env fuel] by blast
  define b2 where "b2 = cn_buffer (ss_conn s1)"
  have base1: "cb_base (cn_buffer (ss_conn s1)) = [] @ stream_of enc as @ r' @ rest"
    and loc1: "unat (cb_loc (cn_buffer (ss_conn s1))) = length [] + length (stream_of enc as) + length r'"
    using b(3,4) split by simp_all
  have rn: "nul \<longrightarrow> rest \<noteq> [] \<and> last rest = NUL" using rest by simp
  obtain s2 where s2: "read_loop env fuel 0 s1 = Some (RdPending (int (length (stream_of enc as))), s2)" "reader kind s2"
    "cn_buffer (ss_conn s2) = b2" "view s2 = fold deliver as (view s)" "reads_on s1 s2"
    using loop [OF t1(1) _ base1 loc1 r' ok f brk rn, of 0 env] t1(2) by (auto simp: b2_def)
  have lr: "length r' + 1024 \<le> MAX_PACKET_SIZE" using part_size [OF r'] ok by simp
  define b3 where "b3 = keep_rest env (int (length (stream_of enc as))) b2"
  have "length r' \<le> length (r @ c)" unfolding split by simp
  then have b3: "buffer_state nul r' b3"
    unfolding b3_def by (intro keep_rest_state) (use b split lr rest env in \<open>auto simp: stream_env_def b2_def\<close>)
  define c3 where "c3 = (ss_conn s2)\<lparr>cn_dealing := False, cn_buffer := b3\<rparr>"
  define c4 where "c4 = (if cn_remoteip c3 = [] \<or> cn_remoteport c3 = 0 then read_endpoint env c3 else c3)"
  have c4: "cn_connected c4" "\<not> cn_dealing c4" "cn_buffer c4 = b3" "cn_kind c4 = kind" "cn_session c4"
    "length (c_str (cn_remoteip c4)) \<le> 16" "cn_trace c4 = strace s2"
    "cn_writebuf c4 = cn_writebuf (ss_conn s2)" "cn_id c4 = cn_id (ss_conn s2)"
    using s2(2) env by (auto simp: c4_def c3_def read_endpoint_def reader_def stream_env_def endpoint_ok_def split: option.splits)
  have inner: "AsyncReadInner env c3 = emit (SockRead (unat (cb_left b3 - 1))) c4"
    using s2(2) c4 by (simp add: AsyncReadInner_def Let_def c4_def [symmetric]) (simp add: c3_def reader_def)
  define s4 where "s4 = s2\<lparr>ss_conn := emit (SockRead (unat (cb_left b3 - 1))) c4\<rparr>"
  have "HandleRead env fuel False (length c) (sock_fill c s) = Some (RdPending (int (length (stream_of enc as))), s4)"
    using s2(1) inner s2(3) by (simp add: H finish_read_def Let_def b3_def [symmetric] c3_def [symmetric] s4_def)
  moreover have "stream_ready kind nul r' s4"
    using s2(2) c4 b3 by (simp add: stream_ready_def reader_def s4_def emit_def)
  moreover have "view s4 = fold deliver as (view s)"
    using s2(4) c4(7) by (simp add: s4_def emit_def view_def)
  moreover have "reads_on s2 s4" using c4 by (simp add: reads_on_def s4_def emit_def)
  moreover have "\<exists>n\<ge>1024. last (strace s4) = SockRead n \<and> n < unat (cb_left (cn_buffer (ss_conn s4)))"
  proof -
    have l: "1024 < unat (cb_left b3)" using b3 cb_left_unat [of b3] by (simp add: buffer_state_def less_diff_conv)
    then have "unat (cb_left b3 - 1) = unat (cb_left b3) - 1" by (subst unat_sub) (auto simp: word_le_nat_alt)
    with l c4(3) show ?thesis by (simp add: s4_def emit_def)
  qed
  ultimately show ?thesis using reads_on_trans [OF t1(3) s2(5)] reads_on_trans by blast
qed

lemma feed_stream:
  assumes "stream_ready kind nul r s" "r @ concat cs @ rest = stream_of enc ms" "part_of enc r ms" "\<forall>c\<in>set cs. length c \<le> 1024"
    and "\<forall>m\<in>set ms. ok m" "length ms < fuel" "stream_env nul env"
    and "\<forall>i\<le>length cs. fair_break enc brk ms (length r + length (concat (take i cs)))"
  shows "\<exists>s' as bs r'. feed env fuel cs s = Some s' \<and> ms = as @ bs \<and> part_of enc r' bs \<and> r @ concat cs = stream_of enc as @ r'
    \<and> stream_ready kind nul r' s' \<and> view s' = fold deliver as (view s) \<and> reads_on s s'"
  using assms
proof (induction cs arbitrary: r s ms)
  case Nil
  then show ?case by (intro exI [of _ s] exI [of _ "[]"] exI [of _ ms] exI [of _ r]) simp
next
  case (Cons c cs)
  have split: "stream_of enc ms = (r @ c) @ (concat cs @ rest)" using Cons(3) by simp
  from stream_split [OF split] obtain as bs r' where ab: "ms = as @ bs" "r @ c = stream_of enc as @ r'" "part_of enc r' bs"
    "r' @ concat cs @ rest = stream_of enc bs" by auto
  have lr: "length r + 1024 \<le> MAX_PACKET_SIZE" by (rule part_size [OF Cons(4,6)])
  have ok: "\<forall>m\<in>set (as @ bs). ok m" "length as < fuel" "length c \<le> 1024" using Cons(5-7) ab(1) by auto
  have e: "length r + length c = length (stream_of enc as) + length r'" using arg_cong [OF ab(2), of length] by simp
  have brk: "\<forall>i\<le>length cs. fair_break enc brk bs (length r' + length (concat (take i cs)))"
  proof (intro allI impI)
    fix i assume "i \<le> length cs"
    with Cons(9) have "fair_break enc brk ms (length r + length (concat (take (Suc i) (c # cs))))" by fastforce
    also have "length r + length (concat (take (Suc i) (c # cs))) = length (stream_of enc as) + (length r' + length (concat (take i cs)))"
      using e by simp
    finally show "fair_break enc brk bs (length r' + length (concat (take i cs)))" by (simp only: ab(1) fair_break_behind)
  qed
  then have "fair_break enc brk bs (length r')" by force
  from HandleRead_stream [OF Cons(2) ok(3) ab(2,3) ok(1,2) lr Cons(8) this] obtain p s1 where
    s1: "HandleRead env fuel False (length c) (sock_fill c s) = Some (RdPending p, s1)" "stream_ready kind nul r' s1"
      "view s1 = fold deliver as (view s)" "reads_on s s1" by blast
  have "\<forall>c\<in>set cs. length c \<le> 1024" "\<forall>m\<in>set bs. ok m" "length bs < fuel" using Cons(5-7) ab(1) by auto
  from Cons(1) [OF s1(2) ab(4,3) this Cons(8) brk] obtain s2 as2 bs2 r2 where
    s2: "feed env fuel cs s1 = Some s2" "bs = as2 @ bs2" "part_of enc r2 bs2" "r' @ concat cs = stream_of enc as2 @ r2"
      "stream_ready kind nul r2 s2" "view s2 = fold deliver as2 (view s1)" "reads_on s1 s2" by blast
  have "r @ concat (c # cs) = (r @ c) @ concat cs" by simp
  also have "\<dots> = stream_of enc as @ r' @ concat cs" unfolding ab(2) by simp
  also have "\<dots> = stream_of enc (as @ as2) @ r2" unfolding s2(4) by simp
  finally have e: "r @ concat (c # cs) = stream_of enc (as @ as2) @ r2" .
  have f: "feed env fuel (c # cs) s = Some s2" using s1(1) s2(1) by simp
  have m: "ms = (as @ as2) @ bs2" using ab(1) s2(2) by simp
  have k: "view s2 = fold deliver (as @ as2) (view s)" using s1(3) s2(6) by simp
  show ?case
    by (rule exI [of _ s2], rule exI [of _ "as @ as2"], rule exI [of _ bs2], rule exI [of _ r2])
      (intro conjI f m s2(3) e s2(5) k reads_on_trans [OF s1(4) s2(7)])
qed

text \<open>
  The whole stream: every message that is complete has been delivered, in order, and the buffer holds the
  beginning of the next one.
\<close>

lemma reassembled:
  assumes "stream_ready kind nul [] s" "concat cs @ rest = stream_of enc ms" "\<forall>c\<in>set cs. length c \<le> 1024"
    and "\<forall>m\<in>set ms. ok m" "length ms < fuel" "stream_env nul env"
    and "\<forall>i\<le>length cs. fair_break enc brk ms (length (concat (take i cs)))"
  shows "\<exists>s' as bs r. feed env fuel cs s = Some s' \<and> ms = as @ bs \<and> part_of enc r bs \<and> concat cs = stream_of enc as @ r
    \<and> view s' = fold deliver as (view s) \<and> cb_contents (cn_buffer (ss_conn s')) = r \<and> (rest = [] \<longrightarrow> as = ms)
    \<and> stream_ready kind nul r s' \<and> reads_on s s'"
proof -
  have pp: "part_of enc [] ms" using assms(4) enc_size by (cases ms) (auto simp: part_of_def intro!: exI [of _ 0])
  obtain s' as bs r where f: "feed env fuel cs s = Some s'" "ms = as @ bs" "part_of enc r bs" "[] @ concat cs = stream_of enc as @ r"
    "stream_ready kind nul r s'" "view s' = fold deliver as (view s)" "reads_on s s'"
    using feed_stream [OF assms(1) _ pp assms(3-6), of rest] assms(2,7) by auto
  have "as = ms" if "rest = []"
  proof -
    have e: "r = stream_of enc bs" using that f(2,4) assms(2) by simp
    show ?thesis
    proof (cases bs)
      case (Cons b bs')
      then obtain k where "k < length (enc b)" "r = take k (enc b)" using f(3) by (auto simp: part_of_def)
      then have "length r < length (enc b)" by simp
      moreover have "length (enc b) \<le> length r" using e Cons by simp
      ultimately show ?thesis by simp
    qed (use f(2) in simp)
  qed
  with f show ?thesis by (auto simp: stream_ready_def buffer_state_def)
qed

end

end
