(* ===== verification/ThriftReadLoop.thy ===== *)
theory ThriftReadLoop
  imports StreamRead
begin

text \<open>
  The Thrift parser and session keep the contract of \<open>StreamRead\<close>: the requests in the received stream are
  delivered one by one, however the stream is cut into reads.
\<close>

section \<open>The stream\<close>

abbreviation tenc :: "sthrift_message \<Rightarrow> bytes" where
  "tenc m \<equiv> concat (thrift_encode m)"

abbreviation stream :: "sthrift_message list \<Rightarrow> bytes" where
  "stream \<equiv> stream_of tenc"

abbreviation proper_part :: "bytes \<Rightarrow> sthrift_message list \<Rightarrow> bool" where
  "proper_part \<equiv> part_of tenc"

abbreviation stream_state :: "bytes \<Rightarrow> session \<Rightarrow> bool" where
  "stream_state \<equiv> stream_ready ThriftParser False"

lemma tenc_length: "length (tenc m) = 16 + length (thrift_method m) + length (thrift_body m)"
  by (simp add: length_thrift_encode)

definition call_of :: "sthrift_message \<Rightarrow> told" where
  "call_of m = Call (thrift_method m) (thrift_body m) (bswap32 (seqid m))"

definition call_ok :: "sthrift_message \<Rightarrow> bool" where
  "call_ok m \<longleftrightarrow> \<not> IsReply m \<and> \<not> thrift_is_heartbeat_name (thrift_method m) \<and> length (tenc m) + 1024 \<le> MAX_PACKET_SIZE"

lemma call_ok_fits: "call_ok m \<Longrightarrow> thrift_fits m"
  by (simp add: call_ok_def thrift_fits_def tenc_length MAX_PACKET_SIZE_def)

section \<open>The contract\<close>

definition call_means :: "sthrift_message \<Rightarrow> net_msg \<Rightarrow> bool" where
  "call_means m m2 \<longleftrightarrow> (\<exists>m1. m2 = ThriftMsg (thrift_received m m1) \<and> \<not> isheartbeat m1)"

definition deliver_call :: "sthrift_message \<Rightarrow> view \<Rightarrow> view" where
  "deliver_call m v = (fst v @ [call_of m], snd v)"

lemma fold_deliver_call: "fold deliver_call ms v = (fst v @ map call_of ms, snd v)"
  by (induction ms arbitrary: v) (simp_all add: deliver_call_def)

lemma thrift_complete:
  assumes m: "call_ok m" and c: "cn_kind c = ThriftParser" "cb_base (cn_buffer c) = pre @ tenc m @ rest"
    and len: "length (tenc m) \<le> len" "len < 2 ^ 32" and ini: "msg_Init now ip port (new_message ThriftParser a) = Some m1"
  shows "\<exists>ps m2. conn_decode env c (length pre) len m1
    = Some (PAt (int (length pre + length (tenc m))), c\<lparr>cn_parser := ps\<rparr>, m2) \<and> call_means m m2"
proof -
  obtain x where x: "m1 = ThriftMsg x" "\<not> isheartbeat x"
    using ini by (auto simp: new_message_def event_Init_def sthrift_message_new_def bind_eq_Some_iff)
  have room: "length (tenc m) \<le> unat (of_nat len :: u32)" using len by (subst unat_of_nat_small) auto
  have "conn_decode env c (length pre) len m1
      = Some (PAt (int (length pre + length (tenc m))), c\<lparr>cn_parser := cn_parser c\<rparr>, ThriftMsg (thrift_received m x))"
    using thrift_decode_encoded [OF call_ok_fits [OF m] room, of pre rest x] c by (simp add: x(1))
  moreover have "call_means m (ThriftMsg (thrift_received m x))" using x(2) by (auto simp: call_means_def)
  ultimately show ?thesis by blast
qed

lemma thrift_partial:
  assumes m: "call_ok m" and c: "cn_kind c = ThriftParser" "cb_base (cn_buffer c) = pre @ take k (tenc m) @ rest"
    and k: "k < length (tenc m)" and ini: "msg_Init now ip port (new_message ThriftParser a) = Some m1"
  shows "\<exists>ps m2. conn_decode env c (length pre) k m1 = Some (PAt (int (length pre)), c\<lparr>cn_parser := ps\<rparr>, m2)"
proof -
  obtain x where x: "m1 = ThriftMsg x" using ini by (auto simp: new_message_def)
  have "length (tenc m) < 2 ^ 32" using m by (simp add: call_ok_def MAX_PACKET_SIZE_def)
  then have uk: "unat (of_nat k :: u32) = k" using k by (intro unat_of_nat_small) simp
  have "thrift_decode (pre @ take k (tenc m) @ rest) (length pre) (of_nat k) x = Some (PAt (int (length pre)), x)"
    using thrift_decode_partial [of m "of_nat k" pre rest x] call_ok_fits [OF m] k uk by simp
  then have "conn_decode env c (length pre) k m1 = Some (PAt (int (length pre)), c\<lparr>cn_parser := cn_parser c\<rparr>, ThriftMsg x)"
    using c by (simp add: x)
  then show ?thesis by blast
qed

lemma thrift_delivered:
  assumes r: "reader ThriftParser s" and mm: "call_means m m2" and m: "call_ok m"
  shows "\<exists>s1 e. session_OnRead env m2 s = Some s1 \<and> reader ThriftParser s1
    \<and> ss_conn s1 = emit (EvRead e) (ss_conn s) \<and> view s1 = deliver_call m (view s)"
proof -
  obtain x where x: "m2 = ThriftMsg (thrift_received m x)" "\<not> isheartbeat x" using mm by (auto simp: call_means_def)
  have req: "nm_direction m2 = E_Request" "\<not> nm_isheartbeat m2"
    using m x by (simp_all add: thrift_received_def call_ok_def)
  have "session_OnRead env m2 s = Some (semit (EvRead m2) (SetStatus S_CONNECTED s))"
    using r x base_OnRead_request [OF req, of s env] by (simp add: reader_def)
  moreover have "view (semit (EvRead m2) (SetStatus S_CONNECTED s)) = deliver_call m (view s)"
    using m by (simp add: view_def deliver_call_def semit_def emit_def SetStatus_def x(1) thrift_received_def call_of_def call_ok_def)
  moreover have "reader ThriftParser (semit (EvRead m2) (SetStatus S_CONNECTED s))"
    using r by (simp add: reader_def semit_def emit_def SetStatus_def)
  ultimately show ?thesis by (simp add: semit_def SetStatus_def) blast
qed

interpretation thrift: stream_protocol ThriftParser False tenc call_ok "\<lambda>_ _. True" call_means deliver_call
proof (unfold_locales, goal_cases)
  case (1 m)
  then show ?case by (simp add: call_ok_def tenc_length)
next
  case 2
  then show ?case by (rule thrift_complete)
next
  case 3
  then show ?case by (intro thrift_partial)
next
  case 4
  then show ?case by (intro thrift_delivered)
qed

lemma fair_break_anywhere [simp]: "fair_break enc (\<lambda>_ _. True) ms n"
  by (induction ms arbitrary: n) auto

section \<open>Reading in pieces\<close>


definition sample_reader :: "session \<Rightarrow> session" where
  "sample_reader s = s\<lparr>ss_http := False, ss_owner := True,
     ss_conn := sample_writer\<lparr>cn_buffer := \<lparr>cb_base = replicate 2048 NUL, cb_capacity = 2048, cb_loc = 0\<rparr>\<rparr>\<rparr>"


end
