(* ===== verification/ThreadTimerProps.thy ===== *)
theory ThreadTimerProps
  imports ThreadTimer TimerWheelProps "HOL-Library.Sublist"
begin

text \<open>
  The links between timer objects and wheel nodes: every node in the wheels or on the ready list
  belongs to one live timer object that points back to it, and every started timer has its node
  there. Starting, stopping and running the callbacks keep this as long as callbacks delete only
  stopped timers.
\<close>

lemma all_nodes_RemoveTimer:
  assumes "count (all_nodes m) n \<le> 1"
  shows "all_nodes (RemoveTimer n m) = all_nodes m - {#n#}"
proof (rule multiset_eqI)
  fix x
  let ?c = "\<lambda>k j. count (mset (spokes (wheels m k) j)) x"
  let ?S = "\<Sum>k\<le>4. \<Sum>j<wh_size (wheels m k). ?c k j" and ?r = "count (mset (readynodes m)) x"
  have tot: "count (all_nodes m) x = ?S + ?r" by (simp add: all_nodes_def count_sum)
  have rem: "count (all_nodes (RemoveTimer n m)) x =
      (\<Sum>k\<le>4. \<Sum>j<wh_size (wheels m k). ?c k j - (if x = n then 1 else 0)) + (?r - (if x = n then 1 else 0))"
    by (simp add: all_nodes_def count_sum RemoveTimer_def)
  show "count (all_nodes (RemoveTimer n m)) x = count (all_nodes m - {#n#}) x"
  proof (cases "x = n")
    case True
    then have le: "?S + ?r \<le> 1" using assms tot by simp
    have "?c k j \<le> 1" if "k \<le> 4" "j < wh_size (wheels m k)" for k j
    proof -
      have "?c k j \<le> (\<Sum>j<wh_size (wheels m k). ?c k j)" by (rule member_le_sum) (use that in auto)
      also have "\<dots> \<le> ?S" by (rule member_le_sum [where f = "\<lambda>k. \<Sum>j<wh_size (wheels m k). ?c k j"]) (use that in auto)
      finally show ?thesis using le by simp
    qed
    then have "(\<Sum>k\<le>4. \<Sum>j<wh_size (wheels m k). ?c k j - 1) = 0" by simp
    with True le rem tot show ?thesis by simp
  next
    case False
    then show ?thesis using rem tot by simp
  qed
qed

definition node_of :: "timer_system \<Rightarrow> nat \<Rightarrow> timer_node option" where
  "node_of y t = Option.bind (ty_timers y t) tt_node"

definition timers_ok :: "clock \<Rightarrow> timer_node set \<Rightarrow> timer_system \<Rightarrow> bool" where
  \<comment> \<open>\<open>b\<close> holds the node whose callback is being run\<close>
  "timers_ok clk b y \<longleftrightarrow>
     wheel_inv clk (ty_manager y) \<and> b \<subseteq> set_mset (all_nodes (ty_manager y))
     \<and> (\<forall>n\<in>#all_nodes (ty_manager y). n \<notin> b \<longrightarrow> node_of y (tn_timer n) = Some n)
     \<and> (\<forall>t n. node_of y t = Some n \<longrightarrow> n \<in># all_nodes (ty_manager y) \<and> n \<notin> b \<and> tn_timer n = t)
     \<and> (\<forall>t T. ty_timers y t = Some T \<longrightarrow> tt_node T \<noteq> None \<longrightarrow> tt_owner T)
     \<and> (\<forall>n. count (all_nodes (ty_manager y)) n \<le> 1)
     \<and> (\<forall>n\<in>#all_nodes (ty_manager y). tn_addr n < ty_next y)
     \<and> inj_on tn_addr (set_mset (all_nodes (ty_manager y)))"

fun op_target :: "timer_op \<Rightarrow> nat" where
  "op_target (OpStart t) = t"
| "op_target (OpStop t) = t"
| "op_target (OpSetInterval t i) = t"
| "op_target (OpDelete t) = t"

fun op_ok :: "timer_op \<Rightarrow> timer_system \<Rightarrow> bool" where
  "op_ok (OpStart t) y = (case ty_timers y t of None \<Rightarrow> False | Some T \<Rightarrow> tt_owner T)"
| "op_ok (OpStop t) y = (ty_timers y t \<noteq> None)"
| "op_ok (OpSetInterval t i) y = (ty_timers y t \<noteq> None)"
| "op_ok (OpDelete t) y = (case ty_timers y t of None \<Rightarrow> False | Some T \<Rightarrow> tt_node T = None)"

fun ops_ok :: "clock \<Rightarrow> timer_op list \<Rightarrow> timer_system \<Rightarrow> bool" where
  "ops_ok clk [] y = True"
| "ops_ok clk (c # cs) y = (op_ok c y \<and> (case tt_op clk c y of None \<Rightarrow> False | Some y' \<Rightarrow> ops_ok clk cs y'))"

definition disciplined :: "clock \<Rightarrow> callbacks \<Rightarrow> bool" where
  \<comment> \<open>callbacks use live timers only and delete stopped timers only\<close>
  "disciplined clk cb \<longleftrightarrow> (\<forall>t b y. timers_ok clk b y \<longrightarrow> ops_ok clk (cb t y) y)"

lemma timers_okD:
  assumes "timers_ok clk b y"
  shows "wheel_inv clk (ty_manager y)"
    and "n \<in># all_nodes (ty_manager y) \<Longrightarrow> n \<notin> b \<Longrightarrow> node_of y (tn_timer n) = Some n"
    and "node_of y t = Some n \<Longrightarrow> n \<in># all_nodes (ty_manager y) \<and> n \<notin> b \<and> tn_timer n = t"
    and "ty_timers y t = Some T \<Longrightarrow> tt_node T \<noteq> None \<Longrightarrow> tt_owner T"
    and "count (all_nodes (ty_manager y)) n \<le> 1"
    and "n \<in># all_nodes (ty_manager y) \<Longrightarrow> tn_addr n < ty_next y"
    and "inj_on tn_addr (set_mset (all_nodes (ty_manager y)))"
    and "n \<in> b \<Longrightarrow> n \<in># all_nodes (ty_manager y)"
  using assms unfolding timers_ok_def by blast+

lemma node_of_upd: "node_of (y\<lparr>ty_timers := (ty_timers y)(t \<mapsto> T)\<rparr>) = (node_of y)(t := tt_node T)"
  by (simp add: node_of_def fun_eq_iff)

lemma node_of_same: "ty_timers y' = ty_timers y \<Longrightarrow> node_of y' = node_of y"
  by (simp add: node_of_def fun_eq_iff)

lemma timers_ok_same_nodes:
  assumes ok: "timers_ok clk b y" and m: "ty_manager y' = ty_manager y" and n: "ty_next y' = ty_next y"
    and l: "node_of y' = node_of y"
    and o: "\<And>t T. ty_timers y' t = Some T \<Longrightarrow> tt_node T \<noteq> None \<Longrightarrow> tt_owner T"
  shows "timers_ok clk b y'"
  using ok o unfolding timers_ok_def m n l by blast

text \<open>What an operation on timer \<open>u\<close> leaves alone.\<close>

definition touches_only :: "nat \<Rightarrow> timer_system \<Rightarrow> timer_system \<Rightarrow> bool" where
  "touches_only u y y' \<longleftrightarrow>
     ty_fired y' = ty_fired y \<and> (\<forall>t. t \<noteq> u \<longrightarrow> ty_timers y' t = ty_timers y t)
     \<and> (readynodes (ty_manager y') = readynodes (ty_manager y)
        \<or> (\<exists>n. node_of y u = Some n \<and> readynodes (ty_manager y') = remove1 n (readynodes (ty_manager y))))"

lemma tt_Stop_ok:
  assumes ok: "timers_ok clk b y" and T: "ty_timers y t = Some T"
  shows "\<exists>y'. tt_Stop t y = Some y' \<and> timers_ok clk b y' \<and> touches_only t y y'
    \<and> ty_timers y' t = Some (T\<lparr>tt_status := TS_USER_CANCLE, tt_node := None\<rparr>)"
proof (cases "tt_node T")
  case None
  let ?T = "T\<lparr>tt_status := TS_USER_CANCLE\<rparr>"
  let ?y = "y\<lparr>ty_timers := (ty_timers y)(t \<mapsto> ?T)\<rparr>"
  have "node_of ?y = node_of y" unfolding node_of_upd using T None by (auto simp: node_of_def)
  then have "timers_ok clk b ?y"
    by (rule timers_ok_same_nodes [OF ok, rotated 2]) (use None timers_okD(4) [OF ok] in \<open>auto split: if_splits\<close>)
  moreover have "?T = T\<lparr>tt_status := TS_USER_CANCLE, tt_node := None\<rparr>"
    using None by (cases T) simp
  ultimately show ?thesis using T None by (simp add: tt_Stop_def touches_only_def)
next
  case (Some n)
  let ?T = "T\<lparr>tt_status := TS_USER_CANCLE, tt_node := None\<rparr>"
  let ?y = "y\<lparr>ty_manager := RemoveTimer n (ty_manager y), ty_timers := (ty_timers y)(t \<mapsto> ?T)\<rparr>"
  have nt: "node_of y t = Some n" using T Some by (simp add: node_of_def)
  note n = timers_okD(3) [OF ok nt]
  have an: "all_nodes (ty_manager ?y) = all_nodes (ty_manager y) - {#n#}"
    using all_nodes_RemoveTimer timers_okD(5) [OF ok] by simp
  have "count (all_nodes (ty_manager y)) n = 1"
    using n timers_okD(5) [OF ok, of n] by (metis One_nat_def count_greater_zero_iff le_antisym Suc_leI)
  then have sub: "x \<in># all_nodes (ty_manager ?y) \<longleftrightarrow> x \<in># all_nodes (ty_manager y) \<and> x \<noteq> n" for x
    unfolding an by (auto simp: in_diff_count)
  have no: "node_of ?y = (node_of y)(t := None)" by (simp add: node_of_def fun_eq_iff)
  have "timers_ok clk b ?y"
    unfolding timers_ok_def no
  proof (intro conjI)
    show "wheel_inv clk (ty_manager ?y)" using timers_okD(1) [OF ok] by (simp add: wheel_inv_RemoveTimer)
    show "b \<subseteq> set_mset (all_nodes (ty_manager ?y))" using timers_okD(8) [OF ok] n by (auto simp: sub [simplified])
    show "\<forall>x\<in>#all_nodes (ty_manager ?y). x \<notin> b \<longrightarrow> ((node_of y)(t := None)) (tn_timer x) = Some x"
      using timers_okD(2) [OF ok] nt unfolding Ball_def sub by (metis fun_upd_other option.inject)
    show "\<forall>u m. ((node_of y)(t := None)) u = Some m \<longrightarrow>
        m \<in># all_nodes (ty_manager ?y) \<and> m \<notin> b \<and> tn_timer m = u"
      using timers_okD(3) [OF ok] n unfolding sub by (metis fun_upd_apply option.distinct(1))
    show "\<forall>u U. ty_timers ?y u = Some U \<longrightarrow> tt_node U \<noteq> None \<longrightarrow> tt_owner U"
      using timers_okD(4) [OF ok] by auto
    show "\<forall>x. count (all_nodes (ty_manager ?y)) x \<le> 1"
      unfolding an using timers_okD(5) [OF ok] by (simp add: le_diff_conv le_SucI)
    show "\<forall>x\<in>#all_nodes (ty_manager ?y). tn_addr x < ty_next ?y"
      using timers_okD(6) [OF ok] unfolding Ball_def sub by simp
    show "inj_on tn_addr (set_mset (all_nodes (ty_manager ?y)))"
      using timers_okD(7) [OF ok] by (rule inj_on_subset) (auto simp: sub [simplified])
  qed
  then show ?thesis using T Some nt timers_okD(4) [OF ok T] by (auto simp: tt_Stop_def touches_only_def)
qed

lemma AddTimer_all_nodes:
  assumes "wheel_inv clk m"
  shows "all_nodes (snd (AddTimer clk a ms t m)) = add_mset (fst (AddTimer clk a ms t m)) (all_nodes m)"
proof -
  have "wheels_shape (snd (GetCurrentMillisec clk m))" using assms by (simp add: wheel_inv_def wheels_shape_def)
  from all_nodes_AddTimerNode [OF this] show ?thesis
    by (simp add: AddTimer_def Let_def GetCurrentMillisec_def all_nodes_def)
qed

lemma AddTimer_node:
  "tn_addr (fst (AddTimer clk a ms t m)) = a" "tn_timer (fst (AddTimer clk a ms t m)) = t"
  by (simp_all add: AddTimer_def GetCurrentMillisec_def Let_def)

lemma tt_arm_ok:
  assumes clk: "clock_ok clk" and ok: "timers_ok clk b y"
    and T: "ty_timers y t = Some T" "tt_node T = None" "tt_owner T"
  shows "\<exists>y' n. tt_arm clk t y = Some y' \<and> timers_ok clk b y' \<and> touches_only t y y'
    \<and> ty_timers y' t = Some (T\<lparr>tt_status := TS_TIME_OUT, tt_node := Some n\<rparr>)
    \<and> readynodes (ty_manager y') = readynodes (ty_manager y)"
proof -
  let ?A = "AddTimer clk (ty_next y) (unat (tt_interval T)) t (ty_manager y)"
  define n m where "n = fst ?A" and "m = snd ?A"
  let ?T = "T\<lparr>tt_status := TS_TIME_OUT, tt_node := Some n\<rparr>"
  let ?y = "y\<lparr>ty_manager := m, ty_next := Suc (ty_next y), ty_timers := (ty_timers y)(t \<mapsto> ?T)\<rparr>"
  have n: "tn_addr n = ty_next y" "tn_timer n = t" by (simp_all add: n_def AddTimer_node)
  have an: "all_nodes m = add_mset n (all_nodes (ty_manager y))"
    unfolding n_def m_def by (rule AddTimer_all_nodes) (rule timers_okD(1) [OF ok])
  have fresh: "n \<notin># all_nodes (ty_manager y)" using timers_okD(6) [OF ok, of n] n by auto
  have apart: "tn_addr x \<noteq> tn_addr n" if "x \<in># all_nodes (ty_manager y)" for x
    using timers_okD(6) [OF ok that] n by simp
  have nb: "n \<notin> b" using timers_okD(8) [OF ok, of n] fresh by auto
  have nt: "node_of y t = None" using T by (simp add: node_of_def)
  have an_y: "all_nodes (ty_manager ?y) = add_mset n (all_nodes (ty_manager y))" using an by simp
  have no: "node_of ?y = (node_of y)(t \<mapsto> n)" by (simp add: node_of_def fun_eq_iff)
  have "timers_ok clk b ?y"
    unfolding timers_ok_def no
  proof (intro conjI)
    show "wheel_inv clk (ty_manager ?y)"
      unfolding m_def using wheel_inv_AddTimer [OF clk timers_okD(1) [OF ok]] unat_u32_lt [of "tt_interval T"] by simp
    show "b \<subseteq> set_mset (all_nodes (ty_manager ?y))" using timers_okD(8) [OF ok] by (auto simp: an)
    show "\<forall>x\<in>#all_nodes (ty_manager ?y). x \<notin> b \<longrightarrow> ((node_of y)(t \<mapsto> n)) (tn_timer x) = Some x"
      using timers_okD(2) [OF ok] nt n by (auto simp: an) (metis option.distinct(1))
    show "\<forall>u x. ((node_of y)(t \<mapsto> n)) u = Some x \<longrightarrow>
        x \<in># all_nodes (ty_manager ?y) \<and> x \<notin> b \<and> tn_timer x = u"
      using timers_okD(3) [OF ok] nb n by (auto simp: an split: if_splits)
    show "\<forall>u U. ty_timers ?y u = Some U \<longrightarrow> tt_node U \<noteq> None \<longrightarrow> tt_owner U"
      using timers_okD(4) [OF ok] T(3) by (auto split: if_splits)
    show "\<forall>x. count (all_nodes (ty_manager ?y)) x \<le> 1"
      using timers_okD(5) [OF ok] fresh by (auto simp: an not_in_iff)
    show "\<forall>x\<in>#all_nodes (ty_manager ?y). tn_addr x < ty_next ?y"
      using timers_okD(6) [OF ok] n by (auto simp: an less_SucI)
    show "inj_on tn_addr (set_mset (all_nodes (ty_manager ?y)))"
      unfolding an_y set_mset_add_mset_insert inj_on_insert using timers_okD(7) [OF ok] apart by fastforce
  qed
  moreover have "tt_arm clk t y = Some ?y" using T by (simp add: tt_arm_def n_def m_def split: prod.split)
  moreover have "readynodes m = readynodes (ty_manager y)" by (simp add: m_def)
  ultimately show ?thesis by (intro exI [of _ ?y] exI [of _ n]) (simp add: touches_only_def)
qed

lemma tt_Start_ok:
  assumes clk: "clock_ok clk" and ok: "timers_ok clk b y"
    and T: "ty_timers y t = Some T" "tt_owner T"
  shows "\<exists>y' n. tt_Start clk t y = Some y' \<and> timers_ok clk b y' \<and> touches_only t y y'
    \<and> ty_timers y' t = Some (T\<lparr>tt_status := TS_TIME_OUT, tt_node := Some n\<rparr>)"
proof -
  let ?T = "T\<lparr>tt_status := TS_USER_CANCLE, tt_node := None\<rparr>"
  obtain y1 where y1: "tt_Stop t y = Some y1" "timers_ok clk b y1" "touches_only t y y1"
      "ty_timers y1 t = Some ?T"
    using tt_Stop_ok [OF ok T(1)] by blast
  have "tt_node ?T = None" "tt_owner ?T" using T by simp_all
  from tt_arm_ok [OF clk y1(2,4) this] obtain y2 n where
    y2: "tt_arm clk t y1 = Some y2" "timers_ok clk b y2" "touches_only t y1 y2"
      "ty_timers y2 t = Some (?T\<lparr>tt_status := TS_TIME_OUT, tt_node := Some n\<rparr>)"
      "readynodes (ty_manager y2) = readynodes (ty_manager y1)"
    by blast
  have "touches_only t y y2" using y1(3) y2(3,5) unfolding touches_only_def by simp
  with y1 y2 show ?thesis by (auto simp: tt_Start_def)
qed

lemma tt_op_ok:
  assumes clk: "clock_ok clk" and ok: "timers_ok clk b y" and c: "op_ok c y"
  shows "\<exists>y'. tt_op clk c y = Some y' \<and> timers_ok clk b y' \<and> touches_only (op_target c) y y'"
proof (cases c)
  case (OpStart t)
  with c obtain T where "ty_timers y t = Some T" "tt_owner T" by (auto split: option.splits)
  from tt_Start_ok [OF clk ok this] OpStart show ?thesis by auto
next
  case (OpStop t)
  with c obtain T where "ty_timers y t = Some T" by auto
  from tt_Stop_ok [OF ok this] OpStop show ?thesis by auto
next
  case (OpSetInterval t i)
  with c obtain T where T: "ty_timers y t = Some T" by auto
  let ?y = "y\<lparr>ty_timers := (ty_timers y)(t \<mapsto> tt_SetInterval i T)\<rparr>"
  have "node_of ?y = node_of y" unfolding node_of_upd using T by (auto simp: node_of_def tt_SetInterval_def)
  then have "timers_ok clk b ?y"
    by (rule timers_ok_same_nodes [OF ok, rotated 2])
      (use T timers_okD(4) [OF ok] in \<open>auto simp: tt_SetInterval_def split: if_splits\<close>)
  then show ?thesis using OpSetInterval T by (simp add: touches_only_def)
next
  case (OpDelete t)
  with c obtain T where T: "ty_timers y t = Some T" "tt_node T = None" by (auto split: option.splits)
  let ?y = "y\<lparr>ty_timers := (ty_timers y)(t := None)\<rparr>"
  have "node_of ?y = node_of y" using T by (auto simp: node_of_def fun_eq_iff)
  then have "timers_ok clk b ?y"
    by (rule timers_ok_same_nodes [OF ok, rotated 2])
      (use timers_okD(4) [OF ok] in \<open>auto split: if_splits\<close>)
  then show ?thesis using OpDelete T by (simp add: touches_only_def)
qed

lemma subseq_remove1: "subseq (remove1 x xs) xs"
  by (induction xs) auto

text \<open>The head of the ready list stays in place when its own callback runs.\<close>

lemma touches_only_head:
  assumes ok: "timers_ok clk b y" and t: "touches_only u y y'"
    and r: "readynodes (ty_manager y) = n # ns" and n: "n \<in> b"
  shows "\<exists>ns'. readynodes (ty_manager y') = n # ns' \<and> subseq ns' ns
    \<and> (\<forall>x\<in>set ns. tn_timer x \<noteq> u \<longrightarrow> x \<in> set ns')"
proof (cases "readynodes (ty_manager y') = readynodes (ty_manager y)")
  case True
  then show ?thesis using r by auto
next
  case False
  then obtain m where m: "node_of y u = Some m" "readynodes (ty_manager y') = remove1 m (n # ns)"
    using t r unfolding touches_only_def by auto
  have "m \<noteq> n" "tn_timer m = u" using timers_okD(3) [OF ok m(1)] n by auto
  then show ?thesis using m by (auto simp: subseq_remove1) (metis in_set_remove1)
qed

lemma tt_ops_ok:
  assumes clk: "clock_ok clk"
  shows "timers_ok clk b y \<Longrightarrow> ops_ok clk cs y \<Longrightarrow> readynodes (ty_manager y) = n # ns \<Longrightarrow> n \<in> b \<Longrightarrow>
    \<exists>y' ns'. tt_ops clk cs y = Some y' \<and> timers_ok clk b y' \<and> ty_fired y' = ty_fired y
      \<and> readynodes (ty_manager y') = n # ns' \<and> subseq ns' ns
      \<and> (\<forall>t. t \<notin> op_target ` set cs \<longrightarrow> ty_timers y' t = ty_timers y t)
      \<and> (\<forall>x\<in>set ns. tn_timer x \<notin> op_target ` set cs \<longrightarrow> x \<in> set ns')"
proof (induction cs arbitrary: y ns)
  case (Cons c cs)
  obtain y1 where y1: "tt_op clk c y = Some y1" "timers_ok clk b y1" "touches_only (op_target c) y y1"
    using tt_op_ok [OF clk Cons.prems(1)] Cons.prems(2) by auto
  obtain ms where ms: "readynodes (ty_manager y1) = n # ms" "subseq ms ns"
      "\<forall>x\<in>set ns. tn_timer x \<noteq> op_target c \<longrightarrow> x \<in> set ms"
    using touches_only_head [OF Cons.prems(1) y1(3) Cons.prems(3,4)] by blast
  have "ops_ok clk cs y1" using Cons.prems(2) y1(1) by simp
  from Cons.IH [OF y1(2) this ms(1) Cons.prems(4)] obtain y' ns' where
    y': "tt_ops clk cs y1 = Some y'" "timers_ok clk b y'" "ty_fired y' = ty_fired y1"
      "readynodes (ty_manager y') = n # ns'" "subseq ns' ms"
      "\<forall>t. t \<notin> op_target ` set cs \<longrightarrow> ty_timers y' t = ty_timers y1 t"
      "\<forall>x\<in>set ms. tn_timer x \<notin> op_target ` set cs \<longrightarrow> x \<in> set ns'"
    by blast
  have "subseq ns' ns" using y'(5) ms(2) by (rule subseq_order.trans)
  with y1 y' ms(3) show ?case
    by (intro exI [of _ y'] exI [of _ ns']) (auto simp: touches_only_def)
qed simp

definition untouched :: "callbacks \<Rightarrow> nat \<Rightarrow> bool" where
  "untouched cb u \<longleftrightarrow> (\<forall>t y. u \<notin> op_target ` set (cb t y))"

lemma wheel_inv_readynodes [simp]: "wheel_inv clk (m\<lparr>readynodes := r\<rparr>) = wheel_inv clk m"
proof -
  have "sidx (m\<lparr>readynodes := r\<rparr>) = sidx m" by (simp add: sidx_def fun_eq_iff)
  then show ?thesis by (simp add: wheel_inv_def wheels_shape_def indices_ok_def timely_def nodes_bounded_def)
qed

lemma timers_ok_pop:
  assumes ok: "timers_ok clk {n} y" and r: "readynodes (ty_manager y) = n # ns"
  shows "timers_ok clk {} (y\<lparr>ty_manager := (ty_manager y)\<lparr>readynodes := ns\<rparr>\<rparr>)"
proof -
  let ?m = "(ty_manager y)\<lparr>readynodes := ns\<rparr>"
  let ?y = "y\<lparr>ty_manager := ?m\<rparr>"
  have an: "all_nodes (ty_manager y) = add_mset n (all_nodes ?m)" using r by (simp add: all_nodes_def)
  have "n \<notin># all_nodes ?m" using timers_okD(5) [OF ok, of n] by (simp add: an not_in_iff)
  then have in_m: "x \<in># all_nodes ?m \<longleftrightarrow> x \<in># all_nodes (ty_manager y) \<and> x \<notin> {n}" for x
    unfolding an by auto
  have no: "node_of ?y = node_of y" by (rule node_of_same) simp
  show ?thesis
    unfolding timers_ok_def no
  proof (intro conjI)
    show "wheel_inv clk (ty_manager ?y)" using timers_okD(1) [OF ok] by simp
    show "{} \<subseteq> set_mset (all_nodes (ty_manager ?y))" by simp
    show "\<forall>x\<in>#all_nodes (ty_manager ?y). x \<notin> {} \<longrightarrow> node_of y (tn_timer x) = Some x"
      using timers_okD(2) [OF ok] by (simp add: Ball_def in_m)
    show "\<forall>t x. node_of y t = Some x \<longrightarrow> x \<in># all_nodes (ty_manager ?y) \<and> x \<notin> {} \<and> tn_timer x = t"
      using timers_okD(3) [OF ok] by (simp add: in_m)
    show "\<forall>t T. ty_timers ?y t = Some T \<longrightarrow> tt_node T \<noteq> None \<longrightarrow> tt_owner T"
      using timers_okD(4) [OF ok] by simp
    show "\<forall>x. count (all_nodes (ty_manager ?y)) x \<le> 1"
    proof
      fix x show "count (all_nodes (ty_manager ?y)) x \<le> 1"
        using timers_okD(5) [OF ok, of x] by (simp add: an split: if_splits)
    qed
    show "\<forall>x\<in>#all_nodes (ty_manager ?y). tn_addr x < ty_next ?y"
      using timers_okD(6) [OF ok] by (simp add: Ball_def in_m)
    show "inj_on tn_addr (set_mset (all_nodes (ty_manager ?y)))"
      using timers_okD(7) [OF ok] by (rule inj_on_subset) (auto simp: in_m)
  qed
qed

text \<open>The node whose callback starts leaves its timer.\<close>

lemma timers_ok_detach:
  assumes ok: "timers_ok clk {} y" and n: "node_of y t = Some n" and T: "ty_timers y t = Some T"
  shows "timers_ok clk {n} (y\<lparr>ty_timers := (ty_timers y)(t \<mapsto> T\<lparr>tt_node := None\<rparr>)\<rparr>)"
proof -
  let ?y = "y\<lparr>ty_timers := (ty_timers y)(t \<mapsto> T\<lparr>tt_node := None\<rparr>)\<rparr>"
  have no: "node_of ?y = (node_of y)(t := None)" by (simp add: node_of_upd)
  note nt = timers_okD(3) [OF ok n]
  show ?thesis
    unfolding timers_ok_def no
  proof (intro conjI)
    show "wheel_inv clk (ty_manager ?y)" using timers_okD(1) [OF ok] by simp
    show "{n} \<subseteq> set_mset (all_nodes (ty_manager ?y))" using nt by simp
    show "\<forall>x\<in>#all_nodes (ty_manager ?y). x \<notin> {n} \<longrightarrow> ((node_of y)(t := None)) (tn_timer x) = Some x"
    proof (intro ballI impI)
      fix x assume x: "x \<in># all_nodes (ty_manager ?y)" "x \<notin> {n}"
      then have "node_of y (tn_timer x) = Some x" using timers_okD(2) [OF ok] by simp
      moreover from this have "tn_timer x \<noteq> t" using n x by auto
      ultimately show "((node_of y)(t := None)) (tn_timer x) = Some x" by simp
    qed
    show "\<forall>u x. ((node_of y)(t := None)) u = Some x \<longrightarrow>
        x \<in># all_nodes (ty_manager ?y) \<and> x \<notin> {n} \<and> tn_timer x = u"
    proof (intro allI impI)
      fix u x assume u: "((node_of y)(t := None)) u = Some x"
      then have "u \<noteq> t" "node_of y u = Some x" by (auto split: if_splits)
      then show "x \<in># all_nodes (ty_manager ?y) \<and> x \<notin> {n} \<and> tn_timer x = u"
        using timers_okD(3) [OF ok] nt by auto
    qed
    show "\<forall>u U. ty_timers ?y u = Some U \<longrightarrow> tt_node U \<noteq> None \<longrightarrow> tt_owner U"
      using timers_okD(4) [OF ok] by auto
    show "\<forall>x. count (all_nodes (ty_manager ?y)) x \<le> 1" using timers_okD(5) [OF ok] by simp
    show "\<forall>x\<in>#all_nodes (ty_manager ?y). tn_addr x < ty_next ?y" using timers_okD(6) [OF ok] by simp
    show "inj_on tn_addr (set_mset (all_nodes (ty_manager ?y)))" using timers_okD(7) [OF ok] by simp
  qed
qed

lemma tt_Callback_ok:
  assumes clk: "clock_ok clk" and cb: "disciplined clk cb" and ok: "timers_ok clk {} y"
    and r: "readynodes (ty_manager y) = n # ns" and T: "ty_timers y (tn_timer n) = Some T"
  shows "\<exists>y' ns'. tt_Callback clk cb (tn_timer n) y = Some y' \<and> timers_ok clk {n} y'
    \<and> ty_fired y' = ty_fired y @ [tn_timer n]
    \<and> readynodes (ty_manager y') = n # ns' \<and> subseq ns' ns
    \<and> (\<forall>x\<in>set ns. untouched cb (tn_timer x) \<longrightarrow> tn_timer x \<noteq> tn_timer n \<longrightarrow> x \<in> set ns')
    \<and> (\<forall>u. untouched cb u \<longrightarrow> u \<noteq> tn_timer n \<longrightarrow> ty_timers y' u = ty_timers y u)
    \<and> (untouched cb (tn_timer n) \<longrightarrow>
         (\<exists>T'. ty_timers y' (tn_timer n) = Some T' \<and> (tt_node T' \<noteq> None \<longleftrightarrow> tt_type T = TIMER_CIRCLE)))"
proof -
  let ?t = "tn_timer n" and ?T = "T\<lparr>tt_node := None\<rparr>"
  let ?y1 = "y\<lparr>ty_timers := (ty_timers y)(?t \<mapsto> ?T)\<rparr>"
  have n: "n \<in># all_nodes (ty_manager y)" using r by (simp add: in_all_nodes)
  then have nt: "node_of y ?t = Some n" using timers_okD(2) [OF ok] by simp
  then have own: "tt_owner T" using T timers_okD(4) [OF ok T] by (simp add: node_of_def)
  have no: "node_of ?y1 = (node_of y)(?t := None)" by (simp add: node_of_upd)
  have ok1: "timers_ok clk {n} ?y1" by (rule timers_ok_detach [OF ok nt T])
  define restarted where "restarted = (if tt_type T = TIMER_CIRCLE then tt_Start clk ?t ?y1 else Some ?y1)"
  have "\<exists>y2 T2. restarted = Some y2 \<and> timers_ok clk {n} y2 \<and> touches_only ?t ?y1 y2
      \<and> ty_timers y2 ?t = Some T2 \<and> (tt_node T2 \<noteq> None \<longleftrightarrow> tt_type T = TIMER_CIRCLE)"
  proof (cases "tt_type T = TIMER_CIRCLE")
    case True
    have "ty_timers ?y1 ?t = Some ?T" "tt_owner ?T" using own by simp_all
    from tt_Start_ok [OF clk ok1 this] True show ?thesis by (fastforce simp: restarted_def)
  next
    case False
    then show ?thesis using ok1 by (simp add: restarted_def touches_only_def)
  qed
  then obtain y2 T2 where y2: "restarted = Some y2" "timers_ok clk {n} y2" "touches_only ?t ?y1 y2"
      "ty_timers y2 ?t = Some T2" "tt_node T2 \<noteq> None \<longleftrightarrow> tt_type T = TIMER_CIRCLE"
    by blast
  let ?y3 = "y2\<lparr>ty_fired := ty_fired y2 @ [?t]\<rparr>"
  have r3: "readynodes (ty_manager ?y3) = n # ns"
    using y2(3) r unfolding touches_only_def no by simp
  have ok3: "timers_ok clk {n} ?y3"
    by (rule timers_ok_same_nodes [OF y2(2)]) (use timers_okD(4) [OF y2(2)] in \<open>simp_all add: node_of_def fun_eq_iff\<close>)
  then have "ops_ok clk (cb ?t ?y3) ?y3" using cb by (simp add: disciplined_def)
  from tt_ops_ok [OF clk ok3 this r3] obtain y' ns' where
    y': "tt_ops clk (cb ?t ?y3) ?y3 = Some y'" "timers_ok clk {n} y'" "ty_fired y' = ty_fired ?y3"
      "readynodes (ty_manager y') = n # ns'" "subseq ns' ns"
      "\<forall>t. t \<notin> op_target ` set (cb ?t ?y3) \<longrightarrow> ty_timers y' t = ty_timers ?y3 t"
      "\<forall>x\<in>set ns. tn_timer x \<notin> op_target ` set (cb ?t ?y3) \<longrightarrow> x \<in> set ns'"
    by blast
  have run: "tt_Callback clk cb ?t y = Some y'"
    using T y2(1) y'(1) unfolding tt_Callback_def restarted_def by (simp add: Let_def)
  have fired: "ty_fired y' = ty_fired y @ [?t]" using y2(3) y'(3) by (simp add: touches_only_def)
  have others: "ty_timers y' u = ty_timers y u" if "untouched cb u" "u \<noteq> ?t" for u
    using that y2(3) y'(6) unfolding untouched_def touches_only_def by simp
  have self: "ty_timers y' ?t = Some T2" if "untouched cb ?t"
    using that y2(4) y'(6) unfolding untouched_def by simp
  show ?thesis
  proof (rule exI [of _ y'], rule exI [of _ ns'], intro conjI)
    show "\<forall>x\<in>set ns. untouched cb (tn_timer x) \<longrightarrow> tn_timer x \<noteq> ?t \<longrightarrow> x \<in> set ns'"
      using y'(7) by (simp add: untouched_def)
    show "\<forall>u. untouched cb u \<longrightarrow> u \<noteq> ?t \<longrightarrow> ty_timers y' u = ty_timers y u" using others by simp
    show "untouched cb ?t \<longrightarrow>
        (\<exists>T'. ty_timers y' ?t = Some T' \<and> (tt_node T' \<noteq> None \<longleftrightarrow> tt_type T = TIMER_CIRCLE))"
      using self y2(5) by blast
  qed (fact run y' fired)+
qed

lemma DoTimeOutCallBack_ok:
  assumes clk: "clock_ok clk" and cb: "disciplined clk cb"
  shows "timers_ok clk {} y \<Longrightarrow>
    \<exists>y' fs. DoTimeOutCallBack clk cb y = Some y' \<and> timers_ok clk {} y' \<and> readynodes (ty_manager y') = []
      \<and> ty_fired y' = ty_fired y @ fs \<and> distinct fs
      \<and> subseq fs (map tn_timer (readynodes (ty_manager y)))
      \<and> (\<forall>x\<in>set (readynodes (ty_manager y)). untouched cb (tn_timer x) \<longrightarrow> tn_timer x \<in> set fs)
      \<and> (\<forall>u T. untouched cb u \<longrightarrow> ty_timers y u = Some T \<longrightarrow>
           (\<exists>T'. ty_timers y' u = Some T'
              \<and> (if u \<in> set fs then tt_node T' \<noteq> None \<longleftrightarrow> tt_type T = TIMER_CIRCLE else T' = T)))"
proof (induction "length (readynodes (ty_manager y))" arbitrary: y rule: less_induct)
  case less
  note ok = less.prems
  show ?case
  proof (cases "readynodes (ty_manager y)")
    case Nil
    then show ?thesis using ok by (simp add: DoTimeOutCallBack.simps)
  next
    case (Cons n ns)
    let ?t = "tn_timer n"
    have "n \<in># all_nodes (ty_manager y)" using Cons by (simp add: in_all_nodes)
    then have nt: "node_of y ?t = Some n" using timers_okD(2) [OF ok] by simp
    then obtain T where T: "ty_timers y ?t = Some T" by (auto simp: node_of_def bind_eq_Some_iff)
    have "count (all_nodes (ty_manager y)) n \<le> 1" by (rule timers_okD(5) [OF ok])
    then have "n \<notin> set ns" using Cons by (auto simp: all_nodes_def)
    have once: "tn_timer x \<noteq> ?t" if "x \<in> set ns" for x
    proof -
      have "x \<in># all_nodes (ty_manager y)" using that Cons by (simp add: in_all_nodes)
      then have "node_of y (tn_timer x) = Some x" using timers_okD(2) [OF ok] by simp
      then show ?thesis using nt that \<open>n \<notin> set ns\<close> by (metis option.inject)
    qed
    from tt_Callback_ok [OF clk cb ok Cons T] obtain y1 ns' where
      y1: "tt_Callback clk cb ?t y = Some y1" "timers_ok clk {n} y1" "ty_fired y1 = ty_fired y @ [?t]"
        "readynodes (ty_manager y1) = n # ns'" "subseq ns' ns"
        "\<forall>x\<in>set ns. untouched cb (tn_timer x) \<longrightarrow> tn_timer x \<noteq> ?t \<longrightarrow> x \<in> set ns'"
        "\<forall>u. untouched cb u \<longrightarrow> u \<noteq> ?t \<longrightarrow> ty_timers y1 u = ty_timers y u"
        "untouched cb ?t \<longrightarrow> (\<exists>T'. ty_timers y1 ?t = Some T' \<and> (tt_node T' \<noteq> None \<longleftrightarrow> tt_type T = TIMER_CIRCLE))"
      by blast
    let ?y2 = "y1\<lparr>ty_manager := (ty_manager y1)\<lparr>readynodes := ns'\<rparr>\<rparr>"
    have le: "length ns' \<le> length ns" using y1(5) by (rule list_emb_length)
    then have "length (readynodes (ty_manager ?y2)) < length (readynodes (ty_manager y))" using Cons by simp
    from less.hyps [OF this timers_ok_pop [OF y1(2,4)]] obtain y' fs where
      y': "DoTimeOutCallBack clk cb ?y2 = Some y'" "timers_ok clk {} y'" "readynodes (ty_manager y') = []"
        "ty_fired y' = ty_fired y1 @ fs" "distinct fs" "subseq fs (map tn_timer ns')"
        "\<forall>x\<in>set ns'. untouched cb (tn_timer x) \<longrightarrow> tn_timer x \<in> set fs"
        "\<forall>u T. untouched cb u \<longrightarrow> ty_timers y1 u = Some T \<longrightarrow>
           (\<exists>T'. ty_timers y' u = Some T'
              \<and> (if u \<in> set fs then tt_node T' \<noteq> None \<longleftrightarrow> tt_type T = TIMER_CIRCLE else T' = T))"
      by auto
    have sub: "subseq fs (map tn_timer ns)"
      using y'(6) subseq_map [OF y1(5), of tn_timer] by (rule subseq_order.trans)
    have new: "?t \<notin> set fs"
    proof
      assume "?t \<in> set fs"
      from list_emb_set [OF sub this] obtain u where "u \<in> set (map tn_timer ns)" "?t = u" by blast
      then show False using once by (metis imageE set_map)
    qed
    have run: "DoTimeOutCallBack clk cb y = Some y'"
      using Cons y1(1,4) y'(1) by (simp add: DoTimeOutCallBack.simps [of clk cb y])
    have fired: "\<forall>x\<in>set (n # ns). untouched cb (tn_timer x) \<longrightarrow> tn_timer x \<in> set (?t # fs)"
      using y1(6) y'(7) once by auto
    have left: "\<exists>T'. ty_timers y' u = Some T'
        \<and> (if u \<in> set (?t # fs) then tt_node T' \<noteq> None \<longleftrightarrow> tt_type U = TIMER_CIRCLE else T' = U)"
      if u: "untouched cb u" "ty_timers y u = Some U" for u U
    proof (cases "u = ?t")
      case True
      then obtain T' where "ty_timers y1 u = Some T'" "tt_node T' \<noteq> None \<longleftrightarrow> tt_type U = TIMER_CIRCLE"
        using y1(8) u T by auto
      then show ?thesis using y'(8) u(1) new True by fastforce
    next
      case False
      then show ?thesis using y'(8) y1(7) u by simp
    qed
    show ?thesis
      unfolding Cons
    proof (rule exI [of _ y'], rule exI [of _ "?t # fs"], intro conjI)
      show "ty_fired y' = ty_fired y @ ?t # fs" using y'(4) y1(3) by simp
      show "distinct (?t # fs)" using new y'(5) by simp
      show "subseq (?t # fs) (map tn_timer (n # ns))" using sub by simp
      show "\<forall>u U. untouched cb u \<longrightarrow> ty_timers y u = Some U \<longrightarrow>
          (\<exists>T'. ty_timers y' u = Some T'
            \<and> (if u \<in> set (?t # fs) then tt_node T' \<noteq> None \<longleftrightarrow> tt_type U = TIMER_CIRCLE else T' = U))"
        using left by blast
    qed (fact run y' fired)+
  qed
qed

section \<open>Properties\<close>

lemma distinct_count_list: "distinct xs \<Longrightarrow> count_list xs x = (if x \<in> set xs then 1 else 0)"
  by (induction xs) auto

lemma DetectTimerList_ok:
  assumes clk: "clock_ok clk" and cb: "disciplined clk cb" and ok: "timers_ok clk {} y"
  shows "timers_ok clk {} (y\<lparr>ty_manager := detect_ready clk (ty_manager y)\<rparr>)"
proof -
  have an: "all_nodes (detect_ready clk (ty_manager y)) = all_nodes (ty_manager y)"
    by (rule all_nodes_detect_ready [OF clk timers_okD(1) [OF ok]])
  have "wheel_inv clk (detect_ready clk (ty_manager y))"
    using detect_ready_inv [OF clk timers_okD(1) [OF ok]] by simp
  moreover have "node_of (y\<lparr>ty_manager := detect_ready clk (ty_manager y)\<rparr>) = node_of y"
    by (rule node_of_same) simp
  ultimately show ?thesis using ok by (simp add: timers_ok_def an)
qed


text \<open>
  C24. Whatever mix of starts, stops and detections a program performs, timer objects and wheel nodes
  stay linked one to one: a detection always ends with a defined result, runs each callback at most
  once and in the order of the ready list, and empties that list.
\<close>

theorem detection_keeps_timer_links:
  assumes clk: "clock_ok clk" and cb: "disciplined clk cb" and ok: "timers_ok clk {} y"
    and cs: "ops_ok clk cs y" "length (readynodes (ty_manager y)) = 0"
  shows "\<exists>y1 y' fs. tt_ops clk cs y = Some y1 \<and> DetectTimerList clk cb y1 = Some y' \<and> timers_ok clk {} y'
    \<and> readynodes (ty_manager y') = [] \<and> ty_fired y' = ty_fired y @ fs \<and> distinct fs
    \<and> subseq fs (map tn_timer (readynodes (detect_ready clk (ty_manager y1))))"
proof -
  have "\<exists>y1. tt_ops clk cs y = Some y1 \<and> timers_ok clk {} y1 \<and> ty_fired y1 = ty_fired y"
    using ok cs(1)
  proof (induction cs arbitrary: y)
    case (Cons c cs)
    obtain y1 where y1: "tt_op clk c y = Some y1" "timers_ok clk {} y1" "touches_only (op_target c) y y1"
      using tt_op_ok [OF clk Cons.prems(1)] Cons.prems(2) by auto
    with Cons.IH [of y1] Cons.prems(2) show ?case by (auto simp: touches_only_def)
  qed simp
  then obtain y1 where y1: "tt_ops clk cs y = Some y1" "timers_ok clk {} y1" "ty_fired y1 = ty_fired y" by blast
  from DoTimeOutCallBack_ok [OF clk cb DetectTimerList_ok [OF clk cb y1(2)]] y1 show ?thesis
    by (auto simp: DetectTimerList_def)
qed

text \<open>A timer that is not started does not fire, unless a callback starts it.\<close>

theorem stopped_timer_is_silent:
  assumes clk: "clock_ok clk" and cb: "disciplined clk cb" "untouched cb t" and ok: "timers_ok clk {} y"
    and T: "ty_timers y t = Some T"
  shows "\<exists>y1 y' fs T'. tt_Stop t y = Some y1 \<and> DetectTimerList clk cb y1 = Some y' \<and> ty_fired y' = ty_fired y @ fs
    \<and> t \<notin> set fs \<and> ty_timers y' t = Some T' \<and> tt_node T' = None \<and> tt_status T' = TS_USER_CANCLE"
proof -
  let ?T = "T\<lparr>tt_status := TS_USER_CANCLE, tt_node := None\<rparr>"
  obtain y1 where y1: "tt_Stop t y = Some y1" "timers_ok clk {} y1" "touches_only t y y1" "ty_timers y1 t = Some ?T"
    using tt_Stop_ok [OF ok T] by blast
  let ?y = "y1\<lparr>ty_manager := detect_ready clk (ty_manager y1)\<rparr>"
  have oky: "timers_ok clk {} ?y" by (rule DetectTimerList_ok [OF clk cb(1) y1(2)])
  from DoTimeOutCallBack_ok [OF clk cb(1) oky] obtain y' fs where
    y': "DoTimeOutCallBack clk cb ?y = Some y'" "ty_fired y' = ty_fired ?y @ fs"
      "subseq fs (map tn_timer (readynodes (ty_manager ?y)))"
      "\<forall>u U. untouched cb u \<longrightarrow> ty_timers ?y u = Some U \<longrightarrow>
         (\<exists>T'. ty_timers y' u = Some T'
            \<and> (if u \<in> set fs then tt_node T' \<noteq> None \<longleftrightarrow> tt_type U = TIMER_CIRCLE else T' = U))"
    by blast
  have quiet: "t \<notin> set fs"
  proof
    assume "t \<in> set fs"
    from list_emb_set [OF y'(3) this] obtain u where "u \<in> set (map tn_timer (readynodes (ty_manager ?y)))" "t = u"
      by blast
    then obtain x where x: "x \<in> set (readynodes (ty_manager ?y))" "tn_timer x = t" by auto
    then have "node_of ?y t = Some x" using timers_okD(2) [OF oky, of x] by (simp add: in_all_nodes)
    then show False using y1(4) by (simp add: node_of_def)
  qed
  moreover have "ty_timers ?y t = Some ?T" using y1(4) by simp
  ultimately have "ty_timers y' t = Some ?T" using y'(4) [rule_format, OF cb(2), of ?T] by simp
  with y1 y' quiet show ?thesis
    by (intro exI [of _ y1] exI [of _ y'] exI [of _ fs] exI [of _ ?T]) (simp add: DetectTimerList_def touches_only_def)
qed

section \<open>Witnesses\<close>

definition sample_timers :: "nat \<Rightarrow> timer_system" where
  \<comment> \<open>a manager built at time 0, with a circular timer of 500 ms\<close>
  "sample_timers t =
     \<lparr>ty_manager = timer_manager_new (sample_clock t) 0,
      ty_timers = [7 \<mapsto> tt_Init 500 TIMER_CIRCLE tt_new], ty_next = 0, ty_fired = []\<rparr>"

lemma sample_timers_ok: "900 \<le> t \<Longrightarrow> t < 2 ^ 63 \<Longrightarrow> timers_ok (sample_clock t) {} (sample_timers t)"
  using wheel_inv_new [OF sample_clock_ok]
  by (auto simp: timers_ok_def sample_timers_def node_of_def tt_Init_def tt_new_def all_nodes_def
      timer_manager_new_def wheel_new_def split: if_splits)

lemma no_callbacks_disciplined: "disciplined clk (\<lambda>_ _. [])" "untouched (\<lambda>_ _. []) u"
  by (simp_all add: disciplined_def untouched_def)

lemma sample_started:
  assumes "900 \<le> t" "t < 2 ^ 63"
  shows "\<exists>y T n. tt_Start (sample_clock t) 7 (sample_timers t) = Some y \<and> timers_ok (sample_clock t) {} y
    \<and> ty_timers y 7 = Some T \<and> tt_node T = Some n \<and> dead_time n = 1400 \<and> tt_type T = TIMER_CIRCLE
    \<and> ty_fired y = [] \<and> tm_reads (ty_manager y) = 2 \<and> checktime (ty_manager y) = 0"
proof -
  have T: "ty_timers (sample_timers t) 7 = Some (tt_Init 500 TIMER_CIRCLE tt_new)"
      "tt_owner (tt_Init 500 TIMER_CIRCLE tt_new)"
    by (simp_all add: sample_timers_def tt_Init_def)
  obtain y where y: "tt_Start (sample_clock t) 7 (sample_timers t) = Some y" "timers_ok (sample_clock t) {} y"
    using tt_Start_ok [OF sample_clock_ok [OF assms] sample_timers_ok [OF assms] T] by blast
  then show ?thesis
    by (intro exI [of _ y])
      (auto simp: tt_Start_def tt_Stop_def tt_arm_def sample_timers_def tt_Init_def tt_new_def AddTimer_def
        GetCurrentMillisec_def timer_manager_new_def Let_def sample_clock_def)
qed


theorem detection_keeps_timer_links_witness:
  "\<exists>y1 y'. tt_ops (sample_clock 1410) [OpStart 7, OpStop 7, OpStart 7] (sample_timers 1410) = Some y1
    \<and> DetectTimerList (sample_clock 1410) (\<lambda>_ _. []) y1 = Some y' \<and> readynodes (ty_manager y') = []"
proof -
  have c: "clock_ok (sample_clock 1410)" by (rule sample_clock_ok) simp_all
  have o: "ops_ok (sample_clock 1410) [OpStart 7, OpStop 7, OpStart 7] (sample_timers 1410)"
    by (simp add: sample_timers_def tt_Start_def tt_Stop_def tt_arm_def tt_Init_def tt_new_def split: prod.split)
  have "length (readynodes (ty_manager (sample_timers 1410))) = 0"
    by (simp add: sample_timers_def timer_manager_new_def)
  from detection_keeps_timer_links [OF c no_callbacks_disciplined(1) sample_timers_ok o this]
  show ?thesis by auto
qed

theorem stopped_timer_is_silent_witness:
  "\<exists>y y1 y' T'. tt_Start (sample_clock 1410) 7 (sample_timers 1410) = Some y \<and> tt_Stop 7 y = Some y1
    \<and> DetectTimerList (sample_clock 1410) (\<lambda>_ _. []) y1 = Some y' \<and> 7 \<notin> set (ty_fired y')
    \<and> ty_timers y' 7 = Some T' \<and> tt_node T' = None"
proof -
  obtain y T where y: "tt_Start (sample_clock 1410) 7 (sample_timers 1410) = Some y"
      "timers_ok (sample_clock 1410) {} y" "ty_timers y 7 = Some T" "ty_fired y = []"
    using sample_started [of 1410] by auto
  have "clock_ok (sample_clock 1410)" by (rule sample_clock_ok) simp_all
  from stopped_timer_is_silent [OF this no_callbacks_disciplined y(2,3)] y(1,4) show ?thesis by auto
qed

end
