(* ===== verification/MsgQueuePrio.thy ===== *)
theory MsgQueuePrio
  imports ApePrelude "HOL-Library.Multiset"
begin

text \<open>
  \<open>MsgQueuePrio\<close> of frame/common/msgqueueprio.h and .cc: three ring buffers of pointers behind one
  mutex, with a condition variable per ring for blocked writers and one for blocked readers. What an
  operation does while it holds the mutex is a function; the waiting is a step relation
  (MsgQueueWait). A pointer is an \<open>'a option\<close>, NULL being \<open>None\<close>. The contents of \<open>new void *[size]\<close>
  are indeterminate and a parameter.
\<close>

section \<open>A bounded queue\<close>

record 'a msg_queue =
  ppbuf :: "'a option list"
  capacity :: nat
  datasize :: nat
  putloc :: nat
  getloc :: nat
  waitingputthreadnum :: nat

definition stMsgQueue :: "'a option list \<Rightarrow> 'a msg_queue" where
  \<comment> \<open>the constructor; the list is the array that \<open>new\<close> returned\<close>
  "stMsgQueue buf = \<lparr>ppbuf = buf, capacity = length buf, datasize = 0, putloc = 0, getloc = 0, waitingputthreadnum = 0\<rparr>"

definition mq_IsFull :: "'a msg_queue \<Rightarrow> bool" where
  "mq_IsFull q \<longleftrightarrow> capacity q = datasize q"

definition mq_IsEmpty :: "'a msg_queue \<Rightarrow> bool" where
  "mq_IsEmpty q \<longleftrightarrow> datasize q \<le> 0"

definition mq_put :: "'a option \<Rightarrow> 'a msg_queue \<Rightarrow> 'a msg_queue" where
  \<comment> \<open>\<open>PutQ\<close>, behind the loop\<close>
  "mq_put d q =
     (let q1 = q\<lparr>ppbuf := (ppbuf q)[putloc q := d], putloc := Suc (putloc q)\<rparr>;
          q2 = q1\<lparr>datasize := Suc (datasize q1)\<rparr>
      in if putloc q2 = capacity q2 then q2\<lparr>putloc := 0\<rparr> else q2)"

definition mq_get :: "'a msg_queue \<Rightarrow> 'a option \<times> 'a msg_queue" where
  \<comment> \<open>\<open>GetQ\<close>, once it has chosen the queue\<close>
  "mq_get q =
     (let d = ppbuf q ! getloc q;
          q1 = q\<lparr>getloc := Suc (getloc q)\<rparr>;
          q2 = q1\<lparr>datasize := datasize q1 - 1\<rparr>
      in (d, if getloc q2 = capacity q2 then q2\<lparr>getloc := 0\<rparr> else q2))"

text \<open>The contents of the ring and its invariant.\<close>

definition mq_contents :: "'a msg_queue \<Rightarrow> 'a option list" where
  "mq_contents q = map (\<lambda>i. ppbuf q ! ((getloc q + i) mod capacity q)) [0..<datasize q]"

definition mq_ok :: "'a msg_queue \<Rightarrow> bool" where
  "mq_ok q \<longleftrightarrow> length (ppbuf q) = capacity q \<and> datasize q \<le> capacity q \<and> 0 < capacity q
     \<and> getloc q < capacity q \<and> putloc q = (getloc q + datasize q) mod capacity q"

text \<open>What the queue promises its clients.\<close>

locale bounded_queue =
  fixes ok :: "'q \<Rightarrow> bool" and contents :: "'q \<Rightarrow> 'e list" and limit :: "'q \<Rightarrow> nat"
    and full :: "'q \<Rightarrow> bool" and empty :: "'q \<Rightarrow> bool"
    and put :: "'e \<Rightarrow> 'q \<Rightarrow> 'q" and get :: "'q \<Rightarrow> 'e \<times> 'q"
  assumes full: "ok q \<Longrightarrow> full q \<longleftrightarrow> length (contents q) = limit q"
    and empty: "ok q \<Longrightarrow> empty q \<longleftrightarrow> contents q = []"
    and bound: "ok q \<Longrightarrow> length (contents q) \<le> limit q"
    and put: "ok q \<Longrightarrow> \<not> full q \<Longrightarrow>
      ok (put d q) \<and> contents (put d q) = contents q @ [d] \<and> limit (put d q) = limit q"
    and get: "ok q \<Longrightarrow> \<not> empty q \<Longrightarrow>
      ok (snd (get q)) \<and> contents q = fst (get q) # contents (snd (get q)) \<and> limit (snd (get q)) = limit q"
begin

lemma puts_contents:
  "ok q \<Longrightarrow> length (contents q) + length ds \<le> limit q \<Longrightarrow>
    ok (fold put ds q) \<and> contents (fold put ds q) = contents q @ ds \<and> limit (fold put ds q) = limit q"
proof (induction ds arbitrary: q)
  case (Cons d ds)
  then have "\<not> full q" using full by simp
  then show ?case using put [OF Cons.prems(1)] Cons.IH [of "put d q"] Cons.prems(2) by simp
qed simp

lemma gets_contents:
  "ok q \<Longrightarrow> n \<le> length (contents q) \<Longrightarrow>
    ok (((snd \<circ> get) ^^ n) q) \<and> contents (((snd \<circ> get) ^^ n) q) = drop n (contents q)"
proof (induction n arbitrary: q)
  case (Suc n)
  then have "\<not> empty q" using empty by auto
  then have g: "ok (snd (get q))" "contents q = fst (get q) # contents (snd (get q))"
    using get [OF Suc.prems(1)] by simp_all
  then show ?case
    using Suc.IH [of "snd (get q)"] Suc.prems(2) by (simp add: funpow_Suc_right del: funpow.simps)
qed simp

lemma get_first:
  assumes "ok q" "contents q = d # ds"
  shows "fst (get q) = d \<and> contents (snd (get q)) = ds"
  using get [OF assms(1)] empty [OF assms(1)] assms(2) by simp

end

lemma length_mq_contents [simp]: "length (mq_contents q) = datasize q"
  by (simp add: mq_contents_def)

lemma mq_put_ok:
  assumes ok: "mq_ok q" and room: "\<not> mq_IsFull q"
  shows "mq_ok (mq_put d q) \<and> mq_contents (mq_put d q) = mq_contents q @ [d] \<and> capacity (mq_put d q) = capacity q"
proof -
  let ?n = "capacity q" and ?q = "mq_put d q"
  have n: "0 < ?n" "datasize q < ?n" "getloc q < ?n" "length (ppbuf q) = ?n"
      and p: "putloc q = (getloc q + datasize q) mod ?n"
    using ok room by (auto simp: mq_ok_def mq_IsFull_def)
  have pl: "putloc q < ?n" using n by (simp add: p)
  have f: "ppbuf ?q = (ppbuf q)[putloc q := d]" "capacity ?q = ?n" "datasize ?q = Suc (datasize q)"
      "getloc ?q = getloc q" "putloc ?q = (if Suc (putloc q) = ?n then 0 else Suc (putloc q))"
    by (simp_all add: mq_put_def Let_def)
  have "putloc ?q = Suc (putloc q) mod ?n" using pl by (simp add: f(5))
  also have "\<dots> = (getloc q + Suc (datasize q)) mod ?n" by (simp add: p mod_Suc_eq)
  finally have ok': "mq_ok ?q" using n by (simp add: mq_ok_def f)
  have "putloc q \<noteq> (getloc q + i) mod ?n" if "i < datasize q" for i
  proof
    assume "putloc q = (getloc q + i) mod ?n"
    then have "(getloc q + i) mod ?n = putloc q" by simp
    then have "i mod ?n = datasize q mod ?n" unfolding p by (simp add: nat_mod_eq_iff)
    then show False using that n by simp
  qed
  then have "mq_contents ?q = mq_contents q @ [d]"
    using n pl by (simp add: mq_contents_def f p [symmetric])
  with ok' show ?thesis by (simp add: f)
qed

lemma mq_get_ok:
  assumes ok: "mq_ok q" and some: "\<not> mq_IsEmpty q"
  shows "mq_ok (snd (mq_get q)) \<and> mq_contents q = fst (mq_get q) # mq_contents (snd (mq_get q))
    \<and> capacity (snd (mq_get q)) = capacity q"
proof -
  let ?n = "capacity q" and ?q = "snd (mq_get q)"
  obtain m where m: "datasize q = Suc m" using some by (auto simp: mq_IsEmpty_def gr0_conv_Suc)
  have n: "0 < ?n" "datasize q \<le> ?n" "getloc q < ?n" "length (ppbuf q) = ?n"
      and p: "putloc q = (getloc q + datasize q) mod ?n"
    using ok by (auto simp: mq_ok_def)
  have f: "ppbuf ?q = ppbuf q" "capacity ?q = ?n" "datasize ?q = m" "putloc ?q = putloc q"
      "getloc ?q = (if Suc (getloc q) = ?n then 0 else Suc (getloc q))" "fst (mq_get q) = ppbuf q ! getloc q"
    by (simp_all add: mq_get_def Let_def m)
  have g: "getloc ?q = Suc (getloc q) mod ?n" using n by (simp add: f(5))
  have step: "(getloc ?q + i) mod ?n = (getloc q + Suc i) mod ?n" for i
    by (simp add: g mod_add_left_eq)
  have "mq_ok ?q" using n by (simp add: mq_ok_def f(1-4) step p m) (simp add: g)
  moreover have "mq_contents q = fst (mq_get q) # mq_contents ?q"
    using n by (simp add: mq_contents_def f(1-4,6) step m map_upt_Suc del: upt_Suc)
  ultimately show ?thesis by (simp add: f)
qed

interpretation ring: bounded_queue mq_ok mq_contents capacity mq_IsFull mq_IsEmpty mq_put mq_get
proof
  fix q :: "'a msg_queue" assume ok: "mq_ok q"
  show "mq_IsFull q \<longleftrightarrow> length (mq_contents q) = capacity q" by (auto simp: mq_IsFull_def)
  show "mq_IsEmpty q \<longleftrightarrow> mq_contents q = []" by (simp add: mq_IsEmpty_def flip: length_0_conv)
  show "length (mq_contents q) \<le> capacity q" using ok by (simp add: mq_ok_def)
qed (use mq_put_ok mq_get_ok in blast)+

section \<open>Three queues by priority\<close>

datatype EMsgPriority = MSG_HIGH | MSG_MEDIUM | MSG_LOW

record 'a prio_queue =
  pq_queue :: "EMsgPriority \<Rightarrow> 'a msg_queue"
  waitinggetthreadnum :: nat

definition MsgQueuePrio_new :: "(EMsgPriority \<Rightarrow> 'a option list) \<Rightarrow> 'a prio_queue" where
  \<comment> \<open>the argument holds the three arrays; their lengths are the constructor's sizes\<close>
  "MsgQueuePrio_new bufs = \<lparr>pq_queue = (\<lambda>p. stMsgQueue (bufs p)), waitinggetthreadnum = 0\<rparr>"

definition pq_update :: "EMsgPriority \<Rightarrow> ('a msg_queue \<Rightarrow> 'a msg_queue) \<Rightarrow> 'a prio_queue \<Rightarrow> 'a prio_queue" where
  "pq_update p f q = q\<lparr>pq_queue := (pq_queue q)(p := f (pq_queue q p))\<rparr>"

datatype put_result = PutBlocked | PutStored bool | PutFailed
  \<comment> \<open>\<open>PutStored\<close> tells whether \<open>cond_get_\<close> is notified\<close>

definition PutQ_locked :: "'a option \<Rightarrow> EMsgPriority \<Rightarrow> 'a prio_queue \<Rightarrow> put_result \<times> 'a prio_queue" where
  \<comment> \<open>from the test of the loop on: to the wait or to the end\<close>
  "PutQ_locked d p q =
     (if mq_IsFull (pq_queue q p)
      then (PutBlocked, pq_update p (\<lambda>w. w\<lparr>waitingputthreadnum := Suc (waitingputthreadnum w)\<rparr>) q)
      else (PutStored (waitinggetthreadnum q \<noteq> 0), pq_update p (mq_put d) q))"

definition PutQ_wake :: "bool \<Rightarrow> 'a option \<Rightarrow> EMsgPriority \<Rightarrow> 'a prio_queue \<Rightarrow> put_result \<times> 'a prio_queue" where
  \<comment> \<open>behind the wait; the first argument tells that it timed out\<close>
  "PutQ_wake timed_out d p q =
     (let q1 = pq_update p (\<lambda>w. w\<lparr>waitingputthreadnum := waitingputthreadnum w - 1\<rparr>) q
      in if timed_out then (PutFailed, q1) else PutQ_locked d p q1)"

datatype 'a get_result = GetBlocked | GetTaken "'a option" EMsgPriority bool | GetNull
  \<comment> \<open>\<open>GetTaken\<close> tells the queue and whether its \<open>cond_put\<close> is notified\<close>

definition pq_choose :: "'a prio_queue \<Rightarrow> EMsgPriority option" where
  "pq_choose q =
     (if \<not> mq_IsEmpty (pq_queue q MSG_HIGH) then Some MSG_HIGH
      else if \<not> mq_IsEmpty (pq_queue q MSG_MEDIUM) then Some MSG_MEDIUM
      else if \<not> mq_IsEmpty (pq_queue q MSG_LOW) then Some MSG_LOW else None)"

definition GetQ_locked :: "'a prio_queue \<Rightarrow> 'a get_result \<times> 'a prio_queue" where
  "GetQ_locked q =
     (case pq_choose q of
        Some p \<Rightarrow>
          let (d, w) = mq_get (pq_queue q p)
          in (GetTaken d p (waitingputthreadnum w \<noteq> 0), q\<lparr>pq_queue := (pq_queue q)(p := w)\<rparr>)
      | None \<Rightarrow> (GetBlocked, q\<lparr>waitinggetthreadnum := Suc (waitinggetthreadnum q)\<rparr>))"

definition GetQ_wake :: "bool \<Rightarrow> 'a prio_queue \<Rightarrow> 'a get_result \<times> 'a prio_queue" where
  "GetQ_wake timed_out q =
     (let q1 = q\<lparr>waitinggetthreadnum := waitinggetthreadnum q - 1\<rparr>
      in if timed_out then (GetNull, q1) else GetQ_locked q1)"

definition pq_IsEmpty :: "'a prio_queue \<Rightarrow> bool" where
  "pq_IsEmpty q \<longleftrightarrow> mq_IsEmpty (pq_queue q MSG_HIGH) \<and> mq_IsEmpty (pq_queue q MSG_MEDIUM)
     \<and> mq_IsEmpty (pq_queue q MSG_LOW)"

definition pq_GetCapacity :: "EMsgPriority \<Rightarrow> 'a prio_queue \<Rightarrow> nat" where
  "pq_GetCapacity p q = capacity (pq_queue q p)"

definition pq_GetUsed :: "EMsgPriority \<Rightarrow> 'a prio_queue \<Rightarrow> nat" where
  "pq_GetUsed p q = datasize (pq_queue q p)"

section \<open>The abstract queue\<close>

text \<open>Three bounded lists: a writer appends to its list, a reader takes the head of the first list that has one.\<close>

definition pq_ok :: "'a prio_queue \<Rightarrow> bool" where
  "pq_ok q \<longleftrightarrow> (\<forall>p. mq_ok (pq_queue q p))"

definition pq_contents :: "'a prio_queue \<Rightarrow> EMsgPriority \<Rightarrow> 'a option list" where
  "pq_contents q p = mq_contents (pq_queue q p)"

definition abs_put :: "(EMsgPriority \<Rightarrow> nat) \<Rightarrow> 'a option \<Rightarrow> EMsgPriority \<Rightarrow> (EMsgPriority \<Rightarrow> 'a option list)
    \<Rightarrow> bool \<times> (EMsgPriority \<Rightarrow> 'a option list)" where
  "abs_put lim d p c = (if length (c p) < lim p then (True, c(p := c p @ [d])) else (False, c))"

definition abs_get :: "(EMsgPriority \<Rightarrow> 'a option list) \<Rightarrow> ('a option \<times> EMsgPriority) option \<times> (EMsgPriority \<Rightarrow> 'a option list)" where
  "abs_get c =
     (case filter (\<lambda>p. c p \<noteq> []) [MSG_HIGH, MSG_MEDIUM, MSG_LOW] of
        [] \<Rightarrow> (None, c)
      | p # _ \<Rightarrow> (Some (hd (c p), p), c(p := tl (c p))))"

definition put_stored :: "put_result \<Rightarrow> bool" where
  "put_stored r = (case r of PutStored _ \<Rightarrow> True | _ \<Rightarrow> False)"

definition get_item :: "'a get_result \<Rightarrow> ('a option \<times> EMsgPriority) option" where
  "get_item r = (case r of GetTaken d p _ \<Rightarrow> Some (d, p) | _ \<Rightarrow> None)"

lemma mq_counter_same [simp]:
  "mq_ok (q\<lparr>waitingputthreadnum := n\<rparr>) = mq_ok q" "mq_contents (q\<lparr>waitingputthreadnum := n\<rparr>) = mq_contents q"
  by (simp_all add: mq_ok_def mq_contents_def)

lemma mq_counter_kept [simp]:
  "waitingputthreadnum (mq_put d q) = waitingputthreadnum q" "waitingputthreadnum (snd (mq_get q)) = waitingputthreadnum q"
  by (simp_all add: mq_put_def mq_get_def Let_def)

lemma PutQ_locked_refines:
  assumes ok: "pq_ok q" and r: "PutQ_locked d p q = (r, q')"
  shows "pq_ok q' \<and> (put_stored r, pq_contents q') = abs_put (\<lambda>p. capacity (pq_queue q p)) d p (pq_contents q)
    \<and> (\<forall>u. capacity (pq_queue q' u) = capacity (pq_queue q u))"
proof -
  have okp: "mq_ok (pq_queue q u)" for u using ok by (simp add: pq_ok_def)
  have le: "datasize (pq_queue q p) \<le> capacity (pq_queue q p)" using okp [of p] by (simp add: mq_ok_def)
  show ?thesis
  proof (cases "mq_IsFull (pq_queue q p)")
    case True
    then have "r = PutBlocked" "q' = pq_update p (\<lambda>w. w\<lparr>waitingputthreadnum := Suc (waitingputthreadnum w)\<rparr>) q"
      using r by (simp_all add: PutQ_locked_def)
    with True okp show ?thesis
      by (auto simp: pq_ok_def pq_update_def abs_put_def pq_contents_def fun_eq_iff put_stored_def mq_IsFull_def)
  next
    case False
    then have "r = PutStored (waitinggetthreadnum q \<noteq> 0)" "q' = pq_update p (mq_put d) q"
      using r by (simp_all add: PutQ_locked_def)
    moreover have "datasize (pq_queue q p) < capacity (pq_queue q p)" using False le by (simp add: mq_IsFull_def)
    ultimately show ?thesis
      using ring.put [OF okp [of p] False, of d] okp
      by (auto simp: pq_ok_def pq_update_def abs_put_def pq_contents_def fun_eq_iff put_stored_def)
  qed
qed

lemma pq_choose_abs:
  assumes "pq_ok q"
  shows "pq_choose q = None \<Longrightarrow> abs_get (pq_contents q) = (None, pq_contents q)"
    and "pq_choose q = Some p \<Longrightarrow>
      abs_get (pq_contents q) = (Some (hd (pq_contents q p), p), (pq_contents q)(p := tl (pq_contents q p)))"
  using assms by (auto simp: pq_choose_def abs_get_def pq_ok_def pq_contents_def ring.empty split: if_splits)

lemma GetQ_locked_refines:
  assumes ok: "pq_ok q" and r: "GetQ_locked q = (r, q')"
  shows "pq_ok q' \<and> (get_item r, pq_contents q') = abs_get (pq_contents q)
    \<and> (\<forall>u. capacity (pq_queue q' u) = capacity (pq_queue q u))"
proof (cases "pq_choose q")
  case None
  then have "r = GetBlocked" "q' = q\<lparr>waitinggetthreadnum := Suc (waitinggetthreadnum q)\<rparr>"
    using r by (simp_all add: GetQ_locked_def)
  with pq_choose_abs(1) [OF ok None] ok show ?thesis
    by (simp add: get_item_def pq_ok_def pq_contents_def [abs_def])
next
  case (Some p)
  have okp: "mq_ok (pq_queue q u)" for u using ok by (simp add: pq_ok_def)
  let ?g = "mq_get (pq_queue q p)"
  have "\<not> mq_IsEmpty (pq_queue q p)" using Some by (auto simp: pq_choose_def split: if_splits)
  note g = ring.get [OF okp this]
  have "r = GetTaken (fst ?g) p (waitingputthreadnum (snd ?g) \<noteq> 0)" "q' = q\<lparr>pq_queue := (pq_queue q)(p := snd ?g)\<rparr>"
    using r Some by (simp_all add: GetQ_locked_def split_beta)
  then show ?thesis
    using g okp pq_choose_abs(2) [OF ok Some] by (auto simp: get_item_def pq_ok_def pq_contents_def fun_eq_iff)
qed

lemma pq_ok_new: "\<forall>p. bufs p \<noteq> [] \<Longrightarrow> pq_ok (MsgQueuePrio_new bufs) \<and> pq_contents (MsgQueuePrio_new bufs) = (\<lambda>_. [])"
  by (auto simp: pq_ok_def MsgQueuePrio_new_def stMsgQueue_def mq_ok_def pq_contents_def mq_contents_def)

text \<open>
  C19. The three rings refine three bounded lists: a write stores its pointer at the end of the list of
  its priority, or blocks exactly when that list has reached the size given to the constructor; a
  read takes the oldest pointer of the highest priority that has one, or blocks exactly when all
  three lists are empty.
\<close>

theorem prio_queue_refines_lists:
  assumes ok: "pq_ok q" and p: "PutQ_locked d u q = (pr, qp)" and g: "GetQ_locked q = (gr, qg)"
  shows "pq_ok qp \<and> (put_stored pr, pq_contents qp) = abs_put (\<lambda>p. capacity (pq_queue q p)) d u (pq_contents q)
    \<and> pq_ok qg \<and> (get_item gr, pq_contents qg) = abs_get (pq_contents q)"
  using PutQ_locked_refines [OF ok p] GetQ_locked_refines [OF ok g] by blast

theorem prio_queue_refines_lists_witness:
  "\<exists>q qp qg. PutQ_locked (Some (1 :: nat)) MSG_LOW (MsgQueuePrio_new (\<lambda>_. [None, None])) = (PutStored False, q)
    \<and> PutQ_locked (Some 2) MSG_HIGH q = (PutStored False, qp) \<and> GetQ_locked q = (GetTaken (Some 1) MSG_LOW False, qg)
    \<and> pq_contents qp = (\<lambda>p. if p = MSG_HIGH then [Some 2] else if p = MSG_LOW then [Some 1] else [])
    \<and> pq_contents qg = (\<lambda>_. [])"
proof -
  let ?n = "MsgQueuePrio_new (\<lambda>_. [None, None]) :: nat prio_queue"
  let ?q = "snd (PutQ_locked (Some (1 :: nat)) MSG_LOW ?n)"
  have n: "pq_ok ?n" "pq_contents ?n = (\<lambda>_. [])" using pq_ok_new [of "\<lambda>_. [None, None :: nat option]"] by simp_all
  have q: "PutQ_locked (Some (1 :: nat)) MSG_LOW ?n = (PutStored False, ?q)"
    by (simp add: PutQ_locked_def MsgQueuePrio_new_def stMsgQueue_def mq_IsFull_def)
  have c: "pq_ok ?q \<and> pq_contents ?q = (\<lambda>p. if p = MSG_LOW then [Some 1] else [])"
    using PutQ_locked_refines [OF n(1) q] n(2)
    by (simp add: abs_put_def MsgQueuePrio_new_def stMsgQueue_def put_stored_def fun_eq_iff)
  obtain qp where qp: "PutQ_locked (Some 2) MSG_HIGH ?q = (PutStored False, qp)"
    by (simp add: PutQ_locked_def MsgQueuePrio_new_def stMsgQueue_def mq_IsFull_def pq_update_def)
  obtain qg where qg: "GetQ_locked ?q = (GetTaken (Some 1) MSG_LOW False, qg)"
    by (simp add: PutQ_locked_def GetQ_locked_def MsgQueuePrio_new_def stMsgQueue_def mq_IsFull_def mq_IsEmpty_def
        pq_update_def pq_choose_def mq_put_def mq_get_def Let_def)
  have "capacity (pq_queue ?q MSG_HIGH) = 2"
    using PutQ_locked_refines [OF n(1) q] by (simp add: MsgQueuePrio_new_def stMsgQueue_def)
  with prio_queue_refines_lists [OF _ qp qg] c have
    "pq_contents qp = (\<lambda>p. if p = MSG_HIGH then [Some 2] else if p = MSG_LOW then [Some 1] else [])"
    "pq_contents qg = (\<lambda>_. [])"
    by (auto simp: abs_put_def abs_get_def fun_eq_iff put_stored_def)
  with q qp qg show ?thesis by blast
qed

end
