(* ===== verification/MsgQueueWait.thy ===== *)
theory MsgQueueWait
  imports MsgQueuePrio
begin

text \<open>
  The threads at a \<open>MsgQueuePrio\<close>. A thread enters \<open>PutQ\<close> or \<open>GetQ\<close>, waits when it must and goes on
  when it is notified, when its wait times out (only if it gave a time limit) or without a reason (a
  condition variable may wake a thread spuriously). \<open>notify_one\<close> picks one of the waiting threads, any
  of them. The state counts the waiting and the notified threads of every condition variable; a
  writer carries its pointer. The history fields record, per priority, what was stored and taken.
\<close>

record 'a queue_system =
  qs_queue :: "'a prio_queue"
  qs_getters :: "int multiset" \<comment> \<open>\<open>num_seconds\<close> of the threads that wait on \<open>cond_get_\<close>\<close>
  qs_getters_notified :: "int multiset"
  qs_putters :: "EMsgPriority \<Rightarrow> ('a option \<times> int) multiset"
  qs_putters_notified :: "EMsgPriority \<Rightarrow> ('a option \<times> int) multiset"
  qs_stored :: "EMsgPriority \<Rightarrow> 'a option list"
  qs_taken :: "EMsgPriority \<Rightarrow> 'a option list"

definition queue_system_new :: "(EMsgPriority \<Rightarrow> 'a option list) \<Rightarrow> 'a queue_system" where
  "queue_system_new bufs =
     \<lparr>qs_queue = MsgQueuePrio_new bufs, qs_getters = {#}, qs_getters_notified = {#},
      qs_putters = (\<lambda>_. {#}), qs_putters_notified = (\<lambda>_. {#}), qs_stored = (\<lambda>_. []), qs_taken = (\<lambda>_. [])\<rparr>"

text \<open>\<open>notify_one\<close> on a condition variable with waiting threads \<open>W\<close>, of which it moves one to \<open>N\<close>.\<close>

inductive notify_one :: "'t multiset \<Rightarrow> 't multiset \<Rightarrow> 't multiset \<Rightarrow> 't multiset \<Rightarrow> bool" where
  nobody: "notify_one {#} N {#} N"
| somebody: "notify_one (add_mset t W) N W (add_mset t N)"

inductive_cases notify_oneE: "notify_one W N W' N'"

text \<open>What becomes of a writer, and of the readers, once the mutex is released again.\<close>

inductive put_outcome :: "'a option \<Rightarrow> int \<Rightarrow> EMsgPriority \<Rightarrow> put_result \<Rightarrow> 'a queue_system \<Rightarrow> 'a queue_system \<Rightarrow> bool"
  for d secs p where
  blocked: "put_outcome d secs p PutBlocked s
     (s\<lparr>qs_putters := (qs_putters s)(p := add_mset (d, secs) (qs_putters s p))\<rparr>)"
| stored: "\<not> notify \<Longrightarrow> put_outcome d secs p (PutStored notify) s
     (s\<lparr>qs_stored := (qs_stored s)(p := qs_stored s p @ [d])\<rparr>)"
| stored_notify: "notify \<Longrightarrow> notify_one (qs_getters s) (qs_getters_notified s) W N \<Longrightarrow>
     put_outcome d secs p (PutStored notify) s
     (s\<lparr>qs_getters := W, qs_getters_notified := N, qs_stored := (qs_stored s)(p := qs_stored s p @ [d])\<rparr>)"
| failed: "put_outcome d secs p PutFailed s s"

inductive_cases put_outcomeE: "put_outcome d secs p r s s'"

inductive get_outcome :: "int \<Rightarrow> 'a get_result \<Rightarrow> 'a queue_system \<Rightarrow> 'a queue_system \<Rightarrow> bool" for secs where
  blocked: "get_outcome secs GetBlocked s (s\<lparr>qs_getters := add_mset secs (qs_getters s)\<rparr>)"
| taken: "\<not> notify \<Longrightarrow> get_outcome secs (GetTaken d p notify) s
     (s\<lparr>qs_taken := (qs_taken s)(p := qs_taken s p @ [d])\<rparr>)"
| taken_notify: "notify \<Longrightarrow> notify_one (qs_putters s p) (qs_putters_notified s p) W N \<Longrightarrow>
     get_outcome secs (GetTaken d p notify) s
     (s\<lparr>qs_putters := (qs_putters s)(p := W), qs_putters_notified := (qs_putters_notified s)(p := N),
        qs_taken := (qs_taken s)(p := qs_taken s p @ [d])\<rparr>)"
| null: "get_outcome secs GetNull s s"

inductive_cases get_outcomeE: "get_outcome secs r s s'"

inductive qstep :: "'a queue_system \<Rightarrow> 'a queue_system \<Rightarrow> bool" where
  put_enter: "PutQ_locked d p (qs_queue s) = (r, q) \<Longrightarrow> put_outcome d secs p r (s\<lparr>qs_queue := q\<rparr>) s' \<Longrightarrow> qstep s s'"
| put_notified: "(d, secs) \<in># qs_putters_notified s p \<Longrightarrow> PutQ_wake False d p (qs_queue s) = (r, q) \<Longrightarrow>
    put_outcome d secs p r (s\<lparr>qs_queue := q,
      qs_putters_notified := (qs_putters_notified s)(p := qs_putters_notified s p - {#(d, secs)#})\<rparr>) s' \<Longrightarrow> qstep s s'"
| put_unnotified: "(d, secs) \<in># qs_putters s p \<Longrightarrow> timed_out \<longrightarrow> secs \<noteq> 0 \<Longrightarrow>
    PutQ_wake timed_out d p (qs_queue s) = (r, q) \<Longrightarrow>
    put_outcome d secs p r (s\<lparr>qs_queue := q,
      qs_putters := (qs_putters s)(p := qs_putters s p - {#(d, secs)#})\<rparr>) s' \<Longrightarrow> qstep s s'"
| get_enter: "GetQ_locked (qs_queue s) = (g, q) \<Longrightarrow> get_outcome secs g (s\<lparr>qs_queue := q\<rparr>) s' \<Longrightarrow> qstep s s'"
| get_notified: "secs \<in># qs_getters_notified s \<Longrightarrow> GetQ_wake False (qs_queue s) = (g, q) \<Longrightarrow>
    get_outcome secs g (s\<lparr>qs_queue := q, qs_getters_notified := qs_getters_notified s - {#secs#}\<rparr>) s' \<Longrightarrow> qstep s s'"
| get_unnotified: "secs \<in># qs_getters s \<Longrightarrow> timed_out \<longrightarrow> secs \<noteq> 0 \<Longrightarrow>
    GetQ_wake timed_out (qs_queue s) = (g, q) \<Longrightarrow>
    get_outcome secs g (s\<lparr>qs_queue := q, qs_getters := qs_getters s - {#secs#}\<rparr>) s' \<Longrightarrow> qstep s s'"

section \<open>The invariant\<close>

definition items :: "'a prio_queue \<Rightarrow> nat" where
  "items q = datasize (pq_queue q MSG_HIGH) + datasize (pq_queue q MSG_MEDIUM) + datasize (pq_queue q MSG_LOW)"

definition free_slots :: "'a prio_queue \<Rightarrow> EMsgPriority \<Rightarrow> nat" where
  "free_slots q p = capacity (pq_queue q p) - datasize (pq_queue q p)"

text \<open>
  The invariant with a slack: a thread that has left its condition variable and has not done its work
  yet counts for one.
\<close>

definition queue_inv :: "nat \<Rightarrow> (EMsgPriority \<Rightarrow> nat) \<Rightarrow> 'a queue_system \<Rightarrow> bool" where
  "queue_inv a b s \<longleftrightarrow>
     pq_ok (qs_queue s)
     \<and> (\<forall>p. waitingputthreadnum (pq_queue (qs_queue s) p) = size (qs_putters s p) + size (qs_putters_notified s p))
     \<and> waitinggetthreadnum (qs_queue s) = size (qs_getters s) + size (qs_getters_notified s)
     \<and> (qs_getters s = {#} \<or> items (qs_queue s) \<le> size (qs_getters_notified s) + a)
     \<and> (\<forall>p. qs_putters s p = {#} \<or> free_slots (qs_queue s) p \<le> size (qs_putters_notified s p) + b p)
     \<and> (\<forall>p. qs_stored s p = qs_taken s p @ pq_contents (qs_queue s) p)"

lemma pq_update_simps [simp]:
  "pq_queue (pq_update p f q) = (pq_queue q)(p := f (pq_queue q p))"
  "waitinggetthreadnum (pq_update p f q) = waitinggetthreadnum q"
  by (simp_all add: pq_update_def)

lemma mq_put_size: "datasize (mq_put d q) = Suc (datasize q)" "capacity (mq_put d q) = capacity q"
  by (simp_all add: mq_put_def Let_def)

lemma mq_get_size: "datasize (snd (mq_get q)) = datasize q - 1" "capacity (snd (mq_get q)) = capacity q"
  by (simp_all add: mq_get_def Let_def)

lemma items_put: "items (pq_update p (mq_put d) q) = Suc (items q)"
  by (cases p) (simp_all add: items_def mq_put_size)

lemma items_counter [simp]:
  "items (pq_update p (\<lambda>w. w\<lparr>waitingputthreadnum := f w\<rparr>) q) = items q"
  "items (q\<lparr>waitinggetthreadnum := n\<rparr>) = items q"
  by (cases p) (simp_all add: items_def)

lemma notify_one_some: "notify_one W N W' N' \<Longrightarrow> W \<noteq> {#} \<Longrightarrow> size N' = Suc (size N) \<and> size W = Suc (size W')"
  by (auto elim: notify_oneE)

lemma notify_one_sizes: "notify_one W N W' N' \<Longrightarrow> size W' + size N' = size W + size N"
  by (auto elim: notify_oneE)

lemma notify_one_empty: "notify_one {#} N W' N' \<Longrightarrow> W' = {#} \<and> N' = N"
  by (auto elim: notify_oneE)

text \<open>A writer that holds the mutex leaves the invariant without slack.\<close>

lemma put_locked_inv:
  assumes inv: "queue_inv 0 ((\<lambda>_. 0)(p := 1)) s" and r: "PutQ_locked d p (qs_queue s) = (r, q)"
    and o: "put_outcome d secs p r t s'" and t: "t = s\<lparr>qs_queue := q\<rparr>"
  shows "queue_inv 0 (\<lambda>_. 0) s'"
proof -
  have base: "\<forall>u. waitingputthreadnum (pq_queue (qs_queue s) u) = size (qs_putters s u) + size (qs_putters_notified s u)"
      "waitinggetthreadnum (qs_queue s) = size (qs_getters s) + size (qs_getters_notified s)"
      "qs_getters s = {#} \<or> items (qs_queue s) \<le> size (qs_getters_notified s)"
      "\<forall>u. qs_putters s u = {#} \<or> free_slots (qs_queue s) u \<le> size (qs_putters_notified s u) + (if u = p then 1 else 0)"
      "\<forall>u. qs_stored s u = qs_taken s u @ pq_contents (qs_queue s) u"
    using inv by (auto simp: queue_inv_def split: if_splits)
  show ?thesis
  proof (cases "mq_IsFull (pq_queue (qs_queue s) p)")
    case True
    let ?q = "qs_queue s"
    have rq: "r = PutBlocked" "q = pq_update p (\<lambda>w. w\<lparr>waitingputthreadnum := Suc (waitingputthreadnum w)\<rparr>) ?q"
      using r True by (simp_all add: PutQ_locked_def)
    have "\<forall>u. u = p \<or> qs_putters s u = {#} \<or> free_slots ?q u \<le> size (qs_putters_notified s u)"
      using base(4) by auto
    moreover have "free_slots ?q p = 0" using True by (simp add: free_slots_def mq_IsFull_def)
    moreover have "free_slots q = free_slots ?q" "pq_contents q = pq_contents ?q" "pq_ok q = pq_ok ?q"
      by (auto simp: rq free_slots_def pq_contents_def pq_ok_def fun_eq_iff)
    moreover have "s' = s\<lparr>qs_queue := q, qs_putters := (qs_putters s)(p := add_mset (d, secs) (qs_putters s p))\<rparr>"
      using o unfolding rq(1) t by (auto elim: put_outcomeE)
    ultimately show ?thesis
      using inv base(1,2,3,5) by (simp add: queue_inv_def rq(2)) blast
  next
    case False
    let ?q = "qs_queue s"
    have rq: "r = PutStored (waitinggetthreadnum ?q \<noteq> 0)" "q = pq_update p (mq_put d) ?q"
      using r False by (simp_all add: PutQ_locked_def)
    have okp: "mq_ok (pq_queue ?q u)" for u using inv by (simp add: queue_inv_def pq_ok_def)
    note put = ring.put [OF okp [of p] False, of d]
    have ok: "pq_ok q" using put okp by (simp add: rq pq_ok_def)
    have con: "pq_contents q u = (if u = p then pq_contents ?q p @ [d] else pq_contents ?q u)" for u
      using put by (simp add: rq pq_contents_def)
    have fr: "free_slots q u = (if u = p then free_slots ?q p - 1 else free_slots ?q u)" for u
      by (simp add: rq free_slots_def mq_put_size)
    have it: "items q = Suc (items ?q)" by (simp add: rq items_put)
    have cnt: "waitingputthreadnum (pq_queue q u) = waitingputthreadnum (pq_queue ?q u)"
        "waitinggetthreadnum q = waitinggetthreadnum ?q" for u
      by (simp_all add: rq)
    have putters: "\<forall>u. qs_putters s u = {#} \<or> free_slots q u \<le> size (qs_putters_notified s u)"
      using base(4) by (auto simp: fr split: if_splits)
    consider "waitinggetthreadnum ?q = 0" "s' = s\<lparr>qs_queue := q, qs_stored := (qs_stored s)(p := qs_stored s p @ [d])\<rparr>"
      | W N where "notify_one (qs_getters s) (qs_getters_notified s) W N"
          "s' = s\<lparr>qs_queue := q, qs_getters := W, qs_getters_notified := N,
                  qs_stored := (qs_stored s)(p := qs_stored s p @ [d])\<rparr>"
      using o unfolding rq(1) t by (auto elim!: put_outcomeE)
    then show ?thesis
    proof cases
      case 1
      then have "qs_getters s = {#}" using base(2) by simp
      then show ?thesis
        unfolding 1(2) queue_inv_def using ok base(1,2,5) putters by (simp add: con cnt)
    next
      case 2
      have "W = {#} \<or> items q \<le> size N"
        using base(3) notify_one_some [OF 2(1)] notify_one_empty [of "qs_getters_notified s" W N] 2(1)
        by (cases "qs_getters s = {#}") (auto simp: it)
      then show ?thesis
        unfolding 2(2) queue_inv_def
        using ok base(1,2,5) putters notify_one_sizes [OF 2(1)] by (simp add: con cnt)
    qed
  qed
qed

text \<open>So does a reader.\<close>

lemma get_locked_inv:
  assumes inv: "queue_inv 1 (\<lambda>_. 0) s" and r: "GetQ_locked (qs_queue s) = (r, q)"
    and o: "get_outcome secs r t s'" and t: "t = s\<lparr>qs_queue := q\<rparr>"
  shows "queue_inv 0 (\<lambda>_. 0) s'"
proof (cases "pq_choose (qs_queue s)")
  case None
  have rq: "r = GetBlocked" "q = (qs_queue s)\<lparr>waitinggetthreadnum := Suc (waitinggetthreadnum (qs_queue s))\<rparr>"
    using r None by (simp_all add: GetQ_locked_def)
  have "items (qs_queue s) = 0"
    using None by (auto simp: pq_choose_def mq_IsEmpty_def items_def split: if_splits)
  moreover have "free_slots q = free_slots (qs_queue s)" "pq_contents q = pq_contents (qs_queue s)"
      "pq_ok q = pq_ok (qs_queue s)"
    by (auto simp: rq free_slots_def pq_contents_def pq_ok_def fun_eq_iff)
  moreover have "s' = s\<lparr>qs_queue := q, qs_getters := add_mset secs (qs_getters s)\<rparr>"
    using o unfolding rq(1) t by (auto elim: get_outcomeE)
  ultimately show ?thesis using inv by (simp add: queue_inv_def rq(2))
next
  case (Some p)
  let ?q = "qs_queue s" and ?g = "mq_get (pq_queue (qs_queue s) p)"
  have okp: "mq_ok (pq_queue ?q u)" for u using inv by (simp add: queue_inv_def pq_ok_def)
  have ne: "\<not> mq_IsEmpty (pq_queue ?q p)" using Some by (auto simp: pq_choose_def split: if_splits)
  note get = ring.get [OF okp ne]
  have rq: "r = GetTaken (fst ?g) p (waitingputthreadnum (pq_queue ?q p) \<noteq> 0)"
      "q = ?q\<lparr>pq_queue := (pq_queue ?q)(p := snd ?g)\<rparr>"
    using r Some by (simp_all add: GetQ_locked_def split_beta)
  have pos: "0 < datasize (pq_queue ?q p)" "datasize (pq_queue ?q p) \<le> capacity (pq_queue ?q p)"
    using ne okp [of p] by (simp_all add: mq_IsEmpty_def mq_ok_def)
  have ok: "pq_ok q" using get okp by (simp add: rq pq_ok_def)
  have con: "pq_contents ?q u = (if u = p then fst ?g # pq_contents q p else pq_contents q u)" for u
    using get by (simp add: rq pq_contents_def)
  have fr: "free_slots q u = (if u = p then Suc (free_slots ?q p) else free_slots ?q u)" for u
    using pos by (simp add: rq free_slots_def mq_get_size Suc_diff_le)
  have it: "items ?q = Suc (items q)" using pos by (cases p) (simp_all add: rq items_def mq_get_size)
  have cnt: "waitingputthreadnum (pq_queue q u) = waitingputthreadnum (pq_queue ?q u)"
      "waitinggetthreadnum q = waitinggetthreadnum ?q" for u
    by (simp_all add: rq)
  have base: "\<forall>u. waitingputthreadnum (pq_queue ?q u) = size (qs_putters s u) + size (qs_putters_notified s u)"
      "waitinggetthreadnum ?q = size (qs_getters s) + size (qs_getters_notified s)"
      "qs_getters s = {#} \<or> items q \<le> size (qs_getters_notified s)"
      "\<forall>u. qs_putters s u = {#} \<or> free_slots ?q u \<le> size (qs_putters_notified s u)"
      "\<forall>u. qs_stored s u = qs_taken s u @ pq_contents ?q u"
    using inv by (auto simp: queue_inv_def it)
  consider "waitingputthreadnum (pq_queue ?q p) = 0"
      "s' = s\<lparr>qs_queue := q, qs_taken := (qs_taken s)(p := qs_taken s p @ [fst ?g])\<rparr>"
    | W N where "notify_one (qs_putters s p) (qs_putters_notified s p) W N"
        "s' = s\<lparr>qs_queue := q, qs_putters := (qs_putters s)(p := W),
                qs_putters_notified := (qs_putters_notified s)(p := N),
                qs_taken := (qs_taken s)(p := qs_taken s p @ [fst ?g])\<rparr>"
    using o unfolding rq(1) t by (auto elim!: get_outcomeE)
  then show ?thesis
  proof cases
    case 1
    then have "qs_putters s p = {#}" using base(1) [rule_format, of p] by simp
    then have "\<forall>u. qs_putters s u = {#} \<or> free_slots q u \<le> size (qs_putters_notified s u)"
      using base(4) by (auto simp: fr)
    then show ?thesis
      unfolding 1(2) queue_inv_def using ok base(1,2,3,5) by (simp add: con cnt)
  next
    case 2
    have "W = {#} \<or> free_slots q p \<le> size N"
      using base(4) [rule_format, of p] notify_one_some [OF 2(1)] notify_one_empty [of "qs_putters_notified s p" W N] 2(1)
      by (cases "qs_putters s p = {#}") (auto simp: fr)
    moreover have "\<forall>u. u = p \<or> qs_putters s u = {#} \<or> free_slots q u \<le> size (qs_putters_notified s u)"
      using base(4) by (auto simp: fr)
    ultimately show ?thesis
      unfolding 2(2) queue_inv_def
      using ok base(1,2,3,5) notify_one_sizes [OF 2(1)] by (auto simp: con cnt)
  qed
qed

lemma queue_inv_mono:
  "queue_inv a b s \<Longrightarrow> a \<le> a' \<Longrightarrow> (\<And>p. b p \<le> b' p) \<Longrightarrow> queue_inv a' b' s"
  unfolding queue_inv_def by (meson add_left_mono le_trans)

lemma size_remove_one: "x \<in># M \<Longrightarrow> size M = Suc (size (M - {#x#}))"
  by (metis insert_DiffM size_add_mset)

text \<open>Leaving a condition variable, notified or not, costs at most one unit of slack.\<close>

lemma putter_leaves_inv:
  fixes p :: EMsgPriority
  assumes inv: "queue_inv 0 (\<lambda>_. 0) s"
  defines "q1 \<equiv> pq_update p (\<lambda>w. w\<lparr>waitingputthreadnum := waitingputthreadnum w - 1\<rparr>) (qs_queue s)"
  shows "x \<in># qs_putters_notified s p \<Longrightarrow>
      queue_inv 0 ((\<lambda>_. 0)(p := 1)) (s\<lparr>qs_queue := q1,
        qs_putters_notified := (qs_putters_notified s)(p := qs_putters_notified s p - {#x#})\<rparr>)"
    and "x \<in># qs_putters s p \<Longrightarrow>
      queue_inv 0 (\<lambda>_. 0) (s\<lparr>qs_queue := q1, qs_putters := (qs_putters s)(p := qs_putters s p - {#x#})\<rparr>)"
proof -
  have same: "free_slots q1 = free_slots (qs_queue s)" "pq_contents q1 = pq_contents (qs_queue s)"
      "pq_ok q1 = pq_ok (qs_queue s)" "items q1 = items (qs_queue s)"
    by (auto simp: q1_def free_slots_def pq_contents_def pq_ok_def fun_eq_iff)
  show "queue_inv 0 ((\<lambda>_. 0)(p := 1)) (s\<lparr>qs_queue := q1,
      qs_putters_notified := (qs_putters_notified s)(p := qs_putters_notified s p - {#x#})\<rparr>)"
    if "x \<in># qs_putters_notified s p"
    using inv size_remove_one [OF that] unfolding queue_inv_def
    by (simp add: same) (simp add: q1_def, metis)
  show "queue_inv 0 (\<lambda>_. 0) (s\<lparr>qs_queue := q1, qs_putters := (qs_putters s)(p := qs_putters s p - {#x#})\<rparr>)"
    if "x \<in># qs_putters s p"
  proof -
    have "qs_putters s p \<noteq> {#}" using that by auto
    then show ?thesis
      using inv size_remove_one [OF that] unfolding queue_inv_def
      by (simp add: same) (simp add: q1_def, metis)
  qed
qed

lemma getter_leaves_inv:
  assumes inv: "queue_inv 0 (\<lambda>_. 0) s"
  defines "q1 \<equiv> (qs_queue s)\<lparr>waitinggetthreadnum := waitinggetthreadnum (qs_queue s) - 1\<rparr>"
  shows "x \<in># qs_getters_notified s \<Longrightarrow>
      queue_inv 1 (\<lambda>_. 0) (s\<lparr>qs_queue := q1, qs_getters_notified := qs_getters_notified s - {#x#}\<rparr>)"
    and "x \<in># qs_getters s \<Longrightarrow>
      queue_inv 0 (\<lambda>_. 0) (s\<lparr>qs_queue := q1, qs_getters := qs_getters s - {#x#}\<rparr>)"
proof -
  have same: "free_slots q1 = free_slots (qs_queue s)" "pq_contents q1 = pq_contents (qs_queue s)"
      "pq_ok q1 = pq_ok (qs_queue s)" "items q1 = items (qs_queue s)"
    by (auto simp: q1_def free_slots_def pq_contents_def pq_ok_def fun_eq_iff)
  show "queue_inv 1 (\<lambda>_. 0) (s\<lparr>qs_queue := q1, qs_getters_notified := qs_getters_notified s - {#x#}\<rparr>)"
    if "x \<in># qs_getters_notified s"
    using inv size_remove_one [OF that] unfolding queue_inv_def by (simp add: same) (simp add: q1_def)
  show "queue_inv 0 (\<lambda>_. 0) (s\<lparr>qs_queue := q1, qs_getters := qs_getters s - {#x#}\<rparr>)"
    if "x \<in># qs_getters s"
  proof -
    have "qs_getters s \<noteq> {#}" using that by auto
    then show ?thesis
      using inv size_remove_one [OF that] unfolding queue_inv_def by (simp add: same) (simp add: q1_def)
  qed
qed

lemma queue_first:
  fixes s :: "'a queue_system"
  shows "s\<lparr>qs_putters_notified := x, qs_queue := q\<rparr> = s\<lparr>qs_queue := q, qs_putters_notified := x\<rparr>"
    and "s\<lparr>qs_putters := x, qs_queue := q\<rparr> = s\<lparr>qs_queue := q, qs_putters := x\<rparr>"
    and "s\<lparr>qs_getters_notified := y, qs_queue := q\<rparr> = s\<lparr>qs_queue := q, qs_getters_notified := y\<rparr>"
    and "s\<lparr>qs_getters := y, qs_queue := q\<rparr> = s\<lparr>qs_queue := q, qs_getters := y\<rparr>"
  by (cases s; simp)+

lemma qstep_inv: "qstep s s' \<Longrightarrow> queue_inv 0 (\<lambda>_. 0) s \<Longrightarrow> queue_inv 0 (\<lambda>_. 0) s'"
proof (induction rule: qstep.induct)
  case (put_enter d p s r q secs s')
  have "queue_inv 0 ((\<lambda>_. 0)(p := 1)) s" by (rule queue_inv_mono [OF put_enter.prems]) simp_all
  from put_locked_inv [OF this put_enter(1,2) refl] show ?case .
next
  case (put_notified d secs s p r q s')
  show ?case
    by (rule put_locked_inv [OF putter_leaves_inv(1) [OF put_notified.prems put_notified(1)] _ put_notified(3)])
      (use put_notified(2) in \<open>simp_all add: PutQ_wake_def Let_def queue_first\<close>)
next
  case (put_unnotified d secs s p timed_out r q s')
  note left = putter_leaves_inv(2) [OF put_unnotified.prems put_unnotified(1)]
  show ?case
  proof (cases timed_out)
    case True
    then show ?thesis using put_unnotified(3,4) left by (auto simp: PutQ_wake_def Let_def elim: put_outcomeE)
  next
    case False
    have "queue_inv 0 ((\<lambda>_. 0)(p := 1)) (s\<lparr>qs_queue :=
        pq_update p (\<lambda>w. w\<lparr>waitingputthreadnum := waitingputthreadnum w - 1\<rparr>) (qs_queue s),
        qs_putters := (qs_putters s)(p := qs_putters s p - {#(d, secs)#})\<rparr>)"
      by (rule queue_inv_mono [OF left]) simp_all
    then show ?thesis
      by (rule put_locked_inv [OF _ _ put_unnotified(4)])
        (use put_unnotified(3) False in \<open>simp_all add: PutQ_wake_def Let_def queue_first\<close>)
  qed
next
  case (get_enter s g q secs s')
  have "queue_inv 1 (\<lambda>_. 0) s" by (rule queue_inv_mono [OF get_enter.prems]) simp_all
  from get_locked_inv [OF this get_enter(1,2) refl] show ?case .
next
  case (get_notified secs s g q s')
  show ?case
    by (rule get_locked_inv [OF getter_leaves_inv(1) [OF get_notified.prems get_notified(1)] _ get_notified(3)])
      (use get_notified(2) in \<open>simp_all add: GetQ_wake_def Let_def queue_first\<close>)
next
  case (get_unnotified secs s timed_out g q s')
  note left = getter_leaves_inv(2) [OF get_unnotified.prems get_unnotified(1)]
  show ?case
  proof (cases timed_out)
    case True
    then show ?thesis using get_unnotified(3,4) left by (auto simp: GetQ_wake_def Let_def elim: get_outcomeE)
  next
    case False
    have "queue_inv 1 (\<lambda>_. 0) (s\<lparr>qs_queue := (qs_queue s)\<lparr>waitinggetthreadnum := waitinggetthreadnum (qs_queue s) - 1\<rparr>,
        qs_getters := qs_getters s - {#secs#}\<rparr>)"
      by (rule queue_inv_mono [OF left]) simp_all
    then show ?thesis
      by (rule get_locked_inv [OF _ _ get_unnotified(4)])
        (use get_unnotified(3) False in \<open>simp_all add: GetQ_wake_def Let_def queue_first\<close>)
  qed
qed

lemma queue_inv_new: "\<forall>p. bufs p \<noteq> [] \<Longrightarrow> queue_inv 0 (\<lambda>_. 0) (queue_system_new bufs)"
  using pq_ok_new [of bufs]
  by (simp add: queue_inv_def queue_system_new_def MsgQueuePrio_new_def stMsgQueue_def)

section \<open>Properties\<close>

text \<open>
  C20. No wake-up is lost, in every interleaving of any number of readers and writers: as long as a reader
  sleeps on \<open>cond_get_\<close> there are at least as many notified readers on their way as there are stored
  pointers, and as long as a writer sleeps on a queue's \<open>cond_put\<close> at least as many notified writers as
  that queue has free places. The counters that the code keeps are the numbers of threads in the waits.
\<close>

theorem no_lost_wakeup:
  assumes "\<forall>p. bufs p \<noteq> []" and run: "qstep\<^sup>*\<^sup>* (queue_system_new bufs) s"
  shows "(qs_getters s = {#} \<or> items (qs_queue s) \<le> size (qs_getters_notified s))
    \<and> (\<forall>p. qs_putters s p = {#} \<or> free_slots (qs_queue s) p \<le> size (qs_putters_notified s p))
    \<and> waitinggetthreadnum (qs_queue s) = size (qs_getters s) + size (qs_getters_notified s)
    \<and> (\<forall>p. waitingputthreadnum (pq_queue (qs_queue s) p) = size (qs_putters s p) + size (qs_putters_notified s p))"
proof -
  have "queue_inv 0 (\<lambda>_. 0) s"
    using run by (induction rule: rtranclp_induct) (rule queue_inv_new [OF assms(1)], erule (1) qstep_inv)
  then show ?thesis by (simp add: queue_inv_def)
qed

text \<open>
  C21. In every interleaving the pointers of one priority are taken in the order in which they were
  stored, each once, and those not taken yet are exactly the contents of the queue.
\<close>

theorem queue_delivers_in_order:
  assumes "\<forall>p. bufs p \<noteq> []" and run: "qstep\<^sup>*\<^sup>* (queue_system_new bufs) s"
  shows "qs_stored s p = qs_taken s p @ pq_contents (qs_queue s) p"
proof -
  have "queue_inv 0 (\<lambda>_. 0) s"
    using run by (induction rule: rtranclp_induct) (rule queue_inv_new [OF assms(1)], erule (1) qstep_inv)
  then show ?thesis by (simp add: queue_inv_def)
qed

lemma get_enter_blocked:
  assumes "pq_choose (qs_queue s) = None"
  shows "qstep s (s\<lparr>qs_queue := (qs_queue s)\<lparr>waitinggetthreadnum := Suc (waitinggetthreadnum (qs_queue s))\<rparr>,
                    qs_getters := add_mset secs (qs_getters s)\<rparr>)"
proof (rule qstep.get_enter)
  show "GetQ_locked (qs_queue s) =
      (GetBlocked, (qs_queue s)\<lparr>waitinggetthreadnum := Suc (waitinggetthreadnum (qs_queue s))\<rparr>)"
    using assms by (simp add: GetQ_locked_def)
  show "get_outcome secs GetBlocked (s\<lparr>qs_queue := q\<rparr>) (s\<lparr>qs_queue := q, qs_getters := add_mset secs (qs_getters s)\<rparr>)"
    for q using get_outcome.blocked [of secs "s\<lparr>qs_queue := q\<rparr>"] by simp
qed

lemma put_enter_notifies:
  assumes "\<not> mq_IsFull (pq_queue (qs_queue s) p)" "waitinggetthreadnum (qs_queue s) \<noteq> 0" "qs_getters s = add_mset t W"
  shows "qstep s (s\<lparr>qs_queue := pq_update p (mq_put d) (qs_queue s), qs_getters := W,
                    qs_getters_notified := add_mset t (qs_getters_notified s),
                    qs_stored := (qs_stored s)(p := qs_stored s p @ [d])\<rparr>)"
proof (rule qstep.put_enter)
  show "PutQ_locked d p (qs_queue s) = (PutStored True, pq_update p (mq_put d) (qs_queue s))"
    using assms by (simp add: PutQ_locked_def)
  show "put_outcome d 0 p (PutStored True) (s\<lparr>qs_queue := q\<rparr>)
      (s\<lparr>qs_queue := q, qs_getters := W, qs_getters_notified := add_mset t (qs_getters_notified s),
         qs_stored := (qs_stored s)(p := qs_stored s p @ [d])\<rparr>)" for q
    using put_outcome.stored_notify [of True "s\<lparr>qs_queue := q\<rparr>" W "add_mset t (qs_getters_notified s)" d 0 p] assms(3)
    by (simp add: notify_one.somebody)
qed

text \<open>Two readers wait on empty queues of one place each; then a pointer is stored.\<close>

lemma sample_waits:
  "\<exists>s. qstep\<^sup>*\<^sup>* (queue_system_new (\<lambda>_. [None :: nat option])) s \<and> qs_getters s = {#0#}
    \<and> items (qs_queue s) = 1 \<and> qs_stored s MSG_LOW = [Some 5] \<and> qs_taken s MSG_LOW = []"
proof -
  define s0 where "s0 = queue_system_new (\<lambda>_. [None :: nat option])"
  define s1 where "s1 = s0\<lparr>qs_queue := (qs_queue s0)\<lparr>waitinggetthreadnum := Suc (waitinggetthreadnum (qs_queue s0))\<rparr>,
                            qs_getters := add_mset 0 (qs_getters s0)\<rparr>"
  define s2 where "s2 = s1\<lparr>qs_queue := (qs_queue s1)\<lparr>waitinggetthreadnum := Suc (waitinggetthreadnum (qs_queue s1))\<rparr>,
                            qs_getters := add_mset 0 (qs_getters s1)\<rparr>"
  define s3 where "s3 = s2\<lparr>qs_queue := pq_update MSG_LOW (mq_put (Some 5)) (qs_queue s2), qs_getters := {#0#},
                    qs_getters_notified := add_mset 0 (qs_getters_notified s2),
                    qs_stored := (qs_stored s2)(MSG_LOW := qs_stored s2 MSG_LOW @ [Some 5])\<rparr>"
  note d = s3_def s2_def s1_def s0_def queue_system_new_def MsgQueuePrio_new_def stMsgQueue_def
  have "qstep s0 s1" unfolding s1_def by (rule get_enter_blocked) (simp add: d pq_choose_def mq_IsEmpty_def)
  moreover have "qstep s1 s2" unfolding s2_def by (rule get_enter_blocked) (simp add: d pq_choose_def mq_IsEmpty_def)
  moreover have "qstep s2 s3" unfolding s3_def by (rule put_enter_notifies) (simp_all add: d mq_IsFull_def)
  ultimately have "qstep\<^sup>*\<^sup>* s0 s3" by (meson converse_rtranclp_into_rtranclp rtranclp.rtrancl_refl)
  moreover have "qs_getters s3 = {#0#} \<and> items (qs_queue s3) = 1 \<and> qs_stored s3 MSG_LOW = [Some 5] \<and> qs_taken s3 MSG_LOW = []"
    by (simp add: d items_def mq_put_size)
  ultimately show ?thesis unfolding s0_def by blast
qed

theorem no_lost_wakeup_witness:
  "\<exists>s :: nat queue_system. qs_getters s = {#0#} \<and> items (qs_queue s) = 1 \<and> 1 \<le> size (qs_getters_notified s)
    \<and> waitinggetthreadnum (qs_queue s) = 1 + size (qs_getters_notified s)"
proof -
  obtain s :: "nat queue_system" where s: "qstep\<^sup>*\<^sup>* (queue_system_new (\<lambda>_. [None])) s" "qs_getters s = {#0#}"
      "items (qs_queue s) = 1"
    using sample_waits by blast
  from no_lost_wakeup [OF _ s(1)] s(2,3) show ?thesis by (intro exI [of _ s]) simp
qed

theorem queue_delivers_in_order_witness:
  "\<exists>s :: nat queue_system. qs_stored s MSG_LOW = [Some 5] \<and> pq_contents (qs_queue s) MSG_LOW = [Some 5]"
proof -
  obtain s :: "nat queue_system" where s: "qstep\<^sup>*\<^sup>* (queue_system_new (\<lambda>_. [None])) s"
      "qs_stored s MSG_LOW = [Some 5]" "qs_taken s MSG_LOW = []"
    using sample_waits by blast
  from queue_delivers_in_order [OF _ s(1), of MSG_LOW] s(2,3) show ?thesis by (intro exI [of _ s]) simp
qed

end
