(* ===== verification/MsgTimerThread.thy ===== *)
theory MsgTimerThread
  imports MsgQueuePrio ThreadTimer
begin

text \<open>
  \<open>MsgTimerThread\<close> of frame/common/msgtimerthread.h and .cc: a thread that takes pointers from its own
  queue and from an optional public one, hands each to \<open>Deal\<close> and then lets its timers run. \<open>Deal\<close>,
  \<open>StartInThread\<close> and \<open>StopInThread\<close> are virtual and empty here; the calls are traced. What the other
  threads do between and during the turns is an event or an argument.
\<close>

datatype mt_call = StartInThread | Deal nat | StopInThread

datatype mt_phase = NotBegun | Looping | Ended

record msg_thread =
  mt_self_priority :: bool
  mt_is_running :: bool
  mt_queue :: "nat prio_queue"
  mt_public :: "nat prio_queue option"
  mt_timers :: timer_system
  mt_phase :: mt_phase
  mt_calls :: "mt_call list"

text \<open>
  \<open>GetQ(1)\<close>: when all queues are empty the thread waits up to a second; the argument is the pointer
  that another thread stores in that time, if any.
\<close>

definition GetQ_1 :: "(EMsgPriority \<times> nat option) option \<Rightarrow> nat prio_queue \<Rightarrow> nat option \<times> nat prio_queue" where
  "GetQ_1 arrival q =
     (case GetQ_locked q of
        (GetTaken d p n, q1) \<Rightarrow> (d, q1)
      | (_, q1) \<Rightarrow>
          (case arrival of
             None \<Rightarrow> (None, snd (GetQ_wake True q1))
           | Some (p, d) \<Rightarrow>
               (case GetQ_wake False (snd (PutQ_locked d p q1)) of
                  (GetTaken d' p' n', q2) \<Rightarrow> (d', q2)
                | (_, q2) \<Rightarrow> (None, q2))))"

definition mt_deal :: "nat option \<Rightarrow> msg_thread \<Rightarrow> msg_thread" where
  "mt_deal d t = (case d of None \<Rightarrow> t | Some x \<Rightarrow> t\<lparr>mt_calls := mt_calls t @ [Deal x]\<rparr>)"

definition mt_take_own :: "(EMsgPriority \<times> nat option) option \<Rightarrow> msg_thread \<Rightarrow> msg_thread" where
  "mt_take_own a t = (let (d, q) = GetQ_1 a (mt_queue t) in mt_deal d (t\<lparr>mt_queue := q\<rparr>))"

definition mt_take_public :: "(EMsgPriority \<times> nat option) option \<Rightarrow> msg_thread \<Rightarrow> msg_thread" where
  "mt_take_public a t =
     (case mt_public t of
        None \<Rightarrow> t
      | Some P \<Rightarrow> let (d, q) = GetQ_1 a P in mt_deal d (t\<lparr>mt_public := Some q\<rparr>))"

definition mt_new :: "nat prio_queue \<Rightarrow> nat prio_queue option \<Rightarrow> bool \<Rightarrow> timer_system \<Rightarrow> msg_thread" where
  "mt_new q public self y =
     \<lparr>mt_self_priority = self, mt_is_running = False, mt_queue = q, mt_public = public, mt_timers = y,
      mt_phase = NotBegun, mt_calls = []\<rparr>"

definition mt_begin :: "msg_thread \<Rightarrow> msg_thread" where
  \<comment> \<open>\<open>Run\<close> up to its loop, in the new thread\<close>
  "mt_begin t = t\<lparr>mt_is_running := True, mt_phase := Looping, mt_calls := mt_calls t @ [StartInThread]\<rparr>"

definition mt_turn :: "clock \<Rightarrow> callbacks \<Rightarrow> (EMsgPriority \<times> nat option) option \<Rightarrow> (EMsgPriority \<times> nat option) option
    \<Rightarrow> msg_thread \<Rightarrow> msg_thread option" where
  \<comment> \<open>one turn of the loop of \<open>Run\<close>\<close>
  "mt_turn clk cb own public t =
     (let t1 = (if mt_self_priority t
                then mt_take_own own
                       (if (case mt_public t of None \<Rightarrow> False | Some P \<Rightarrow> \<not> pq_IsEmpty P)
                        then mt_take_public public t else t)
                else mt_take_public public (if \<not> pq_IsEmpty (mt_queue t) then mt_take_own own t else t))
      in if \<not> mt_is_running t1
         then Some (t1\<lparr>mt_phase := Ended, mt_calls := mt_calls t1 @ [StopInThread]\<rparr>)
         else map_option (\<lambda>y. t1\<lparr>mt_timers := y\<rparr>) (DetectTimerList clk cb (mt_timers t1)))"

definition mt_Stop :: "msg_thread \<Rightarrow> msg_thread" where
  \<comment> \<open>\<open>Stop\<close> up to the join, which returns once the phase is \<open>Ended\<close>\<close>
  "mt_Stop t = t\<lparr>mt_is_running := False\<rparr>"

definition mt_PutQ :: "nat option \<Rightarrow> EMsgPriority \<Rightarrow> msg_thread \<Rightarrow> msg_thread" where
  \<comment> \<open>with no thread waiting in the queue: a full queue blocks the caller and changes nothing here\<close>
  "mt_PutQ d p t =
     (case PutQ_locked d p (mt_queue t) of
        (PutStored _, q) \<Rightarrow> t\<lparr>mt_queue := q\<rparr>
      | _ \<Rightarrow> t)"

text \<open>The events of the thread and of the others.\<close>

datatype mt_event =
    Begin
  | Turn "(EMsgPriority \<times> nat option) option" "(EMsgPriority \<times> nat option) option"
  | CallStop
  | CallPutQ "nat option" EMsgPriority

fun mt_step :: "clock \<Rightarrow> callbacks \<Rightarrow> mt_event \<Rightarrow> msg_thread \<Rightarrow> msg_thread option" where
  "mt_step clk cb Begin t = Some (if mt_phase t = NotBegun then mt_begin t else t)"
| "mt_step clk cb (Turn own public) t =
     (if mt_phase t = Looping then mt_turn clk cb own public t else Some t)"
| "mt_step clk cb CallStop t = Some (mt_Stop t)"
| "mt_step clk cb (CallPutQ d p) t = Some (mt_PutQ d p t)"

fun mt_run :: "clock \<Rightarrow> callbacks \<Rightarrow> mt_event list \<Rightarrow> msg_thread \<Rightarrow> msg_thread option" where
  "mt_run clk cb [] t = Some t"
| "mt_run clk cb (e # es) t = Option.bind (mt_step clk cb e t) (mt_run clk cb es)"

section \<open>Stopping\<close>

lemma mt_take_kept [simp]:
  "mt_is_running (mt_take_own a t) = mt_is_running t" "mt_phase (mt_take_own a t) = mt_phase t"
  "mt_is_running (mt_take_public a t) = mt_is_running t" "mt_phase (mt_take_public a t) = mt_phase t"
  by (simp_all add: mt_take_own_def mt_take_public_def mt_deal_def split_beta Let_def split: option.splits)

lemma mt_turn_running:
  "mt_turn clk cb a b t = Some t' \<Longrightarrow> mt_is_running t' = mt_is_running t
     \<and> mt_phase t' = (if mt_is_running t then mt_phase t else Ended)"
  by (auto simp: mt_turn_def Let_def split: if_splits)

lemma mt_PutQ_kept [simp]:
  "mt_is_running (mt_PutQ d p t) = mt_is_running t" "mt_phase (mt_PutQ d p t) = mt_phase t"
  "mt_calls (mt_PutQ d p t) = mt_calls t"
  by (simp_all add: mt_PutQ_def split: prod.splits put_result.splits)

lemma mt_run_keeps_running:
  "mt_run clk cb es t = Some t' \<Longrightarrow> CallStop \<notin> set es \<Longrightarrow> mt_is_running t \<Longrightarrow> mt_phase t = Looping \<Longrightarrow>
    mt_is_running t' \<and> mt_phase t' = Looping"
proof (induction es arbitrary: t)
  case (Cons e es)
  then obtain t1 where t1: "mt_step clk cb e t = Some t1" "mt_run clk cb es t1 = Some t'"
    by (auto simp: bind_eq_Some_iff)
  have "mt_is_running t1 \<and> mt_phase t1 = Looping"
    using t1(1) Cons.prems mt_turn_running by (cases e) auto
  with Cons.IH [OF t1(2)] Cons.prems(2) show ?case by simp
qed simp

text \<open>
  A \<open>Stop\<close> that runs before the new thread has executed its first statement is lost: \<open>Run\<close> sets
  \<open>is_running_\<close> again, and whatever happens afterwards the loop never ends, so the join inside \<open>Stop\<close>
  never returns.
\<close>

theorem early_stop_is_lost:
  assumes "mt_phase t = NotBegun" "CallStop \<notin> set es" "\<forall>e\<in>set pre. e = CallStop \<or> (\<exists>d p. e = CallPutQ d p)"
    and run: "mt_run clk cb (pre @ CallStop # Begin # es) t = Some t'"
  shows "mt_phase t' \<noteq> Ended"
proof -
  have "\<exists>t1. mt_run clk cb (CallStop # Begin # es) t1 = Some t' \<and> mt_phase t1 = NotBegun"
    using run assms(1,3)
  proof (induction pre arbitrary: t)
    case (Cons e pre)
    then obtain t1 where t1: "mt_step clk cb e t = Some t1" "mt_run clk cb (pre @ CallStop # Begin # es) t1 = Some t'"
      by (auto simp: bind_eq_Some_iff)
    have "mt_phase t1 = NotBegun" using t1(1) Cons.prems by (auto simp: mt_Stop_def)
    with Cons.IH [OF t1(2)] Cons.prems(3) show ?case by simp
  next
    case Nil
    then show ?case by (intro exI [of _ t]) simp
  qed
  then obtain t1 where t1: "mt_run clk cb es (mt_begin (mt_Stop t1)) = Some t'"
    by (auto simp: mt_Stop_def)
  from mt_run_keeps_running [OF this assms(2)] show ?thesis by (simp add: mt_begin_def)
qed

text \<open>
  A \<open>Stop\<close> that comes once the loop runs ends it at the next turn, after at most the pointers of that
  turn were dealt with; the callbacks of the timers no longer run and what is left in the queues stays
  there.
\<close>

theorem stop_ends_the_loop:
  assumes "mt_phase t = Looping" and "\<forall>e\<in>set es. \<exists>d p. e = CallPutQ d p"
  shows "\<exists>t'. mt_run clk cb (CallStop # es @ [Turn own public]) t = Some t' \<and> mt_phase t' = Ended
    \<and> mt_timers t' = mt_timers t \<and> last (mt_calls t') = StopInThread \<and> length (mt_calls t') \<le> length (mt_calls t) + 3"
proof -
  have "\<exists>t1. mt_run clk cb es u = Some t1 \<and> mt_run clk cb (es @ [Turn own public]) u = mt_step clk cb (Turn own public) t1
      \<and> mt_phase t1 = Looping \<and> \<not> mt_is_running t1 \<and> mt_timers t1 = mt_timers u \<and> mt_calls t1 = mt_calls u"
    if "mt_phase u = Looping" "\<not> mt_is_running u" for u
    using assms(2) that
  proof (induction es arbitrary: u)
    case Nil
    then show ?case by (cases "mt_turn clk cb own public u") auto
  next
    case (Cons e es)
    then obtain d p where e: "e = CallPutQ d p" by auto
    have "mt_timers (mt_PutQ d p u) = mt_timers u" by (simp add: mt_PutQ_def split: prod.splits put_result.splits)
    then show ?case using Cons.IH [of "mt_PutQ d p u"] Cons.prems by (simp add: e)
  qed
  from this [of "mt_Stop t"] obtain t1 where t1: "mt_run clk cb (CallStop # es @ [Turn own public]) t = mt_turn clk cb own public t1"
      "mt_phase t1 = Looping" "\<not> mt_is_running t1" "mt_timers t1 = mt_timers t" "mt_calls t1 = mt_calls t"
    using assms(1) by (auto simp: mt_Stop_def)
  let ?v = "if mt_self_priority t1
    then mt_take_own own (if (case mt_public t1 of None \<Rightarrow> False | Some P \<Rightarrow> \<not> pq_IsEmpty P)
                          then mt_take_public public t1 else t1)
    else mt_take_public public (if \<not> pq_IsEmpty (mt_queue t1) then mt_take_own own t1 else t1)"
  define v where "v = ?v"
  have own: "length (mt_calls (mt_take_own a w)) \<le> length (mt_calls w) + 1" "mt_timers (mt_take_own a w) = mt_timers w"
      and public: "length (mt_calls (mt_take_public a w)) \<le> length (mt_calls w) + 1"
        "mt_timers (mt_take_public a w) = mt_timers w" for a w
    by (auto simp: mt_take_own_def mt_take_public_def mt_deal_def split_beta Let_def split: option.splits)
  have "length (mt_calls v) \<le> length (mt_calls t1) + 2"
    using own(1) [of own t1] public(1) [of public t1] own(1) [of own "mt_take_public public t1"]
      public(1) [of public "mt_take_own own t1"]
    by (simp add: v_def)
  moreover have "mt_timers v = mt_timers t1" "\<not> mt_is_running v"
    using t1(3) by (simp_all add: v_def own(2) public(2))
  moreover have "mt_turn clk cb own public t1 = Some (v\<lparr>mt_phase := Ended, mt_calls := mt_calls v @ [StopInThread]\<rparr>)"
    using calculation(3) unfolding mt_turn_def Let_def v_def by simp
  ultimately show ?thesis using t1 by simp
qed

section \<open>Witnesses\<close>

definition sample_thread :: msg_thread where
  \<comment> \<open>queues of two places\<close>
  "sample_thread = mt_new (MsgQueuePrio_new (\<lambda>_. [None, None])) None True
     \<lparr>ty_manager = timer_manager_new (\<lambda>_. 0) 0, ty_timers = (\<lambda>_. None), ty_next = 0, ty_fired = []\<rparr>"

lemma idle_detection:
  "DetectTimerList (\<lambda>_. 0) cb (mt_timers sample_thread) = Some (mt_timers sample_thread
     \<lparr>ty_manager := (ty_manager (mt_timers sample_thread))\<lparr>tm_reads := 2\<rparr>\<rparr>)"
  by (simp add: DetectTimerList_def sample_thread_def mt_new_def timer_manager_new_def detect_ready_def
      GetCurrentMillisec_def loopnum_def DoTimeOutCallBack.simps)

theorem early_stop_is_lost_witness:
  "\<exists>t'. mt_run (\<lambda>_. 0) (\<lambda>_ _. []) [CallPutQ (Some 7) MSG_MEDIUM, CallStop, Begin, Turn None None] sample_thread = Some t'
    \<and> mt_calls t' = [StartInThread, Deal 7] \<and> mt_phase t' \<noteq> Ended"
proof -
  have "\<exists>t'. mt_run (\<lambda>_. 0) (\<lambda>_ _. []) ([CallPutQ (Some 7) MSG_MEDIUM] @ CallStop # Begin # [Turn None None]) sample_thread = Some t'
      \<and> mt_calls t' = [StartInThread, Deal 7]"
    using idle_detection [of "\<lambda>_ _. []"]
    by (simp add: mt_PutQ_def mt_Stop_def mt_begin_def mt_turn_def mt_take_own_def GetQ_1_def mt_deal_def Let_def
        sample_thread_def mt_new_def PutQ_locked_def GetQ_locked_def pq_choose_def pq_update_def MsgQueuePrio_new_def
        stMsgQueue_def mq_IsFull_def mq_IsEmpty_def mq_put_def mq_get_def)
  then obtain t' where t': "mt_run (\<lambda>_. 0) (\<lambda>_ _. [])
      ([CallPutQ (Some 7) MSG_MEDIUM] @ CallStop # Begin # [Turn None None]) sample_thread = Some t'"
      "mt_calls t' = [StartInThread, Deal 7]"
    by blast
  from early_stop_is_lost [OF _ _ _ t'(1)] have "mt_phase t' \<noteq> Ended"
    by (simp add: sample_thread_def mt_new_def)
  with t' show ?thesis by simp
qed

theorem stop_ends_the_loop_witness:
  "\<exists>t'. mt_run (\<lambda>_. 0) (\<lambda>_ _. []) [CallStop, CallPutQ (Some 7) MSG_LOW, Turn None None] (mt_begin sample_thread) = Some t'
    \<and> mt_phase t' = Ended"
  using stop_ends_the_loop [of "mt_begin sample_thread" "[CallPutQ (Some 7) MSG_LOW]" "\<lambda>_. 0" "\<lambda>_ _. []" None None]
  by (auto simp: mt_begin_def)

end
