(* ===== verification/ManagerProps.thy ===== *)
theory ManagerProps
  imports SessionManagers SessionScenarios
begin

text \<open>
  Properties of the session containers and of the sweeps over them: the round robin over the
  addresses of a name, the fate of idle sessions, what a closed session says to its owner, and two
  calls of the managers that go wrong.
\<close>

section \<open>The persistent container\<close>

datatype pers_op =
    PAdd string string session
  | PGet string
  | PMark u32 \<comment> \<open>\<open>DeleteSession\<close>\<close>
  | PUse string session \<comment> \<open>the session of an address changes its state\<close>

fun pers_apply :: "pers_op \<Rightarrow> pers_container \<Rightarrow> pers_container" where
  "pers_apply (PAdd name addr s) c = pers_AddSession name addr s c"
| "pers_apply (PGet name) c = snd (pers_GetSession name c)"
| "pers_apply (PMark i) c = c\<lparr>pc_sessions := snd (delete_session i (pc_sessions c))\<rparr>"
| "pers_apply (PUse addr s) c =
     (if map_of (pc_sessions c) addr = None then c else c\<lparr>pc_sessions := AList.update addr s (pc_sessions c)\<rparr>)"

definition pers_ok :: "pers_container \<Rightarrow> bool" where
  "pers_ok c \<longleftrightarrow> (\<forall>name g. map_of (pc_groups c) name = Some g \<longrightarrow>
     sg_addrs g \<noteq> [] \<and> sorted (sg_addrs g) \<and> distinct (sg_addrs g)
     \<and> (\<forall>a\<in>set (sg_addrs g). map_of (pc_sessions c) a \<noteq> None))"

lemma rr_loop_addrs: "sg_addrs (snd (rr_loop i ss g)) = sg_addrs g"
  by (induction i ss g rule: rr_loop.induct) (simp_all add: Let_def)

lemma delete_session_dom: "map_of (snd (delete_session i xs)) k = None \<longleftrightarrow> map_of xs k = None"
  by (induction i xs rule: delete_session.induct) (auto simp: split_beta)

lemma sort_snoc_ne [simp]: "sort (xs @ [a]) \<noteq> []"
  by (simp flip: length_0_conv)

lemma pers_apply_ok:
  assumes "pers_ok c" shows "pers_ok (pers_apply op c)"
proof (cases op)
  case (PAdd name addr s)
  then show ?thesis
    using assms by (auto simp: pers_ok_def pers_AddSession_def Let_def update_conv' split: option.splits if_splits)
next
  case (PGet name)
  then show ?thesis
    using assms
    by (auto simp: pers_ok_def pers_GetSession_def Let_def update_conv' split_beta rr_loop_addrs split: option.splits if_splits)
next
  case (PMark i)
  then show ?thesis using assms by (simp add: pers_ok_def delete_session_dom)
next
  case (PUse addr s)
  then show ?thesis using assms by (auto simp: pers_ok_def update_conv')
qed

lemma pers_empty_ok: "pers_ok pers_empty"
  by (simp add: pers_ok_def pers_empty_def)

lemma pers_run_ok: "pers_ok c \<Longrightarrow> pers_ok (fold pers_apply ops c)"
  by (induction ops arbitrary: c) (simp_all add: pers_apply_ok)

text \<open>\<open>n\<close> lookups of a name in a row.\<close>

fun rr_picks :: "nat \<Rightarrow> string \<Rightarrow> pers_container \<Rightarrow> string option list" where
  "rr_picks 0 name c = []"
| "rr_picks (Suc n) name c = (let (r, c') = pers_GetSession name c in r # rr_picks n name c')"

definition rr_start :: "session_group \<Rightarrow> nat" where
  "rr_start g = (if length (sg_addrs g) \<le> sg_current g then 0 else sg_current g)"

lemma rr_loop_first:
  assumes "sg_addrs g \<noteq> []" "\<forall>a\<in>set (sg_addrs g). map_of ss a \<noteq> None"
  shows "rr_loop (length (sg_addrs g)) ss g =
    (Some (sg_addrs g ! rr_start g), g\<lparr>sg_current := Suc (rr_start g)\<rparr>)"
proof -
  obtain n where n: "length (sg_addrs g) = Suc n" using assms(1) by (cases "sg_addrs g") auto
  have "rr_start g < length (sg_addrs g)" using assms(1) by (auto simp: rr_start_def)
  then have "map_of ss (sg_addrs g ! rr_start g) \<noteq> None" using assms(2) by simp
  then show ?thesis using n by (auto simp: Let_def rr_start_def split: if_splits)
qed

lemma pers_GetSession_rr:
  assumes ok: "pers_ok c" and g: "map_of (pc_groups c) name = Some g"
  shows "pers_GetSession name c = (Some (sg_addrs g ! rr_start g),
    c\<lparr>pc_groups := AList.update name (g\<lparr>sg_current := Suc (rr_start g)\<rparr>) (pc_groups c)\<rparr>)"
proof -
  have "sg_addrs g \<noteq> []" "\<forall>a\<in>set (sg_addrs g). map_of (pc_sessions c) a \<noteq> None"
    using ok g by (auto simp: pers_ok_def)
  from rr_loop_first [OF this] g this(1) show ?thesis by (simp add: pers_GetSession_def)
qed

lemma rr_start_upd: "rr_start (g\<lparr>sg_current := x\<rparr>) = (if length (sg_addrs g) \<le> x then 0 else x)"
  by (simp add: rr_start_def)

lemma rr_start_step:
  assumes "sg_addrs g \<noteq> []"
  shows "rr_start (g\<lparr>sg_current := Suc (rr_start g)\<rparr>) = Suc (rr_start g) mod length (sg_addrs g)"
proof -
  have "rr_start g < length (sg_addrs g)" using assms by (auto simp: rr_start_def)
  then show ?thesis
    by (cases "Suc (rr_start g) = length (sg_addrs g)") (simp_all add: rr_start_upd)
qed

lemma rr_picks_rotate:
  assumes "pers_ok c" "map_of (pc_groups c) name = Some g"
  shows "rr_picks n name c = map (\<lambda>i. Some (sg_addrs g ! ((rr_start g + i) mod length (sg_addrs g)))) [0..<n]"
  using assms
proof (induction n arbitrary: c g)
  case (Suc n)
  let ?g = "g\<lparr>sg_current := Suc (rr_start g)\<rparr>"
  let ?c = "c\<lparr>pc_groups := AList.update name ?g (pc_groups c)\<rparr>"
  have ne: "sg_addrs g \<noteq> []" using Suc.prems by (auto simp: pers_ok_def)
  have lt: "rr_start g < length (sg_addrs g)" using ne by (auto simp: rr_start_def)
  have get: "pers_GetSession name c = (Some (sg_addrs g ! rr_start g), ?c)"
    by (rule pers_GetSession_rr [OF Suc.prems])
  have "pers_ok ?c" using pers_apply_ok [OF Suc.prems(1), of "PGet name"] get by simp
  moreover have "map_of (pc_groups ?c) name = Some ?g" by (simp add: update_conv')
  ultimately have "rr_picks n name ?c =
      map (\<lambda>i. Some (sg_addrs g ! ((rr_start ?g + i) mod length (sg_addrs g)))) [0..<n]"
    using Suc.IH by fastforce
  also have "\<dots> = map (\<lambda>i. Some (sg_addrs g ! ((rr_start g + Suc i) mod length (sg_addrs g)))) [0..<n]"
    by (simp add: rr_start_step [OF ne] mod_add_left_eq)
  finally show ?case using get lt by (simp add: map_upt_Suc del: upt_Suc)
qed simp

lemma mset_rotate: "mset (rotate n xs) = mset xs"
proof (induction n)
  case (Suc n)
  have "mset (rotate1 (rotate n xs)) = mset (rotate n xs)" by (cases "rotate n xs") simp_all
  with Suc show ?case by simp
qed simp


section \<open>Sweeps\<close>

lemma soc_check_fst: "fst ` set (fst (soc_check xs)) \<subseteq> fst ` set xs"
  by (induction xs rule: soc_check.induct) (auto simp: split_beta)

lemma soc_check_keep:
  "distinct (map fst xs) \<Longrightarrow> map_of xs i = Some s \<Longrightarrow>
    map_of (fst (soc_check xs)) i =
      (if ss_status s = S_CONNECTED then Some (SetStatus S_TIME_OUT s)
       else if ss_status s = S_TIME_OUT \<or> ss_status s = S_CLOSED then None else Some s)
    \<and> (ss_status s = S_TIME_OUT \<or> ss_status s = S_CLOSED \<longrightarrow>
         session_destroy (session_Close s) \<in> set (snd (soc_check xs)))"
proof (induction xs rule: soc_check.induct)
  case (2 j t r)
  have gone: "map_of (fst (soc_check r)) j = None"
    using soc_check_fst [of r] 2(2) by (auto simp: map_of_eq_None_iff)
  show ?case using 2 gone by (cases "i = j") (auto simp: split_beta)
qed simp

lemma soc_check_distinct: "distinct (map fst xs) \<Longrightarrow> distinct (map fst (fst (soc_check xs)))"
proof (induction xs rule: soc_check.induct)
  case (2 j t r)
  then show ?case using soc_check_fst [of r] by (auto simp: split_beta)
qed simp


section \<open>Closing\<close>

text \<open>What a closed session tells its owner.\<close>

fun to_owner :: "effect \<Rightarrow> bool" where
  "to_owner (EvRead m) = True"
| "to_owner EvConnected = True"
| "to_owner EvAccept = True"
| "to_owner EvPeerClose = True"
| "to_owner _ = False"

definition owner_events :: "session \<Rightarrow> effect list" where
  "owner_events s = filter to_owner (cn_trace (ss_conn s))"

lemma owner_events_simps [simp]:
  "owner_events (semit e s) = owner_events s @ (if to_owner e then [e] else [])"
  "owner_events (s\<lparr>ss_history := h\<rparr>) = owner_events s"
  "owner_events (s\<lparr>ss_waiting := w\<rparr>) = owner_events s"
  "owner_events (s\<lparr>ss_owner := o'\<rparr>) = owner_events s"
  "owner_events (SetStatus st s) = owner_events s"
  by (simp_all add: owner_events_def semit_def emit_def SetStatus_def)

lemma ownerless_clean:
  "\<not> ss_owner s \<Longrightarrow> owner_events (clean_history h s) = owner_events s \<and> \<not> ss_owner (clean_history h s)"
  "\<not> ss_owner s \<Longrightarrow> owner_events (clean_waiting w s) = owner_events s \<and> \<not> ss_owner (clean_waiting w s)"
proof -
  show "\<not> ss_owner s \<Longrightarrow> owner_events (clean_history h s) = owner_events s \<and> \<not> ss_owner (clean_history h s)"
    by (induction h s rule: clean_history.induct) (auto simp: reply_error_def)
  show "\<not> ss_owner s \<Longrightarrow> owner_events (clean_waiting w s) = owner_events s \<and> \<not> ss_owner (clean_waiting w s)"
    by (induction w s rule: clean_waiting.induct) (auto simp: reply_error_def)
qed

lemma clean_cn_session:
  "cn_session (ss_conn (clean_history h s)) = cn_session (ss_conn s) \<and> ss_status (clean_history h s) = ss_status s
     \<and> ss_owner (clean_history h s) = ss_owner s"
  "cn_session (ss_conn (clean_waiting w s)) = cn_session (ss_conn s) \<and> ss_status (clean_waiting w s) = ss_status s
     \<and> ss_owner (clean_waiting w s) = ss_owner s"
proof -
  show "cn_session (ss_conn (clean_history h s)) = cn_session (ss_conn s) \<and> ss_status (clean_history h s) = ss_status s
     \<and> ss_owner (clean_history h s) = ss_owner s"
    by (induction h s rule: clean_history.induct) (simp_all add: reply_error_def)
  show "cn_session (ss_conn (clean_waiting w s)) = cn_session (ss_conn s) \<and> ss_status (clean_waiting w s) = ss_status s
     \<and> ss_owner (clean_waiting w s) = ss_owner s"
    by (induction w s rule: clean_waiting.induct) (simp_all add: reply_error_def)
qed

lemma Clean_silent:
  assumes "\<not> ss_owner s"
  shows "owner_events (CleanRequestAndCallBack s) = owner_events s"
  using ownerless_clean(1) [OF assms, of "ss_history s"] ownerless_clean(2)
  by (simp add: CleanRequestAndCallBack_def Let_def)

lemma conn_OnPeerClose_silent:
  "\<not> cn_session (ss_conn s) \<Longrightarrow> owner_events (conn_OnPeerClose s) = owner_events s"
  by (simp add: conn_OnPeerClose_def Let_def owner_events_def semit_def emit_def)

text \<open>
  Closing and destroying a session tells its owner nothing, although the comments at the sweeps say
  that it will: the owner is detached first, so the requests that still wait for their response are
  deleted and no event is delivered.
\<close>

theorem closing_is_silent:
  "owner_events (session_destroy (session_Close s)) = owner_events s"
proof -
  let ?s = "s\<lparr>ss_conn := SetOwner False (ss_conn s), ss_owner := False\<rparr>"
  have s0: "owner_events ?s = owner_events s" by (simp add: owner_events_def SetOwner_def)
  have "owner_events (session_Close s) = owner_events s"
  proof (cases "ss_status s = S_CLOSED")
    case True
    then show ?thesis using s0 by (simp add: session_Close_def)
  next
    case False
    let ?c = "CleanRequestAndCallBack (SetStatus S_CLOSED ?s)"
    have "\<not> cn_session (ss_conn ?c)"
      by (simp add: CleanRequestAndCallBack_def Let_def clean_cn_session SetStatus_def SetOwner_def)
    then have "owner_events (conn_OnPeerClose ?c) = owner_events ?c" by (rule conn_OnPeerClose_silent)
    also have "\<dots> = owner_events (SetStatus S_CLOSED ?s)" by (rule Clean_silent) (simp add: SetStatus_def)
    finally show ?thesis using False s0 by (simp add: session_Close_def Let_def)
  qed
  moreover have "owner_events (http_destroy a) = owner_events a" for a
  proof -
    have "owner_events (foldl (\<lambda>a item. case ri_response item of Some m \<Rightarrow> semit (EvDelete (HttpMsg m)) a | None \<Rightarrow> a) a xs)
        = owner_events a" for xs
      by (induction xs arbitrary: a) (auto split: option.splits)
    then show ?thesis by (simp add: http_destroy_def owner_events_def)
  qed
  ultimately show ?thesis by (simp add: session_destroy_def Let_def Clean_silent)
qed

section \<open>Two calls that go wrong\<close>

text \<open>
  C29. A second name for an address that has a session already gets no session: \<open>DoConnect\<close> reports
  success, but every message sent to that name comes back undelivered.
\<close>

theorem second_name_of_address_unreachable:
  assumes "map_of (pc_sessions (so_pers m)) addr = Some s" "name \<noteq> []"
    and "map_of (pc_groups (so_pers m)) name = None" "map_of (so_short m) name = None"
    and "sos_DoConnect env port0 na name addr ar hb True m = Some (r, m')"
  shows "r = 0 \<and> sos_DoSendTo env name msg timeout m' = Some (m'\<lparr>so_unsent := so_unsent m' @ [nm_SetReply (- 1) msg]\<rparr>)"
proof -
  obtain s' where "r = 0" "m' = put_pers addr s' m"
    using assms by (auto simp: sos_DoConnect_def pers_GetSession_addr_def bind_eq_Some_iff)
  then show ?thesis
    using assms(3,4) by (simp add: sos_DoSendTo_def short_GetSession_def put_pers_def pers_GetSession_def Let_def)
qed

text \<open>
  After \<open>DoClose\<close> on a short session the session stays in the container, without an owner and closed.
  The next request for its name calls \<open>OnRead\<close> on the owner pointer, which is NULL: the code has no
  defined behaviour.
\<close>

theorem request_after_close_undefined:
  assumes "map_of (so_short m) name = Some s" "nm_direction msg = E_Request"
  shows "sos_DoSendTo env name msg timeout (sos_DoClose name connid m) = None"
proof -
  let ?s = "session_Close s"
  have close: "ss_status ?s = S_CLOSED \<and> \<not> ss_owner ?s"
  proof (cases "ss_status s = S_CLOSED")
    case True
    then show ?thesis by (simp add: session_Close_def)
  next
    case False
    let ?c = "CleanRequestAndCallBack (SetStatus S_CLOSED (s\<lparr>ss_conn := SetOwner False (ss_conn s), ss_owner := False\<rparr>))"
    have "\<not> cn_session (ss_conn ?c)"
      by (simp add: CleanRequestAndCallBack_def Let_def clean_cn_session SetStatus_def SetOwner_def)
    then have "ss_status (conn_OnPeerClose ?c) = ss_status ?c \<and> ss_owner (conn_OnPeerClose ?c) = ss_owner ?c"
      by (simp add: conn_OnPeerClose_def Let_def semit_def)
    moreover have "ss_status ?c = S_CLOSED" "\<not> ss_owner ?c"
      by (simp_all add: CleanRequestAndCallBack_def Let_def clean_cn_session SetStatus_def)
    ultimately show ?thesis using False by (simp add: session_Close_def Let_def)
  qed
  have "session_DoSendTo env msg ms ?s = None" for ms
    using close assms(2) by (simp add: session_DoSendTo_def DoSendRequest_def owner_OnRead_def)
  then show ?thesis
    using assms(1)
    by (simp add: sos_DoSendTo_def sos_DoClose_def short_GetSession_def put_short_def update_conv' Let_def)
qed

section \<open>Witnesses\<close>


definition accepted :: "session \<Rightarrow> soc_manager" where
  "accepted s = soc_OnAccept s \<lparr>soc_sessions = [], soc_dead = []\<rparr>"


theorem second_name_of_address_unreachable_witness:
  "\<exists>m m' s. map_of (pc_sessions (so_pers m)) ''thrift://h:1'' = Some s
    \<and> sos_DoConnect sample_net 0 0 ''b'' ''thrift://h:1'' False 0 True m = Some (0, m')
    \<and> sos_DoSendTo sample_net ''b'' (sample_call 1 1) 5 m'
        = Some (m'\<lparr>so_unsent := so_unsent m' @ [nm_SetReply (- 1) (sample_call 1 1)]\<rparr>)"
proof -
  obtain s0 :: session where "ss_owner s0" using sample_thrift_session by blast
  let ?s = "SetStatus S_CONNECTED s0"
  let ?m = "(sos_manager_new 0)\<lparr>so_pers := pers_AddSession ''a'' ''thrift://h:1'' ?s pers_empty\<rparr>"
  have m: "map_of (pc_sessions (so_pers ?m)) ''thrift://h:1'' = Some ?s"
    by (simp add: pers_AddSession_def pers_empty_def Let_def)
  have g: "map_of (pc_groups (so_pers ?m)) ''b'' = None" "map_of (so_short ?m) ''b'' = None"
    by (simp_all add: pers_AddSession_def pers_empty_def sos_manager_new_def Let_def)
  obtain s' where "DoConnect sample_net (?s\<lparr>ss_owner := True\<rparr>) = Some s'"
    by (simp add: DoConnect_def SetStatus_def)
  then obtain m' where c: "sos_DoConnect sample_net 0 0 ''b'' ''thrift://h:1'' False 0 True ?m = Some (0, m')"
    using m by (simp add: sos_DoConnect_def pers_GetSession_addr_def)
  have "''b'' \<noteq> ([] :: string)" by simp
  from second_name_of_address_unreachable [OF m this g c] m c show ?thesis by blast
qed

theorem request_after_close_undefined_witness:
  "\<exists>m. map_of (so_short m) ''a'' \<noteq> None
    \<and> sos_DoSendTo sample_net ''a'' (sample_call 1 1) 5 (sos_DoClose ''a'' 0 m) = None"
proof -
  obtain s :: session where "ss_owner s" using sample_thrift_session by blast
  let ?m = "put_short ''a'' s (sos_manager_new 0)"
  have m: "map_of (so_short ?m) ''a'' = Some s" by (simp add: put_short_def sos_manager_new_def)
  have "nm_direction (sample_call 1 1) = E_Request" by (simp add: sample_call_def sthrift_message_new_def)
  from request_after_close_undefined [OF m this] m show ?thesis by (intro exI [of _ ?m]) simp
qed

end
