(* ===== verification/IoThread.thy ===== *)
theory IoThread
  imports ThreadTimerProps
begin

text \<open>
  \<open>CIoServiceThread\<close> of frame/net/ioservicethread.h and .cc: an io_service with its thread. A deadline
  timer of 200 ms drives the timer wheel and is armed again after each tick only while \<open>isalive_\<close> is
  set. A health check reads and clears that flag; a circular timer of 2 s sets it again. The wheel of
  the model holds this timer (object \<open>TM_SELFCHECK\<close>) beside those of the users of the thread.
\<close>

definition SELF_CHECK_INTERVAL :: u32 where "SELF_CHECK_INTERVAL = 2000"
definition TICK_MICROSECONDS :: nat where "TICK_MICROSECONDS = 200000"
definition TM_SELFCHECK :: nat where "TM_SELFCHECK = 0"

datatype posted = PostStartInThread | PostStopInThread

record io_thread =
  io_id :: int
  io_isalive :: bool
  io_waits :: nat \<comment> \<open>pending waits of the deadline timer\<close>
  io_work :: bool \<comment> \<open>whether the work object keeps \<open>run\<close> from returning\<close>
  io_posted :: "posted list"
  io_timers :: timer_system

definition io_InitInner :: "timer_system \<Rightarrow> timer_system" where
  "io_InitInner y =
     y\<lparr>ty_timers := (ty_timers y)(TM_SELFCHECK \<mapsto> tt_Init SELF_CHECK_INTERVAL TIMER_CIRCLE tt_new)\<rparr>"

definition io_thread_new :: "clock \<Rightarrow> int \<Rightarrow> io_thread" where
  "io_thread_new clk i =
     \<lparr>io_id = i, io_isalive = False, io_waits = 0, io_work = False, io_posted = [],
      io_timers = io_InitInner \<lparr>ty_manager = timer_manager_new clk 0, ty_timers = (\<lambda>_. None), ty_next = 0, ty_fired = []\<rparr>\<rparr>"

definition io_Start :: "io_thread \<Rightarrow> io_thread" where
  "io_Start t =
     (let t1 = t\<lparr>io_work := True, io_posted := io_posted t @ [PostStartInThread]\<rparr>
      in t1\<lparr>io_isalive := True, io_waits := Suc (io_waits t1)\<rparr>)"

definition io_StartInThread :: "clock \<Rightarrow> io_thread \<Rightarrow> io_thread option" where
  "io_StartInThread clk t =
     map_option (\<lambda>y. t\<lparr>io_isalive := True, io_timers := y\<rparr>) (tt_Start clk TM_SELFCHECK (io_timers t))"

definition io_StopInThread :: "io_thread \<Rightarrow> io_thread option" where
  "io_StopInThread t = map_option (\<lambda>y. t\<lparr>io_timers := y\<rparr>) (tt_Stop TM_SELFCHECK (io_timers t))"

text \<open>\<open>DoSelfCheck\<close> is the callback of the self check timer; it touches no timer.\<close>

definition DoSelfCheck :: "io_thread \<Rightarrow> io_thread" where
  "DoSelfCheck t = t\<lparr>io_isalive := True\<rparr>"

definition io_DoTimer :: "clock \<Rightarrow> callbacks \<Rightarrow> io_thread \<Rightarrow> io_thread option" where
  \<comment> \<open>the handler of one pending wait\<close>
  "io_DoTimer clk cb t =
     (case DetectTimerList clk cb (io_timers t) of
        None \<Rightarrow> None
      | Some y \<Rightarrow>
          let called = drop (length (ty_fired (io_timers t))) (ty_fired y);
              t1 = t\<lparr>io_timers := y, io_waits := io_waits t - 1\<rparr>;
              t2 = (if TM_SELFCHECK \<in> set called then DoSelfCheck t1 else t1)
          in Some (if io_isalive t2 then t2\<lparr>io_waits := Suc (io_waits t2)\<rparr> else t2))"

definition io_Stop :: "io_thread \<Rightarrow> io_thread" where
  \<comment> \<open>up to the join\<close>
  "io_Stop t = t\<lparr>io_isalive := False, io_posted := io_posted t @ [PostStopInThread], io_work := False\<rparr>"

definition io_GetSelfCheck :: "io_thread \<Rightarrow> bool \<times> io_thread" where
  "io_GetSelfCheck t = (io_isalive t, t\<lparr>io_isalive := False\<rparr>)"

text \<open>The events after the start: ticks, health checks of another thread, timer operations of the users.\<close>

datatype io_event = Tick | HealthCheck | UserOp timer_op

text \<open>A tick happens only while a wait is pending. The list holds the answers of the health checks.\<close>

fun io_step :: "clock \<Rightarrow> callbacks \<Rightarrow> io_event \<Rightarrow> bool list \<times> io_thread \<Rightarrow> (bool list \<times> io_thread) option" where
  "io_step clk cb Tick (as, t) =
     (if io_waits t = 0 then Some (as, t) else map_option (Pair as) (io_DoTimer clk cb t))"
| "io_step clk cb HealthCheck (as, t) = (let (a, t') = io_GetSelfCheck t in Some (as @ [a], t'))"
| "io_step clk cb (UserOp c) (as, t) =
     map_option (\<lambda>y. (as, t\<lparr>io_timers := y\<rparr>)) (tt_op clk c (io_timers t))"

fun io_run :: "clock \<Rightarrow> callbacks \<Rightarrow> io_event list \<Rightarrow> bool list \<times> io_thread \<Rightarrow> (bool list \<times> io_thread) option" where
  "io_run clk cb [] s = Some s"
| "io_run clk cb (e # es) s = Option.bind (io_step clk cb e s) (io_run clk cb es)"

lemma tt_Stop_fired: "tt_Stop t y = Some y' \<Longrightarrow> ty_fired y' = ty_fired y"
  by (auto simp: tt_Stop_def split: option.splits if_splits)

lemma tt_arm_fired: "tt_arm clk t y = Some y' \<Longrightarrow> ty_fired y' = ty_fired y"
  by (auto simp: tt_arm_def split: option.splits if_splits prod.splits)

lemma tt_op_fired: "tt_op clk c y = Some y' \<Longrightarrow> ty_fired y' = ty_fired y"
  by (cases c) (auto simp: tt_Start_def bind_eq_Some_iff dest!: tt_Stop_fired tt_arm_fired)

section \<open>A health check can stop a thread's timers for good\<close>

lemma io_dead_run:
  "io_run clk cb es (as, t) = Some (as', t') \<Longrightarrow> \<not> io_isalive t \<Longrightarrow> io_waits t = 0 \<Longrightarrow>
    \<not> io_isalive t' \<and> ty_fired (io_timers t') = ty_fired (io_timers t)
    \<and> as' = as @ replicate (length (filter (\<lambda>e. e = HealthCheck) es)) False"
proof (induction es arbitrary: as t)
  case (Cons e es)
  then obtain as1 t1 where s: "io_step clk cb e (as, t) = Some (as1, t1)" "io_run clk cb es (as1, t1) = Some (as', t')"
    by (auto simp: bind_eq_Some_iff)
  have "\<not> io_isalive t1 \<and> io_waits t1 = 0 \<and> ty_fired (io_timers t1) = ty_fired (io_timers t)
      \<and> as1 = as @ (if e = HealthCheck then [False] else [])"
    using s(1) Cons.prems(2,3) by (cases e) (auto simp: io_GetSelfCheck_def dest: tt_op_fired)
  with Cons.IH [OF s(2)] show ?case by (cases "e = HealthCheck") simp_all
qed simp

text \<open>
  C25. One health check can end the timers of a healthy thread for good: the check clears \<open>isalive_\<close>, and
  if the self check, which comes every 2 s, is not due at the next tick of 200 ms, that tick does not
  arm its timer again. From then on no timer of the thread fires, whatever the users start, and every
  later health check reports the thread dead.
\<close>

theorem health_check_stops_timers:
  assumes clk: "clock_ok clk" and cb: "disciplined clk cb" and ok: "timers_ok clk {} (io_timers t)"
    and alive: "io_isalive t" "io_waits t = 1"
    and quiet: "TM_SELFCHECK \<notin> tn_timer ` set (readynodes (detect_ready clk (ty_manager (io_timers t))))"
    and run: "io_run clk cb (HealthCheck # Tick # es) ([], t) = Some (as, t')"
  shows "\<exists>t1. io_run clk cb [HealthCheck, Tick] ([], t) = Some ([True], t1)
    \<and> ty_fired (io_timers t') = ty_fired (io_timers t1)
    \<and> as = True # replicate (length (filter (\<lambda>e. e = HealthCheck) es)) False"
proof -
  let ?t = "t\<lparr>io_isalive := False\<rparr>"
  from DoTimeOutCallBack_ok [OF clk cb DetectTimerList_ok [OF clk cb ok]] obtain y fs where
    y: "DetectTimerList clk cb (io_timers t) = Some y" "ty_fired y = ty_fired (io_timers t) @ fs"
      "subseq fs (map tn_timer (readynodes (detect_ready clk (ty_manager (io_timers t)))))"
    by (auto simp: DetectTimerList_def)
  have "TM_SELFCHECK \<notin> set fs"
  proof
    assume "TM_SELFCHECK \<in> set fs"
    from list_emb_set [OF y(3) this] quiet show False by auto
  qed
  then have tick: "io_DoTimer clk cb ?t = Some (?t\<lparr>io_timers := y, io_waits := 0\<rparr>)"
    using y alive by (simp add: io_DoTimer_def Let_def)
  then have two: "io_run clk cb [HealthCheck, Tick] ([], t) = Some ([True], ?t\<lparr>io_timers := y, io_waits := 0\<rparr>)"
    using alive by (simp add: io_GetSelfCheck_def)
  have "io_run clk cb es ([True], ?t\<lparr>io_timers := y, io_waits := 0\<rparr>) = Some (as, t')"
    using run tick alive by (simp add: io_GetSelfCheck_def)
  from io_dead_run [OF this] two show ?thesis by auto
qed

text \<open>Without health checks the thread keeps ticking: each tick arms exactly one wait again.\<close>

lemma io_keeps_ticking:
  assumes "io_run clk cb es (as, t) = Some (as', t')" "HealthCheck \<notin> set es" "io_isalive t" "io_waits t = 1"
  shows "io_isalive t' \<and> io_waits t' = 1"
  using assms
proof (induction es arbitrary: as t)
  case (Cons e es)
  then obtain as1 t1 where s: "io_step clk cb e (as, t) = Some (as1, t1)" "io_run clk cb es (as1, t1) = Some (as', t')"
    by (auto simp: bind_eq_Some_iff)
  have "io_isalive t1 \<and> io_waits t1 = 1"
    using s(1) Cons.prems(2-4) by (cases e) (auto simp: io_DoTimer_def DoSelfCheck_def Let_def split: option.splits)
  with Cons.IH [OF s(2)] Cons.prems(2) show ?case by simp
qed simp

section \<open>Witness\<close>

definition sample_io_clock :: clock where
  \<comment> \<open>the thread starts at 1000 and ticks at 1200\<close>
  "sample_io_clock n = (if n \<le> 1 then 1000 else 1200)"

definition sample_io_thread :: io_thread where
  "sample_io_thread = io_Start (io_thread_new sample_io_clock 0)"

lemma sample_io_clock_ok: "clock_ok sample_io_clock"
  by (simp add: clock_ok_def sample_io_clock_def mono_def)

lemma io_thread_new_ok:
  assumes "clock_ok clk" shows "timers_ok clk {} (io_timers (io_thread_new clk i))"
  using wheel_inv_new [OF assms]
  by (auto simp: timers_ok_def io_thread_new_def io_InitInner_def node_of_def tt_Init_def tt_new_def all_nodes_def
      timer_manager_new_def wheel_new_def split: if_splits)

lemma sample_not_ready:
  "readynodes (detect_ready sample_io_clock (snd (AddTimer sample_io_clock 0 2000 TM_SELFCHECK
     (timer_manager_new sample_io_clock 0)))) = []"
proof -
  let ?c = sample_io_clock and ?m = "timer_manager_new sample_io_clock 0"
  define x where "x = fst (AddTimer ?c 0 2000 TM_SELFCHECK ?m)"
  define m where "m = snd (AddTimer ?c 0 2000 TM_SELFCHECK ?m)"
  let ?r = "snd (GetCurrentMillisec ?c m)"
  have i0: "wheel_inv ?c ?m" by (rule wheel_inv_new [OF sample_io_clock_ok])
  then have inv: "wheel_inv ?c m" unfolding m_def by (rule wheel_inv_AddTimer [OF sample_io_clock_ok]) simp
  have all: "all_nodes m = {#x#}"
    using AddTimer_all_nodes [OF i0, of 0 2000 TM_SELFCHECK]
    by (simp add: m_def x_def all_nodes_def timer_manager_new_def wheel_new_def)
  have m: "m = AddTimerNode 2000 x (snd (GetCurrentMillisec ?c ?m))"
    by (simp add: m_def x_def AddTimer_def GetCurrentMillisec_def Let_def)
  have r: "tm_reads m = 2" "checktime m = 1000" "sidx m 0 = 0"
    by (simp_all add: m) (simp_all add: timer_manager_new_def sample_io_clock_def sidx_def wheel_new_def)
  have sp: "x \<in> set (spokes (wheels m 0) 200)"
    using r(3) spoke_index_0 [of 200 "snd (GetCurrentMillisec ?c ?m)"]
    by (simp add: m AddTimerNode_def Let_def wheel_consts level_of_def spokes_add_spoke)
  have l: "loopnum (?c (tm_reads m)) m = 20" by (simp add: loopnum_def r sample_io_clock_def wheel_consts)
  have "x \<in> set (spokes (wheels ((tick ?c ^^ 20) ?r) 0) ((sidx ?r 0 + 200) mod 256))"
    using wheel0_fires [OF sample_io_clock_ok wheel_inv_read [OF sample_io_clock_ok inv], of 20 x 200] sp r
    by (simp add: sample_io_clock_def)
  then have spoke: "x \<in> set (spokes (wheels (detect_ready ?c m) 0) 200)"
    using r(3) by (simp add: detect_ready_eq [OF sample_io_clock_ok] l)
  have "wheels_shape (detect_ready ?c m)"
    using detect_ready_inv [OF sample_io_clock_ok inv] by (simp add: wheel_inv_def)
  then have "\<exists>k\<le>4. \<exists>j<wh_size (wheels (detect_ready ?c m) k). x \<in> set (spokes (wheels (detect_ready ?c m) k) j)"
    using spoke by (intro exI [of _ 0] exI [of _ 200] conjI) (simp_all add: wheels_shape_def)
  then have "x \<in># (\<Sum>k\<le>4. \<Sum>j<wh_size (wheels (detect_ready ?c m) k). mset (spokes (wheels (detect_ready ?c m) k) j))"
    by (auto simp: set_mset_sum)
  moreover have "all_nodes (detect_ready ?c m) = {#x#}"
    using all_nodes_detect_ready [OF sample_io_clock_ok inv] all by simp
  ultimately have "mset (readynodes (detect_ready ?c m)) = {#}"
    unfolding all_nodes_def by (auto simp: union_is_single)
  then show ?thesis by (simp add: m_def)
qed

lemma sample_io_started:
  "\<exists>t. io_StartInThread sample_io_clock sample_io_thread = Some t \<and> timers_ok sample_io_clock {} (io_timers t)
    \<and> io_isalive t \<and> io_waits t = 1
    \<and> TM_SELFCHECK \<notin> tn_timer ` set (readynodes (detect_ready sample_io_clock (ty_manager (io_timers t))))"
proof -
  let ?y = "io_timers sample_io_thread" and ?T = "tt_Init SELF_CHECK_INTERVAL TIMER_CIRCLE tt_new"
  have y: "timers_ok sample_io_clock {} ?y"
    using io_thread_new_ok [OF sample_io_clock_ok, of 0] by (simp add: sample_io_thread_def io_Start_def Let_def)
  have T: "ty_timers ?y TM_SELFCHECK = Some ?T" "tt_owner ?T"
    by (simp_all add: sample_io_thread_def io_Start_def io_thread_new_def io_InitInner_def tt_Init_def Let_def)
  from tt_Start_ok [OF sample_io_clock_ok y T] obtain y1 where
    y1: "tt_Start sample_io_clock TM_SELFCHECK ?y = Some y1" "timers_ok sample_io_clock {} y1"
    by blast
  have "readynodes (detect_ready sample_io_clock (ty_manager y1)) = []"
  proof -
    have "ty_manager y1 = snd (AddTimer sample_io_clock 0 2000 TM_SELFCHECK (timer_manager_new sample_io_clock 0))"
      using y1(1) by (auto simp: tt_Start_def tt_Stop_def tt_arm_def sample_io_thread_def io_Start_def io_thread_new_def
          io_InitInner_def tt_Init_def tt_new_def SELF_CHECK_INTERVAL_def Let_def split: prod.splits)
    then show ?thesis using sample_not_ready by simp
  qed
  with y1 show ?thesis
    by (simp add: io_StartInThread_def) (simp add: sample_io_thread_def io_Start_def io_thread_new_def Let_def)
qed

theorem health_check_stops_timers_witness:
  "\<exists>t t'. io_StartInThread sample_io_clock sample_io_thread = Some t
    \<and> io_run sample_io_clock (\<lambda>_ _. []) [HealthCheck, Tick, HealthCheck] ([], t) = Some ([True, False], t')"
proof -
  obtain t where t: "io_StartInThread sample_io_clock sample_io_thread = Some t" "timers_ok sample_io_clock {} (io_timers t)"
      "io_isalive t" "io_waits t = 1"
      "TM_SELFCHECK \<notin> tn_timer ` set (readynodes (detect_ready sample_io_clock (ty_manager (io_timers t))))"
    using sample_io_started by blast
  from DoTimeOutCallBack_ok [OF sample_io_clock_ok no_callbacks_disciplined(1)
      DetectTimerList_ok [OF sample_io_clock_ok no_callbacks_disciplined(1) t(2)]]
  obtain y where y: "DetectTimerList sample_io_clock (\<lambda>_ _. []) (io_timers t) = Some y"
    by (auto simp: DetectTimerList_def)
  then obtain u where "io_DoTimer sample_io_clock (\<lambda>_ _. []) (t\<lparr>io_isalive := False\<rparr>) = Some u"
    by (simp add: io_DoTimer_def Let_def)
  then have r: "io_run sample_io_clock (\<lambda>_ _. []) (HealthCheck # Tick # [HealthCheck]) ([], t)
      = Some ([True, io_isalive u], u\<lparr>io_isalive := False\<rparr>)"
    using t(3,4) by (simp add: io_GetSelfCheck_def)
  from health_check_stops_timers [OF sample_io_clock_ok no_callbacks_disciplined(1) t(2-5) r] r t(1) show ?thesis
    by auto
qed

end
