(* ===== verification/NetThread.thy ===== *)
theory NetThread
  imports SessionManagers IoThread
begin

text \<open>
  A network thread: \<open>CSessionManager\<close> (frame/net/sessionmanager.h and .cc) is an io thread with the two
  session managers and the handler of the user. It passes what the sessions report on to the handler,
  stamped with the connection id and the session's name, and sweeps the sessions every 15 s.

  What a session reports is in its trace; after each operation on a session the thread delivers the
  new part of the trace. The handler's methods are virtual and a parameter: their calls are recorded,
  and what they do next are operations on the thread of their own.
\<close>

definition CHECK_SESSION_INTERVAL :: u32 where "CHECK_SESSION_INTERVAL = 15000"
definition TM_CHECK_SESSION :: nat where "TM_CHECK_SESSION = 1"

datatype handler_event = HMessage net_msg | HConnected snet_event | HPeerClose snet_event

datatype handler_call = HStartInThread int | HOnEvent int handler_event | HStopInThread int

record net_thread =
  nt_io :: io_thread
  nt_soc :: soc_manager
  nt_sos :: sos_manager
  nt_calls :: "handler_call list"

definition net_thread_new :: "clock \<Rightarrow> int \<Rightarrow> u32 \<Rightarrow> net_thread" where
  \<comment> \<open>the constructor with \<open>InitInner\<close>\<close>
  "net_thread_new clk i mark =
     (let io = io_thread_new clk i; y = io_timers io in
      \<lparr>nt_io = io\<lparr>io_timers := y\<lparr>ty_timers := (ty_timers y)(TM_CHECK_SESSION \<mapsto>
                                   tt_Init CHECK_SESSION_INTERVAL TIMER_CIRCLE tt_new)\<rparr>\<rparr>,
       nt_soc = \<lparr>soc_sessions = [], soc_dead = []\<rparr>, nt_sos = sos_manager_new mark, nt_calls = []\<rparr>)"

definition nt_call :: "handler_call \<Rightarrow> net_thread \<Rightarrow> net_thread" where
  "nt_call c t = t\<lparr>nt_calls := nt_calls t @ [c]\<rparr>"

section \<open>Starting, stopping and sweeping\<close>

definition nt_StartInThread :: "clock \<Rightarrow> net_thread \<Rightarrow> net_thread option" where
  "nt_StartInThread clk t = do {
     io \<leftarrow> io_StartInThread clk (nt_io t);
     y \<leftarrow> tt_Start clk TM_CHECK_SESSION (io_timers io);
     Some (nt_call (HStartInThread (io_id io)) (t\<lparr>nt_io := io\<lparr>io_timers := y\<rparr>\<rparr>))
   }"

definition nt_StopInThread :: "net_thread \<Rightarrow> net_thread option" where
  "nt_StopInThread t = do {
     y \<leftarrow> tt_Stop TM_CHECK_SESSION (io_timers (nt_io t));
     io \<leftarrow> io_StopInThread ((nt_io t)\<lparr>io_timers := y\<rparr>);
     Some (nt_call (HStopInThread (io_id io)) (t\<lparr>nt_io := io\<rparr>))
   }"

definition nt_DoCheckSession :: "net_thread \<Rightarrow> net_thread" where
  "nt_DoCheckSession t =
     t\<lparr>nt_soc := soc_DoCheckSession (nt_soc t), nt_sos := sos_DoCheckSession (nt_sos t)\<rparr>"

section \<open>Events for the handler\<close>

fun nm_stamp :: "u32 \<Rightarrow> string \<Rightarrow> net_msg \<Rightarrow> net_msg" where
  "nm_stamp i name (HttpMsg m) = HttpMsg (m\<lparr>ev_connid := i, ev_session_name := name\<rparr>)"
| "nm_stamp i name (ThriftMsg m) = ThriftMsg (m\<lparr>ev_connid := i, ev_session_name := name\<rparr>)"

fun stamp :: "u32 \<Rightarrow> string \<Rightarrow> handler_event \<Rightarrow> handler_event" where
  "stamp i name (HMessage m) = HMessage (nm_stamp i name m)"
| "stamp i name (HConnected e) = HConnected (e\<lparr>ev_connid := i, ev_session_name := name\<rparr>)"
| "stamp i name (HPeerClose e) = HPeerClose (e\<lparr>ev_connid := i, ev_session_name := name\<rparr>)"

definition nt_OnRead :: "session option \<Rightarrow> handler_event \<Rightarrow> net_thread \<Rightarrow> net_thread" where
  \<comment> \<open>\<open>session\<close> may be NULL\<close>
  "nt_OnRead session event t =
     (let e = (case session of Some s \<Rightarrow> stamp (session_id s) (ss_name s) event | None \<Rightarrow> event)
      in nt_call (HOnEvent (io_id (nt_io t)) e) t)"

definition peer_event :: "nat \<Rightarrow> int \<Rightarrow> session \<Rightarrow> snet_event option" where
  \<comment> \<open>a new event with the address of the peer; the events are heap objects whose addresses play no part\<close>
  "peer_event now i s = event_Init now (cn_remoteip (ss_conn s)) (cn_remoteport (ss_conn s)) (snet_event_new 0 i)"

definition nt_OnConnected :: "net_env \<Rightarrow> session \<Rightarrow> net_thread \<Rightarrow> net_thread option" where
  "nt_OnConnected env s t =
     map_option (\<lambda>e. nt_OnRead (Some s) (HConnected e) t) (peer_event (ne_now env) CONNECTED_EVENT_ID s)"

definition nt_OnPeerClose :: "net_env \<Rightarrow> session \<Rightarrow> net_thread \<Rightarrow> net_thread option" where
  "nt_OnPeerClose env s t = do {
     e \<leftarrow> peer_event (ne_now env) PEERCLOSE_EVENT_ID s;
     let (ret, soc) = soc_OnPeerClose (session_id s) (nt_soc t);
     Some (nt_OnRead (Some s) (HPeerClose e)
       (if ret \<noteq> 0 then t\<lparr>nt_soc := soc, nt_sos := snd (sos_OnPeerClose (session_id s) (nt_sos t))\<rparr>
        else t\<lparr>nt_soc := soc\<rparr>))
   }"

fun nt_effect :: "net_env \<Rightarrow> session \<Rightarrow> effect \<Rightarrow> net_thread \<Rightarrow> net_thread option" where
  \<comment> \<open>the callbacks of a session; its other effects do not concern the thread\<close>
  "nt_effect env s (EvRead m) t = Some (nt_OnRead (Some s) (HMessage m) t)"
| "nt_effect env s EvConnected t = nt_OnConnected env s t"
| "nt_effect env s EvAccept t = Some (t\<lparr>nt_soc := soc_OnAccept s (nt_soc t)\<rparr>)"
| "nt_effect env s EvPeerClose t = nt_OnPeerClose env s t"
| "nt_effect env s _ t = Some t"

fun nt_effects :: "net_env \<Rightarrow> session \<Rightarrow> effect list \<Rightarrow> net_thread \<Rightarrow> net_thread option" where
  "nt_effects env s [] t = Some t"
| "nt_effects env s (e # es) t = Option.bind (nt_effect env s e t) (nt_effects env s es)"

section \<open>Operations on one session\<close>

datatype place = InSoc u32 | InShort string | InPers string

fun nt_session :: "place \<Rightarrow> net_thread \<Rightarrow> session option" where
  "nt_session (InSoc i) t = map_of (soc_sessions (nt_soc t)) i"
| "nt_session (InShort name) t = map_of (so_short (nt_sos t)) name"
| "nt_session (InPers addr) t = map_of (pc_sessions (so_pers (nt_sos t))) addr"

fun nt_put :: "place \<Rightarrow> session \<Rightarrow> net_thread \<Rightarrow> net_thread" where
  "nt_put (InSoc i) s t = t\<lparr>nt_soc := (nt_soc t)\<lparr>soc_sessions := AList.update i s (soc_sessions (nt_soc t))\<rparr>\<rparr>"
| "nt_put (InShort name) s t = t\<lparr>nt_sos := put_short name s (nt_sos t)\<rparr>"
| "nt_put (InPers addr) s t = t\<lparr>nt_sos := put_pers addr s (nt_sos t)\<rparr>"

definition on_session :: "net_env \<Rightarrow> place \<Rightarrow> (session \<Rightarrow> session option) \<Rightarrow> net_thread \<Rightarrow> net_thread option" where
  "on_session env pl f t = do {
     s \<leftarrow> nt_session pl t;
     s' \<leftarrow> f s;
     nt_effects env s' (drop (length (cn_trace (ss_conn s))) (cn_trace (ss_conn s'))) (nt_put pl s' t)
   }"

text \<open>The handlers of the event loop and the timers of the sessions.\<close>

definition nt_HandleRead :: "net_env \<Rightarrow> nat \<Rightarrow> place \<Rightarrow> bool \<Rightarrow> nat \<Rightarrow> net_thread \<Rightarrow> net_thread option" where
  "nt_HandleRead env fuel pl err n = on_session env pl (\<lambda>s. map_option snd (HandleRead env fuel err n s))"

definition nt_HandleWrite :: "net_env \<Rightarrow> place \<Rightarrow> bool \<Rightarrow> net_thread \<Rightarrow> net_thread option" where
  "nt_HandleWrite env pl err = on_session env pl (\<lambda>s. Some (HandleWrite err s))"

definition nt_HandleConnected :: "net_env \<Rightarrow> place \<Rightarrow> bool \<Rightarrow> nat \<Rightarrow> nat \<Rightarrow> net_thread \<Rightarrow> net_thread option" where
  "nt_HandleConnected env pl err k n = on_session env pl (HandleConnected env err k n)"

definition nt_HandleConnectTimeout :: "net_env \<Rightarrow> place \<Rightarrow> bool \<Rightarrow> net_thread \<Rightarrow> net_thread option" where
  "nt_HandleConnectTimeout env pl aborted = on_session env pl (HandleConnectTimeout env aborted)"

definition nt_RequestTimeOut :: "net_env \<Rightarrow> place \<Rightarrow> net_msg \<Rightarrow> net_thread \<Rightarrow> net_thread option" where
  "nt_RequestTimeOut env pl m = on_session env pl (\<lambda>s. Some (DoRequestTimeOut m s))"

definition nt_HeartBeat :: "net_env \<Rightarrow> place \<Rightarrow> net_thread \<Rightarrow> net_thread option" where
  "nt_HeartBeat env pl = on_session env pl (DoHeartBeat env)"

definition nt_Reconnect :: "net_env \<Rightarrow> place \<Rightarrow> net_thread \<Rightarrow> net_thread option" where
  "nt_Reconnect env pl = on_session env pl (DoConnect env)"

text \<open>
  An accepted session is not in a table before its \<open>OnAccept\<close> has run: it is passed by pointer in the
  posted call.
\<close>

definition nt_OnAccept :: "net_env \<Rightarrow> session \<Rightarrow> net_thread \<Rightarrow> net_thread option" where
  "nt_OnAccept env s t =
     (let s' = session_OnAccept s
      in nt_effects env s' (drop (length (cn_trace (ss_conn s))) (cn_trace (ss_conn s'))) t)"

section \<open>The service for the handler\<close>

text \<open>
  \<open>OnConnect\<close>, \<open>OnSendTo\<close>, \<open>OnClose\<close> and \<open>OnSendBack\<close> post the \<open>Do...\<close> function of the same name to the
  thread; here are those functions with the delivery of what they make the sessions report.
\<close>

definition nt_DoSendBack :: "net_env \<Rightarrow> u32 \<Rightarrow> net_msg \<Rightarrow> net_thread \<Rightarrow> net_thread option" where
  "nt_DoSendBack env i m t =
     (if map_of (soc_sessions (nt_soc t)) i = None
      then map_option (\<lambda>soc. t\<lparr>nt_soc := soc\<rparr>) (soc_DoSendBack env i m (nt_soc t))
      else on_session env (InSoc i) (session_DoSendBack env m) t)"

definition nt_DoSendTo :: "net_env \<Rightarrow> string \<Rightarrow> net_msg \<Rightarrow> int \<Rightarrow> net_thread \<Rightarrow> net_thread option" where
  "nt_DoSendTo env name m timeout t =
     (let ms = timeout * 1000; ok = (- (2 ^ 31) \<le> ms \<and> ms < 2 ^ 31);
          send = (\<lambda>s. Option.bind (defined_if ok) (\<lambda>_. session_DoSendTo env m ms s)) in
      if short_GetSession name (so_short (nt_sos t)) \<noteq> None then on_session env (InShort name) send t
      else
        let (ao, c) = pers_GetSession name (so_pers (nt_sos t)); t1 = t\<lparr>nt_sos := (nt_sos t)\<lparr>so_pers := c\<rparr>\<rparr> in
        (case ao of
           None \<Rightarrow> Some (nt_OnRead None (HMessage (nm_SetReply (- 1) m)) t1)
         | Some a \<Rightarrow> on_session env (InPers a) send t1))"

definition nt_DoClose :: "net_env \<Rightarrow> string \<Rightarrow> u32 \<Rightarrow> net_thread \<Rightarrow> net_thread option" where
  "nt_DoClose env name connid t =
     (if short_GetSession name (so_short (nt_sos t)) \<noteq> None
      then on_session env (InShort name) (\<lambda>s. Some (session_Close s)) t
      else (case pers_GetSession_connid name connid (so_pers (nt_sos t)) of
              None \<Rightarrow> Some t
            | Some a \<Rightarrow> on_session env (InPers a) (\<lambda>s. Some (session_Close s)) t))"

text \<open>
  \<open>DoConnect\<close>: a session that the tables know is connected again, a new one is built by the manager and
  may report at once.
\<close>

definition nt_DoConnect ::
  "net_env \<Rightarrow> u32 \<Rightarrow> nat \<Rightarrow> string \<Rightarrow> string \<Rightarrow> bool \<Rightarrow> int \<Rightarrow> bool \<Rightarrow> net_thread \<Rightarrow> (int \<times> net_thread) option" where
  "nt_DoConnect env port0 next_addr name addr autoreconnect heartbeat addr_reuse t =
     (let pl = (if addr_reuse then InPers addr else InShort name) in
      if name \<noteq> [] \<and> nt_session pl t \<noteq> None
      then map_option (Pair 0) (on_session env pl (\<lambda>s. DoConnect env (s\<lparr>ss_owner := True\<rparr>)) t)
      else do {
        (ret, sos) \<leftarrow> sos_DoConnect env port0 next_addr name addr autoreconnect heartbeat addr_reuse (nt_sos t);
        let t1 = t\<lparr>nt_sos := sos\<rparr>;
        (if ret \<noteq> 0 then Some (ret, t1)
         else do {
           s \<leftarrow> nt_session pl t1;
           map_option (Pair ret) (nt_effects env s (cn_trace (ss_conn s)) t1)
         })
      })"

definition nt_DoTimer :: "clock \<Rightarrow> callbacks \<Rightarrow> net_thread \<Rightarrow> net_thread option" where
  \<comment> \<open>\<open>DoTimer\<close> with the callback of the check timer; the timers of the sessions are effects of theirs\<close>
  "nt_DoTimer clk cb t =
     (case io_DoTimer clk cb (nt_io t) of
        None \<Rightarrow> None
      | Some io \<Rightarrow>
          let called = drop (length (ty_fired (io_timers (nt_io t)))) (ty_fired (io_timers io));
              t1 = t\<lparr>nt_io := io\<rparr>
          in Some (if TM_CHECK_SESSION \<in> set called then nt_DoCheckSession t1 else t1))"

definition nt_destroy :: "net_thread \<Rightarrow> net_thread" where
  "nt_destroy t = t\<lparr>nt_soc := soc_destroy (nt_soc t), nt_sos := sos_destroy (nt_sos t)\<rparr>"

end
