(* ===== verification/NetHolder.thy ===== *)
theory NetHolder
  imports NetThread ManagerProps
begin

text \<open>
  The threads of a server and its listening sockets: \<open>CNetThreadHolder\<close>
  (frame/net/netthreadholder.h and .cc) and \<open>CTcpSocketServer\<close> (frame/net/tcpsocketserver.h and .cc).
  The last thread accepts; the others get the accepted connections in turn. What an accept posts to a
  thread is recorded with the number of that thread.
\<close>

section \<open>The listening socket\<close>

record tcp_server =
  ts_proto :: EProtocolType
  ts_running :: bool
  ts_open :: bool
  ts_waiting :: "(nat \<times> session) option" \<comment> \<open>the session given to \<open>async_accept\<close>, with its thread\<close>

definition tcp_server_new :: tcp_server where
  "tcp_server_new = \<lparr>ts_proto = E_PROTOCOL_ERROR, ts_running = False, ts_open = False, ts_waiting = None\<rparr>"

section \<open>The holder\<close>

record net_holder =
  nh_threads :: "net_thread list"
  nh_threadnum :: int
  nh_index :: u32
  nh_servers :: "tcp_server list"
  nh_mark :: u32 \<comment> \<open>\<open>CConnection::sm_mark_\<close>\<close>
  nh_posted :: "(nat \<times> session) list" \<comment> \<open>accepted sessions posted to the threads\<close>
  nh_leaked :: "session list" \<comment> \<open>sessions that nothing refers to any more\<close>

definition net_holder_new :: net_holder where
  "net_holder_new = \<lparr>nh_threads = [], nh_threadnum = 1, nh_index = 0, nh_servers = [], nh_mark = 0, nh_posted = [], nh_leaked = []\<rparr>"

definition nh_Start :: "clock \<Rightarrow> int \<Rightarrow> net_holder \<Rightarrow> net_holder option" where
  \<comment> \<open>a negative array size is not allowed\<close>
  "nh_Start clk threadnum h =
     (let n = threadnum + 1 in
      if n < 0 then None
      else Some (h\<lparr>nh_threadnum := n,
                   nh_threads := map (\<lambda>i. let t = net_thread_new clk (int i) (nh_mark h)
                                          in t\<lparr>nt_io := io_Start (nt_io t)\<rparr>) [0..<nat n]\<rparr>))"

definition GetSessionCallBack :: "net_holder \<Rightarrow> nat \<times> net_holder" where
  "GetSessionCallBack h =
     (if nh_threadnum h \<le> 1 then (0, h)
      else (unat (nh_index h mod of_int (nh_threadnum h - 1)), h\<lparr>nh_index := nh_index h + 1\<rparr>))"

definition GetAcceptIoService :: "net_holder \<Rightarrow> nat" where
  "GetAcceptIoService h = nat (nh_threadnum h - 1)"

definition GetThreadStatus :: "int \<Rightarrow> net_holder \<Rightarrow> (int \<times> int) \<times> net_holder" where
  \<comment> \<open>the number of threads, and the caller's \<open>deadthreadnum\<close> with the dead ones added\<close>
  "GetThreadStatus deadthreadnum h =
     ((nh_threadnum h, deadthreadnum + int (length (filter (\<lambda>t. \<not> fst (io_GetSelfCheck (nt_io t))) (nh_threads h)))),
      h\<lparr>nh_threads := map (\<lambda>t. t\<lparr>nt_io := snd (io_GetSelfCheck (nt_io t))\<rparr>) (nh_threads h)\<rparr>)"

section \<open>Accepting\<close>

definition StartAccept :: "net_env \<Rightarrow> nat \<Rightarrow> nat \<Rightarrow> net_holder \<Rightarrow> net_holder option" where
  \<comment> \<open>for server number \<open>k\<close>; \<open>next_addr\<close> is the address of the next object the session allocates\<close>
  "StartAccept env next_addr k h = do {
     let (i, h1) = GetSessionCallBack h;
     let sv = nh_servers h ! k;
     http \<leftarrow> CreateSession (ts_proto sv);
     s \<leftarrow> session_Init env http (ts_proto sv) True False 0 (nh_mark h1) next_addr;
     Some (h1\<lparr>nh_mark := nh_mark h1 + 1, nh_servers := (nh_servers h1)[k := sv\<lparr>ts_waiting := Some (i, s)\<rparr>]\<rparr>)
   }"

text \<open>
  What the operating system answers: whether \<open>open\<close>, \<open>bind\<close> and \<open>listen\<close> fail, and whether the host is
  an IPv4 address (\<open>from_string\<close> throws otherwise, which nothing catches).
\<close>

record listen_answers =
  la_open_fails :: bool
  la_is_ipv4 :: bool
  la_bind_fails :: bool
  la_listen_fails :: bool

definition ts_StartServer :: "net_env \<Rightarrow> listen_answers \<Rightarrow> u32 \<Rightarrow> nat \<Rightarrow> string \<Rightarrow> nat \<Rightarrow> net_holder \<Rightarrow> (int \<times> net_holder) option" where
  "ts_StartServer env la port0 next_addr addr k h = do {
     (ret, pa) \<leftarrow> ParseAddr addr port0;
     (case pa of
        None \<Rightarrow> Some (- 1, h)
      | Some a \<Rightarrow>
          let sv = (nh_servers h ! k)\<lparr>ts_proto := pa_proto a\<rparr>;
              set = (\<lambda>v. h\<lparr>nh_servers := (nh_servers h)[k := v]\<rparr>) in
          if la_open_fails la then Some (- 1, set (sv\<lparr>ts_open := False\<rparr>))
          else if \<not> la_is_ipv4 la then None
          else if la_bind_fails la then Some (- 1, set (sv\<lparr>ts_open := False\<rparr>))
          else if la_listen_fails la then Some (- 3, set (sv\<lparr>ts_open := False\<rparr>))
          else map_option (Pair 0) (StartAccept env next_addr k (set (sv\<lparr>ts_open := True, ts_running := True\<rparr>))))
   }"

definition nh_StartServer_step :: "net_env \<Rightarrow> listen_answers \<Rightarrow> u32 \<Rightarrow> nat \<Rightarrow> string \<Rightarrow> net_holder \<Rightarrow> (int \<times> net_holder) option" where
  \<comment> \<open>one turn of the loop over the addresses\<close>
  "nh_StartServer_step env la port0 next_addr addr h =
     (let h1 = h\<lparr>nh_servers := nh_servers h @ [tcp_server_new]\<rparr>
      in map_option (\<lambda>(r, h2). (if r \<noteq> 0 then - 1 else 0, h2))
           (ts_StartServer env la port0 next_addr addr (length (nh_servers h)) h1))"

fun nh_StartServer :: "net_env \<Rightarrow> (listen_answers \<times> u32 \<times> nat \<times> string) list \<Rightarrow> net_holder \<Rightarrow> (int \<times> net_holder) option" where
  \<comment> \<open>each address comes with the answers of the system for it\<close>
  "nh_StartServer env [] h = Some (0, h)"
| "nh_StartServer env ((la, port0, na, addr) # as) h =
     (case nh_StartServer_step env la port0 na addr h of
        None \<Rightarrow> None
      | Some (r, h1) \<Rightarrow> if r \<noteq> 0 then Some (r, h1) else nh_StartServer env as h1)"

definition HandleAccept :: "net_env \<Rightarrow> bool \<Rightarrow> nat \<Rightarrow> nat \<Rightarrow> net_holder \<Rightarrow> net_holder option" where
  \<comment> \<open>the completion of \<open>async_accept\<close> on server \<open>k\<close>\<close>
  "HandleAccept env err next_addr k h = do {
     let sv = nh_servers h ! k;
     (i, s) \<leftarrow> ts_waiting sv;
     let h1 = h\<lparr>nh_servers := (nh_servers h)[k := sv\<lparr>ts_waiting := None\<rparr>]\<rparr>;
     (if \<not> err then
        StartAccept env next_addr k (h1\<lparr>nh_posted := nh_posted h1 @ [(i, s\<lparr>ss_conn := (ss_conn s)\<lparr>cn_connected := True\<rparr>\<rparr>)]\<rparr>)
      else if ts_running sv then Some h
      else Some (h1\<lparr>nh_leaked := nh_leaked h1 @ [s]\<rparr>))
   }"

definition HandleStop :: "nat \<Rightarrow> net_holder \<Rightarrow> net_holder" where
  "HandleStop k h = h\<lparr>nh_servers := (nh_servers h)[k := (nh_servers h ! k)\<lparr>ts_open := False, ts_running := False\<rparr>]\<rparr>"

text \<open>The thread runs what the accept posted to it: \<open>OnAccept\<close>, then the first read.\<close>

definition nh_run_posted :: "net_env \<Rightarrow> net_holder \<Rightarrow> net_holder option" where
  "nh_run_posted env h =
     (case nh_posted h of
        [] \<Rightarrow> Some h
      | (i, s) # ps \<Rightarrow> do {
          t1 \<leftarrow> nt_OnAccept env s (nh_threads h ! i);
          t2 \<leftarrow> on_session env (InSoc (session_id s)) (\<lambda>s. Some (s\<lparr>ss_conn := AsyncReadInner env (ss_conn s)\<rparr>)) t1;
          Some (h\<lparr>nh_threads := (nh_threads h)[i := t2], nh_posted := ps\<rparr>)
        })"

fun stop_threads :: "net_thread list \<Rightarrow> net_thread list option" where
  \<comment> \<open>each thread runs the posted \<open>StopInThread\<close> before the join returns, and is then destroyed\<close>
  "stop_threads [] = Some []"
| "stop_threads (t # ts) = do {
     t1 \<leftarrow> nt_StopInThread (t\<lparr>nt_io := io_Stop (nt_io t)\<rparr>);
     ts1 \<leftarrow> stop_threads ts;
     Some (nt_destroy t1 # ts1)
   }"

definition nh_Stop :: "net_holder \<Rightarrow> net_holder option" where
  \<comment> \<open>the servers and threads are destroyed; the list of threads keeps their traces\<close>
  "nh_Stop h = map_option (\<lambda>ts. h\<lparr>nh_servers := [], nh_threads := ts\<rparr>) (stop_threads (nh_threads h))"

section \<open>Connections go round the threads\<close>

fun accepts :: "net_env \<Rightarrow> nat \<Rightarrow> nat list \<Rightarrow> net_holder \<Rightarrow> net_holder option" where
  \<comment> \<open>successful accepts in a row\<close>
  "accepts env k [] h = Some h"
| "accepts env k (a # as) h = Option.bind (HandleAccept env False a k h) (accepts env k as)"

lemma StartAccept_effect:
  assumes h: "StartAccept env a k h = Some h'" and n: "nh_threadnum h = int n + 1" "0 < n" "n < 2 ^ 31" and k: "k < length (nh_servers h)"
  shows "nh_threadnum h' = nh_threadnum h \<and> nh_index h' = nh_index h + 1 \<and> nh_posted h' = nh_posted h
    \<and> length (nh_servers h') = length (nh_servers h)
    \<and> (\<exists>s. ts_waiting (nh_servers h' ! k) = Some (unat (nh_index h) mod n, s))"
proof -
  have "unat (of_int (int n) :: u32) = n" using n by (simp add: unat_of_nat)
  then have "unat (nh_index h mod of_int (int n)) = unat (nh_index h) mod n" by (simp add: unat_mod)
  then have g: "GetSessionCallBack h = (unat (nh_index h) mod n, h\<lparr>nh_index := nh_index h + 1\<rparr>)"
    using n by (simp add: GetSessionCallBack_def)
  show ?thesis
    using h k unfolding StartAccept_def g by (auto simp: bind_eq_Some_iff Let_def)
qed

lemma accepts_posted:
  assumes "accepts env k as h = Some h'" "nh_threadnum h = int n + 1" "0 < n" "n < 2 ^ 31" "k < length (nh_servers h)"
    and "ts_waiting (nh_servers h ! k) = Some (j mod n, s)" "unat (nh_index h) = Suc j" "j + length as < 2 ^ 32 - 1"
  shows "nh_threadnum h' = int n + 1 \<and> map fst (nh_posted h') = map fst (nh_posted h) @ map (\<lambda>i. (j + i) mod n) [0..<length as]"
  using assms
proof (induction as arbitrary: h j s)
  case (Cons a as)
  let ?h = "h\<lparr>nh_servers := (nh_servers h)[k := (nh_servers h ! k)\<lparr>ts_waiting := None\<rparr>],
              nh_posted := nh_posted h @ [(j mod n, s\<lparr>ss_conn := (ss_conn s)\<lparr>cn_connected := True\<rparr>\<rparr>)]\<rparr>"
  obtain h1 where h1: "StartAccept env a k ?h = Some h1" "accepts env k as h1 = Some h'"
    using Cons.prems(1,6) by (auto simp: HandleAccept_def bind_eq_Some_iff)
  have len: "k < length (nh_servers ?h)" using Cons.prems(5) by simp
  have "nh_threadnum ?h = int n + 1" using Cons.prems(2) by simp
  from StartAccept_effect [OF h1(1) this Cons.prems(3,4) len] obtain s1 where
    e: "nh_threadnum h1 = int n + 1" "nh_index h1 = nh_index h + 1" "nh_posted h1 = nh_posted ?h"
      "length (nh_servers h1) = length (nh_servers h)" "ts_waiting (nh_servers h1 ! k) = Some (unat (nh_index h) mod n, s1)"
    using Cons.prems(2) by auto
  have "unat (nh_index h + 1) = Suc (Suc j)"
    using Cons.prems(7,8) by (subst unat_add_no_wrap) simp_all
  then have idx: "unat (nh_index h1) = Suc (Suc j)" using e(2) by simp
  have wait: "ts_waiting (nh_servers h1 ! k) = Some (Suc j mod n, s1)" using e(5) Cons.prems(7) by simp
  have k1: "k < length (nh_servers h1)" using e(4) Cons.prems(5) by simp
  have "Suc j + length as < 2 ^ 32 - 1" using Cons.prems(8) by simp
  from Cons.IH [OF h1(2) e(1) Cons.prems(3,4) k1 wait idx this] show ?case
    by (simp add: e(3) map_upt_Suc del: upt_Suc)
qed simp


lemma thrift_session_Init: "\<exists>s. session_Init env False E_PROTOCOL_THRIFT o' r hb mark na = Some s"
  by (simp add: session_Init_def connection_new_def CreateParser_def factories_init_def RegisterFactory_def)

lemma StartAccept_thrift:
  assumes "ts_proto (nh_servers h ! k) = E_PROTOCOL_THRIFT" "k < length (nh_servers h)"
  shows "\<exists>h' i s. StartAccept env a k h = Some h' \<and> ts_proto (nh_servers h' ! k) = E_PROTOCOL_THRIFT
    \<and> length (nh_servers h') = length (nh_servers h) \<and> ts_waiting (nh_servers h' ! k) = Some (i, s)"
proof -
  obtain i h1 where g: "GetSessionCallBack h = (i, h1)" by fastforce
  then have sv: "nh_servers h1 = nh_servers h" by (auto simp: GetSessionCallBack_def split: if_splits)
  have "CreateSession E_PROTOCOL_THRIFT = Some False" by (simp add: CreateSession_def session_factories_def)
  moreover obtain s where "session_Init env False E_PROTOCOL_THRIFT True False 0 (nh_mark h1) a = Some s"
    using thrift_session_Init by blast
  ultimately show ?thesis using assms g sv by (simp add: StartAccept_def)
qed

lemma accepts_thrift:
  "ts_proto (nh_servers h ! k) = E_PROTOCOL_THRIFT \<Longrightarrow> k < length (nh_servers h) \<Longrightarrow>
    ts_waiting (nh_servers h ! k) = Some (i, s) \<Longrightarrow> \<exists>h'. accepts env k as h = Some h'"
proof (induction as arbitrary: h i s)
  case (Cons a as)
  let ?h = "h\<lparr>nh_servers := (nh_servers h)[k := (nh_servers h ! k)\<lparr>ts_waiting := None\<rparr>],
              nh_posted := nh_posted h @ [(i, s\<lparr>ss_conn := (ss_conn s)\<lparr>cn_connected := True\<rparr>\<rparr>)]\<rparr>"
  have "ts_proto (nh_servers ?h ! k) = E_PROTOCOL_THRIFT" "k < length (nh_servers ?h)" using Cons.prems by simp_all
  from StartAccept_thrift [OF this, of env a] obtain h1 i1 s1 where
    h1: "StartAccept env a k ?h = Some h1" "ts_proto (nh_servers h1 ! k) = E_PROTOCOL_THRIFT"
      "k < length (nh_servers h1)" "ts_waiting (nh_servers h1 ! k) = Some (i1, s1)"
    using Cons.prems(2) by auto
  from Cons.IH [OF h1(2-4)] h1(1) Cons.prems(3) show ?case by (simp add: HandleAccept_def)
qed simp

lemma sample_addr:
  "ParseAddr ''thrift://h'' 0 = Some (0, Some \<lparr>pa_proto = E_PROTOCOL_THRIFT, pa_ip = ''h'', pa_port = 0\<rparr>)"
proof -
  have a: "scan_addr ''thrift://h'' = Some (Some (''thrift'', ''h'', None))"
    by (simp add: scan_addr_def c_str_def ADDR_IP_SIZE_def)
  have b: "\<not> starts_caseeq ''http'' ''thrift''" "starts_caseeq ''thrift'' ''thrift''" by code_simp+
  show ?thesis by (simp add: ParseAddr_def a b)
qed


end
