(* ===== verification/XmlText.thy ===== *)
theory XmlText
  imports CString
begin

text \<open>
  The text layer of the XML library (\<open>XMLUtil\<close> and \<open>StrPair\<close> of frame/tinyxml2/tinyxml2.h and .cpp).

  The parser reads a buffer that ends with a NUL; a read position is the list of the characters from
  there to the NUL, which is left out, and a NULL position is \<open>None\<close>. \<open>StrPair\<close> remembers a piece of the
  buffer and converts it in place when it is read; the pieces of different pairs do not overlap, so a
  pair holds its own piece. \<open>char\<close> is signed and the locale is "C".
\<close>

section \<open>Characters\<close>

definition IsUTF8Continuation :: "char \<Rightarrow> bool" where
  "IsUTF8Continuation c = (128 \<le> (of_char c :: nat))"

definition IsWhiteSpace :: "char \<Rightarrow> bool" where
  "IsWhiteSpace c = (\<not> IsUTF8Continuation c \<and> c_isspace c)"

definition SkipWhiteSpace :: "string \<Rightarrow> string" where
  "SkipWhiteSpace p = dropWhile IsWhiteSpace p"

definition IsNameStartChar :: "char \<Rightarrow> bool" where
  "IsNameStartChar c =
     ((if (of_char c :: nat) < 128 then c_isupper c \<or> c_islower c else True) \<or> c = CHR '':'' \<or> c = CHR ''_'')"

definition IsNameChar :: "char \<Rightarrow> bool" where
  "IsNameChar c = (IsNameStartChar c \<or> c_isdigit c \<or> c = CHR ''.'' \<or> c = CHR ''-'')"

definition INT_MAX :: int where "INT_MAX = 2147483647"

fun StringEqual :: "string \<Rightarrow> string \<Rightarrow> int \<Rightarrow> bool" where
  \<comment> \<open>the last argument is \<open>nChar - n\<close>\<close>
  "StringEqual (a # p) (b # q) k = (if a = b \<and> 0 < k then StringEqual p q (k - 1) else k = 0)"
| "StringEqual p q k = (k = 0 \<or> (p = [] \<and> q = []))"

section \<open>Numbers as text\<close>

definition ToStr_int :: "int \<Rightarrow> nat \<Rightarrow> string" where
  "ToStr_int v bufsize = snprintf_cut bufsize (fmt_d v)"

definition ToStr_unsigned :: "u32 \<Rightarrow> nat \<Rightarrow> string" where
  "ToStr_unsigned v bufsize = snprintf_cut bufsize (fmt_u (unat v))"

definition ToStr_bool :: "bool \<Rightarrow> nat \<Rightarrow> string" where
  "ToStr_bool v bufsize = snprintf_cut bufsize (fmt_d (if v then 1 else 0))"

definition ToInt :: "string \<Rightarrow> int option" where
  \<comment> \<open>\<open>sscanf\<close> with \<open>%d\<close>: the result is stored only if there is a digit\<close>
  "ToInt str =
     (let s = SkipWhiteSpace str;
          s1 = (case s of c # cs \<Rightarrow> if c = CHR ''-'' \<or> c = CHR ''+'' then cs else s | [] \<Rightarrow> [])
      in if s1 \<noteq> [] \<and> c_isdigit (hd s1) then c_atoi (str @ [NUL]) else None)"

definition ToUnsigned :: "string \<Rightarrow> u32 option" where
  "ToUnsigned str = Option.bind (scan_udec (str @ [NUL])) (\<lambda>r. r)"

definition ToBool :: "string \<Rightarrow> bool option" where
  "ToBool str =
     (case ToInt str of
        Some ival \<Rightarrow> Some (ival \<noteq> 0)
      | None \<Rightarrow> if StringEqual str ''true'' INT_MAX then Some True
                else if StringEqual str ''false'' INT_MAX then Some False
                else None)"

section \<open>Encodings\<close>

definition TIXML_UTF_LEAD :: string where "TIXML_UTF_LEAD = [CHR 0xEF, CHR 0xBB, CHR 0xBF]"

definition ReadBOM :: "string \<Rightarrow> string \<times> bool" where
  "ReadBOM p = (if take 3 p = TIXML_UTF_LEAD then (drop 3 p, True) else (p, False))"

definition utf8_tail :: "u64 \<Rightarrow> char" where
  "utf8_tail input = char_of (unat (and (or input 0x80) 0xBF))"

definition utf8_first :: "u64 \<Rightarrow> u64 \<Rightarrow> char" where
  "utf8_first mark input = char_of (unat (or input mark))"

definition ConvertUTF32ToUTF8 :: "u64 \<Rightarrow> string" where
  \<comment> \<open>the bytes written; their number is \<open>*length\<close>\<close>
  "ConvertUTF32ToUTF8 input =
     (if input < 0x80 then [utf8_first 0 input]
      else if input < 0x800 then [utf8_first 0xC0 (drop_bit 6 input), utf8_tail input]
      else if input < 0x10000 then
        [utf8_first 0xE0 (drop_bit 12 input), utf8_tail (drop_bit 6 input), utf8_tail input]
      else if input < 0x200000 then
        [utf8_first 0xF0 (drop_bit 18 input), utf8_tail (drop_bit 12 input), utf8_tail (drop_bit 6 input),
         utf8_tail input]
      else [])"

fun ref_digits :: "bool \<Rightarrow> string \<Rightarrow> u64 \<Rightarrow> u32 \<Rightarrow> u64 option" where
  \<comment> \<open>the two loops that run backwards from the semicolon, to an \<open>x\<close> (hexadecimal) or a \<open>#\<close>\<close>
  "ref_digits hex [] ucs weight = Some ucs"
| "ref_digits hex (c # cs) ucs weight =
     (if c = (if hex then CHR ''x'' else CHR ''#'') then Some ucs
      else if (if hex then c_isxdigit c else c_isdigit c)
      then ref_digits hex cs (ucs + ucast (weight * of_nat (xdigit_val c))) (weight * (if hex then 16 else 10))
      else None)"

definition GetCharacterRef :: "bytes \<Rightarrow> (nat \<times> string) option" where
  \<comment> \<open>on the memory from \<open>p\<close> to the NUL; the result is how far \<open>p\<close> moves, and the bytes of \<open>value\<close>\<close>
  "GetCharacterRef p =
     (if p ! 1 = CHR ''#'' \<and> p ! 2 \<noteq> NUL then
        (let hex = (p ! 2 = CHR ''x''); first = (if hex then 3 else 2) in
         if hex \<and> p ! 3 = NUL then None
         else (case c_strchr (CHR '';'') (drop first p) of
                 Some (Some i) \<Rightarrow>
                   (case ref_digits hex (rev (take i (drop first p))) 0 1 of
                      None \<Rightarrow> None
                    | Some ucs \<Rightarrow> Some (first + i + 1, ConvertUTF32ToUTF8 ucs))
               | _ \<Rightarrow> None))
      else Some (1, []))"

section \<open>String pairs\<close>

definition NEEDS_ENTITY_PROCESSING :: u32 where "NEEDS_ENTITY_PROCESSING = 0x01"
definition NEEDS_NEWLINE_NORMALIZATION :: u32 where "NEEDS_NEWLINE_NORMALIZATION = 0x02"
definition COLLAPSE_WHITESPACE :: u32 where "COLLAPSE_WHITESPACE = 0x04"
definition NEEDS_FLUSH :: u32 where "NEEDS_FLUSH = 0x100"
definition NEEDS_DELETE :: u32 where "NEEDS_DELETE = 0x200"
definition TEXT_ELEMENT :: u32 where
  "TEXT_ELEMENT = or NEEDS_ENTITY_PROCESSING NEEDS_NEWLINE_NORMALIZATION"
definition TEXT_ELEMENT_LEAVE_ENTITIES :: u32 where
  "TEXT_ELEMENT_LEAVE_ENTITIES = NEEDS_NEWLINE_NORMALIZATION"

record str_pair =
  sp_text :: string
  sp_flags :: u32

definition str_pair_new :: str_pair where
  \<comment> \<open>both pointers are NULL; no value that is NULL is ever read\<close>
  "str_pair_new = \<lparr>sp_text = [], sp_flags = 0\<rparr>"

definition sp_Set :: "string \<Rightarrow> u32 \<Rightarrow> str_pair" where
  "sp_Set piece flags = \<lparr>sp_text = piece, sp_flags = or flags NEEDS_FLUSH\<rparr>"

definition sp_SetStr :: "string \<Rightarrow> str_pair" where
  \<comment> \<open>with \<open>flags = 0\<close>, the only value that callers pass\<close>
  "sp_SetStr str = \<lparr>sp_text = c_str str, sp_flags = NEEDS_DELETE\<rparr>"

definition sp_Empty :: "str_pair \<Rightarrow> bool" where
  "sp_Empty sp = (sp_text sp = [])"

fun find_tag :: "string \<Rightarrow> string \<Rightarrow> (string \<times> string) option" where
  \<comment> \<open>the loop of \<open>ParseText\<close>: what is before the first occurrence, and what is behind it\<close>
  "find_tag endTag [] = None"
| "find_tag endTag (c # p) =
     (if take (length endTag) (c # p) = endTag then Some ([], drop (length endTag) (c # p))
      else map_option (\<lambda>(piece, rest). (c # piece, rest)) (find_tag endTag p))"

definition ParseText :: "string \<Rightarrow> string \<Rightarrow> u32 \<Rightarrow> str_pair \<Rightarrow> string option \<times> str_pair" where
  "ParseText p endTag flags sp =
     (case find_tag endTag p of
        Some (piece, rest) \<Rightarrow> (Some rest, sp_Set piece flags)
      | None \<Rightarrow> (None, sp))"

fun name_piece :: "string \<Rightarrow> string" where
  "name_piece [] = []"
| "name_piece (c # p) = (if IsNameStartChar c then c # takeWhile IsNameChar p else [])"

definition ParseName :: "string \<Rightarrow> str_pair \<Rightarrow> string option \<times> str_pair" where
  "ParseName p sp =
     (let name = name_piece p in
      if name = [] then (None, sp) else (Some (drop (length name) p), sp_Set name 0))"

function CollapseWhitespace_loop :: "string \<Rightarrow> string" where
  "CollapseWhitespace_loop [] = []"
| "CollapseWhitespace_loop (c # p) =
     (if IsWhiteSpace c
      then (case SkipWhiteSpace (c # p) of [] \<Rightarrow> [] | d # r \<Rightarrow> SP # d # CollapseWhitespace_loop r)
      else c # CollapseWhitespace_loop p)"
  by pat_completeness auto
termination
proof (relation "measure length", goal_cases)
  case (2 c p d r)
  then have "length (d # r) \<le> length (c # p)"
    by (metis SkipWhiteSpace_def length_dropWhile_le)
  then show ?case by simp
qed simp_all

definition CollapseWhitespace :: "string \<Rightarrow> string" where
  "CollapseWhitespace s = CollapseWhitespace_loop (SkipWhiteSpace s)"

definition entities :: "(string \<times> char) list" where
  "entities = [(''quot'', CHR 0x22), (''amp'', CHR ''&''), (''apos'', CHR 0x27), (''lt'', CHR ''<''), (''gt'', CHR ''>'')]"

definition is_entity :: "bytes \<Rightarrow> string \<times> char \<Rightarrow> bool" where
  \<comment> \<open>on the memory behind the ampersand\<close>
  "is_entity p e = (take (length (fst e) + 1) p = fst e @ '';'')"

definition write_at :: "bytes \<Rightarrow> nat \<Rightarrow> string \<Rightarrow> bytes" where
  "write_at m q cs = take q m @ cs @ drop (q + length cs) m"

lemma GetCharacterRef_forward: "GetCharacterRef p = Some (d, cs) \<Longrightarrow> 0 < d"
  by (auto simp: GetCharacterRef_def Let_def split: if_splits option.splits)

text \<open>
  The loop of \<open>GetStr\<close> on the memory of the piece and its NUL: \<open>e\<close> is \<open>_end\<close>, \<open>p\<close> reads and \<open>q\<close> writes.
  The result is the memory and \<open>q\<close>; a NULL from \<open>GetCharacterRef\<close> is read in the next turn: undefined.
\<close>

function flush_loop :: "u32 \<Rightarrow> nat \<Rightarrow> bytes \<Rightarrow> nat \<Rightarrow> nat \<Rightarrow> (bytes \<times> nat) option" where
  "flush_loop flags e m p q =
     (if e \<le> p then Some (m, q)
      else if and flags NEEDS_NEWLINE_NORMALIZATION \<noteq> 0 \<and> m ! p = CR
      then flush_loop flags e (m[q := LF]) (if m ! (p + 1) = LF then p + 2 else p + 1) (q + 1)
      else if and flags NEEDS_NEWLINE_NORMALIZATION \<noteq> 0 \<and> m ! p = LF
      then flush_loop flags e (m[q := LF]) (if m ! (p + 1) = CR then p + 2 else p + 1) (q + 1)
      else if and flags NEEDS_ENTITY_PROCESSING \<noteq> 0 \<and> m ! p = CHR ''&''
      then if m ! (p + 1) = CHR ''#''
           then (case GetCharacterRef (drop p m) of
                   None \<Rightarrow> None
                 | Some (d, cs) \<Rightarrow> flush_loop flags e (write_at m q cs) (p + d) (q + length cs))
           else (case find (is_entity (drop (p + 1) m)) entities of
                   Some (pattern, value) \<Rightarrow> flush_loop flags e (m[q := value]) (p + length pattern + 2) (q + 1)
                 | None \<Rightarrow> flush_loop flags e m (p + 1) (q + 1))
      else flush_loop flags e (m[q := m ! p]) (p + 1) (q + 1))"
  by pat_completeness auto
termination
  by (relation "measure (\<lambda>(flags, e, m, p, q). e - p)") (auto dest: GetCharacterRef_forward)

declare flush_loop.simps [simp del]

definition GetStr :: "str_pair \<Rightarrow> string option" where
  "GetStr sp =
     (if and (sp_flags sp) NEEDS_FLUSH \<noteq> 0 then
        (let flags = xor (sp_flags sp) NEEDS_FLUSH; piece = sp_text sp in
         do {
           s \<leftarrow> (if flags \<noteq> 0
                then map_option (\<lambda>(m, q). c_str (take q m)) (flush_loop flags (length piece) (piece @ [NUL]) 0 0)
                else Some piece);
           Some (if and flags COLLAPSE_WHITESPACE \<noteq> 0 then CollapseWhitespace s else s)
         })
      else Some (sp_text sp))"

end
