(* ===== verification/XmlParse.thy ===== *)
theory XmlParse
  imports XmlText
begin

text \<open>
  The document tree and the parser of the XML library (\<open>XMLNode\<close> and the classes derived from it,
  \<open>XMLAttribute\<close> and \<open>XMLDocument\<close> of frame/tinyxml2/tinyxml2.h and .cpp).

  The tree that the parser builds is a datatype; the children of a node and the attributes of an element
  are lists in document order. The strings of an error are the C strings that the error pointers point
  to when the parser has returned, with the NULs that reading a string pair has written before.

  A result \<open>None\<close> is undefined behaviour, which only a duplicate attribute can reach: its test reads the
  value of the first one, and that value may hold a malformed character reference.
\<close>

section \<open>Nodes and documents\<close>

datatype closing_type = OPEN | CLOSED | CLOSING

record xml_attribute =
  at_name :: str_pair
  at_value :: str_pair

datatype xml_node =
    XMLText bool str_pair
  | XMLComment str_pair
  | XMLDeclaration str_pair
  | XMLUnknown str_pair
  | XMLElement str_pair closing_type "xml_attribute list" "xml_node list"

datatype XMLError =
    XML_NO_ERROR | XML_NO_ATTRIBUTE | XML_WRONG_ATTRIBUTE_TYPE | XML_ERROR_FILE_NOT_FOUND
  | XML_ERROR_FILE_COULD_NOT_BE_OPENED | XML_ERROR_FILE_READ_ERROR | XML_ERROR_ELEMENT_MISMATCH
  | XML_ERROR_PARSING_ELEMENT | XML_ERROR_PARSING_ATTRIBUTE | XML_ERROR_IDENTIFYING_TAG
  | XML_ERROR_PARSING_TEXT | XML_ERROR_PARSING_CDATA | XML_ERROR_PARSING_COMMENT
  | XML_ERROR_PARSING_DECLARATION | XML_ERROR_PARSING_UNKNOWN | XML_ERROR_EMPTY_DOCUMENT
  | XML_ERROR_MISMATCHED_ELEMENT | XML_ERROR_PARSING | XML_CAN_NOT_CONVERT_TEXT | XML_NO_TEXT_NODE

fun XMLError_id :: "XMLError \<Rightarrow> nat" where
  "XMLError_id XML_NO_ERROR = 0"
| "XMLError_id XML_NO_ATTRIBUTE = 1"
| "XMLError_id XML_WRONG_ATTRIBUTE_TYPE = 2"
| "XMLError_id XML_ERROR_FILE_NOT_FOUND = 3"
| "XMLError_id XML_ERROR_FILE_COULD_NOT_BE_OPENED = 4"
| "XMLError_id XML_ERROR_FILE_READ_ERROR = 5"
| "XMLError_id XML_ERROR_ELEMENT_MISMATCH = 6"
| "XMLError_id XML_ERROR_PARSING_ELEMENT = 7"
| "XMLError_id XML_ERROR_PARSING_ATTRIBUTE = 8"
| "XMLError_id XML_ERROR_IDENTIFYING_TAG = 9"
| "XMLError_id XML_ERROR_PARSING_TEXT = 10"
| "XMLError_id XML_ERROR_PARSING_CDATA = 11"
| "XMLError_id XML_ERROR_PARSING_COMMENT = 12"
| "XMLError_id XML_ERROR_PARSING_DECLARATION = 13"
| "XMLError_id XML_ERROR_PARSING_UNKNOWN = 14"
| "XMLError_id XML_ERROR_EMPTY_DOCUMENT = 15"
| "XMLError_id XML_ERROR_MISMATCHED_ELEMENT = 16"
| "XMLError_id XML_ERROR_PARSING = 17"
| "XMLError_id XML_CAN_NOT_CONVERT_TEXT = 18"
| "XMLError_id XML_NO_TEXT_NODE = 19"

fun GetError :: "XMLError \<Rightarrow> string" where
  "GetError XML_NO_ATTRIBUTE = ''XML_NO_ATTRIBUTE''"
| "GetError XML_WRONG_ATTRIBUTE_TYPE = ''XML_WRONG_ATTRIBUTE_TYPE''"
| "GetError XML_ERROR_FILE_NOT_FOUND = ''XML_ERROR_FILE_NOT_FOUND''"
| "GetError XML_ERROR_FILE_COULD_NOT_BE_OPENED = ''XML_ERROR_FILE_COULD_NOT_BE_OPENED''"
| "GetError XML_ERROR_FILE_READ_ERROR = ''XML_ERROR_FILE_READ_ERROR''"
| "GetError XML_ERROR_ELEMENT_MISMATCH = ''XML_ERROR_ELEMENT_MISMATCH''"
| "GetError XML_ERROR_PARSING_ELEMENT = ''XML_ERROR_PARSING_ELEMENT''"
| "GetError XML_ERROR_PARSING_ATTRIBUTE = ''XML_ERROR_PARSING_ATTRIBUTE''"
| "GetError XML_ERROR_IDENTIFYING_TAG = ''XML_ERROR_IDENTIFYING_TAG''"
| "GetError XML_ERROR_PARSING_TEXT = ''XML_ERROR_PARSING_TEXT''"
| "GetError XML_ERROR_PARSING_CDATA = ''XML_ERROR_PARSING_CDATA''"
| "GetError XML_ERROR_PARSING_COMMENT = ''XML_ERROR_PARSING_COMMENT''"
| "GetError XML_ERROR_PARSING_DECLARATION = ''XML_ERROR_PARSING_DECLARATION''"
| "GetError XML_ERROR_PARSING_UNKNOWN = ''XML_ERROR_PARSING_UNKNOWN''"
| "GetError XML_ERROR_EMPTY_DOCUMENT = ''XML_ERROR_EMPTY_DOCUMENT''"
| "GetError XML_ERROR_MISMATCHED_ELEMENT = ''XML_ERROR_MISMATCHED_ELEMENT''"
| "GetError XML_ERROR_PARSING = ''XML_ERROR_PARSING''"
| "GetError XML_CAN_NOT_CONVERT_TEXT = ''XML_CAN_NOT_CONVERT_TEXT''"
| "GetError XML_NO_TEXT_NODE = ''XML_NO_TEXT_NODE''"
| "GetError XML_NO_ERROR = []"

record xml_document =
  doc_children :: "xml_node list"
  doc_writeBOM :: bool
  doc_processEntities :: bool
  doc_collapse :: bool
  doc_errorID :: XMLError
  doc_errorStr1 :: "string option"
  doc_errorStr2 :: "string option"

definition xml_document_new :: "bool \<Rightarrow> bool \<Rightarrow> xml_document" where
  \<comment> \<open>\<open>doc_collapse\<close>: the white space mode is \<open>COLLAPSE_WHITESPACE\<close>\<close>
  "xml_document_new processEntities collapse =
     \<lparr>doc_children = [], doc_writeBOM = False, doc_processEntities = processEntities, doc_collapse = collapse,
      doc_errorID = XML_NO_ERROR, doc_errorStr1 = None, doc_errorStr2 = None\<rparr>"

definition xml_SetError :: "XMLError \<Rightarrow> string option \<Rightarrow> string option \<Rightarrow> xml_document \<Rightarrow> xml_document" where
  "xml_SetError err str1 str2 doc = doc\<lparr>doc_errorID := err, doc_errorStr1 := str1, doc_errorStr2 := str2\<rparr>"

definition xml_Error :: "xml_document \<Rightarrow> bool" where
  "xml_Error doc = (doc_errorID doc \<noteq> XML_NO_ERROR)"

definition xml_Clear :: "xml_document \<Rightarrow> xml_document" where
  "xml_Clear doc = doc\<lparr>doc_children := [], doc_errorID := XML_NO_ERROR, doc_errorStr1 := None, doc_errorStr2 := None\<rparr>"

fun node_value :: "xml_node \<Rightarrow> str_pair" where
  "node_value (XMLText cd v) = v"
| "node_value (XMLComment v) = v"
| "node_value (XMLDeclaration v) = v"
| "node_value (XMLUnknown v) = v"
| "node_value (XMLElement v c as kids) = v"

definition XMLNode_Value :: "xml_node \<Rightarrow> string option" where
  "XMLNode_Value n = GetStr (node_value n)"

fun node_children :: "xml_node \<Rightarrow> xml_node list" where
  "node_children (XMLElement v c as kids) = kids"
| "node_children n = []"

section \<open>Navigation\<close>

fun is_element :: "xml_node \<Rightarrow> bool" where
  \<comment> \<open>\<open>ToElement\<close> is not NULL\<close>
  "is_element (XMLElement v c as kids) = True"
| "is_element n = False"

definition is_named :: "string option \<Rightarrow> xml_node \<Rightarrow> bool" where
  "is_named name n =
     (case name of
        None \<Rightarrow> True
      | Some v \<Rightarrow> (case XMLNode_Value n of Some w \<Rightarrow> StringEqual w v INT_MAX | None \<Rightarrow> False))"

fun FirstChildElement :: "string option \<Rightarrow> xml_node list \<Rightarrow> (xml_node \<times> xml_node list) option" where
  \<comment> \<open>the element and the siblings behind it\<close>
  "FirstChildElement name [] = None"
| "FirstChildElement name (node # rest) =
     (if is_element node \<and> is_named name node then Some (node, rest) else FirstChildElement name rest)"

fun NextSiblingElement :: "string option \<Rightarrow> xml_node list \<Rightarrow> (xml_node \<times> xml_node list) option" where
  \<comment> \<open>on the siblings behind the node\<close>
  "NextSiblingElement name [] = None"
| "NextSiblingElement name (node # rest) =
     (if is_element node \<and> is_named name node then Some (node, rest) else NextSiblingElement name rest)"

definition RootElement :: "xml_document \<Rightarrow> xml_node option" where
  "RootElement doc = map_option fst (FirstChildElement None (doc_children doc))"

fun FindAttribute :: "string \<Rightarrow> xml_attribute list \<Rightarrow> xml_attribute option" where
  "FindAttribute name [] = None"
| "FindAttribute name (a # as) =
     (case GetStr (at_name a) of
        Some n \<Rightarrow> if StringEqual n name INT_MAX then Some a else FindAttribute name as
      | None \<Rightarrow> FindAttribute name as)"

section \<open>Parsing the leaves\<close>

definition Identify :: "string \<Rightarrow> string \<times> xml_node option" where
  "Identify p =
     (let q = SkipWhiteSpace p in
      if q = [] then (q, None)
      else if StringEqual q ''<?'' 2 then (drop 2 q, Some (XMLDeclaration str_pair_new))
      else if StringEqual q ''<!--'' 4 then (drop 4 q, Some (XMLComment str_pair_new))
      else if StringEqual q ''<![CDATA['' 9 then (drop 9 q, Some (XMLText True str_pair_new))
      else if StringEqual q ''<!'' 2 then (drop 2 q, Some (XMLUnknown str_pair_new))
      else if StringEqual q ''<'' 1 then (drop 1 q, Some (XMLElement str_pair_new OPEN [] []))
      else (p, Some (XMLText False str_pair_new)))"

definition report :: "XMLError \<Rightarrow> string \<Rightarrow> string option \<Rightarrow> xml_document \<Rightarrow> xml_document" where
  "report err start p doc = (if p = None then xml_SetError err (Some start) None doc else doc)"

definition text_ParseDeep :: "bool \<Rightarrow> str_pair \<Rightarrow> string \<Rightarrow> xml_document \<Rightarrow> string option \<times> xml_node \<times> xml_document" where
  "text_ParseDeep cdata v p doc =
     (if cdata then
        (let (p', v') = ParseText p '']]>'' NEEDS_NEWLINE_NORMALIZATION v
         in (p', XMLText True v', report XML_ERROR_PARSING_CDATA p p' doc))
      else
        (let flags = or (if doc_processEntities doc then TEXT_ELEMENT else TEXT_ELEMENT_LEAVE_ENTITIES)
                        (if doc_collapse doc then COLLAPSE_WHITESPACE else 0);
             (p', v') = ParseText p ''<'' flags v
         in (case p' of Some (c # r) \<Rightarrow> Some (CHR ''<'' # c # r) | _ \<Rightarrow> None,
             XMLText False v', report XML_ERROR_PARSING_TEXT p p' doc)))"

definition comment_ParseDeep :: "str_pair \<Rightarrow> string \<Rightarrow> xml_document \<Rightarrow> string option \<times> xml_node \<times> xml_document" where
  "comment_ParseDeep v p doc =
     (let (p', v') = ParseText p ''-->'' NEEDS_NEWLINE_NORMALIZATION v
      in (p', XMLComment v', report XML_ERROR_PARSING_COMMENT p p' doc))"

definition declaration_ParseDeep :: "str_pair \<Rightarrow> string \<Rightarrow> xml_document \<Rightarrow> string option \<times> xml_node \<times> xml_document" where
  "declaration_ParseDeep v p doc =
     (let (p', v') = ParseText p ''?>'' NEEDS_NEWLINE_NORMALIZATION v
      in (p', XMLDeclaration v', report XML_ERROR_PARSING_DECLARATION p p' doc))"

definition unknown_ParseDeep :: "str_pair \<Rightarrow> string \<Rightarrow> xml_document \<Rightarrow> string option \<times> xml_node \<times> xml_document" where
  "unknown_ParseDeep v p doc =
     (let (p', v') = ParseText p ''>'' NEEDS_NEWLINE_NORMALIZATION v
      in (p', XMLUnknown v', report XML_ERROR_PARSING_UNKNOWN p p' doc))"

fun leaf_ParseDeep :: "xml_node \<Rightarrow> string \<Rightarrow> xml_document \<Rightarrow> string option \<times> xml_node \<times> xml_document" where
  "leaf_ParseDeep (XMLText cdata v) p doc = text_ParseDeep cdata v p doc"
| "leaf_ParseDeep (XMLComment v) p doc = comment_ParseDeep v p doc"
| "leaf_ParseDeep (XMLDeclaration v) p doc = declaration_ParseDeep v p doc"
| "leaf_ParseDeep (XMLUnknown v) p doc = unknown_ParseDeep v p doc"
| "leaf_ParseDeep n p doc = (Some p, n, doc)" \<comment> \<open>not used for elements\<close>

lemmas leaf_defs = text_ParseDeep_def comment_ParseDeep_def declaration_ParseDeep_def unknown_ParseDeep_def

section \<open>Attributes\<close>

definition attribute_ParseDeep :: "bool \<Rightarrow> string \<Rightarrow> string option \<times> xml_attribute" where
  "attribute_ParseDeep processEntities p =
     (let none = \<lparr>at_name = str_pair_new, at_value = str_pair_new\<rparr>; (p1, name) = ParseName p str_pair_new in
      case p1 of
        Some (c # r) \<Rightarrow>
          (case SkipWhiteSpace (c # r) of
             CHR ''='' # r1 \<Rightarrow>
               (case SkipWhiteSpace r1 of
                  quote # r2 \<Rightarrow>
                    if quote = CHR 0x22 \<or> quote = CHR 0x27
                    then (let (p2, value) =
                                ParseText r2 [quote]
                                  (if processEntities then TEXT_ELEMENT else TEXT_ELEMENT_LEAVE_ENTITIES) str_pair_new
                          in (p2, \<lparr>at_name = name, at_value = value\<rparr>))
                    else (None, none)
                | [] \<Rightarrow> (None, none))
           | _ \<Rightarrow> (None, none))
      | _ \<Rightarrow> (None, none))"

definition start_string :: "string \<Rightarrow> xml_attribute list \<Rightarrow> string" where
  \<comment> \<open>the C string at \<open>start\<close>: once there is an attribute, reading its name has put a NUL behind the name\<close>
  "start_string start as =
     (case as of
        [] \<Rightarrow> start
      | a # _ \<Rightarrow> take (length start - length (SkipWhiteSpace start) + length (sp_text (at_name a))) start)"

lemma ParseText_shorter:
  "ParseText p endTag flags sp = (Some r, v) \<Longrightarrow> endTag \<noteq> [] \<Longrightarrow> length r < length p"
proof -
  have "find_tag endTag p = Some (a, b) \<Longrightarrow> endTag \<noteq> [] \<Longrightarrow> length b < length p" for a b
  proof (induction p arbitrary: a)
    case (Cons c p)
    have "length (drop (length endTag) (c # p)) < length (c # p)" using Cons.prems(2) by (cases endTag) auto
    with Cons show ?case by (auto split: if_splits)
  qed simp
  then show "ParseText p endTag flags sp = (Some r, v) \<Longrightarrow> endTag \<noteq> [] \<Longrightarrow> length r < length p"
    by (auto simp: ParseText_def split: option.splits)
qed

lemma SkipWhiteSpace_le: "length (SkipWhiteSpace p) \<le> length p"
  by (simp add: SkipWhiteSpace_def length_dropWhile_le)

lemma ParseName_shorter: "ParseName p sp = (Some r, v) \<Longrightarrow> length r < length p"
  by (cases p) (auto simp: ParseName_def Let_def split: if_splits)

lemma attribute_shorter:
  assumes "attribute_ParseDeep pe p = (Some r, a)" shows "length r < length p"
proof -
  obtain p1 name where n: "ParseName p str_pair_new = (p1, name)" by fastforce
  with assms obtain s where s: "p1 = Some s" "s \<noteq> []"
    by (auto simp: attribute_ParseDeep_def Let_def split: option.splits list.splits)
  have 1: "length s < length p" using ParseName_shorter n s by blast
  from assms n s obtain r1 where r1: "SkipWhiteSpace s = CHR ''='' # r1"
    by (auto simp: attribute_ParseDeep_def Let_def split: list.splits char.splits bool.splits)
  have 2: "length r1 < length s" using SkipWhiteSpace_le [of s] by (simp add: r1)
  from assms n s r1 obtain quo r2 where r2: "SkipWhiteSpace r1 = quo # r2"
    by (auto simp: attribute_ParseDeep_def Let_def split: list.splits)
  have 3: "length r2 < length r1" using SkipWhiteSpace_le [of r1] by (simp add: r2)
  from assms n s r1 r2 obtain fl v where "ParseText r2 [quo] fl str_pair_new = (Some r, v)"
    by (auto simp: attribute_ParseDeep_def Let_def split: list.splits if_splits prod.splits)
  then have "length r < length r2" by (rule ParseText_shorter) simp
  with 1 2 3 show ?thesis by simp
qed


text \<open>\<open>as\<close> are the attributes read so far; the result has where the tag ended, the closing type and all attributes.\<close>

function ParseAttributes_loop ::
  "string \<Rightarrow> str_pair \<Rightarrow> xml_attribute list \<Rightarrow> closing_type \<Rightarrow> string \<Rightarrow> xml_document
    \<Rightarrow> (string option \<times> closing_type \<times> xml_attribute list \<times> xml_document) option" where
  "ParseAttributes_loop start name as ct p doc =
     (case SkipWhiteSpace p of
        [] \<Rightarrow> map_option (\<lambda>n. (None, ct, as, xml_SetError XML_ERROR_PARSING_ELEMENT (Some []) (Some n) doc)) (GetStr name)
      | c # r \<Rightarrow>
          if IsNameStartChar c then
            (case attribute_ParseDeep (doc_processEntities doc) (c # r) of
               (None, a) \<Rightarrow>
                 Some (None, ct, as, xml_SetError XML_ERROR_PARSING_ATTRIBUTE (Some (start_string start as)) None doc)
             | (Some p', a) \<Rightarrow>
                 (case GetStr (at_name a) of
                    None \<Rightarrow> None
                  | Some n \<Rightarrow>
                      (case FindAttribute n as of
                         Some b \<Rightarrow>
                           map_option (\<lambda>_. (None, ct, as, xml_SetError XML_ERROR_PARSING_ATTRIBUTE
                                              (Some (start_string start as)) (Some p') doc)) (GetStr (at_value b))
                       | None \<Rightarrow> ParseAttributes_loop start name (as @ [a]) ct p' doc)))
          else if c = CHR ''/'' \<and> take 1 r = ''>'' then Some (Some (drop 1 r), CLOSED, as, doc)
          else if c = CHR ''>'' then Some (Some r, ct, as, doc)
          else Some (None, ct, as, xml_SetError XML_ERROR_PARSING_ELEMENT (Some (start_string start as)) (Some (c # r)) doc))"
  by pat_completeness auto
termination
proof (relation "measure (\<lambda>(start, name, as, ct, p, doc). length p)", goal_cases)
  case (2 start name as ct p doc c r pr a p' n)
  have "length p' < length (c # r)" using 2(3,4) by (metis attribute_shorter)
  moreover have "length (c # r) \<le> length p" using SkipWhiteSpace_le [of p] 2(1) by simp
  ultimately show ?case by simp
qed simp_all

declare ParseAttributes_loop.simps [simp del]

lemma ParseAttributes_shorter:
  "ParseAttributes_loop start name as ct p doc = Some (Some r, z) \<Longrightarrow> length r < length p"
proof (induction start name as ct p doc arbitrary: r z rule: ParseAttributes_loop.induct)
  case (1 start name as ct p doc)
  obtain c s where cs: "SkipWhiteSpace p = c # s"
    using 1(2) by (cases "SkipWhiteSpace p") (auto simp: ParseAttributes_loop.simps [of start name as ct p doc])
  have le: "length (c # s) \<le> length p" using SkipWhiteSpace_le [of p] by (simp add: cs)
  show ?case
  proof (cases "IsNameStartChar c")
    case True
    obtain pr a where pr: "attribute_ParseDeep (doc_processEntities doc) (c # s) = (pr, a)" by fastforce
    with 1(2) cs True obtain p' n where p': "pr = Some p'" and n: "GetStr (at_name a) = Some n"
      and f: "FindAttribute n as = None"
      and rec: "ParseAttributes_loop start name (as @ [a]) ct p' doc = Some (Some r, z)"
      by (auto simp: ParseAttributes_loop.simps [of start name as ct p doc] split: option.splits)
    have "length r < length p'" using 1(1) [OF cs True pr [symmetric] p' n f rec] pr p' by simp
    moreover have "length p' < length (c # s)" using attribute_shorter pr p' by blast
    ultimately show ?thesis using le by simp
  next
    case False
    with 1(2) cs have "length r \<le> length s"
      by (auto simp: ParseAttributes_loop.simps [of start name as ct p doc] split: if_splits)
    with le show ?thesis by simp
  qed
qed

section \<open>Elements\<close>

definition element_open ::
  "string \<Rightarrow> xml_document \<Rightarrow> (string option \<times> str_pair \<times> closing_type \<times> xml_attribute list \<times> xml_document) option" where
  \<comment> \<open>\<open>XMLElement::ParseDeep\<close> up to the children\<close>
  "element_open p doc =
     (let q = SkipWhiteSpace p;
          ct = (if take 1 q = ''/'' then CLOSING else OPEN);
          (p1, name) = ParseName (if take 1 q = ''/'' then drop 1 q else q) str_pair_new
      in case p1 of
           None \<Rightarrow> Some (None, name, ct, [], doc)
         | Some s \<Rightarrow> map_option (\<lambda>(p2, ct', as, doc'). (p2, name, ct', as, doc'))
                       (ParseAttributes_loop s name [] ct s doc))"

lemma element_open_shorter:
  assumes "element_open p doc = Some (Some r, z)" shows "length r < length p"
proof -
  let ?q = "SkipWhiteSpace p" and ?u = "if take 1 (SkipWhiteSpace p) = ''/'' then drop 1 (SkipWhiteSpace p) else SkipWhiteSpace p"
  obtain p1 name where n: "ParseName ?u str_pair_new = (p1, name)" by fastforce
  with assms obtain s where s: "p1 = Some s"
    by (auto simp: element_open_def Let_def split: option.splits)
  obtain y where "ParseAttributes_loop s name [] (if take 1 ?q = ''/'' then CLOSING else OPEN) s doc = Some (Some r, y)"
    using assms n s by (auto simp: element_open_def Let_def split: prod.splits)
  then have "length r < length s" by (rule ParseAttributes_shorter)
  moreover have "length s < length ?u" using ParseName_shorter n s by blast
  moreover have "length ?u \<le> length ?q" by simp
  ultimately show ?thesis using SkipWhiteSpace_le [of p] by linarith
qed

lemma Identify_le: "Identify p = (q, node) \<Longrightarrow> length q \<le> length p"
  using SkipWhiteSpace_le [of p] by (auto simp: Identify_def Let_def split: if_splits)

lemma Identify_element: "Identify p = (q, Some (XMLElement v ct as kids)) \<Longrightarrow> length q < length p \<and> ct = OPEN \<and> as = [] \<and> kids = []"
  using SkipWhiteSpace_le [of p] by (cases "SkipWhiteSpace p") (auto simp: Identify_def Let_def split: if_splits)


lemma find_tag_split: "find_tag endTag p = Some (a, b) \<Longrightarrow> endTag \<noteq> [] \<Longrightarrow> p = a @ endTag @ b"
proof (induction p arbitrary: a)
  case (Cons c p)
  show ?case
  proof (cases "take (length endTag) (c # p) = endTag")
    case True
    with Cons.prems have "a = []" "b = drop (length endTag) (c # p)" by auto
    with True show ?thesis by (metis append_Nil append_take_drop_id)
  qed (use Cons in auto)
qed simp

lemma text_piece_nonempty:
  assumes "Identify p = (q, Some (XMLText False v))" and "find_tag ''<'' p = Some (a, b)"
  shows "a \<noteq> []"
proof
  assume "a = []"
  with assms(2) have p: "p = CHR ''<'' # b" using find_tag_split [of "''<''" p a b] by simp
  have "SkipWhiteSpace p = p" by (simp add: p SkipWhiteSpace_def IsWhiteSpace_def c_isspace_def)
  with assms(1) show False by (auto simp: Identify_def Let_def p split: if_splits)
qed

lemma leaf_shorter:
  assumes i: "Identify p = (q, Some leaf)" and e: "\<not> is_element leaf"
    and l: "leaf_ParseDeep leaf q doc = (Some r, z)"
  shows "length r < length p"
proof -
  have q: "length q \<le> length p" using Identify_le i by blast
  have r: "length r < length q" if "leaf \<noteq> XMLText False str_pair_new"
  proof -
    have "\<not> (\<exists>v. leaf = XMLText False v)" using that i by (auto simp: Identify_def Let_def split: if_splits)
    then obtain flags v endTag where "endTag \<noteq> []" "\<exists>v'. ParseText q endTag flags v = (Some r, v')"
      using l e by (cases "(leaf, q, doc)" rule: leaf_ParseDeep.cases) (auto simp: leaf_defs split: prod.splits if_splits)
    then show ?thesis using ParseText_shorter by blast
  qed
  show ?thesis
  proof (cases "leaf = XMLText False str_pair_new")
    case True
    with i have qp: "q = p" by (auto simp: Identify_def Let_def split: if_splits)
    from l True obtain c s v' flags where t: "ParseText p ''<'' flags str_pair_new = (Some (c # s), v')"
      and rs: "r = CHR ''<'' # c # s"
      by (auto simp: leaf_defs qp Let_def split: prod.splits option.splits list.splits)
    then obtain a where f: "find_tag ''<'' p = Some (a, c # s)" by (auto simp: ParseText_def split: option.splits)
    have "a \<noteq> []" using text_piece_nonempty [OF _ f] i by (simp add: True)
    moreover have "p = a @ ''<'' @ c # s" by (rule find_tag_split [OF f]) simp
    ultimately show ?thesis by (cases a) (auto simp: rs)
  qed (use r q in simp)
qed

section \<open>The tree\<close>

definition end_matches :: "str_pair \<Rightarrow> closing_type \<Rightarrow> str_pair \<Rightarrow> bool" where
  "end_matches name ct endTag =
     (if sp_Empty endTag then ct \<noteq> OPEN
      else if ct \<noteq> OPEN then False
      else (case (GetStr endTag, GetStr name) of (Some e, Some v) \<Rightarrow> StringEqual e v INT_MAX | _ \<Rightarrow> False))"

text \<open>
  The loop of \<open>XMLNode::ParseDeep\<close>, with \<open>XMLElement::ParseDeep\<close> in its turn for an element: \<open>kids\<close> are the
  children so far. The result has the position behind, the end tag for the parent and the children.
\<close>

function ParseDeep ::
  "xml_node list \<Rightarrow> xml_document \<Rightarrow> string \<Rightarrow> (string option \<times> str_pair \<times> xml_node list \<times> xml_document) option" where
  "ParseDeep kids doc p =
     (if p = [] then Some (None, str_pair_new, kids, doc)
      else case Identify p of
        (q, None) \<Rightarrow> Some (None, str_pair_new, kids, doc)
      | (q, Some node) \<Rightarrow>
          let stop = (\<lambda>doc'. Some (None, str_pair_new, kids,
                        if xml_Error doc' then doc' else xml_SetError XML_ERROR_PARSING None None doc'))
          in if is_element node then
               (case element_open q doc of
                  None \<Rightarrow> None
                | Some (p1, name, ct, as, doc1) \<Rightarrow>
                    (case (if p1 = None \<or> p1 = Some [] \<or> ct \<noteq> OPEN then Some (p1, str_pair_new, [], doc1)
                           else ParseDeep [] doc1 (the p1)) of
                       None \<Rightarrow> None
                     | Some (None, endTag, kids1, doc2) \<Rightarrow> stop doc2
                     | Some (Some r, endTag, kids1, doc2) \<Rightarrow>
                         if ct = CLOSING then Some (Some r, name, kids, doc2)
                         else if end_matches name ct endTag
                         then ParseDeep (kids @ [XMLElement name ct as kids1]) doc2 r
                         else Some (None, str_pair_new, kids,
                                xml_SetError XML_ERROR_MISMATCHED_ELEMENT (GetStr name) None doc2)))
             else
               (case leaf_ParseDeep node q doc of
                  (None, node', doc1) \<Rightarrow> stop doc1
                | (Some r, node', doc1) \<Rightarrow> ParseDeep (kids @ [node']) doc1 r))"
  by pat_completeness auto

lemma element_node_shorter:
  "Identify p = (q, Some node) \<Longrightarrow> is_element node \<Longrightarrow> length q < length p"
  by (cases node) (auto dest: Identify_element)

text \<open>An element ends behind its beginning, if the children it has end behind theirs.\<close>

lemma inner_shorter:
  assumes i: "Identify p = (q, Some node)" and e: "is_element node"
    and o: "element_open q doc = Some (p1, name, ct, as, doc1)"
    and inner: "(if p1 = None \<or> p1 = Some [] \<or> ct \<noteq> OPEN then Some (p1, str_pair_new, [], doc1)
                 else ParseDeep [] doc1 (the p1)) = Some (Some s, z)"
    and kids: "\<And>s1. \<not> (p1 = None \<or> p1 = Some [] \<or> ct \<noteq> OPEN) \<Longrightarrow> ParseDeep [] doc1 (the p1) = Some (Some s1, z)
      \<Longrightarrow> length s1 \<le> length (the p1)"
  shows "length s < length p"
proof -
  have "length s < length q"
  proof (cases "p1 = None \<or> p1 = Some [] \<or> ct \<noteq> OPEN")
    case True
    with inner have "p1 = Some s" by simp
    with o show ?thesis using element_open_shorter by blast
  next
    case False
    then obtain s1 where s1: "p1 = Some s1" by auto
    with inner False kids [OF False] have "length s \<le> length s1" by simp
    moreover have "length s1 < length q" using element_open_shorter o s1 by blast
    ultimately show ?thesis by simp
  qed
  with element_node_shorter [OF i e] show ?thesis by simp
qed

lemma ParseDeep_le:
  "ParseDeep_dom (kids, doc, p) \<Longrightarrow> ParseDeep kids doc p = Some (Some r, z) \<Longrightarrow> length r \<le> length p"
proof (induction kids doc p arbitrary: r z rule: ParseDeep.pinduct)
  case (1 kids doc p)
  note simps = ParseDeep.psimps [OF 1(1)]
  have p: "p \<noteq> []" using 1(5) by (auto simp: simps)
  obtain q n where i: "Identify p = (q, n)" by fastforce
  then obtain node where n: "n = Some node" using 1(5) p by (cases n) (auto simp: simps)
  note i' = i [unfolded n]
  show ?case
  proof (cases "is_element node")
    case True
    obtain p1 name ct as doc1 where o: "element_open q doc = Some (p1, name, ct, as, doc1)"
      using 1(5) p i' True by (cases "element_open q doc") (auto simp: simps)
    let ?inner = "if p1 = None \<or> p1 = Some [] \<or> ct \<noteq> OPEN then Some (p1, str_pair_new, [], doc1)
                  else ParseDeep [] doc1 (the p1)"
    obtain s endTag kids1 doc2 where inner: "?inner = Some (Some s, endTag, kids1, doc2)"
    proof (cases ?inner)
      case (Some y)
      obtain p2 e k d where y: "y = (p2, e, k, d)" by (cases y) auto
      show ?thesis
      proof (cases p2)
        case None
        with 1(5) p i' True o Some y show ?thesis by (simp add: simps)
      qed (use Some y that in auto)
    qed (use 1(5) p i' True o in \<open>simp add: simps\<close>)
    have "length s < length p"
      using 1(2) [OF p i' [symmetric] refl refl True o refl refl refl refl]
      by (intro inner_shorter [OF i' True o inner]) auto
    moreover have "length r \<le> length s"
    proof (cases "ct = CLOSING")
      case True
      with 1(5) p i' \<open>is_element node\<close> o inner show ?thesis by (simp add: simps)
    next
      case False
      then have m: "end_matches name ct endTag"
        and rec: "ParseDeep (kids @ [XMLElement name ct as kids1]) doc2 s = Some (Some r, z)"
        using 1(5) p i' True o inner by (auto simp: simps split: if_splits)
      from 1(3) [OF p i' [symmetric] refl refl True o refl refl refl refl inner refl refl refl refl False m rec]
      show ?thesis .
    qed
    ultimately show ?thesis by simp
  next
    case False
    obtain s node' doc1 where l: "leaf_ParseDeep node q doc = (Some s, node', doc1)"
      using 1(5) p i' False by (cases "leaf_ParseDeep node q doc"; cases "fst (leaf_ParseDeep node q doc)") (auto simp: simps)
    have "length s < length p" using leaf_shorter i' False l by blast
    moreover have "ParseDeep (kids @ [node']) doc1 s = Some (Some r, z)" using 1(5) p i' False l by (simp add: simps)
    then have "length r \<le> length s" using 1(4) [OF p i' [symmetric] refl refl False l [symmetric] refl] by auto
    ultimately show ?thesis by simp
  qed
qed

termination ParseDeep
proof (relation "measure (\<lambda>(kids, doc, p). length p)", goal_cases)
  case (2 kids doc p q no node stop h p1 j name l ct n as doc1)
  then have i: "Identify p = (q, Some node)" and e: "is_element node"
    and o: "element_open q doc = Some (p1, name, ct, as, doc1)" by simp_all
  from 2 obtain s where s: "p1 = Some s" by auto
  have "length q < length p" by (rule element_node_shorter [OF i e])
  moreover have "length s < length q" using element_open_shorter o s by blast
  ultimately show ?case by (simp add: s)
next
  case (3 kids doc p q no node stop h p1 j name l ct n as doc1 qq rr ss r endTag vv kids1 doc2)
  then have i: "Identify p = (q, Some node)" and e: "is_element node"
    and o: "element_open q doc = Some (p1, name, ct, as, doc1)"
    and inner: "(if p1 = None \<or> p1 = Some [] \<or> ct \<noteq> OPEN then Some (p1, str_pair_new, [], doc1)
                 else ParseDeep [] doc1 (the p1)) = Some (Some r, endTag, kids1, doc2)" by simp_all
  have "length r < length p"
    using 3 ParseDeep_le by (intro inner_shorter [OF i e o inner]) blast
  then show ?case by simp
next
  case (4 kids doc p q no node stop h y r node' doc1)
  then have "Identify p = (q, Some node)" "leaf_ParseDeep node q doc = (Some r, node', doc1)" by simp_all
  then have "length r < length p" using leaf_shorter 4 by blast
  then show ?case by simp
qed simp

declare ParseDeep.simps [simp del]

section \<open>Documents\<close>

definition ParseDocument :: "bytes \<Rightarrow> xml_document \<Rightarrow> xml_document option" where
  \<comment> \<open>the end of \<open>Parse\<close> and \<open>LoadFile\<close>, on the C string in the buffer\<close>
  "ParseDocument buf doc =
     (let (p, writeBOM) = ReadBOM (SkipWhiteSpace buf); doc1 = doc\<lparr>doc_writeBOM := writeBOM\<rparr>
      in if p = [] then Some (xml_SetError XML_ERROR_EMPTY_DOCUMENT None None doc1)
         else map_option (\<lambda>(_, _, kids, doc2). doc2\<lparr>doc_children := kids\<rparr>) (ParseDeep [] doc1 p))"

definition XMLDocument_Parse :: "string option \<Rightarrow> xml_document \<Rightarrow> xml_document option" where
  \<comment> \<open>with the default length; the pointer may be NULL, the return value is \<open>doc_errorID\<close>\<close>
  "XMLDocument_Parse p doc =
     (case p of
        None \<Rightarrow> Some (xml_SetError XML_ERROR_EMPTY_DOCUMENT None None (xml_Clear doc))
      | Some s \<Rightarrow>
          if c_str s = [] then Some (xml_SetError XML_ERROR_EMPTY_DOCUMENT None None (xml_Clear doc))
          else ParseDocument (c_str s) (xml_Clear doc))"

datatype file_data = FileMissing | FileUnreadable | FileContents bytes

definition XMLDocument_LoadFile :: "string \<Rightarrow> file_data \<Rightarrow> xml_document \<Rightarrow> xml_document option" where
  "XMLDocument_LoadFile filename file doc =
     (case file of
        FileMissing \<Rightarrow> Some (xml_SetError XML_ERROR_FILE_NOT_FOUND (Some (c_str filename)) None (xml_Clear doc))
      | FileUnreadable \<Rightarrow> Some (xml_SetError XML_ERROR_FILE_READ_ERROR None None (xml_Clear doc))
      | FileContents bs \<Rightarrow>
          if bs = [] then Some (xml_SetError XML_ERROR_EMPTY_DOCUMENT None None (xml_Clear doc))
          else ParseDocument (c_str bs) (xml_Clear doc))"

end
