(* ===== verification/XmlPrinter.thy ===== *)
theory XmlPrinter
  imports XmlParse
begin

text \<open>
  The printer of the XML library (\<open>XMLPrinter\<close> of frame/tinyxml2/tinyxml2.h and .cpp) when it prints into
  memory, and the visits of the tree that drive it. The buffer is the text without its final NUL. Its
  \<open>Visit\<close> functions all return true, so no visit ends early.

  \<open>None\<close> is the undefined behaviour of reading a malformed character reference.
\<close>

section \<open>The printer\<close>

record xml_printer =
  pr_elementJustOpened :: bool
  pr_firstElement :: bool
  pr_depth :: int
  pr_textDepth :: int
  pr_processEntities :: bool
  pr_compactMode :: bool
  pr_stack :: "string list"
  pr_buffer :: string

definition xml_printer_new :: "bool \<Rightarrow> int \<Rightarrow> xml_printer" where
  "xml_printer_new compact depth =
     \<lparr>pr_elementJustOpened = False, pr_firstElement = True, pr_depth = depth, pr_textDepth = - 1,
      pr_processEntities = True, pr_compactMode = compact, pr_stack = [], pr_buffer = []\<rparr>"

definition ENTITY_RANGE :: nat where "ENTITY_RANGE = 64"

definition entity_flag :: "bool \<Rightarrow> char \<Rightarrow> bool" where
  "entity_flag restricted c =
     (if restricted then c = CHR ''&'' \<or> c = CHR ''<'' \<or> c = CHR ''>'' else c \<in> snd ` set entities)"

definition pr_Print :: "string \<Rightarrow> xml_printer \<Rightarrow> xml_printer" where
  "pr_Print s pr = pr\<lparr>pr_buffer := pr_buffer pr @ s\<rparr>"

definition PrintSpace :: "int \<Rightarrow> xml_printer \<Rightarrow> xml_printer" where
  "PrintSpace depth pr = (pr_Print ''    '' ^^ nat depth) pr"

fun escape :: "bool \<Rightarrow> string \<Rightarrow> string" where
  \<comment> \<open>the loop of \<open>PrintString\<close>: the runs between the entities are printed as they are\<close>
  "escape restricted [] = []"
| "escape restricted (c # q) =
     (if 0 < (of_char c :: nat) \<and> (of_char c :: nat) < ENTITY_RANGE \<and> entity_flag restricted c
      then (case find (\<lambda>e. snd e = c) entities of
              Some e \<Rightarrow> CHR ''&'' # fst e @ '';''
            | None \<Rightarrow> []) @ escape restricted q
      else c # escape restricted q)"

declare escape.simps(2) [simp del]

definition PrintString :: "string \<Rightarrow> bool \<Rightarrow> xml_printer \<Rightarrow> xml_printer" where
  "PrintString p restricted pr =
     pr_Print (if pr_processEntities pr then escape restricted p else p) pr"

definition SealElement :: "xml_printer \<Rightarrow> xml_printer" where
  "SealElement pr = pr_Print ''>'' (pr\<lparr>pr_elementJustOpened := False\<rparr>)"

definition seal_open :: "xml_printer \<Rightarrow> xml_printer" where
  "seal_open pr = (if pr_elementJustOpened pr then SealElement pr else pr)"

definition OpenElement :: "string \<Rightarrow> bool \<Rightarrow> xml_printer \<Rightarrow> xml_printer" where
  "OpenElement name compactMode pr =
     (let pr1 = seal_open pr;
          pr2 = pr1\<lparr>pr_stack := name # pr_stack pr1\<rparr>;
          pr3 = (if pr_textDepth pr2 < 0 \<and> \<not> pr_firstElement pr2 \<and> \<not> compactMode then pr_Print [LF] pr2 else pr2);
          pr4 = (if compactMode then pr3 else PrintSpace (pr_depth pr3) pr3);
          pr5 = pr_Print (CHR ''<'' # name) pr4
      in pr5\<lparr>pr_elementJustOpened := True, pr_firstElement := False, pr_depth := pr_depth pr5 + 1\<rparr>)"

definition PushAttribute :: "string \<Rightarrow> string \<Rightarrow> xml_printer \<Rightarrow> xml_printer" where
  "PushAttribute name value pr =
     pr_Print [CHR 0x22] (PrintString value False (pr_Print (SP # name @ [CHR ''='', CHR 0x22]) pr))"

definition CloseElement :: "bool \<Rightarrow> xml_printer \<Rightarrow> xml_printer" where
  "CloseElement compactMode pr =
     (let pr1 = pr\<lparr>pr_depth := pr_depth pr - 1, pr_stack := tl (pr_stack pr)\<rparr>; name = hd (pr_stack pr);
          pr2 = (if pr_elementJustOpened pr1 then pr_Print ''/>'' pr1
                 else pr_Print (''</'' @ name @ ''>'')
                        (if pr_textDepth pr1 < 0 \<and> \<not> compactMode
                         then PrintSpace (pr_depth pr1) (pr_Print [LF] pr1) else pr1));
          pr3 = (if pr_textDepth pr2 = pr_depth pr2 then pr2\<lparr>pr_textDepth := - 1\<rparr> else pr2);
          pr4 = (if pr_depth pr3 = 0 \<and> \<not> compactMode then pr_Print [LF] pr3 else pr3)
      in pr4\<lparr>pr_elementJustOpened := False\<rparr>)"

definition PushText :: "string \<Rightarrow> bool \<Rightarrow> xml_printer \<Rightarrow> xml_printer" where
  "PushText str cdata pr =
     (let pr1 = seal_open (pr\<lparr>pr_textDepth := pr_depth pr - 1\<rparr>)
      in if cdata then pr_Print '']]>'' (pr_Print str (pr_Print ''<![CDATA['' pr1))
         else PrintString str True pr1)"

definition push_line :: "string \<Rightarrow> xml_printer \<Rightarrow> xml_printer" where
  \<comment> \<open>the common body of \<open>PushComment\<close>, \<open>PushDeclaration\<close> and \<open>PushUnknown\<close>\<close>
  "push_line s pr =
     (let pr1 = seal_open pr;
          pr2 = (if pr_textDepth pr1 < 0 \<and> \<not> pr_firstElement pr1 \<and> \<not> pr_compactMode pr1
                 then PrintSpace (pr_depth pr1) (pr_Print [LF] pr1) else pr1)
      in pr_Print s (pr2\<lparr>pr_firstElement := False\<rparr>))"

definition PushComment :: "string \<Rightarrow> xml_printer \<Rightarrow> xml_printer" where
  "PushComment comment = push_line (''<!--'' @ comment @ ''-->'')"

definition PushDeclaration :: "string \<Rightarrow> xml_printer \<Rightarrow> xml_printer" where
  "PushDeclaration value = push_line (''<?'' @ value @ ''?>'')"

definition PushUnknown :: "string \<Rightarrow> xml_printer \<Rightarrow> xml_printer" where
  "PushUnknown value = push_line (''<!'' @ value @ ''>'')"

definition PushHeader :: "bool \<Rightarrow> bool \<Rightarrow> xml_printer \<Rightarrow> xml_printer" where
  "PushHeader writeBOM writeDec pr =
     (let pr1 = (if writeBOM then pr_Print TIXML_UTF_LEAD pr else pr)
      in if writeDec then PushDeclaration (''xml version='' @ [CHR 0x22] @ ''1.0'' @ [CHR 0x22]) pr1 else pr1)"

section \<open>Visits\<close>

fun push_attributes :: "xml_attribute list \<Rightarrow> xml_printer \<Rightarrow> xml_printer option" where
  \<comment> \<open>the loop of \<open>VisitEnter\<close>\<close>
  "push_attributes [] pr = Some pr"
| "push_attributes (a # as) pr = do {
     name \<leftarrow> GetStr (at_name a);
     value \<leftarrow> GetStr (at_value a);
     push_attributes as (PushAttribute name value pr)
   }"

definition VisitEnter_element :: "xml_node \<Rightarrow> xml_attribute list \<Rightarrow> xml_printer \<Rightarrow> xml_printer option" where
  "VisitEnter_element element as pr = do {
     name \<leftarrow> XMLNode_Value element;
     push_attributes as (OpenElement name (pr_compactMode pr) pr)
   }"

fun Accept :: "xml_node \<Rightarrow> xml_printer \<Rightarrow> xml_printer option"
  and Accept_children :: "xml_node list \<Rightarrow> xml_printer \<Rightarrow> xml_printer option" where
  "Accept (XMLText cdata v) pr = map_option (\<lambda>s. PushText s cdata pr) (GetStr v)"
| "Accept (XMLComment v) pr = map_option (\<lambda>s. PushComment s pr) (GetStr v)"
| "Accept (XMLDeclaration v) pr = map_option (\<lambda>s. PushDeclaration s pr) (GetStr v)"
| "Accept (XMLUnknown v) pr = map_option (\<lambda>s. PushUnknown s pr) (GetStr v)"
| "Accept (XMLElement v ct as kids) pr = do {
     pr1 \<leftarrow> VisitEnter_element (XMLElement v ct as kids) as pr;
     pr2 \<leftarrow> Accept_children kids pr1;
     Some (CloseElement (pr_compactMode pr2) pr2)
   }"
| "Accept_children [] pr = Some pr"
| "Accept_children (n # ns) pr = Option.bind (Accept n pr) (Accept_children ns)"

definition InnerAccept :: "xml_node \<Rightarrow> xml_printer \<Rightarrow> xml_printer option" where
  "InnerAccept element pr = Accept_children (node_children element) pr"

definition XMLDocument_Accept :: "xml_document \<Rightarrow> xml_printer \<Rightarrow> xml_printer option" where
  "XMLDocument_Accept doc pr =
     (let pr1 = pr\<lparr>pr_processEntities := doc_processEntities doc\<rparr>
      in Accept_children (doc_children doc) (if doc_writeBOM doc then PushHeader True False pr1 else pr1))"

definition CStr :: "xml_printer \<Rightarrow> string" where
  "CStr pr = c_str (pr_buffer pr)"

end
