(* ===== verification/XmlTextProps.thy ===== *)
theory XmlTextProps
  imports XmlPrinter
begin

text \<open>
  Reading a string pair: the loop of \<open>GetStr\<close>, which converts the text in place, against a reference
  definition on lists; escaping and reading back; and what happens to texts that are not well formed.
\<close>

lemma StringEqual_iff: "0 \<le> k \<Longrightarrow> StringEqual p q k \<longleftrightarrow> take (nat k) p = take (nat k) q"
proof (induction p q k rule: StringEqual.induct)
  case (1 a p b q k)
  then show ?case by (cases "k = 0") (auto simp: nat_diff_distrib' take_Cons' nat_less_iff)
qed auto

lemma StringEqual_eq:
  assumes "length p < 2147483647" shows "StringEqual p q INT_MAX \<longleftrightarrow> p = q"
proof -
  have "take 2147483647 p = take 2147483647 q \<longleftrightarrow> p = q"
    using assms by (metis length_take min.absorb_iff2 nat_less_le not_le_imp_less take_all)
  then show ?thesis by (simp add: StringEqual_iff INT_MAX_def)
qed

section \<open>The reference definition\<close>

text \<open>
  Line ends become LF, entities and character references the characters they stand for. A text with an
  ampersand that begins neither has no value.
\<close>

function unescape :: "string \<Rightarrow> string option" where
  "unescape [] = Some []"
| "unescape (c # s) =
     (if c = CR then map_option ((#) LF) (unescape (if take 1 s = [LF] then drop 1 s else s))
      else if c = LF then map_option ((#) LF) (unescape (if take 1 s = [CR] then drop 1 s else s))
      else if c = CHR ''&'' then
        (if take 1 s = ''#'' then
           (case GetCharacterRef (c # s @ [NUL]) of
              None \<Rightarrow> None
            | Some (d, cs) \<Rightarrow> map_option ((@) cs) (unescape (drop d (c # s))))
         else (case find (is_entity s) entities of
                 Some (pattern, value) \<Rightarrow> map_option ((#) value) (unescape (drop (length pattern + 1) s))
               | None \<Rightarrow> None))
      else map_option ((#) c) (unescape s))"
  by pat_completeness auto
termination by (relation "measure length") (auto dest: GetCharacterRef_forward)

declare unescape.simps(2) [simp del]

lemma strchr_before_NUL:
  assumes i: "c_strchr c (drop f (s @ [NUL])) = Some (Some i)" and c: "c \<noteq> NUL" and f: "f < length s"
  shows "f + i < length s"
proof -
  have "i < length (drop f s @ [NUL])" "(drop f s @ [NUL]) ! i = c" using c_strchr_SomeD [OF i] f by auto
  then show ?thesis using c by (cases "i = length (drop f s)") (auto simp: nth_append)
qed

lemma GetCharacterRef_eq:
  assumes "p ! 1 = CHR ''#''" "p ! 2 \<noteq> NUL" "\<not> (p ! 2 = CHR ''x'' \<and> p ! 3 = NUL)"
  shows "GetCharacterRef p =
    (case c_strchr (CHR '';'') (drop (if p ! 2 = CHR ''x'' then 3 else 2) p) of
       Some (Some i) \<Rightarrow>
         (case ref_digits (p ! 2 = CHR ''x'') (rev (take i (drop (if p ! 2 = CHR ''x'' then 3 else 2) p))) 0 1 of
            None \<Rightarrow> None
          | Some ucs \<Rightarrow> Some ((if p ! 2 = CHR ''x'' then 3 else 2) + i + 1, ConvertUTF32ToUTF8 ucs))
     | _ \<Rightarrow> None)"
  unfolding GetCharacterRef_def Let_def using assms by simp

lemma GetCharacterRef_inside:
  assumes g: "GetCharacterRef (s @ [NUL]) = Some (d, cs)" and s: "NUL \<notin> set s" "2 \<le> length s" "s ! 1 = CHR ''#''"
  shows "d \<le> length s \<and> length cs \<le> d"
proof (cases "(s @ [NUL]) ! 2 = NUL")
  case True
  with g show ?thesis using s(2) by (simp add: GetCharacterRef_def)
next
  case False
  let ?m = "s @ [NUL]" and ?hex = "(s @ [NUL]) ! 2 = CHR ''x''"
  let ?f = "if ?hex then 3 else 2 :: nat"
  have l3: "3 \<le> length s" using False s(2) by (cases "length s = 2") (auto simp: nth_append)
  have sh: "?m ! 1 = CHR ''#''" using s by (simp add: nth_append)
  from g False sh have h: "\<not> (?hex \<and> ?m ! 3 = NUL)" by (auto simp: GetCharacterRef_def Let_def split: if_splits)
  then have f: "?f < length s" using l3 by (cases "length s = 3") (auto simp: nth_append split: if_splits)
  from g False sh h obtain i ucs where i: "c_strchr (CHR '';'') (drop ?f ?m) = Some (Some i)"
    and u: "ref_digits ?hex (rev (take i (drop ?f ?m))) 0 1 = Some ucs"
    and d: "d = ?f + i + 1" and cs: "cs = ConvertUTF32ToUTF8 ucs"
    unfolding GetCharacterRef_eq [OF sh False h] by (auto split: option.splits)
  have "?f + i < length s" by (rule strchr_before_NUL [OF i _ f]) simp
  moreover have "length cs \<le> (if i = 0 then 1 else 4)"
    using u by (cases "i = 0") (auto simp: cs ConvertUTF32ToUTF8_def)
  ultimately show ?thesis by (auto simp: d split: if_splits)
qed

lemma is_entity_NUL: "e \<in> set entities \<Longrightarrow> is_entity (s @ [NUL]) e = is_entity s e"
  by (cases "length s < length (fst e) + 1")
     (auto simp: is_entity_def entities_def take_Cons' split: if_splits)

lemma find_entity_NUL: "find (is_entity (s @ [NUL])) entities = find (is_entity s) entities"
  by (rule find_cong [OF refl]) (rule is_entity_NUL)

lemma find_entity_length:
  assumes "find (is_entity s) entities = Some (pat, v)" shows "length pat < length s"
proof -
  have "is_entity s (pat, v)" using assms by (metis find_Some_iff)
  then have "length (take (length pat + 1) s) = length pat + 1" by (simp add: is_entity_def)
  then show ?thesis by simp
qed

section \<open>The loop in place\<close>

text \<open>
  The memory is what is written so far, a part that is read and not yet overwritten, the text still
  to be read, and the NUL. Writing the characters that a part of the text stands for, at most as
  many as the part has, keeps this form.
\<close>

lemma list_update_write_at: "q < length m \<Longrightarrow> m[q := v] = write_at m q [v]"
  by (simp add: write_at_def upd_conv_take_nth_drop)

lemma write_at_form:
  assumes "length cs \<le> length junk"
  shows "write_at (out @ junk @ s) (length out) cs = (out @ cs) @ drop (length cs) junk @ s"
  using assms by (simp add: write_at_def)

lemma text_flags:
  "and (3 :: u32) NEEDS_NEWLINE_NORMALIZATION \<noteq> 0" "and (3 :: u32) NEEDS_ENTITY_PROCESSING \<noteq> 0"
  by (simp_all add: NEEDS_NEWLINE_NORMALIZATION_def NEEDS_ENTITY_PROCESSING_def)

lemma flush_loop_refines:
  assumes "unescape s = Some t" and "NUL \<notin> set s"
  shows "\<exists>m q. flush_loop 3 (length out + length junk + length s) (out @ junk @ s @ [NUL]) (length out + length junk) (length out)
    = Some (m, q) \<and> take q m = out @ t"
  using assms
proof (induction s arbitrary: t out junk rule: unescape.induct)
  case 1
  then show ?case by (simp add: flush_loop.simps)
next
  case (2 c s)
  let ?M = "out @ junk @ (c # s) @ [NUL]" and ?p = "length out + length junk" and ?q = "length out"
  let ?e = "length out + length junk + length (c # s)"
  have q: "?q < length ?M" by simp
  have rd: "?M ! ?p = c" "drop ?p ?M = c # s @ [NUL]" "drop (?p + 1) ?M = s @ [NUL]" by (simp_all add: nth_append)
  have rd1: "?M ! (?p + 1) = (s @ [NUL]) ! 0" by (simp add: nth_append)
  have step: "\<exists>m q. flush_loop 3 ?e (write_at ?M ?q cs) (?p + length a) (?q + length cs) = Some (m, q) \<and> take q m = out @ t"
    if a: "c # s = a @ s'" and t: "t = cs @ t'" and l: "length cs \<le> length (junk @ a)"
      and ih: "\<And>out junk. \<exists>m q. flush_loop 3 (length out + length junk + length s') (out @ junk @ s' @ [NUL])
        (length out + length junk) (length out) = Some (m, q) \<and> take q m = out @ t'"
    for a s' cs t'
  proof -
    have "write_at ?M ?q cs = (out @ cs) @ drop (length cs) (junk @ a) @ s' @ [NUL]"
      using write_at_form [OF l, of out "s' @ [NUL]"] a by simp
    moreover have "?e = length (out @ cs) + length (drop (length cs) (junk @ a)) + length s'"
      "?p + length a = length (out @ cs) + length (drop (length cs) (junk @ a))"
      using l arg_cong [OF a, of length] by simp_all
    ultimately show ?thesis
      using ih [of "out @ cs" "drop (length cs) (junk @ a)"] t by (simp only: length_append append_assoc)
  qed
  have c0: "c \<noteq> NUL" and s0: "NUL \<notin> set s" using 2 by auto
  note loop = flush_loop.simps [of 3 ?e ?M ?p ?q, unfolded rd rd1 list_update_write_at [OF q]]
  consider "c = CR" | "c = LF" | "c = CHR ''&''" "take 1 s = ''#''" | "c = CHR ''&''" "take 1 s \<noteq> ''#''"
    | "c \<noteq> CR" "c \<noteq> LF" "c \<noteq> CHR ''&''" by blast
  then have "\<exists>m q. flush_loop 3 ?e ?M ?p ?q = Some (m, q) \<and> take q m = out @ t"
  proof cases
    case 1
    let ?s' = "if take 1 s = [LF] then drop 1 s else s"
    from 1 2 obtain t' where t': "unescape ?s' = Some t'" "t = LF # t'" by (auto simp: unescape.simps(2))
    have n: "NUL \<notin> set ?s'" using s0 by (auto dest: in_set_dropD)
    have "c # s = (if take 1 s = [LF] then [c, LF] else [c]) @ ?s'" by (cases s) auto
    note st = step [OF this, of "[LF]" t', OF _ _ 2(1) [OF 1 t'(1) n]]
    have "((s @ [NUL]) ! 0 = LF) = (take 1 s = [LF])" by (cases s) auto
    with st t'(2) show ?thesis using 1 by (cases "take 1 s = [LF]") (subst loop, simp add: text_flags del: append.simps)+
  next
    case 2
    let ?s' = "if take 1 s = [CR] then drop 1 s else s"
    have nc: "c \<noteq> CR" using 2 by simp
    from 2 "2.prems" obtain t' where t': "unescape ?s' = Some t'" "t = LF # t'" by (auto simp: unescape.simps(2))
    have n: "NUL \<notin> set ?s'" using s0 by (auto dest: in_set_dropD)
    have "c # s = (if take 1 s = [CR] then [c, CR] else [c]) @ ?s'" by (cases s) auto
    note st = step [OF this, of "[LF]" t', OF _ _ "2.IH"(2) [OF nc 2 t'(1) n]]
    have "((s @ [NUL]) ! 0 = CR) = (take 1 s = [CR])" by (cases s) auto
    with st t'(2) show ?thesis using 2 by (cases "take 1 s = [CR]") (subst loop, simp add: text_flags del: append.simps)+
  next
    case 3
    have nc: "c \<noteq> CR" "c \<noteq> LF" using 3 by simp_all
    from 3 have hash: "(s @ [NUL]) ! 0 = CHR ''#''" and l2: "2 \<le> length (c # s)" and h1: "(c # s) ! 1 = CHR ''#''"
      by (cases s; auto)+
    from 3 2 obtain d cs t' where g: "GetCharacterRef (c # s @ [NUL]) = Some (d, cs)"
      and t': "unescape (drop d (c # s)) = Some t'" "t = cs @ t'"
      by (auto simp: unescape.simps(2) split: option.splits)
    have n: "NUL \<notin> set (drop d (c # s))" using 2(7) by (auto dest: in_set_dropD)
    have d: "d \<le> length (c # s)" "length cs \<le> d"
      using GetCharacterRef_inside [of "c # s" d cs] g 2(7) l2 h1 by simp_all
    have "c # s = take d (c # s) @ drop d (c # s)" by simp
    from step [OF this t'(2), OF _ 2(3) [OF nc 3 g refl t'(1) n]] d g
    show ?thesis using 3 hash by (subst loop) (simp add: text_flags min_absorb2 del: append.simps)
  next
    case 4
    then have nr: "(s @ [NUL]) ! 0 \<noteq> CHR ''#''" by (cases s) auto
    from 4 2 obtain pat v t' where e: "find (is_entity s) entities = Some (pat, v)"
      and t': "unescape (drop (length pat + 1) s) = Some t'" "t = v # t'"
      by (auto simp: unescape.simps(2) split: option.splits)
    have n: "NUL \<notin> set (drop (length pat + 1) s)" using s0 by (auto dest: in_set_dropD)
    have "c # s = (c # take (length pat + 1) s) @ drop (length pat + 1) s" by simp
    from step [OF this, of "[v]" t'] 2(4) [OF _ _ 4 e refl t'(1) n] t'(2) find_entity_length [OF e] e
    show ?thesis using 4 nr by (subst loop) (simp add: text_flags find_entity_NUL del: append.simps)
  next
    case 5
    with 2 obtain t' where t': "unescape s = Some t'" "t = c # t'" by (auto simp: unescape.simps(2))
    from step [of "[c]" s "[c]" t'] 2(5) [OF 5 t'(1) s0] t'(2)
    show ?thesis using 5 by (subst loop) (simp add: text_flags del: append.simps)
  qed
  then show ?case by simp
qed


lemma GetStr_Set_text:
  "GetStr (sp_Set s TEXT_ELEMENT) =
     map_option (\<lambda>(m, q). c_str (take q m)) (flush_loop 3 (length s) (s @ [NUL]) 0 0)"
proof -
  have f: "or TEXT_ELEMENT NEEDS_FLUSH = (0x103 :: u32)" "and (0x103 :: u32) NEEDS_FLUSH \<noteq> 0"
    "xor (0x103 :: u32) NEEDS_FLUSH = 3" "and (3 :: u32) COLLAPSE_WHITESPACE = 0"
    by (simp_all add: TEXT_ELEMENT_def NEEDS_FLUSH_def NEEDS_ENTITY_PROCESSING_def NEEDS_NEWLINE_NORMALIZATION_def
        COLLAPSE_WHITESPACE_def)
  then show ?thesis
    by (simp add: GetStr_def sp_Set_def Let_def)
qed

lemma GetStr_unescape:
  assumes "unescape s = Some t" "NUL \<notin> set s"
  shows "GetStr (sp_Set s TEXT_ELEMENT) = Some (c_str t)"
  using flush_loop_refines [OF assms, of "[]" "[]"] by (auto simp: GetStr_Set_text)

text \<open>
  C32. Reading a piece of text converts it in place, with a read and a write pointer into the same memory;
  this gives the text of the reference definition, as a C string, whenever every ampersand of the piece
  begins an entity or a well-formed character reference.
\<close>

theorem in_place_reading_equals_reference:
  assumes "unescape s = Some t" "NUL \<notin> set s"
  shows "GetStr (sp_Set s TEXT_ELEMENT) = Some (c_str t)"
  using assms by (rule GetStr_unescape)

theorem in_place_reading_equals_reference_witness:
  "GetStr (sp_Set ''a&lt;b&#65;'' TEXT_ELEMENT) = Some (c_str ''a<bA'')"
proof (rule in_place_reading_equals_reference)
  show "unescape ''a&lt;b&#65;'' = Some ''a<bA''" by code_simp
  show "NUL \<notin> set ''a&lt;b&#65;''" by simp
qed

section \<open>Escaping\<close>

lemma escape_Cons:
  "escape r (c # q) =
     (if c = CHR 0x22 \<and> \<not> r then ''&quot;'' else if c = CHR ''&'' then ''&amp;''
      else if c = CHR 0x27 \<and> \<not> r then ''&apos;'' else if c = CHR ''<'' then ''&lt;''
      else if c = CHR ''>'' then ''&gt;'' else [c]) @ escape r q"
proof -
  have flag: "entity_flag r c \<longleftrightarrow> c = CHR ''&'' \<or> c = CHR ''<'' \<or> c = CHR ''>'' \<or> \<not> r \<and> (c = CHR 0x22 \<or> c = CHR 0x27)"
    for r c by (auto simp: entity_flag_def entities_def)
  consider "c = CHR 0x22" | "c = CHR ''&''" | "c = CHR 0x27" | "c = CHR ''<''" | "c = CHR ''>''"
    | "c \<noteq> CHR 0x22" "c \<noteq> CHR ''&''" "c \<noteq> CHR 0x27" "c \<noteq> CHR ''<''" "c \<noteq> CHR ''>''" by blast
  then show ?thesis by cases (simp_all add: escape.simps(2) flag ENTITY_RANGE_def entities_def)
qed

lemma escape_clean:
  "CR \<notin> set s \<Longrightarrow> CR \<notin> set (escape r s)" "NUL \<notin> set s \<Longrightarrow> NUL \<notin> set (escape r s)"
  "CHR ''<'' \<notin> set (escape r s)"
  by (induction s) (simp_all add: escape_Cons)

lemma unescape_plain:
  "c \<noteq> CR \<Longrightarrow> c \<noteq> LF \<Longrightarrow> c \<noteq> CHR ''&'' \<Longrightarrow> unescape (c # s) = map_option ((#) c) (unescape s)"
  by (simp add: unescape.simps(2))

lemma unescape_LF: "CR \<notin> set s \<Longrightarrow> unescape (LF # s) = map_option ((#) LF) (unescape s)"
  by (cases s) (auto simp: unescape.simps(2))

lemma unescape_entity:
  assumes "find (is_entity s) entities = Some (pat, v)" "take 1 s \<noteq> ''#''"
  shows "unescape (CHR ''&'' # s) = map_option ((#) v) (unescape (drop (length pat + 1) s))"
  using assms by (subst unescape.simps) simp

lemma find_entities:
  "find (is_entity (''quot;'' @ s)) entities = Some (''quot'', CHR 0x22)"
  "find (is_entity (''amp;'' @ s)) entities = Some (''amp'', CHR ''&'')"
  "find (is_entity (''apos;'' @ s)) entities = Some (''apos'', CHR 0x27)"
  "find (is_entity (''lt;'' @ s)) entities = Some (''lt'', CHR ''<'')"
  "find (is_entity (''gt;'' @ s)) entities = Some (''gt'', CHR ''>'')"
  by (simp_all add: entities_def is_entity_def)

lemmas unescape_entities = find_entities [THEN unescape_entity, simplified]

lemma unescape_escape: "CR \<notin> set t \<Longrightarrow> unescape (escape r t) = Some t"
proof (induction t)
  case (Cons c t)
  then have ih: "unescape (escape r t) = Some t" and cr: "c \<noteq> CR" "CR \<notin> set (escape r t)"
    using escape_clean(1) by auto
  show ?case
  proof (cases "c = LF")
    case True
    then show ?thesis using ih cr by (simp add: escape_Cons unescape_LF)
  next
    case False
    with ih cr show ?thesis
      by (cases r) (simp_all add: escape_Cons unescape_entities unescape_plain)
  qed
qed simp

lemma GetStr_escape:
  assumes "CR \<notin> set t" "NUL \<notin> set t"
  shows "GetStr (sp_Set (escape r t) TEXT_ELEMENT) = Some t"
  using GetStr_unescape [OF unescape_escape [OF assms(1)] escape_clean(2) [OF assms(2)], of r] assms(2) by simp

text \<open>
  C31. What the printer writes for a text or an attribute value, the parser reads back as that text, for all
  texts without a carriage return.
\<close>

theorem printed_text_is_read_back:
  assumes "CR \<notin> set t" "NUL \<notin> set t"
  shows "GetStr (sp_Set (escape restricted t) TEXT_ELEMENT) = Some t"
  using assms by (rule GetStr_escape)

theorem printed_text_is_read_back_witness:
  "GetStr (sp_Set (escape False ''a&b < c'') TEXT_ELEMENT) = Some ''a&b < c''"
  by (rule printed_text_is_read_back) simp_all

section \<open>Texts that are not well formed\<close>

definition plain_text :: "string \<Rightarrow> bool" where
  "plain_text s = (CR \<notin> set s \<and> LF \<notin> set s \<and> CHR ''&'' \<notin> set s \<and> NUL \<notin> set s)"

lemma flush_plain:
  assumes "plain_text a" "length out + length junk + length a \<le> e"
  shows "flush_loop 3 e (out @ junk @ a @ rest) (length out + length junk) (length out)
    = flush_loop 3 e ((out @ a) @ drop (length a) (junk @ a) @ rest) (length out + length junk + length a) (length out + length a)"
  using assms
proof (induction a arbitrary: out junk)
  case (Cons c a)
  let ?m = "out @ junk @ (c # a) @ rest" and ?p = "length out + length junk"
  have c: "c \<noteq> CR" "c \<noteq> LF" "c \<noteq> CHR ''&''" and a: "plain_text a" using Cons.prems(1) by (auto simp: plain_text_def)
  have rd: "?m ! ?p = c" by (simp add: nth_append)
  define J where "J = drop 1 (junk @ [c])"
  have J: "length J = length junk" by (simp add: J_def)
  have "?m[length out := c] = (out @ [c]) @ J @ a @ rest"
    using write_at_form [of "[c]" "junk @ [c]" out "a @ rest"] by (simp add: list_update_write_at J_def)
  then have "flush_loop 3 e ?m ?p (length out) = flush_loop 3 e ((out @ [c]) @ J @ a @ rest) (?p + 1) (length out + 1)"
    using c Cons.prems(2) by (subst flush_loop.simps, unfold rd) (simp add: text_flags del: append.simps)
  also have "\<dots> = flush_loop 3 e (((out @ [c]) @ a) @ drop (length a) (J @ a) @ rest) (?p + 1 + length a) (length out + 1 + length a)"
    using Cons.IH [OF a, of "out @ [c]" J] Cons.prems(2) by (simp add: J)
  also have "drop (length a) (J @ a) = drop (length (c # a)) (junk @ c # a)"
    by (cases junk) (simp_all add: J_def)
  finally show ?case by (simp add: add.assoc)
qed simp

lemma malformed_undefined:
  assumes "plain_text a" "GetCharacterRef (''&#'' @ b @ [NUL]) = None"
  shows "GetStr (sp_Set (a @ ''&#'' @ b) TEXT_ELEMENT) = None"
proof -
  have "flush_loop 3 (length (a @ ''&#'' @ b)) ((a @ ''&#'' @ b) @ [NUL]) 0 0
      = flush_loop 3 (length (a @ ''&#'' @ b)) (a @ ''&#'' @ b @ [NUL]) (length a) (length a)"
    using flush_plain [OF assms(1), of "[]" "[]" "length (a @ ''&#'' @ b)" "''&#'' @ b @ [NUL]"] by simp
  also have "\<dots> = None"
    using assms(2) by (subst flush_loop.simps) (simp add: text_flags nth_append)
  finally show ?thesis by (simp add: GetStr_Set_text)
qed

lemma flush_plain_end:
  assumes "plain_text a" "e = length out + length junk + length a"
  shows "\<exists>m. flush_loop 3 e (out @ junk @ a @ rest) (length out + length junk) (length out) = Some (m, length out + length a)
    \<and> take (length out + length a) m = out @ a"
proof -
  let ?m = "(out @ a) @ drop (length a) (junk @ a) @ rest"
  have "flush_loop 3 e ?m (length out + length junk + length a) (length out + length a) = Some (?m, length out + length a)"
    using assms(2) by (subst flush_loop.simps) simp
  then have "flush_loop 3 e (out @ junk @ a @ rest) (length out + length junk) (length out) = Some (?m, length out + length a)"
    using flush_plain [OF assms(1), of out junk e rest] assms(2) by simp
  then show ?thesis by simp
qed

lemma stray_text:
  assumes a: "plain_text a" and b: "plain_text b"
  shows "GetStr (sp_Set (''&lt;'' @ a @ ''& '' @ b) TEXT_ELEMENT) = Some (''<'' @ a @ [(''lt;'' @ a) ! length a] @ '' '' @ b)"
proof -
  let ?s = "''&lt;'' @ a @ ''& '' @ b" and ?e = "length a + length b + 6"
  define J where "J = drop (length a) (''lt;'' @ a)"
  have J: "length J = 3" by (simp add: J_def)
  have hJ: "hd J = (''lt;'' @ a) ! length a" unfolding J_def by (rule hd_drop_conv_nth) simp
  have split_J: "J = hd J # tl J" using J by (cases J) auto
  let ?t = "''<'' @ a @ [hd J] @ '' '' @ b"
  have "flush_loop 3 ?e (?s @ [NUL]) 0 0 = flush_loop 3 ?e (''<'' @ ''lt;'' @ a @ ''& '' @ b @ [NUL]) 4 1"
    using find_entities(4) [of "a @ ''& '' @ b @ [NUL]"] by (subst flush_loop.simps) (simp add: text_flags numeral_eq_Suc)
  also have "\<dots> = flush_loop 3 ?e ((''<'' @ a) @ J @ ''& '' @ b @ [NUL]) (length a + 4) (length a + 1)"
    using flush_plain [OF a, of "''<''" "''lt;''" ?e "''& '' @ b @ [NUL]"] by (simp add: J_def eval_nat_numeral)
  also have "\<dots> = flush_loop 3 ?e ((''<'' @ a @ [hd J]) @ (tl J @ ''&'') @ ('' '' @ b) @ [NUL]) (length a + 5) (length a + 2)"
  proof -
    let ?m = "(''<'' @ a) @ J @ ''& '' @ b @ [NUL]"
    have rd: "?m ! (length a + 4) = CHR ''&''" "?m ! (length a + 4 + 1) = SP"
      using J by (simp_all add: nth_append)
    have "drop (length a + 4 + 1) ((''<'' @ a @ J @ ''&'') @ SP # b @ [NUL]) = SP # b @ [NUL]"
      by (rule drop_append_exact) (simp add: J)
    then have rd2: "drop (length a + 4 + 1) ?m = SP # b @ [NUL]" by simp
    have none: "find (is_entity (SP # b @ [NUL])) entities = None" by (simp add: entities_def is_entity_def)
    have eq: "?m = (''<'' @ a @ [hd J]) @ (tl J @ ''&'') @ ('' '' @ b) @ [NUL]" by (subst split_J) simp
    have "flush_loop 3 ?e ?m (length a + 4) (length a + 1) = flush_loop 3 ?e ?m (length a + 5) (length a + 2)"
      by (subst flush_loop.simps, unfold rd rd2 none) (simp add: text_flags add.commute del: append.simps)
    then show ?thesis by (simp only: eq)
  qed
  finally have run: "flush_loop 3 ?e (?s @ [NUL]) 0 0
    = flush_loop 3 ?e ((''<'' @ a @ [hd J]) @ (tl J @ ''&'') @ ('' '' @ b) @ [NUL]) (length a + 5) (length a + 2)" .
  obtain m where "flush_loop 3 ?e ((''<'' @ a @ [hd J]) @ (tl J @ ''&'') @ ('' '' @ b) @ [NUL]) (length a + 5) (length a + 2)
      = Some (m, length a + 2 + length ('' '' @ b))" and m: "take (length a + 2 + length ('' '' @ b)) m = ?t"
    using flush_plain_end [of "'' '' @ b" ?e "''<'' @ a @ [hd J]" "tl J @ ''&''" "[NUL]"] b J
    by (auto simp: plain_text_def add.commute [of 5])
  with run have end_run: "flush_loop 3 ?e (?s @ [NUL]) 0 0 = Some (m, length a + 2 + length ('' '' @ b))" by simp
  moreover have "NUL \<notin> set ?t"
    using a b nth_mem [of "length a" "''lt;'' @ a"] by (auto simp: plain_text_def hJ)
  moreover have len: "length ?s = ?e" by simp
  have "GetStr (sp_Set ?s TEXT_ELEMENT) = Some (c_str ?t)"
    unfolding GetStr_Set_text len end_run by (simp only: option.map prod.case m)
  ultimately show ?thesis by (simp add: hJ)
qed

text \<open>
  An ampersand that begins no entity is stepped over without being written. Behind an entity, where the
  write pointer lags, the text then shows a character of its own past instead of the ampersand: the
  one that stood three places before it.
\<close>

theorem stray_ampersand_is_replaced:
  assumes "plain_text a" "plain_text b"
  shows "GetStr (sp_Set (''&lt;'' @ a @ ''& '' @ b) TEXT_ELEMENT) = Some (''<'' @ a @ [(''lt;'' @ a) ! length a] @ '' '' @ b)"
  using assms by (rule stray_text)

theorem stray_ampersand_is_replaced_witness:
  "GetStr (sp_Set (''&lt;'' @ ''abc'' @ ''& '' @ ''d'') TEXT_ELEMENT)
    = Some (''<'' @ ''abc'' @ [(''lt;'' @ ''abc'') ! length ''abc''] @ '' '' @ ''d'')"
  by (rule stray_ampersand_is_replaced) (simp_all add: plain_text_def)

end
