(* ===== verification/XmlConfig.thy ===== *)
theory XmlConfig
  imports XmlPrinter
begin

text \<open>
  The configuration parser (\<open>CXmlConfigParser\<close> of frame/common/xmlconfigparser.h and .cc).

  \<open>root_\<close> is a pointer into the document: after a parse that fails it still has its old value, although
  the nodes are gone. Following it then is undefined, \<open>None\<close> here, as is printing a malformed character
  reference.
\<close>

datatype root_pointer = RootNull | RootNode xml_node | RootDangling

record xml_config =
  cfg_xmldoc :: xml_document
  cfg_root :: root_pointer
  cfg_error :: string

definition xml_config_new :: xml_config where
  "xml_config_new = \<lparr>cfg_xmldoc = xml_document_new True False, cfg_root = RootNull, cfg_error = []\<rparr>"

definition SetXmlError :: "xml_config \<Rightarrow> xml_config" where
  "SetXmlError cfg =
     (let doc = cfg_xmldoc cfg; optional = (\<lambda>s. case s of Some t \<Rightarrow> c_str t | None \<Rightarrow> [])
      in if xml_Error doc then
           cfg\<lparr>cfg_error :=
             ''XMLDocument error '' @ snprintf_cut 15 (''id='' @ fmt_u (XMLError_id (doc_errorID doc)) @ '' '')
             @ GetError (doc_errorID doc) @ '' str1='' @ optional (doc_errorStr1 doc)
             @ '' str2='' @ optional (doc_errorStr2 doc)\<rparr>
         else cfg)"

definition clear_nodes :: "root_pointer \<Rightarrow> root_pointer" where
  \<comment> \<open>what a pointer is worth once the nodes have been deleted\<close>
  "clear_nodes r = (if r = RootNull then RootNull else RootDangling)"

definition take_root :: "xml_config \<Rightarrow> int \<times> xml_config" where
  \<comment> \<open>the common end of \<open>ParseFile\<close> and \<open>ParseBuffer\<close>\<close>
  "take_root cfg =
     (case RootElement (cfg_xmldoc cfg) of
        None \<Rightarrow> (- 1, cfg\<lparr>cfg_root := RootNull, cfg_error := ''no root node!''\<rparr>)
      | Some e \<Rightarrow> (0, cfg\<lparr>cfg_root := RootNode e\<rparr>))"

definition cfg_ParseFile :: "string \<Rightarrow> (string \<Rightarrow> file_data) \<Rightarrow> xml_config \<Rightarrow> (int \<times> xml_config) option" where
  "cfg_ParseFile file files cfg = do {
     doc \<leftarrow> XMLDocument_LoadFile (c_str file) (files (c_str file)) (cfg_xmldoc cfg);
     let cfg1 = cfg\<lparr>cfg_xmldoc := doc, cfg_root := clear_nodes (cfg_root cfg)\<rparr>;
     Some (if doc_errorID doc \<noteq> XML_NO_ERROR then (- 1, SetXmlError cfg1) else take_root cfg1)
   }"

definition cfg_ParseBuffer :: "string option \<Rightarrow> xml_config \<Rightarrow> (int \<times> xml_config) option" where
  "cfg_ParseBuffer buffer cfg = do {
     doc \<leftarrow> XMLDocument_Parse buffer (cfg_xmldoc cfg);
     let cfg1 = cfg\<lparr>cfg_xmldoc := doc, cfg_root := clear_nodes (cfg_root cfg)\<rparr>;
     Some (if xml_Error doc then (- 1, SetXmlError cfg1) else take_root cfg1)
   }"

definition cfg_ParseDetailBuffer :: "string \<Rightarrow> xml_config \<Rightarrow> (int \<times> xml_config) option" where
  "cfg_ParseDetailBuffer buffer cfg =
     cfg_ParseBuffer (Some (c_str (''<?xml version='' @ [CHR 0x22] @ ''1.0'' @ [CHR 0x22] @ '' encoding='' @ [CHR 0x22]
       @ ''UTF-8'' @ [CHR 0x22] @ '' ?><parameters>'' @ c_str buffer @ ''</parameters>''))) cfg"

definition cfg_GetString :: "xml_config \<Rightarrow> string option" where
  "cfg_GetString cfg = map_option CStr (XMLDocument_Accept (cfg_xmldoc cfg) (xml_printer_new False 0))"

section \<open>Lookups\<close>

text \<open>
  The loop over the parts of the path that \<open>GetParameter\<close> and \<open>GetParameters\<close> have in common. The result
  is the element and the siblings behind it.
\<close>

function cfg_find :: "xml_node list \<Rightarrow> string \<Rightarrow> (xml_node \<times> xml_node list) option" where
  "cfg_find kids path =
     (case find_tag ''/'' path of
        Some (key, rest) \<Rightarrow>
          if key = [] then None
          else (case FirstChildElement (Some (c_str key)) kids of
                  None \<Rightarrow> None
                | Some (ele, _) \<Rightarrow> cfg_find (node_children ele) rest)
      | None \<Rightarrow> if path = [] then None else FirstChildElement (Some (c_str path)) kids)"
  by pat_completeness auto
termination
proof (relation "measure (length \<circ> snd)", goal_cases)
  case (2 kids path y key rest)
  then have "path = key @ ''/'' @ rest" using find_tag_split [of "''/''" path key rest] by simp
  then show ?case by simp
qed simp

declare cfg_find.simps [simp del]

definition inner_text :: "xml_node \<Rightarrow> string option" where
  \<comment> \<open>a new printer, \<open>InnerAccept\<close> and \<open>CStr\<close>\<close>
  "inner_text ele = map_option CStr (InnerAccept ele (xml_printer_new False 0))"

definition GetParameter :: "string \<Rightarrow> xml_config \<Rightarrow> string option" where
  "GetParameter path cfg =
     (case cfg_root cfg of
        RootNull \<Rightarrow> Some []
      | RootDangling \<Rightarrow> if path = [] \<or> hd path = CHR ''/'' then Some [] else None
      | RootNode root \<Rightarrow>
          (case cfg_find (node_children root) path of
             None \<Rightarrow> Some []
           | Some (ele, _) \<Rightarrow> inner_text ele))"

definition GetParameter_int :: "string \<Rightarrow> int \<Rightarrow> xml_config \<Rightarrow> int option" where
  "GetParameter_int path defaultvalue cfg = do {
     result \<leftarrow> GetParameter path cfg;
     if result = [] then Some defaultvalue else c_atoi (result @ [NUL])
   }"

definition GetParameter_string :: "string \<Rightarrow> string \<Rightarrow> xml_config \<Rightarrow> string option" where
  "GetParameter_string path defaultvalue cfg =
     map_option (\<lambda>result. if result = [] then defaultvalue else result) (GetParameter path cfg)"

function parameter_list :: "string \<Rightarrow> xml_node \<Rightarrow> xml_node list \<Rightarrow> string list option" where
  \<comment> \<open>the do loop of \<open>GetParameters\<close>\<close>
  "parameter_list key ele siblings = do {
     s \<leftarrow> inner_text ele;
     case NextSiblingElement (Some key) siblings of
       None \<Rightarrow> Some [s]
     | Some (ele', siblings') \<Rightarrow> map_option ((#) s) (parameter_list key ele' siblings')
   }"
  by pat_completeness auto

lemma NextSiblingElement_shorter:
  "NextSiblingElement name ns = Some (e, rest) \<Longrightarrow> length rest < length ns"
  by (induction ns) (auto split: if_splits)

termination parameter_list
  by (relation "measure (\<lambda>(key, ele, siblings). length siblings)") (auto dest: NextSiblingElement_shorter)

declare parameter_list.simps [simp del]

definition last_key :: "string \<Rightarrow> string" where
  \<comment> \<open>\<open>key\<close> behind the loop: what follows the last slash\<close>
  "last_key path = rev (takeWhile (\<lambda>c. c \<noteq> CHR ''/'') (rev path))"

definition GetParameters :: "string \<Rightarrow> xml_config \<Rightarrow> string list option" where
  "GetParameters path cfg =
     (case cfg_root cfg of
        RootNull \<Rightarrow> Some []
      | RootDangling \<Rightarrow> if path = [] \<or> hd path = CHR ''/'' then Some [] else None
      | RootNode root \<Rightarrow>
          (case cfg_find (node_children root) path of
             None \<Rightarrow> Some []
           | Some (ele, siblings) \<Rightarrow> parameter_list (c_str (last_key path)) ele siblings))"

end
