(* ===== verification/XmlConfigProps.thy ===== *)
theory XmlConfigProps
  imports XmlTextProps XmlConfig
begin

text \<open>
  What a configuration file says and what the program reads from it. A configuration is a tree of
  items: values with a text, and sections of items. \<open>render_file\<close> writes it as an XML file, with any
  white space between the tags; the lookups of the configuration parser are then lookups in the tree.
\<close>

section \<open>Configurations\<close>

datatype item = Value string string | Section string "item list"

fun item_name :: "item \<Rightarrow> string" where
  "item_name (Value n t) = n"
| "item_name (Section n its) = n"

fun render :: "string \<Rightarrow> item \<Rightarrow> string" where
  "render ws (Value n t) = ''<'' @ n @ ''>'' @ escape True t @ ''</'' @ n @ ''>''"
| "render ws (Section n its) = ''<'' @ n @ ''>'' @ concat (map (\<lambda>i. ws @ render ws i) its) @ ws @ ''</'' @ n @ ''>''"

definition render_file :: "string \<Rightarrow> string \<Rightarrow> item \<Rightarrow> string" where
  "render_file decl ws root = ''<?'' @ decl @ ''?>'' @ ws @ render ws root @ ws"

definition valid_name :: "string \<Rightarrow> bool" where
  "valid_name n = (n \<noteq> [] \<and> IsNameStartChar (hd n) \<and> (\<forall>c\<in>set (tl n). IsNameChar c) \<and> length n < 2147483647)"

definition valid_text :: "string \<Rightarrow> bool" where
  \<comment> \<open>a text of white space alone is lost\<close>
  "valid_text t = (CR \<notin> set t \<and> NUL \<notin> set t \<and> (t = [] \<or> (\<exists>c\<in>set t. \<not> IsWhiteSpace c)))"

fun valid_item :: "item \<Rightarrow> bool" where
  "valid_item (Value n t) = (valid_name n \<and> valid_text t)"
| "valid_item (Section n its) = (valid_name n \<and> list_all valid_item its)"

definition blank :: "string \<Rightarrow> bool" where "blank ws = list_all IsWhiteSpace ws"

fun item_node :: "item \<Rightarrow> xml_node" where
  "item_node (Value n t) = XMLElement (sp_Set n 0) OPEN []
     (if t = [] then [] else [XMLText False (sp_Set (escape True t) TEXT_ELEMENT)])"
| "item_node (Section n its) = XMLElement (sp_Set n 0) OPEN [] (map item_node its)"

section \<open>Reading names\<close>

lemma SkipWhiteSpace_blank: "blank ws \<Longrightarrow> SkipWhiteSpace (ws @ p) = SkipWhiteSpace p"
  by (induction ws) (auto simp: blank_def SkipWhiteSpace_def)

lemma SkipWhiteSpace_visible: "\<not> IsWhiteSpace c \<Longrightarrow> SkipWhiteSpace (c # p) = c # p"
  by (simp add: SkipWhiteSpace_def)

lemma visible_chars [simp]:
  "\<not> IsWhiteSpace (CHR ''<'')" "\<not> IsWhiteSpace (CHR ''/'')" "\<not> IsWhiteSpace (CHR ''>'')"
  by (simp_all add: IsWhiteSpace_def c_isspace_def)

lemma name_start_plain:
  assumes "IsNameStartChar c"
  shows "\<not> IsWhiteSpace c" "c \<noteq> CHR ''/''" "c \<noteq> CHR ''?''" "c \<noteq> CHR ''!''" "c \<noteq> NUL"
  using assms
  by (auto simp: IsNameStartChar_def IsWhiteSpace_def IsUTF8Continuation_def c_isspace_def c_isupper_def c_islower_def
      split: if_splits)

lemma tag_chars_no_name [simp]:
  "\<not> IsNameChar (CHR ''>'')" "\<not> IsNameStartChar (CHR ''>'')" "\<not> IsNameChar NUL"
  by (simp_all add: IsNameChar_def IsNameStartChar_def c_isupper_def c_islower_def c_isdigit_def)

lemma valid_name_Cons:
  assumes "valid_name n" obtains c r where "n = c # r" "IsNameStartChar c" "\<forall>x\<in>set r. IsNameChar x"
  using assms by (cases n) (auto simp: valid_name_def)

lemma name_piece_valid:
  assumes "valid_name n" shows "name_piece (n @ CHR ''>'' # r) = n"
proof -
  from assms obtain c s where "n = c # s" "IsNameStartChar c" "\<forall>x\<in>set s. IsNameChar x" by (rule valid_name_Cons)
  then show ?thesis by (simp add: takeWhile_append_hit)
qed

lemma valid_name_NUL: assumes "valid_name n" shows "NUL \<notin> set n"
proof -
  from assms obtain c s where n: "n = c # s" "IsNameStartChar c" "\<forall>x\<in>set s. IsNameChar x" by (rule valid_name_Cons)
  then show ?thesis using name_start_plain(5) tag_chars_no_name(3) by auto
qed

lemma ParseName_valid:
  "valid_name n \<Longrightarrow> ParseName (n @ CHR ''>'' # r) sp = (Some (CHR ''>'' # r), sp_Set n 0)"
  by (auto simp: ParseName_def name_piece_valid Let_def valid_name_def)

lemma ParseAttributes_end:
  "ParseAttributes_loop start name as ct (CHR ''>'' # r) doc = Some (Some r, ct, as, doc)"
  by (subst ParseAttributes_loop.simps) (simp add: SkipWhiteSpace_visible)

lemma element_open_start:
  assumes "valid_name n"
  shows "element_open (n @ CHR ''>'' # r) doc = Some (Some r, sp_Set n 0, OPEN, [], doc)"
proof -
  from assms obtain c s where n: "n = c # s" "IsNameStartChar c" by (rule valid_name_Cons) blast
  then have "SkipWhiteSpace (n @ CHR ''>'' # r) = n @ CHR ''>'' # r" "take 1 (n @ CHR ''>'' # r) \<noteq> ''/''"
    using name_start_plain by (auto simp: SkipWhiteSpace_visible)
  then show ?thesis
    using ParseName_valid [OF assms] by (simp add: element_open_def Let_def ParseAttributes_end)
qed

lemma element_open_end:
  assumes "valid_name n"
  shows "element_open (CHR ''/'' # n @ CHR ''>'' # r) doc = Some (Some r, sp_Set n 0, CLOSING, [], doc)"
  using ParseName_valid [OF assms] by (simp add: element_open_def Let_def ParseAttributes_end SkipWhiteSpace_visible)

lemma Identify_tag:
  assumes "blank ws" "c \<noteq> CHR ''?''" "c \<noteq> CHR ''!''"
  shows "Identify (ws @ CHR ''<'' # c # r) = (c # r, Some (XMLElement str_pair_new OPEN [] []))"
  using assms by (simp add: Identify_def Let_def SkipWhiteSpace_blank SkipWhiteSpace_visible)

lemma GetStr_name [simp]: "GetStr (sp_Set n 0) = Some n"
  by (simp add: GetStr_def sp_Set_def NEEDS_FLUSH_def COLLAPSE_WHITESPACE_def Let_def)

lemma sp_Set_Empty [simp]: "sp_Empty (sp_Set s f) = (s = [])" and sp_new_Empty [simp]: "sp_Empty str_pair_new"
  by (simp_all add: sp_Empty_def sp_Set_def str_pair_new_def)

lemma StringEqual_refl [simp]: "StringEqual s s INT_MAX"
  by (simp add: StringEqual_iff INT_MAX_def)

section \<open>Parsing the tree\<close>

lemma parse_close:
  assumes "valid_name n" "blank ws"
  shows "ParseDeep kids doc (ws @ ''</'' @ n @ ''>'' @ r) = Some (Some r, sp_Set n 0, kids, doc)"
  using Identify_tag [OF assms(2), of "CHR ''/''" "n @ ''>'' @ r"]
  by (subst ParseDeep.simps) (simp add: element_open_end [OF assms(1)])

lemma parse_open:
  assumes n: "valid_name n" "blank ws" and r: "r \<noteq> []"
    and inner: "ParseDeep [] doc r = Some (Some r', sp_Set n 0, kids1, doc)"
  shows "ParseDeep kids doc (ws @ ''<'' @ n @ ''>'' @ r)
    = ParseDeep (kids @ [XMLElement (sp_Set n 0) OPEN [] kids1]) doc r'"
proof -
  from n(1) obtain c s where c: "n = c # s" "IsNameStartChar c" by (rule valid_name_Cons) blast
  have "Identify (ws @ ''<'' @ n @ ''>'' @ r) = (n @ CHR ''>'' # r, Some (XMLElement str_pair_new OPEN [] []))"
    using Identify_tag [OF n(2), of c "s @ ''>'' @ r"] name_start_plain [OF c(2)] by (simp add: c)
  moreover have "end_matches (sp_Set n 0) OPEN (sp_Set n 0)" using c by (simp add: end_matches_def)
  ultimately show ?thesis
    using r inner by (subst ParseDeep.simps) (simp add: element_open_start [OF n(1)])
qed

definition reads_text :: "xml_document \<Rightarrow> bool" where
  "reads_text doc = (doc_processEntities doc \<and> \<not> doc_collapse doc)"

lemma find_tag_hit: "c \<notin> set a \<Longrightarrow> find_tag (c # t) (a @ (c # t) @ b) = Some (a, b)"
  by (induction a) auto

lemma parse_text:
  assumes e: "CHR ''<'' \<notin> set e" "\<exists>x\<in>set e. \<not> IsWhiteSpace x" and doc: "reads_text doc"
  shows "ParseDeep kids doc (e @ ''<'' @ c # r)
    = ParseDeep (kids @ [XMLText False (sp_Set e TEXT_ELEMENT)]) doc (''<'' @ c # r)"
proof -
  let ?p = "e @ ''<'' @ c # r"
  from e(2) obtain d s where d: "SkipWhiteSpace e = d # s"
    by (cases "SkipWhiteSpace e") (auto simp: SkipWhiteSpace_def dropWhile_eq_Nil_conv)
  then have "d \<in> set e" by (metis SkipWhiteSpace_def list.set_intros(1) set_dropWhileD)
  with e(1) have "d \<noteq> CHR ''<''" by auto
  moreover have "SkipWhiteSpace ?p = d # s @ ''<'' @ c # r"
  proof -
    from e(2) have "SkipWhiteSpace ?p = SkipWhiteSpace e @ ''<'' @ c # r"
      by (auto simp: SkipWhiteSpace_def dropWhile_append1)
    with d show ?thesis by simp
  qed
  ultimately have i: "Identify ?p = (?p, Some (XMLText False str_pair_new))" by (simp add: Identify_def Let_def)
  have "find_tag ''<'' ?p = Some (e, c # r)" using find_tag_hit [OF e(1), of "[]" "c # r"] by simp
  then have "leaf_ParseDeep (XMLText False str_pair_new) ?p doc
      = (Some (''<'' @ c # r), XMLText False (sp_Set e TEXT_ELEMENT), doc)"
    using doc by (simp add: text_ParseDeep_def ParseText_def report_def reads_text_def Let_def)
  moreover have "?p \<noteq> []" by simp
  ultimately show ?thesis using i by (subst ParseDeep.simps) (simp del: append.simps leaf_ParseDeep.simps)
qed

lemma escape_visible: "\<exists>c\<in>set t. \<not> IsWhiteSpace c \<Longrightarrow> \<exists>x\<in>set (escape r t). \<not> IsWhiteSpace x"
proof (induction t)
  case (Cons c t)
  have amp: "\<not> IsWhiteSpace (CHR ''&'')" by (simp add: IsWhiteSpace_def c_isspace_def)
  from Cons show ?case by (auto simp: escape_Cons amp)
qed simp

lemma parse_item:
  assumes "valid_item i" "blank ws" "reads_text doc"
  shows "ParseDeep kids doc (ws @ render ws i @ r) = ParseDeep (kids @ [item_node i]) doc r"
  using assms(1)
proof (induction i arbitrary: kids r)
  case (Value n t)
  then have n: "valid_name n" and t: "valid_text t" by simp_all
  have b: "blank []" by (simp add: blank_def)
  show ?case
  proof (cases "t = []")
    case True
    have "ParseDeep [] doc (''</'' @ n @ ''>'' @ r) = Some (Some r, sp_Set n 0, [], doc)"
      using parse_close [OF n b] by simp
    from parse_open [OF n assms(2) _ this, of kids] show ?thesis using True by simp
  next
    case False
    let ?e = "escape True t"
    have "ParseDeep [] doc (?e @ ''<'' @ CHR ''/'' # n @ ''>'' @ r)
        = ParseDeep [XMLText False (sp_Set ?e TEXT_ELEMENT)] doc (''<'' @ CHR ''/'' # n @ ''>'' @ r)"
      using t False by (intro trans [OF parse_text [OF escape_clean(3) escape_visible assms(3)]]) (auto simp: valid_text_def)
    also have "\<dots> = Some (Some r, sp_Set n 0, [XMLText False (sp_Set ?e TEXT_ELEMENT)], doc)"
      using parse_close [OF n b, of _ doc r] by simp
    finally show ?thesis using parse_open [OF n assms(2), of "?e @ ''</'' @ n @ ''>'' @ r"] False by simp
  qed
next
  case (Section n its)
  then have n: "valid_name n" by simp
  have list: "ParseDeep ks doc (concat (map (\<lambda>i. ws @ render ws i) js) @ q) = ParseDeep (ks @ map item_node js) doc q"
    if "set js \<subseteq> set its" for ks js q
    using that
  proof (induction js arbitrary: ks)
    case (Cons j js)
    then have "j \<in> set its" "valid_item j" using Section.prems by (auto simp: list_all_iff)
    from Section.IH [OF this, of ks "concat (map (\<lambda>i. ws @ render ws i) js) @ q"] Cons show ?case by simp
  qed simp
  have "ParseDeep [] doc (concat (map (\<lambda>i. ws @ render ws i) its) @ ws @ ''</'' @ n @ ''>'' @ r)
      = Some (Some r, sp_Set n 0, map item_node its, doc)"
    using list [of its "[]" "ws @ ''</'' @ n @ ''>'' @ r"] parse_close [OF n assms(2)] by simp
  from parse_open [OF n assms(2) _ this, of kids] show ?case by simp
qed


section \<open>Parsing the file\<close>

lemma valid_item_NUL: "valid_item i \<Longrightarrow> NUL \<notin> set ws \<Longrightarrow> NUL \<notin> set (render ws i)"
proof (induction i)
  case (Value n t)
  then show ?case using valid_name_NUL escape_clean(2) [of t True] by (auto simp: valid_text_def)
next
  case (Section n its)
  then show ?case using valid_name_NUL by (auto simp: list_all_iff)
qed

lemma blank_NUL: "blank ws \<Longrightarrow> NUL \<notin> set ws"
  by (auto simp: blank_def list_all_iff IsWhiteSpace_def c_isspace_def)

definition valid_decl :: "string \<Rightarrow> bool" where
  "valid_decl d = (CHR ''?'' \<notin> set d \<and> NUL \<notin> set d)"

lemma parse_file:
  assumes "valid_decl d" "blank ws" "valid_item i" "reads_text doc"
  shows "ParseDeep [] doc (render_file d ws i)
    = Some (None, str_pair_new, [XMLDeclaration (sp_Set d NEEDS_NEWLINE_NORMALIZATION), item_node i], doc)"
proof -
  let ?r = "ws @ render ws i @ ws"
  have "Identify (''<?'' @ d @ ''?>'' @ ?r) = (d @ ''?>'' @ ?r, Some (XMLDeclaration str_pair_new))"
    by (simp add: Identify_def Let_def SkipWhiteSpace_visible)
  moreover have "find_tag ''?>'' (d @ ''?>'' @ ?r) = Some (d, ?r)"
    using find_tag_hit [of "CHR ''?''" d "''>''" ?r] assms(1) by (simp add: valid_decl_def)
  ultimately have "ParseDeep [] doc (''<?'' @ d @ ''?>'' @ ?r)
      = ParseDeep [XMLDeclaration (sp_Set d NEEDS_NEWLINE_NORMALIZATION)] doc ?r"
    by (subst ParseDeep.simps) (simp add: declaration_ParseDeep_def ParseText_def report_def)
  also have "\<dots> = ParseDeep [XMLDeclaration (sp_Set d NEEDS_NEWLINE_NORMALIZATION), item_node i] doc ws"
    using parse_item [OF assms(3,2,4)] by simp
  also have "SkipWhiteSpace ws = []" using SkipWhiteSpace_blank [OF assms(2), of "[]"] by (simp add: SkipWhiteSpace_def)
  then have "ParseDeep ks doc ws = Some (None, str_pair_new, ks, doc)" for ks
    by (subst ParseDeep.simps) (simp add: Identify_def)
  finally show ?thesis by (simp add: render_file_def)
qed

lemma parse_config:
  assumes v: "valid_decl d" "blank ws" "valid_item i" and doc: "reads_text (cfg_xmldoc c)"
  shows "\<exists>c'. cfg_ParseBuffer (Some (render_file d ws i)) c = Some (0, c') \<and> cfg_root c' = RootNode (item_node i)"
proof -
  let ?s = "render_file d ws i" and ?doc = "(xml_Clear (cfg_xmldoc c))\<lparr>doc_writeBOM := False\<rparr>"
  have s: "?s = CHR ''<'' # CHR ''?'' # d @ ''?>'' @ ws @ render ws i @ ws" by (simp add: render_file_def)
  have "NUL \<notin> set ?s"
    using v valid_item_NUL [OF v(3)] blank_NUL [OF v(2)] by (auto simp: s valid_decl_def)
  then have cs: "c_str ?s = ?s" by simp
  have bom: "ReadBOM (SkipWhiteSpace ?s) = (?s, False)"
    by (simp add: s SkipWhiteSpace_visible ReadBOM_def TIXML_UTF_LEAD_def)
  have rt: "reads_text ?doc" using doc by (simp add: reads_text_def xml_Clear_def)
  have ne: "?s \<noteq> []" by (simp add: s)
  have root: "is_element (item_node i)" by (cases i) simp_all
  let ?doc' = "?doc\<lparr>doc_children := [XMLDeclaration (sp_Set d NEEDS_NEWLINE_NORMALIZATION), item_node i]\<rparr>"
  have "XMLDocument_Parse (Some ?s) (cfg_xmldoc c) = Some ?doc'"
    using parse_file [OF v rt] cs bom ne by (simp add: XMLDocument_Parse_def ParseDocument_def)
  moreover have "doc_errorID ?doc' = XML_NO_ERROR" by (simp add: xml_Clear_def)
  moreover have "RootElement ?doc' = Some (item_node i)" using root by (simp add: RootElement_def is_named_def)
  ultimately show ?thesis by (simp add: cfg_ParseBuffer_def xml_Error_def take_root_def)
qed

section \<open>Lookups\<close>

fun first_item :: "string \<Rightarrow> item list \<Rightarrow> (item \<times> item list) option" where
  "first_item k [] = None"
| "first_item k (i # its) = (if item_name i = k then Some (i, its) else first_item k its)"

fun section_of :: "string list \<Rightarrow> item list \<Rightarrow> item list option" where
  "section_of [] its = Some its"
| "section_of (k # ks) its =
     (case first_item k its of Some (Section n js, _) \<Rightarrow> section_of ks js | _ \<Rightarrow> None)"

fun values_of :: "string \<Rightarrow> item list \<Rightarrow> string list" where
  "values_of k [] = []"
| "values_of k (Value n t # its) = (if n = k then t # values_of k its else values_of k its)"
| "values_of k (Section n js # its) = values_of k its"

fun is_value :: "item \<Rightarrow> bool" where
  "is_value (Value n t) = True"
| "is_value (Section n its) = False"

fun join_path :: "string list \<Rightarrow> string \<Rightarrow> string" where
  "join_path [] k = k"
| "join_path (j # js) k = j @ ''/'' @ join_path js k"

definition valid_key :: "string \<Rightarrow> bool" where
  "valid_key k = (k \<noteq> [] \<and> CHR ''/'' \<notin> set k \<and> NUL \<notin> set k)"

lemma item_node_simps [simp]:
  "is_element (item_node i)" "XMLNode_Value (item_node i) = Some (item_name i)"
  by (cases i; simp add: XMLNode_Value_def)+

lemma is_named_item: "valid_item i \<Longrightarrow> is_named (Some k) (item_node i) \<longleftrightarrow> item_name i = k"
  by (cases i) (auto simp: is_named_def XMLNode_Value_def StringEqual_eq valid_name_def)

lemma FirstChildElement_items:
  "list_all valid_item its \<Longrightarrow> FirstChildElement (Some k) (map item_node its)
    = map_option (\<lambda>(i, js). (item_node i, map item_node js)) (first_item k its)"
  by (induction its) (auto simp: is_named_item)

lemma NextSiblingElement_items:
  "list_all valid_item its \<Longrightarrow> NextSiblingElement (Some k) (map item_node its)
    = map_option (\<lambda>(i, js). (item_node i, map item_node js)) (first_item k its)"
  by (induction its) (auto simp: is_named_item)

lemma first_item_SomeD:
  "first_item k its = Some (i, js) \<Longrightarrow> item_name i = k \<and> i \<in> set its \<and> set js \<subseteq> set its
    \<and> values_of k its = values_of k (i # js)"
proof (induction its)
  case (Cons a its)
  then show ?case by (cases a) (auto split: if_splits)
qed simp

lemma first_item_None: "first_item k its = None \<Longrightarrow> values_of k its = []"
proof (induction its)
  case (Cons a its)
  then show ?case by (cases a) (auto split: if_splits)
qed simp

lemma cfg_find_items:
  assumes "list_all valid_item its" "section_of ks its = Some js" "list_all valid_key ks" "valid_key k"
  shows "cfg_find (map item_node its) (join_path ks k) = FirstChildElement (Some k) (map item_node js) \<and> list_all valid_item js"
  using assms
proof (induction ks arbitrary: its)
  case Nil
  have "CHR ''/'' \<notin> set k \<Longrightarrow> find_tag ''/'' k = None" by (induction k) auto
  with Nil show ?case by (subst cfg_find.simps) (simp add: valid_key_def)
next
  case (Cons x ks)
  then obtain n ys r where f: "first_item x its = Some (Section n ys, r)" and s: "section_of ks ys = Some js"
    by (auto split: option.splits item.splits)
  have ys: "list_all valid_item ys" using first_item_SomeD [OF f] Cons.prems(1) by (auto simp: list_all_iff)
  have x: "valid_key x" "list_all valid_key ks" using Cons.prems by simp_all
  have "find_tag ''/'' (join_path (x # ks) k) = Some (x, join_path ks k)"
    using find_tag_hit [of "CHR ''/''" x "[]" "join_path ks k"] x(1) by (simp add: valid_key_def)
  then show ?case
    using Cons.IH [OF ys s x(2) Cons.prems(4)] FirstChildElement_items [OF Cons.prems(1), of x] f x(1)
    by (subst cfg_find.simps) (simp add: valid_key_def)
qed

lemma last_key_path: "CHR ''/'' \<notin> set k \<Longrightarrow> last_key (join_path ks k) = k"
proof -
  assume k: "CHR ''/'' \<notin> set k"
  have "takeWhile (\<lambda>c. c \<noteq> CHR ''/'') (rev (join_path ks k)) = rev k" for ks
  proof (cases ks rule: rev_cases)
    case Nil
    have "takeWhile (\<lambda>c. c \<noteq> CHR ''/'') (rev k) = rev k" using k by (intro takeWhile_all_id) auto
    with Nil show ?thesis by simp
  next
    case (snoc js j)
    have "\<exists>a. join_path (js @ [j]) k = a @ CHR ''/'' # k"
    proof (induction js)
      case (Cons y ys)
      then obtain a where "join_path (ys @ [j]) k = a @ CHR ''/'' # k" by blast
      then have "join_path ((y # ys) @ [j]) k = (y @ CHR ''/'' # a) @ CHR ''/'' # k" by simp
      then show ?case by blast
    qed simp
    then obtain a where "join_path ks k = a @ CHR ''/'' # k" using snoc by blast
    then show ?thesis using takeWhile_append_hit [of "rev k" "\<lambda>c. c \<noteq> CHR ''/''" "CHR ''/''" "rev a"] k by fastforce
  qed
  then show "last_key (join_path ks k) = k" by (simp add: last_key_def)
qed

lemma inner_text_value:
  assumes "valid_item (Value n t)" shows "inner_text (item_node (Value n t)) = Some (escape True t)"
proof -
  have t: "CR \<notin> set t" "NUL \<notin> set t" using assms by (auto simp: valid_text_def)
  show ?thesis
    using GetStr_escape [OF t, of True] escape_clean(2) [OF t(2), of True]
    by (auto simp: inner_text_def InnerAccept_def CStr_def PushText_def PrintString_def pr_Print_def seal_open_def
        xml_printer_new_def Let_def c_str_def)
qed

lemma parameter_list_items:
  assumes "list_all valid_item (Value k t # its)" "\<forall>i\<in>set its. item_name i = k \<longrightarrow> is_value i"
  shows "parameter_list k (item_node (Value k t)) (map item_node its) = Some (map (escape True) (t # values_of k its))"
  using assms
proof (induction "length its" arbitrary: t its rule: less_induct)
  case less
  have v: "list_all valid_item its" "valid_item (Value k t)" using less.prems(1) by simp_all
  show ?case
  proof (cases "first_item k its")
    case None
    with first_item_None [OF None] show ?thesis
      by (subst parameter_list.simps) (simp add: inner_text_value [OF v(2), simplified] NextSiblingElement_items [OF v(1)])
  next
    case (Some p)
    obtain i js where p: "p = (i, js)" by fastforce
    note d = first_item_SomeD [OF Some [unfolded p]]
    then obtain u where i: "i = Value k u" using less.prems(2) by (cases i) auto
    have l: "length js < length its"
      using NextSiblingElement_shorter [of "Some k" "map item_node its" "item_node i" "map item_node js"]
      by (simp add: NextSiblingElement_items [OF v(1)] Some p)
    have "list_all valid_item (Value k u # js)" "\<forall>i\<in>set js. item_name i = k \<longrightarrow> is_value i"
      using d i v(1) less.prems(2) by (auto simp: list_all_iff)
    from less.hyps [OF l this] show ?thesis
      using d i by (subst parameter_list.simps)
        (simp add: inner_text_value [OF v(2), simplified] NextSiblingElement_items [OF v(1)] Some p)
  qed
qed

text \<open>
  C30. What the program reads from a configuration file is what the file says: the text of the file is
  parsed without an error, and for each section and each key of it \<open>GetParameters\<close> returns the values of
  that key in their order, and \<open>GetParameter\<close> the first one, each escaped as the file has it: a value
  that contains an ampersand or an angle bracket comes back as its entity.
\<close>

theorem configuration_values_are_read:
  assumes conf: "valid_decl d" "blank ws" "valid_item (Section n its)" and doc: "reads_text (cfg_xmldoc c)"
    and path: "section_of ks its = Some js" "list_all valid_key ks" "valid_key k"
    and vals: "\<forall>i\<in>set js. item_name i = k \<longrightarrow> is_value i"
  shows "\<exists>c'. cfg_ParseBuffer (Some (render_file d ws (Section n its))) c = Some (0, c')
    \<and> GetParameters (join_path ks k) c' = Some (map (escape True) (values_of k js))
    \<and> GetParameter (join_path ks k) c'
      = Some (case values_of k js of [] \<Rightarrow> [] | t # ts \<Rightarrow> escape True t)"
proof -
  obtain c' where parse: "cfg_ParseBuffer (Some (render_file d ws (Section n its))) c = Some (0, c')"
    and root: "cfg_root c' = RootNode (item_node (Section n its))" using parse_config [OF conf doc] by blast
  have its: "list_all valid_item its" using conf(3) by simp
  have f: "cfg_find (map item_node its) (join_path ks k) = FirstChildElement (Some k) (map item_node js)"
    and js: "list_all valid_item js" using cfg_find_items [OF its path] by simp_all
  have k: "c_str (last_key (join_path ks k)) = k" using path(3) by (simp add: last_key_path valid_key_def)
  have "GetParameters (join_path ks k) c' = Some (map (escape True) (values_of k js))
    \<and> GetParameter (join_path ks k) c' = Some (case values_of k js of [] \<Rightarrow> [] | t # ts \<Rightarrow> escape True t)"
  proof (cases "first_item k js")
    case None
    with first_item_None [OF None] show ?thesis
      by (simp add: GetParameters_def GetParameter_def root f FirstChildElement_items [OF js])
  next
    case (Some p)
    obtain i rest where p: "p = (i, rest)" by fastforce
    note d = first_item_SomeD [OF Some [unfolded p]]
    then obtain t where i: "i = Value k t" using vals by (cases i) auto
    have v: "list_all valid_item (Value k t # rest)" "\<forall>i\<in>set rest. item_name i = k \<longrightarrow> is_value i"
      using d i js vals by (auto simp: list_all_iff)
    show ?thesis
      using parameter_list_items [OF v] inner_text_value [of k t] v(1) d i
      by (simp add: GetParameters_def GetParameter_def root f FirstChildElement_items [OF js] Some p k)
  qed
  with parse show ?thesis by blast
qed

definition sample_config :: item where
  "sample_config = Section ''parameters''
     [Value ''netthread'' ''5'', Section ''server'' [Value ''addr'' ''a&b'', Value ''addr'' ''c'']]"

theorem configuration_values_are_read_witness:
  "\<exists>c'. cfg_ParseBuffer (Some (render_file ''xml'' '' '' sample_config)) xml_config_new = Some (0, c')
    \<and> GetParameters (join_path [''server''] ''addr'') c' = Some (map (escape True) [''a&b'', ''c''])
    \<and> GetParameter (join_path [''server''] ''addr'') c' = Some (escape True ''a&b'')"
proof -
  have "\<exists>c'. cfg_ParseBuffer (Some (render_file ''xml'' '' '' sample_config)) xml_config_new = Some (0, c')
    \<and> GetParameters (join_path [''server''] ''addr'') c'
      = Some (map (escape True) (values_of ''addr'' [Value ''addr'' ''a&b'', Value ''addr'' ''c'']))
    \<and> GetParameter (join_path [''server''] ''addr'') c'
      = Some (case values_of ''addr'' [Value ''addr'' ''a&b'', Value ''addr'' ''c''] of [] \<Rightarrow> [] | t # ts \<Rightarrow> escape True t)"
    unfolding sample_config_def
    by (rule configuration_values_are_read)
       (simp_all add: valid_decl_def blank_def valid_name_def valid_text_def valid_key_def IsWhiteSpace_def
          IsNameStartChar_def IsNameChar_def IsUTF8Continuation_def c_isspace_def c_isupper_def c_islower_def c_isdigit_def
          reads_text_def xml_config_new_def xml_document_new_def)
  then show ?thesis by simp
qed

end
