(* ===== verification/XmlTreeProps.thy ===== *)
theory XmlTreeProps
  imports XmlTextProps
begin

text \<open>
  Well-formedness of the trees that the parser builds, whatever text it is given.
\<close>

definition name_ok :: "str_pair \<Rightarrow> bool" where
  "name_ok sp = (sp_flags sp = NEEDS_FLUSH \<and> sp_text sp \<noteq> [] \<and> name_piece (sp_text sp) = sp_text sp)"

definition attributes_ok :: "xml_attribute list \<Rightarrow> bool" where
  "attributes_ok as = (list_all (\<lambda>a. name_ok (at_name a)) as
    \<and> distinct (map (\<lambda>a. take (nat INT_MAX) (sp_text (at_name a))) as))"

fun wf_node :: "xml_node \<Rightarrow> bool" where
  "wf_node (XMLText cdata v) = (cdata \<or> sp_text v \<noteq> [] \<and> CHR ''<'' \<notin> set (sp_text v))"
| "wf_node (XMLElement v ct as kids) =
     (name_ok v \<and> ct \<noteq> CLOSING \<and> (ct = CLOSED \<longrightarrow> kids = []) \<and> attributes_ok as \<and> list_all wf_node kids)"
| "wf_node n = True"

lemma name_ok_Set: "name_ok (sp_Set n 0) \<longleftrightarrow> n \<noteq> [] \<and> name_piece n = n"
  by (simp add: name_ok_def sp_Set_def)

lemma name_piece_idem: "name_piece (name_piece p) = name_piece p"
proof (cases p)
  case (Cons c s)
  have "takeWhile IsNameChar (takeWhile IsNameChar s) = takeWhile IsNameChar s"
    by (rule takeWhile_all_id) (auto dest: set_takeWhileD)
  with Cons show ?thesis by simp
qed simp

lemma ParseName_ok: "ParseName p sp = (Some r, v) \<Longrightarrow> name_ok v"
  by (auto simp: ParseName_def Let_def name_ok_Set name_piece_idem split: if_splits)

lemma GetStr_name_ok: "name_ok v \<Longrightarrow> GetStr v = Some (sp_text v)"
  by (simp add: name_ok_def GetStr_def NEEDS_FLUSH_def COLLAPSE_WHITESPACE_def Let_def)

lemma attribute_name_ok:
  assumes "attribute_ParseDeep pe p = (Some r, a)" shows "name_ok (at_name a)"
proof -
  obtain p1 v where n: "ParseName p str_pair_new = (p1, v)" by fastforce
  with assms obtain s where s: "p1 = Some s" by (cases p1) (auto simp: attribute_ParseDeep_def Let_def)
  have "at_name a = v"
    using assms n s by (auto simp: attribute_ParseDeep_def Let_def split: list.splits if_splits prod.splits char.splits bool.splits)
  with n s ParseName_ok show ?thesis by blast
qed

lemma FindAttribute_None:
  assumes "FindAttribute n as = None" "list_all (\<lambda>a. name_ok (at_name a)) as" "a \<in> set as"
  shows "take (nat INT_MAX) (sp_text (at_name a)) \<noteq> take (nat INT_MAX) n"
  using assms
proof (induction as)
  case (Cons b as)
  then have "\<not> StringEqual (sp_text (at_name b)) n INT_MAX" "FindAttribute n as = None"
    by (auto simp: GetStr_name_ok split: if_splits)
  with Cons show ?case by (auto simp: StringEqual_iff INT_MAX_def)
qed simp

lemma ParseAttributes_ok:
  "ParseAttributes_loop start name as ct p doc = Some (q, ct', as', doc') \<Longrightarrow> attributes_ok as
    \<Longrightarrow> attributes_ok as' \<and> (ct' = ct \<or> ct' = CLOSED)"
proof (induction start name as ct p doc rule: ParseAttributes_loop.induct)
  case (1 start name as ct p doc)
  note eq = 1(2) [unfolded ParseAttributes_loop.simps [of start name as ct p doc]]
  show ?case
  proof (cases "SkipWhiteSpace p")
    case Nil
    with eq 1(3) show ?thesis by auto
  next
    case (Cons c r)
    show ?thesis
    proof (cases "\<exists>p' a n. IsNameStartChar c \<and> attribute_ParseDeep (doc_processEntities doc) (c # r) = (Some p', a)
        \<and> GetStr (at_name a) = Some n \<and> FindAttribute n as = None")
      case True
      then obtain p' a n where t: "IsNameStartChar c" "attribute_ParseDeep (doc_processEntities doc) (c # r) = (Some p', a)"
        "GetStr (at_name a) = Some n" "FindAttribute n as = None" by blast
      have a: "name_ok (at_name a)" using attribute_name_ok t(2) by blast
      then have "n = sp_text (at_name a)" using t(3) by (simp add: GetStr_name_ok)
      then have "attributes_ok (as @ [a])"
        using 1(3) a FindAttribute_None [OF t(4)] by (fastforce simp: attributes_ok_def)
      moreover have "ParseAttributes_loop start name (as @ [a]) ct p' doc = Some (q, ct', as', doc')"
        using eq Cons t by simp
      ultimately show ?thesis using 1(1) [OF Cons t(1) t(2) [symmetric] refl t(3,4)] by blast
    next
      case False
      with eq Cons 1(3) show ?thesis by (auto split: if_splits prod.splits option.splits)
    qed
  qed
qed

lemma element_open_ok:
  assumes "element_open p doc = Some (p1, name, ct, as, doc1)"
  shows "attributes_ok as \<and> (p1 \<noteq> None \<longrightarrow> name_ok name)"
proof -
  let ?u = "if take 1 (SkipWhiteSpace p) = ''/'' then drop 1 (SkipWhiteSpace p) else SkipWhiteSpace p"
  obtain q v where n: "ParseName ?u str_pair_new = (q, v)" by fastforce
  have none: "attributes_ok []" by (simp add: attributes_ok_def)
  show ?thesis
  proof (cases q)
    case None
    with assms n none show ?thesis by (simp add: element_open_def Let_def)
  next
    case (Some s)
    let ?ct = "if take 1 (SkipWhiteSpace p) = ''/'' then CLOSING else OPEN"
    have "element_open p doc = map_option (\<lambda>(p2, ct', as, doc'). (p2, v, ct', as, doc')) (ParseAttributes_loop s v [] ?ct s doc)"
      by (simp only: element_open_def Let_def n Some prod.case option.case)
    with assms have a: "ParseAttributes_loop s v [] ?ct s doc = Some (p1, ct, as, doc1)" and v: "name = v"
      by (auto simp del: if_split)
    have "name_ok v" using n ParseName_ok unfolding Some by blast
    with ParseAttributes_ok [OF a none] show ?thesis by (simp add: v)
  qed
qed

lemma leaf_wf:
  assumes "Identify p = (q, Some node)" "\<not> is_element node" "leaf_ParseDeep node q doc = (Some r, node', doc1)"
  shows "wf_node node'"
proof (cases "\<exists>v. node = XMLText False v")
  case True
  then obtain v where node: "node = XMLText False v" by blast
  have q: "q = p" using assms(1) node by (auto simp: Identify_def Let_def split: if_splits)
  from assms(3) node obtain a b flags where f: "find_tag ''<'' p = Some (a, b)" and n: "node' = XMLText False (sp_Set a flags)"
    by (auto simp: q text_ParseDeep_def ParseText_def Let_def split: option.splits prod.splits list.splits)
  have "CHR ''<'' \<notin> set a" using f
  proof (induction p arbitrary: a)
    case (Cons c p)
    then show ?case by (auto split: if_splits)
  qed simp
  moreover have "a \<noteq> []" using text_piece_nonempty assms(1) node f by blast
  ultimately show ?thesis by (simp add: n sp_Set_def)
next
  case False
  then show ?thesis
    using assms(2,3) by (cases node) (auto simp: leaf_defs Let_def split: prod.splits if_splits)
qed

lemma end_matches_open: "end_matches name ct endTag \<Longrightarrow> sp_Empty endTag \<Longrightarrow> ct \<noteq> OPEN"
  by (auto simp: end_matches_def)

lemma ParseDeep_wf:
  "ParseDeep kids doc p = Some (q, e, kids', doc') \<Longrightarrow> list_all wf_node kids \<Longrightarrow> list_all wf_node kids'"
proof (induction kids doc p arbitrary: q e kids' doc' rule: ParseDeep.induct)
  case (1 kids doc p)
  note eq = 1(4) [unfolded ParseDeep.simps [of kids doc p]]
  show ?case
  proof (cases "\<exists>u node. p \<noteq> [] \<and> Identify p = (u, Some node)")
    case False
    with eq 1(5) show ?thesis by (auto split: if_splits prod.splits option.splits)
  next
    case True
    then obtain u node where p: "p \<noteq> []" and i: "Identify p = (u, Some node)" by blast
    show ?thesis
    proof (cases "is_element node")
      case e: True
      obtain p1 name ct as doc1 where o: "element_open u doc = Some (p1, name, ct, as, doc1)"
        using eq p i e by (cases "element_open u doc") auto
      let ?inner = "if p1 = None \<or> p1 = Some [] \<or> ct \<noteq> OPEN then Some (p1, str_pair_new, [], doc1)
                    else ParseDeep [] doc1 (the p1)"
      show ?thesis
      proof (cases "\<exists>r endTag kids1 doc2. ?inner = Some (Some r, endTag, kids1, doc2) \<and> ct \<noteq> CLOSING \<and> end_matches name ct endTag")
        case False
        with eq p i e o 1(5) show ?thesis by (auto split: if_splits option.splits prod.splits)
      next
        case True
        then obtain r endTag kids1 doc2 where inner: "?inner = Some (Some r, endTag, kids1, doc2)"
          and ct: "ct \<noteq> CLOSING" and m: "end_matches name ct endTag" by blast
        have k1: "list_all wf_node kids1"
        proof (cases "p1 = None \<or> p1 = Some [] \<or> ct \<noteq> OPEN")
          case t: True
          with inner show ?thesis by (auto split: if_splits)
        next
          case f: False
          then have "ParseDeep [] doc1 (the p1) = Some (Some r, endTag, kids1, doc2)" using inner unfolding if_not_P [OF f] by blast
          with 1(1) [OF p i [symmetric] refl refl e o refl refl refl refl f] show ?thesis by simp
        qed
        have "ct = CLOSED \<longrightarrow> kids1 = []" using inner by auto
        moreover have "p1 \<noteq> None" using inner by (cases p1) auto
        ultimately have "wf_node (XMLElement name ct as kids1)" using element_open_ok [OF o] ct k1 by simp
        moreover have "ParseDeep (kids @ [XMLElement name ct as kids1]) doc2 r = Some (q, e, kids', doc')"
          using eq p i e o inner ct m by simp
        ultimately show ?thesis
          using 1(2) [OF p i [symmetric] refl refl e o refl refl refl refl inner refl refl refl refl ct m] 1(5) by simp
      qed
    next
      case e: False
      obtain r node' doc1 where l: "leaf_ParseDeep node u doc = (r, node', doc1)" by (cases "leaf_ParseDeep node u doc") auto
      show ?thesis
      proof (cases r)
        case None
        with eq p i e l 1(5) show ?thesis by auto
      next
        case (Some s)
        then have "wf_node node'" using leaf_wf i e l by blast
        moreover have "ParseDeep (kids @ [node']) doc1 s = Some (q, e, kids', doc')" using eq p i e l Some by simp
        ultimately show ?thesis using 1(3) [OF p i [symmetric] refl refl e l [symmetric] Some refl] 1(5) by simp
      qed
    qed
  qed
qed

lemma ParseDocument_wf:
  assumes "ParseDocument buf doc = Some doc'" "doc_children doc = []"
  shows "list_all wf_node (doc_children doc')"
  using assms
  by (auto simp: ParseDocument_def xml_SetError_def Let_def split: prod.splits if_splits dest: ParseDeep_wf)



end
