(* ===== verification/XmlPool.thy ===== *)
theory XmlPool
  imports XmlText
begin

text \<open>
  The memory of the XML library (\<open>DynArray\<close>, \<open>MemPool\<close> and \<open>MemPoolT\<close> of frame/tinyxml2/tinyxml2.h): the
  array the printer writes into and the pools the nodes of a document come from. A pool hands out the
  chunks of its blocks; a chunk that is not handed out holds the pointer to the next free one in the bytes
  of the item. The chunks of all blocks are numbered one behind the other, and a chunk number stands for
  the address.

  A result \<open>None\<close> is undefined behaviour: an index outside the array, an element that was never written,
  an item whose bytes are read as the pointer of a free chunk, or a size beyond \<open>int\<close>.
\<close>

section \<open>Growing arrays\<close>

record 'a dyn_array =
  da_mem :: "'a option list" \<comment> \<open>\<open>None\<close>: not written yet\<close>
  da_allocated :: int
  da_size :: int

definition da_new :: "nat \<Rightarrow> 'a dyn_array" where
  "da_new INIT = \<lparr>da_mem = replicate INIT None, da_allocated = int INIT, da_size = 0\<rparr>"

definition da_Clear :: "'a dyn_array \<Rightarrow> 'a dyn_array" where
  "da_Clear a = a\<lparr>da_size := 0\<rparr>"

definition EnsureCapacity :: "int \<Rightarrow> 'a dyn_array \<Rightarrow> 'a dyn_array option" where
  "EnsureCapacity cap a =
     (if da_allocated a < cap then do {
        defined_if (cap * 2 \<le> INT_MAX);
        let newAllocated = cap * 2;
        Some (a\<lparr>da_mem := take (nat (da_size a)) (da_mem a) @ replicate (nat newAllocated - nat (da_size a)) None,
                da_allocated := newAllocated\<rparr>)
      } else Some a)"

definition da_write :: "int \<Rightarrow> 'a \<Rightarrow> 'a dyn_array \<Rightarrow> 'a dyn_array option" where
  \<comment> \<open>\<open>_mem[i] = t\<close>\<close>
  "da_write i t a = do {
     defined_if (0 \<le> i \<and> i < int (length (da_mem a)));
     Some (a\<lparr>da_mem := (da_mem a)[nat i := Some t]\<rparr>)
   }"

definition da_read :: "int \<Rightarrow> 'a dyn_array \<Rightarrow> 'a option" where
  \<comment> \<open>\<open>_mem[i]\<close>\<close>
  "da_read i a = do {
     defined_if (0 \<le> i \<and> i < int (length (da_mem a)));
     da_mem a ! nat i
   }"

definition da_Push :: "'a \<Rightarrow> 'a dyn_array \<Rightarrow> 'a dyn_array option" where
  "da_Push t a = do {
     a1 \<leftarrow> EnsureCapacity (da_size a + 1) a;
     a2 \<leftarrow> da_write (da_size a1) t a1;
     Some (a2\<lparr>da_size := da_size a2 + 1\<rparr>)
   }"

definition da_PushArr :: "int \<Rightarrow> 'a dyn_array \<Rightarrow> (int \<times> 'a dyn_array) option" where
  \<comment> \<open>with the index of the first new element\<close>
  "da_PushArr n a = do {
     a1 \<leftarrow> EnsureCapacity (da_size a + n) a;
     Some (da_size a1, a1\<lparr>da_size := da_size a1 + n\<rparr>)
   }"

definition da_Pop :: "'a dyn_array \<Rightarrow> ('a \<times> 'a dyn_array) option" where
  "da_Pop a = (let a1 = a\<lparr>da_size := da_size a - 1\<rparr> in map_option (\<lambda>t. (t, a1)) (da_read (da_size a1) a1))"

definition da_PopArr :: "int \<Rightarrow> 'a dyn_array \<Rightarrow> 'a dyn_array" where
  "da_PopArr n a = a\<lparr>da_size := da_size a - n\<rparr>"

definition da_Empty :: "'a dyn_array \<Rightarrow> bool" where
  "da_Empty a = (da_size a = 0)"

definition da_PeekTop :: "'a dyn_array \<Rightarrow> 'a option" where
  "da_PeekTop a = da_read (da_size a - 1) a"

text \<open>What the array holds.\<close>

definition da_holds :: "'a dyn_array \<Rightarrow> 'a list \<Rightarrow> bool" where
  "da_holds a xs \<longleftrightarrow> da_size a = int (length xs) \<and> int (length (da_mem a)) = da_allocated a
     \<and> length xs \<le> length (da_mem a) \<and> take (length xs) (da_mem a) = map Some xs"

definition da_room :: "int \<Rightarrow> 'a dyn_array \<Rightarrow> bool" where
  \<comment> \<open>an array of that many elements can be allocated\<close>
  "da_room n a \<longleftrightarrow> n \<le> da_allocated a \<or> n * 2 \<le> INT_MAX"

lemma da_new_holds: "da_holds (da_new INIT) []"
  by (simp add: da_holds_def da_new_def)

lemma da_Clear_holds: "da_holds a xs \<Longrightarrow> da_holds (da_Clear a) []"
  by (simp add: da_holds_def da_Clear_def)

lemma EnsureCapacity_holds:
  assumes "da_holds a xs" "da_room cap a" "0 \<le> cap"
  shows "\<exists>a'. EnsureCapacity cap a = Some a' \<and> da_holds a' xs \<and> cap \<le> da_allocated a' \<and> da_size a' = da_size a"
proof (cases "da_allocated a < cap")
  case True
  then have "cap * 2 \<le> INT_MAX" using assms(2) by (simp add: da_room_def)
  moreover have "length xs \<le> length (da_mem a)" "da_size a = int (length xs)" "int (length (da_mem a)) = da_allocated a"
    "take (length xs) (da_mem a) = map Some xs"
    using assms(1) by (simp_all add: da_holds_def)
  ultimately show ?thesis using True assms(3) by (simp add: EnsureCapacity_def da_holds_def Let_def)
next
  case False
  with assms(1) show ?thesis by (simp add: EnsureCapacity_def)
qed

lemma da_Push_holds:
  assumes "da_holds a xs" "da_room (da_size a + 1) a"
  shows "\<exists>a'. da_Push t a = Some a' \<and> da_holds a' (xs @ [t])"
proof -
  have "0 \<le> da_size a + 1" using assms(1) by (simp add: da_holds_def)
  from EnsureCapacity_holds [OF assms this] obtain a1
    where a1: "EnsureCapacity (da_size a + 1) a = Some a1" "da_holds a1 xs" "da_size a + 1 \<le> da_allocated a1"
      "da_size a1 = da_size a" by blast
  have n: "length xs < length (da_mem a1)" "da_size a = int (length xs)" "nat (da_size a) = length xs" "take (length xs) (da_mem a1) = map Some xs"
    using a1(2,3,4) assms(1) by (simp_all add: da_holds_def)
  have "take (Suc (length xs)) ((da_mem a1)[length xs := Some t]) = map Some (xs @ [t])"
    using n by (simp add: take_Suc_conv_app_nth)
  with a1 n show ?thesis by (simp add: da_Push_def da_write_def da_holds_def)
qed

lemma da_Pop_holds: "da_holds a (xs @ [t]) \<Longrightarrow> \<exists>a'. da_Pop a = Some (t, a') \<and> da_holds a' xs"
proof -
  assume h: "da_holds a (xs @ [t])"
  then have m: "take (Suc (length xs)) (da_mem a) = map Some xs @ [Some t]" "Suc (length xs) \<le> length (da_mem a)"
    by (simp_all add: da_holds_def)
  from m have "da_mem a ! length xs = Some t" "take (length xs) (da_mem a) = map Some xs"
    by (simp_all add: take_Suc_conv_app_nth)
  with h m(2) show ?thesis by (simp add: da_Pop_def da_read_def da_holds_def)
qed

section \<open>Pools\<close>

datatype 'a chunk = ChunkNext "nat option" | ChunkItem 'a

record 'a mem_pool =
  mp_SIZE :: nat
  mp_chunks :: "'a chunk list"
  mp_blockPtrs :: "nat dyn_array"
  mp_root :: "nat option"
  mp_currentAllocs :: int
  mp_nAllocs :: int
  mp_maxAllocs :: int
  mp_nUntracked :: int

definition pool_new :: "nat \<Rightarrow> 'a mem_pool" where
  "pool_new SIZE =
     \<lparr>mp_SIZE = SIZE, mp_chunks = [], mp_blockPtrs = da_new 10, mp_root = None,
      mp_currentAllocs = 0, mp_nAllocs = 0, mp_maxAllocs = 0, mp_nUntracked = 0\<rparr>"

definition pool_COUNT :: "'a mem_pool \<Rightarrow> nat" where
  "pool_COUNT p = 4 * 1024 div mp_SIZE p"

definition new_block :: "nat \<Rightarrow> nat \<Rightarrow> 'a chunk list" where
  \<comment> \<open>the chunks of a block that begins at \<open>base\<close>, each linked to the next one\<close>
  "new_block base COUNT =
     map (\<lambda>i. ChunkNext (if i < COUNT - 1 then Some (base + i + 1) else None)) [0..<COUNT]"

definition pool_grow :: "'a mem_pool \<Rightarrow> 'a mem_pool option" where
  "pool_grow p = do {
     let base = length (mp_chunks p);
     ptrs \<leftarrow> da_Push base (mp_blockPtrs p);
     Some (p\<lparr>mp_blockPtrs := ptrs, mp_chunks := mp_chunks p @ new_block base (pool_COUNT p), mp_root := Some base\<rparr>)
   }"

fun chunk_next :: "'a chunk \<Rightarrow> nat option option" where
  "chunk_next (ChunkNext n) = Some n"
| "chunk_next (ChunkItem x) = None"

definition pool_Alloc :: "'a \<Rightarrow> 'a mem_pool \<Rightarrow> (nat \<times> 'a mem_pool) option" where
  \<comment> \<open>\<open>new (pool.Alloc()) T\<close>: the item is constructed in the chunk at once\<close>
  "pool_Alloc x p = do {
     p1 \<leftarrow> (if mp_root p = None then pool_grow p else Some p);
     result \<leftarrow> mp_root p1;
     defined_if (result < length (mp_chunks p1));
     nxt \<leftarrow> chunk_next (mp_chunks p1 ! result);
     Some (result,
       p1\<lparr>mp_root := nxt,
          mp_currentAllocs := mp_currentAllocs p1 + 1,
          mp_maxAllocs := max (mp_maxAllocs p1) (mp_currentAllocs p1 + 1),
          mp_nAllocs := mp_nAllocs p1 + 1,
          mp_nUntracked := mp_nUntracked p1 + 1,
          mp_chunks := (mp_chunks p1)[result := ChunkItem x]\<rparr>)
   }"

definition pool_Free :: "nat option \<Rightarrow> 'a mem_pool \<Rightarrow> 'a mem_pool option" where
  "pool_Free mem p =
     (case mem of
        None \<Rightarrow> Some p
      | Some i \<Rightarrow> do {
          defined_if (i < length (mp_chunks p));
          Some (p\<lparr>mp_currentAllocs := mp_currentAllocs p - 1,
                  mp_chunks := (mp_chunks p)[i := ChunkNext (mp_root p)], mp_root := Some i\<rparr>)
        })"

definition pool_SetTracked :: "'a mem_pool \<Rightarrow> 'a mem_pool" where
  "pool_SetTracked p = p\<lparr>mp_nUntracked := mp_nUntracked p - 1\<rparr>"

definition pool_item :: "nat \<Rightarrow> 'a mem_pool \<Rightarrow> 'a option" where
  \<comment> \<open>the item at an address; none if the chunk is free\<close>
  "pool_item i p =
     (if i < length (mp_chunks p) then (case mp_chunks p ! i of ChunkItem x \<Rightarrow> Some x | ChunkNext n \<Rightarrow> None) else None)"

definition pool_write :: "nat \<Rightarrow> 'a \<Rightarrow> 'a mem_pool \<Rightarrow> 'a mem_pool" where
  \<comment> \<open>an assignment to the item at an address\<close>
  "pool_write i x p = p\<lparr>mp_chunks := (mp_chunks p)[i := ChunkItem x]\<rparr>"

section \<open>What an allocator promises\<close>

locale allocator =
  fixes ok :: "'p \<Rightarrow> bool" and room :: "'p \<Rightarrow> bool" and item :: "nat \<Rightarrow> 'p \<Rightarrow> 'x option"
    and alloc :: "'x \<Rightarrow> 'p \<Rightarrow> (nat \<times> 'p) option" and free :: "nat option \<Rightarrow> 'p \<Rightarrow> 'p option"
  assumes alloc_defined: "ok p \<Longrightarrow> room p \<Longrightarrow> alloc x p \<noteq> None"
    and alloc_ok: "ok p \<Longrightarrow> alloc x p = Some (i, q) \<Longrightarrow> ok q"
    and alloc_fresh: "ok p \<Longrightarrow> alloc x p = Some (i, q) \<Longrightarrow> item i p = None"
    and alloc_item: "ok p \<Longrightarrow> alloc x p = Some (i, q) \<Longrightarrow> item j q = (if j = i then Some x else item j p)"
    and free_ok: "ok p \<Longrightarrow> item i p \<noteq> None \<Longrightarrow> \<exists>q. free (Some i) p = Some q \<and> ok q"
    and free_item: "ok p \<Longrightarrow> item i p \<noteq> None \<Longrightarrow> free (Some i) p = Some q \<Longrightarrow>
      item j q = (if j = i then None else item j p)"
begin

text \<open>
  A client allocates and frees in any order, but frees only what it holds. \<open>serve\<close> runs its requests and
  keeps what was handed out and not taken back.
\<close>

fun serve :: "('x + nat) list \<Rightarrow> 'p \<Rightarrow> (nat \<rightharpoonup> 'x) \<Rightarrow> ('p \<times> (nat \<rightharpoonup> 'x)) option" where
  "serve [] p m = Some (p, m)"
| "serve (Inl x # rs) p m = Option.bind (alloc x p) (\<lambda>(i, q). serve rs q (m(i \<mapsto> x)))"
| "serve (Inr i # rs) p m = (if m i = None then None else Option.bind (free (Some i) p) (\<lambda>q. serve rs q (m(i := None))))"

lemma serve_holds:
  "serve rs p m = Some (q, m') \<Longrightarrow> ok p \<Longrightarrow> (\<And>i. item i p = m i) \<Longrightarrow> ok q \<and> (\<forall>i. item i q = m' i)"
proof (induction rs p m rule: serve.induct)
  case (2 x rs p m)
  then obtain i r where a: "alloc x p = Some (i, r)" and s: "serve rs r (m(i \<mapsto> x)) = Some (q, m')"
    by (auto simp: bind_eq_Some_iff)
  show ?case
    by (rule 2(1) [OF a refl s alloc_ok [OF 2(3) a]]) (use alloc_item [OF 2(3) a] 2(4) in simp)
next
  case (3 i rs p m)
  then obtain r where m: "m i \<noteq> None" and f: "free (Some i) p = Some r" and s: "serve rs r (m(i := None)) = Some (q, m')"
    by (auto simp: bind_eq_Some_iff split: if_splits)
  have i: "item i p \<noteq> None" using m 3(4) by simp
  show ?case
    by (rule 3(1) [OF m f s]) (use free_ok [OF 3(3) i] free_item [OF 3(3) i f] f 3(4) in auto)
qed auto

lemma served_items_are_kept:
  assumes "serve rs p (\<lambda>_. None) = Some (q, m)" "ok p" "\<And>i. item i p = None" "room q"
  shows "\<exists>i r. alloc x q = Some (i, r) \<and> m i = None \<and> item i r = Some x \<and> (\<forall>j. m j \<noteq> None \<longrightarrow> item j r = m j)"
proof -
  have q: "ok q" "item i q = m i" for i using serve_holds [OF assms(1,2)] assms(3) by simp_all
  obtain i r where a: "alloc x q = Some (i, r)" using alloc_defined [OF q(1) assms(4)] by fastforce
  show ?thesis using alloc_fresh [OF q(1) a] alloc_item [OF q(1) a] q(2) a by (intro exI [of _ i] exI [of _ r]) auto
qed

lemma serve_total:
  assumes "ok p" "\<And>i. item i p = m i" "room p"
  shows "serve [Inl x] p m \<noteq> None" "m i \<noteq> None \<Longrightarrow> serve [Inr i] p m \<noteq> None"
proof -
  obtain j q where "alloc x p = Some (j, q)" using alloc_defined [OF assms(1,3)] by fastforce
  then show "serve [Inl x] p m \<noteq> None" by simp
next
  assume "m i \<noteq> None"
  moreover from this obtain q where "free (Some i) p = Some q" using free_ok [OF assms(1), of i] assms(2) by auto
  ultimately show "serve [Inr i] p m \<noteq> None" by simp
qed

end

section \<open>The free list\<close>

fun free_chain :: "'a chunk list \<Rightarrow> nat option \<Rightarrow> nat list \<Rightarrow> bool" where
  "free_chain cs r [] \<longleftrightarrow> r = None"
| "free_chain cs r (i # is) \<longleftrightarrow>
     r = Some i \<and> i < length cs \<and> (\<exists>n. cs ! i = ChunkNext n \<and> free_chain cs n is)"

definition used_chunks :: "'a mem_pool \<Rightarrow> nat set" where
  "used_chunks p = {i. pool_item i p \<noteq> None}"

definition pool_ok :: "'a mem_pool \<Rightarrow> bool" where
  "pool_ok p \<longleftrightarrow>
     (\<exists>fl. free_chain (mp_chunks p) (mp_root p) fl \<and> distinct fl \<and> set fl = {..<length (mp_chunks p)} - used_chunks p)
     \<and> mp_currentAllocs p = int (card (used_chunks p))
     \<and> 0 < mp_SIZE p \<and> mp_SIZE p \<le> 4096 \<and> (\<exists>bs. da_holds (mp_blockPtrs p) bs)"

definition pool_room :: "'a mem_pool \<Rightarrow> bool" where
  \<comment> \<open>another block can be noted\<close>
  "pool_room p \<longleftrightarrow> da_room (da_size (mp_blockPtrs p) + 1) (mp_blockPtrs p)"

lemma free_chain_Cons:
  "i < length cs \<Longrightarrow> cs ! i = ChunkNext n \<Longrightarrow> free_chain cs n is \<Longrightarrow> free_chain cs (Some i) (i # is)"
  by simp

lemma free_chain_cong:
  "free_chain cs r is \<Longrightarrow> (\<And>i. i \<in> set is \<Longrightarrow> i < length cs' \<and> cs' ! i = cs ! i) \<Longrightarrow> free_chain cs' r is"
  by (induction "is" arbitrary: r) auto

lemma pool_item_in: "pool_item i p = Some x \<longleftrightarrow> i < length (mp_chunks p) \<and> mp_chunks p ! i = ChunkItem x"
  by (auto simp: pool_item_def split: chunk.splits)

lemma finite_used_chunks [simp]: "finite (used_chunks p)"
  by (rule finite_subset [of _ "{..<length (mp_chunks p)}"]) (auto simp: used_chunks_def pool_item_def split: if_splits)

lemma used_chunks_less: "i \<in> used_chunks p \<Longrightarrow> i < length (mp_chunks p)"
  by (auto simp: used_chunks_def pool_item_def split: if_splits)

lemma used_chunks_cong:
  "mp_chunks p = mp_chunks q \<Longrightarrow> used_chunks p = used_chunks q" "mp_chunks p = mp_chunks q \<Longrightarrow> pool_item i p = pool_item i q"
  by (simp_all add: used_chunks_def pool_item_def)

lemma pool_item_upd:
  "mp_chunks q = (mp_chunks p)[i := c] \<Longrightarrow> i < length (mp_chunks p) \<Longrightarrow>
    pool_item j q = (if j = i then (case c of ChunkItem x \<Rightarrow> Some x | ChunkNext n \<Rightarrow> None) else pool_item j p)"
  by (auto simp: pool_item_def nth_list_update split: chunk.splits)

lemma used_chunks_upd:
  assumes "mp_chunks q = (mp_chunks p)[i := c]" "i < length (mp_chunks p)"
  shows "used_chunks q = (case c of ChunkItem x \<Rightarrow> insert i (used_chunks p) | ChunkNext n \<Rightarrow> used_chunks p - {i})"
  using pool_item_upd [OF assms] by (auto simp: used_chunks_def split: chunk.splits if_splits)

text \<open>A new block is a free list of its own.\<close>

lemma new_block_nth:
  "length cs = base \<Longrightarrow> k < COUNT \<Longrightarrow>
    (cs @ new_block base COUNT) ! (base + k) = ChunkNext (if Suc k < COUNT then Some (base + Suc k) else None)"
  by (auto simp: new_block_def nth_append)

lemma new_block_chain:
  assumes "length cs = base" "k \<le> COUNT"
  shows "free_chain (cs @ new_block base COUNT) (if k < COUNT then Some (base + k) else None) [base + k..<base + COUNT]"
  using assms(2)
proof (induction "COUNT - k" arbitrary: k)
  case (Suc n)
  then have k: "k < COUNT" "n = COUNT - Suc k" "Suc k \<le> COUNT" by simp_all
  have "[base + k..<base + COUNT] = (base + k) # [base + Suc k..<base + COUNT]" by (subst upt_conv_Cons) (use k(1) in simp_all)
  moreover have "base + k < length (cs @ new_block base COUNT)" using k(1) assms(1) by (simp add: new_block_def)
  then have "free_chain (cs @ new_block base COUNT) (Some (base + k)) ((base + k) # [base + Suc k..<base + COUNT])"
    by (rule free_chain_Cons [OF _ new_block_nth [OF assms(1) k(1)] Suc(1) [OF k(2,3)]])
  ultimately show ?case using k(1) by simp
qed simp

lemma pool_okI:
  "free_chain (mp_chunks p) (mp_root p) fl \<Longrightarrow> distinct fl \<Longrightarrow> set fl = {..<length (mp_chunks p)} - used_chunks p \<Longrightarrow>
    mp_currentAllocs p = int (card (used_chunks p)) \<Longrightarrow> 0 < mp_SIZE p \<Longrightarrow> mp_SIZE p \<le> 4096 \<Longrightarrow>
    da_holds (mp_blockPtrs p) bs \<Longrightarrow> pool_ok p"
  by (auto simp: pool_ok_def)

lemma pool_okE:
  assumes "pool_ok p"
  obtains fl bs where "free_chain (mp_chunks p) (mp_root p) fl" "distinct fl"
    "set fl = {..<length (mp_chunks p)} - used_chunks p" "mp_currentAllocs p = int (card (used_chunks p))"
    "0 < mp_SIZE p" "mp_SIZE p \<le> 4096" "da_holds (mp_blockPtrs p) bs"
  using assms by (auto simp: pool_ok_def)

lemma pool_grow_ok:
  fixes p :: "'a mem_pool"
  assumes ok: "pool_ok p" and r: "mp_root p = None" and room: "pool_room p"
  shows "\<exists>q. pool_grow p = Some q \<and> pool_ok q \<and> mp_root q \<noteq> None \<and> (\<forall>i. pool_item i q = pool_item i p)
    \<and> mp_currentAllocs q = mp_currentAllocs p \<and> mp_nUntracked q = mp_nUntracked p"
proof -
  let ?b = "length (mp_chunks p)" and ?n = "pool_COUNT p"
  from ok obtain fl bs where p: "free_chain (mp_chunks p) (mp_root p) fl" "set fl = {..<?b} - used_chunks p"
    "mp_currentAllocs p = int (card (used_chunks p))" "0 < mp_SIZE p" "mp_SIZE p \<le> 4096" "da_holds (mp_blockPtrs p) bs"
    by (rule pool_okE)
  have n: "0 < ?n" using p(4,5) by (simp add: pool_COUNT_def div_greater_zero_iff)
  from da_Push_holds [OF p(6)] room obtain ptrs where
    ptrs: "da_Push ?b (mp_blockPtrs p) = Some ptrs" "da_holds ptrs (bs @ [?b])" by (auto simp: pool_room_def)
  define q where "q = p\<lparr>mp_blockPtrs := ptrs, mp_chunks := mp_chunks p @ new_block ?b ?n, mp_root := Some ?b\<rparr>"
  have it: "pool_item i q = pool_item i p" for i
  proof (cases "i < ?b \<or> ?b + ?n \<le> i")
    case False
    then have "i - ?b < ?n" by auto
    then have "\<exists>n. (new_block ?b ?n :: 'a chunk list) ! (i - ?b) = ChunkNext n" by (simp add: new_block_def)
    with False show ?thesis by (auto simp: q_def pool_item_def nth_append)
  qed (auto simp: q_def pool_item_def nth_append new_block_def)
  then have u: "used_chunks q = used_chunks p" by (simp add: used_chunks_def)
  have "fl = []" using p(1) r by (cases fl) simp_all
  then have all: "used_chunks p = {..<?b}" using p(2) used_chunks_less by auto
  have "free_chain (mp_chunks q) (mp_root q) [?b..<?b + ?n]"
    using new_block_chain [of "mp_chunks p" ?b 0 ?n] n by (simp add: q_def)
  moreover have "set [?b..<?b + ?n] = {..<length (mp_chunks q)} - used_chunks q"
    using u all by (auto simp: q_def new_block_def)
  ultimately have "pool_ok q"
    by (intro pool_okI [of q "[?b..<?b + ?n]" "bs @ [?b]"]) (use u p(3-5) ptrs(2) in \<open>simp_all add: q_def\<close>)
  with it ptrs(1) show ?thesis by (intro exI [of _ q]) (simp add: pool_grow_def q_def Let_def)
qed

lemma pool_take_ok:
  assumes ok: "pool_ok p" and r: "mp_root p = Some i"
  obtains nxt where "i < length (mp_chunks p)" "chunk_next (mp_chunks p ! i) = Some nxt" "pool_item i p = None"
    "\<And>q. mp_chunks q = (mp_chunks p)[i := ChunkItem x] \<Longrightarrow> mp_root q = nxt \<Longrightarrow>
      mp_currentAllocs q = mp_currentAllocs p + 1 \<Longrightarrow> mp_SIZE q = mp_SIZE p \<Longrightarrow> mp_blockPtrs q = mp_blockPtrs p \<Longrightarrow> pool_ok q"
proof -
  from ok obtain fl bs where fl: "free_chain (mp_chunks p) (mp_root p) fl" "distinct fl"
    "set fl = {..<length (mp_chunks p)} - used_chunks p" "mp_currentAllocs p = int (card (used_chunks p))"
    "0 < mp_SIZE p" "mp_SIZE p \<le> 4096" "da_holds (mp_blockPtrs p) bs" by (rule pool_okE)
  from fl(1) r obtain fs nxt where fs: "fl = i # fs" "i < length (mp_chunks p)" "mp_chunks p ! i = ChunkNext nxt"
    "free_chain (mp_chunks p) nxt fs" by (cases fl) auto
  have i: "i \<notin> used_chunks p" using fl(3) fs(1) by auto
  show thesis
  proof (rule that)
    show "i < length (mp_chunks p)" "chunk_next (mp_chunks p ! i) = Some nxt" "pool_item i p = None"
      using fs by (simp_all add: pool_item_def)
  next
    fix q :: "'a mem_pool"
    assume q: "mp_chunks q = (mp_chunks p)[i := ChunkItem x]" "mp_root q = nxt"
      "mp_currentAllocs q = mp_currentAllocs p + 1" "mp_SIZE q = mp_SIZE p" "mp_blockPtrs q = mp_blockPtrs p"
    have u: "used_chunks q = insert i (used_chunks p)" using used_chunks_upd [OF q(1) fs(2)] by simp
    have "free_chain (mp_chunks q) nxt fs"
    proof (rule free_chain_cong [OF fs(4)])
      fix j assume "j \<in> set fs"
      then have "j < length (mp_chunks p)" "j \<noteq> i" using fl(2,3) fs(1) by auto
      then show "j < length (mp_chunks q) \<and> mp_chunks q ! j = mp_chunks p ! j" by (simp add: q(1))
    qed
    moreover have "set fs = {..<length (mp_chunks q)} - used_chunks q" using fl(2,3) fs(1) by (auto simp: u q(1))
    moreover have "mp_currentAllocs q = int (card (used_chunks q))" using i by (simp add: u q(3) fl(4))
    ultimately show "pool_ok q" by (intro pool_okI [of q fs bs]) (use fl(2,5-7) fs(1) q(2,4,5) in simp_all)
  qed
qed

lemma pool_Alloc_takes:
  assumes ok: "pool_ok p" and r: "mp_root p \<noteq> None"
  shows "\<exists>i q. pool_Alloc x p = Some (i, q) \<and> pool_ok q \<and> pool_item i p = None
    \<and> (\<forall>j. pool_item j q = (if j = i then Some x else pool_item j p)) \<and> mp_nUntracked q = mp_nUntracked p + 1"
proof -
  from r obtain i where i: "mp_root p = Some i" by auto
  obtain nxt where n: "i < length (mp_chunks p)" "chunk_next (mp_chunks p ! i) = Some nxt" "pool_item i p = None"
    and okq: "\<And>q. mp_chunks q = (mp_chunks p)[i := ChunkItem x] \<Longrightarrow> mp_root q = nxt \<Longrightarrow>
      mp_currentAllocs q = mp_currentAllocs p + 1 \<Longrightarrow> mp_SIZE q = mp_SIZE p \<Longrightarrow> mp_blockPtrs q = mp_blockPtrs p \<Longrightarrow> pool_ok q"
    by (rule pool_take_ok [OF ok i, of x]) blast
  define q where "q = p\<lparr>mp_root := nxt, mp_currentAllocs := mp_currentAllocs p + 1,
    mp_maxAllocs := max (mp_maxAllocs p) (mp_currentAllocs p + 1), mp_nAllocs := mp_nAllocs p + 1,
    mp_nUntracked := mp_nUntracked p + 1, mp_chunks := (mp_chunks p)[i := ChunkItem x]\<rparr>"
  have a: "pool_Alloc x p = Some (i, q)" using i n by (simp add: pool_Alloc_def q_def)
  have c: "mp_chunks q = (mp_chunks p)[i := ChunkItem x]" by (simp add: q_def)
  have "pool_ok q" by (rule okq) (simp_all add: q_def)
  moreover have "pool_item j q = (if j = i then Some x else pool_item j p)" for j
    using pool_item_upd [OF c n(1), of j] by simp
  moreover have "mp_nUntracked q = mp_nUntracked p + 1" by (simp add: q_def)
  ultimately show ?thesis using a n(3) by blast
qed

lemma pool_Alloc_grow: "mp_root p = None \<Longrightarrow> pool_grow p = Some q \<Longrightarrow> mp_root q \<noteq> None \<Longrightarrow> pool_Alloc x p = pool_Alloc x q"
  by (auto simp: pool_Alloc_def)

lemma pool_Alloc_ok:
  assumes "pool_ok p" "pool_room p"
  shows "\<exists>i q. pool_Alloc x p = Some (i, q) \<and> pool_ok q \<and> pool_item i p = None
    \<and> (\<forall>j. pool_item j q = (if j = i then Some x else pool_item j p)) \<and> mp_nUntracked q = mp_nUntracked p + 1"
proof (cases "mp_root p")
  case None
  from pool_grow_ok [OF assms(1) None assms(2)] obtain p1 where
    p1: "pool_grow p = Some p1" "pool_ok p1" "mp_root p1 \<noteq> None" "\<forall>i. pool_item i p1 = pool_item i p"
      "mp_nUntracked p1 = mp_nUntracked p" by blast
  have i: "pool_item i p1 = pool_item i p" for i using p1(4) by blast
  from pool_Alloc_takes [OF p1(2,3), of x] show ?thesis
    unfolding pool_Alloc_grow [OF None p1(1,3), of x] i p1(5) .
next
  case (Some i)
  then show ?thesis by (intro pool_Alloc_takes) (use assms in auto)
qed

lemma pool_Free_ok:
  assumes ok: "pool_ok p" and i: "pool_item i p \<noteq> None"
  shows "\<exists>q. pool_Free (Some i) p = Some q \<and> pool_ok q \<and> (\<forall>j. pool_item j q = (if j = i then None else pool_item j p))
    \<and> mp_nUntracked q = mp_nUntracked p"
proof -
  have l: "i < length (mp_chunks p)" using i by (simp add: pool_item_def split: if_splits)
  have u: "i \<in> used_chunks p" using i by (simp add: used_chunks_def)
  define q where "q = p\<lparr>mp_currentAllocs := mp_currentAllocs p - 1,
    mp_chunks := (mp_chunks p)[i := ChunkNext (mp_root p)], mp_root := Some i\<rparr>"
  have c: "mp_chunks q = (mp_chunks p)[i := ChunkNext (mp_root p)]" by (simp add: q_def)
  have uq: "used_chunks q = used_chunks p - {i}" using used_chunks_upd [OF c l] by simp
  from ok obtain fl bs where fl: "free_chain (mp_chunks p) (mp_root p) fl" "distinct fl"
    "set fl = {..<length (mp_chunks p)} - used_chunks p" "mp_currentAllocs p = int (card (used_chunks p))"
    "0 < mp_SIZE p" "mp_SIZE p \<le> 4096" "da_holds (mp_blockPtrs p) bs" by (rule pool_okE)
  have "free_chain (mp_chunks q) (mp_root p) fl"
  proof (rule free_chain_cong [OF fl(1)])
    fix j assume "j \<in> set fl"
    then have "j < length (mp_chunks p)" "j \<noteq> i" using fl(3) u by auto
    then show "j < length (mp_chunks q) \<and> mp_chunks q ! j = mp_chunks p ! j" by (simp add: c)
  qed
  then have "free_chain (mp_chunks q) (mp_root q) (i # fl)" using l by (simp add: q_def)
  moreover have "set (i # fl) = {..<length (mp_chunks q)} - used_chunks q" using fl(3) uq l by (auto simp: c)
  moreover have "mp_currentAllocs q = int (card (used_chunks q))"
    using card.remove [OF finite_used_chunks u] fl(4) by (simp add: uq [symmetric] q_def)
  moreover have "distinct (i # fl)" using fl(2,3) u by simp
  moreover have "mp_SIZE q = mp_SIZE p" "mp_blockPtrs q = mp_blockPtrs p" by (simp_all add: q_def)
  ultimately have "pool_ok q" by (intro pool_okI [of q "i # fl" bs]) (use fl(5-7) in simp_all)
  moreover have "pool_Free (Some i) p = Some q" "mp_nUntracked q = mp_nUntracked p"
    using l by (simp_all add: pool_Free_def q_def)
  moreover have "pool_item j q = (if j = i then None else pool_item j p)" for j
    using pool_item_upd [OF c l, of j] by simp
  ultimately show ?thesis by blast
qed

lemma pool_new_ok: "0 < SIZE \<Longrightarrow> SIZE \<le> 4096 \<Longrightarrow> pool_ok (pool_new SIZE) \<and> (\<forall>i. pool_item i (pool_new SIZE) = None)"
  using da_new_holds by (auto simp: pool_ok_def pool_new_def used_chunks_def pool_item_def intro: exI [of _ "[]"])

text \<open>What is undefined without room stays undefined.\<close>

lemma pool_Alloc_result:
  assumes "pool_ok p" "pool_Alloc x p = Some (i, q)"
  shows "pool_ok q \<and> pool_item i p = None \<and> (\<forall>j. pool_item j q = (if j = i then Some x else pool_item j p))
    \<and> mp_nUntracked q = mp_nUntracked p + 1"
proof (cases "mp_root p = None \<and> \<not> pool_room p")
  case True
  obtain bs where h: "da_holds (mp_blockPtrs p) bs" using assms(1) by (auto simp: pool_ok_def)
  have "EnsureCapacity (da_size (mp_blockPtrs p) + 1) (mp_blockPtrs p) = None"
    using True by (simp add: pool_room_def da_room_def EnsureCapacity_def)
  then show ?thesis using True assms(2) by (simp add: pool_Alloc_def pool_grow_def da_Push_def)
next
  case False
  then have "\<exists>i q. pool_Alloc x p = Some (i, q) \<and> pool_ok q \<and> pool_item i p = None
    \<and> (\<forall>j. pool_item j q = (if j = i then Some x else pool_item j p)) \<and> mp_nUntracked q = mp_nUntracked p + 1"
    using pool_Alloc_ok [OF assms(1)] pool_Alloc_takes [OF assms(1)] by blast
  with assms(2) show ?thesis by auto
qed

interpretation pool: allocator pool_ok pool_room pool_item pool_Alloc pool_Free
proof (unfold_locales, goal_cases)
  case (1 p x)
  then show ?case using pool_Alloc_ok [of p x] by auto
next
  case (2 p x i q)
  then show ?case using pool_Alloc_result [of p x i q] by simp
next
  case (3 p x i q)
  then show ?case using pool_Alloc_result [of p x i q] by simp
next
  case (4 p x i q j)
  then show ?case using pool_Alloc_result [of p x i q] by simp
next
  case (5 p i)
  then show ?case using pool_Free_ok [of p i] by auto
next
  case (6 p i q j)
  then show ?case using pool_Free_ok [of p i] by auto
qed

text \<open>
  A chunk that is freed twice is in the free list twice: the next two allocations are handed the same
  chunk.
\<close>

lemma double_free_hands_out_twice:
  assumes "pool_ok p" "pool_item i p \<noteq> None"
  shows "\<exists>q1 q2. pool_Free (Some i) p = Some q1 \<and> pool_Free (Some i) q1 = Some q2
    \<and> (\<exists>q3. pool_Alloc x q2 = Some (i, q3) \<and> mp_root q3 = Some i)"
proof -
  have l: "i < length (mp_chunks p)" using assms(2) by (simp add: pool_item_def split: if_splits)
  then show ?thesis by (simp add: pool_Free_def pool_Alloc_def)
qed

end
