(* ===== verification/XmlDom.thy ===== *)
theory XmlDom
  imports XmlParse XmlPool
begin

text \<open>
  The document tree of the XML library as the code keeps it (\<open>XMLNode\<close> and \<open>XMLDocument\<close> of
  frame/tinyxml2/tinyxml2.h and .cpp): nodes in the chunks of the memory pools of their document, linked by
  pointers to the parent, the first and the last child and the siblings; creating nodes, moving them and
  deleting them with all that is below.

  Documents are numbered. A node pointer is the document itself or a chunk of one of its pools; NULL is
  \<open>None\<close>. What a node is and the strings it carries are the node of XmlParse without children. A result
  \<open>None\<close> is undefined behaviour: following NULL or a pointer to a freed node, or a recursion that never
  ends.
\<close>

section \<open>Nodes and documents\<close>

datatype pool_kind = ElementPool | TextPool | CommentPool

datatype node_ref = DocNode nat | ChunkNode nat pool_kind nat

record dom_node =
  nd_document :: nat
  nd_parent :: "node_ref option"
  nd_firstChild :: "node_ref option"
  nd_lastChild :: "node_ref option"
  nd_prev :: "node_ref option"
  nd_next :: "node_ref option"
  nd_data :: xml_node

record dom_doc =
  dd_node :: dom_node \<comment> \<open>the document as a node\<close>
  dd_pool :: "pool_kind \<Rightarrow> dom_node mem_pool"

type_synonym dom = "nat \<Rightarrow> dom_doc"

definition XMLNode_new :: "nat \<Rightarrow> xml_node \<Rightarrow> dom_node" where
  "XMLNode_new doc data =
     \<lparr>nd_document = doc, nd_parent = None, nd_firstChild = None, nd_lastChild = None, nd_prev = None,
      nd_next = None, nd_data = data\<rparr>"

definition XMLDocument_new :: "nat \<Rightarrow> (pool_kind \<Rightarrow> nat) \<Rightarrow> dom_doc" where
  \<comment> \<open>\<open>sizes\<close>: the sizes of the node classes, which the compiler chooses\<close>
  "XMLDocument_new doc sizes =
     \<lparr>dd_node = XMLNode_new doc (XMLUnknown str_pair_new), dd_pool = (\<lambda>k. pool_new (sizes k))\<rparr>"

fun dom_get :: "node_ref \<Rightarrow> dom \<Rightarrow> dom_node option" where
  "dom_get (DocNode d) s = Some (dd_node (s d))"
| "dom_get (ChunkNode d k i) s = pool_item i (dd_pool (s d) k)"

fun dom_put :: "node_ref \<Rightarrow> dom_node \<Rightarrow> dom \<Rightarrow> dom" where
  "dom_put (DocNode d) n s = s(d := (s d)\<lparr>dd_node := n\<rparr>)"
| "dom_put (ChunkNode d k i) n s =
     s(d := (s d)\<lparr>dd_pool := (dd_pool (s d))(k := pool_write i n (dd_pool (s d) k))\<rparr>)"

definition dom_upd :: "node_ref \<Rightarrow> (dom_node \<Rightarrow> dom_node) \<Rightarrow> dom \<Rightarrow> dom option" where
  \<comment> \<open>an assignment through a pointer\<close>
  "dom_upd r f s = map_option (\<lambda>n. dom_put r (f n) s) (dom_get r s)"

definition dom_upd_if :: "node_ref option \<Rightarrow> (dom_node \<Rightarrow> dom_node) \<Rightarrow> dom \<Rightarrow> dom option" where
  \<comment> \<open>\<open>if (r) r->field = ...\<close>\<close>
  "dom_upd_if r f s = (case r of None \<Rightarrow> Some s | Some q \<Rightarrow> dom_upd q f s)"

section \<open>Linking and unlinking\<close>

definition Unlink :: "node_ref \<Rightarrow> node_ref \<Rightarrow> dom \<Rightarrow> dom option" where
  "Unlink this child s = do {
     t \<leftarrow> dom_get this s;
     c \<leftarrow> dom_get child s;
     s1 \<leftarrow> (if nd_firstChild t = Some child then dom_upd this (nd_firstChild_update (\<lambda>_. nd_next c)) s else Some s);
     s2 \<leftarrow> (if nd_lastChild t = Some child then dom_upd this (nd_lastChild_update (\<lambda>_. nd_prev c)) s1 else Some s1);
     s3 \<leftarrow> dom_upd_if (nd_prev c) (nd_next_update (\<lambda>_. nd_next c)) s2;
     c3 \<leftarrow> dom_get child s3;
     s4 \<leftarrow> dom_upd_if (nd_next c3) (nd_prev_update (\<lambda>_. nd_prev c3)) s3;
     dom_upd child (nd_parent_update (\<lambda>_. None)) s4
   }"

fun dom_SetTracked :: "node_ref \<Rightarrow> dom \<Rightarrow> dom option" where
  \<comment> \<open>\<open>_memPool->SetTracked()\<close>; a document has no pool\<close>
  "dom_SetTracked (DocNode d) s = None"
| "dom_SetTracked (ChunkNode d k i) s =
     Some (s(d := (s d)\<lparr>dd_pool := (dd_pool (s d))(k := pool_SetTracked (dd_pool (s d) k))\<rparr>))"

definition take_out :: "node_ref \<Rightarrow> dom \<Rightarrow> dom option" where
  \<comment> \<open>the first lines of every insertion: out of the old place, or noted as tracked\<close>
  "take_out addThis s = do {
     a \<leftarrow> dom_get addThis s;
     (case nd_parent a of Some p \<Rightarrow> Unlink p addThis s | None \<Rightarrow> dom_SetTracked addThis s)
   }"

definition link_end :: "node_ref \<Rightarrow> node_ref \<Rightarrow> dom \<Rightarrow> dom option" where
  \<comment> \<open>the assignments of \<open>InsertEndChild\<close>\<close>
  "link_end this addThis s = do {
     t \<leftarrow> dom_get this s;
     s4 \<leftarrow> (case nd_lastChild t of
       Some l \<Rightarrow> do {
         s1 \<leftarrow> dom_upd l (nd_next_update (\<lambda>_. Some addThis)) s;
         s2 \<leftarrow> dom_upd addThis (nd_prev_update (\<lambda>_. Some l)) s1;
         s3 \<leftarrow> dom_upd this (nd_lastChild_update (\<lambda>_. Some addThis)) s2;
         dom_upd addThis (nd_next_update (\<lambda>_. None)) s3
       }
     | None \<Rightarrow> do {
         s1 \<leftarrow> dom_upd this (nd_lastChild_update (\<lambda>_. Some addThis)) s;
         s2 \<leftarrow> dom_upd this (nd_firstChild_update (\<lambda>_. Some addThis)) s1;
         s3 \<leftarrow> dom_upd addThis (nd_prev_update (\<lambda>_. None)) s2;
         dom_upd addThis (nd_next_update (\<lambda>_. None)) s3
       });
     dom_upd addThis (nd_parent_update (\<lambda>_. Some this)) s4
   }"

definition InsertEndChild :: "node_ref \<Rightarrow> node_ref \<Rightarrow> dom \<Rightarrow> (node_ref option \<times> dom) option" where
  "InsertEndChild this addThis s = do {
     t \<leftarrow> dom_get this s;
     a \<leftarrow> dom_get addThis s;
     if nd_document a \<noteq> nd_document t then Some (None, s) else do {
       s1 \<leftarrow> take_out addThis s;
       s2 \<leftarrow> link_end this addThis s1;
       Some (Some addThis, s2)
     }
   }"

definition link_first :: "node_ref \<Rightarrow> node_ref \<Rightarrow> dom \<Rightarrow> dom option" where
  \<comment> \<open>the assignments of \<open>InsertFirstChild\<close>\<close>
  "link_first this addThis s = do {
     t \<leftarrow> dom_get this s;
     s4 \<leftarrow> (case nd_firstChild t of
       Some f \<Rightarrow> do {
         s1 \<leftarrow> dom_upd f (nd_prev_update (\<lambda>_. Some addThis)) s;
         s2 \<leftarrow> dom_upd addThis (nd_next_update (\<lambda>_. Some f)) s1;
         s3 \<leftarrow> dom_upd this (nd_firstChild_update (\<lambda>_. Some addThis)) s2;
         dom_upd addThis (nd_prev_update (\<lambda>_. None)) s3
       }
     | None \<Rightarrow> do {
         s1 \<leftarrow> dom_upd this (nd_lastChild_update (\<lambda>_. Some addThis)) s;
         s2 \<leftarrow> dom_upd this (nd_firstChild_update (\<lambda>_. Some addThis)) s1;
         s3 \<leftarrow> dom_upd addThis (nd_prev_update (\<lambda>_. None)) s2;
         dom_upd addThis (nd_next_update (\<lambda>_. None)) s3
       });
     dom_upd addThis (nd_parent_update (\<lambda>_. Some this)) s4
   }"

definition InsertFirstChild :: "node_ref \<Rightarrow> node_ref \<Rightarrow> dom \<Rightarrow> (node_ref option \<times> dom) option" where
  "InsertFirstChild this addThis s = do {
     t \<leftarrow> dom_get this s;
     a \<leftarrow> dom_get addThis s;
     if nd_document a \<noteq> nd_document t then Some (None, s) else do {
       s1 \<leftarrow> take_out addThis s;
       s2 \<leftarrow> link_first this addThis s1;
       Some (Some addThis, s2)
     }
   }"

definition link_after :: "node_ref \<Rightarrow> node_ref \<Rightarrow> node_ref \<Rightarrow> dom \<Rightarrow> dom option" where
  \<comment> \<open>the assignments of \<open>InsertAfterChild\<close>\<close>
  "link_after this afterThis addThis s = do {
     s1 \<leftarrow> dom_upd addThis (nd_prev_update (\<lambda>_. Some afterThis)) s;
     af1 \<leftarrow> dom_get afterThis s1;
     s2 \<leftarrow> dom_upd addThis (nd_next_update (\<lambda>_. nd_next af1)) s1;
     af2 \<leftarrow> dom_get afterThis s2;
     behind \<leftarrow> nd_next af2; \<comment> \<open>\<open>afterThis->_next->_prev\<close>\<close>
     s3 \<leftarrow> dom_upd behind (nd_prev_update (\<lambda>_. Some addThis)) s2;
     s4 \<leftarrow> dom_upd afterThis (nd_next_update (\<lambda>_. Some addThis)) s3;
     dom_upd addThis (nd_parent_update (\<lambda>_. Some this)) s4
   }"

definition InsertAfterChild :: "node_ref \<Rightarrow> node_ref \<Rightarrow> node_ref \<Rightarrow> dom \<Rightarrow> (node_ref option \<times> dom) option" where
  "InsertAfterChild this afterThis addThis s = do {
     t \<leftarrow> dom_get this s;
     a \<leftarrow> dom_get addThis s;
     if nd_document a \<noteq> nd_document t then Some (None, s) else do {
       af \<leftarrow> dom_get afterThis s;
       if nd_parent af \<noteq> Some this then Some (None, s)
       else if nd_next af = None then InsertEndChild this addThis s
       else do {
         s1 \<leftarrow> take_out addThis s;
         s2 \<leftarrow> link_after this afterThis addThis s1;
         Some (Some addThis, s2)
       }
     }
   }"

section \<open>Creating and deleting\<close>

definition dom_new :: "nat \<Rightarrow> pool_kind \<Rightarrow> xml_node \<Rightarrow> dom \<Rightarrow> (node_ref \<times> dom) option" where
  "dom_new d k data s = do {
     (i, p) \<leftarrow> pool_Alloc (XMLNode_new d data) (dd_pool (s d) k);
     Some (ChunkNode d k i, s(d := (s d)\<lparr>dd_pool := (dd_pool (s d))(k := p)\<rparr>))
   }"

definition NewElement :: "nat \<Rightarrow> string \<Rightarrow> dom \<Rightarrow> (node_ref \<times> dom) option" where
  "NewElement d name = dom_new d ElementPool (XMLElement (sp_SetStr name) OPEN [] [])"

definition NewComment :: "nat \<Rightarrow> string \<Rightarrow> dom \<Rightarrow> (node_ref \<times> dom) option" where
  "NewComment d str = dom_new d CommentPool (XMLComment (sp_SetStr str))"

definition NewText :: "nat \<Rightarrow> string \<Rightarrow> dom \<Rightarrow> (node_ref \<times> dom) option" where
  "NewText d str = dom_new d TextPool (XMLText False (sp_SetStr str))"

definition NewDeclaration :: "nat \<Rightarrow> string option \<Rightarrow> dom \<Rightarrow> (node_ref \<times> dom) option" where
  "NewDeclaration d str = dom_new d CommentPool (XMLDeclaration (sp_SetStr
     (case str of Some t \<Rightarrow> t
      | None \<Rightarrow> ''xml version='' @ [CHR 0x22] @ ''1.0'' @ [CHR 0x22] @ '' encoding='' @ [CHR 0x22] @ ''UTF-8'' @ [CHR 0x22])))"

definition NewUnknown :: "nat \<Rightarrow> string \<Rightarrow> dom \<Rightarrow> (node_ref \<times> dom) option" where
  "NewUnknown d str = dom_new d CommentPool (XMLUnknown (sp_SetStr str))"

fun dom_Free :: "node_ref \<Rightarrow> dom \<Rightarrow> dom option" where
  "dom_Free (DocNode d) s = None"
| "dom_Free (ChunkNode d k i) s = do {
     p \<leftarrow> pool_Free (Some i) (dd_pool (s d) k);
     Some (s(d := (s d)\<lparr>dd_pool := (dd_pool (s d))(k := p)\<rparr>))
   }"

definition destroy :: "node_ref \<Rightarrow> dom \<Rightarrow> dom option" where
  \<comment> \<open>the destructor behind \<open>DeleteChildren\<close>, and the return of the memory\<close>
  "destroy n s = do {
     t \<leftarrow> dom_get n s;
     s1 \<leftarrow> (case nd_parent t of Some p \<Rightarrow> Unlink p n s | None \<Rightarrow> Some s);
     dom_Free n s1
   }"

text \<open>The fuel bounds the depth of the calls and the turns of a loop together.\<close>

fun DeleteChildren :: "nat \<Rightarrow> node_ref \<Rightarrow> dom \<Rightarrow> dom option" where
  "DeleteChildren 0 n s = None"
| "DeleteChildren (Suc fuel) n s = do {
     t \<leftarrow> dom_get n s;
     (case nd_firstChild t of
        None \<Rightarrow> dom_upd n (\<lambda>t. t\<lparr>nd_firstChild := None, nd_lastChild := None\<rparr>) s
      | Some c \<Rightarrow> do {
          s1 \<leftarrow> Unlink n c s;
          s2 \<leftarrow> DeleteChildren fuel c s1;
          s3 \<leftarrow> destroy c s2;
          DeleteChildren fuel n s3
        })
   }"

definition DELETE_NODE :: "nat \<Rightarrow> node_ref \<Rightarrow> dom \<Rightarrow> dom option" where
  "DELETE_NODE fuel n s = Option.bind (DeleteChildren fuel n s) (destroy n)"

definition DeleteChild :: "nat \<Rightarrow> node_ref \<Rightarrow> node_ref \<Rightarrow> dom \<Rightarrow> dom option" where
  \<comment> \<open>the parent is only asserted\<close>
  "DeleteChild fuel this n = DELETE_NODE fuel n"

definition DeleteNode :: "nat \<Rightarrow> node_ref \<Rightarrow> dom \<Rightarrow> dom option" where
  "DeleteNode fuel n s = do {
     t \<leftarrow> dom_get n s;
     p \<leftarrow> nd_parent t;
     DeleteChild fuel p n s
   }"

section \<open>The document as a tree\<close>

fun next_in :: "'a list \<Rightarrow> 'a \<Rightarrow> 'a option" where
  "next_in (a # b # l) d = (if d = a then Some b else next_in (b # l) d)"
| "next_in l d = None"

definition prev_in :: "'a list \<Rightarrow> 'a \<Rightarrow> 'a option" where
  "prev_in l d = next_in (rev l) d"

fun hd_opt :: "'a list \<Rightarrow> 'a option" where
  "hd_opt [] = None"
| "hd_opt (a # l) = Some a"

fun insert_after :: "'a \<Rightarrow> 'a \<Rightarrow> 'a list \<Rightarrow> 'a list" where
  "insert_after a x [] = []"
| "insert_after a x (y # l) = (if y = a then y # x # l else y # insert_after a x l)"

fun ref_doc :: "node_ref \<Rightarrow> nat" where
  "ref_doc (DocNode d) = d"
| "ref_doc (ChunkNode d k i) = d"

text \<open>\<open>ch\<close> gives every node its children in document order.\<close>

definition dom_rep :: "dom \<Rightarrow> (node_ref \<Rightarrow> node_ref list) \<Rightarrow> bool" where
  "dom_rep s ch \<longleftrightarrow>
     (\<forall>r. distinct (ch r)) \<and> (\<forall>d p. DocNode d \<notin> set (ch p))
     \<and> (\<forall>r. dom_get r s = None \<longrightarrow> ch r = [] \<and> (\<forall>p. r \<notin> set (ch p)))
     \<and> (\<forall>r n. dom_get r s = Some n \<longrightarrow>
          nd_document n = ref_doc r \<and> nd_firstChild n = hd_opt (ch r) \<and> nd_lastChild n = hd_opt (rev (ch r))
          \<and> (\<forall>p. nd_parent n = Some p \<longleftrightarrow> r \<in> set (ch p))
          \<and> (\<forall>p. r \<in> set (ch p) \<longrightarrow> nd_prev n = prev_in (ch p) r \<and> nd_next n = next_in (ch p) r))"

definition untracked_nodes :: "dom \<Rightarrow> nat \<Rightarrow> pool_kind \<Rightarrow> nat set" where
  "untracked_nodes s d k = {i. \<exists>n. dom_get (ChunkNode d k i) s = Some n \<and> nd_parent n = None}"

definition pools_ok :: "dom \<Rightarrow> bool" where
  \<comment> \<open>a pool counts the nodes that are in no tree\<close>
  "pools_ok s \<longleftrightarrow>
     (\<forall>d k. pool_ok (dd_pool (s d) k) \<and> mp_nUntracked (dd_pool (s d) k) = int (card (untracked_nodes s d k)))"

definition dom_ok :: "dom \<Rightarrow> (node_ref \<Rightarrow> node_ref list) \<Rightarrow> bool" where
  "dom_ok s ch \<longleftrightarrow> dom_rep s ch \<and> pools_ok s"

end
