(* ===== verification/XmlDomProps.thy ===== *)
theory XmlDomProps
  imports XmlDom
begin

text \<open>
  The pointers of a document tree are a tree. \<open>dom_rep\<close> relates them to the list of the children of every
  node; the operations on the pointers are then the operations on the lists: taking a child out, adding it
  first, last or behind another one, and deleting a node with all that is below. The pools give out no
  node twice and count the nodes that are in no tree. Where the code breaks this is shown too.
\<close>

section \<open>Neighbours in a list\<close>

lemma next_in_Cons: "next_in (x # l) d = (if d = x then hd_opt l else next_in l d)"
  by (cases l) auto

lemma next_in_mem: "next_in l d = Some e \<Longrightarrow> d \<in> set l \<and> e \<in> set l"
proof (induction l)
  case (Cons x l)
  then show ?case by (cases l) (auto simp: next_in_Cons split: if_splits)
qed simp

lemma hd_opt_mem: "hd_opt l = Some e \<Longrightarrow> e \<in> set l"
  by (cases l) auto

lemma prev_in_mem: "prev_in l d = Some e \<Longrightarrow> d \<in> set l \<and> e \<in> set l"
  using next_in_mem [of "rev l"] by (simp add: prev_in_def)

lemma hd_opt_None [simp]: "hd_opt l = None \<longleftrightarrow> l = []" "None = hd_opt l \<longleftrightarrow> l = []"
  by (cases l; simp)+

lemma hd_opt_append: "hd_opt (xs @ ys) = (if xs = [] then hd_opt ys else hd_opt xs)"
  by (cases xs) auto

lemma next_in_outside: "d \<notin> set l \<Longrightarrow> next_in l d = None"
  using next_in_mem [of l d] by fastforce

lemma next_in_not_self: "distinct l \<Longrightarrow> next_in l d \<noteq> Some d"
proof (induction l)
  case (Cons x l)
  then show ?case using hd_opt_mem [of l x] by (auto simp: next_in_Cons)
qed simp

lemma prev_in_not_self: "distinct l \<Longrightarrow> prev_in l d \<noteq> Some d"
  using next_in_not_self [of "rev l"] by (simp add: prev_in_def)

lemma next_in_not_hd: "distinct l \<Longrightarrow> hd_opt l = Some e \<Longrightarrow> next_in l d \<noteq> Some e"
proof (induction l)
  case (Cons x l)
  then show ?case using hd_opt_mem [of l x] next_in_mem [of l d x] by (auto simp: next_in_Cons)
qed simp

lemma next_in_inj: "distinct l \<Longrightarrow> next_in l d = Some e \<Longrightarrow> next_in l d' = Some e \<Longrightarrow> d = d'"
proof (induction l)
  case (Cons x l)
  then show ?case using next_in_not_hd [of l e d] next_in_not_hd [of l e d'] by (auto simp: next_in_Cons split: if_splits)
qed simp

lemma next_in_snoc:
  "distinct (l @ [x]) \<Longrightarrow> next_in (l @ [x]) d = (if d = x then None else if hd_opt (rev l) = Some d then Some x else next_in l d)"
proof (induction l)
  case (Cons y l)
  have "hd_opt (rev l) = Some d \<Longrightarrow> d \<noteq> y" using Cons.prems hd_opt_mem [of "rev l" d] by auto
  then show ?case using Cons by (auto simp: next_in_Cons hd_opt_append)
qed (simp add: next_in_Cons)

lemma next_in_prev_in: "distinct l \<Longrightarrow> next_in l d = Some e \<longleftrightarrow> prev_in l e = Some d"
proof (induction l)
  case (Cons x l)
  have p: "prev_in (x # l) e = (if e = x then None else if hd_opt l = Some e then Some x else prev_in l e)"
    using next_in_snoc [of "rev l" x e] Cons.prems by (simp add: prev_in_def)
  have "next_in l x = None" "prev_in l e = Some d \<Longrightarrow> d \<noteq> x" "next_in l d = Some e \<Longrightarrow> e \<noteq> x"
    using Cons.prems next_in_outside [of x l] prev_in_mem [of l e d] next_in_mem [of l d e] by auto
  then show ?case using Cons next_in_not_hd [of l e d] hd_opt_mem [of l e] by (auto simp: next_in_Cons p)
qed (simp add: prev_in_def)

lemma next_in_removeAll:
  "distinct l \<Longrightarrow> d \<noteq> c \<Longrightarrow> next_in (removeAll c l) d = (if next_in l d = Some c then next_in l c else next_in l d)"
  and hd_removeAll: "distinct l \<Longrightarrow> hd_opt (removeAll c l) = (if hd_opt l = Some c then next_in l c else hd_opt l)"
proof (induction l)
  case (Cons x l)
  {
    case 1
    then show ?case using Cons next_in_outside [of x l] by (auto simp: next_in_Cons removeAll_id)
  next
    case 2
    then show ?case using Cons by (auto simp: next_in_Cons removeAll_id)
  }
qed simp_all

lemma rev_removeAll: "rev (removeAll c l) = removeAll c (rev l)"
  by (induction l) auto

lemma prev_in_removeAll:
  "distinct l \<Longrightarrow> d \<noteq> c \<Longrightarrow> prev_in (removeAll c l) d = (if prev_in l d = Some c then prev_in l c else prev_in l d)"
  using next_in_removeAll [of "rev l"] by (simp add: prev_in_def rev_removeAll)

lemma last_removeAll:
  "distinct l \<Longrightarrow> hd_opt (rev (removeAll c l)) = (if hd_opt (rev l) = Some c then prev_in l c else hd_opt (rev l))"
  using hd_removeAll [of "rev l"] by (simp add: prev_in_def rev_removeAll)

lemma prev_in_snoc: "prev_in (l @ [x]) d = (if d = x then hd_opt (rev l) else prev_in l d)"
  by (simp add: prev_in_def next_in_Cons)

lemma prev_in_Cons:
  "distinct (x # l) \<Longrightarrow> prev_in (x # l) d = (if d = x then None else if hd_opt l = Some d then Some x else prev_in l d)"
  using next_in_snoc [of "rev l" x d] by (simp add: prev_in_def)

lemma insert_after_id: "a \<notin> set l \<Longrightarrow> insert_after a x l = l"
  by (induction l) auto

lemma set_insert_after: "set (insert_after a x l) = (if a \<in> set l then insert x (set l) else set l)"
  by (induction l) auto

lemma distinct_insert_after: "distinct l \<Longrightarrow> x \<notin> set l \<Longrightarrow> distinct (insert_after a x l)"
  by (induction l) (auto simp: set_insert_after)

lemma hd_insert_after: "hd_opt (insert_after a x l) = hd_opt l"
  by (cases l) auto

lemma next_in_insert_after:
  "distinct l \<Longrightarrow> x \<notin> set l \<Longrightarrow> a \<in> set l \<Longrightarrow>
    next_in (insert_after a x l) d = (if d = a then Some x else if d = x then next_in l a else next_in l d)"
proof (induction l)
  case (Cons y l)
  then show ?case
    using next_in_outside [of y l] by (auto simp: next_in_Cons hd_insert_after set_insert_after)
qed simp

lemma prev_in_insert_after:
  assumes "distinct l" "x \<notin> set l" "a \<in> set l"
  shows "prev_in (insert_after a x l) d = (if d = x then Some a else if next_in l a = Some d then Some x else prev_in l d)"
proof -
  have "prev_in (insert_after a x l) d = Some e \<longleftrightarrow>
      (if d = x then Some a else if next_in l a = Some d then Some x else prev_in l d) = Some e" for e
    using next_in_prev_in [OF distinct_insert_after [OF assms(1,2)], of a e d] next_in_prev_in [OF assms(1), of e d]
      next_in_insert_after [OF assms, of e] next_in_mem [of l a x] next_in_mem [of l e x] next_in_outside [of x l]
      next_in_inj [OF assms(1), of a d e] assms(2) by (auto split: if_splits)
  then show ?thesis by (metis not_Some_eq)
qed

lemma last_insert_after:
  "distinct l \<Longrightarrow> a \<in> set l \<Longrightarrow> hd_opt (rev (insert_after a x l)) = (if next_in l a = None then Some x else hd_opt (rev l))"
proof (induction l)
  case (Cons y l)
  have "next_in l a \<noteq> None \<Longrightarrow> l \<noteq> []" by auto
  moreover have "a \<in> set l \<Longrightarrow> insert_after a x l \<noteq> []" by (cases l) auto
  ultimately show ?case using Cons by (auto simp: next_in_Cons hd_opt_append)
qed simp

section \<open>Assignments\<close>

definition dom_set :: "node_ref \<Rightarrow> (dom_node \<Rightarrow> dom_node) \<Rightarrow> dom \<Rightarrow> dom" where
  "dom_set r f s = (case dom_get r s of None \<Rightarrow> s | Some n \<Rightarrow> dom_put r (f n) s)"

lemma dom_upd_set: "dom_get r s \<noteq> None \<Longrightarrow> dom_upd r f s = Some (dom_set r f s)"
  by (auto simp: dom_upd_def dom_set_def)

lemma pool_item_write:
  "pool_item i p = Some m \<Longrightarrow> pool_item j (pool_write i n p) = (if j = i then Some n else pool_item j p)"
  by (auto simp: pool_item_def pool_write_def nth_list_update split: if_splits)

lemma dom_get_put:
  "dom_get r s = Some m \<Longrightarrow> dom_get q (dom_put r n s) = (if q = r then Some n else dom_get q s)"
  by (cases r; cases q) (auto simp: pool_item_write)

lemma dom_get_set [simp]: "dom_get q (dom_set r f s) = (if q = r then map_option f (dom_get q s) else dom_get q s)"
  by (auto simp: dom_set_def dom_get_put split: option.splits)

text \<open>What an assignment keeps: the nodes, their data, and the counts of the pools.\<close>

definition kept :: "dom \<Rightarrow> dom \<Rightarrow> bool" where
  "kept s s' \<longleftrightarrow>
     (\<forall>r. map_option nd_data (dom_get r s') = map_option nd_data (dom_get r s))
     \<and> (\<forall>d k. pool_ok (dd_pool (s d) k) \<longrightarrow> pool_ok (dd_pool (s' d) k))
     \<and> (\<forall>d k. mp_nUntracked (dd_pool (s' d) k) = mp_nUntracked (dd_pool (s d) k))"

lemma kept_refl [simp]: "kept s s"
  by (simp add: kept_def)

lemma kept_trans: "kept s t \<Longrightarrow> kept t u \<Longrightarrow> kept s u"
  by (simp add: kept_def)

lemma kept_live: "kept s s' \<Longrightarrow> dom_get r s' = None \<longleftrightarrow> dom_get r s = None"
  unfolding kept_def by (metis map_option_is_None)

lemma pool_write_ok:
  assumes "pool_ok p" "pool_item i p = Some m" shows "pool_ok (pool_write i n p)"
proof -
  from assms(1) obtain fl bs where fl: "free_chain (mp_chunks p) (mp_root p) fl" "distinct fl"
    "set fl = {..<length (mp_chunks p)} - used_chunks p" "mp_currentAllocs p = int (card (used_chunks p))"
    "0 < mp_SIZE p" "mp_SIZE p \<le> 4096" "da_holds (mp_blockPtrs p) bs" by (rule pool_okE)
  have i: "i < length (mp_chunks p)" "i \<in> used_chunks p"
    using assms(2) by (simp_all add: used_chunks_def pool_item_in)
  have u: "used_chunks (pool_write i n p) = used_chunks p"
    using pool_item_write [OF assms(2), of _ n] assms(2) by (auto simp: used_chunks_def)
  have "free_chain (mp_chunks (pool_write i n p)) (mp_root p) fl"
  proof (rule free_chain_cong [OF fl(1)])
    fix j assume "j \<in> set fl"
    then have "j < length (mp_chunks p)" "j \<noteq> i" using fl(3) i(2) by auto
    then show "j < length (mp_chunks (pool_write i n p)) \<and> mp_chunks (pool_write i n p) ! j = mp_chunks p ! j"
      by (simp add: pool_write_def)
  qed
  moreover have "mp_root (pool_write i n p) = mp_root p" "length (mp_chunks (pool_write i n p)) = length (mp_chunks p)"
    "mp_currentAllocs (pool_write i n p) = mp_currentAllocs p" "mp_SIZE (pool_write i n p) = mp_SIZE p"
    "mp_blockPtrs (pool_write i n p) = mp_blockPtrs p"
    by (simp_all add: pool_write_def)
  ultimately show ?thesis using fl by (intro pool_okI [of _ fl bs]) (simp_all add: u)
qed

lemma pool_write_untracked [simp]: "mp_nUntracked (pool_write i n p) = mp_nUntracked p"
  by (simp add: pool_write_def)

lemma kept_set: "(\<And>n. nd_data (f n) = nd_data n) \<Longrightarrow> kept s (dom_set r f s)"
proof -
  assume f: "\<And>n. nd_data (f n) = nd_data n"
  have "(pool_ok (dd_pool (s d) k) \<longrightarrow> pool_ok (dd_pool (dom_set r f s d) k))
      \<and> mp_nUntracked (dd_pool (dom_set r f s d) k) = mp_nUntracked (dd_pool (s d) k)" for d k
    by (cases r) (auto simp: dom_set_def pool_write_ok split: option.splits)
  moreover have "map_option nd_data (dom_get q (dom_set r f s)) = map_option nd_data (dom_get q s)" for q
    by (cases "dom_get q s") (auto simp: f)
  ultimately show ?thesis by (simp add: kept_def)
qed

declare dom_get.simps [simp del]

section \<open>Taking a child out\<close>

lemma dom_repD:
  assumes "dom_rep s ch"
  shows "distinct (ch r)" "DocNode d \<notin> set (ch p)" "dom_get r s = None \<Longrightarrow> ch r = []" "dom_get r s = None \<Longrightarrow> r \<notin> set (ch p)"
    "dom_get r s = Some n \<Longrightarrow> nd_document n = ref_doc r"
    "dom_get r s = Some n \<Longrightarrow> nd_firstChild n = hd_opt (ch r)"
    "dom_get r s = Some n \<Longrightarrow> nd_lastChild n = hd_opt (rev (ch r))"
    "dom_get r s = Some n \<Longrightarrow> nd_parent n = Some p \<longleftrightarrow> r \<in> set (ch p)"
    "dom_get r s = Some n \<Longrightarrow> r \<in> set (ch p) \<Longrightarrow> nd_prev n = prev_in (ch p) r"
    "dom_get r s = Some n \<Longrightarrow> r \<in> set (ch p) \<Longrightarrow> nd_next n = next_in (ch p) r"
  using assms unfolding dom_rep_def by blast+

lemma dom_rep_child:
  assumes "dom_rep s ch" "c \<in> set (ch p)"
  obtains t n where "dom_get p s = Some t" "dom_get c s = Some n" "nd_parent n = Some p"
    "nd_prev n = prev_in (ch p) c" "nd_next n = next_in (ch p) c" "nd_firstChild t = hd_opt (ch p)"
    "nd_lastChild t = hd_opt (rev (ch p))"
proof -
  obtain t where "dom_get p s = Some t" using dom_repD(3) [OF assms(1), of p] assms(2) by fastforce
  moreover obtain n where "dom_get c s = Some n" using dom_repD(4) [OF assms(1), of c p] assms(2) by fastforce
  ultimately show thesis using that dom_repD(6-10) [OF assms(1)] assms(2) by metis
qed

lemma one_parent: "dom_rep s ch \<Longrightarrow> c \<in> set (ch p) \<Longrightarrow> c \<in> set (ch q) \<Longrightarrow> q = p"
  using dom_rep_child [of s ch c p] dom_repD(8) [of s ch c _ q] by (metis option.inject)

lemma dom_repI:
  assumes "\<And>r. distinct (ch r)" "\<And>d p. DocNode d \<notin> set (ch p)"
    "\<And>r. dom_get r s = None \<Longrightarrow> ch r = [] \<and> (\<forall>p. r \<notin> set (ch p))"
    "\<And>r n. dom_get r s = Some n \<Longrightarrow> nd_document n = ref_doc r \<and> nd_firstChild n = hd_opt (ch r)
      \<and> nd_lastChild n = hd_opt (rev (ch r)) \<and> (\<forall>p. nd_parent n = Some p \<longleftrightarrow> r \<in> set (ch p))"
    "\<And>r n p. dom_get r s = Some n \<Longrightarrow> r \<in> set (ch p) \<Longrightarrow> nd_prev n = prev_in (ch p) r \<and> nd_next n = next_in (ch p) r"
  shows "dom_rep s ch"
  unfolding dom_rep_def using assms by blast

text \<open>What a program of assignments makes of every node, step by step.\<close>

definition gives :: "dom \<Rightarrow> dom option \<Rightarrow> (node_ref \<Rightarrow> dom_node \<Rightarrow> dom_node) \<Rightarrow> bool" where
  "gives s m g \<longleftrightarrow> (\<exists>s'. m = Some s' \<and> kept s s' \<and> (\<forall>r. dom_get r s' = map_option (g r) (dom_get r s)))"

lemma gives_upd:
  "dom_get q s \<noteq> None \<Longrightarrow> (\<And>n. nd_data (f n) = nd_data n) \<Longrightarrow> gives s (dom_upd q f s) (\<lambda>r n. if r = q then f n else n)"
  using kept_set [of f s q] by (auto simp: gives_def dom_upd_set option.map_ident)

lemma gives_upd_if:
  "(\<And>q. pt = Some q \<Longrightarrow> dom_get q s \<noteq> None) \<Longrightarrow> (\<And>n. nd_data (f n) = nd_data n) \<Longrightarrow>
    gives s (dom_upd_if pt f s) (\<lambda>r n. if pt = Some r then f n else n)"
  using gives_upd [of _ s f] by (cases pt) (auto simp: dom_upd_if_def gives_def option.map_ident eq_commute)

lemma gives_bind:
  assumes "gives s m g"
    "\<And>s'. m = Some s' \<Longrightarrow> (\<And>r. dom_get r s' = map_option (g r) (dom_get r s)) \<Longrightarrow> gives s' (k s') h"
  shows "gives s (Option.bind m k) (\<lambda>r n. h r (g r n))"
proof -
  obtain s1 where 1: "m = Some s1" "kept s s1" "\<And>r. dom_get r s1 = map_option (g r) (dom_get r s)"
    using assms(1) by (auto simp: gives_def)
  from assms(2) [OF 1(1,3)] obtain s2 where 2: "k s1 = Some s2" "kept s1 s2"
    "\<And>r. dom_get r s2 = map_option (h r) (dom_get r s1)"
    by (auto simp: gives_def)
  have "dom_get r s2 = map_option (\<lambda>n. h r (g r n)) (dom_get r s)" for r
    by (simp add: 1(3) 2(3) option.map_comp comp_def)
  with 1 2 show ?thesis by (auto simp: gives_def intro: kept_trans)
qed

lemma gives_weaken: "gives s m g \<Longrightarrow> (\<And>r n. dom_get r s = Some n \<Longrightarrow> g r n = h r n) \<Longrightarrow> gives s m h"
  unfolding gives_def by (metis (no_types, lifting) map_option_cong option.set_intros option.simps(15))

lemma gives_skip: "gives s (Some s) (\<lambda>r n. n)"
  by (simp add: gives_def option.map_ident)

definition unlinked :: "node_ref \<Rightarrow> node_ref \<Rightarrow> node_ref option \<Rightarrow> node_ref option \<Rightarrow> node_ref \<Rightarrow> dom_node \<Rightarrow> dom_node" where
  \<comment> \<open>what \<open>Unlink p c\<close> makes of node \<open>r\<close>\<close>
  "unlinked p c prv nxt r n = n\<lparr>
     nd_firstChild := if r = p \<and> nd_firstChild n = Some c then nxt else nd_firstChild n,
     nd_lastChild := if r = p \<and> nd_lastChild n = Some c then prv else nd_lastChild n,
     nd_next := if prv = Some r then nxt else nd_next n,
     nd_prev := if nxt = Some r then prv else nd_prev n,
     nd_parent := if r = c then None else nd_parent n\<rparr>"

lemma Unlink_gives:
  assumes rep: "dom_rep s ch" and c: "c \<in> set (ch p)"
  shows "gives s (Unlink p c s) (unlinked p c (prev_in (ch p) c) (next_in (ch p) c))"
proof -
  let ?prv = "prev_in (ch p) c" and ?nxt = "next_in (ch p) c"
  from rep c obtain t n where tn: "dom_get p s = Some t" "dom_get c s = Some n" "nd_prev n = ?prv" "nd_next n = ?nxt"
    by (rule dom_rep_child) blast
  have live: "?prv = Some q \<Longrightarrow> dom_get q s \<noteq> None" "?nxt = Some q \<Longrightarrow> dom_get q s \<noteq> None" for q
    using dom_repD(4) [OF rep, of q p] prev_in_mem [of "ch p" c q] next_in_mem [of "ch p" c q] by auto
  have ns: "?prv \<noteq> Some c" "?nxt \<noteq> Some c"
    using prev_in_not_self next_in_not_self dom_repD(1) [OF rep] by metis+
  let ?g1 = "\<lambda>r m. if r = p \<and> nd_firstChild m = Some c then m\<lparr>nd_firstChild := ?nxt\<rparr> else m"
  let ?g2 = "\<lambda>r m. if r = p \<and> nd_lastChild m = Some c then m\<lparr>nd_lastChild := ?prv\<rparr> else m"
  let ?g3 = "\<lambda>r m. if ?prv = Some r then m\<lparr>nd_next := ?nxt\<rparr> else m"
  let ?g4 = "\<lambda>r m. if ?nxt = Some r then m\<lparr>nd_prev := ?prv\<rparr> else m"
  let ?g5 = "\<lambda>r m. if r = c then m\<lparr>nd_parent := None\<rparr> else m"
  have 1: "gives s (if nd_firstChild t = Some c then dom_upd p (nd_firstChild_update (\<lambda>_. nd_next n)) s else Some s) ?g1"
    using tn by (auto intro!: gives_weaken [OF gives_upd] gives_weaken [OF gives_skip])
  have 2: "gives s1 (if nd_lastChild t = Some c then dom_upd p (nd_lastChild_update (\<lambda>_. nd_prev n)) s1 else Some s1) ?g2"
    if "\<And>r. dom_get r s1 = map_option (?g1 r) (dom_get r s)" for s1
    using tn that by (auto intro!: gives_weaken [OF gives_upd] gives_weaken [OF gives_skip])
  have 3: "gives s2 (dom_upd_if (nd_prev n) (nd_next_update (\<lambda>_. nd_next n)) s2) ?g3"
    if "\<And>r. dom_get r s2 = None \<longleftrightarrow> dom_get r s = None" for s2
    using tn(3,4) live(1) gives_upd_if [of ?prv s2 "nd_next_update (\<lambda>_. ?nxt)"] by (simp add: that)
  have 4: "gives s3 (dom_upd_if ?nxt (nd_prev_update (\<lambda>_. ?prv)) s3) ?g4"
    if "\<And>r. dom_get r s3 = None \<longleftrightarrow> dom_get r s = None" for s3
    using live(2) gives_upd_if [of ?nxt s3 "nd_prev_update (\<lambda>_. ?prv)"] by (simp add: that)
  have 5: "gives s4 (dom_upd c (nd_parent_update (\<lambda>_. None)) s4) ?g5"
    if "\<And>r. dom_get r s4 = None \<longleftrightarrow> dom_get r s = None" for s4
    using gives_upd [of c s4] tn(2) by (simp add: that)
  have "gives s (Unlink p c s) (\<lambda>r m. ?g5 r (?g4 r (?g3 r (?g2 r (?g1 r m)))))"
    unfolding Unlink_def tn(1,2) Option.bind.simps
  proof (rule gives_bind [OF 1 gives_bind [OF 2 gives_bind [OF 3]]], goal_cases)
    case (1 s1 s2)
    then show ?case by simp
  next
    case (2 s1 s2)
    then show ?case by simp
  next
    case (3 s1 s2 s3)
    have "dom_get c s3 = Some (?g3 c (?g2 c (?g1 c n)))" by (simp add: 3(2,4,6) tn(2))
    then have "\<exists>c3. dom_get c s3 = Some c3 \<and> nd_prev c3 = ?prv \<and> nd_next c3 = ?nxt" using ns tn(3,4) by simp
    then obtain c3 where c3: "dom_get c s3 = Some c3" "nd_prev c3 = ?prv" "nd_next c3 = ?nxt" by blast
    show ?case unfolding c3 Option.bind.simps
      by (rule gives_bind [OF 4 5]) (simp_all add: 3(2,4,6))
  qed
  then show ?thesis by (rule gives_weaken) (auto simp: unlinked_def)
qed

text \<open>A program of assignments that keeps the documents of the nodes refines a change of the children.\<close>

lemma gives_rep:
  assumes rep: "dom_rep s ch" and g: "gives s m g" and d: "\<And>r. distinct (ch' r)" "\<And>d p. DocNode d \<notin> set (ch' p)"
    and out: "\<And>r. dom_get r s = None \<Longrightarrow> ch' r = [] \<and> (\<forall>p. r \<notin> set (ch' p))"
    and n: "\<And>r n. dom_get r s = Some n \<Longrightarrow> nd_document (g r n) = nd_document n \<and> nd_firstChild (g r n) = hd_opt (ch' r)
      \<and> nd_lastChild (g r n) = hd_opt (rev (ch' r)) \<and> (\<forall>p. nd_parent (g r n) = Some p \<longleftrightarrow> r \<in> set (ch' p))"
    and l: "\<And>r n p. dom_get r s = Some n \<Longrightarrow> r \<in> set (ch' p) \<Longrightarrow>
      nd_prev (g r n) = prev_in (ch' p) r \<and> nd_next (g r n) = next_in (ch' p) r"
  shows "\<exists>s'. m = Some s' \<and> kept s s' \<and> dom_rep s' ch'"
proof -
  obtain s' where s': "m = Some s'" "kept s s'" "\<And>r. dom_get r s' = map_option (g r) (dom_get r s)"
    using g by (auto simp: gives_def)
  have "dom_rep s' ch'"
  proof (rule dom_repI, goal_cases)
    case (4 r n)
    then show ?case using s'(3) [of r] assms(6) dom_repD(5) [OF rep] by fastforce
  next
    case (5 r n p)
    then show ?case using s'(3) [of r] assms(7) by fastforce
  qed (use d out s'(3) in auto)
  with s'(1,2) show ?thesis by blast
qed

lemma Unlink_rep:
  assumes rep: "dom_rep s ch" and c: "c \<in> set (ch p)"
  shows "\<exists>s'. Unlink p c s = Some s' \<and> kept s s' \<and> dom_rep s' (ch(p := removeAll c (ch p)))"
proof (rule gives_rep [OF rep Unlink_gives [OF rep c]], goal_cases)
  case (1 r)
  then show ?case using dom_repD(1) [OF rep] by (simp add: distinct_removeAll)
next
  case (2 d q)
  then show ?case using dom_repD(2) [OF rep] by simp
next
  case (3 r)
  then show ?case using dom_repD(3,4) [OF rep] by auto
next
  case (4 r n)
  have "nd_parent (unlinked p c (prev_in (ch p) c) (next_in (ch p) c) r n) = Some q
      \<longleftrightarrow> r \<in> set ((ch(p := removeAll c (ch p))) q)" for q
    using dom_repD(8) [OF rep 4, of q] one_parent [OF rep c, of q] by (auto simp: unlinked_def)
  then show ?case
    using dom_repD(6,7) [OF rep 4] hd_removeAll [OF dom_repD(1) [OF rep], of c p] last_removeAll [OF dom_repD(1) [OF rep], of c p]
    by (auto simp: unlinked_def)
next
  case (5 r n q)
  have r: "r \<in> set (ch q)" "r \<noteq> c"
    using 5(2) one_parent [OF rep c, of q] by (auto split: if_splits)
  show ?case
  proof (cases "q = p")
    case True
    have "prev_in (ch p) r = Some c \<longleftrightarrow> next_in (ch p) c = Some r" "next_in (ch p) r = Some c \<longleftrightarrow> prev_in (ch p) c = Some r"
      using next_in_prev_in [OF dom_repD(1) [OF rep]] by simp_all
    with True r dom_repD(9,10) [OF rep 5(1)] show ?thesis
      by (auto simp: unlinked_def next_in_removeAll [OF dom_repD(1) [OF rep]] prev_in_removeAll [OF dom_repD(1) [OF rep]])
  next
    case False
    have "prev_in (ch p) c \<noteq> Some r" "next_in (ch p) c \<noteq> Some r"
      using False r(1) one_parent [OF rep _ r(1), of p] prev_in_mem [of "ch p" c r] next_in_mem [of "ch p" c r] by auto
    with False r dom_repD(9,10) [OF rep 5(1)] show ?thesis by (simp add: unlinked_def)
  qed
qed

section \<open>Adding a child\<close>

text \<open>The common facts about a node that is in no list.\<close>

lemma lone_node:
  assumes rep: "dom_rep s ch" and x: "\<And>q. x \<notin> set (ch q)"
  shows "hd_opt (ch p) \<noteq> Some x" "hd_opt (rev (ch p)) \<noteq> Some x" "next_in (ch p) r \<noteq> Some x" "prev_in (ch p) r \<noteq> Some x"
  using x hd_opt_mem [of "ch p" x] hd_opt_mem [of "rev (ch p)" x] next_in_mem [of "ch p" r x] prev_in_mem [of "ch p" r x]
  by auto

lemma live_child: "dom_rep s ch \<Longrightarrow> r \<in> set (ch p) \<Longrightarrow> dom_get r s \<noteq> None"
  using dom_repD(4) by blast

lemma live_ends:
  assumes "dom_rep s ch"
  shows "hd_opt (ch p) = Some q \<Longrightarrow> dom_get q s \<noteq> None" "hd_opt (rev (ch p)) = Some q \<Longrightarrow> dom_get q s \<noteq> None"
    "next_in (ch p) r = Some q \<Longrightarrow> dom_get q s \<noteq> None"
  using live_child [OF assms, of q p] hd_opt_mem [of "ch p" q] hd_opt_mem [of "rev (ch p)" q] next_in_mem [of "ch p" r q]
  by auto

definition linked_last :: "node_ref \<Rightarrow> node_ref \<Rightarrow> node_ref option \<Rightarrow> node_ref \<Rightarrow> dom_node \<Rightarrow> dom_node" where
  "linked_last p x l r n = n\<lparr>
     nd_firstChild := if r = p \<and> l = None then Some x else nd_firstChild n,
     nd_lastChild := if r = p then Some x else nd_lastChild n,
     nd_next := if r = x then None else if l = Some r then Some x else nd_next n,
     nd_prev := if r = x then l else nd_prev n,
     nd_parent := if r = x then Some p else nd_parent n\<rparr>"

lemma link_end_gives:
  assumes rep: "dom_rep s ch" and x: "\<And>q. x \<notin> set (ch q)" and live: "dom_get p s \<noteq> None" "dom_get x s \<noteq> None"
  shows "gives s (link_end p x s) (linked_last p x (hd_opt (rev (ch p))))"
proof -
  obtain t where t: "dom_get p s = Some t" "nd_lastChild t = hd_opt (rev (ch p))" using live(1) dom_repD(7) [OF rep] by blast
  have u: "gives z (dom_upd q f z) (\<lambda>r n. if r = q then f n else n)"
    if "dom_get q z \<noteq> None" "\<And>n. nd_data (f n) = nd_data n" for q z f
    using that by (rule gives_upd)
  show ?thesis
  proof (cases "hd_opt (rev (ch p))")
    case None
    show ?thesis unfolding link_end_def t Option.bind.simps None option.case
      by (rule gives_weaken [OF gives_bind [OF gives_bind [OF u gives_bind [OF u gives_bind [OF u u]]] u]])
        (use live in \<open>auto simp: linked_last_def\<close>)
  next
    case (Some l)
    have l: "l \<noteq> x" "dom_get l s \<noteq> None" using lone_node(2) [OF rep x, of p] live_ends(2) [OF rep Some] Some by auto
    show ?thesis unfolding link_end_def t Option.bind.simps Some option.case
      by (rule gives_weaken [OF gives_bind [OF gives_bind [OF u gives_bind [OF u gives_bind [OF u u]]] u]])
        (use live l in \<open>auto simp: linked_last_def\<close>)
  qed
qed

lemma link_end_rep:
  assumes rep: "dom_rep s ch" and x: "\<And>q. x \<notin> set (ch q)" and live: "dom_get p s \<noteq> None" "dom_get x s \<noteq> None"
    and xc: "\<And>d. x \<noteq> DocNode d"
  shows "\<exists>s'. link_end p x s = Some s' \<and> kept s s' \<and> dom_rep s' (ch(p := ch p @ [x]))"
proof (rule gives_rep [OF rep link_end_gives [OF rep x live]], goal_cases)
  case (1 r)
  then show ?case using dom_repD(1) [OF rep] x by simp
next
  case (2 d q)
  then show ?case using dom_repD(2) [OF rep] xc [of d] by auto
next
  case (3 r)
  then show ?case using dom_repD(3,4) [OF rep] live by auto
next
  case (4 r n)
  show ?case using dom_repD(6,7,8) [OF rep 4] x by (auto simp: linked_last_def hd_opt_append)
next
  case (5 r n q)
  have d: "distinct (ch p @ [x])" using dom_repD(1) [OF rep, of p] x by simp
  show ?case
  proof (cases "r = x")
    case True
    then have "q = p" using 5(2) x by (auto split: if_splits)
    then show ?thesis using True next_in_snoc [OF d, of x] by (simp add: linked_last_def prev_in_snoc)
  next
    case False
    then have r: "r \<in> set (ch q)" using 5(2) by (auto split: if_splits)
    show ?thesis
    proof (cases "q = p")
      case True
      then show ?thesis using False r dom_repD(9,10) [OF rep 5(1), of p] next_in_snoc [OF d, of r]
        by (simp add: linked_last_def prev_in_snoc)
    next
      case q: False
      have "hd_opt (rev (ch p)) \<noteq> Some r" using q one_parent [OF rep _ r, of p] hd_opt_mem [of "rev (ch p)" r] by auto
      then show ?thesis using False q r dom_repD(9,10) [OF rep 5(1)] by (simp add: linked_last_def)
    qed
  qed
qed

definition linked_first :: "node_ref \<Rightarrow> node_ref \<Rightarrow> node_ref option \<Rightarrow> node_ref \<Rightarrow> dom_node \<Rightarrow> dom_node" where
  "linked_first p x f r n = n\<lparr>
     nd_firstChild := if r = p then Some x else nd_firstChild n,
     nd_lastChild := if r = p \<and> f = None then Some x else nd_lastChild n,
     nd_next := if r = x then f else nd_next n,
     nd_prev := if r = x then None else if f = Some r then Some x else nd_prev n,
     nd_parent := if r = x then Some p else nd_parent n\<rparr>"

lemma link_first_gives:
  assumes rep: "dom_rep s ch" and x: "\<And>q. x \<notin> set (ch q)" and live: "dom_get p s \<noteq> None" "dom_get x s \<noteq> None"
  shows "gives s (link_first p x s) (linked_first p x (hd_opt (ch p)))"
proof -
  obtain t where t: "dom_get p s = Some t" "nd_firstChild t = hd_opt (ch p)" using live(1) dom_repD(6) [OF rep] by blast
  have u: "gives z (dom_upd q f z) (\<lambda>r n. if r = q then f n else n)"
    if "dom_get q z \<noteq> None" "\<And>n. nd_data (f n) = nd_data n" for q z f
    using that by (rule gives_upd)
  show ?thesis
  proof (cases "hd_opt (ch p)")
    case None
    show ?thesis unfolding link_first_def t Option.bind.simps None option.case
      by (rule gives_weaken [OF gives_bind [OF gives_bind [OF u gives_bind [OF u gives_bind [OF u u]]] u]])
        (use live in \<open>auto simp: linked_first_def\<close>)
  next
    case (Some f)
    have f: "f \<noteq> x" "dom_get f s \<noteq> None" using lone_node(1) [OF rep x, of p] live_ends(1) [OF rep Some] Some by auto
    show ?thesis unfolding link_first_def t Option.bind.simps Some option.case
      by (rule gives_weaken [OF gives_bind [OF gives_bind [OF u gives_bind [OF u gives_bind [OF u u]]] u]])
        (use live f in \<open>auto simp: linked_first_def\<close>)
  qed
qed

lemma link_first_rep:
  assumes rep: "dom_rep s ch" and x: "\<And>q. x \<notin> set (ch q)" and live: "dom_get p s \<noteq> None" "dom_get x s \<noteq> None"
    and xc: "\<And>d. x \<noteq> DocNode d"
  shows "\<exists>s'. link_first p x s = Some s' \<and> kept s s' \<and> dom_rep s' (ch(p := x # ch p))"
proof (rule gives_rep [OF rep link_first_gives [OF rep x live]], goal_cases)
  case (1 r)
  then show ?case using dom_repD(1) [OF rep] x by simp
next
  case (2 d q)
  then show ?case using dom_repD(2) [OF rep] xc [of d] by auto
next
  case (3 r)
  then show ?case using dom_repD(3,4) [OF rep] live by auto
next
  case (4 r n)
  show ?case using dom_repD(6,7,8) [OF rep 4] x by (auto simp: linked_first_def hd_opt_append)
next
  case (5 r n q)
  have d: "distinct (x # ch p)" using dom_repD(1) [OF rep, of p] x by simp
  show ?case
  proof (cases "r = x")
    case True
    then have "q = p" using 5(2) x by (auto split: if_splits)
    then show ?thesis using True prev_in_Cons [OF d, of x] by (simp add: linked_first_def next_in_Cons)
  next
    case False
    then have r: "r \<in> set (ch q)" using 5(2) by (auto split: if_splits)
    show ?thesis
    proof (cases "q = p")
      case True
      then show ?thesis using False r dom_repD(9,10) [OF rep 5(1), of p] prev_in_Cons [OF d, of r]
        by (simp add: linked_first_def next_in_Cons)
    next
      case q: False
      have "hd_opt (ch p) \<noteq> Some r" using q one_parent [OF rep _ r, of p] hd_opt_mem [of "ch p" r] by auto
      then show ?thesis using False q r dom_repD(9,10) [OF rep 5(1)] by (simp add: linked_first_def)
    qed
  qed
qed

definition linked_behind :: "node_ref \<Rightarrow> node_ref \<Rightarrow> node_ref \<Rightarrow> node_ref \<Rightarrow> node_ref \<Rightarrow> dom_node \<Rightarrow> dom_node" where
  "linked_behind p a x b r n = n\<lparr>
     nd_next := if r = a then Some x else if r = x then Some b else nd_next n,
     nd_prev := if r = b then Some x else if r = x then Some a else nd_prev n,
     nd_parent := if r = x then Some p else nd_parent n\<rparr>"

lemma link_after_gives:
  assumes rep: "dom_rep s ch" and x: "\<And>q. x \<notin> set (ch q)" and live: "dom_get x s \<noteq> None"
    and a: "a \<in> set (ch p)" and b: "next_in (ch p) a = Some b"
  shows "gives s (link_after p a x s) (linked_behind p a x b)"
proof -
  obtain n where n: "dom_get a s = Some n" "nd_next n = Some b"
    using dom_rep_child [OF rep a] b by metis
  have ne: "a \<noteq> x" "b \<noteq> x" "b \<noteq> a" "dom_get b s \<noteq> None"
    using x a b lone_node(3) [OF rep x, of p a] next_in_not_self [OF dom_repD(1) [OF rep], of p a] live_ends(3) [OF rep b] by auto
  have u: "gives z (dom_upd q f z) (\<lambda>r n. if r = q then f n else n)"
    if "dom_get q z \<noteq> None" "\<And>n. nd_data (f n) = nd_data n" for q z f
    using that by (rule gives_upd)
  have read: "gives z (Option.bind (dom_get a z) k) g"
    if "\<And>m. dom_get a z = Some m \<Longrightarrow> gives z (k m) g" "dom_get a z \<noteq> None" for z k g
    using that by auto
  have 1: "gives s (dom_upd x (nd_prev_update (\<lambda>_. Some a)) s) (\<lambda>r n. if r = x then n\<lparr>nd_prev := Some a\<rparr> else n)"
    by (rule u) (use live in simp_all)
  have 2: "gives s1 (Option.bind (dom_get a s1) (\<lambda>af. Option.bind (dom_upd x (nd_next_update (\<lambda>_. nd_next af)) s1)
        (\<lambda>s2. Option.bind (dom_get a s2) (\<lambda>af2. Option.bind (nd_next af2) (\<lambda>behind.
          Option.bind (dom_upd behind (nd_prev_update (\<lambda>_. Some x)) s2) (\<lambda>s3.
            Option.bind (dom_upd a (nd_next_update (\<lambda>_. Some x)) s3) (dom_upd x (nd_parent_update (\<lambda>_. Some p)))))))))
      (\<lambda>r n. let n1 = (if r = x then n\<lparr>nd_next := Some b\<rparr> else n); n2 = (if r = b then n1\<lparr>nd_prev := Some x\<rparr> else n1);
         n3 = (if r = a then n2\<lparr>nd_next := Some x\<rparr> else n2) in if r = x then n3\<lparr>nd_parent := Some p\<rparr> else n3)"
    if s1: "\<And>r. dom_get r s1 = map_option (\<lambda>n. if r = x then n\<lparr>nd_prev := Some a\<rparr> else n) (dom_get r s)" for s1
  proof -
    have a1: "dom_get a s1 = Some n" using s1 [of a] n ne(1) by simp
    have l1: "dom_get r s1 = None \<longleftrightarrow> dom_get r s = None" for r using s1 [of r] by simp
    have 3: "gives s2 (Option.bind (dom_upd b (nd_prev_update (\<lambda>_. Some x)) s2) (\<lambda>s3.
            Option.bind (dom_upd a (nd_next_update (\<lambda>_. Some x)) s3) (dom_upd x (nd_parent_update (\<lambda>_. Some p)))))
        (\<lambda>r n. let n2 = (if r = b then n\<lparr>nd_prev := Some x\<rparr> else n);
           n3 = (if r = a then n2\<lparr>nd_next := Some x\<rparr> else n2) in if r = x then n3\<lparr>nd_parent := Some p\<rparr> else n3)"
      if "\<And>r. dom_get r s2 = None \<longleftrightarrow> dom_get r s = None" for s2
      by (rule gives_weaken [OF gives_bind [OF u gives_bind [OF u u]]])
        (use live ne(4) n in \<open>auto simp: that Let_def\<close>)
    have ux: "gives s1 (dom_upd x (nd_next_update (\<lambda>_. Some b)) s1) (\<lambda>r n. if r = x then n\<lparr>nd_next := Some b\<rparr> else n)"
      by (rule u) (use live l1 in simp_all)
    have 4: "gives s2 (Option.bind (dom_get a s2) (\<lambda>af2. Option.bind (nd_next af2) (\<lambda>behind.
          Option.bind (dom_upd behind (nd_prev_update (\<lambda>_. Some x)) s2) (\<lambda>s3.
            Option.bind (dom_upd a (nd_next_update (\<lambda>_. Some x)) s3) (dom_upd x (nd_parent_update (\<lambda>_. Some p)))))))
        (\<lambda>r n. let n2 = (if r = b then n\<lparr>nd_prev := Some x\<rparr> else n);
           n3 = (if r = a then n2\<lparr>nd_next := Some x\<rparr> else n2) in if r = x then n3\<lparr>nd_parent := Some p\<rparr> else n3)"
      if s2: "\<And>r. dom_get r s2 = map_option (\<lambda>n. if r = x then n\<lparr>nd_next := Some b\<rparr> else n) (dom_get r s1)" for s2
    proof -
      have a2: "dom_get a s2 = Some n" using s2 [of a] a1 ne(1) by simp
      show ?thesis unfolding a2 Option.bind.simps n(2) by (rule 3) (simp add: s2 l1)
    qed
    show ?thesis unfolding a1 Option.bind.simps n(2)
      by (rule gives_weaken [OF gives_bind [OF ux 4]]) (simp_all add: Let_def)
  qed
  have "gives s (link_after p a x s) (\<lambda>r m. let m0 = (if r = x then m\<lparr>nd_prev := Some a\<rparr> else m);
     n1 = (if r = x then m0\<lparr>nd_next := Some b\<rparr> else m0); n2 = (if r = b then n1\<lparr>nd_prev := Some x\<rparr> else n1);
         n3 = (if r = a then n2\<lparr>nd_next := Some x\<rparr> else n2) in if r = x then n3\<lparr>nd_parent := Some p\<rparr> else n3)"
    unfolding link_after_def using gives_bind [OF 1 2] by (simp add: Let_def cong: if_cong)
  then show ?thesis by (rule gives_weaken) (use ne in \<open>auto simp: linked_behind_def Let_def\<close>)
qed

lemma link_after_rep:
  assumes rep: "dom_rep s ch" and x: "\<And>q. x \<notin> set (ch q)" and live: "dom_get x s \<noteq> None" and xc: "\<And>d. x \<noteq> DocNode d"
    and a: "a \<in> set (ch p)" and b: "next_in (ch p) a = Some b"
  shows "\<exists>s'. link_after p a x s = Some s' \<and> kept s s' \<and> dom_rep s' (ch(p := insert_after a x (ch p)))"
proof (rule gives_rep [OF rep link_after_gives [OF rep x live a b]], goal_cases)
  case (1 r)
  then show ?case using dom_repD(1) [OF rep] x by (simp add: distinct_insert_after)
next
  case (2 d q)
  then show ?case using dom_repD(2) [OF rep] xc [of d] by (auto simp: set_insert_after)
next
  case (3 r)
  then show ?case using dom_repD(3,4) [OF rep] live a by (auto simp: set_insert_after)
next
  case (4 r n)
  show ?case using dom_repD(6,7,8) [OF rep 4] x a b last_insert_after [OF dom_repD(1) [OF rep] a]
    by (auto simp: linked_behind_def hd_insert_after set_insert_after)
next
  case (5 r n q)
  have d: "distinct (ch p)" using dom_repD(1) [OF rep, of p] .
  have ab: "a \<noteq> x" "b \<noteq> x" using a b x lone_node(3) [OF rep x, of p a] by auto
  show ?case
  proof (cases "r = x")
    case True
    then have "q = p" using 5(2) x by (auto split: if_splits)
    then show ?thesis using True ab b next_in_insert_after [OF d x a] prev_in_insert_after [OF d x a]
      by (simp add: linked_behind_def)
  next
    case False
    then have r: "r \<in> set (ch q)" using 5(2) a by (auto simp: set_insert_after split: if_splits)
    show ?thesis
    proof (cases "q = p")
      case True
      then show ?thesis using False r b dom_repD(9,10) [OF rep 5(1), of p]
          next_in_insert_after [OF d x a] prev_in_insert_after [OF d x a]
        by (auto simp: linked_behind_def)
    next
      case q: False
      have "r \<noteq> a" "r \<noteq> b" using q one_parent [OF rep _ r, of p] a next_in_mem [OF b] by auto
      then show ?thesis using False q r dom_repD(9,10) [OF rep 5(1)] by (simp add: linked_behind_def)
    qed
  qed
qed

section \<open>Moving a node\<close>

text \<open>What an insertion does to the pools: a node that was in no tree is tracked from now on.\<close>

definition tracked_by :: "(nat \<Rightarrow> pool_kind \<Rightarrow> int) \<Rightarrow> dom \<Rightarrow> dom \<Rightarrow> bool" where
  "tracked_by \<delta> s s' \<longleftrightarrow>
     (\<forall>r. map_option nd_data (dom_get r s') = map_option nd_data (dom_get r s))
     \<and> (\<forall>d k. pool_ok (dd_pool (s d) k) \<longrightarrow> pool_ok (dd_pool (s' d) k))
     \<and> (\<forall>d k. mp_nUntracked (dd_pool (s' d) k) = mp_nUntracked (dd_pool (s d) k) - \<delta> d k)"

lemma tracked_kept: "tracked_by \<delta> s s' \<Longrightarrow> kept s' s'' \<Longrightarrow> tracked_by \<delta> s s''"
  by (simp add: tracked_by_def kept_def)

lemma tracked_live: "tracked_by \<delta> s s' \<Longrightarrow> dom_get r s' = None \<longleftrightarrow> dom_get r s = None"
  unfolding tracked_by_def by (metis map_option_is_None)

definition lone_count :: "node_ref \<Rightarrow> (node_ref \<Rightarrow> node_ref list) \<Rightarrow> nat \<Rightarrow> pool_kind \<Rightarrow> int" where
  "lone_count x ch d k = (if (\<exists>i. x = ChunkNode d k i) \<and> (\<forall>p. x \<notin> set (ch p)) then 1 else 0)"

lemma SetTracked_gives:
  assumes "x = ChunkNode d k i"
  shows "\<exists>s'. dom_SetTracked x s = Some s' \<and> (\<forall>r. dom_get r s' = dom_get r s)
    \<and> tracked_by (\<lambda>d' k'. if d' = d \<and> k' = k then 1 else 0) s s'"
proof -
  have g: "dom_get r (s(d := (s d)\<lparr>dd_pool := (dd_pool (s d))(k := pool_SetTracked (dd_pool (s d) k))\<rparr>)) = dom_get r s" for r
    by (cases r) (auto simp: dom_get.simps pool_item_def pool_SetTracked_def)
  have "pool_ok (pool_SetTracked p)" if "pool_ok p" for p :: "dom_node mem_pool"
    using that used_chunks_cong(1) [of "pool_SetTracked p" p] by (simp add: pool_ok_def pool_SetTracked_def)
  then show ?thesis using g by (simp add: assms tracked_by_def pool_SetTracked_def)
qed

lemma dom_rep_cong: "dom_rep s ch \<Longrightarrow> (\<And>r. dom_get r s' = dom_get r s) \<Longrightarrow> dom_rep s' ch"
  by (simp add: dom_rep_def)

lemma take_out_rep:
  assumes rep: "dom_rep s ch" and x: "dom_get x s \<noteq> None" "\<And>d. x \<noteq> DocNode d"
  shows "\<exists>s1. take_out x s = Some s1 \<and> tracked_by (lone_count x ch) s s1 \<and> dom_rep s1 (\<lambda>r. removeAll x (ch r))"
proof -
  obtain n where n: "dom_get x s = Some n" using x(1) by blast
  show ?thesis
  proof (cases "nd_parent n")
    case None
    then have out: "x \<notin> set (ch p)" for p using dom_repD(8) [OF rep n, of p] by simp
    obtain d k i where c: "x = ChunkNode d k i" using x(2) by (cases x) auto
    obtain s1 where s1: "dom_SetTracked x s = Some s1" "\<forall>r. dom_get r s1 = dom_get r s"
      "tracked_by (\<lambda>d' k'. if d' = d \<and> k' = k then 1 else 0) s s1"
      using SetTracked_gives [OF c] by blast
    have "lone_count x ch = (\<lambda>d' k'. if d' = d \<and> k' = k then 1 else 0)"
      using out by (auto simp: lone_count_def c fun_eq_iff)
    moreover have "(\<lambda>r. removeAll x (ch r)) = ch" using out by (auto simp: removeAll_id)
    ultimately show ?thesis using s1 None n dom_rep_cong [OF rep, of s1] by (simp add: take_out_def)
  next
    case (Some p)
    then have p: "x \<in> set (ch p)" using dom_repD(8) [OF rep n, of p] by simp
    obtain s1 where s1: "Unlink p x s = Some s1" "kept s s1" "dom_rep s1 (ch(p := removeAll x (ch p)))"
      using Unlink_rep [OF rep p] by blast
    have "removeAll x (ch r) = ch r" if "r \<noteq> p" for r
      using one_parent [OF rep p, of r] that by (auto intro: removeAll_id)
    then have "ch(p := removeAll x (ch p)) = (\<lambda>r. removeAll x (ch r))" by (simp add: fun_eq_iff)
    moreover have "lone_count x ch = (\<lambda>d k. 0)" using p by (auto simp: lone_count_def fun_eq_iff)
    ultimately show ?thesis using s1 Some n by (simp add: take_out_def tracked_by_def kept_def)
  qed
qed

lemma untracked_rep:
  assumes "dom_rep s ch"
  shows "untracked_nodes s d k = {i. dom_get (ChunkNode d k i) s \<noteq> None \<and> (\<forall>p. ChunkNode d k i \<notin> set (ch p))}"
proof -
  have "nd_parent n = None \<longleftrightarrow> (\<forall>p. r \<notin> set (ch p))" if "dom_get r s = Some n" for r n
    using dom_repD(8) [OF assms that] by (metis not_None_eq)
  then show ?thesis by (fastforce simp: untracked_nodes_def)
qed

lemma finite_untracked: "finite (untracked_nodes s d k)"
  by (rule finite_subset [OF _ finite_used_chunks [of "dd_pool (s d) k"]])
    (auto simp: untracked_nodes_def used_chunks_def dom_get.simps)

lemma inserted_pools:
  assumes ok: "dom_ok s ch" and t: "tracked_by (lone_count x ch) s s'" and rep: "dom_rep s' ch'"
    and x: "dom_get x s \<noteq> None" and members: "\<And>r. (\<exists>p. r \<in> set (ch' p)) \<longleftrightarrow> r = x \<or> (\<exists>p. r \<in> set (ch p))"
  shows "dom_ok s' ch'"
proof -
  have rep0: "dom_rep s ch" using ok by (simp add: dom_ok_def)
  have live: "dom_get r s' = None \<longleftrightarrow> dom_get r s = None" for r by (rule tracked_live [OF t])
  have u: "i \<in> untracked_nodes s' d k \<longleftrightarrow> ChunkNode d k i \<noteq> x \<and> i \<in> untracked_nodes s d k" for d k i
    using members [of "ChunkNode d k i"] by (auto simp: untracked_rep [OF rep] untracked_rep [OF rep0] live)
  have "int (card (untracked_nodes s' d k)) = int (card (untracked_nodes s d k)) - lone_count x ch d k" for d k
  proof (cases "(\<exists>i. x = ChunkNode d k i) \<and> (\<forall>p. x \<notin> set (ch p))")
    case True
    then obtain i where i: "x = ChunkNode d k i" "\<forall>p. x \<notin> set (ch p)" by blast
    have "untracked_nodes s' d k = untracked_nodes s d k - {i}" using u i(1) by auto
    moreover have "i \<in> untracked_nodes s d k" using i x by (simp add: untracked_rep [OF rep0])
    ultimately have "card (untracked_nodes s d k) = Suc (card (untracked_nodes s' d k))"
      using card.remove [OF finite_untracked] by metis
    then show ?thesis using True by (simp add: lone_count_def)
  next
    case False
    have "i \<in> untracked_nodes s d k \<Longrightarrow> ChunkNode d k i \<noteq> x" for i
      using False by (auto simp: untracked_rep [OF rep0])
    then have "untracked_nodes s' d k = untracked_nodes s d k" using u by blast
    then show ?thesis using False by (auto simp: lone_count_def)
  qed
  with ok t rep show ?thesis unfolding dom_ok_def pools_ok_def tracked_by_def by simp
qed

text \<open>The three insertions as operations on the children of every node.\<close>

definition move_last :: "node_ref \<Rightarrow> node_ref \<Rightarrow> (node_ref \<Rightarrow> node_ref list) \<Rightarrow> node_ref \<Rightarrow> node_ref list" where
  "move_last p x ch = (\<lambda>r. removeAll x (ch r))(p := removeAll x (ch p) @ [x])"

definition move_first :: "node_ref \<Rightarrow> node_ref \<Rightarrow> (node_ref \<Rightarrow> node_ref list) \<Rightarrow> node_ref \<Rightarrow> node_ref list" where
  "move_first p x ch = (\<lambda>r. removeAll x (ch r))(p := x # removeAll x (ch p))"

definition move_behind :: "node_ref \<Rightarrow> node_ref \<Rightarrow> node_ref \<Rightarrow> (node_ref \<Rightarrow> node_ref list) \<Rightarrow> node_ref \<Rightarrow> node_ref list" where
  "move_behind p a x ch = (\<lambda>r. removeAll x (ch r))(p := insert_after a x (removeAll x (ch p)))"

definition same_data :: "dom \<Rightarrow> dom \<Rightarrow> bool" where
  "same_data s s' \<longleftrightarrow> (\<forall>r. map_option nd_data (dom_get r s') = map_option nd_data (dom_get r s))"

lemma take_out_then:
  assumes ok: "dom_ok s ch" and live: "dom_get p s \<noteq> None" "dom_get x s \<noteq> None" and xc: "\<And>d. x \<noteq> DocNode d"
    and link: "\<And>s1. dom_rep s1 (\<lambda>r. removeAll x (ch r)) \<Longrightarrow> dom_get p s1 \<noteq> None \<Longrightarrow> dom_get x s1 \<noteq> None \<Longrightarrow>
      \<exists>s2. link s1 = Some s2 \<and> kept s1 s2 \<and> dom_rep s2 ((\<lambda>r. removeAll x (ch r))(p := l))"
    and l: "set l = insert x (set (ch p))"
  shows "\<exists>s2. Option.bind (take_out x s) link = Some s2 \<and> dom_ok s2 ((\<lambda>r. removeAll x (ch r))(p := l)) \<and> same_data s s2"
proof -
  obtain s1 where s1: "take_out x s = Some s1" "tracked_by (lone_count x ch) s s1" "dom_rep s1 (\<lambda>r. removeAll x (ch r))"
    using take_out_rep [of s ch x] ok live(2) xc by (auto simp: dom_ok_def)
  obtain s2 where s2: "link s1 = Some s2" "kept s1 s2" "dom_rep s2 ((\<lambda>r. removeAll x (ch r))(p := l))"
    using link [OF s1(3)] live tracked_live [OF s1(2)] by auto
  have t: "tracked_by (lone_count x ch) s s2" by (rule tracked_kept [OF s1(2) s2(2)])
  have "dom_ok s2 ((\<lambda>r. removeAll x (ch r))(p := l))"
    by (rule inserted_pools [OF ok t s2(3) live(2)]) (use l in \<open>auto split: if_splits\<close>)
  with s1 s2 t show ?thesis by (simp add: same_data_def tracked_by_def)
qed

lemma InsertEndChild_refines:
  assumes ok: "dom_ok s ch" and live: "dom_get p s \<noteq> None" "dom_get x s \<noteq> None" and xc: "\<And>d. x \<noteq> DocNode d"
    and doc: "ref_doc x = ref_doc p"
  shows "\<exists>s'. InsertEndChild p x s = Some (Some x, s') \<and> dom_ok s' (move_last p x ch) \<and> same_data s s'"
proof -
  obtain t n where tn: "dom_get p s = Some t" "dom_get x s = Some n" using live by blast
  have d: "nd_document n = nd_document t" using dom_repD(5) tn ok doc unfolding dom_ok_def by metis
  have "\<exists>s2. Option.bind (take_out x s) (link_end p x) = Some s2
      \<and> dom_ok s2 ((\<lambda>r. removeAll x (ch r))(p := removeAll x (ch p) @ [x])) \<and> same_data s s2"
  proof (rule take_out_then [OF ok live xc], goal_cases)
    case (1 s1)
    then show ?case using link_end_rep [of s1 "\<lambda>r. removeAll x (ch r)" x p] xc by simp
  qed auto
  then show ?thesis using tn d by (auto simp: InsertEndChild_def move_last_def bind_eq_Some_iff)
qed

lemma InsertFirstChild_refines:
  assumes ok: "dom_ok s ch" and live: "dom_get p s \<noteq> None" "dom_get x s \<noteq> None" and xc: "\<And>d. x \<noteq> DocNode d"
    and doc: "ref_doc x = ref_doc p"
  shows "\<exists>s'. InsertFirstChild p x s = Some (Some x, s') \<and> dom_ok s' (move_first p x ch) \<and> same_data s s'"
proof -
  obtain t n where tn: "dom_get p s = Some t" "dom_get x s = Some n" using live by blast
  have d: "nd_document n = nd_document t" using dom_repD(5) tn ok doc unfolding dom_ok_def by metis
  have "\<exists>s2. Option.bind (take_out x s) (link_first p x) = Some s2
      \<and> dom_ok s2 ((\<lambda>r. removeAll x (ch r))(p := x # removeAll x (ch p))) \<and> same_data s s2"
  proof (rule take_out_then [OF ok live xc], goal_cases)
    case (1 s1)
    then show ?case using link_first_rep [of s1 "\<lambda>r. removeAll x (ch r)" x p] xc by simp
  qed auto
  then show ?thesis using tn d by (auto simp: InsertFirstChild_def move_first_def bind_eq_Some_iff)
qed

lemma insert_after_last: "distinct l \<Longrightarrow> a \<in> set l \<Longrightarrow> next_in l a = None \<Longrightarrow> insert_after a x l = l @ [x]"
proof (induction l)
  case (Cons y l)
  then show ?case by (auto simp: next_in_Cons split: if_splits)
qed simp

lemma InsertAfterChild_refines:
  assumes ok: "dom_ok s ch" and live: "dom_get p s \<noteq> None" "dom_get x s \<noteq> None" and xc: "\<And>d. x \<noteq> DocNode d"
    and doc: "ref_doc x = ref_doc p" and a: "a \<in> set (ch p)" "a \<noteq> x"
    and nl: "next_in (ch p) a = Some x \<Longrightarrow> next_in (ch p) x \<noteq> None"
  shows "\<exists>s'. InsertAfterChild p a x s = Some (Some x, s') \<and> dom_ok s' (move_behind p a x ch) \<and> same_data s s'"
proof -
  have rep: "dom_rep s ch" using ok by (simp add: dom_ok_def)
  obtain t n where tn: "dom_get p s = Some t" "dom_get x s = Some n" using live by blast
  have d: "nd_document n = nd_document t" using dom_repD(5) tn ok doc unfolding dom_ok_def by metis
  obtain m where m: "dom_get a s = Some m" "nd_parent m = Some p" "nd_next m = next_in (ch p) a"
    using dom_rep_child [OF rep a(1)] by metis
  have dist: "distinct (ch p)" by (rule dom_repD(1) [OF rep])
  show ?thesis
  proof (cases "next_in (ch p) a")
    case None
    have "next_in (removeAll x (ch p)) a = None" using next_in_removeAll [OF dist, of a x] None a(2) by simp
    then have "insert_after a x (removeAll x (ch p)) = removeAll x (ch p) @ [x]"
      by (intro insert_after_last) (use dist a in \<open>auto simp: distinct_removeAll\<close>)
    then have "move_behind p a x ch = move_last p x ch" by (simp add: move_behind_def move_last_def)
    with InsertEndChild_refines [OF ok live xc doc] None show ?thesis by (simp add: InsertAfterChild_def tn m d)
  next
    case (Some b)
    have "next_in (removeAll x (ch p)) a \<noteq> None" using next_in_removeAll [OF dist, of a x] Some a(2) nl by auto
    then obtain b' where b': "next_in (removeAll x (ch p)) a = Some b'" by blast
    have "\<exists>s2. Option.bind (take_out x s) (link_after p a x) = Some s2
        \<and> dom_ok s2 ((\<lambda>r. removeAll x (ch r))(p := insert_after a x (removeAll x (ch p)))) \<and> same_data s s2"
    proof (rule take_out_then [OF ok live xc])
      fix s1
      assume "dom_rep s1 (\<lambda>r. removeAll x (ch r))" "dom_get p s1 \<noteq> None" "dom_get x s1 \<noteq> None"
      then show "\<exists>s2. link_after p a x s1 = Some s2 \<and> kept s1 s2
          \<and> dom_rep s2 ((\<lambda>r. removeAll x (ch r))(p := insert_after a x (removeAll x (ch p))))"
        by (intro link_after_rep) (use a xc b' in auto)
    qed (use a in \<open>auto simp: set_insert_after\<close>)
    then show ?thesis using Some by (auto simp: InsertAfterChild_def tn m d move_behind_def bind_eq_Some_iff)
  qed
qed

lemma insert_into_other_document:
  assumes "dom_rep s ch" "dom_get p s \<noteq> None" "dom_get x s \<noteq> None" "ref_doc x \<noteq> ref_doc p"
  shows "InsertEndChild p x s = Some (None, s)" "InsertFirstChild p x s = Some (None, s)" "InsertAfterChild p a x s = Some (None, s)"
  using assms dom_repD(5) [OF assms(1), of p] dom_repD(5) [OF assms(1), of x]
  by (auto simp: InsertEndChild_def InsertFirstChild_def InsertAfterChild_def)

end
