(* ===== verification/XmlDomDelete.thy ===== *)
theory XmlDomDelete
  imports XmlDomProps
begin

text \<open>
  Creating and deleting nodes of a document tree, and the document as a whole: a new node is in no tree;
  deleting the children of a node ends and frees exactly the nodes below it, whatever the shape of the
  tree; and what the debug assertion of the destructor of a document claims of its pools.
\<close>

section \<open>New nodes\<close>

definition dom_room :: "dom \<Rightarrow> bool" where
  "dom_room s \<longleftrightarrow> (\<forall>d k. pool_room (dd_pool (s d) k))"

lemma dom_new_result:
  assumes ok: "dom_ok s ch" and new: "dom_new d k data s = Some (x, s')"
  shows "(\<exists>i. x = ChunkNode d k i) \<and> dom_get x s = None \<and> dom_get x s' = Some (XMLNode_new d data)
    \<and> (\<forall>r. r \<noteq> x \<longrightarrow> dom_get r s' = dom_get r s) \<and> dom_ok s' ch"
proof -
  have rep: "dom_rep s ch" and pok: "pool_ok (dd_pool (s d) k)" for d k using ok by (simp_all add: dom_ok_def pools_ok_def)
  obtain i p where ip: "pool_Alloc (XMLNode_new d data) (dd_pool (s d) k) = Some (i, p)" and x: "x = ChunkNode d k i"
    and s': "s' = s(d := (s d)\<lparr>dd_pool := (dd_pool (s d))(k := p)\<rparr>)"
    using new by (auto simp: dom_new_def bind_eq_Some_iff)
  have a: "pool_ok p" "pool_item i (dd_pool (s d) k) = None"
      "pool_item j p = (if j = i then Some (XMLNode_new d data) else pool_item j (dd_pool (s d) k))"
      "mp_nUntracked p = mp_nUntracked (dd_pool (s d) k) + 1" for j
    using pool_Alloc_result [OF pok ip] by simp_all
  have g: "dom_get r s' = (if r = x then Some (XMLNode_new d data) else dom_get r s)" for r
    using a(3) by (cases r) (auto simp: s' x dom_get.simps)
  have xs: "dom_get x s = None" using a(2) by (simp add: x dom_get.simps)
  have out: "ch x = []" "x \<notin> set (ch q)" for q using dom_repD(3,4) [OF rep xs] by simp_all
  have rep': "dom_rep s' ch"
  proof (rule dom_repI)
    fix r n assume "dom_get r s' = Some n"
    then show "nd_document n = ref_doc r \<and> nd_firstChild n = hd_opt (ch r) \<and> nd_lastChild n = hd_opt (rev (ch r))
        \<and> (\<forall>p. nd_parent n = Some p \<longleftrightarrow> r \<in> set (ch p))"
      using dom_repD(5-8) [OF rep] out by (cases "r = x") (auto simp: g x XMLNode_new_def)
  next
    fix r n q assume "dom_get r s' = Some n" "r \<in> set (ch q)"
    then show "nd_prev n = prev_in (ch q) r \<and> nd_next n = next_in (ch q) r"
      using dom_repD(9,10) [OF rep] out by (cases "r = x") (auto simp: g)
  qed (use dom_repD(1-4) [OF rep] g in \<open>auto split: if_splits\<close>)
  have "untracked_nodes s' d' k' = (if d' = d \<and> k' = k then insert i (untracked_nodes s d' k') else untracked_nodes s d' k')" for d' k'
    using out by (auto simp: untracked_rep [OF rep] untracked_rep [OF rep'] g x)
  moreover have "i \<notin> untracked_nodes s d k" using xs by (simp add: untracked_rep [OF rep] x)
  ultimately have "pools_ok s'" using ok a(1,4) finite_untracked by (auto simp: dom_ok_def pools_ok_def s')
  with xs g rep' x show ?thesis by (simp add: dom_ok_def)
qed

lemma dom_new_defined:
  assumes "dom_ok s ch" "dom_room s"
  shows "\<exists>x s'. dom_new d k data s = Some (x, s')"
  using pool_Alloc_ok [of "dd_pool (s d) k" "XMLNode_new d data"] assms
  by (auto simp: dom_ok_def pools_ok_def dom_room_def dom_new_def)

lemma empty_documents_ok:
  assumes "\<And>k. 0 < sizes k \<and> sizes k \<le> 4096"
  shows "dom_ok (\<lambda>d. XMLDocument_new d sizes) (\<lambda>r. []) \<and> dom_room (\<lambda>d. XMLDocument_new d sizes)"
proof -
  have g: "dom_get r (\<lambda>d. XMLDocument_new d sizes)
      = (case r of DocNode d \<Rightarrow> Some (XMLNode_new d (XMLUnknown str_pair_new)) | ChunkNode d k i \<Rightarrow> None)" for r
    using pool_new_ok assms by (cases r) (auto simp: dom_get.simps XMLDocument_new_def)
  have rep: "dom_rep (\<lambda>d. XMLDocument_new d sizes) (\<lambda>r. [])"
    by (auto simp: dom_rep_def g XMLNode_new_def split: node_ref.splits)
  have "untracked_nodes (\<lambda>d. XMLDocument_new d sizes) d k = {}" for d k by (simp add: untracked_nodes_def g)
  moreover have "dd_pool (XMLDocument_new d sizes) k = pool_new (sizes k)" "pool_ok (pool_new (sizes k) :: dom_node mem_pool)"
    "mp_nUntracked (pool_new (sizes k) :: dom_node mem_pool) = 0" for d k
    by (simp add: XMLDocument_new_def, rule pool_new_ok [THEN conjunct1]) (use assms in simp_all, simp add: pool_new_def)
  ultimately have "pools_ok (\<lambda>d. XMLDocument_new d sizes)" by (simp add: pools_ok_def)
  with rep show ?thesis
    by (simp add: dom_ok_def dom_room_def pool_room_def XMLDocument_new_def pool_new_def da_room_def da_new_def)
qed

section \<open>The nodes below a node\<close>

datatype node_tree = NodeTree (nt_root: node_ref) (nt_kids: "node_tree list")

fun nt_nodes :: "node_tree \<Rightarrow> node_ref list" where
  "nt_nodes (NodeTree r ts) = r # concat (map nt_nodes ts)"

fun nt_shape :: "(node_ref \<Rightarrow> node_ref list) \<Rightarrow> node_tree \<Rightarrow> bool" where
  \<comment> \<open>the children of every node in the tree are as \<open>ch\<close> says\<close>
  "nt_shape ch (NodeTree r ts) \<longleftrightarrow> ch r = map nt_root ts \<and> list_all (nt_shape ch) ts"

abbreviation nts_nodes :: "node_tree list \<Rightarrow> node_ref list" where
  "nts_nodes ts \<equiv> concat (map nt_nodes ts)"

lemma nt_root_in [simp]: "nt_root t \<in> set (nt_nodes t)"
  by (cases t) simp

lemma nt_shape_cong:
  "(\<And>r. r \<in> set (nt_nodes t) \<Longrightarrow> ch' r = ch r) \<Longrightarrow> nt_shape ch t \<Longrightarrow> nt_shape ch' t"
proof (induction t)
  case (NodeTree r ts)
  have "nt_shape ch' t" if "t \<in> set ts" for t
    by (rule NodeTree.IH [OF that]) (use NodeTree.prems that in \<open>auto simp: list_all_iff\<close>)
  then show ?case using NodeTree.prems by (simp add: list_all_iff)
qed

lemma nts_shape_cong:
  assumes "\<And>r. r \<in> set (nts_nodes ts) \<Longrightarrow> ch' r = ch r" "list_all (nt_shape ch) ts"
  shows "list_all (nt_shape ch') ts"
  unfolding list_all_iff
proof
  fix t assume t: "t \<in> set ts"
  show "nt_shape ch' t"
    by (rule nt_shape_cong [of t ch' ch]) (use assms t in \<open>auto simp: list_all_iff\<close>)
qed

text \<open>A tree is closed downwards, and every node but the root is a child of another.\<close>

lemma nt_children: "nt_shape ch t \<Longrightarrow> r \<in> set (nt_nodes t) \<Longrightarrow> c \<in> set (ch r) \<Longrightarrow> c \<in> set (nts_nodes (nt_kids t))"
proof (induction t)
  case (NodeTree q ts)
  show ?case
  proof (cases "r = q")
    case True
    then obtain t where "t \<in> set ts" "c = nt_root t" using NodeTree.prems by auto
    then have "t \<in> set ts \<and> c \<in> set (nt_nodes t)" by simp
    then show ?thesis by auto
  next
    case False
    then obtain t where t: "t \<in> set ts" "r \<in> set (nt_nodes t)" using NodeTree.prems(2) by auto
    then have "c \<in> set (nts_nodes (nt_kids t))" using NodeTree by (auto simp: list_all_iff)
    then have "c \<in> set (nt_nodes t)" by (cases t) auto
    then show ?thesis using t(1) by auto
  qed
qed

lemma nt_parents: "nt_shape ch t \<Longrightarrow> r \<in> set (nts_nodes (nt_kids t)) \<Longrightarrow> \<exists>p\<in>set (nt_nodes t). r \<in> set (ch p)"
proof (induction t)
  case (NodeTree q ts)
  then obtain t where t: "t \<in> set ts" "r \<in> set (nt_nodes t)" by auto
  show ?case
  proof (cases "r = nt_root t")
    case True
    then show ?thesis using NodeTree.prems t(1) by auto
  next
    case False
    then have "r \<in> set (nts_nodes (nt_kids t))" using t(2) by (cases t) auto
    then have "\<exists>p\<in>set (nt_nodes t). r \<in> set (ch p)" using NodeTree t(1) by (auto simp: list_all_iff)
    then show ?thesis using t(1) by auto
  qed
qed

section \<open>Deleting\<close>

definition kept_but :: "node_ref set \<Rightarrow> dom \<Rightarrow> dom \<Rightarrow> bool" where
  \<comment> \<open>the nodes of a set are freed, the others are there with their data\<close>
  "kept_but D s s' \<longleftrightarrow>
     (\<forall>r. map_option nd_data (dom_get r s') = (if r \<in> D then None else map_option nd_data (dom_get r s)))
     \<and> (\<forall>d k. pool_ok (dd_pool (s d) k) \<longrightarrow> pool_ok (dd_pool (s' d) k))
     \<and> (\<forall>d k. mp_nUntracked (dd_pool (s' d) k) = mp_nUntracked (dd_pool (s d) k))"

lemma kept_but_empty: "kept_but {} s s' \<longleftrightarrow> kept s s'"
  by (simp add: kept_but_def kept_def)

lemma kept_but_trans: "kept_but D s s1 \<Longrightarrow> kept_but E s1 s2 \<Longrightarrow> kept_but (D \<union> E) s s2"
  by (simp add: kept_but_def)

lemma kept_but_live: "kept_but D s s' \<Longrightarrow> dom_get r s' = None \<longleftrightarrow> r \<in> D \<or> dom_get r s = None"
  unfolding kept_but_def by (metis map_option_is_None)

definition dom_pools :: "dom \<Rightarrow> bool" where
  "dom_pools s \<longleftrightarrow> (\<forall>d k. pool_ok (dd_pool (s d) k))"

lemma kept_but_pools: "kept_but D s s' \<Longrightarrow> dom_pools s \<Longrightarrow> dom_pools s'"
  by (simp add: kept_but_def dom_pools_def)

lemma destroy_rep:
  assumes rep: "dom_rep s ch" and c: "dom_get c s \<noteq> None" "\<And>d. c \<noteq> DocNode d" "ch c = []" "\<And>p. c \<notin> set (ch p)"
    and pok: "dom_pools s"
  shows "\<exists>s'. destroy c s = Some s' \<and> kept_but {c} s s' \<and> dom_rep s' ch"
proof -
  obtain d k i where ck: "c = ChunkNode d k i" using c(2) by (cases c) auto
  obtain n where n: "dom_get c s = Some n" using c(1) by blast
  have np: "nd_parent n = None" using dom_repD(8) [OF rep n] c(4) by (metis not_None_eq)
  have "pool_item i (dd_pool (s d) k) \<noteq> None" using c(1) by (simp add: ck dom_get.simps)
  from pool_Free_ok [OF _ this] pok obtain p where p: "pool_Free (Some i) (dd_pool (s d) k) = Some p" "pool_ok p"
    "\<forall>j. pool_item j p = (if j = i then None else pool_item j (dd_pool (s d) k))"
    "mp_nUntracked p = mp_nUntracked (dd_pool (s d) k)" by (auto simp: dom_pools_def)
  define s' where "s' = s(d := (s d)\<lparr>dd_pool := (dd_pool (s d))(k := p)\<rparr>)"
  have g: "dom_get r s' = (if r = c then None else dom_get r s)" for r
    using p(3) by (cases r) (auto simp: s'_def dom_get.simps ck)
  have "dom_rep s' ch"
    using rep c(3,4) by (auto simp: dom_rep_def g)
  moreover have "kept_but {c} s s'" using p by (simp add: kept_but_def g) (simp add: s'_def)
  moreover have "destroy c s = Some s'" by (simp add: destroy_def n np) (simp add: ck p(1) s'_def)
  ultimately show ?thesis by blast
qed

text \<open>What the children are when those of \<open>n\<close> are gone with all that is below.\<close>

definition cleared :: "node_ref \<Rightarrow> node_ref set \<Rightarrow> (node_ref \<Rightarrow> node_ref list) \<Rightarrow> node_ref \<Rightarrow> node_ref list" where
  "cleared n D ch r = (if r = n \<or> r \<in> D then [] else ch r)"

lemma DeleteChildren_rep:
  assumes "dom_rep s ch" "dom_pools s" "dom_get n s \<noteq> None" "ch n = map nt_root ts" "list_all (nt_shape ch) ts"
    "distinct (n # nts_nodes ts)" "length (nts_nodes ts) < fuel"
  shows "\<exists>s'. DeleteChildren fuel n s = Some s' \<and> kept_but (set (nts_nodes ts)) s s'
    \<and> dom_rep s' (cleared n (set (nts_nodes ts)) ch)"
  using assms
proof (induction "length (nts_nodes ts)" arbitrary: ts n s ch fuel rule: less_induct)
  case less
  note rep = less.prems(1) and pok = less.prems(2) and live = less.prems(3) and kids = less.prems(4)
    and shape = less.prems(5) and dist = less.prems(6)
  obtain f where f: "fuel = Suc f" using less.prems(7) by (cases fuel) auto
  obtain t where t: "dom_get n s = Some t" "nd_firstChild t = hd_opt (ch n)" using live dom_repD(6) [OF rep] by blast
  show ?case
  proof (cases ts)
    case Nil
    have "gives s (dom_upd n (\<lambda>t. t\<lparr>nd_firstChild := None, nd_lastChild := None\<rparr>) s) (\<lambda>r m. m)"
      by (rule gives_weaken [OF gives_upd]) (use live dom_repD(6,7) [OF rep, of n] kids Nil in auto)
    then obtain s' where s': "dom_upd n (\<lambda>t. t\<lparr>nd_firstChild := None, nd_lastChild := None\<rparr>) s = Some s'" "kept s s'"
      "\<And>r. dom_get r s' = dom_get r s" by (auto simp: gives_def option.map_ident)
    moreover have "cleared n {} ch = ch" using kids Nil by (auto simp: cleared_def fun_eq_iff)
    ultimately show ?thesis using t kids Nil dom_rep_cong [OF rep s'(3)] by (simp add: f kept_but_empty)
  next
    case (Cons tc ts')
    obtain c us where tc: "tc = NodeTree c us" by (cases tc)
    let ?D1 = "set (nts_nodes us)" and ?D2 = "set (nts_nodes ts')"
    let ?ch1 = "ch(n := removeAll c (ch n))"
    let ?ch2 = "cleared c ?D1 ?ch1"
    have d: "c \<noteq> n" "c \<notin> ?D1" "n \<notin> ?D1" "n \<notin> ?D2" "c \<notin> ?D2" "?D1 \<inter> ?D2 = {}" "distinct (c # nts_nodes us)" "distinct (nts_nodes ts')"
      using dist by (auto simp: Cons tc)
    have n1: "removeAll c (ch n) = map nt_root ts'"
      using d(5) by (force simp: kids Cons tc intro!: removeAll_id)
    have c: "c \<in> set (ch n)" "hd_opt (ch n) = Some c" by (simp_all add: kids Cons tc)
    obtain s1 where s1: "Unlink n c s = Some s1" "kept s s1" "dom_rep s1 ?ch1" using Unlink_rep [OF rep c(1)] by blast
    have pok1: "dom_pools s1" using kept_but_pools [of "{}" s s1] s1(2) pok by (simp add: kept_but_empty)
    have shape1: "list_all (nt_shape ?ch1) us"
      by (rule nts_shape_cong [of us _ ch]) (use d shape in \<open>auto simp: Cons tc\<close>)
    have c1: "?ch1 c = map nt_root us" using d shape by (simp add: Cons tc)
    have lc: "dom_get c s1 \<noteq> None" using kept_live [OF s1(2)] live_child [OF rep c(1)] by simp
    have "\<exists>s2. DeleteChildren f c s1 = Some s2 \<and> kept_but ?D1 s1 s2 \<and> dom_rep s2 ?ch2"
      by (rule less.hyps [OF _ s1(3) pok1 lc c1 shape1 d(7)]) (use less.prems(7) in \<open>simp_all add: Cons tc f\<close>)
    then obtain s2 where s2: "DeleteChildren f c s1 = Some s2" "kept_but ?D1 s1 s2" "dom_rep s2 ?ch2" by blast
    have "c \<notin> set (?ch2 p)" for p using one_parent [OF rep c(1), of p] by (auto simp: cleared_def)
    moreover have "dom_get c s2 \<noteq> None" using kept_but_live [OF s2(2), of c] lc d(2) by simp
    moreover have "c \<noteq> DocNode e" for e using dom_repD(2) [OF rep, of e n] c(1) by auto
    ultimately obtain s3 where s3: "destroy c s2 = Some s3" "kept_but {c} s2 s3" "dom_rep s3 ?ch2"
      using destroy_rep [OF s2(3), of c] kept_but_pools [OF s2(2) pok1] by (auto simp: cleared_def)
    have k3: "kept_but (insert c ?D1) s s3"
      using kept_but_trans [OF kept_but_trans [OF s1(2) [folded kept_but_empty] s2(2)] s3(2)] by simp
    have ln: "dom_get n s3 \<noteq> None" using kept_but_live [OF k3, of n] live d by simp
    have n3: "?ch2 n = map nt_root ts'" using d n1 by (simp add: cleared_def)
    have shape3: "list_all (nt_shape ?ch2) ts'"
      by (rule nts_shape_cong [of ts' _ ch]) (use d shape in \<open>auto simp: Cons tc cleared_def\<close>)
    have dist3: "distinct (n # nts_nodes ts')" using d by simp
    have "\<exists>s4. DeleteChildren f n s3 = Some s4 \<and> kept_but ?D2 s3 s4 \<and> dom_rep s4 (cleared n ?D2 ?ch2)"
      by (rule less.hyps [OF _ s3(3) kept_but_pools [OF k3 pok] ln n3 shape3 dist3])
        (use less.prems(7) in \<open>simp_all add: Cons tc f\<close>)
    then obtain s4 where s4: "DeleteChildren f n s3 = Some s4" "kept_but ?D2 s3 s4" "dom_rep s4 (cleared n ?D2 ?ch2)" by blast
    have "cleared n ?D2 ?ch2 = cleared n (set (nts_nodes ts)) ch" by (auto simp: cleared_def fun_eq_iff Cons tc)
    moreover have "kept_but (set (nts_nodes ts)) s s4" using kept_but_trans [OF k3 s4(2)] by (simp add: Cons tc)
    moreover have "DeleteChildren fuel n s = Some s4" by (simp add: f t c(2) s1(1) s2(1) s3(1) s4(1))
    ultimately show ?thesis using s4(3) by simp
  qed
qed

text \<open>The nodes below \<open>n\<close> are a tree; deleting them leaves every pool counting as before.\<close>

lemma cleared_pools:
  assumes ok: "dom_ok s ch" and t: "nt_shape ch t" "nt_root t = n"
    and k: "kept_but (set (nts_nodes (nt_kids t))) s s'" and rep: "dom_rep s' (cleared n (set (nts_nodes (nt_kids t))) ch)"
  shows "dom_ok s' (cleared n (set (nts_nodes (nt_kids t))) ch)"
proof -
  let ?D = "set (nts_nodes (nt_kids t))"
  have rep0: "dom_rep s ch" using ok by (simp add: dom_ok_def)
  have D: "set (nt_nodes t) = insert n ?D" using t(2) by (cases t) simp
  have "(\<exists>p. r \<in> set (cleared n ?D ch p)) \<longleftrightarrow> (\<exists>p. r \<in> set (ch p))" if "r \<notin> ?D" for r
    using nt_children [OF t(1), of _ r] D that by (auto simp: cleared_def)
  moreover have "\<exists>p. r \<in> set (ch p)" if "r \<in> ?D" for r using nt_parents [OF t(1) that] by blast
  ultimately have "untracked_nodes s' d k = untracked_nodes s d k" for d k
    unfolding untracked_rep [OF rep] untracked_rep [OF rep0] kept_but_live [OF k] by blast
  with ok k rep show ?thesis by (simp add: dom_ok_def pools_ok_def kept_but_def)
qed

text \<open>A child that is deleted is taken out first.\<close>

lemma kept_tracked_pools: "kept s s' \<Longrightarrow> dom_pools s \<Longrightarrow> dom_pools s'"
  by (simp add: kept_def dom_pools_def)

lemma destroy_child_rep:
  assumes rep: "dom_rep s ch" and c: "c \<in> set (ch p)" "ch c = []" and pok: "dom_pools s"
  shows "\<exists>s'. destroy c s = Some s' \<and> kept_but {c} s s' \<and> dom_rep s' (ch(p := removeAll c (ch p)))"
proof -
  obtain n where n: "dom_get c s = Some n" "nd_parent n = Some p" by (rule dom_rep_child [OF rep c(1)]) blast
  obtain s1 where s1: "Unlink p c s = Some s1" "kept s s1" "dom_rep s1 (ch(p := removeAll c (ch p)))"
    using Unlink_rep [OF rep c(1)] by blast
  obtain n1 where n1: "dom_get c s1 = Some n1" using kept_live [OF s1(2), of c] n(1) by auto
  have out: "c \<notin> set ((ch(p := removeAll c (ch p))) q)" for q using one_parent [OF rep c(1), of q] by auto
  have e: "(ch(p := removeAll c (ch p))) c = []" using c by auto
  have cc: "c \<noteq> DocNode d" for d using dom_repD(2) [OF rep, of d p] c(1) by auto
  obtain s2 where s2: "destroy c s1 = Some s2" "kept_but {c} s1 s2" "dom_rep s2 (ch(p := removeAll c (ch p)))"
    using destroy_rep [OF s1(3) _ cc e out kept_tracked_pools [OF s1(2) pok]] n1 by blast
  have "nd_parent n1 = None" using dom_repD(8) [OF s1(3) n1] out by (metis not_None_eq)
  then have "dom_Free c s1 = Some s2" using s2(1) n1 by (simp add: destroy_def)
  then have "destroy c s = Some s2" using n s1(1) by (simp add: destroy_def)
  moreover have "kept_but {c} s s2" using kept_but_trans [OF s1(2) [folded kept_but_empty] s2(2)] by simp
  ultimately show ?thesis using s2(3) by blast
qed

lemma DeleteNode_refines:
  assumes ok: "dom_ok s ch" and t: "nt_shape ch t" "nt_root t = n" "distinct (nt_nodes t)" and p: "n \<in> set (ch p)" "p \<notin> set (nt_nodes t)"
    and fuel: "length (nt_nodes t) \<le> fuel"
  shows "\<exists>s'. DeleteNode fuel n s = Some s' \<and> kept_but (set (nt_nodes t)) s s'
    \<and> dom_ok s' (\<lambda>r. if r \<in> set (nt_nodes t) then [] else removeAll n (ch r))"
proof -
  obtain ts where ts: "t = NodeTree n ts" using t(2) by (cases t) simp
  have rep: "dom_rep s ch" and pok: "dom_pools s" using ok by (simp_all add: dom_ok_def pools_ok_def dom_pools_def)
  have live: "dom_get n s \<noteq> None" by (rule live_child [OF rep p(1)])
  let ?D = "set (nts_nodes ts)"
  obtain s1 where s1: "DeleteChildren fuel n s = Some s1" "kept_but ?D s s1" "dom_rep s1 (cleared n ?D ch)"
    using DeleteChildren_rep [OF rep pok live, of ts fuel] t fuel by (auto simp: ts)
  have e: "cleared n ?D ch n = []" by (simp add: cleared_def)
  have n1: "n \<in> set (cleared n ?D ch p)" using p by (auto simp: cleared_def ts)
  obtain s2 where s2: "destroy n s1 = Some s2" "kept_but {n} s1 s2"
      "dom_rep s2 ((cleared n ?D ch)(p := removeAll n (cleared n ?D ch p)))"
    using destroy_child_rep [OF s1(3) n1 e kept_but_pools [OF s1(2) pok]] by blast
  let ?ch = "\<lambda>r. if r \<in> set (nt_nodes t) then [] else removeAll n (ch r)"
  have "removeAll n (ch r) = ch r" if "r \<noteq> p" for r using one_parent [OF rep p(1), of r] that by (auto intro: removeAll_id)
  then have ch: "(cleared n ?D ch)(p := removeAll n (cleared n ?D ch p)) = ?ch"
    using p(2) by (auto simp: cleared_def fun_eq_iff ts)
  have rep': "dom_rep s2 ?ch" using s2(3) unfolding ch .
  have k: "kept_but (set (nt_nodes t)) s s2" using kept_but_trans [OF s1(2) s2(2)] by (simp add: ts)
  obtain m where m: "dom_get n s = Some m" "nd_parent m = Some p" by (rule dom_rep_child [OF rep p(1)]) blast
  have d: "DeleteNode fuel n s = Some s2" by (simp add: DeleteNode_def DeleteChild_def DELETE_NODE_def m s1(1) s2(1))
  have "(\<exists>q. r \<in> set (?ch q)) \<longleftrightarrow> (\<exists>q. r \<in> set (ch q))" if "r \<notin> set (nt_nodes t)" for r
    using nt_children [OF t(1), of _ r] that by (auto simp: ts)
  moreover have "\<exists>q. r \<in> set (ch q)" if "r \<in> set (nt_nodes t)" for r
    using nt_parents [OF t(1), of r] p(1) that by (auto simp: ts)
  ultimately have "untracked_nodes s2 d k = untracked_nodes s d k" for d k
    unfolding untracked_rep [OF rep'] untracked_rep [OF rep] kept_but_live [OF k] by blast
  with ok k rep' have "dom_ok s2 ?ch" by (simp add: dom_ok_def pools_ok_def kept_but_def)
  with d k show ?thesis by blast
qed

section \<open>Where the links break\<close>

text \<open>
  \<open>InsertAfterChild\<close> looks for a node behind \<open>afterThis\<close> before it takes the new node out of its old place.
  When the new node is that last node behind \<open>afterThis\<close>, it then follows NULL.
\<close>

lemma insert_behind_previous:
  assumes rep: "dom_rep s ch" and ch: "ch p = us @ [a, x]" and doc: "ref_doc x = ref_doc p"
  shows "InsertAfterChild p a x s = None"
proof -
  have a: "a \<in> set (ch p)" and x: "x \<in> set (ch p)" by (simp_all add: ch)
  have d: "distinct (us @ [a, x])" using dom_repD(1) [OF rep, of p] by (simp add: ch)
  have next_a: "next_in (ch p) a = Some x" using d unfolding ch by (induction us) (auto simp: next_in_Cons)
  obtain t n where tn: "dom_get p s = Some t" "dom_get x s = Some n" "nd_parent n = Some p" by (rule dom_rep_child [OF rep x]) blast
  obtain m where m: "dom_get a s = Some m" "nd_parent m = Some p" "nd_next m = Some x"
    using dom_rep_child [OF rep a] next_a by metis
  have dd: "nd_document n = nd_document t" using dom_repD(5) [OF rep] tn doc by metis
  obtain s1 where s1: "Unlink p x s = Some s1" "kept s s1" "dom_rep s1 (ch(p := removeAll x (ch p)))"
    using Unlink_rep [OF rep x] by blast
  have r: "removeAll x (ch p) = us @ [a]" using d by (auto simp: ch removeAll_id)
  have a1: "a \<in> set ((ch(p := removeAll x (ch p))) p)" by (simp add: r)
  obtain m1 where m1: "dom_get a s1 = Some m1" "nd_next m1 = next_in ((ch(p := removeAll x (ch p))) p) a"
    by (rule dom_rep_child [OF s1(3) a1]) blast
  have "nd_next m1 = None" using m1(2) next_in_snoc [of us a a] d by (simp add: r)
  have "a \<noteq> x" using d by simp
  then have "link_after p a x s1 = None"
    using m1(1) \<open>nd_next m1 = None\<close> kept_live [OF s1(2), of x] tn(2) by (auto simp: link_after_def dom_upd_set bind_eq_None_conv)
  then show ?thesis by (simp add: InsertAfterChild_def tn m dd take_out_def s1(1))
qed

text \<open>A node inserted behind itself becomes its own neighbour, and the links are no tree any more.\<close>

lemma insert_behind_itself:
  assumes rep: "dom_rep s ch" and ch: "ch p = us @ a # b # vs" and doc: "ref_doc a = ref_doc p"
  shows "\<exists>s'. InsertAfterChild p a a s = Some (Some a, s') \<and> (\<forall>ch'. \<not> dom_rep s' ch')"
proof -
  have a: "a \<in> set (ch p)" and b: "b \<in> set (ch p)" by (simp_all add: ch)
  have d: "distinct (us @ a # b # vs)" using dom_repD(1) [OF rep, of p] by (simp add: ch)
  have next_a: "next_in (ch p) a = Some b" using d unfolding ch by (induction us) (auto simp: next_in_Cons)
  have prev_a: "prev_in (ch p) a \<noteq> Some a" using prev_in_not_self [OF dom_repD(1) [OF rep]] .
  obtain t n where tn: "dom_get p s = Some t" "dom_get a s = Some n" "nd_parent n = Some p" "nd_next n = Some b"
    using dom_rep_child [OF rep a] next_a by metis
  have dd: "nd_document n = nd_document t" using dom_repD(5) [OF rep] tn doc by metis
  obtain s1 where s1: "Unlink p a s = Some s1"
    "\<And>r. dom_get r s1 = map_option (unlinked p a (prev_in (ch p) a) (next_in (ch p) a) r) (dom_get r s)"
    using Unlink_gives [OF rep a] by (auto simp: gives_def)
  obtain n1 where n1: "dom_get a s1 = Some n1" "nd_next n1 = Some b" using tn prev_a by (simp add: s1(2) unlinked_def)
  have b1: "dom_get b s1 \<noteq> None" "a \<noteq> b" using live_child [OF rep b] d by (auto simp: s1(2))
  obtain s' m where s': "link_after p a a s1 = Some s'" "dom_get a s' = Some m" "nd_next m = Some a" "nd_parent m = Some p"
    using n1 b1 by (auto simp: link_after_def dom_upd_set)
  have "\<not> dom_rep s' ch'" for ch'
  proof
    assume r: "dom_rep s' ch'"
    then have "a \<in> set (ch' p)" using dom_repD(8) [OF r s'(2), of p] s'(4) by simp
    then show False using dom_repD(10) [OF r s'(2)] next_in_not_self [OF dom_repD(1) [OF r], of p a] s'(3) by metis
  qed
  moreover have "InsertAfterChild p a a s = Some (Some a, s')" by (simp add: InsertAfterChild_def tn dd take_out_def s1(1) s'(1))
  ultimately show ?thesis by blast
qed

end
