(* ===== verification/XmlDocuments.thy ===== *)
theory XmlDocuments
  imports XmlDomDelete
begin

text \<open>
  What editing an XML document promises: the properties of the pointers, with a document that is made by
  the operations themselves, and what the debug assertion of the destructor of a document claims.
\<close>

section \<open>A document made by its operations\<close>

abbreviation no_documents :: dom where
  "no_documents \<equiv> (\<lambda>d. XMLDocument_new d (\<lambda>k. 100))"

abbreviation e_root :: node_ref where "e_root \<equiv> ChunkNode 0 ElementPool 0"
abbreviation e_one :: node_ref where "e_one \<equiv> ChunkNode 0 ElementPool (Suc 0)"
abbreviation e_two :: node_ref where "e_two \<equiv> ChunkNode 0 ElementPool 2"

definition add_element :: "node_ref \<Rightarrow> string \<Rightarrow> dom option \<Rightarrow> dom option" where
  "add_element p name doc = do {
     s \<leftarrow> doc;
     (x, s1) \<leftarrow> NewElement 0 name s;
     (_, s2) \<leftarrow> InsertEndChild p x s1;
     Some s2
   }"

definition example_dom :: "dom option" where
  \<comment> \<open>\<open><root><one/><two/></root>\<close>\<close>
  "example_dom = add_element e_root ''two'' (add_element e_root ''one'' (add_element (DocNode 0) ''root'' (Some no_documents)))"

definition example_children :: "node_ref \<Rightarrow> node_ref list" where
  "example_children = (\<lambda>r. [])(DocNode 0 := [e_root], e_root := [e_one, e_two])"

lemma add_element_ok:
  assumes doc: "doc = Some s" and ok: "dom_ok s ch" and p: "dom_get p s \<noteq> None" "ref_doc p = 0"
    and x: "map_option fst (Option.bind doc (NewElement 0 name)) = Some x"
  shows "\<exists>s2. add_element p name doc = Some s2 \<and> dom_ok s2 (ch(p := ch p @ [x])) \<and> dom_get x s2 \<noteq> None
    \<and> (\<forall>r. dom_get r s \<noteq> None \<longrightarrow> dom_get r s2 \<noteq> None) \<and> ref_doc x = 0"
proof -
  obtain s1 where new: "NewElement 0 name s = Some (x, s1)" using x doc by auto
  note n = dom_new_result [OF ok new [unfolded NewElement_def]]
  have c: "\<And>d. x \<noteq> DocNode d" "ref_doc x = ref_doc p" "p \<noteq> x" using n p by auto
  have "\<exists>s2. InsertEndChild p x s1 = Some (Some x, s2) \<and> dom_ok s2 (move_last p x ch) \<and> same_data s1 s2"
    by (rule InsertEndChild_refines) (use n p c in auto)
  then obtain s2 where s2: "InsertEndChild p x s1 = Some (Some x, s2)" "dom_ok s2 (move_last p x ch)" "same_data s1 s2" by blast
  have live: "dom_get r s2 = None \<longleftrightarrow> dom_get r s1 = None" for r
    using s2(3) unfolding same_data_def by (metis map_option_is_None)
  have "x \<notin> set (ch q)" for q using n dom_repD(4) ok unfolding dom_ok_def by blast
  then have "move_last p x ch = ch(p := ch p @ [x])" by (simp add: move_last_def removeAll_id fun_eq_iff)
  moreover have "dom_get x s2 \<noteq> None" "\<And>r. dom_get r s \<noteq> None \<Longrightarrow> dom_get r s2 \<noteq> None" using live n by (metis option.distinct(1))+
  ultimately show ?thesis using s2(1,2) c(2) p(2) by (simp add: add_element_def doc new)
qed

lemma example_dom_ok:
  "\<exists>s. example_dom = Some s \<and> dom_ok s example_children \<and> dom_get (DocNode 0) s \<noteq> None \<and> dom_get e_root s \<noteq> None
    \<and> dom_get e_one s \<noteq> None \<and> dom_get e_two s \<noteq> None"
proof -
  have 0: "dom_ok no_documents (\<lambda>r. [])" "dom_get (DocNode d) s \<noteq> None" for d s
    using empty_documents_ok [of "\<lambda>k. 100"] by (simp_all add: dom_get.simps)
  have "map_option fst (Option.bind (Some no_documents) (NewElement 0 ''root'')) = Some e_root" by code_simp
  from add_element_ok [OF refl 0 _ this] obtain s1 where s1: "add_element (DocNode 0) ''root'' (Some no_documents) = Some s1"
    "dom_ok s1 ((\<lambda>r. [])(DocNode 0 := [e_root]))" "dom_get e_root s1 \<noteq> None" by auto
  have "map_option fst (Option.bind (add_element (DocNode 0) ''root'' (Some no_documents)) (NewElement 0 ''one'')) = Some e_one"
    by code_simp
  from add_element_ok [OF s1 _ this] obtain s2 where
    s2: "add_element e_root ''one'' (add_element (DocNode 0) ''root'' (Some no_documents)) = Some s2"
      "dom_ok s2 ((\<lambda>r. [])(DocNode 0 := [e_root], e_root := [e_one]))" "dom_get e_root s2 \<noteq> None" "dom_get e_one s2 \<noteq> None"
    using s1(3) by auto
  have "map_option fst (Option.bind (add_element e_root ''one'' (add_element (DocNode 0) ''root'' (Some no_documents)))
      (NewElement 0 ''two'')) = Some e_two" by code_simp
  from add_element_ok [OF s2(1-3) _ this] obtain s3 where
    s3: "example_dom = Some s3" "dom_ok s3 (((\<lambda>r. [])(DocNode 0 := [e_root], e_root := [e_one]))(e_root := [e_one, e_two]))"
      "dom_get e_two s3 \<noteq> None" "dom_get e_root s3 \<noteq> None" "dom_get e_one s3 \<noteq> None"
    using s2(3,4) by (auto simp: example_dom_def)
  have "((\<lambda>r. [])(DocNode 0 := [e_root], e_root := [e_one]))(e_root := [e_one, e_two]) = example_children"
    by (simp add: example_children_def)
  then show ?thesis using s3 0(2) by metis
qed

section \<open>Properties\<close>

text \<open>
  C33. Inserting a node last, first or behind a child moves it there and changes nothing else: the pointers
  of the new state are again a tree, with the children lists that the operation promises, every node has
  its data, and the pools count the nodes in no tree. \<open>InsertAfterChild\<close> does so unless the node is
  inserted behind itself or is the last child and already stands there.
\<close>

theorem insertions_refine_lists:
  assumes "dom_ok s ch" "dom_get p s \<noteq> None" "dom_get x s \<noteq> None" "\<And>d. x \<noteq> DocNode d" "ref_doc x = ref_doc p"
  shows "(\<exists>s'. InsertEndChild p x s = Some (Some x, s') \<and> dom_ok s' (move_last p x ch) \<and> same_data s s')
    \<and> (\<exists>s'. InsertFirstChild p x s = Some (Some x, s') \<and> dom_ok s' (move_first p x ch) \<and> same_data s s')
    \<and> (\<forall>a\<in>set (ch p). a \<noteq> x \<longrightarrow> (next_in (ch p) a = Some x \<longrightarrow> next_in (ch p) x \<noteq> None) \<longrightarrow>
         (\<exists>s'. InsertAfterChild p a x s = Some (Some x, s') \<and> dom_ok s' (move_behind p a x ch) \<and> same_data s s'))"
  using InsertEndChild_refines [OF assms] InsertFirstChild_refines [OF assms] InsertAfterChild_refines [OF assms] by blast

theorem insertions_refine_lists_witness:
  "\<exists>s s1 s2. example_dom = Some s \<and> InsertFirstChild e_root e_two s = Some (Some e_two, s1)
    \<and> dom_ok s1 ((\<lambda>r. [])(DocNode 0 := [e_root], e_root := [e_two, e_one]))
    \<and> InsertAfterChild e_root e_two e_one s = Some (Some e_one, s2)
    \<and> dom_ok s2 ((\<lambda>r. [])(DocNode 0 := [e_root], e_root := [e_two, e_one]))"
proof -
  obtain s where s: "example_dom = Some s" "dom_ok s example_children" "dom_get e_root s \<noteq> None" "dom_get e_one s \<noteq> None"
    "dom_get e_two s \<noteq> None" using example_dom_ok by blast
  have "move_first e_root e_two example_children = (\<lambda>r. [])(DocNode 0 := [e_root], e_root := [e_two, e_one])"
    "move_behind e_root e_two e_one example_children = (\<lambda>r. [])(DocNode 0 := [e_root], e_root := [e_two, e_one])"
    by (auto simp: move_first_def move_behind_def example_children_def fun_eq_iff)
  moreover have "e_two \<in> set (example_children e_root)" "next_in (example_children e_root) e_two = None"
    by (simp_all add: example_children_def)
  moreover obtain s1 where "InsertFirstChild e_root e_two s = Some (Some e_two, s1)"
      "dom_ok s1 (move_first e_root e_two example_children)"
    using insertions_refine_lists [OF s(2,3,5)] by auto
  moreover have "\<exists>s'. InsertAfterChild e_root e_two e_one s = Some (Some e_one, s')
      \<and> dom_ok s' (move_behind e_root e_two e_one example_children) \<and> same_data s s'"
    using insertions_refine_lists [OF s(2,3,4), THEN conjunct2, THEN conjunct2] calculation(3,4) by simp
  ultimately show ?thesis using s(1) by metis
qed

text \<open>
  A node that is inserted behind its previous sibling, and is the last child, makes \<open>InsertAfterChild\<close>
  follow NULL: the test whether there is a node behind \<open>afterThis\<close> comes before the node is taken out.
\<close>

theorem insert_behind_previous_sibling_undefined:
  assumes "dom_ok s ch" "ch p = us @ [a, x]" "ref_doc x = ref_doc p"
  shows "InsertAfterChild p a x s = None"
  by (rule insert_behind_previous [of s ch p us a x]) (use assms in \<open>simp_all add: dom_ok_def\<close>)

theorem insert_behind_previous_sibling_undefined_witness:
  "\<exists>s. example_dom = Some s \<and> InsertAfterChild e_root e_one e_two s = None"
proof -
  obtain s where s: "example_dom = Some s" "dom_ok s example_children" using example_dom_ok by blast
  have "example_children e_root = [] @ [e_one, e_two]" by (simp add: example_children_def)
  from insert_behind_previous_sibling_undefined [OF s(2) this] s(1) show ?thesis by (intro exI [of _ s]) simp
qed

text \<open>
  C34. Deleting the children of a node, as the destructors and \<open>Clear\<close> do, or a node itself ends for every
  tree below it, frees exactly the nodes below it (and itself), and leaves every other node with its data,
  the pointers a tree and the counts of the pools right.
\<close>

theorem deleting_frees_the_nodes_below:
  assumes "dom_ok s ch" "nt_shape ch t" "nt_root t = n" "distinct (nt_nodes t)" "dom_get n s \<noteq> None"
    "length (nt_nodes t) \<le> fuel"
  shows "(\<exists>s'. DeleteChildren fuel n s = Some s' \<and> kept_but (set (nts_nodes (nt_kids t))) s s'
      \<and> dom_ok s' (cleared n (set (nts_nodes (nt_kids t))) ch))
    \<and> (\<forall>p. n \<in> set (ch p) \<and> p \<notin> set (nt_nodes t) \<longrightarrow> (\<exists>s'. DeleteNode fuel n s = Some s' \<and> kept_but (set (nt_nodes t)) s s'
         \<and> dom_ok s' (\<lambda>r. if r \<in> set (nt_nodes t) then [] else removeAll n (ch r))))"
proof -
  obtain ts where ts: "t = NodeTree n ts" using assms(3) by (cases t) simp
  have "\<exists>s'. DeleteChildren fuel n s = Some s' \<and> kept_but (set (nts_nodes ts)) s s'
      \<and> dom_rep s' (cleared n (set (nts_nodes ts)) ch)"
    by (rule DeleteChildren_rep) (use assms in \<open>simp_all add: ts dom_ok_def pools_ok_def dom_pools_def\<close>)
  with cleared_pools [OF assms(1-3)] have "\<exists>s'. DeleteChildren fuel n s = Some s' \<and> kept_but (set (nts_nodes (nt_kids t))) s s'
      \<and> dom_ok s' (cleared n (set (nts_nodes (nt_kids t))) ch)" by (auto simp: ts)
  with DeleteNode_refines [OF assms(1-4) _ _ assms(6)] show ?thesis by blast
qed

theorem deleting_frees_the_nodes_below_witness:
  "\<exists>s s1 s2. example_dom = Some s \<and> DeleteChildren 3 e_root s = Some s1 \<and> dom_get e_root s1 \<noteq> None \<and> dom_get e_two s1 = None
    \<and> DeleteNode 3 e_root s = Some s2 \<and> dom_get e_root s2 = None \<and> dom_ok s2 (\<lambda>r. [])"
proof -
  obtain s where s: "example_dom = Some s" "dom_ok s example_children" "dom_get e_root s \<noteq> None" using example_dom_ok by blast
  let ?t = "NodeTree e_root [NodeTree e_one [], NodeTree e_two []]"
  have t: "nt_shape example_children ?t" "nt_root ?t = e_root" "distinct (nt_nodes ?t)" "length (nt_nodes ?t) \<le> 3"
    by (simp_all add: example_children_def)
  note d = deleting_frees_the_nodes_below [OF s(2) t(1-3) s(3) t(4)]
  obtain s1 where s1: "DeleteChildren 3 e_root s = Some s1" "kept_but {e_one, e_two} s s1" using d by auto
  have p: "e_root \<in> set (example_children (DocNode 0)) \<and> DocNode 0 \<notin> set (nt_nodes ?t)" by (simp add: example_children_def)
  obtain s2 where s2: "DeleteNode 3 e_root s = Some s2" "kept_but (set (nt_nodes ?t)) s s2"
      "dom_ok s2 (\<lambda>r. if r \<in> set (nt_nodes ?t) then [] else removeAll e_root (example_children r))"
    using d p by blast
  have "(\<lambda>r. if r \<in> set (nt_nodes ?t) then [] else removeAll e_root (example_children r)) = (\<lambda>r. [])"
    by (auto simp: example_children_def fun_eq_iff)
  then have "dom_ok s2 (\<lambda>r. [])" using s2(3) by simp
  moreover have "dom_get e_root s1 \<noteq> None" "dom_get e_two s1 = None" "dom_get e_root s2 = None"
    using s(3) kept_but_live [OF s1(2)] kept_but_live [OF s2(2)] by auto
  ultimately show ?thesis using s(1) s1(1) s2(1) by blast
qed

section \<open>The assertion of the destructor\<close>

text \<open>
  With \<open>DEBUG\<close> the destructor of a document asserts that after \<open>DeleteChildren\<close> every pool has as many
  nodes in use as untracked ones. That is so when every child of some node is below the document; an
  element that was never inserted but has a child makes the assertion fail.
\<close>

lemma pools_balance_when_all_is_below:
  assumes ok: "dom_ok s ch" and t: "nt_shape ch t" "nt_root t = DocNode d" "distinct (nt_nodes t)" "length (nt_nodes t) \<le> fuel"
    and below: "\<And>r p. r \<in> set (ch p) \<Longrightarrow> ref_doc r = d \<Longrightarrow> r \<in> set (nt_nodes t)"
  shows "\<exists>s'. DeleteChildren fuel (DocNode d) s = Some s'
    \<and> (\<forall>k. mp_currentAllocs (dd_pool (s' d) k) = mp_nUntracked (dd_pool (s' d) k))"
proof -
  let ?D = "set (nts_nodes (nt_kids t))"
  have live: "dom_get (DocNode d) s \<noteq> None" by (simp add: dom_get.simps)
  obtain ts where ts: "t = NodeTree (DocNode d) ts" using t(2) by (cases t) simp
  have "\<exists>s'. DeleteChildren fuel (DocNode d) s = Some s' \<and> kept_but (set (nts_nodes ts)) s s'
      \<and> dom_rep s' (cleared (DocNode d) (set (nts_nodes ts)) ch)"
    by (rule DeleteChildren_rep) (use ok t live in \<open>simp_all add: ts dom_ok_def pools_ok_def dom_pools_def\<close>)
  then obtain s' where s': "DeleteChildren fuel (DocNode d) s = Some s'" "kept_but ?D s s'" "dom_ok s' (cleared (DocNode d) ?D ch)"
    using cleared_pools [OF ok t(1,2)] by (auto simp: ts)
  have rep: "dom_rep s' (cleared (DocNode d) ?D ch)" using s'(3) by (simp add: dom_ok_def)
  have "used_chunks (dd_pool (s' d) k) = untracked_nodes s' d k" for k
  proof -
    have "ChunkNode d k i \<notin> set (cleared (DocNode d) ?D ch p)" if "dom_get (ChunkNode d k i) s' \<noteq> None" for i p
      using that kept_but_live [OF s'(2)] below [of "ChunkNode d k i" p] by (auto simp: ts cleared_def)
    then show ?thesis unfolding untracked_rep [OF rep] used_chunks_def by (auto simp: dom_get.simps)
  qed
  with s'(1,3) show ?thesis by (simp add: dom_ok_def pools_ok_def pool_ok_def)
qed

definition detached_dom :: "dom option" where
  "detached_dom = do {
     (e, s1) \<leftarrow> NewElement 0 ''e'' no_documents;
     (t, s2) \<leftarrow> NewText 0 ''t'' s1;
     (_, s3) \<leftarrow> InsertEndChild e t s2;
     DeleteChildren 1 (DocNode 0) s3
   }"

lemma assertion_of_the_destructor_fails:
  "map_option (\<lambda>s. (mp_currentAllocs (dd_pool (s 0) TextPool), mp_nUntracked (dd_pool (s 0) TextPool))) detached_dom = Some (1, 0)"
  by code_simp

end
