(* ===== verification/XmlNavigate.thy ===== *)
theory XmlNavigate
  imports XmlDocuments
begin

text \<open>
  Going through a document tree by its pointers: the searches for an element among the children or the
  siblings of a node, and the handles that check for NULL (\<open>XMLNode\<close>, \<open>XMLHandle\<close> and \<open>XMLConstHandle\<close> of
  frame/tinyxml2/tinyxml2.h and .cpp). On a tree they find what a search in the list of the children finds.
\<close>

section \<open>Searches\<close>

text \<open>The loops over the siblings; \<open>step\<close> is the pointer to go along, the fuel bounds the turns.\<close>

fun find_element :: "nat \<Rightarrow> (dom_node \<Rightarrow> node_ref option) \<Rightarrow> string option \<Rightarrow> node_ref option \<Rightarrow> dom \<Rightarrow> node_ref option option" where
  "find_element fuel step name None s = Some None"
| "find_element 0 step name (Some r) s = None"
| "find_element (Suc fuel) step name (Some r) s = do {
     n \<leftarrow> dom_get r s;
     if is_element (nd_data n) \<and> is_named name (nd_data n) then Some (Some r)
     else find_element fuel step name (step n) s
   }"

definition dom_FirstChildElement :: "nat \<Rightarrow> string option \<Rightarrow> node_ref \<Rightarrow> dom \<Rightarrow> node_ref option option" where
  "dom_FirstChildElement fuel name this s = do {
     t \<leftarrow> dom_get this s;
     find_element fuel nd_next name (nd_firstChild t) s
   }"

definition dom_LastChildElement :: "nat \<Rightarrow> string option \<Rightarrow> node_ref \<Rightarrow> dom \<Rightarrow> node_ref option option" where
  "dom_LastChildElement fuel name this s = do {
     t \<leftarrow> dom_get this s;
     find_element fuel nd_prev name (nd_lastChild t) s
   }"

definition dom_NextSiblingElement :: "nat \<Rightarrow> string option \<Rightarrow> node_ref \<Rightarrow> dom \<Rightarrow> node_ref option option" where
  "dom_NextSiblingElement fuel name this s = do {
     t \<leftarrow> dom_get this s;
     find_element fuel nd_next name (nd_next t) s
   }"

definition dom_PreviousSiblingElement :: "nat \<Rightarrow> string option \<Rightarrow> node_ref \<Rightarrow> dom \<Rightarrow> node_ref option option" where
  "dom_PreviousSiblingElement fuel name this s = do {
     t \<leftarrow> dom_get this s;
     find_element fuel nd_prev name (nd_prev t) s
   }"

section \<open>Handles\<close>

type_synonym xml_handle = "node_ref option"

definition handle_get :: "(dom_node \<Rightarrow> node_ref option) \<Rightarrow> xml_handle \<Rightarrow> dom \<Rightarrow> xml_handle option" where
  \<comment> \<open>\<open>XMLHandle( _node ? _node->Get() : 0 )\<close>\<close>
  "handle_get f h s = (case h of None \<Rightarrow> Some None | Some r \<Rightarrow> map_option f (dom_get r s))"

definition handle_find :: "(node_ref \<Rightarrow> dom \<Rightarrow> node_ref option option) \<Rightarrow> xml_handle \<Rightarrow> dom \<Rightarrow> xml_handle option" where
  "handle_find f h s = (case h of None \<Rightarrow> Some None | Some r \<Rightarrow> f r s)"

definition handle_FirstChild :: "xml_handle \<Rightarrow> dom \<Rightarrow> xml_handle option" where
  "handle_FirstChild = handle_get nd_firstChild"

definition handle_FirstChildElement :: "nat \<Rightarrow> string option \<Rightarrow> xml_handle \<Rightarrow> dom \<Rightarrow> xml_handle option" where
  "handle_FirstChildElement fuel name = handle_find (dom_FirstChildElement fuel name)"

definition handle_LastChild :: "xml_handle \<Rightarrow> dom \<Rightarrow> xml_handle option" where
  "handle_LastChild = handle_get nd_lastChild"

definition handle_LastChildElement :: "nat \<Rightarrow> string option \<Rightarrow> xml_handle \<Rightarrow> dom \<Rightarrow> xml_handle option" where
  "handle_LastChildElement fuel name = handle_find (dom_LastChildElement fuel name)"

definition handle_PreviousSibling :: "xml_handle \<Rightarrow> dom \<Rightarrow> xml_handle option" where
  "handle_PreviousSibling = handle_get nd_prev"

definition handle_PreviousSiblingElement :: "nat \<Rightarrow> string option \<Rightarrow> xml_handle \<Rightarrow> dom \<Rightarrow> xml_handle option" where
  "handle_PreviousSiblingElement fuel name = handle_find (dom_PreviousSiblingElement fuel name)"

definition handle_NextSibling :: "xml_handle \<Rightarrow> dom \<Rightarrow> xml_handle option" where
  "handle_NextSibling = handle_get nd_next"

definition handle_NextSiblingElement :: "nat \<Rightarrow> string option \<Rightarrow> xml_handle \<Rightarrow> dom \<Rightarrow> xml_handle option" where
  "handle_NextSiblingElement fuel name = handle_find (dom_NextSiblingElement fuel name)"

definition handle_cast :: "(xml_node \<Rightarrow> bool) \<Rightarrow> xml_handle \<Rightarrow> dom \<Rightarrow> xml_handle option" where
  \<comment> \<open>\<open>( _node && _node->ToX() ) ? _node->ToX() : 0\<close>\<close>
  "handle_cast kind h s =
     (case h of None \<Rightarrow> Some None | Some r \<Rightarrow> map_option (\<lambda>n. if kind (nd_data n) then Some r else None) (dom_get r s))"

definition handle_ToElement :: "xml_handle \<Rightarrow> dom \<Rightarrow> xml_handle option" where
  "handle_ToElement = handle_cast is_element"

section \<open>Searches find what the lists hold\<close>

definition names_element :: "string option \<Rightarrow> dom \<Rightarrow> node_ref \<Rightarrow> bool" where
  "names_element name s r =
     (case dom_get r s of Some n \<Rightarrow> is_element (nd_data n) \<and> is_named name (nd_data n) | None \<Rightarrow> False)"

lemma next_in_split: "distinct (xs @ r # ys) \<Longrightarrow> next_in (xs @ r # ys) r = hd_opt ys"
  by (induction xs) (auto simp: next_in_Cons)

lemma prev_in_split: "distinct (xs @ r # ys) \<Longrightarrow> prev_in (xs @ r # ys) r = hd_opt (rev xs)"
  using next_in_split [of "rev ys" r "rev xs"] by (auto simp: prev_in_def)

lemma find_element_list:
  assumes "\<And>us r vs. xs = us @ r # vs \<Longrightarrow> \<exists>n. dom_get r s = Some n \<and> step n = hd_opt vs" "length xs \<le> fuel"
  shows "find_element fuel step name (hd_opt xs) s = Some (find (names_element name s) xs)"
  using assms
proof (induction xs arbitrary: fuel)
  case (Cons r xs)
  obtain n where n: "dom_get r s = Some n" "step n = hd_opt xs" using Cons.prems(1) [of "[]" r xs] by auto
  obtain f where f: "fuel = Suc f" using Cons.prems(2) by (cases fuel) auto
  have "find_element f step name (hd_opt xs) s = Some (find (names_element name s) xs)"
  proof (rule Cons.IH)
    show "\<exists>n. dom_get q s = Some n \<and> step n = hd_opt vs" if "xs = us @ q # vs" for us q vs
      using Cons.prems(1) [of "r # us" q vs] that by simp
  qed (use Cons.prems(2) f in simp)
  moreover have "names_element name s r \<longleftrightarrow> is_element (nd_data n) \<and> is_named name (nd_data n)"
    by (simp add: names_element_def n)
  ultimately show ?case by (simp add: f n)
qed simp

lemma sibling_steps:
  assumes rep: "dom_rep s ch" and ch: "ch p = us @ r # vs"
  shows "\<exists>n. dom_get r s = Some n \<and> nd_next n = hd_opt vs \<and> nd_prev n = hd_opt (rev us)"
proof -
  have r: "r \<in> set (ch p)" by (simp add: ch)
  obtain n where n: "dom_get r s = Some n" "nd_prev n = prev_in (ch p) r" "nd_next n = next_in (ch p) r"
    by (rule dom_rep_child [OF rep r]) blast
  have d: "distinct (us @ r # vs)" using dom_repD(1) [OF rep, of p] by (simp add: ch)
  show ?thesis using n next_in_split [OF d] prev_in_split [OF d] by (simp add: ch)
qed

lemma find_forward:
  assumes rep: "dom_rep s ch" and ch: "ch p = us @ xs" and fuel: "length xs \<le> fuel"
  shows "find_element fuel nd_next name (hd_opt xs) s = Some (find (names_element name s) xs)"
proof (rule find_element_list [OF _ fuel])
  fix ys r vs assume "xs = ys @ r # vs"
  with ch have "ch p = (us @ ys) @ r # vs" by simp
  from sibling_steps [OF rep this] show "\<exists>n. dom_get r s = Some n \<and> nd_next n = hd_opt vs" by blast
qed

lemma find_backward:
  assumes rep: "dom_rep s ch" and ch: "ch p = rev xs @ us" and fuel: "length xs \<le> fuel"
  shows "find_element fuel nd_prev name (hd_opt xs) s = Some (find (names_element name s) xs)"
proof (rule find_element_list [OF _ fuel])
  fix ys r vs assume "xs = ys @ r # vs"
  with ch have "ch p = rev vs @ r # (rev ys @ us)" by simp
  from sibling_steps [OF rep this] show "\<exists>n. dom_get r s = Some n \<and> nd_prev n = hd_opt vs" by auto
qed

text \<open>
  The first and the last child element and the next and the previous sibling element of a name are those
  that the list of the children has, and a NULL handle stays NULL.
\<close>

lemma navigation_finds_in_lists:
  assumes ok: "dom_ok s ch" and p: "dom_get p s \<noteq> None" and fuel: "length (ch p) \<le> fuel"
  shows "dom_FirstChildElement fuel name p s = Some (find (names_element name s) (ch p))"
    and "dom_LastChildElement fuel name p s = Some (find (names_element name s) (rev (ch p)))"
    and "ch p = us @ r # vs \<Longrightarrow> dom_NextSiblingElement fuel name r s = Some (find (names_element name s) vs)"
    and "ch p = us @ r # vs \<Longrightarrow> dom_PreviousSiblingElement fuel name r s = Some (find (names_element name s) (rev us))"
proof -
  have rep: "dom_rep s ch" using ok by (simp add: dom_ok_def)
  obtain t where t: "dom_get p s = Some t" "nd_firstChild t = hd_opt (ch p)" "nd_lastChild t = hd_opt (rev (ch p))"
    using p dom_repD(6,7) [OF rep] by blast
  show "dom_FirstChildElement fuel name p s = Some (find (names_element name s) (ch p))"
    using find_forward [OF rep, of p "[]" "ch p" fuel name] fuel by (simp add: dom_FirstChildElement_def t)
  show "dom_LastChildElement fuel name p s = Some (find (names_element name s) (rev (ch p)))"
    using find_backward [OF rep, of p "rev (ch p)" "[]" fuel name] fuel by (simp add: dom_LastChildElement_def t)
next
  assume ch: "ch p = us @ r # vs"
  have rep: "dom_rep s ch" using ok by (simp add: dom_ok_def)
  obtain n where n: "dom_get r s = Some n" "nd_next n = hd_opt vs" "nd_prev n = hd_opt (rev us)"
    using sibling_steps [OF rep ch] by blast
  show "dom_NextSiblingElement fuel name r s = Some (find (names_element name s) vs)"
    using find_forward [OF rep, of p "us @ [r]" vs fuel name] fuel ch by (simp add: dom_NextSiblingElement_def n)
  show "dom_PreviousSiblingElement fuel name r s = Some (find (names_element name s) (rev us))"
    using find_backward [OF rep, of p "rev us" "r # vs" fuel name] fuel ch by (simp add: dom_PreviousSiblingElement_def n)
qed

lemma null_handles_stay_null:
  "handle_FirstChild None s = Some None" "handle_NextSibling None s = Some None" "handle_ToElement None s = Some None"
  "handle_FirstChildElement fuel name None s = Some None" "handle_NextSiblingElement fuel name None s = Some None"
  by (simp_all add: handle_FirstChild_def handle_NextSibling_def handle_ToElement_def handle_get_def handle_cast_def
      handle_FirstChildElement_def handle_NextSiblingElement_def handle_find_def)

end
