(* ===== verification/XmlQuery.thy ===== *)
theory XmlQuery
  imports XmlTreeProps XmlConfigProps
begin

text \<open>
  Reading and writing the attributes and the text of an element as numbers, copying and comparing nodes
  without their children (\<open>XMLAttribute\<close>, \<open>XMLElement\<close> and the \<open>ShallowClone\<close> and \<open>ShallowEqual\<close> of
  frame/tinyxml2/tinyxml2.h and .cpp). Attributes and children are the lists of XmlParse; a value that a
  query leaves alone is an argument. The conversions of \<open>float\<close> and \<open>double\<close> are not modelled. \<open>None\<close> is the
  undefined behaviour of reading a malformed character reference.
\<close>

section \<open>Attributes\<close>

definition BUF_SIZE :: nat where "BUF_SIZE = 200"

definition attr_Name :: "xml_attribute \<Rightarrow> string option" where
  "attr_Name a = GetStr (at_name a)"

definition attr_Value :: "xml_attribute \<Rightarrow> string option" where
  "attr_Value a = GetStr (at_value a)"

definition converted :: "(string \<Rightarrow> 'a option) \<Rightarrow> XMLError \<Rightarrow> string \<Rightarrow> 'a \<Rightarrow> XMLError \<times> 'a" where
  \<comment> \<open>\<open>if ( XMLUtil::ToX( str, value ) ) return XML_NO_ERROR; return err;\<close>\<close>
  "converted conv err str old = (case conv str of Some v \<Rightarrow> (XML_NO_ERROR, v) | None \<Rightarrow> (err, old))"

definition QueryIntValue :: "xml_attribute \<Rightarrow> int \<Rightarrow> (XMLError \<times> int) option" where
  "QueryIntValue a old = map_option (\<lambda>s. converted ToInt XML_WRONG_ATTRIBUTE_TYPE s old) (attr_Value a)"

definition QueryUnsignedValue :: "xml_attribute \<Rightarrow> u32 \<Rightarrow> (XMLError \<times> u32) option" where
  "QueryUnsignedValue a old = map_option (\<lambda>s. converted ToUnsigned XML_WRONG_ATTRIBUTE_TYPE s old) (attr_Value a)"

definition QueryBoolValue :: "xml_attribute \<Rightarrow> bool \<Rightarrow> (XMLError \<times> bool) option" where
  "QueryBoolValue a old = map_option (\<lambda>s. converted ToBool XML_WRONG_ATTRIBUTE_TYPE s old) (attr_Value a)"

definition IntValue :: "xml_attribute \<Rightarrow> int option" where
  "IntValue a = map_option snd (QueryIntValue a 0)"

definition UnsignedValue :: "xml_attribute \<Rightarrow> u32 option" where
  "UnsignedValue a = map_option snd (QueryUnsignedValue a 0)"

definition BoolValue :: "xml_attribute \<Rightarrow> bool option" where
  "BoolValue a = map_option snd (QueryBoolValue a False)"

definition attr_SetAttribute :: "string \<Rightarrow> xml_attribute \<Rightarrow> xml_attribute" where
  "attr_SetAttribute v a = a\<lparr>at_value := sp_SetStr v\<rparr>"

definition attr_SetAttribute_int :: "int \<Rightarrow> xml_attribute \<Rightarrow> xml_attribute" where
  "attr_SetAttribute_int v a = a\<lparr>at_value := sp_SetStr (ToStr_int v BUF_SIZE)\<rparr>"

definition attr_SetAttribute_unsigned :: "u32 \<Rightarrow> xml_attribute \<Rightarrow> xml_attribute" where
  "attr_SetAttribute_unsigned v a = a\<lparr>at_value := sp_SetStr (ToStr_unsigned v BUF_SIZE)\<rparr>"

definition attr_SetAttribute_bool :: "bool \<Rightarrow> xml_attribute \<Rightarrow> xml_attribute" where
  "attr_SetAttribute_bool v a = a\<lparr>at_value := sp_SetStr (ToStr_bool v BUF_SIZE)\<rparr>"

section \<open>The attributes of an element\<close>

fun elem_attributes :: "xml_node \<Rightarrow> xml_attribute list" where
  "elem_attributes (XMLElement v ct as kids) = as"
| "elem_attributes n = []"

fun with_attributes :: "xml_attribute list \<Rightarrow> xml_node \<Rightarrow> xml_node" where
  "with_attributes as (XMLElement v ct _ kids) = XMLElement v ct as kids"
| "with_attributes as n = n"

fun FindOrCreateAttribute :: "string \<Rightarrow> (xml_attribute \<Rightarrow> xml_attribute) \<Rightarrow> xml_attribute list \<Rightarrow> xml_attribute list option" where
  \<comment> \<open>with what the caller does to the attribute\<close>
  "FindOrCreateAttribute name f [] = Some [f \<lparr>at_name = sp_SetStr name, at_value = str_pair_new\<rparr>]"
| "FindOrCreateAttribute name f (a # as) = do {
     n \<leftarrow> attr_Name a;
     if StringEqual n name INT_MAX then Some (f a # as)
     else map_option ((#) a) (FindOrCreateAttribute name f as)
   }"

definition SetAttribute_with :: "string \<Rightarrow> (xml_attribute \<Rightarrow> xml_attribute) \<Rightarrow> xml_node \<Rightarrow> xml_node option" where
  "SetAttribute_with name f e = map_option (\<lambda>as. with_attributes as e) (FindOrCreateAttribute name f (elem_attributes e))"

definition SetAttribute :: "string \<Rightarrow> string \<Rightarrow> xml_node \<Rightarrow> xml_node option" where
  "SetAttribute name v = SetAttribute_with name (attr_SetAttribute v)"

definition SetAttribute_int :: "string \<Rightarrow> int \<Rightarrow> xml_node \<Rightarrow> xml_node option" where
  "SetAttribute_int name v = SetAttribute_with name (attr_SetAttribute_int v)"

definition SetAttribute_unsigned :: "string \<Rightarrow> u32 \<Rightarrow> xml_node \<Rightarrow> xml_node option" where
  "SetAttribute_unsigned name v = SetAttribute_with name (attr_SetAttribute_unsigned v)"

definition SetAttribute_bool :: "string \<Rightarrow> bool \<Rightarrow> xml_node \<Rightarrow> xml_node option" where
  "SetAttribute_bool name v = SetAttribute_with name (attr_SetAttribute_bool v)"

fun delete_attribute :: "string \<Rightarrow> xml_attribute list \<Rightarrow> xml_attribute list option" where
  \<comment> \<open>the loop of \<open>DeleteAttribute\<close>\<close>
  "delete_attribute name [] = Some []"
| "delete_attribute name (a # as) = do {
     n \<leftarrow> attr_Name a;
     if StringEqual name n INT_MAX then Some as else map_option ((#) a) (delete_attribute name as)
   }"

definition DeleteAttribute :: "string \<Rightarrow> xml_node \<Rightarrow> xml_node option" where
  "DeleteAttribute name e = map_option (\<lambda>as. with_attributes as e) (delete_attribute name (elem_attributes e))"

definition Attribute :: "string \<Rightarrow> string option \<Rightarrow> xml_node \<Rightarrow> string option option" where
  \<comment> \<open>the inner option is the NULL result\<close>
  "Attribute name expected e =
     (case FindAttribute name (elem_attributes e) of
        None \<Rightarrow> Some None
      | Some a \<Rightarrow> do {
          v \<leftarrow> attr_Value a;
          Some (case expected of None \<Rightarrow> Some v | Some w \<Rightarrow> if StringEqual v w INT_MAX then Some v else None)
        })"

definition query_attribute :: "(xml_attribute \<Rightarrow> 'a \<Rightarrow> (XMLError \<times> 'a) option) \<Rightarrow> string \<Rightarrow> xml_node \<Rightarrow> 'a \<Rightarrow> (XMLError \<times> 'a) option" where
  "query_attribute query name e old =
     (case FindAttribute name (elem_attributes e) of None \<Rightarrow> Some (XML_NO_ATTRIBUTE, old) | Some a \<Rightarrow> query a old)"

definition QueryIntAttribute :: "string \<Rightarrow> xml_node \<Rightarrow> int \<Rightarrow> (XMLError \<times> int) option" where
  "QueryIntAttribute = query_attribute QueryIntValue"

definition QueryUnsignedAttribute :: "string \<Rightarrow> xml_node \<Rightarrow> u32 \<Rightarrow> (XMLError \<times> u32) option" where
  "QueryUnsignedAttribute = query_attribute QueryUnsignedValue"

definition QueryBoolAttribute :: "string \<Rightarrow> xml_node \<Rightarrow> bool \<Rightarrow> (XMLError \<times> bool) option" where
  "QueryBoolAttribute = query_attribute QueryBoolValue"

definition IntAttribute :: "string \<Rightarrow> xml_node \<Rightarrow> int option" where
  "IntAttribute name e = map_option snd (QueryIntAttribute name e 0)"

definition UnsignedAttribute :: "string \<Rightarrow> xml_node \<Rightarrow> u32 option" where
  "UnsignedAttribute name e = map_option snd (QueryUnsignedAttribute name e 0)"

definition BoolAttribute :: "string \<Rightarrow> xml_node \<Rightarrow> bool option" where
  "BoolAttribute name e = map_option snd (QueryBoolAttribute name e False)"

section \<open>The text of an element\<close>

definition GetText :: "xml_node \<Rightarrow> string option option" where
  \<comment> \<open>the inner option is the NULL result\<close>
  "GetText e = (case node_children e of XMLText cdata v # _ \<Rightarrow> map_option Some (GetStr v) | _ \<Rightarrow> Some None)"

fun SetText :: "string \<Rightarrow> xml_node \<Rightarrow> xml_node" where
  "SetText t (XMLElement v ct as (XMLText cdata w # kids)) = XMLElement v ct as (XMLText cdata (sp_SetStr t) # kids)"
| "SetText t (XMLElement v ct as kids) = XMLElement v ct as (XMLText False (sp_SetStr t) # kids)"
| "SetText t n = n"

definition SetText_int :: "int \<Rightarrow> xml_node \<Rightarrow> xml_node" where
  "SetText_int v = SetText (ToStr_int v BUF_SIZE)"

definition SetText_unsigned :: "u32 \<Rightarrow> xml_node \<Rightarrow> xml_node" where
  "SetText_unsigned v = SetText (ToStr_unsigned v BUF_SIZE)"

definition SetText_bool :: "bool \<Rightarrow> xml_node \<Rightarrow> xml_node" where
  "SetText_bool v = SetText (ToStr_bool v BUF_SIZE)"

definition query_text :: "(string \<Rightarrow> 'a option) \<Rightarrow> xml_node \<Rightarrow> 'a \<Rightarrow> (XMLError \<times> 'a) option" where
  \<comment> \<open>\<open>XML_SUCCESS\<close> and \<open>XML_NO_ERROR\<close> are the same number\<close>
  "query_text conv e old =
     (case node_children e of
        XMLText cdata v # _ \<Rightarrow> map_option (\<lambda>s. converted conv XML_CAN_NOT_CONVERT_TEXT s old) (GetStr v)
      | _ \<Rightarrow> Some (XML_NO_TEXT_NODE, old))"

definition QueryIntText :: "xml_node \<Rightarrow> int \<Rightarrow> (XMLError \<times> int) option" where
  "QueryIntText = query_text ToInt"

definition QueryUnsignedText :: "xml_node \<Rightarrow> u32 \<Rightarrow> (XMLError \<times> u32) option" where
  "QueryUnsignedText = query_text ToUnsigned"

definition QueryBoolText :: "xml_node \<Rightarrow> bool \<Rightarrow> (XMLError \<times> bool) option" where
  "QueryBoolText = query_text ToBool"

section \<open>Copies and comparisons\<close>

fun clone_attributes :: "xml_attribute list \<Rightarrow> xml_attribute list \<Rightarrow> xml_attribute list option" where
  \<comment> \<open>the loop of \<open>XMLElement::ShallowClone\<close>: the second list is what the copy has so far\<close>
  "clone_attributes [] bs = Some bs"
| "clone_attributes (a # as) bs = do {
     n \<leftarrow> attr_Name a;
     v \<leftarrow> attr_Value a;
     bs1 \<leftarrow> FindOrCreateAttribute n (attr_SetAttribute v) bs;
     clone_attributes as bs1
   }"

fun ShallowClone :: "xml_node \<Rightarrow> xml_node option" where
  "ShallowClone (XMLText cdata v) = map_option (\<lambda>s. XMLText cdata (sp_SetStr s)) (GetStr v)"
| "ShallowClone (XMLComment v) = map_option (\<lambda>s. XMLComment (sp_SetStr s)) (GetStr v)"
| "ShallowClone (XMLDeclaration v) = map_option (\<lambda>s. XMLDeclaration (sp_SetStr s)) (GetStr v)"
| "ShallowClone (XMLUnknown v) = map_option (\<lambda>s. XMLUnknown (sp_SetStr s)) (GetStr v)"
| "ShallowClone (XMLElement v ct as kids) = do {
     s \<leftarrow> GetStr v;
     bs \<leftarrow> clone_attributes as [];
     Some (XMLElement (sp_SetStr s) OPEN bs [])
   }"

fun equal_attributes :: "xml_attribute list \<Rightarrow> xml_attribute list \<Rightarrow> bool option" where
  \<comment> \<open>the loop of \<open>XMLElement::ShallowEqual\<close>: the values only\<close>
  "equal_attributes (a # as) (b # bs) = do {
     v \<leftarrow> attr_Value a;
     w \<leftarrow> attr_Value b;
     if StringEqual v w INT_MAX then equal_attributes as bs else Some False
   }"
| "equal_attributes as bs = Some (as = [] \<and> bs = [])"

definition equal_values :: "str_pair \<Rightarrow> str_pair \<Rightarrow> bool option" where
  "equal_values v w = do { s \<leftarrow> GetStr v; t \<leftarrow> GetStr w; Some (StringEqual s t INT_MAX) }"

fun ShallowEqual :: "xml_node \<Rightarrow> xml_node \<Rightarrow> bool option" where
  "ShallowEqual (XMLText cd v) (XMLText cd' w) = equal_values w v"
| "ShallowEqual (XMLComment v) (XMLComment w) = equal_values w v"
| "ShallowEqual (XMLDeclaration v) (XMLDeclaration w) = equal_values w v"
| "ShallowEqual (XMLUnknown v) (XMLUnknown w) = equal_values w v"
| "ShallowEqual (XMLElement v ct as kids) (XMLElement w ct' bs kids') = do {
     same \<leftarrow> equal_values w v;
     if same then equal_attributes as bs else Some False
   }"
| "ShallowEqual n m = Some False"

end
