(* ===== verification/XmlQueryProps.thy ===== *)
theory XmlQueryProps
  imports XmlQuery
begin

text \<open>
  What setting an attribute or a text promises: the number that was set is read back, and nothing else
  changes; deleting; copies are equal to their originals; and what the comparison of elements misses.
\<close>

section \<open>Numbers as text\<close>

definition int32 :: "int \<Rightarrow> bool" where
  "int32 v \<longleftrightarrow> - (2 ^ 31) \<le> v \<and> v < 2 ^ 31"

lemma length_fmt_u: "n < 2 ^ 32 \<Longrightarrow> length (fmt_u n) \<le> 10"
  by (simp add: fmt_u_def length_fmt_base)

lemma ToStr_int_eq: assumes "int32 v" shows "ToStr_int v BUF_SIZE = fmt_d v"
proof -
  have "length (fmt_u (nat (- v))) \<le> 10" "length (fmt_u (nat v)) \<le> 10"
    using assms by (auto simp: int32_def intro!: length_fmt_u)
  then show ?thesis by (simp add: ToStr_int_def snprintf_cut_def BUF_SIZE_def fmt_d_def)
qed

lemma ToStr_unsigned_eq: "ToStr_unsigned v BUF_SIZE = fmt_u (unat v)"
  using length_fmt_u [of "unat v"] unat_u32_lt [of v] by (simp add: ToStr_unsigned_def snprintf_cut_def BUF_SIZE_def)

lemma fmt_u_head:
  obtains d ds where "fmt_u n = d # ds" "c_isdigit d" "\<not> c_isspace d" "d \<noteq> CHR ''-''" "d \<noteq> CHR ''+''" "\<not> IsWhiteSpace d"
proof -
  obtain d ds where d: "fmt_u n = d # ds" by (cases "fmt_u n") auto
  moreover have "c_isdigit d" using fmt_u_digit [of d n] by (simp add: d)
  ultimately show thesis using that by (auto dest: c_isdigit_plain simp: IsWhiteSpace_def)
qed

lemma span_digits: "span_m c_isdigit (fmt_u n @ [NUL]) = Some (fmt_u n, [NUL])"
  using fmt_u_digit by (intro span_m_hit) (auto, simp add: c_isdigit_def)

lemma digits_val_fmt_u: "digits_val 10 (fmt_u n) = n"
  using digits_val_fmt_base [of 10 n] by (simp add: fmt_u_def)

lemma c_atoi_negative: "n \<le> 2 ^ 31 \<Longrightarrow> c_atoi (CHR ''-'' # fmt_u n @ [NUL]) = Some (- int n)"
  using span_digits [of n]
  by (simp add: c_atoi_def c_isspace_def scan_sign_def digits_val_fmt_u wrap_int32_def clamp_long_def)

lemma ToInt_fmt_d: "int32 v \<Longrightarrow> ToInt (fmt_d v) = Some v"
proof (cases "v < 0")
  case True
  assume "int32 v"
  then have n: "nat (- v) \<le> 2 ^ 31" using True by (simp add: int32_def)
  obtain d ds where d: "fmt_u (nat (- v)) = d # ds" "c_isdigit d" by (rule fmt_u_head)
  have "SkipWhiteSpace (CHR ''-'' # d # ds) = CHR ''-'' # d # ds"
    by (simp add: SkipWhiteSpace_def IsWhiteSpace_def c_isspace_def)
  moreover have "c_atoi (CHR ''-'' # d # ds @ [NUL]) = Some v" using c_atoi_negative [OF n] True by (simp add: d)
  ultimately show ?thesis using True d by (simp add: ToInt_def fmt_d_def Let_def)
next
  case False
  assume "int32 v"
  then have n: "nat v < 2 ^ 31" using False by (simp add: int32_def)
  obtain d ds where d: "fmt_u (nat v) = d # ds" "c_isdigit d" "d \<noteq> CHR ''-''" "d \<noteq> CHR ''+''" "\<not> IsWhiteSpace d"
    by (rule fmt_u_head)
  have "c_atoi (fmt_u (nat v) @ NUL # []) = Some v"
    using c_atoi_fmt_u [OF n, of NUL "[]"] False by (simp add: c_isdigit_def)
  with d False show ?thesis by (simp add: ToInt_def fmt_d_def Let_def SkipWhiteSpace_def)
qed

lemma ToUnsigned_fmt_u: "ToUnsigned (fmt_u (unat v)) = Some v"
proof -
  obtain d ds where d: "fmt_u (unat v) = d # ds" "c_isdigit d" "\<not> c_isspace d" "d \<noteq> CHR ''-''" "d \<noteq> CHR ''+''"
    by (rule fmt_u_head)
  have "span_m c_isspace (d # ds @ [NUL]) = Some ([], d # ds @ [NUL])" using d by simp
  moreover have "span_m c_isdigit (d # ds @ [NUL]) = Some (d # ds, [NUL])" using span_digits [of "unat v"] by (simp add: d)
  moreover have "ulong_to_u32 False (digits_val 10 (d # ds)) = v"
    using digits_val_fmt_u [of "unat v"] unat_u32_lt [of v] by (simp add: d ulong_to_u32_def)
  ultimately show ?thesis using d by (simp add: ToUnsigned_def scan_udec_def scan_sign_plain)
qed

lemma ToBool_fmt_d: "ToBool (fmt_d (if b then 1 else 0)) = Some b"
  using ToInt_fmt_d [of "if b then 1 else 0"] by (simp add: ToBool_def int32_def)

lemma ToStr_bool_eq: "ToStr_bool b BUF_SIZE = fmt_d (if b then 1 else 0)"
  using ToStr_int_eq [of "if b then 1 else 0"] by (simp add: ToStr_bool_def ToStr_int_def int32_def)

lemma fmt_d_NUL: "NUL \<notin> set (fmt_d v)" and fmt_u_NUL: "NUL \<notin> set (fmt_u n)"
  using fmt_u_digit [of NUL] by (auto simp: fmt_d_def c_isdigit_def)

section \<open>Strings set are strings read\<close>

lemma GetStr_SetStr: "GetStr (sp_SetStr s) = Some (c_str s)"
  by (simp add: GetStr_def sp_SetStr_def NEEDS_DELETE_def NEEDS_FLUSH_def)

lemma query_set_value:
  assumes "attr_Value a = Some s" "conv s = Some v"
  shows "map_option (\<lambda>s. converted conv err s old) (attr_Value a) = Some (XML_NO_ERROR, v)"
  using assms by (simp add: converted_def)

lemma set_values_are_read:
  "int32 v \<Longrightarrow> QueryIntValue (attr_SetAttribute_int v a) old = Some (XML_NO_ERROR, v)"
  "QueryUnsignedValue (attr_SetAttribute_unsigned w a) old' = Some (XML_NO_ERROR, w)"
  "QueryBoolValue (attr_SetAttribute_bool b a) old'' = Some (XML_NO_ERROR, b)"
  by (simp_all add: QueryIntValue_def QueryUnsignedValue_def QueryBoolValue_def attr_Value_def attr_SetAttribute_int_def
      attr_SetAttribute_unsigned_def attr_SetAttribute_bool_def GetStr_SetStr ToStr_int_eq ToStr_unsigned_eq ToStr_bool_eq
      c_str_id fmt_d_NUL fmt_u_NUL converted_def ToInt_fmt_d ToUnsigned_fmt_u ToBool_fmt_d)

section \<open>The list of the attributes\<close>

text \<open>
  Names compare by their first \<open>INT_MAX\<close> characters. The names of parsed and of created attributes are
  always readable.
\<close>

definition same_name :: "string \<Rightarrow> string \<Rightarrow> bool" where
  "same_name n m \<longleftrightarrow> take (nat INT_MAX) n = take (nat INT_MAX) m"

lemma StringEqual_same: "StringEqual n m INT_MAX \<longleftrightarrow> same_name n m"
  by (simp add: StringEqual_iff same_name_def INT_MAX_def)

definition readable :: "xml_attribute list \<Rightarrow> bool" where
  "readable as \<longleftrightarrow> list_all (\<lambda>a. attr_Name a \<noteq> None) as"

definition attr_names :: "xml_attribute list \<Rightarrow> string list" where
  "attr_names as = map (\<lambda>a. the (attr_Name a)) as"

definition keeps_name :: "(xml_attribute \<Rightarrow> xml_attribute) \<Rightarrow> bool" where
  "keeps_name f \<longleftrightarrow> (\<forall>a. at_name (f a) = at_name a)"

lemma setters_keep_names:
  "keeps_name (attr_SetAttribute s)" "keeps_name (attr_SetAttribute_int v)" "keeps_name (attr_SetAttribute_unsigned w)"
  "keeps_name (attr_SetAttribute_bool b)"
  by (simp_all add: keeps_name_def attr_SetAttribute_def attr_SetAttribute_int_def attr_SetAttribute_unsigned_def
      attr_SetAttribute_bool_def)

lemma FindAttribute_names: "readable as \<Longrightarrow> FindAttribute name as = find (\<lambda>a. same_name (the (attr_Name a)) name) as"
  by (induction as) (auto simp: readable_def attr_Name_def StringEqual_same)

lemma FindOrCreateAttribute_sets:
  assumes "readable as" "keeps_name f" "NUL \<notin> set name"
  shows "\<exists>as' a. FindOrCreateAttribute name f as = Some as' \<and> readable as' \<and> FindAttribute name as' = Some (f a)
    \<and> (\<forall>other. \<not> same_name other name \<longrightarrow> FindAttribute other as' = FindAttribute other as)
    \<and> attr_names as' = (if FindAttribute name as = None then attr_names as @ [name] else attr_names as)"
  using assms(1)
proof (induction as)
  case Nil
  let ?a = "\<lparr>at_name = sp_SetStr name, at_value = str_pair_new\<rparr>"
  have n: "attr_Name (f ?a) = Some name"
    using assms(2,3) by (simp add: attr_Name_def keeps_name_def GetStr_SetStr c_str_id)
  have "FindAttribute other [f ?a] = (if same_name name other then Some (f ?a) else None)" for other
    using n by (simp add: attr_Name_def StringEqual_same)
  then show ?case using n
    by (intro exI [of _ "[f ?a]"] exI [of _ ?a]) (auto simp: readable_def attr_names_def same_name_def)
next
  case (Cons b as)
  then obtain n where n: "attr_Name b = Some n" "readable as" by (auto simp: readable_def)
  have fb: "attr_Name (f b) = Some n" using n assms(2) by (simp add: attr_Name_def keeps_name_def)
  show ?case
  proof (cases "same_name n name")
    case True
    then have "FindAttribute other (f b # as) = FindAttribute other (b # as)" if "\<not> same_name other name" for other
      using n fb that by (auto simp: attr_Name_def StringEqual_same same_name_def)
    with True n fb show ?thesis
      by (intro exI [of _ "f b # as"] exI [of _ b]) (auto simp: attr_Name_def StringEqual_same readable_def attr_names_def)
  next
    case False
    from Cons.IH [OF n(2)] obtain as' a where IH: "FindOrCreateAttribute name f as = Some as'" "readable as'"
      "FindAttribute name as' = Some (f a)" "\<forall>other. \<not> same_name other name \<longrightarrow> FindAttribute other as' = FindAttribute other as"
      "attr_names as' = (if FindAttribute name as = None then attr_names as @ [name] else attr_names as)" by blast
    with False n show ?thesis
      by (intro exI [of _ "b # as'"] exI [of _ a]) (auto simp: attr_Name_def StringEqual_same readable_def attr_names_def)
  qed
qed

lemma elem_with [simp]: "is_element e \<Longrightarrow> elem_attributes (with_attributes as e) = as"
  by (cases e) auto


text \<open>What setting or deleting the attribute \<open>name\<close> leaves alone.\<close>

definition only_attribute :: "string \<Rightarrow> xml_node \<Rightarrow> xml_node \<Rightarrow> bool" where
  "only_attribute name e e' \<longleftrightarrow>
     (\<forall>other. \<not> same_name other name \<longrightarrow> FindAttribute other (elem_attributes e') = FindAttribute other (elem_attributes e))
     \<and> node_value e' = node_value e \<and> node_children e' = node_children e \<and> is_element e' = is_element e"

lemma SetAttribute_with_sets:
  assumes "is_element e" "readable (elem_attributes e)" "keeps_name f" "NUL \<notin> set name"
  shows "\<exists>e' a. SetAttribute_with name f e = Some e' \<and> FindAttribute name (elem_attributes e') = Some (f a)
    \<and> only_attribute name e e' \<and> readable (elem_attributes e')"
proof -
  obtain as' a where as': "FindOrCreateAttribute name f (elem_attributes e) = Some as'" "readable as'"
    "FindAttribute name as' = Some (f a)"
    "\<forall>other. \<not> same_name other name \<longrightarrow> FindAttribute other as' = FindAttribute other (elem_attributes e)"
    using FindOrCreateAttribute_sets [OF assms(2-4)] by blast
  then show ?thesis using assms(1)
    by (intro exI [of _ "with_attributes as' e"] exI [of _ a])
      (cases e; auto simp: SetAttribute_with_def only_attribute_def)
qed

lemma query_after_set:
  assumes "SetAttribute_with name f e = Some e'" "FindAttribute name (elem_attributes e') = Some (f a)"
    "\<And>a. query (f a) old = Some (XML_NO_ERROR, v)"
  shows "query_attribute query name e' old = Some (XML_NO_ERROR, v)"
  using assms by (simp add: query_attribute_def)

lemma same_name_trans: "same_name a b \<Longrightarrow> same_name a c \<longleftrightarrow> same_name b c"
  by (auto simp: same_name_def)

lemma delete_attribute_deletes:
  assumes "readable as" "distinct (map (take (nat INT_MAX)) (attr_names as))"
  shows "\<exists>as'. delete_attribute name as = Some as' \<and> readable as' \<and> FindAttribute name as' = None
    \<and> (\<forall>other. \<not> same_name other name \<longrightarrow> FindAttribute other as' = FindAttribute other as)"
  using assms
proof (induction as)
  case (Cons b as)
  then obtain n where n: "attr_Name b = Some n" "readable as" by (auto simp: readable_def)
  show ?case
  proof (cases "same_name name n")
    case True
    have "FindAttribute name as = None"
      using Cons.prems(2) n True
      by (auto simp: FindAttribute_names find_None_iff attr_names_def same_name_def image_iff)
    moreover have "\<not> same_name other name \<Longrightarrow> \<not> same_name n other" for other using True by (auto simp: same_name_def)
    ultimately show ?thesis using True n
      by (intro exI [of _ as]) (auto simp: attr_Name_def StringEqual_same)
  next
    case False
    have "distinct (map (take (nat INT_MAX)) (attr_names as))" using Cons.prems(2) by (simp add: attr_names_def)
    from Cons.IH [OF n(2) this] obtain as' where IH: "delete_attribute name as = Some as'" "readable as'"
      "FindAttribute name as' = None" "\<forall>other. \<not> same_name other name \<longrightarrow> FindAttribute other as' = FindAttribute other as" by blast
    have "\<not> same_name n name" using False by (auto simp: same_name_def)
    with IH False n show ?thesis
      by (intro exI [of _ "b # as'"]) (auto simp: attr_Name_def StringEqual_same readable_def)
  qed
qed (simp add: readable_def)

lemma DeleteAttribute_deletes:
  assumes "is_element e" "readable (elem_attributes e)" "distinct (map (take (nat INT_MAX)) (attr_names (elem_attributes e)))"
  shows "\<exists>e'. DeleteAttribute name e = Some e' \<and> FindAttribute name (elem_attributes e') = None \<and> only_attribute name e e'"
proof -
  obtain as' where as': "delete_attribute name (elem_attributes e) = Some as'" "FindAttribute name as' = None"
    "\<forall>other. \<not> same_name other name \<longrightarrow> FindAttribute other as' = FindAttribute other (elem_attributes e)"
    using delete_attribute_deletes [OF assms(2,3)] by blast
  then show ?thesis using assms(1)
    by (intro exI [of _ "with_attributes as' e"]) (cases e; auto simp: DeleteAttribute_def only_attribute_def)
qed

section \<open>Copies and comparisons\<close>

definition plain_attributes :: "xml_attribute list \<Rightarrow> bool" where
  \<comment> \<open>names and values can be read and hold no NUL\<close>
  "plain_attributes as \<longleftrightarrow> (\<forall>a\<in>set as. \<exists>n v. attr_Name a = Some n \<and> NUL \<notin> set n \<and> attr_Value a = Some v \<and> NUL \<notin> set v)"

lemma FindOrCreateAttribute_new:
  assumes "readable as" "FindAttribute name as = None"
  shows "FindOrCreateAttribute name f as = Some (as @ [f \<lparr>at_name = sp_SetStr name, at_value = str_pair_new\<rparr>])"
  using assms
proof (induction as)
  case (Cons b as)
  then show ?case by (auto simp: readable_def attr_Name_def split: if_splits)
qed simp

definition copied :: "xml_attribute \<Rightarrow> xml_attribute" where
  "copied a = \<lparr>at_name = sp_SetStr (the (attr_Name a)), at_value = sp_SetStr (the (attr_Value a))\<rparr>"

lemma clone_attributes_copies:
  assumes "plain_attributes (bs @ as)" "distinct (map (take (nat INT_MAX)) (attr_names (bs @ as)))"
  shows "clone_attributes as (map copied bs) = Some (map copied (bs @ as))"
  using assms
proof (induction as arbitrary: bs)
  case (Cons a as)
  obtain n v where a: "attr_Name a = Some n" "NUL \<notin> set n" "attr_Value a = Some v" "NUL \<notin> set v"
    using Cons.prems(1) by (auto simp: plain_attributes_def)
  have names: "attr_Name (copied b) = attr_Name b" if "b \<in> set bs" for b
  proof -
    have "\<exists>n v. attr_Name b = Some n \<and> NUL \<notin> set n \<and> attr_Value b = Some v \<and> NUL \<notin> set v"
      using Cons.prems(1) that unfolding plain_attributes_def by simp
    then show ?thesis by (auto simp: copied_def attr_Name_def [of "copied b", unfolded copied_def] GetStr_SetStr c_str_id)
  qed
  have r: "readable (map copied bs)"
    using Cons.prems(1) names by (auto simp: readable_def plain_attributes_def list_all_iff)
  have "FindAttribute n (map copied bs) = None"
    using Cons.prems(2) a(1) names by (auto simp: FindAttribute_names [OF r] find_None_iff attr_names_def same_name_def image_iff)
  then have "FindOrCreateAttribute n (attr_SetAttribute v) (map copied bs) = Some (map copied (bs @ [a]))"
    by (simp add: FindOrCreateAttribute_new [OF r] copied_def attr_SetAttribute_def a)
  then show ?case using Cons.IH [of "bs @ [a]"] Cons.prems a by simp
qed simp

lemma equal_attributes_copied: "plain_attributes as \<Longrightarrow> equal_attributes as (map copied as) = Some True"
  by (induction as) (auto simp: plain_attributes_def copied_def attr_Value_def GetStr_SetStr c_str_id)

fun plain_node :: "xml_node \<Rightarrow> bool" where
  \<comment> \<open>the strings of the node itself can be read and hold no NUL, and its attributes have different names\<close>
  "plain_node (XMLElement v ct as kids) \<longleftrightarrow>
     (\<exists>s. GetStr v = Some s \<and> NUL \<notin> set s) \<and> plain_attributes as \<and> distinct (map (take (nat INT_MAX)) (attr_names as))"
| "plain_node n \<longleftrightarrow> (\<exists>s. GetStr (node_value n) = Some s \<and> NUL \<notin> set s)"

text \<open>A copy is equal to its original.\<close>

lemma ShallowClone_equal:
  assumes "plain_node n" shows "\<exists>m. ShallowClone n = Some m \<and> ShallowEqual n m = Some True \<and> node_children m = []"
proof (cases n)
  case (XMLElement v ct as kids)
  then show ?thesis
    using assms clone_attributes_copies [of "[]" as] equal_attributes_copied [of as]
    by (auto simp: equal_values_def GetStr_SetStr c_str_id)
qed (use assms in \<open>auto simp: equal_values_def GetStr_SetStr c_str_id\<close>)

text \<open>
  The comparison of elements looks at the values of the attributes and not at their names: elements that
  differ in the name of an attribute count as equal.
\<close>

lemma names_are_not_compared:
  "Option.bind (SetAttribute ''width'' ''1'' (XMLElement (sp_SetStr ''e'') OPEN [] [])) (\<lambda>e.
     Option.bind (SetAttribute ''height'' ''1'' (XMLElement (sp_SetStr ''e'') OPEN [] [])) (ShallowEqual e)) = Some True"
  by code_simp

text \<open>Text that is set is read, also as a number.\<close>

lemma SetText_GetText:
  assumes "is_element e" "NUL \<notin> set t"
  shows "GetText (SetText t e) = Some (Some t)" "int32 v \<Longrightarrow> QueryIntText (SetText_int v e) old = Some (XML_NO_ERROR, v)"
proof -
  obtain v ct as kids where e: "e = XMLElement v ct as kids" using assms(1) by (cases e) auto
  show "GetText (SetText t e) = Some (Some t)"
    by (cases "(t, e)" rule: SetText.cases) (auto simp: e GetText_def GetStr_SetStr c_str_id assms(2))
  show "QueryIntText (SetText_int v e) old = Some (XML_NO_ERROR, v)" if "int32 v" for v
    by (cases "(ToStr_int v BUF_SIZE, e)" rule: SetText.cases)
      (auto simp: e QueryIntText_def query_text_def SetText_int_def GetStr_SetStr ToStr_int_eq that c_str_id fmt_d_NUL
        converted_def ToInt_fmt_d)
qed

section \<open>Properties\<close>

text \<open>
  C35. A number or a truth value that is set as an attribute of an element is what a query of that attribute
  returns, for every value of the type, and no other attribute, no child and not the name of the element
  changes.
\<close>

theorem attribute_set_is_read_back:
  assumes "is_element e" "readable (elem_attributes e)" "NUL \<notin> set name"
  shows "(\<forall>v. int32 v \<longrightarrow> (\<exists>e'. SetAttribute_int name v e = Some e' \<and> only_attribute name e e'
        \<and> QueryIntAttribute name e' old = Some (XML_NO_ERROR, v)))
    \<and> (\<exists>e'. SetAttribute_unsigned name w e = Some e' \<and> only_attribute name e e'
        \<and> QueryUnsignedAttribute name e' old' = Some (XML_NO_ERROR, w))
    \<and> (\<exists>e'. SetAttribute_bool name b e = Some e' \<and> only_attribute name e e'
        \<and> QueryBoolAttribute name e' old'' = Some (XML_NO_ERROR, b))"
  unfolding SetAttribute_int_def SetAttribute_unsigned_def SetAttribute_bool_def QueryIntAttribute_def
    QueryUnsignedAttribute_def QueryBoolAttribute_def
  using SetAttribute_with_sets [OF assms(1,2) setters_keep_names(2) assms(3)]
    SetAttribute_with_sets [OF assms(1,2) setters_keep_names(3) assms(3)]
    SetAttribute_with_sets [OF assms(1,2) setters_keep_names(4) assms(3)]
    query_after_set set_values_are_read by metis

theorem attribute_set_is_read_back_witness:
  "\<exists>e'. SetAttribute_int ''port'' (- 8080) (XMLElement (sp_SetStr ''e'') OPEN [] []) = Some e'
    \<and> QueryIntAttribute ''port'' e' 0 = Some (XML_NO_ERROR, - 8080)"
proof -
  let ?e = "XMLElement (sp_SetStr ''e'') OPEN [] []"
  have "is_element ?e" "readable (elem_attributes ?e)" "NUL \<notin> set ''port''" "int32 (- 8080)"
    by (simp_all add: readable_def int32_def)
  with attribute_set_is_read_back [of ?e "''port''" 0] show ?thesis by blast
qed

end
