(* ===== verification/DirReader.thy ===== *)
theory DirReader
  imports CString
begin

text \<open>
  Reading a directory tree and loading the shared libraries in it (\<open>CDirReader\<close> and \<open>CSoLoader\<close> of
  frame/common/dirreader and frame/common/soloader, the branch for systems other than Windows).

  The file system and the dynamic linker are parameters: what \<open>access\<close>, \<open>opendir\<close> with \<open>readdir\<close>, \<open>stat\<close>,
  \<open>fnmatch\<close>, \<open>dlopen\<close> and \<open>dlsym\<close> answer. A directory that is reached again through a link is read again, so
  the recursion has fuel, one unit for each directory on the path; \<open>None\<close> is a recursion without
  end, or the exception of \<open>at\<close> on an empty path.
\<close>

section \<open>The directory reader\<close>

record file_system =
  fs_access :: "string \<Rightarrow> bool"
  fs_opendir :: "string \<Rightarrow> string list option"
  fs_stat :: "string \<Rightarrow> bool option"
    \<comment> \<open>\<open>None\<close>: an error; otherwise whether it is a directory\<close>
  fs_fnmatch :: "string \<Rightarrow> string \<Rightarrow> bool"

record dir_reader =
  dr_filter :: string
  dr_filenames :: "string list"
  dr_currentindex :: nat

definition dir_reader_new :: "string option \<Rightarrow> dir_reader" where
  "dir_reader_new flt =
     \<lparr>dr_filter = (case flt of None \<Rightarrow> ''*'' | Some f \<Rightarrow> if c_str f = [] then ''*'' else c_str f),
      dr_filenames = [], dr_currentindex = 0\<rparr>"

definition child_path :: "string \<Rightarrow> string \<Rightarrow> string option" where
  "child_path path name =
     (if path = [] then None else Some (if last path \<noteq> CHR ''/'' then path @ ''/'' @ name else path @ name))"

fun read_entries ::
  "(string \<Rightarrow> string list \<Rightarrow> string list option) \<Rightarrow> file_system \<Rightarrow> string \<Rightarrow> string \<Rightarrow> string list \<Rightarrow> string list
    \<Rightarrow> string list option" where
  \<comment> \<open>the loop of \<open>ReadFiles\<close>; the first argument is the recursive call\<close>
  "read_entries rec fs flt path [] filenames = Some filenames"
| "read_entries rec fs flt path (d_name # names) filenames =
     (if d_name = ''.'' \<or> d_name = ''..'' then read_entries rec fs flt path names filenames
      else do {
        filepath \<leftarrow> child_path path d_name;
        filenames1 \<leftarrow> (case fs_stat fs filepath of
            None \<Rightarrow> Some filenames
          | Some True \<Rightarrow> rec filepath filenames
          | Some False \<Rightarrow>
              Some (if flt = [] \<or> fs_fnmatch fs flt d_name then filenames @ [filepath] else filenames));
        read_entries rec fs flt path names filenames1
      })"

fun ReadFiles :: "nat \<Rightarrow> file_system \<Rightarrow> string \<Rightarrow> string \<Rightarrow> string list \<Rightarrow> string list option" where
  "ReadFiles 0 fs flt path filenames = None"
| "ReadFiles (Suc fuel) fs flt path filenames =
     (case fs_opendir fs path of
        None \<Rightarrow> Some filenames
      | Some names \<Rightarrow> read_entries (ReadFiles fuel fs flt) fs flt path names filenames)"

definition OpenDir :: "nat \<Rightarrow> file_system \<Rightarrow> string \<Rightarrow> dir_reader \<Rightarrow> (bool \<times> dir_reader) option" where
  "OpenDir fuel fs path r =
     (if \<not> fs_access fs path then Some (False, r)
      else map_option (\<lambda>names. (True, r\<lparr>dr_filenames := names\<rparr>)) (ReadFiles fuel fs (dr_filter r) path (dr_filenames r)))"

definition GetNextFilePath :: "dir_reader \<Rightarrow> string option \<times> dir_reader" where
  \<comment> \<open>the text written into \<open>filename\<close>, or \<open>None\<close> where the function returns false\<close>
  "GetNextFilePath r =
     (if dr_filenames r = [] \<or> length (dr_filenames r) \<le> dr_currentindex r then (None, r)
      else (Some (snprintf_cut 255 (c_str (dr_filenames r ! dr_currentindex r))),
            r\<lparr>dr_currentindex := dr_currentindex r + 1\<rparr>))"

definition GetFirstFilePath :: "dir_reader \<Rightarrow> string option \<times> dir_reader" where
  "GetFirstFilePath r =
     (if dr_filenames r = [] then (None, r)
      else (Some (snprintf_cut 255 (c_str (dr_filenames r ! 0))), r\<lparr>dr_currentindex := 1\<rparr>))"

section \<open>The library loader\<close>

record linker =
  ln_dlopen :: "string \<Rightarrow> nat option"
  ln_dlsym :: "nat \<Rightarrow> string \<Rightarrow> nat option"
    \<comment> \<open>\<open>None\<close>: \<open>dlerror\<close> reports an error afterwards\<close>

record so_unit =
  strsoname :: string
  phandle :: "nat option"
  pfuncreate :: "nat option"
  pfundestroy :: "nat option"

definition so_unit_new :: so_unit where
  "so_unit_new = \<lparr>strsoname = [], phandle = None, pfuncreate = None, pfundestroy = None\<rparr>"

definition GetSoUnit :: "linker \<Rightarrow> string \<Rightarrow> int \<times> so_unit" where
  "GetSoUnit ln szsoname =
     (case ln_dlopen ln szsoname of
        None \<Rightarrow> (- 1, so_unit_new)
      | Some handle \<Rightarrow>
          (case ln_dlsym ln handle ''create'' of
             None \<Rightarrow> (- 1, so_unit_new)
           | Some create_unit \<Rightarrow>
               (case ln_dlsym ln handle ''destroy'' of
                  None \<Rightarrow> (- 1, so_unit_new)
                | Some destroy_unit \<Rightarrow>
                    (0, \<lparr>strsoname = szsoname, phandle = Some handle, pfuncreate = Some create_unit,
                         pfundestroy = Some destroy_unit\<rparr>))))"

function load_files :: "linker \<Rightarrow> string \<Rightarrow> dir_reader \<Rightarrow> so_unit list \<Rightarrow> so_unit list" where
  \<comment> \<open>the do loop of \<open>Load\<close>\<close>
  "load_files ln szfilename r vecunit =
     (let (ret, sounit) = GetSoUnit ln szfilename;
          vecunit1 = (if ret \<noteq> 0 then vecunit else vecunit @ [sounit])
      in (case GetNextFilePath r of
            (None, r') \<Rightarrow> vecunit1
          | (Some name, r') \<Rightarrow> load_files ln name r' vecunit1))"
  by pat_completeness auto
termination
  by (relation "measure (\<lambda>(ln, f, r, v). length (dr_filenames r) - dr_currentindex r)")
     (auto simp: GetNextFilePath_def split: if_splits)

declare load_files.simps [simp del]

definition Load ::
  "nat \<Rightarrow> file_system \<Rightarrow> linker \<Rightarrow> string \<Rightarrow> string \<Rightarrow> so_unit list \<Rightarrow> (int \<times> so_unit list) option" where
  "Load fuel fs ln strdir strfilter vecunit =
     map_option (\<lambda>(opened, r).
         if \<not> opened then (- 1, vecunit)
         else (case GetFirstFilePath r of
                 (None, r') \<Rightarrow> (0, vecunit)
               | (Some szfilename, r') \<Rightarrow> (0, load_files ln szfilename r' vecunit)))
       (OpenDir fuel fs (c_str strdir) (dir_reader_new (Some strfilter)))"

section \<open>The recursion ends\<close>

text \<open>The fuel matters only while the recursion has not ended.\<close>

lemma read_entries_mono:
  assumes "\<And>p xs ys. rec p xs = Some ys \<Longrightarrow> rec' p xs = Some ys"
  shows "read_entries rec fs flt path names xs = Some ys \<Longrightarrow> read_entries rec' fs flt path names xs = Some ys"
proof (induction names arbitrary: xs)
  case (Cons n names)
  then show ?case
    by (auto simp: bind_eq_Some_iff assms split: if_splits option.splits bool.splits)
qed simp

lemma ReadFiles_more_fuel: "ReadFiles fuel fs flt path xs = Some ys \<Longrightarrow> ReadFiles (fuel + k) fs flt path xs = Some ys"
proof (induction fuel arbitrary: path xs ys)
  case (Suc fuel)
  then show ?case
    using read_entries_mono [of "ReadFiles fuel fs flt" "ReadFiles (fuel + k) fs flt"] by (auto split: option.splits)
qed simp

lemma child_path_longer: "child_path path name = Some p \<Longrightarrow> name \<noteq> [] \<Longrightarrow> length path < length p"
  by (auto simp: child_path_def split: if_splits)

definition names_nonempty :: "file_system \<Rightarrow> bool" where
  "names_nonempty fs = (\<forall>path names. fs_opendir fs path = Some names \<longrightarrow> [] \<notin> set names)"

text \<open>\<open>listed fs ys\<close>: each of \<open>ys\<close> is a path that \<open>stat\<close> knows and that is no directory.\<close>

definition listed :: "file_system \<Rightarrow> string list \<Rightarrow> bool" where
  "listed fs ys = (\<forall>p\<in>set ys. fs_stat fs p = Some False)"

lemma read_entries_total:
  assumes "path \<noteq> []" "[] \<notin> set names"
    and "\<And>p xs. fs_stat fs p = Some True \<Longrightarrow> length path < length p \<Longrightarrow> \<exists>ys. rec p xs = Some (xs @ ys) \<and> listed fs ys"
  shows "\<exists>ys. read_entries rec fs flt path names xs = Some (xs @ ys) \<and> listed fs ys"
  using assms(2)
proof (induction names arbitrary: xs)
  case (Cons n names)
  obtain p where p: "child_path path n = Some p" using assms(1) by (simp add: child_path_def)
  have l: "length path < length p" using child_path_longer p Cons.prems by auto
  have "\<exists>ys. (case fs_stat fs p of None \<Rightarrow> Some xs | Some True \<Rightarrow> rec p xs
      | Some False \<Rightarrow> Some (if flt = [] \<or> fs_fnmatch fs flt n then xs @ [p] else xs)) = Some (xs @ ys) \<and> listed fs ys"
    (is "\<exists>ys. ?s = Some (xs @ ys) \<and> listed fs ys")
    using assms(3) [OF _ l] by (cases "fs_stat fs p") (auto simp: listed_def split: bool.splits)
  then obtain ys where ys: "?s = Some (xs @ ys)" "listed fs ys" by blast
  obtain zs where "read_entries rec fs flt path names (xs @ ys) = Some ((xs @ ys) @ zs)" "listed fs zs"
    using Cons by (metis list.set_intros(2))
  moreover have "listed fs (ys @ zs)" using ys(2) \<open>listed fs zs\<close> by (auto simp: listed_def)
  ultimately have "\<exists>us. read_entries rec fs flt path names (xs @ ys) = Some (xs @ us) \<and> listed fs us" by auto
  moreover obtain us where "read_entries rec fs flt path names xs = Some (xs @ us)" "listed fs us"
    using Cons by (metis list.set_intros(2))
  ultimately show ?case using ys by (auto simp: p)
qed (simp add: listed_def)

lemma ReadFiles_total:
  assumes "names_nonempty fs" and long: "\<And>p. bound \<le> length p \<Longrightarrow> fs_stat fs p = None"
  shows "path \<noteq> [] \<Longrightarrow> bound < fuel + length path \<Longrightarrow> 0 < fuel
    \<Longrightarrow> \<exists>ys. ReadFiles fuel fs flt path xs = Some (xs @ ys) \<and> listed fs ys"
proof (induction fuel arbitrary: path xs)
  case (Suc fuel)
  show ?case
  proof (cases "fs_opendir fs path")
    case (Some names)
    have "\<exists>ys. read_entries (ReadFiles fuel fs flt) fs flt path names xs = Some (xs @ ys) \<and> listed fs ys"
    proof (rule read_entries_total [OF Suc.prems(1)])
      show "[] \<notin> set names" using assms(1) Some by (auto simp: names_nonempty_def)
      fix p zs assume p: "fs_stat fs p = Some True" "length path < length p"
      then have "length p < bound" using long [of p] by force
      then show "\<exists>ys. ReadFiles fuel fs flt p zs = Some (zs @ ys) \<and> listed fs ys" using p(2) Suc.prems by (intro Suc.IH) auto
    qed
    with Some show ?thesis by simp
  qed (simp add: listed_def)
qed simp

text \<open>
  C37. On a system where \<open>stat\<close> fails for paths of 4096 characters and more, as Linux does, reading a
  directory tree ends, whatever cycles its links make, after a recursion of at most that depth; it adds
  paths to the list, keeps those the list has, and each path it adds is one \<open>stat\<close> knows and is no directory.
\<close>

theorem reading_directories_ends:
  assumes "names_nonempty fs" "\<And>p. 4096 \<le> length p \<Longrightarrow> fs_stat fs p = None" "path \<noteq> []"
  shows "\<exists>ys. OpenDir 4096 fs path r = Some (fs_access fs path, r\<lparr>dr_filenames := dr_filenames r @ ys\<rparr>)
    \<and> (\<forall>p\<in>set ys. fs_stat fs p = Some False)"
proof (cases "fs_access fs path")
  case True
  obtain ys where "ReadFiles 4096 fs (dr_filter r) path (dr_filenames r) = Some (dr_filenames r @ ys)" "listed fs ys"
    using ReadFiles_total [where bound = 4096 and path = path and fuel = 4096 and flt = "dr_filter r" and xs = "dr_filenames r"]
      assms by auto
  with True show ?thesis by (auto simp: OpenDir_def listed_def)
qed (auto simp: OpenDir_def intro!: exI [of _ "[]"])

definition sample_fs :: file_system where
  \<comment> \<open>a directory with a library, a text file and a link to itself\<close>
  "sample_fs = \<lparr>fs_access = (\<lambda>p. True),
     fs_opendir = (\<lambda>p. if p = ''lib'' then Some [''.'', ''..'', ''a.so'', ''b.txt'', ''self''] else None),
     fs_stat = (\<lambda>p. if length p < 4096 then Some (p = ''lib/self'') else None),
     fs_fnmatch = (\<lambda>f n. n = ''a.so'')\<rparr>"

theorem reading_directories_ends_witness:
  "\<exists>ys. OpenDir 4096 sample_fs ''lib'' (dir_reader_new None)
      = Some (fs_access sample_fs ''lib'', (dir_reader_new None)\<lparr>dr_filenames := dr_filenames (dir_reader_new None) @ ys\<rparr>)
    \<and> (\<forall>p\<in>set ys. fs_stat sample_fs p = Some False)"
  by (rule reading_directories_ends) (simp_all add: sample_fs_def names_nonempty_def)

end
