(* ===== verification/ThriftGen.thy ===== *)
theory ThriftGen
  imports Thrift
begin

text \<open>
  The code the Thrift compiler generated from \<open>student.thrift\<close>, which the two examples use
  (student_types.h, student_types.cpp, Serv.h and Serv.cpp; both examples hold the same files).

  The Thrift library is a parameter: a record of the functions of \<open>TProtocol\<close> and its transport on a
  state \<open>'p\<close>. Each returns a value and the number of bytes it transferred, or throws; \<open>None\<close> is a call
  that never returns. The strings that \<open>readStructBegin\<close> and \<open>readFieldBegin\<close> fill are not used by the code.
\<close>

section \<open>Transfers\<close>

datatype texn =
    TProtocolException
  | TTransportException
  | TApplicationException u32 string
  | foreign_exception \<comment> \<open>not derived from \<open>std::exception\<close>\<close>

type_synonym ('p, 'a) xfer = "'p \<Rightarrow> (texn + 'a \<times> u32 \<times> 'p) option"

definition xret :: "'a \<Rightarrow> ('p, 'a) xfer" where
  "xret a p = Some (Inr (a, 0, p))"

definition xthrow :: "texn \<Rightarrow> ('p, 'a) xfer" where
  "xthrow e p = Some (Inl e)"

definition xbind :: "('p, 'a) xfer \<Rightarrow> ('a \<Rightarrow> ('p, 'b) xfer) \<Rightarrow> ('p, 'b) xfer" where
  \<comment> \<open>the counts are added up in \<open>uint32_t xfer\<close>\<close>
  "xbind f g p = Option.bind (f p) (\<lambda>r. case r of
       Inl e \<Rightarrow> Some (Inl e)
     | Inr (a, n, p1) \<Rightarrow> Option.bind (g a p1) (\<lambda>r1. case r1 of
           Inl e \<Rightarrow> Some (Inl e)
         | Inr (b, k, p2) \<Rightarrow> Some (Inr (b, n + k, p2))))"

definition xthen :: "('p, 'a) xfer \<Rightarrow> ('p, 'b) xfer \<Rightarrow> ('p, 'b) xfer" where
  "xthen f g = xbind f (\<lambda>_. g)"

fun xall :: "('p, unit) xfer list \<Rightarrow> ('p, unit) xfer" where
  "xall [] = xret ()"
| "xall (f # fs) = xthen f (xall fs)"

lemma xbind_mono [partial_function_mono]:
  assumes "mono_option (\<lambda>f. B f p)" "\<And>a q. mono_option (\<lambda>f. C a f q)"
  shows "mono_option (\<lambda>f. xbind (B f) (\<lambda>a. C a f) p)"
  unfolding xbind_def
proof (rule bind_mono [OF assms(1)])
  fix r
  show "mono_option (\<lambda>f. case r of Inl e \<Rightarrow> Some (Inl e)
      | Inr (a, n, p1) \<Rightarrow> Option.bind (C a f p1) (\<lambda>r1. case r1 of Inl e \<Rightarrow> Some (Inl e) | Inr (b, k, p2) \<Rightarrow> Some (Inr (b, n + k, p2))))"
  proof (cases r)
    case (Inr t)
    obtain a n p1 where "t = (a, n, p1)" by (cases t)
    with Inr show ?thesis using bind_mono [OF assms(2) option.const_mono] by simp
  qed (simp add: option.const_mono)
qed

section \<open>The library\<close>

datatype ttype = T_STOP | T_I16 | T_STRING | T_STRUCT | T_OTHER nat

datatype tmessage_type = T_CALL | T_REPLY | T_EXCEPTION | T_ONEWAY

record 'p protocol =
  readMessageBegin :: "('p, string \<times> tmessage_type \<times> u32) xfer"
  readMessageEnd :: "('p, unit) xfer"
  readStructBegin :: "('p, unit) xfer"
  readStructEnd :: "('p, unit) xfer"
  readFieldBegin :: "('p, ttype \<times> u16) xfer"
  readFieldEnd :: "('p, unit) xfer"
  readString :: "('p, string) xfer"
  readI16 :: "('p, u16) xfer"
  skip :: "ttype \<Rightarrow> ('p, unit) xfer"
  writeMessageBegin :: "string \<Rightarrow> tmessage_type \<Rightarrow> u32 \<Rightarrow> ('p, unit) xfer"
  writeMessageEnd :: "('p, unit) xfer"
  writeStructBegin :: "string \<Rightarrow> ('p, unit) xfer"
  writeStructEnd :: "('p, unit) xfer"
  writeFieldBegin :: "string \<Rightarrow> ttype \<Rightarrow> u16 \<Rightarrow> ('p, unit) xfer"
  writeFieldEnd :: "('p, unit) xfer"
  writeFieldStop :: "('p, unit) xfer"
  writeString :: "string \<Rightarrow> ('p, unit) xfer"
  writeI16 :: "u16 \<Rightarrow> ('p, unit) xfer"
  transport_readEnd :: "('p, u32) xfer"
  transport_writeEnd :: "('p, u32) xfer"
  transport_flush :: "('p, unit) xfer"
  exception_read :: "('p, u32 \<times> string) xfer" \<comment> \<open>\<open>TApplicationException::read\<close> and \<open>write\<close>\<close>
  exception_write :: "u32 \<Rightarrow> string \<Rightarrow> ('p, unit) xfer"
  memory_buffer :: "string \<Rightarrow> 'p" \<comment> \<open>a protocol on a \<open>TMemoryBuffer\<close> of these bytes\<close>
  memory_empty :: "nat \<Rightarrow> 'p" \<comment> \<open>and on an empty one of that capacity\<close>
  getBufferAsString :: "'p \<Rightarrow> string"

section \<open>Structs\<close>

record Student_isset =
  isset_no :: bool
  isset_name :: bool
  isset_age :: bool

record Student =
  st_no :: string
  st_name :: string
  st_age :: u16
  st_isset :: Student_isset

definition Student_new :: Student where
  "Student_new = \<lparr>st_no = [], st_name = [], st_age = 0,
     st_isset = \<lparr>isset_no = False, isset_name = False, isset_age = False\<rparr>\<rparr>"

text \<open>The generated setters of these fields do not touch the flags.\<close>

definition set_no :: "string \<Rightarrow> Student \<Rightarrow> Student" where "set_no v s = s\<lparr>st_no := v\<rparr>"
definition set_name :: "string \<Rightarrow> Student \<Rightarrow> Student" where "set_name v s = s\<lparr>st_name := v\<rparr>"
definition set_age :: "u16 \<Rightarrow> Student \<Rightarrow> Student" where "set_age v s = s\<lparr>st_age := v\<rparr>"

definition Student_eq :: "Student \<Rightarrow> Student \<Rightarrow> bool" where
  "Student_eq a b =
     (if st_no a \<noteq> st_no b then False else if st_name a \<noteq> st_name b then False
      else if st_age a \<noteq> st_age b then False else True)"

definition Student_swap :: "Student \<Rightarrow> Student \<Rightarrow> Student \<times> Student" where
  "Student_swap a b =
     (a\<lparr>st_no := st_no b, st_name := st_name b, st_age := st_age b, st_isset := st_isset b\<rparr>,
      b\<lparr>st_no := st_no a, st_name := st_name a, st_age := st_age a, st_isset := st_isset a\<rparr>)"

text \<open>
  Every generated \<open>read\<close> has the same loop over the fields, with a switch of its own. The loop ends
  with the field of type \<open>T_STOP\<close>, if one ever comes. When a call throws, the object that was being
  filled is lost with its scope.
\<close>

partial_function (option) read_fields ::
  "'p protocol \<Rightarrow> (ttype \<Rightarrow> u16 \<Rightarrow> 's \<Rightarrow> ('p, 's) xfer) \<Rightarrow> 's \<Rightarrow> ('p, 's) xfer" where
  "read_fields P field s p =
     xbind (readFieldBegin P) (\<lambda>tf q.
       if fst tf = T_STOP then xret s q
       else xbind (field (fst tf) (snd tf) s) (\<lambda>s1. xbind (readFieldEnd P) (\<lambda>_. read_fields P field s1)) q) p"

declare read_fields.simps [simp del]

definition read_struct ::
  "'p protocol \<Rightarrow> (ttype \<Rightarrow> u16 \<Rightarrow> 's \<Rightarrow> ('p, 's) xfer) \<Rightarrow> 's \<Rightarrow> ('p, 's) xfer" where
  "read_struct P field s =
     xthen (readStructBegin P) (xbind (read_fields P field s) (\<lambda>s1. xthen (readStructEnd P) (xret s1)))"

definition skip_field :: "'p protocol \<Rightarrow> ttype \<Rightarrow> 's \<Rightarrow> ('p, 's) xfer" where
  "skip_field P ftype s = xthen (skip P ftype) (xret s)"

definition Student_field :: "'p protocol \<Rightarrow> ttype \<Rightarrow> u16 \<Rightarrow> Student \<Rightarrow> ('p, Student) xfer" where
  "Student_field P ftype fid s =
     (if fid = 1 then
        (if ftype = T_STRING
         then xbind (readString P) (\<lambda>v. xret (s\<lparr>st_no := v, st_isset := (st_isset s)\<lparr>isset_no := True\<rparr>\<rparr>))
         else skip_field P ftype s)
      else if fid = 2 then
        (if ftype = T_STRING
         then xbind (readString P) (\<lambda>v. xret (s\<lparr>st_name := v, st_isset := (st_isset s)\<lparr>isset_name := True\<rparr>\<rparr>))
         else skip_field P ftype s)
      else if fid = 3 then
        (if ftype = T_I16
         then xbind (readI16 P) (\<lambda>v. xret (s\<lparr>st_age := v, st_isset := (st_isset s)\<lparr>isset_age := True\<rparr>\<rparr>))
         else skip_field P ftype s)
      else skip_field P ftype s)"

definition Student_read :: "'p protocol \<Rightarrow> Student \<Rightarrow> ('p, Student) xfer" where
  "Student_read P s = read_struct P (Student_field P) s"

definition Student_write :: "'p protocol \<Rightarrow> Student \<Rightarrow> ('p, unit) xfer" where
  "Student_write P s = xall
     [writeStructBegin P ''Student'',
      writeFieldBegin P ''no'' T_STRING 1, writeString P (st_no s), writeFieldEnd P,
      writeFieldBegin P ''name'' T_STRING 2, writeString P (st_name s), writeFieldEnd P,
      writeFieldBegin P ''age'' T_I16 3, writeI16 P (st_age s), writeFieldEnd P,
      writeFieldStop P, writeStructEnd P]"

section \<open>Arguments and results\<close>

record Serv_QueryByNo_args =
  args_no :: string
  args_isset_no :: bool

definition Serv_QueryByNo_args_new :: Serv_QueryByNo_args where
  "Serv_QueryByNo_args_new = \<lparr>args_no = [], args_isset_no = False\<rparr>"

definition args_eq :: "Serv_QueryByNo_args \<Rightarrow> Serv_QueryByNo_args \<Rightarrow> bool" where
  "args_eq a b = (if args_no a \<noteq> args_no b then False else True)"

definition args_field :: "'p protocol \<Rightarrow> ttype \<Rightarrow> u16 \<Rightarrow> Serv_QueryByNo_args \<Rightarrow> ('p, Serv_QueryByNo_args) xfer" where
  "args_field P ftype fid a =
     (if fid = 1 then
        (if ftype = T_STRING
         then xbind (readString P) (\<lambda>v. xret (a\<lparr>args_no := v, args_isset_no := True\<rparr>))
         else skip_field P ftype a)
      else skip_field P ftype a)"

definition args_read :: "'p protocol \<Rightarrow> Serv_QueryByNo_args \<Rightarrow> ('p, Serv_QueryByNo_args) xfer" where
  "args_read P a = read_struct P (args_field P) a"

definition args_write :: "'p protocol \<Rightarrow> Serv_QueryByNo_args \<Rightarrow> ('p, unit) xfer" where
  "args_write P a = xall
     [writeStructBegin P ''Serv_QueryByNo_args'',
      writeFieldBegin P ''no'' T_STRING 1, writeString P (args_no a), writeFieldEnd P,
      writeFieldStop P, writeStructEnd P]"

definition pargs_write :: "'p protocol \<Rightarrow> string \<Rightarrow> ('p, unit) xfer" where
  \<comment> \<open>\<open>pargs\<close> only points to the argument\<close>
  "pargs_write P no = xall
     [writeStructBegin P ''Serv_QueryByNo_pargs'',
      writeFieldBegin P ''no'' T_STRING 1, writeString P no, writeFieldEnd P,
      writeFieldStop P, writeStructEnd P]"

record Serv_QueryByNo_result =
  res_success :: Student
  res_isset_success :: bool

definition Serv_QueryByNo_result_new :: Serv_QueryByNo_result where
  "Serv_QueryByNo_result_new = \<lparr>res_success = Student_new, res_isset_success = False\<rparr>"

definition result_eq :: "Serv_QueryByNo_result \<Rightarrow> Serv_QueryByNo_result \<Rightarrow> bool" where
  "result_eq a b = (if \<not> Student_eq (res_success a) (res_success b) then False else True)"

definition result_field ::
  "'p protocol \<Rightarrow> ttype \<Rightarrow> u16 \<Rightarrow> Serv_QueryByNo_result \<Rightarrow> ('p, Serv_QueryByNo_result) xfer" where
  "result_field P ftype fid r =
     (if fid = 0 then
        (if ftype = T_STRUCT
         then xbind (Student_read P (res_success r)) (\<lambda>s. xret (r\<lparr>res_success := s, res_isset_success := True\<rparr>))
         else skip_field P ftype r)
      else skip_field P ftype r)"

definition result_read :: "'p protocol \<Rightarrow> Serv_QueryByNo_result \<Rightarrow> ('p, Serv_QueryByNo_result) xfer" where
  "result_read P r = read_struct P (result_field P) r"

definition result_write :: "'p protocol \<Rightarrow> Serv_QueryByNo_result \<Rightarrow> ('p, unit) xfer" where
  "result_write P r = xall
     ([writeStructBegin P ''Serv_QueryByNo_result'']
      @ (if res_isset_success r
         then [writeFieldBegin P ''success'' T_STRUCT 0, Student_write P (res_success r), writeFieldEnd P] else [])
      @ [writeFieldStop P, writeStructEnd P])"

definition presult_read :: "'p protocol \<Rightarrow> Serv_QueryByNo_result \<Rightarrow> ('p, Serv_QueryByNo_result) xfer" where
  \<comment> \<open>\<open>presult\<close> points to the student it fills; the record holds what it points to\<close>
  "presult_read P r = read_struct P (result_field P) r"

end
