(* ===== verification/ThriftServ.thy ===== *)
theory ThriftServ
  imports ThriftGen
begin

text \<open>
  The generated client and processor of the service \<open>Serv\<close> (Serv.h and Serv.cpp). The implementation
  of the service is the user's and a parameter; so is the event handler of the processor, whose
  calls are recorded. Wiring with shared pointers (the factories) is not modelled.
\<close>

section \<open>The client\<close>

definition send_QueryByNo :: "'p protocol \<Rightarrow> string \<Rightarrow> ('p, unit) xfer" where
  "send_QueryByNo P no =
     xthen (writeMessageBegin P ''QueryByNo'' T_CALL 0)
    (xthen (pargs_write P no)
    (xthen (writeMessageEnd P)
    (xthen (transport_writeEnd P)
           (transport_flush P))))"

definition end_message :: "'p protocol \<Rightarrow> ('p, u32) xfer" where
  "end_message P = xthen (readMessageEnd P) (transport_readEnd P)"

definition drop_message :: "'p protocol \<Rightarrow> ('p, unit) xfer" where
  "drop_message P = xthen (skip P T_STRUCT) (xthen (end_message P) (xret ()))"

definition MISSING_RESULT :: u32 where "MISSING_RESULT = 5"
definition UNKNOWN_METHOD :: u32 where "UNKNOWN_METHOD = 1"
definition UNKNOWN :: u32 where "UNKNOWN = 0"

definition recv_QueryByNo :: "'p protocol \<Rightarrow> Student \<Rightarrow> ('p, Student) xfer" where
  \<comment> \<open>a message that is no reply, or one of another name, is skipped, and the result is read all the same\<close>
  "recv_QueryByNo P ret =
     xbind (readMessageBegin P) (\<lambda>(fname, mtype, rseqid).
       if mtype = T_EXCEPTION
       then xbind (exception_read P) (\<lambda>(t, what). xthen (end_message P) (xthrow (TApplicationException t what)))
       else xthen (if mtype \<noteq> T_REPLY then drop_message P else xret ())
           (xthen (if fname \<noteq> ''QueryByNo'' then drop_message P else xret ())
           (xbind (presult_read P \<lparr>res_success = ret, res_isset_success = False\<rparr>) (\<lambda>result.
            xthen (end_message P)
              (if res_isset_success result then xret (res_success result)
               else xthrow (TApplicationException MISSING_RESULT ''QueryByNo failed: unknown result''))))))"

text \<open>\<open>ServClient\<close> on two protocols, the input and the output protocol.\<close>

definition client_QueryByNo ::
  "'p protocol \<Rightarrow> Student \<Rightarrow> string \<Rightarrow> 'p \<times> 'p \<Rightarrow> (texn + Student \<times> ('p \<times> 'p)) option" where
  "client_QueryByNo P ret no ps =
     Option.bind (send_QueryByNo P no (snd ps)) (\<lambda>r. case r of
        Inl e \<Rightarrow> Some (Inl e)
      | Inr (_, _, op) \<Rightarrow> Option.bind (recv_QueryByNo P ret (fst ps)) (\<lambda>r. case r of
          Inl e \<Rightarrow> Some (Inl e)
        | Inr (s, _, ip) \<Rightarrow> Some (Inr (s, ip, op))))"

section \<open>The processor\<close>

datatype serv_answer =
    Returns Student
  | Throws string \<comment> \<open>a \<open>std::exception\<close> with this text\<close>
  | Throws_other

type_synonym serv_if = "Student \<Rightarrow> string \<Rightarrow> serv_answer"

definition serv_null :: serv_if where
  "serv_null ret no = Returns ret"

fun multiface_QueryByNo :: "serv_if list \<Rightarrow> Student \<Rightarrow> string \<Rightarrow> serv_answer option" where
  \<comment> \<open>\<open>None\<close>: without an interface \<open>sz - 1\<close> wraps and the loop indexes an empty vector\<close>
  "multiface_QueryByNo [] ret no = None"
| "multiface_QueryByNo [f] ret no = Some (f ret no)"
| "multiface_QueryByNo (f # fs) ret no =
     (case f ret no of Returns ret1 \<Rightarrow> multiface_QueryByNo fs ret1 no | a \<Rightarrow> Some a)"

datatype processor_event =
  GetContext | PreRead | PostRead u32 | HandlerError | PreWrite | PostWrite u32

record 'p processor =
  proc_in :: 'p
  proc_out :: 'p
  proc_handler :: bool \<comment> \<open>an event handler is set\<close>
  proc_events :: "processor_event list"

definition on_in :: "('p, 'a) xfer \<Rightarrow> ('p processor, 'a) xfer" where
  "on_in f s = map_option (map_sum id (\<lambda>(a, n, p). (a, n, s\<lparr>proc_in := p\<rparr>))) (f (proc_in s))"

definition on_out :: "('p, 'a) xfer \<Rightarrow> ('p processor, 'a) xfer" where
  "on_out f s = map_option (map_sum id (\<lambda>(a, n, p). (a, n, s\<lparr>proc_out := p\<rparr>))) (f (proc_out s))"

definition notify :: "processor_event list \<Rightarrow> ('p processor, unit) xfer" where
  "notify es s = xret () (if proc_handler s then s\<lparr>proc_events := proc_events s @ es\<rparr> else s)"

definition finish_reply :: "'p protocol \<Rightarrow> ('p, u32) xfer" where
  \<comment> \<open>the value is the number of bytes that \<open>writeEnd\<close> returns\<close>
  "finish_reply P = xthen (writeMessageEnd P) (xbind (transport_writeEnd P) (\<lambda>n. xthen (transport_flush P) (xret n)))"

definition write_exception :: "'p protocol \<Rightarrow> string \<Rightarrow> u32 \<Rightarrow> u32 \<Rightarrow> string \<Rightarrow> ('p, unit) xfer" where
  "write_exception P fname sq t what =
     xthen (writeMessageBegin P fname T_EXCEPTION sq)
    (xthen (exception_write P t what)
    (xthen (finish_reply P) (xret ())))"

definition answer_QueryByNo :: "'p protocol \<Rightarrow> u32 \<Rightarrow> serv_answer \<Rightarrow> ('p processor, unit) xfer" where
  \<comment> \<open>what follows the call of the implementation\<close>
  "answer_QueryByNo P sq answer =
     (case answer of
        Throws_other \<Rightarrow> xthrow foreign_exception
      | Throws what \<Rightarrow>
          xthen (notify [HandlerError]) (on_out (write_exception P ''QueryByNo'' sq UNKNOWN what))
      | Returns s \<Rightarrow>
          xthen (notify [PreWrite])
         (xthen (on_out (writeMessageBegin P ''QueryByNo'' T_REPLY sq))
         (xthen (on_out (result_write P \<lparr>res_success = s, res_isset_success = True\<rparr>))
         (xbind (on_out (finish_reply P)) (\<lambda>bytes.
          notify [PostWrite bytes])))))"

definition process_QueryByNo :: "'p protocol \<Rightarrow> serv_if \<Rightarrow> u32 \<Rightarrow> ('p processor, unit) xfer" where
  "process_QueryByNo P iface sq =
     xthen (notify [GetContext, PreRead])
    (xbind (on_in (args_read P Serv_QueryByNo_args_new)) (\<lambda>args.
     xbind (on_in (end_message P)) (\<lambda>bytes.
     xthen (notify [PostRead bytes])
           (answer_QueryByNo P sq (iface (res_success Serv_QueryByNo_result_new) (args_no args))))))"

definition dispatchCall :: "'p protocol \<Rightarrow> serv_if \<Rightarrow> string \<Rightarrow> u32 \<Rightarrow> ('p processor, bool) xfer" where
  "dispatchCall P iface fname sq =
     (if fname \<noteq> ''QueryByNo'' then
        xthen (on_in (drop_message P))
       (xthen (on_out (write_exception P fname sq UNKNOWN_METHOD (''Invalid method name: '' @ [CHR 0x27] @ fname @ [CHR 0x27])))
              (xret True))
      else xthen (process_QueryByNo P iface sq) (xret True))"

end
