(* ===== verification/ExampleThrift.thy ===== *)
theory ExampleThrift
  imports NetHolder ThriftServ XmlConfig
begin

text \<open>
  The Thrift example (example_thrift/business/businesshandle.cc and .h, example_thrift/main/main.cc): a
  server that answers every call of \<open>QueryByNo\<close> with the same student, as a handler on the network
  threads. What a handler asks of its thread is a list of actions; logging is left out.
\<close>

section \<open>What a handler does\<close>

datatype handler_action =
    SvcDoSendBack u32 net_msg
  | SvcDoConnect string string bool int bool
  | SvcDoSendTo string net_msg int
  | SvcOnConnect string string bool int bool \<comment> \<open>posted to the thread\<close>
  | SvcOnSendTo string net_msg int
  | DeleteEvent handler_event

text \<open>The default arguments of \<open>CNetService\<close>.\<close>

definition DEFAULT_AUTORECONNECT :: bool where "DEFAULT_AUTORECONNECT = False"
definition DEFAULT_HEARTBEAT :: int where "DEFAULT_HEARTBEAT = 0"
definition DEFAULT_ADDR_REUSE :: bool where "DEFAULT_ADDR_REUSE = True"
definition DEFAULT_TIMEOUT :: int where "DEFAULT_TIMEOUT = 30"

fun run_action :: "net_env \<Rightarrow> u32 \<Rightarrow> nat \<Rightarrow> handler_action \<Rightarrow> net_thread \<Rightarrow> net_thread option" where
  \<comment> \<open>the thread carries an action out; a posted one runs when its turn comes\<close>
  "run_action env port0 na (SvcDoSendBack i m) t = nt_DoSendBack env i m t"
| "run_action env port0 na (SvcDoConnect name addr ar hb reuse) t = map_option snd (nt_DoConnect env port0 na name addr ar hb reuse t)"
| "run_action env port0 na (SvcDoSendTo name m timeout) t = nt_DoSendTo env name m timeout t"
| "run_action env port0 na (SvcOnConnect name addr ar hb reuse) t = map_option snd (nt_DoConnect env port0 na name addr ar hb reuse t)"
| "run_action env port0 na (SvcOnSendTo name m timeout) t = nt_DoSendTo env name m timeout t"
| "run_action env port0 na (DeleteEvent e) t = Some t"

fun run_actions :: "net_env \<Rightarrow> u32 \<Rightarrow> nat \<Rightarrow> handler_action list \<Rightarrow> net_thread \<Rightarrow> net_thread option" where
  "run_actions env port0 na [] t = Some t"
| "run_actions env port0 na (a # as) t = Option.bind (run_action env port0 na a t) (run_actions env port0 na as)"

section \<open>The handler\<close>

record thrift_handle =
  th_threadid :: int
  th_service :: bool \<comment> \<open>whether \<open>service_\<close> is set; the constructor leaves it as it is\<close>

definition thrift_handle_new :: thrift_handle where
  "thrift_handle_new = \<lparr>th_threadid = 0, th_service = False\<rparr>"

definition th_StartInThread :: "int \<Rightarrow> thrift_handle \<Rightarrow> thrift_handle" where
  "th_StartInThread threadid h = h\<lparr>th_threadid := threadid, th_service := True\<rparr>"

definition th_result :: Serv_QueryByNo_result where
  "th_result =
     \<lparr>res_success = Student_new\<lparr>st_no := ''0743111245'', st_name := ''test_student_xiaozhai'', st_age := 24\<rparr>,
      res_isset_success = True\<rparr>"

definition th_DealThriftRequest ::
  "'p protocol \<Rightarrow> nat \<Rightarrow> sthrift_message \<Rightarrow> thrift_handle \<Rightarrow> (texn + handler_action list) option" where
  \<comment> \<open>nothing catches what the library throws; \<open>na\<close> is the address of the new message\<close>
  "th_DealThriftRequest P na message h =
     Option.bind (args_read P Serv_QueryByNo_args_new (memory_buffer P (thrift_body message))) (\<lambda>r. case r of
         Inl e \<Rightarrow> Some (Inl e)
       | Inr _ \<Rightarrow> Option.bind (result_write P th_result (memory_empty P 10240)) (\<lambda>w. case w of
             Inl e \<Rightarrow> Some (Inl e)
           | Inr (_, _, buf) \<Rightarrow> do {
               defined_if (th_service h);
               Some (Inr [SvcDoSendBack (ev_connid message)
                 (ThriftMsg (SetReply 0 ((sthrift_message_new na)\<lparr>thrift_method := ''QueryByNo'', seqid := seqid message,
                                            thrift_body := getBufferAsString P buf\<rparr>)))])
             }))"

definition th_OnEvent ::
  "'p protocol \<Rightarrow> nat \<Rightarrow> handler_event \<Rightarrow> thrift_handle \<Rightarrow> (texn + handler_action list) option" where
  "th_OnEvent P na e h =
     (case e of
        HMessage (ThriftMsg msg) \<Rightarrow>
          if \<not> IsReply msg
          then map_option (map_sum id (\<lambda>as. as @ [DeleteEvent e])) (th_DealThriftRequest P na msg h)
          else Some (Inr [DeleteEvent e])
      | _ \<Rightarrow> Some (Inr [DeleteEvent e]))"

section \<open>The program\<close>

text \<open>
  \<open>answers\<close> gives for each address what the system answers to the calls of \<open>CTcpSocketServer\<close>. The signal
  masks have no part in the model.
\<close>

type_synonym system_answers = "string \<Rightarrow> listen_answers \<times> u32 \<times> nat"

definition with_answers :: "system_answers \<Rightarrow> string list \<Rightarrow> (listen_answers \<times> u32 \<times> nat \<times> string) list" where
  "with_answers answers addrs = map (\<lambda>a. let (la, port0, na) = answers a in (la, port0, na, a)) addrs"

definition configfile :: string where "configfile = ''./conf/config.xml''"

definition start_business ::
  "net_env \<Rightarrow> clock \<Rightarrow> system_answers \<Rightarrow> (string \<Rightarrow> file_data) \<Rightarrow> (int \<times> xml_config \<times> net_holder) option" where
  \<comment> \<open>the first part of \<open>run\<close>, which both examples have: the code is \<open>-1\<close> where \<open>run\<close> returns it\<close>
  "start_business env clk answers files = do {
     (ret, parser) \<leftarrow> cfg_ParseFile configfile files xml_config_new;
     (if ret \<noteq> 0 then Some (- 1, parser, net_holder_new)
      else do {
        addrs \<leftarrow> GetParameters ''server/addr'' parser;
        n \<leftarrow> GetParameter_int ''netthread'' 3 parser;
        holder \<leftarrow> nh_Start clk n net_holder_new;
        (ret1, holder1) \<leftarrow> nh_StartServer env (with_answers answers addrs) holder;
        Some (if ret1 \<noteq> 0 then - 1 else 0, parser, holder1)
      })
   }"

fun thrift_commands :: "char list \<Rightarrow> net_holder \<Rightarrow> net_holder option" where
  \<comment> \<open>the characters of the standard input; at its end \<open>getchar\<close> returns EOF for ever, which is no \<open>0\<close>\<close>
  "thrift_commands [] h = None"
| "thrift_commands (c # cs) h =
     (if c = NUL then Some h else if c = CHR ''q'' then nh_Stop h else thrift_commands cs h)"

datatype run_end = Returns_code int | Runs_off_the_end net_holder

definition thrift_run ::
  "net_env \<Rightarrow> clock \<Rightarrow> system_answers \<Rightarrow> (string \<Rightarrow> file_data) \<Rightarrow> char list \<Rightarrow> run_end option" where
  \<comment> \<open>after the command loop there is no return statement\<close>
  "thrift_run env clk answers files input = do {
     (ret, parser, holder) \<leftarrow> start_business env clk answers files;
     (if ret \<noteq> 0 then Some (Returns_code ret) else map_option Runs_off_the_end (thrift_commands input holder))
   }"

definition process_arg :: "char option \<Rightarrow> bool" where
  \<comment> \<open>the first option that \<open>getopt\<close> finds, if any\<close>
  "process_arg opt = (case opt of Some c \<Rightarrow> c \<noteq> CHR ''v'' | None \<Rightarrow> True)"

definition thrift_main ::
  "net_env \<Rightarrow> clock \<Rightarrow> system_answers \<Rightarrow> (string \<Rightarrow> file_data) \<Rightarrow> char list \<Rightarrow> char option \<Rightarrow> int option" where
  "thrift_main env clk answers files input opt =
     (if \<not> process_arg opt then Some 0 else map_option (\<lambda>_. 0) (thrift_run env clk answers files input))"

end
