(* ===== verification/ExampleHttp.thy ===== *)
theory ExampleHttp
  imports ExampleThrift
begin

text \<open>
  The HTTP example: its handler (example_http/business/businesshandle.cc and .h) passes a request for
  \<open>/testthrift\<close> on to the Thrift example and turns the answer into an HTTP response; its maintenance
  server (example_http/coh/cohthread.cc and .h) answers commands and reports to a monitor; main.cc
  starts both.
\<close>

section \<open>The business handler\<close>

text \<open>
  A Thrift request that is under way carries a pointer to an \<open>SThriftContext\<close>, which holds the HTTP
  request. \<open>hh_contexts\<close> are the live contexts by their addresses.
\<close>

record http_handle =
  hh_threadid :: int
  hh_service :: bool
  hh_smseqid :: u32
  hh_contexts :: "(nat \<times> shttp_message) list"

definition http_handle_new :: http_handle where
  "http_handle_new = \<lparr>hh_threadid = 0, hh_service = False, hh_smseqid = 0, hh_contexts = []\<rparr>"

definition hh_StartInThread :: "int \<Rightarrow> http_handle \<Rightarrow> http_handle" where
  "hh_StartInThread threadid h = h\<lparr>hh_threadid := threadid, hh_service := True\<rparr>"

definition DoSendHttpResponse ::
  "nat \<Rightarrow> shttp_message \<Rightarrow> int \<Rightarrow> string \<Rightarrow> http_handle \<Rightarrow> handler_action list option" where
  "DoSendHttpResponse na request c body h = do {
     defined_if (hh_service h);
     Some [SvcDoSendBack (ev_connid request)
             (HttpMsg ((SetReply c (shttp_message_new na))\<lparr>requestno := requestno request, keepalive := keepalive request,
                         httpversion := httpversion request, http_body := body\<rparr>)),
           DeleteEvent (HMessage (HttpMsg request))]
   }"

definition quoted :: "string \<Rightarrow> string" where
  "quoted s = [CHR 0x22] @ s @ [CHR 0x22]"

definition student_json :: "Student \<Rightarrow> string" where
  "student_json stu = snprintf_cut 1023
     (''{'' @ quoted ''return_code'' @ '':0, '' @ quoted ''return_message'' @ '':'' @ quoted ''success'' @ '',''
        @ quoted ''data'' @ '':{'' @ quoted ''no'' @ '':'' @ quoted (c_str (st_no stu)) @ '',''
        @ quoted ''name'' @ '':'' @ quoted (c_str (st_name stu)) @ '','' @ quoted ''age'' @ '':''
        @ quoted (fmt_d (sint (st_age stu))) @ ''}}'')"

definition plain_json :: string where
  "plain_json = ''{'' @ quoted ''return_code'' @ '':0, '' @ quoted ''return_message'' @ '':'' @ quoted ''success'' @ ''}''"

definition TEST_ADDR :: string where "TEST_ADDR = ''thrift://127.0.0.1:10012''"

definition hh_DealThriftResponse ::
  "'p protocol \<Rightarrow> nat \<Rightarrow> sthrift_message \<Rightarrow> http_handle \<Rightarrow> (texn + handler_action list \<times> http_handle) option" where
  \<comment> \<open>the context pointer is followed without a test; the context is deleted at the end\<close>
  "hh_DealThriftResponse P na message h =
     Option.bind (result_read P Serv_QueryByNo_result_new (memory_buffer P (thrift_body message))) (\<lambda>r. case r of
         Inl e \<Rightarrow> Some (Inl e)
       | Inr (result, _, _) \<Rightarrow> do {
           a \<leftarrow> ctx message;
           request \<leftarrow> map_of (hh_contexts h) a;
           as \<leftarrow> DoSendHttpResponse na request 200 (student_json (res_success result)) h;
           Some (Inr (as, h\<lparr>hh_contexts := AList.delete a (hh_contexts h)\<rparr>))
         })"

definition DoTestThriftRequest ::
  "'p protocol \<Rightarrow> nat \<Rightarrow> nat \<Rightarrow> shttp_message \<Rightarrow> http_handle \<Rightarrow> (texn + handler_action list \<times> http_handle) option" where
  \<comment> \<open>\<open>na\<close> and \<open>nc\<close> are the addresses of the new message and the new context\<close>
  "DoTestThriftRequest P na nc message h =
     Option.bind (args_write P (Serv_QueryByNo_args_new\<lparr>args_no := ''0743111245''\<rparr>) (memory_empty P 1024)) (\<lambda>w. case w of
         Inl e \<Rightarrow> Some (Inl e)
       | Inr (_, _, buf) \<Rightarrow> do {
           defined_if (hh_service h);
           Some (Inr
             ([SvcDoConnect TEST_ADDR TEST_ADDR True 5000 DEFAULT_ADDR_REUSE,
               SvcDoSendTo TEST_ADDR
                 (ThriftMsg ((sthrift_message_new na)\<lparr>thrift_method := ''QueryByNo'', seqid := hh_smseqid h,
                               thrift_body := getBufferAsString P buf, ctx := Some nc\<rparr>)) DEFAULT_TIMEOUT],
              h\<lparr>hh_smseqid := hh_smseqid h + 1, hh_contexts := AList.update nc message (hh_contexts h)\<rparr>))
         })"

definition hh_DealHttpRequest ::
  "'p protocol \<Rightarrow> nat \<Rightarrow> nat \<Rightarrow> shttp_message \<Rightarrow> http_handle \<Rightarrow> (texn + handler_action list \<times> http_handle) option" where
  "hh_DealHttpRequest P na nc message h =
     (if url message = ''/testthrift'' then DoTestThriftRequest P na nc message h
      else map_option (\<lambda>as. Inr (as, h)) (DoSendHttpResponse na message 200 plain_json h))"

definition hh_OnEvent ::
  "'p protocol \<Rightarrow> nat \<Rightarrow> nat \<Rightarrow> handler_event \<Rightarrow> http_handle \<Rightarrow> (texn + handler_action list \<times> http_handle) option" where
  \<comment> \<open>an HTTP request is deleted with its response, an HTTP reply never\<close>
  "hh_OnEvent P na nc e h =
     (case e of
        HMessage (HttpMsg msg) \<Rightarrow>
          if \<not> IsReply msg then hh_DealHttpRequest P na nc msg h else Some (Inr ([], h))
      | HMessage (ThriftMsg msg) \<Rightarrow>
          if IsReply msg
          then map_option (map_sum id (\<lambda>(as, h1). (as @ [DeleteEvent e], h1))) (hh_DealThriftResponse P na msg h)
          else Some (Inr ([DeleteEvent e], h))
      | _ \<Rightarrow> Some (Inr ([DeleteEvent e], h)))"

section \<open>The maintenance server\<close>

record url_info =
  ui_addr :: string
  ui_name :: string
  ui_path :: string

definition ParseUrl :: "string \<Rightarrow> url_info option" where
  \<comment> \<open>the host has an array of 128 bytes and no width, the path 256 bytes and a width of 256\<close>
  "ParseUrl u =
     (let a = c_str u;
          r = dropWhile (\<lambda>c. c \<in> set ''HTTPhttp'') a;
          host = takeWhile (\<lambda>c. c \<noteq> CHR ''/'') (drop 3 r);
          path = take 256 (takeWhile (\<lambda>c. \<not> c_isspace c) (dropWhile c_isspace (drop (3 + length host) r)));
          matched = (r \<noteq> a \<and> take 3 r = ''://'')
      in do {
        defined_if (\<not> matched \<or> length host < 128 \<and> (host = [] \<or> length path < 256));
        let szhost = (if matched then host else []);
        let szpath = (if matched \<and> host \<noteq> [] then path else []);
        Some \<lparr>ui_addr = ''http://'' @ szhost, ui_name = ''monitor_'' @ szhost, ui_path = szpath\<rparr>
      })"

datatype coh_func = FUNC_HELP

record coh_thread =
  coh_service :: bool
  coh_holder :: net_holder
  coh_cmds :: "(string \<times> coh_func \<times> string) list" \<comment> \<open>sorted by the command, as \<open>std::map\<close> is\<close>
  coh_error_url :: url_info
  coh_action_url :: url_info

definition coh_thread_new :: coh_thread where
  "coh_thread_new =
     \<lparr>coh_service = False, coh_holder = net_holder_new, coh_cmds = [(''/help'', FUNC_HELP, ''Get Cmd List'')],
      coh_error_url = \<lparr>ui_addr = [], ui_name = [], ui_path = []\<rparr>,
      coh_action_url = \<lparr>ui_addr = [], ui_name = [], ui_path = []\<rparr>\<rparr>"

definition coh_StartServer ::
  "net_env \<Rightarrow> clock \<Rightarrow> system_answers \<Rightarrow> string \<Rightarrow> coh_thread \<Rightarrow> (int \<times> coh_thread) option" where
  "coh_StartServer env clk answers addr c = do {
     holder \<leftarrow> nh_Start clk 0 (coh_holder c);
     (ret, holder1) \<leftarrow> nh_StartServer env (with_answers answers [addr]) holder;
     Some (ret, c\<lparr>coh_holder := holder1\<rparr>)
   }"

definition coh_Stop :: "coh_thread \<Rightarrow> coh_thread option" where
  "coh_Stop c = map_option (\<lambda>h. c\<lparr>coh_holder := h\<rparr>) (nh_Stop (coh_holder c))"

definition InitUrl :: "string \<Rightarrow> string \<Rightarrow> coh_thread \<Rightarrow> coh_thread option" where
  "InitUrl errorurl actionurl c = do {
     e \<leftarrow> ParseUrl errorurl;
     a \<leftarrow> ParseUrl actionurl;
     Some (c\<lparr>coh_error_url := e, coh_action_url := a\<rparr>)
   }"

definition coh_StartInThread :: "coh_thread \<Rightarrow> coh_thread" where
  "coh_StartInThread c = c\<lparr>coh_service := True\<rparr>"

definition report_message :: "nat \<Rightarrow> string \<Rightarrow> string \<Rightarrow> shttp_message" where
  "report_message na path info =
     (shttp_message_new na)\<lparr>httpversion := HTTP_1_0, http_method := ''POST'', url := path, keepalive := False,
        http_body := info\<rparr>"

definition OnErrorReport :: "nat \<Rightarrow> string \<Rightarrow> coh_thread \<Rightarrow> handler_action list" where
  "OnErrorReport na info c =
     (let u = coh_error_url c in
      if coh_service c
      then [SvcOnConnect (ui_name u) (ui_addr u) True 5000 DEFAULT_ADDR_REUSE,
            SvcOnSendTo (ui_name u) (HttpMsg (report_message na (ui_path u) info)) DEFAULT_TIMEOUT]
      else [])"

definition OnActionReport :: "nat \<Rightarrow> string \<Rightarrow> coh_thread \<Rightarrow> handler_action list" where
  "OnActionReport na info c =
     (let u = coh_action_url c in
      if coh_service c
      then [SvcOnConnect (ui_name u) (ui_addr u) DEFAULT_AUTORECONNECT DEFAULT_HEARTBEAT DEFAULT_ADDR_REUSE,
            SvcOnSendTo (ui_name u) (HttpMsg (report_message na (ui_path u) info)) DEFAULT_TIMEOUT]
      else [])"

definition DoHelpInfo :: "coh_thread \<Rightarrow> string" where
  "DoHelpInfo c =
     ''<html><head><title>Help</title></head><body><table border='' @ [CHR 0x27] @ ''1'' @ [CHR 0x27]
       @ '' align='' @ [CHR 0x27] @ ''center'' @ [CHR 0x27] @ ''>''
     @ ''<tr><td>command</td><td>description</td></tr>''
     @ concat (map (\<lambda>(cmd, f, desc). ''<tr><td>'' @ cmd @ ''</td><td>'' @ desc @ ''</td></tr>'') (coh_cmds c))
     @ ''</table></body></html>''"

fun run_cmd :: "coh_func \<Rightarrow> coh_thread \<Rightarrow> string" where
  "run_cmd FUNC_HELP c = DoHelpInfo c"

definition DealCohCmd :: "nat \<Rightarrow> shttp_message \<Rightarrow> coh_thread \<Rightarrow> (shttp_message \<times> handler_action) option" where
  \<comment> \<open>the request with its URL in lower case, and the answer\<close>
  "DealCohCmd na message c =
     (let message1 = message\<lparr>url := map c_tolower (url message)\<rparr>;
          body = (case map_of (coh_cmds c) (url message1) of
                    Some (f, desc) \<Rightarrow> run_cmd f c
                  | None \<Rightarrow> ''Bad Command; Try /Help'')
      in do {
        defined_if (coh_service c);
        Some (message1, SvcDoSendBack (ev_connid message1)
          (HttpMsg ((SetReply 200 (shttp_message_new na))\<lparr>http_body := body, requestno := requestno message1,
             keepalive := keepalive message1, httpversion := httpversion message1\<rparr>)))
      })"

definition coh_OnEvent :: "nat \<Rightarrow> handler_event \<Rightarrow> coh_thread \<Rightarrow> handler_action list option" where
  \<comment> \<open>the source names the direction \<open>type\<close>, a member that the messages do not have\<close>
  "coh_OnEvent na e c =
     (case e of
        HMessage (HttpMsg msg) \<Rightarrow>
          if direction msg = E_Request
          then map_option (\<lambda>(msg1, a). [a, DeleteEvent (HMessage (HttpMsg msg1))]) (DealCohCmd na msg c)
          else Some [DeleteEvent e]
      | _ \<Rightarrow> Some [DeleteEvent e])"

section \<open>The program\<close>

fun http_commands ::
  "nat \<Rightarrow> char list \<Rightarrow> net_holder \<times> coh_thread \<Rightarrow> (handler_action list \<times> net_holder \<times> coh_thread) option" where
  \<comment> \<open>with the reports that the character \<open>t\<close> asks for\<close>
  "http_commands na [] (h, c) = None"
| "http_commands na (ch # chs) (h, c) =
     (if ch = NUL then Some ([], h, c)
      else if ch = CHR ''q'' then do {
        h1 \<leftarrow> nh_Stop h;
        c1 \<leftarrow> coh_Stop c;
        Some ([], h1, c1)
      }
      else if ch = CHR ''t''
      then map_option (\<lambda>(as, hc). (OnErrorReport na ''error=message&ip=127.0.0.1'' c @ as, hc)) (http_commands (na + 1) chs (h, c))
      else http_commands na chs (h, c))"

definition http_run ::
  "net_env \<Rightarrow> clock \<Rightarrow> system_answers \<Rightarrow> (string \<Rightarrow> file_data) \<Rightarrow> char list
     \<Rightarrow> (int + handler_action list \<times> net_holder \<times> coh_thread) option" where
  \<comment> \<open>\<open>Inl\<close>: the code \<open>run\<close> returns; \<open>Inr\<close>: it runs off its end. The threads have called \<open>StartInThread\<close>
      when the first command comes.\<close>
  "http_run env clk answers files input = do {
     (ret, parser, holder) \<leftarrow> start_business env clk answers files;
     (if ret \<noteq> 0 then Some (Inl ret)
      else do {
        addr \<leftarrow> GetParameter_string ''cohserver'' ''http://0.0.0.0:9080'' parser;
        (ret1, c) \<leftarrow> coh_StartServer env clk answers addr coh_thread_new;
        (if ret1 \<noteq> 0 then Some (Inl (- 1))
         else do {
           c1 \<leftarrow> InitUrl ''http://192.168.0.176:8008/errorreport.html'' ''http://192.168.0.176:8008/actionreport.html'' c;
           map_option Inr (http_commands 0 input (holder, coh_StartInThread c1))
         })
      })
   }"

end
