(* ===== verification/ThriftServProps.thy ===== *)
theory ThriftServProps
  imports ThriftServ
begin

text \<open>
  What the generated code does over a protocol that reads back what was written to it. The contract
  of the library is a named hypothesis: \<open>lawful P holds\<close>, where \<open>holds p ts\<close> says that the unread bytes of
  the state \<open>p\<close> are the encoding of the tokens \<open>ts\<close>. A write may throw; if it returns, its tokens are
  behind the others.
\<close>

section \<open>The contract of the library\<close>

datatype token =
    KMessage string tmessage_type u32
  | KField ttype u16
  | KStop
  | KString string
  | KI16 u16
  | KException u32 string

definition write_law :: "('p \<Rightarrow> token list \<Rightarrow> bool) \<Rightarrow> ('p, 'a) xfer \<Rightarrow> token list \<Rightarrow> bool" where
  "write_law holds f ks =
     (\<forall>p ts v n p'. holds p ts \<longrightarrow> f p = Some (Inr (v, n, p')) \<longrightarrow> holds p' (ts @ ks))"

definition read_law :: "('p \<Rightarrow> token list \<Rightarrow> bool) \<Rightarrow> ('p, 'a) xfer \<Rightarrow> token list \<Rightarrow> 'a \<Rightarrow> bool" where
  "read_law holds f ks v =
     (\<forall>p ts. holds p (ks @ ts) \<longrightarrow> (\<exists>n p'. f p = Some (Inr (v, n, p')) \<and> holds p' ts))"

definition data_type :: "ttype \<Rightarrow> bool" where
  "data_type t = (t = T_I16 \<or> t = T_STRING \<or> t = T_STRUCT)"

definition lawful_write :: "'p protocol \<Rightarrow> ('p \<Rightarrow> token list \<Rightarrow> bool) \<Rightarrow> bool" where
  "lawful_write P holds =
     ((\<forall>name t k. write_law holds (writeMessageBegin P name t k) [KMessage name t k])
      \<and> write_law holds (writeMessageEnd P) []
      \<and> (\<forall>name. write_law holds (writeStructBegin P name) [])
      \<and> write_law holds (writeStructEnd P) []
      \<and> (\<forall>name t f. data_type t \<longrightarrow> write_law holds (writeFieldBegin P name t f) [KField t f])
      \<and> write_law holds (writeFieldEnd P) []
      \<and> write_law holds (writeFieldStop P) [KStop]
      \<and> (\<forall>s. write_law holds (writeString P s) [KString s])
      \<and> (\<forall>w. write_law holds (writeI16 P w) [KI16 w])
      \<and> (\<forall>t s. write_law holds (exception_write P t s) [KException t s])
      \<and> write_law holds (transport_writeEnd P) []
      \<and> write_law holds (transport_flush P) [])"

definition lawful_read :: "'p protocol \<Rightarrow> ('p \<Rightarrow> token list \<Rightarrow> bool) \<Rightarrow> bool" where
  "lawful_read P holds =
     ((\<forall>name t k. read_law holds (readMessageBegin P) [KMessage name t k] (name, t, k))
      \<and> read_law holds (readMessageEnd P) [] ()
      \<and> read_law holds (readStructBegin P) [] ()
      \<and> read_law holds (readStructEnd P) [] ()
      \<and> (\<forall>t f. data_type t \<longrightarrow> read_law holds (readFieldBegin P) [KField t f] (t, f))
      \<and> (\<forall>p ts. holds p (KStop # ts) \<longrightarrow>
            (\<exists>f n p'. readFieldBegin P p = Some (Inr ((T_STOP, f), n, p')) \<and> holds p' ts))
      \<and> read_law holds (readFieldEnd P) [] ()
      \<and> (\<forall>s. read_law holds (readString P) [KString s] s)
      \<and> (\<forall>w. read_law holds (readI16 P) [KI16 w] w)
      \<and> (\<forall>s. read_law holds (skip P T_STRING) [KString s] ())
      \<and> (\<forall>t s. read_law holds (exception_read P) [KException t s] (t, s))
      \<and> (\<forall>p ts. holds p ts \<longrightarrow> (\<exists>k n p'. transport_readEnd P p = Some (Inr (k, n, p')) \<and> holds p' ts)))"

definition lawful :: "'p protocol \<Rightarrow> ('p \<Rightarrow> token list \<Rightarrow> bool) \<Rightarrow> bool" where
  "lawful P holds =
     (lawful_write P holds \<and> lawful_read P holds
      \<and> (\<forall>p ts. holds p ts \<longrightarrow> holds (memory_buffer P (getBufferAsString P p)) ts)
      \<and> (\<forall>n. holds (memory_empty P n) []))"

section \<open>Composing transfers\<close>

lemma xbind_InrE:
  assumes "xbind f g p = Some (Inr (v, n, p'))"
  obtains a k p1 j where "f p = Some (Inr (a, k, p1))" "g a p1 = Some (Inr (v, j, p'))" "n = k + j"
proof -
  from assms obtain r where r: "f p = Some r" by (auto simp: xbind_def bind_eq_Some_iff)
  with assms obtain a k p1 where 1: "r = Inr (a, k, p1)" by (cases r) (auto simp: xbind_def)
  with assms r obtain r1 where r1: "g a p1 = Some r1" by (auto simp: xbind_def bind_eq_Some_iff)
  with assms r 1 obtain j where "r1 = Inr (v, j, p')" "n = k + j" by (cases r1) (auto simp: xbind_def)
  with r 1 r1 that show ?thesis by blast
qed

lemma xthen_InrE:
  assumes "xthen f g p = Some (Inr (v, n, p'))"
  obtains a k p1 j where "f p = Some (Inr (a, k, p1))" "g p1 = Some (Inr (v, j, p'))" "n = k + j"
  using assms unfolding xthen_def by (rule xbind_InrE)

lemma write_law_xret [intro]: "write_law holds (xret a) []"
  by (simp add: write_law_def xret_def)

lemma write_law_xbind:
  assumes f: "write_law holds f ks" and g: "\<And>a. write_law holds (g a) ls"
  shows "write_law holds (xbind f g) (ks @ ls)"
  unfolding write_law_def
proof (intro allI impI)
  fix p ts v n p' assume h: "holds p ts" and r: "xbind f g p = Some (Inr (v, n, p'))"
  from r obtain a k p1 j where 1: "f p = Some (Inr (a, k, p1))" and 2: "g a p1 = Some (Inr (v, j, p'))"
    by (rule xbind_InrE)
  from f h 1 have "holds p1 (ts @ ks)" by (auto simp: write_law_def)
  with g [of a] 2 have "holds p' ((ts @ ks) @ ls)" unfolding write_law_def by blast
  then show "holds p' (ts @ ks @ ls)" by simp
qed

lemma write_law_xthen: "write_law holds f ks \<Longrightarrow> write_law holds g ls \<Longrightarrow> write_law holds (xthen f g) (ks @ ls)"
  unfolding xthen_def by (rule write_law_xbind)

lemma write_law_xall: "list_all2 (write_law holds) fs kss \<Longrightarrow> write_law holds (xall fs) (concat kss)"
  by (induction fs kss rule: list_all2_induct) (auto intro: write_law_xthen)

lemma read_law_xret [intro]: "read_law holds (xret a) [] a"
  by (simp add: read_law_def xret_def)

lemma read_law_xbind:
  assumes f: "read_law holds f ks a" and g: "read_law holds (g a) ls b"
  shows "read_law holds (xbind f g) (ks @ ls) b"
  unfolding read_law_def
proof (intro allI impI)
  fix p ts assume "holds p ((ks @ ls) @ ts)"
  then have "holds p (ks @ (ls @ ts))" by simp
  with f obtain n p1 where 1: "f p = Some (Inr (a, n, p1))" "holds p1 (ls @ ts)" unfolding read_law_def by blast
  with g obtain k p2 where "g a p1 = Some (Inr (b, k, p2))" "holds p2 ts" unfolding read_law_def by blast
  with 1 show "\<exists>n p'. xbind f g p = Some (Inr (b, n, p')) \<and> holds p' ts" by (auto simp: xbind_def)
qed

lemma read_lawE:
  assumes "read_law holds f ks v" "holds p (ks @ ts)"
  obtains n p' where "f p = Some (Inr (v, n, p'))" "holds p' ts"
  using assms unfolding read_law_def by blast

lemma read_lawD:
  "read_law holds f ks v \<Longrightarrow> holds p (ks @ ts) \<Longrightarrow> \<exists>n p'. f p = Some (Inr (v, n, p')) \<and> holds p' ts"
  by (simp add: read_law_def)

lemma read_law_xthen: "read_law holds f ks a \<Longrightarrow> read_law holds g ls b \<Longrightarrow> read_law holds (xthen f g) (ks @ ls) b"
  unfolding xthen_def by (rule read_law_xbind)

section \<open>Fields\<close>

lemma read_fields_stop:
  assumes "lawful_read P holds" shows "read_law holds (read_fields P field s) [KStop] s"
  using assms by (subst read_fields.simps [abs_def]) (fastforce simp: read_law_def lawful_read_def xbind_def xret_def)

lemma read_fields_step:
  assumes l: "lawful_read P holds" and t: "data_type t" and f: "read_law holds (field t i s) ks s1"
    and r: "read_law holds (read_fields P field s1) ls s2"
  shows "read_law holds (read_fields P field s) ([KField t i] @ ks @ ls) s2"
proof -
  let ?g = "\<lambda>tf q. if fst tf = T_STOP then xret s q
       else xbind (field (fst tf) (snd tf) s) (\<lambda>s1. xbind (readFieldEnd P) (\<lambda>_. read_fields P field s1)) q"
  have b: "read_law holds (readFieldBegin P) [KField t i] (t, i)" and e: "read_law holds (readFieldEnd P) [] ()"
    using l t by (simp_all add: lawful_read_def)
  have "read_law holds (xbind (field t i s) (\<lambda>s1. xbind (readFieldEnd P) (\<lambda>_. read_fields P field s1))) (ks @ [] @ ls) s2"
    by (rule read_law_xbind [where g = "\<lambda>s1. xbind (readFieldEnd P) (\<lambda>_. read_fields P field s1)", OF f])
       (rule read_law_xbind [where g = "\<lambda>_. read_fields P field s1", OF e r])
  moreover have "t \<noteq> T_STOP" using t by (auto simp: data_type_def)
  ultimately have g: "read_law holds (?g (t, i)) (ks @ ls) s2" by simp
  have "read_fields P field s = xbind (readFieldBegin P) ?g" by (rule ext) (rule read_fields.simps)
  then show ?thesis using read_law_xbind [where g = ?g, OF b g] by simp
qed

lemma read_struct_law:
  assumes "lawful_read P holds" "read_law holds (read_fields P field s) ks s1"
  shows "read_law holds (read_struct P field s) ks s1"
proof -
  have b: "read_law holds (readStructBegin P) [] ()" "read_law holds (readStructEnd P) [] ()"
    using assms(1) by (simp_all add: lawful_read_def)
  have "read_law holds (read_struct P field s) ([] @ ks @ [] @ []) s1"
    unfolding read_struct_def
    by (intro read_law_xthen [OF b(1)] read_law_xbind [OF assms(2)] read_law_xthen [OF b(2)] read_law_xret)
  then show ?thesis by simp
qed

lemma read_skip_field:
  assumes "lawful_read P holds" shows "read_law holds (skip_field P T_STRING s) [KString v] s"
  using read_law_xthen [OF _ read_law_xret] assms unfolding skip_field_def lawful_read_def by fastforce

section \<open>Structs\<close>

definition args_tokens :: "string \<Rightarrow> token list" where
  "args_tokens no = [KField T_STRING 1, KString no, KStop]"

definition student_tokens :: "Student \<Rightarrow> token list" where
  "student_tokens s =
     [KField T_STRING 1, KString (st_no s), KField T_STRING 2, KString (st_name s), KField T_I16 3, KI16 (st_age s), KStop]"

definition result_tokens :: "Serv_QueryByNo_result \<Rightarrow> token list" where
  "result_tokens r = (if res_isset_success r then KField T_STRUCT 0 # student_tokens (res_success r) else []) @ [KStop]"

definition all_set :: "Student \<Rightarrow> Student" where
  "all_set s = s\<lparr>st_isset := \<lparr>isset_no = True, isset_name = True, isset_age = True\<rparr>\<rparr>"

lemma read_string_field:
  assumes "lawful_read P holds" shows "read_law holds (xbind (readString P) (\<lambda>v. xret (f v))) [KString v] (f v)"
  using read_law_xbind [where g = "\<lambda>v. xret (f v)" and ls = "[]", OF _ read_law_xret] assms
  unfolding lawful_read_def by fastforce

lemma read_I16_field:
  assumes "lawful_read P holds" shows "read_law holds (xbind (readI16 P) (\<lambda>v. xret (f v))) [KI16 v] (f v)"
  using read_law_xbind [where g = "\<lambda>v. xret (f v)" and ls = "[]", OF _ read_law_xret] assms
  unfolding lawful_read_def by fastforce

lemma args_read_law:
  assumes "lawful_read P holds"
  shows "read_law holds (args_read P a) (args_tokens no) \<lparr>args_no = no, args_isset_no = True\<rparr>"
proof -
  have "read_law holds (args_field P T_STRING 1 a) [KString no] (a\<lparr>args_no := no, args_isset_no := True\<rparr>)"
    using read_string_field [OF assms, of "\<lambda>v. a\<lparr>args_no := v, args_isset_no := True\<rparr>"] by (simp add: args_field_def)
  from read_fields_step [where field = "args_field P", OF assms _ this read_fields_stop [OF assms]]
  have "read_law holds (read_fields P (args_field P) a) (args_tokens no) (a\<lparr>args_no := no, args_isset_no := True\<rparr>)"
    by (simp add: args_tokens_def data_type_def)
  moreover have "a\<lparr>args_no := no, args_isset_no := True\<rparr> = \<lparr>args_no = no, args_isset_no = True\<rparr>" by (cases a) simp
  ultimately show ?thesis unfolding args_read_def by (simp add: read_struct_law [OF assms])
qed

lemma Student_read_law:
  assumes "lawful_read P holds"
  shows "read_law holds (Student_read P s) (student_tokens v) (all_set v)"
proof -
  let ?s1 = "s\<lparr>st_no := st_no v, st_isset := (st_isset s)\<lparr>isset_no := True\<rparr>\<rparr>"
  let ?s2 = "?s1\<lparr>st_name := st_name v, st_isset := (st_isset ?s1)\<lparr>isset_name := True\<rparr>\<rparr>"
  let ?s3 = "?s2\<lparr>st_age := st_age v, st_isset := (st_isset ?s2)\<lparr>isset_age := True\<rparr>\<rparr>"
  have 1: "read_law holds (Student_field P T_STRING 1 s) [KString (st_no v)] ?s1"
    using read_string_field [OF assms, of "\<lambda>x. s\<lparr>st_no := x, st_isset := (st_isset s)\<lparr>isset_no := True\<rparr>\<rparr>"]
    by (simp add: Student_field_def)
  have 2: "read_law holds (Student_field P T_STRING 2 ?s1) [KString (st_name v)] ?s2"
    using read_string_field [OF assms, of "\<lambda>x. ?s1\<lparr>st_name := x, st_isset := (st_isset ?s1)\<lparr>isset_name := True\<rparr>\<rparr>"]
    by (simp add: Student_field_def)
  have 3: "read_law holds (Student_field P T_I16 3 ?s2) [KI16 (st_age v)] ?s3"
    using read_I16_field [OF assms, of "\<lambda>x. ?s2\<lparr>st_age := x, st_isset := (st_isset ?s2)\<lparr>isset_age := True\<rparr>\<rparr>"]
    by (simp add: Student_field_def)
  note step = read_fields_step [where field = "Student_field P", OF assms]
  have "read_law holds (read_fields P (Student_field P) s) (student_tokens v) ?s3"
    using step [OF _ 1 step [OF _ 2 step [OF _ 3 read_fields_stop [OF assms]]]]
    by (simp add: student_tokens_def data_type_def)
  moreover have "?s3 = all_set v" by (cases s, cases v, cases "st_isset s") (simp add: all_set_def)
  ultimately show ?thesis unfolding Student_read_def by (metis read_struct_law assms)
qed

definition result_read_back :: "Serv_QueryByNo_result \<Rightarrow> Serv_QueryByNo_result \<Rightarrow> Serv_QueryByNo_result" where
  "result_read_back r v =
     (if res_isset_success v then \<lparr>res_success = all_set (res_success v), res_isset_success = True\<rparr> else r)"

lemma result_read_law:
  assumes "lawful_read P holds"
  shows "read_law holds (result_read P r) (result_tokens v) (result_read_back r v)"
proof -
  let ?s = "all_set (res_success v)"
  let ?r = "r\<lparr>res_success := ?s, res_isset_success := True\<rparr>"
  have "read_law holds (result_field P T_STRUCT 0 r) (student_tokens (res_success v)) ?r"
    using read_law_xbind [where g = "\<lambda>s. xret (r\<lparr>res_success := s, res_isset_success := True\<rparr>)",
        OF Student_read_law [OF assms] read_law_xret]
    by (simp add: result_field_def)
  from read_fields_step [where field = "result_field P", OF assms _ this read_fields_stop [OF assms]]
  have "res_isset_success v \<Longrightarrow> read_law holds (read_fields P (result_field P) r) (result_tokens v) ?r"
    by (simp add: result_tokens_def data_type_def)
  moreover have "?r = \<lparr>res_success = ?s, res_isset_success = True\<rparr>" by (cases r) simp
  ultimately have "read_law holds (read_fields P (result_field P) r) (result_tokens v) (result_read_back r v)"
    using read_fields_stop [OF assms] by (auto simp: result_tokens_def result_read_back_def)
  then show ?thesis unfolding result_read_def by (rule read_struct_law [OF assms])
qed

lemma result_read_other:
  \<comment> \<open>the arguments of a call where a result is expected\<close>
  assumes "lawful_read P holds"
  shows "read_law holds (result_read P r) (args_tokens no) r"
proof -
  have "read_law holds (result_field P T_STRING 1 r) [KString no] r"
    using read_skip_field [OF assms] by (simp add: result_field_def)
  from read_fields_step [where field = "result_field P", OF assms _ this read_fields_stop [OF assms]]
  have "read_law holds (read_fields P (result_field P) r) (args_tokens no) r"
    by (simp add: args_tokens_def data_type_def)
  then show ?thesis unfolding result_read_def by (rule read_struct_law [OF assms])
qed

lemma pargs_write_law:
  assumes "lawful_write P holds" shows "write_law holds (pargs_write P no) (args_tokens no)"
proof -
  have "write_law holds (pargs_write P no) (concat [[], [KField T_STRING 1], [KString no], [], [KStop], []])"
    unfolding pargs_write_def by (rule write_law_xall) (use assms in \<open>simp add: lawful_write_def data_type_def\<close>)
  then show ?thesis by (simp add: args_tokens_def)
qed

lemma args_write_law:
  assumes "lawful_write P holds" shows "write_law holds (args_write P a) (args_tokens (args_no a))"
proof -
  have "write_law holds (args_write P a) (concat [[], [KField T_STRING 1], [KString (args_no a)], [], [KStop], []])"
    unfolding args_write_def by (rule write_law_xall) (use assms in \<open>simp add: lawful_write_def data_type_def\<close>)
  then show ?thesis by (simp add: args_tokens_def)
qed

lemma Student_write_law:
  assumes "lawful_write P holds" shows "write_law holds (Student_write P s) (student_tokens s)"
proof -
  have "write_law holds (Student_write P s) (concat [[], [KField T_STRING 1], [KString (st_no s)], [],
      [KField T_STRING 2], [KString (st_name s)], [], [KField T_I16 3], [KI16 (st_age s)], [], [KStop], []])"
    unfolding Student_write_def by (rule write_law_xall) (use assms in \<open>simp add: lawful_write_def data_type_def\<close>)
  then show ?thesis by (simp add: student_tokens_def)
qed

lemma result_write_law:
  assumes "lawful_write P holds" shows "write_law holds (result_write P r) (result_tokens r)"
proof (cases "res_isset_success r")
  case True
  have "write_law holds (result_write P r) (concat [[], [KField T_STRUCT 0], student_tokens (res_success r), [], [KStop], []])"
    unfolding result_write_def
    by (rule write_law_xall) (use assms True Student_write_law [OF assms] in \<open>simp add: lawful_write_def data_type_def\<close>)
  with True show ?thesis by (simp add: result_tokens_def)
next
  case False
  have "write_law holds (result_write P r) (concat [[], [KStop], []])"
    unfolding result_write_def by (rule write_law_xall) (use assms False in \<open>simp add: lawful_write_def\<close>)
  with False show ?thesis by (simp add: result_tokens_def)
qed

section \<open>A call from the client to the implementation and back\<close>

lemma send_law:
  assumes "lawful_write P holds"
  shows "write_law holds (send_QueryByNo P no) (KMessage ''QueryByNo'' T_CALL 0 # args_tokens no)"
proof -
  have "write_law holds (send_QueryByNo P no) ([KMessage ''QueryByNo'' T_CALL 0] @ args_tokens no @ [] @ [] @ [])"
    unfolding send_QueryByNo_def
    by (intro write_law_xthen pargs_write_law [OF assms]) (use assms in \<open>simp_all add: lawful_write_def\<close>)
  then show ?thesis by simp
qed

lemma finish_reply_law:
  assumes "lawful_write P holds" shows "write_law holds (finish_reply P) []"
proof -
  have "write_law holds (finish_reply P) ([] @ [] @ [] @ [])"
    unfolding finish_reply_def
    by (intro write_law_xthen write_law_xbind write_law_xret) (use assms in \<open>simp_all add: lawful_write_def\<close>)
  then show ?thesis by simp
qed

lemma write_exception_law:
  assumes "lawful_write P holds"
  shows "write_law holds (write_exception P fname k t what) [KMessage fname T_EXCEPTION k, KException t what]"
proof -
  have "write_law holds (write_exception P fname k t what) ([KMessage fname T_EXCEPTION k] @ [KException t what] @ [] @ [])"
    unfolding write_exception_def
    by (intro write_law_xthen write_law_xret finish_reply_law [OF assms]) (use assms in \<open>simp_all add: lawful_write_def\<close>)
  then show ?thesis by simp
qed

lemma end_message_holds:
  assumes "lawful_read P holds" "holds p ts"
  obtains k n p' where "end_message P p = Some (Inr (k, n, p'))" "holds p' ts"
proof -
  have "read_law holds (readMessageEnd P) [] ()" using assms(1) by (simp add: lawful_read_def)
  with assms(2) obtain n p1 where 1: "readMessageEnd P p = Some (Inr ((), n, p1))" "holds p1 ts"
    by (auto elim: read_lawE)
  have "\<exists>k n p'. transport_readEnd P p1 = Some (Inr (k, n, p')) \<and> holds p' ts"
    using assms(1) 1(2) by (simp add: lawful_read_def)
  then obtain k j p2 where "transport_readEnd P p1 = Some (Inr (k, j, p2))" "holds p2 ts" by blast
  with 1 that [of k "n + j" p2] show ?thesis by (simp add: end_message_def xthen_def xbind_def)
qed

text \<open>Partial correctness of a transfer: what holds when it returns, for those that return.\<close>

definition xtriple :: "('s \<Rightarrow> bool) \<Rightarrow> ('s, 'a) xfer \<Rightarrow> ('a \<Rightarrow> 's \<Rightarrow> bool) \<Rightarrow> bool" where
  "xtriple R f S = (\<forall>s v n s'. R s \<longrightarrow> f s = Some (Inr (v, n, s')) \<longrightarrow> S v s')"

lemma xtriple_xbind: "xtriple R f S \<Longrightarrow> (\<And>a. xtriple (S a) (g a) T) \<Longrightarrow> xtriple R (xbind f g) T"
  unfolding xtriple_def by (blast elim: xbind_InrE)

lemma xtriple_xthen: "xtriple R f (\<lambda>_. S) \<Longrightarrow> xtriple S g T \<Longrightarrow> xtriple R (xthen f g) T"
  unfolding xthen_def by (rule xtriple_xbind)

definition exchange :: "('p \<Rightarrow> token list \<Rightarrow> bool) \<Rightarrow> token list \<Rightarrow> token list \<Rightarrow> 'p processor \<Rightarrow> bool" where
  "exchange holds i o' s = (holds (proc_in s) i \<and> holds (proc_out s) o')"

lemma xtriple_on_in:
  "read_law holds f ks v \<Longrightarrow> xtriple (exchange holds (ks @ i) o') (on_in f) (\<lambda>a s. a = v \<and> exchange holds i o' s)"
  unfolding xtriple_def exchange_def on_in_def
  by (fastforce elim: read_lawE)

lemma xtriple_on_out:
  "write_law holds f ks \<Longrightarrow> xtriple (exchange holds i o') (on_out f) (\<lambda>_. exchange holds i (o' @ ks))"
proof -
  assume w: "write_law holds f ks"
  have "exchange holds i (o' @ ks) s'" if "exchange holds i o' s" "on_out f s = Some (Inr (a, n, s'))" for s a n s'
  proof -
    from that(2) obtain r where r: "f (proc_out s) = Some r" by (auto simp: on_out_def)
    with that(2) obtain p where "r = Inr (a, n, p)" "s' = s\<lparr>proc_out := p\<rparr>" by (cases r) (auto simp: on_out_def)
    with w r that(1) show ?thesis unfolding write_law_def exchange_def by auto
  qed
  then show ?thesis by (simp add: xtriple_def)
qed

lemma xtriple_end_message:
  assumes "lawful_read P holds"
  shows "xtriple (exchange holds i o') (on_in (end_message P)) (\<lambda>_. exchange holds i o')"
  unfolding xtriple_def exchange_def on_in_def by (fastforce elim: end_message_holds [OF assms])

lemma xtriple_notify: "xtriple (exchange holds i o') (notify es) (\<lambda>_. exchange holds i o')"
  by (auto simp: xtriple_def exchange_def notify_def xret_def)

definition reply_tokens :: "serv_if \<Rightarrow> u32 \<Rightarrow> string \<Rightarrow> token list" where
  "reply_tokens iface sq no =
     (case iface Student_new no of
        Returns s \<Rightarrow> KMessage ''QueryByNo'' T_REPLY sq # KField T_STRUCT 0 # student_tokens s @ [KStop]
      | Throws what \<Rightarrow> [KMessage ''QueryByNo'' T_EXCEPTION sq, KException UNKNOWN what]
      | Throws_other \<Rightarrow> [])"

lemma answer_reply:
  assumes l: "lawful_write P holds"
  shows "xtriple (exchange holds [] []) (answer_QueryByNo P sq (iface Student_new no))
    (\<lambda>_ s. iface Student_new no \<noteq> Throws_other \<and> holds (proc_out s) (reply_tokens iface sq no))"
proof (cases "iface Student_new no")
  case (Returns v)
  let ?r = "\<lparr>res_success = v, res_isset_success = True\<rparr>"
  have m: "write_law holds (writeMessageBegin P ''QueryByNo'' T_REPLY sq) [KMessage ''QueryByNo'' T_REPLY sq]"
    using l by (simp add: lawful_write_def)
  have 1: "xtriple (exchange holds [] []) (on_out (writeMessageBegin P ''QueryByNo'' T_REPLY sq))
      (\<lambda>_. exchange holds [] [KMessage ''QueryByNo'' T_REPLY sq])" using xtriple_on_out [OF m, of "[]" "[]"] by simp
  have 2: "xtriple (exchange holds [] [KMessage ''QueryByNo'' T_REPLY sq]) (on_out (result_write P ?r))
      (\<lambda>_. exchange holds [] (reply_tokens iface sq no))"
    using xtriple_on_out [OF result_write_law [OF l], of "[]" "[KMessage ''QueryByNo'' T_REPLY sq]" ?r] Returns
    by (simp add: reply_tokens_def result_tokens_def)
  have 3: "xtriple (exchange holds [] (reply_tokens iface sq no)) (on_out (finish_reply P))
      (\<lambda>_. exchange holds [] (reply_tokens iface sq no))"
    using xtriple_on_out [OF finish_reply_law [OF l]] by simp
  have "xtriple (exchange holds [] []) (answer_QueryByNo P sq (iface Student_new no))
      (\<lambda>_. exchange holds [] (reply_tokens iface sq no))"
    unfolding answer_QueryByNo_def Returns serv_answer.case
    by (rule xtriple_xthen [OF xtriple_notify xtriple_xthen [OF 1 xtriple_xthen [OF 2 xtriple_xbind [OF 3 xtriple_notify]]]])
  with Returns show ?thesis by (simp add: xtriple_def exchange_def)
next
  case (Throws what)
  then show ?thesis
    unfolding answer_QueryByNo_def
    using xtriple_xthen [OF xtriple_notify xtriple_on_out [OF write_exception_law [OF l], where i = "[]" and o' = "[]"]]
    by (simp add: reply_tokens_def xtriple_def exchange_def)
qed (simp add: answer_QueryByNo_def xtriple_def xthrow_def)

lemma process_reply:
  assumes l: "lawful_read P holds" "lawful_write P holds"
  shows "xtriple (exchange holds (args_tokens no) []) (process_QueryByNo P iface sq)
    (\<lambda>_ s. iface Student_new no \<noteq> Throws_other \<and> holds (proc_out s) (reply_tokens iface sq no))"
  unfolding process_QueryByNo_def
proof (intro xtriple_xthen [OF xtriple_notify] xtriple_xbind)
  show "xtriple (exchange holds (args_tokens no) []) (on_in (args_read P Serv_QueryByNo_args_new))
      (\<lambda>a s. a = \<lparr>args_no = no, args_isset_no = True\<rparr> \<and> exchange holds [] [] s)"
    using xtriple_on_in [OF args_read_law [OF l(1)], of no "[]"] by simp
next
  fix a :: Serv_QueryByNo_args and bytes :: u32
  let ?R = "\<lambda>s. a = \<lparr>args_no = no, args_isset_no = True\<rparr> \<and> exchange holds [] [] s"
  show "xtriple ?R (on_in (end_message P)) (\<lambda>_. ?R)"
    using xtriple_end_message [OF l(1)] by (auto simp: xtriple_def)
  have "xtriple (exchange holds [] []) (xthen (notify [PostRead bytes]) (answer_QueryByNo P sq (iface Student_new no)))
    (\<lambda>_ s. iface Student_new no \<noteq> Throws_other \<and> holds (proc_out s) (reply_tokens iface sq no))"
    by (rule xtriple_xthen [OF xtriple_notify answer_reply [OF l(2)]])
  then show "xtriple ?R (xthen (notify [PostRead bytes])
      (answer_QueryByNo P sq (iface (res_success Serv_QueryByNo_result_new) (args_no a))))
    (\<lambda>_ s. iface Student_new no \<noteq> Throws_other \<and> holds (proc_out s) (reply_tokens iface sq no))"
    by (auto simp: xtriple_def Serv_QueryByNo_result_new_def)
qed

section \<open>What the client gets\<close>

lemma recv_result:
  assumes l: "lawful_read P holds" and h: "holds p (KMessage ''QueryByNo'' T_REPLY sq # KField T_STRUCT 0 # student_tokens v @ [KStop])"
  shows "\<exists>n p'. recv_QueryByNo P ret p = Some (Inr (all_set v, n, p')) \<and> holds p' []"
proof -
  let ?r = "\<lparr>res_success = v, res_isset_success = True\<rparr>" and ?q = "\<lparr>res_success = ret, res_isset_success = False\<rparr>"
  have h': "holds p ([KMessage ''QueryByNo'' T_REPLY sq] @ result_tokens ?r)" using h by (simp add: result_tokens_def)
  have "read_law holds (readMessageBegin P) [KMessage ''QueryByNo'' T_REPLY sq] (''QueryByNo'', T_REPLY, sq)"
    using l by (simp add: lawful_read_def)
  from read_lawD [OF this, OF h'] obtain n1 p1 where
    1: "readMessageBegin P p = Some (Inr ((''QueryByNo'', T_REPLY, sq), n1, p1))" "holds p1 (result_tokens ?r)" by blast
  have "read_law holds (result_read P ?q) (result_tokens ?r) \<lparr>res_success = all_set v, res_isset_success = True\<rparr>"
    using result_read_law [OF l, of ?q ?r] by (simp add: result_read_back_def)
  from read_lawD [OF this, of p1 "[]"] 1(2) obtain n2 p2 where
    2: "result_read P ?q p1 = Some (Inr (\<lparr>res_success = all_set v, res_isset_success = True\<rparr>, n2, p2))" "holds p2 []"
    by auto
  from end_message_holds [OF l 2(2)] obtain k n3 p3 where "end_message P p2 = Some (Inr (k, n3, p3))" "holds p3 []" by blast
  with 1 2 show ?thesis
    by (simp add: recv_QueryByNo_def xbind_def xthen_def xret_def presult_read_def result_read_def)
qed

lemma recv_exception:
  assumes l: "lawful_read P holds" and h: "holds p [KMessage name T_EXCEPTION sq, KException t what]"
  shows "recv_QueryByNo P ret p = Some (Inl (TApplicationException t what))"
proof -
  have "read_law holds (readMessageBegin P) [KMessage name T_EXCEPTION sq] (name, T_EXCEPTION, sq)"
    "read_law holds (exception_read P) [KException t what] (t, what)"
    using l by (simp_all add: lawful_read_def)
  note r = this
  have "holds p ([KMessage name T_EXCEPTION sq] @ [KException t what])" using h by simp
  from read_lawD [OF r(1), OF this] obtain n1 p1 where 1: "readMessageBegin P p = Some (Inr ((name, T_EXCEPTION, sq), n1, p1))"
    "holds p1 [KException t what]" by blast
  from read_lawD [OF r(2), of p1 "[]"] 1(2) obtain n2 p2 where
    2: "exception_read P p1 = Some (Inr ((t, what), n2, p2))" "holds p2 []" by auto
  from end_message_holds [OF l 2(2)] obtain k n3 p3 where "end_message P p2 = Some (Inr (k, n3, p3))" "holds p3 []" by blast
  with 1 2 show ?thesis by (simp add: recv_QueryByNo_def xbind_def xthen_def xthrow_def)
qed

end
