(* ===== verification/ThriftSample.thy ===== *)
theory ThriftSample
  imports ThriftServProps
begin

text \<open>
  A concrete protocol for the witnesses, and a call through the generated client and processor.

  The state of the protocol is the string of the unread bytes, integers are big
  endian and strings have their length in front, as in the binary protocol of Thrift. It keeps the
  contract \<open>lawful\<close>.
\<close>

section \<open>Bytes\<close>

definition put16 :: "u16 \<Rightarrow> bytes" where "put16 w = rev (store16 w)"
definition put32 :: "u32 \<Rightarrow> bytes" where "put32 w = rev (store32 w)"
definition put_string :: "string \<Rightarrow> bytes" where "put_string s = put32 (of_nat (length s)) @ s"

fun put_type :: "ttype \<Rightarrow> char" where
  "put_type T_STOP = CHR 0x00"
| "put_type T_I16 = CHR 0x06"
| "put_type T_STRING = CHR 0x0B"
| "put_type T_STRUCT = CHR 0x0C"
| "put_type (T_OTHER n) = char_of n"

definition get_type :: "char \<Rightarrow> ttype" where
  "get_type c =
     (if c = CHR 0x00 then T_STOP else if c = CHR 0x06 then T_I16 else if c = CHR 0x0B then T_STRING
      else if c = CHR 0x0C then T_STRUCT else T_OTHER (of_char c))"

fun put_mtype :: "tmessage_type \<Rightarrow> char" where
  "put_mtype T_CALL = CHR 0x01"
| "put_mtype T_REPLY = CHR 0x02"
| "put_mtype T_EXCEPTION = CHR 0x03"
| "put_mtype T_ONEWAY = CHR 0x04"

definition get_mtype :: "char \<Rightarrow> tmessage_type" where
  "get_mtype c =
     (if c = CHR 0x01 then T_CALL else if c = CHR 0x02 then T_REPLY else if c = CHR 0x03 then T_EXCEPTION else T_ONEWAY)"

definition take_bytes :: "nat \<Rightarrow> (bytes, bytes) xfer" where
  "take_bytes n p = (if length p < n then Some (Inl TTransportException) else Some (Inr (take n p, of_nat n, drop n p)))"

definition get_char :: "(bytes, char) xfer" where
  "get_char = xbind (take_bytes 1) (\<lambda>b. xret (hd b))"

definition get16 :: "(bytes, u16) xfer" where
  "get16 = xbind (take_bytes 2) (\<lambda>b. xret (of_nat (le_val (rev b))))"

definition get32 :: "(bytes, u32) xfer" where
  "get32 = xbind (take_bytes 4) (\<lambda>b. xret (of_nat (le_val (rev b))))"

definition get_string :: "(bytes, string) xfer" where
  "get_string = xbind get32 (\<lambda>n. take_bytes (unat n))"

definition put :: "bytes \<Rightarrow> (bytes, unit) xfer" where
  "put bs p = Some (Inr ((), of_nat (length bs), p @ bs))"

definition put_checked :: "string \<Rightarrow> bytes \<Rightarrow> (bytes, unit) xfer" where
  "put_checked s bs p = (if length s < 2 ^ 31 then put bs p else Some (Inl TProtocolException))"

definition get_field :: "(bytes, ttype \<times> u16) xfer" where
  "get_field = xbind get_char (\<lambda>c.
     if get_type c = T_STOP then xret (T_STOP, 0) else xbind get16 (\<lambda>i. xret (get_type c, i)))"

definition sample_protocol :: "bytes protocol" where
  "sample_protocol =
     \<lparr>readMessageBegin = xbind get_char (\<lambda>c. xbind get_string (\<lambda>s. xbind get32 (\<lambda>k. xret (s, get_mtype c, k)))),
      readMessageEnd = xret (), readStructBegin = xret (), readStructEnd = xret (),
      readFieldBegin = get_field,
      readFieldEnd = xret (), readString = get_string, readI16 = get16,
      skip = (\<lambda>t. if t = T_STRING then xthen get_string (xret ()) else if t = T_I16 then xthen get16 (xret ())
                  else xthrow TProtocolException),
      writeMessageBegin = (\<lambda>s t k. put_checked s ([put_mtype t] @ put_string s @ put32 k)),
      writeMessageEnd = xret (), writeStructBegin = (\<lambda>s. xret ()), writeStructEnd = xret (),
      writeFieldBegin = (\<lambda>s t i. put ([put_type t] @ put16 i)), writeFieldEnd = xret (), writeFieldStop = put [NUL],
      writeString = (\<lambda>s. put_checked s (put_string s)), writeI16 = (\<lambda>w. put (put16 w)),
      transport_readEnd = xret 0, transport_writeEnd = xret 0, transport_flush = xret (),
      exception_read = xbind get32 (\<lambda>t. xbind get_string (\<lambda>s. xret (t, s))),
      exception_write = (\<lambda>t s. put_checked s (put32 t @ put_string s)),
      memory_buffer = (\<lambda>s. s), memory_empty = (\<lambda>n. []), getBufferAsString = (\<lambda>p. p)\<rparr>"

fun put_token :: "token \<Rightarrow> bytes" where
  "put_token (KMessage s t k) = [put_mtype t] @ put_string s @ put32 k"
| "put_token (KField t i) = [put_type t] @ put16 i"
| "put_token KStop = [NUL]"
| "put_token (KString s) = put_string s"
| "put_token (KI16 w) = put16 w"
| "put_token (KException t s) = put32 t @ put_string s"

fun token_text :: "token \<Rightarrow> string" where
  "token_text (KMessage s t k) = s"
| "token_text (KString s) = s"
| "token_text (KException t s) = s"
| "token_text k = []"

definition sample_holds :: "bytes \<Rightarrow> token list \<Rightarrow> bool" where
  "sample_holds p ts = (p = concat (map put_token ts) \<and> (\<forall>k\<in>set ts. length (token_text k) < 2 ^ 31))"

section \<open>The contract\<close>

definition gets :: "(bytes, 'a) xfer \<Rightarrow> bytes \<Rightarrow> 'a \<Rightarrow> bool" where
  "gets f bs v = (\<forall>r. \<exists>n. f (bs @ r) = Some (Inr (v, n, r)))"

lemma gets_xret [intro]: "gets (xret v) [] v"
  by (simp add: gets_def xret_def)

lemma gets_xbind:
  assumes "gets f bs a" "gets (g a) cs b" shows "gets (xbind f g) (bs @ cs) b"
  unfolding gets_def
proof
  fix r
  obtain n where 1: "f (bs @ cs @ r) = Some (Inr (a, n, cs @ r))" using assms(1) unfolding gets_def by blast
  obtain k where "g a (cs @ r) = Some (Inr (b, k, r))" using assms(2) unfolding gets_def by blast
  with 1 show "\<exists>n. xbind f g ((bs @ cs) @ r) = Some (Inr (b, n, r))" by (simp add: xbind_def)
qed

lemma gets_map: "gets f bs a \<Longrightarrow> gets (xbind f (\<lambda>x. xret (h x))) bs (h a)"
  using gets_xbind [where g = "\<lambda>x. xret (h x)", OF _ gets_xret] by fastforce

lemma gets_take: "length bs = n \<Longrightarrow> gets (take_bytes n) bs bs"
  by (auto simp: gets_def take_bytes_def)

lemma gets_char: "gets get_char [c] c"
  using gets_map [OF gets_take, of "[c]" 1 hd] by (simp add: get_char_def)

lemma gets16: "gets get16 (put16 w) w"
  using gets_map [OF gets_take, of "put16 w" 2 "\<lambda>b. of_nat (le_val (rev b)) :: u16"]
  by (simp add: get16_def put16_def load_store(2))

lemma gets32: "gets get32 (put32 w) w"
  using gets_map [OF gets_take, of "put32 w" 4 "\<lambda>b. of_nat (le_val (rev b)) :: u32"]
  by (simp add: get32_def put32_def load_store(1))

lemma gets_string: "length s < 2 ^ 31 \<Longrightarrow> gets get_string (put_string s) s"
  unfolding get_string_def put_string_def
  by (rule gets_xbind [OF gets32]) (simp add: gets_take unat_of_nat_small)

lemma gets_read_law:
  assumes "length (token_text k) < 2 ^ 31 \<Longrightarrow> gets f (put_token k) v"
  shows "read_law sample_holds f [k] v"
  using assms unfolding read_law_def sample_holds_def gets_def by fastforce

lemma put_write_law:
  assumes "\<And>p v n p'. f p = Some (Inr (v, n, p')) \<Longrightarrow> p' = p @ put_token k \<and> length (token_text k) < 2 ^ 31"
  shows "write_law sample_holds f [k]"
  using assms unfolding write_law_def sample_holds_def by fastforce

lemma sample_read_end: "read_law holds (xret v) [] v" by (rule read_law_xret)

lemma get_type_put: "data_type t \<Longrightarrow> get_type (put_type t) = t \<and> t \<noteq> T_STOP"
  by (auto simp: data_type_def get_type_def)

lemma get_mtype_put [simp]: "get_mtype (put_mtype t) = t"
  by (cases t) (simp_all add: get_mtype_def)

lemma gets_field: "data_type t \<Longrightarrow> gets get_field ([put_type t] @ put16 i) (t, i)"
  unfolding get_field_def
  by (rule gets_xbind [OF gets_char]) (use get_type_put [of t] gets_map [OF gets16, of "\<lambda>i. (t, i)" i] in simp)

lemma sample_lawful_read: "lawful_read sample_protocol sample_holds"
proof -
  have m: "gets (xbind get_char (\<lambda>c. xbind get_string (\<lambda>s. xbind get32 (\<lambda>k. xret (s, get_mtype c, k)))))
      ([put_mtype t] @ put_string s @ put32 k) (s, t, k)" if "length s < 2 ^ 31" for s t k
    by (intro gets_xbind [OF gets_char] gets_xbind [OF gets_string [OF that]])
       (use gets_map [OF gets32, of "\<lambda>k. (s, t, k)" k] in simp)
  have e: "gets (xbind get32 (\<lambda>t. xbind get_string (\<lambda>s. xret (t, s)))) (put32 t @ put_string s) (t, s)"
    if "length s < 2 ^ 31" for s t
    by (rule gets_xbind [OF gets32]) (use gets_map [OF gets_string [OF that], of "\<lambda>s. (t, s)"] in simp)
  have k: "gets (xthen get_string (xret ())) (put_string s) ()" if "length s < 2 ^ 31" for s
    unfolding xthen_def using gets_map [OF gets_string [OF that], of "\<lambda>_. ()"] by simp
  have stop: "\<exists>f n p'. get_field p = Some (Inr ((T_STOP, f), n, p')) \<and> sample_holds p' ts"
    if "sample_holds p (KStop # ts)" for p ts
    using that by (auto simp: sample_holds_def get_field_def get_char_def take_bytes_def xbind_def xret_def get_type_def)
  show ?thesis
    unfolding lawful_read_def sample_protocol_def protocol.simps
    by (intro conjI allI impI gets_read_law read_law_xret)
       (simp_all add: m [simplified] e k stop gets_string gets16 gets_field [simplified] xret_def)
qed

lemma sample_lawful_write: "lawful_write sample_protocol sample_holds"
  unfolding lawful_write_def sample_protocol_def protocol.simps
  by (intro conjI allI impI put_write_law write_law_xret)
     (auto simp: put_def put_checked_def split: if_splits)

lemma sample_lawful: "lawful sample_protocol sample_holds"
  using sample_lawful_read sample_lawful_write
  by (simp add: lawful_def) (simp add: sample_protocol_def sample_holds_def)

section \<open>A call through client and processor\<close>

text \<open>
  C39. A call through the generated client and processor reaches the implementation with its argument, and
  its answer comes back: the student with every field marked as set, or the text of the exception.
\<close>

theorem call_returns_the_answer:
  assumes l: "lawful P holds" and empty: "holds client_out []" "holds (proc_out s) []"
    and send: "send_QueryByNo P no client_out = Some (Inr ((), n1, request))"
    and begin_: "readMessageBegin P request = Some (Inr ((fname, mtype, sq), n2, proc_in s))"
    and call: "dispatchCall P iface fname sq s = Some (Inr (ok, n3, s'))"
  shows "fname = ''QueryByNo'' \<and> mtype = T_CALL \<and> sq = 0
    \<and> (case iface Student_new no of
         Returns v \<Rightarrow> \<exists>n p. recv_QueryByNo P ret (proc_out s') = Some (Inr (all_set v, n, p))
       | Throws what \<Rightarrow> recv_QueryByNo P ret (proc_out s') = Some (Inl (TApplicationException UNKNOWN what))
       | Throws_other \<Rightarrow> False)"
proof -
  have r: "lawful_read P holds" and w: "lawful_write P holds" using l by (simp_all add: lawful_def)
  have "holds request ([] @ KMessage ''QueryByNo'' T_CALL 0 # args_tokens no)"
    using send_law [OF w] empty(1) send unfolding write_law_def by blast
  then have "holds request ([KMessage ''QueryByNo'' T_CALL 0] @ args_tokens no)" by simp
  moreover have "read_law holds (readMessageBegin P) [KMessage ''QueryByNo'' T_CALL 0] (''QueryByNo'', T_CALL, 0)"
    using r by (simp add: lawful_read_def)
  ultimately have m: "fname = ''QueryByNo''" "mtype = T_CALL" "sq = 0" and i: "holds (proc_in s) (args_tokens no)"
    using begin_ by (auto elim!: read_lawE)
  from call m obtain u n4 where p: "process_QueryByNo P iface 0 s = Some (Inr (u, n4, s'))"
    unfolding dispatchCall_def by (auto elim!: xthen_InrE simp: xret_def)
  have e: "exchange holds (args_tokens no) [] s" using i empty(2) by (simp add: exchange_def)
  have "iface Student_new no \<noteq> Throws_other \<and> holds (proc_out s') (reply_tokens iface 0 no)"
    using process_reply [OF r w, of no iface 0] e p unfolding xtriple_def by blast
  with m show ?thesis
    using recv_result [OF r] recv_exception [OF r]
    by (cases "iface Student_new no") (fastforce simp: reply_tokens_def)+
qed

definition sample_student :: Student where
  "sample_student = set_no ''7'' (set_name ''ann'' (set_age 24 Student_new))"

definition sample_if :: serv_if where
  "sample_if ret no = (if no = ''7'' then Returns sample_student else Throws ''unknown'')"

definition sample_rpc :: "bytes processor" where
  "sample_rpc = \<lparr>proc_in = concat (map put_token (args_tokens ''7'')), proc_out = [], proc_handler = True, proc_events = []\<rparr>"

theorem call_returns_the_answer_witness:
  "\<exists>n s' k p. dispatchCall sample_protocol sample_if ''QueryByNo'' 0 sample_rpc = Some (Inr (True, n, s'))
    \<and> recv_QueryByNo sample_protocol Student_new (proc_out s') = Some (Inr (all_set sample_student, k, p))"
proof -
  note run = xthen_def xbind_def xret_def put_def put_checked_def
  have l: "lawful_read sample_protocol sample_holds" "lawful_write sample_protocol sample_holds"
    using sample_lawful by (simp_all add: lawful_def)
  obtain n1 r where send: "send_QueryByNo sample_protocol ''7'' [] = Some (Inr ((), n1, r))"
    by (simp add: send_QueryByNo_def pargs_write_def sample_protocol_def run)
  have "sample_holds [] []" by (simp add: sample_holds_def)
  with send_law [OF l(2)] send have "sample_holds r ([KMessage ''QueryByNo'' T_CALL 0] @ args_tokens ''7'')"
    unfolding write_law_def by fastforce
  moreover have "read_law sample_holds (readMessageBegin sample_protocol) [KMessage ''QueryByNo'' T_CALL 0] (''QueryByNo'', T_CALL, 0)"
    using l(1) by (simp add: lawful_read_def)
  ultimately obtain n2 q where q: "readMessageBegin sample_protocol r = Some (Inr ((''QueryByNo'', T_CALL, 0), n2, q))"
    "sample_holds q (args_tokens ''7'')" unfolding read_law_def by blast
  then have 1: "readMessageBegin sample_protocol r = Some (Inr ((''QueryByNo'', T_CALL, 0), n2, proc_in sample_rpc))"
    by (simp add: sample_holds_def sample_rpc_def)
  have "sample_holds (proc_in sample_rpc) (args_tokens ''7'' @ [])" by (simp add: sample_holds_def sample_rpc_def args_tokens_def)
  from read_lawD [OF args_read_law [OF l(1)], OF this] obtain n p where
    "args_read sample_protocol Serv_QueryByNo_args_new (proc_in sample_rpc)
      = Some (Inr (\<lparr>args_no = ''7'', args_isset_no = True\<rparr>, n, p))" by blast
  then obtain n3 s' where 2: "dispatchCall sample_protocol sample_if ''QueryByNo'' 0 sample_rpc = Some (Inr (True, n3, s'))"
    by (simp add: dispatchCall_def process_QueryByNo_def answer_QueryByNo_def sample_if_def on_in_def on_out_def notify_def
        end_message_def finish_reply_def result_write_def Student_write_def sample_protocol_def sample_student_def
        set_no_def set_name_def Student_new_def sample_rpc_def run)
  have e: "sample_holds [] []" "sample_holds (proc_out sample_rpc) []"
    by (simp_all add: sample_holds_def sample_rpc_def)
  have "sample_if Student_new ''7'' = Returns sample_student" by (simp add: sample_if_def)
  with call_returns_the_answer [OF sample_lawful e send 1 2, of Student_new] 2 show ?thesis by auto
qed

end
