(* ===== verification/ExampleProps.thy ===== *)
theory ExampleProps
  imports ExampleHttp ThriftSample
begin

text \<open>
  What the examples do with the framework: a Thrift call that an accepted session delivers is answered
  on its connection, an HTTP request travels over the Thrift server and back, and what becomes of a
  query that fails.
\<close>

lemma bind_sum_eq_Inr:
  "(Option.bind m (\<lambda>r. case r of Inl e \<Rightarrow> Some (Inl e) | Inr x \<Rightarrow> f x) = Some (Inr y))
    \<longleftrightarrow> (\<exists>x. m = Some (Inr x) \<and> f x = Some (Inr y))"
  by (cases m) (auto split: sum.splits)

section \<open>Answering on a session\<close>

lemma base_DoSendBack_eq:
  assumes c: "cn_connected (ss_conn s)" "conn_encode env (ss_conn s) m = Some e" "cbuffer_ok (cn_writebuf (ss_conn s))"
    "unat (cb_capacity (cn_writebuf (ss_conn s))) \<le> 1073741824"
    "unat (cb_loc (cn_writebuf (ss_conn s))) + length (concat e) \<le> 268435456"
  shows "\<exists>s'. base_DoSendBack env m b s = Some s' \<and> cn_trace (ss_conn s') = cn_trace (ss_conn s)
    @ [SockWrite m (cb_contents (cn_writebuf (ss_conn s)) @ concat e), EvDelete m]"
proof -
  from AsyncWrite_eq [OF c] obtain c' where "AsyncWrite env m b (ss_conn s) = Some c'"
    "cn_trace c' = cn_trace (ss_conn s) @ [SockWrite m (cb_contents (cn_writebuf (ss_conn s)) @ concat e)]" by blast
  then show ?thesis by (simp add: base_DoSendBack_def on_conn_def semit_def emit_def)
qed

lemma nt_DoSendBack_thrift:
  assumes s: "map_of (soc_sessions (nt_soc t)) i = Some s" "\<not> ss_http s"
    and c: "cn_connected (ss_conn s)" "cn_kind (ss_conn s) = ThriftParser" "cbuffer_ok (cn_writebuf (ss_conn s))"
      "unat (cb_capacity (cn_writebuf (ss_conn s))) \<le> 1073741824"
      "unat (cb_loc (cn_writebuf (ss_conn s))) + length (concat (thrift_encode m)) \<le> 268435456"
  shows "\<exists>t' s'. nt_DoSendBack env i (ThriftMsg m) t = Some t' \<and> map_of (soc_sessions (nt_soc t')) i = Some s'
    \<and> cn_trace (ss_conn s') = cn_trace (ss_conn s)
        @ [SockWrite (ThriftMsg m) (cb_contents (cn_writebuf (ss_conn s)) @ concat (thrift_encode m)), EvDelete (ThriftMsg m)]"
proof -
  have "conn_encode env (ss_conn s) (ThriftMsg m) = Some (thrift_encode m)" using c(2) by simp
  from base_DoSendBack_eq [OF c(1) this c(3-5), of False] obtain s' where s':
    "base_DoSendBack env (ThriftMsg m) False s = Some s'" "cn_trace (ss_conn s') = cn_trace (ss_conn s)
      @ [SockWrite (ThriftMsg m) (cb_contents (cn_writebuf (ss_conn s)) @ concat (thrift_encode m)), EvDelete (ThriftMsg m)]"
    by blast
  then have "nt_DoSendBack env i (ThriftMsg m) t = Some (nt_put (InSoc i) s' t)"
    using s by (simp add: nt_DoSendBack_def on_session_def)
  then show ?thesis using s' by (simp add: update_conv')
qed

section \<open>The Thrift example\<close>

lemma args_read_holds:
  assumes "lawful P holds" "holds p (args_tokens no)"
  shows "\<exists>n p'. args_read P a p = Some (Inr (\<lparr>args_no = no, args_isset_no = True\<rparr>, n, p'))"
proof -
  have "lawful_read P holds" using assms(1) by (simp add: lawful_def)
  from read_lawD [OF args_read_law [OF this, of a no], of p "[]"] assms(2) show ?thesis by auto
qed

lemma result_read_holds:
  assumes "lawful P holds" "holds p (result_tokens v)"
  shows "\<exists>n p'. result_read P r p = Some (Inr (result_read_back r v, n, p'))"
proof -
  have "lawful_read P holds" using assms(1) by (simp add: lawful_def)
  from read_lawD [OF result_read_law [OF this, of r v], of p "[]"] assms(2) show ?thesis by auto
qed

lemma written_result:
  assumes l: "lawful P holds" and w: "result_write P v (memory_empty P k) = Some (Inr ((), n, p))"
  shows "holds (memory_buffer P (getBufferAsString P p)) (result_tokens v)"
proof -
  have "holds (memory_empty P k) []" "lawful_write P holds" using l by (simp_all add: lawful_def)
  with result_write_law [of P holds v] w have "holds p (result_tokens v)" unfolding write_law_def by fastforce
  with l show ?thesis by (simp add: lawful_def)
qed

lemma written_args:
  assumes l: "lawful P holds" and w: "args_write P a (memory_empty P k) = Some (Inr ((), n, p))"
  shows "holds (memory_buffer P (getBufferAsString P p)) (args_tokens (args_no a))"
proof -
  have "holds (memory_empty P k) []" "lawful_write P holds" using l by (simp_all add: lawful_def)
  with args_write_law [of P holds a] w have "holds p (args_tokens (args_no a))" unfolding write_law_def by fastforce
  with l show ?thesis by (simp add: lawful_def)
qed

text \<open>
  A call of \<open>QueryByNo\<close> that an accepted Thrift session delivers is answered on its connection: the
  answer is written behind what the write buffer holds, with the sequence number of the call, and
  its body reads back as the student of the server.
\<close>

theorem thrift_call_is_answered:
  assumes l: "lawful P holds" and service: "th_service h"
    and call: "\<not> IsReply m" "holds (memory_buffer P (thrift_body m)) (args_tokens no)"
    and w: "result_write P th_result (memory_empty P 10240) = Some (Inr ((), n, buf))"
    and r: "r = SetReply 0 ((sthrift_message_new na)\<lparr>thrift_method := ''QueryByNo'', seqid := seqid m,
                              thrift_body := getBufferAsString P buf\<rparr>)"
    and s: "map_of (soc_sessions (nt_soc t)) (ev_connid m) = Some s" "\<not> ss_http s"
    and c: "cn_connected (ss_conn s)" "cn_kind (ss_conn s) = ThriftParser" "cbuffer_ok (cn_writebuf (ss_conn s))"
      "unat (cb_capacity (cn_writebuf (ss_conn s))) \<le> 1073741824"
      "unat (cb_loc (cn_writebuf (ss_conn s))) + length (concat (thrift_encode r)) \<le> 268435456"
  shows "\<exists>acts t' s'. th_OnEvent P na (HMessage (ThriftMsg m)) h = Some (Inr acts)
    \<and> run_actions env port0 nb acts t = Some t' \<and> map_of (soc_sessions (nt_soc t')) (ev_connid m) = Some s'
    \<and> cn_trace (ss_conn s') = cn_trace (ss_conn s)
        @ [SockWrite (ThriftMsg r) (cb_contents (cn_writebuf (ss_conn s)) @ concat (thrift_encode r)), EvDelete (ThriftMsg r)]
    \<and> (\<exists>k q. result_read P Serv_QueryByNo_result_new (memory_buffer P (thrift_body r))
          = Some (Inr (\<lparr>res_success = all_set (res_success th_result), res_isset_success = True\<rparr>, k, q)))"
proof -
  obtain k p where "args_read P Serv_QueryByNo_args_new (memory_buffer P (thrift_body m))
      = Some (Inr (\<lparr>args_no = no, args_isset_no = True\<rparr>, k, p))" using args_read_holds [OF l, OF call(2)] by blast
  then have e: "th_OnEvent P na (HMessage (ThriftMsg m)) h
      = Some (Inr [SvcDoSendBack (ev_connid m) (ThriftMsg r), DeleteEvent (HMessage (ThriftMsg m))])"
    using service call(1) w by (simp add: th_OnEvent_def th_DealThriftRequest_def r)
  obtain t' s' where t': "nt_DoSendBack env (ev_connid m) (ThriftMsg r) t = Some t'"
    "map_of (soc_sessions (nt_soc t')) (ev_connid m) = Some s'" "cn_trace (ss_conn s') = cn_trace (ss_conn s)
      @ [SockWrite (ThriftMsg r) (cb_contents (cn_writebuf (ss_conn s)) @ concat (thrift_encode r)), EvDelete (ThriftMsg r)]"
    using nt_DoSendBack_thrift [OF s c] by blast
  have "thrift_body r = getBufferAsString P buf" by (simp add: r SetReply_def)
  then obtain j q where "result_read P Serv_QueryByNo_result_new (memory_buffer P (thrift_body r))
      = Some (Inr (\<lparr>res_success = all_set (res_success th_result), res_isset_success = True\<rparr>, j, q))"
    using result_read_holds [OF l, OF written_result [OF l w], of Serv_QueryByNo_result_new]
    by (auto simp: result_read_back_def th_result_def)
  with e t' show ?thesis by auto
qed

lemma length_put [simp]:
  "length (put16 w) = 2" "length (put32 k) = 4" "length (put_string x) = 4 + length x"
  by (simp_all add: put16_def put32_def put_string_def)

lemmas sample_run = xthen_def xbind_def xret_def put_def put_checked_def

definition sample_query :: sthrift_message where
  "sample_query = (sthrift_message_new 1)\<lparr>ev_connid := 3, thrift_method := ''QueryByNo'', seqid := 5,
     thrift_body := concat (map put_token (args_tokens ''7''))\<rparr>"

theorem thrift_call_is_answered_witness:
  "\<exists>t s acts t' s' r bytes. nt_soc t = \<lparr>soc_sessions = [(3, s)], soc_dead = []\<rparr> \<and> cn_trace (ss_conn s) = []
    \<and> th_OnEvent sample_protocol 8 (HMessage (ThriftMsg sample_query)) (th_StartInThread 0 thrift_handle_new) = Some (Inr acts)
    \<and> run_actions sample_net 0 9 acts t = Some t' \<and> map_of (soc_sessions (nt_soc t')) 3 = Some s'
    \<and> cn_trace (ss_conn s') = [SockWrite (ThriftMsg r) bytes, EvDelete (ThriftMsg r)] \<and> seqid r = 5"
proof -
  obtain s0 where "session_Init sample_net False E_PROTOCOL_THRIFT True False 0 0 0 = Some s0"
    using thrift_session_Init by blast
  then have s0: "\<not> ss_http s0" by (auto simp: session_Init_def bind_eq_Some_iff)
  let ?s = "s0\<lparr>ss_conn := sample_writer\<rparr>"
  let ?t = "(net_thread_new (\<lambda>_. 0) 0 0)\<lparr>nt_soc := \<lparr>soc_sessions = [(3, ?s)], soc_dead = []\<rparr>\<rparr>"
  obtain n buf where w: "result_write sample_protocol th_result (memory_empty sample_protocol 10240) = Some (Inr ((), n, buf))"
    by (simp add: result_write_def Student_write_def th_result_def sample_protocol_def Student_new_def sample_run)
  from written_result [OF sample_lawful w] have buf: "buf = concat (map put_token (result_tokens th_result))"
    by (simp add: sample_holds_def sample_protocol_def)
  then have len: "length buf < 100" by (simp add: result_tokens_def student_tokens_def th_result_def Student_new_def)
  let ?r = "SetReply 0 ((sthrift_message_new 8)\<lparr>thrift_method := ''QueryByNo'', seqid := seqid sample_query,
      thrift_body := getBufferAsString sample_protocol buf\<rparr>)"
  have h: "th_service (th_StartInThread 0 thrift_handle_new)" by (simp add: th_StartInThread_def)
  have q: "\<not> IsReply sample_query" "sample_holds (memory_buffer sample_protocol (thrift_body sample_query)) (args_tokens ''7'')"
    by (simp_all add: sample_query_def sthrift_message_new_def IsReply_def sample_protocol_def sample_holds_def args_tokens_def)
  have s: "map_of (soc_sessions (nt_soc ?t)) (ev_connid sample_query) = Some ?s" "\<not> ss_http ?s"
    using s0 by (simp_all add: sample_query_def)
  have room: "unat (cb_loc (cn_writebuf (ss_conn ?s))) + length (concat (thrift_encode ?r)) \<le> 268435456"
    using len by (simp add: sample_writer_def length_thrift_encode SetReply_def sample_protocol_def)
  have c: "cn_connected (ss_conn ?s)" "cn_kind (ss_conn ?s) = ThriftParser" "cbuffer_ok (cn_writebuf (ss_conn ?s))"
    "unat (cb_capacity (cn_writebuf (ss_conn ?s))) \<le> 1073741824" by (simp_all add: sample_writer_def cbuffer_ok_def)
  from thrift_call_is_answered [OF sample_lawful h q w refl s c room, of sample_net 0 9] obtain acts t' s' where
    a: "th_OnEvent sample_protocol 8 (HMessage (ThriftMsg sample_query)) (th_StartInThread 0 thrift_handle_new) = Some (Inr acts)"
    "run_actions sample_net 0 9 acts ?t = Some t'" "map_of (soc_sessions (nt_soc t')) (ev_connid sample_query) = Some s'"
    "cn_trace (ss_conn s') = cn_trace (ss_conn ?s)
        @ [SockWrite (ThriftMsg ?r) (cb_contents (cn_writebuf (ss_conn ?s)) @ concat (thrift_encode ?r)), EvDelete (ThriftMsg ?r)]"
    by blast
  show ?thesis
    by (intro exI [of _ ?t] exI [of _ ?s] exI [of _ acts] exI [of _ t'] exI [of _ s'] exI [of _ ?r]
        exI [of _ "concat (thrift_encode ?r)"])
       (use a in \<open>simp add: sample_writer_def sample_query_def SetReply_def cb_contents_def\<close>)
qed

section \<open>The HTTP example\<close>

text \<open>Events one after the other, with the addresses of what they allocate; all of them return.\<close>

inductive http_steps :: "'p protocol \<Rightarrow> (nat \<times> nat \<times> handler_event) list \<Rightarrow> http_handle \<Rightarrow> http_handle \<Rightarrow> bool"
  for P :: "'p protocol" where
  steps_none: "http_steps P [] h h"
| steps_more: "hh_OnEvent P na nc e h = Some (Inr (as, h1)) \<Longrightarrow> http_steps P evs h1 h2
    \<Longrightarrow> http_steps P ((na, nc, e) # evs) h h2"

text \<open>An event that has no part in the context at the address \<open>a\<close>: no reply with it, no allocation there.\<close>

definition unrelated :: "nat \<Rightarrow> nat \<times> nat \<times> handler_event \<Rightarrow> bool" where
  "unrelated a ev =
     (fst (snd ev) \<noteq> a \<and> (case snd (snd ev) of HMessage (ThriftMsg m) \<Rightarrow> ctx m \<noteq> Some a | _ \<Rightarrow> True))"

definition query_message :: "'p protocol \<Rightarrow> nat \<Rightarrow> nat \<Rightarrow> 'p \<Rightarrow> http_handle \<Rightarrow> sthrift_message" where
  "query_message P na nc buf h = (sthrift_message_new na)\<lparr>thrift_method := ''QueryByNo'', seqid := hh_smseqid h,
     thrift_body := getBufferAsString P buf, ctx := Some nc\<rparr>"

lemma DoTestThriftRequest_InrD:
  assumes "DoTestThriftRequest P na nc m h = Some (Inr (as, h1))"
  shows "\<exists>n buf. args_write P (Serv_QueryByNo_args_new\<lparr>args_no := ''0743111245''\<rparr>) (memory_empty P 1024) = Some (Inr ((), n, buf))
    \<and> as = [SvcDoConnect TEST_ADDR TEST_ADDR True 5000 DEFAULT_ADDR_REUSE,
        SvcDoSendTo TEST_ADDR (ThriftMsg (query_message P na nc buf h)) DEFAULT_TIMEOUT]
    \<and> hh_service h \<and> h1 = h\<lparr>hh_smseqid := hh_smseqid h + 1, hh_contexts := AList.update nc m (hh_contexts h)\<rparr>"
  using assms unfolding DoTestThriftRequest_def bind_sum_eq_Inr by (auto simp: bind_eq_Some_iff query_message_def)

lemma DealThriftResponse_InrD:
  assumes "hh_DealThriftResponse P na m h = Some (Inr (as, h1))"
  shows "\<exists>a. ctx m = Some a \<and> h1 = h\<lparr>hh_contexts := AList.delete a (hh_contexts h)\<rparr>"
  using assms unfolding hh_DealThriftResponse_def bind_sum_eq_Inr by (auto simp: bind_eq_Some_iff)

lemma OnEvent_keeps_context:
  assumes "hh_OnEvent P na nc e h = Some (Inr (as, h1))" "unrelated a (na, nc, e)"
  shows "map_of (hh_contexts h1) a = map_of (hh_contexts h) a \<and> hh_service h1 = hh_service h"
proof (cases e)
  case (HMessage msg)
  show ?thesis
  proof (cases msg)
    case (HttpMsg m)
    show ?thesis
    proof (cases "\<not> IsReply m \<and> url m = ''/testthrift''")
      case True
      then show ?thesis using assms HMessage HttpMsg
        by (auto simp: hh_OnEvent_def hh_DealHttpRequest_def unrelated_def update_conv' dest!: DoTestThriftRequest_InrD)
    next
      case False
      then show ?thesis using assms HMessage HttpMsg
        by (auto simp: hh_OnEvent_def hh_DealHttpRequest_def split: if_splits)
    qed
  next
    case (ThriftMsg m)
    show ?thesis
    proof (cases "IsReply m")
      case True
      then obtain x where x: "hh_DealThriftResponse P na m h = Some x" "map_sum id (\<lambda>(as, h1). (as @ [DeleteEvent e], h1)) x = Inr (as, h1)"
        using assms(1) HMessage ThriftMsg by (auto simp: hh_OnEvent_def)
      then obtain as' where "hh_DealThriftResponse P na m h = Some (Inr (as', h1))" by (cases x) auto
      then show ?thesis using assms(2) HMessage ThriftMsg
        by (auto simp: unrelated_def delete_conv' dest!: DealThriftResponse_InrD)
    next
      case False
      then show ?thesis using assms HMessage ThriftMsg by (auto simp: hh_OnEvent_def)
    qed
  qed
qed (use assms(1) in \<open>auto simp: hh_OnEvent_def\<close>)

lemma steps_keep_context:
  "http_steps P evs h1 h2 \<Longrightarrow> \<forall>ev\<in>set evs. unrelated a ev \<Longrightarrow>
     map_of (hh_contexts h2) a = map_of (hh_contexts h1) a \<and> hh_service h2 = hh_service h1"
proof (induction rule: http_steps.induct)
  case (steps_more na nc e h as h1 evs h2)
  then show ?case using OnEvent_keeps_context [OF steps_more.hyps(1), of a] by simp
qed simp

definition http_answer :: "nat \<Rightarrow> shttp_message \<Rightarrow> string \<Rightarrow> shttp_message" where
  "http_answer na m body = (SetReply 200 (shttp_message_new na))\<lparr>requestno := requestno m, keepalive := keepalive m,
     httpversion := httpversion m, http_body := body\<rparr>"

lemma query_sent:
  assumes m: "\<not> IsReply m" "url m = ''/testthrift''"
    and step: "hh_OnEvent P na nc (HMessage (HttpMsg m)) h = Some (Inr (as, h1))"
  obtains n buf where "args_write P (Serv_QueryByNo_args_new\<lparr>args_no := ''0743111245''\<rparr>) (memory_empty P 1024) = Some (Inr ((), n, buf))"
    "as = [SvcDoConnect TEST_ADDR TEST_ADDR True 5000 DEFAULT_ADDR_REUSE,
           SvcDoSendTo TEST_ADDR (ThriftMsg (query_message P na nc buf h)) DEFAULT_TIMEOUT]"
    "map_of (hh_contexts h1) nc = Some m" "hh_service h1"
proof -
  have "DoTestThriftRequest P na nc m h = Some (Inr (as, h1))" using assms by (simp add: hh_OnEvent_def hh_DealHttpRequest_def)
  from DoTestThriftRequest_InrD [OF this] show thesis by (auto simp: update_conv' intro: that)
qed

lemma reply_answered:
  assumes q: "IsReply q" "ctx q = Some a" and h: "map_of (hh_contexts h) a = Some m" "hh_service h"
    and r: "result_read P Serv_QueryByNo_result_new (memory_buffer P (thrift_body q)) = Some (Inr (r, n, p))"
  shows "\<exists>h'. hh_OnEvent P na nc (HMessage (ThriftMsg q)) h
      = Some (Inr ([SvcDoSendBack (ev_connid m) (HttpMsg (http_answer na m (student_json (res_success r)))),
                    DeleteEvent (HMessage (HttpMsg m)), DeleteEvent (HMessage (ThriftMsg q))], h'))
    \<and> map_of (hh_contexts h') a = None"
  using assms by (simp add: hh_OnEvent_def hh_DealThriftResponse_def DoSendHttpResponse_def http_answer_def delete_conv')

text \<open>
  C38. A request for \<open>/testthrift\<close> is passed on as a call of \<open>QueryByNo\<close> whose context points to it. Whatever
  requests and replies come in between, the reply with this context answers this request, on its
  connection and with its number, with the student of the reply, and frees the context.
\<close>

theorem query_answers_its_request:
  assumes l: "lawful P holds" and m: "\<not> IsReply m" "url m = ''/testthrift''"
    and step: "hh_OnEvent P na nc (HMessage (HttpMsg m)) h0 = Some (Inr (as, h1))"
    and between: "http_steps P evs h1 h2" "\<forall>ev\<in>set evs. unrelated nc ev"
    and q: "IsReply q" "ctx q = Some nc" "holds (memory_buffer P (thrift_body q)) (result_tokens \<lparr>res_success = v, res_isset_success = True\<rparr>)"
  shows "(\<exists>query k p. as = [SvcDoConnect TEST_ADDR TEST_ADDR True 5000 DEFAULT_ADDR_REUSE,
               SvcDoSendTo TEST_ADDR (ThriftMsg query) DEFAULT_TIMEOUT]
        \<and> ctx query = Some nc \<and> seqid query = hh_smseqid h0
        \<and> args_read P Serv_QueryByNo_args_new (memory_buffer P (thrift_body query))
            = Some (Inr (\<lparr>args_no = ''0743111245'', args_isset_no = True\<rparr>, k, p)))
    \<and> (\<exists>h3. hh_OnEvent P nb nd (HMessage (ThriftMsg q)) h2
          = Some (Inr ([SvcDoSendBack (ev_connid m) (HttpMsg (http_answer nb m (student_json v))),
                        DeleteEvent (HMessage (HttpMsg m)), DeleteEvent (HMessage (ThriftMsg q))], h3))
        \<and> map_of (hh_contexts h3) nc = None)"
proof -
  from query_sent [OF m step] obtain n buf where
    w: "args_write P (Serv_QueryByNo_args_new\<lparr>args_no := ''0743111245''\<rparr>) (memory_empty P 1024) = Some (Inr ((), n, buf))" and
    as: "as = [SvcDoConnect TEST_ADDR TEST_ADDR True 5000 DEFAULT_ADDR_REUSE,
           SvcDoSendTo TEST_ADDR (ThriftMsg (query_message P na nc buf h0)) DEFAULT_TIMEOUT]" and
    h1: "map_of (hh_contexts h1) nc = Some m" "hh_service h1" by blast
  have b: "holds (memory_buffer P (getBufferAsString P buf)) (args_tokens ''0743111245'')"
    using written_args [OF l w] by simp
  have h2: "map_of (hh_contexts h2) nc = Some m" "hh_service h2" using steps_keep_context [OF between] h1 by simp_all
  obtain j p where "result_read P Serv_QueryByNo_result_new (memory_buffer P (thrift_body q))
      = Some (Inr (\<lparr>res_success = all_set v, res_isset_success = True\<rparr>, j, p))"
    using result_read_holds [OF l, OF q(3), of Serv_QueryByNo_result_new] by (auto simp: result_read_back_def)
  from reply_answered [OF q(1,2) h2 this, of nb nd] have r: "\<exists>h3. hh_OnEvent P nb nd (HMessage (ThriftMsg q)) h2
      = Some (Inr ([SvcDoSendBack (ev_connid m) (HttpMsg (http_answer nb m (student_json v))),
                    DeleteEvent (HMessage (HttpMsg m)), DeleteEvent (HMessage (ThriftMsg q))], h3))
    \<and> map_of (hh_contexts h3) nc = None" by (simp add: student_json_def all_set_def)
  have "ctx (query_message P na nc buf h0) = Some nc" "seqid (query_message P na nc buf h0) = hh_smseqid h0"
    "thrift_body (query_message P na nc buf h0) = getBufferAsString P buf" by (simp_all add: query_message_def)
  note query = this
  obtain k x where "args_read P Serv_QueryByNo_args_new (memory_buffer P (getBufferAsString P buf))
      = Some (Inr (\<lparr>args_no = ''0743111245'', args_isset_no = True\<rparr>, k, x))"
    using args_read_holds [OF l, OF b, of Serv_QueryByNo_args_new] by blast
  then show ?thesis
    by (intro conjI [OF _ r] exI [of _ "query_message P na nc buf h0"] exI [of _ k] exI [of _ x]) (simp add: as query)
qed

text \<open>
  C40. When the query fails, because of a time-out, a lost connection or a Thrift server that cannot be reached, the
  framework hands the request itself back as a reply with an error code. The example does not look
  at the code: it finds no result in the arguments and reports an empty student as a success.
\<close>

theorem failed_query_reported_as_success:
  assumes l: "lawful P holds" and m: "\<not> IsReply m" "url m = ''/testthrift''"
    and step: "hh_OnEvent P na nc (HMessage (HttpMsg m)) h0 = Some (Inr (as, h1))"
    and between: "http_steps P evs h1 h2" "\<forall>ev\<in>set evs. unrelated nc ev"
    and sent: "as = [conn, SvcDoSendTo TEST_ADDR query DEFAULT_TIMEOUT]"
  shows "\<exists>h3 d. hh_OnEvent P nb nd (HMessage (nm_SetReply err query)) h2
      = Some (Inr ([SvcDoSendBack (ev_connid m) (HttpMsg (http_answer nb m (student_json Student_new))),
                    DeleteEvent (HMessage (HttpMsg m)), d], h3))
    \<and> code (http_answer nb m (student_json Student_new)) = 200"
proof -
  from query_sent [OF m step] obtain n buf where
    w: "args_write P (Serv_QueryByNo_args_new\<lparr>args_no := ''0743111245''\<rparr>) (memory_empty P 1024) = Some (Inr ((), n, buf))" and
    as: "[conn, SvcDoSendTo TEST_ADDR query DEFAULT_TIMEOUT] = [SvcDoConnect TEST_ADDR TEST_ADDR True 5000 DEFAULT_ADDR_REUSE,
           SvcDoSendTo TEST_ADDR (ThriftMsg (query_message P na nc buf h0)) DEFAULT_TIMEOUT]" and
    h1: "map_of (hh_contexts h1) nc = Some m" "hh_service h1" unfolding sent by blast
  have query: "query = ThriftMsg (query_message P na nc buf h0)" using as by simp
  let ?q = "SetReply err (query_message P na nc buf h0)"
  have b: "holds (memory_buffer P (thrift_body ?q)) (args_tokens ''0743111245'' @ [])"
    using written_args [OF l w] by (simp add: query_message_def SetReply_def)
  have "lawful_read P holds" using l by (simp add: lawful_def)
  from read_lawD [OF result_read_other [OF this, of Serv_QueryByNo_result_new], OF b] obtain j p where
    r: "result_read P Serv_QueryByNo_result_new (memory_buffer P (thrift_body ?q)) = Some (Inr (Serv_QueryByNo_result_new, j, p))"
    by blast
  have h2: "map_of (hh_contexts h2) nc = Some m" "hh_service h2" using steps_keep_context [OF between] h1 by simp_all
  have "IsReply ?q" "ctx ?q = Some nc" by (simp_all add: IsReply_def SetReply_def query_message_def)
  from reply_answered [OF this h2 r, of nb nd] show ?thesis
    by (auto simp: query Serv_QueryByNo_result_new_def http_answer_def SetReply_def)
qed

section \<open>Samples\<close>

definition sample_http_request :: shttp_message where
  "sample_http_request = (shttp_message_new 1)\<lparr>ev_connid := 3, requestno := 2, url := ''/testthrift''\<rparr>"

definition sample_started :: http_handle where
  "sample_started = hh_StartInThread 0 http_handle_new"

lemma sample_step:
  "\<exists>query h1. hh_OnEvent sample_protocol 4 5 (HMessage (HttpMsg sample_http_request)) sample_started
     = Some (Inr ([SvcDoConnect TEST_ADDR TEST_ADDR True 5000 DEFAULT_ADDR_REUSE,
                   SvcDoSendTo TEST_ADDR query DEFAULT_TIMEOUT], h1))
   \<and> http_steps sample_protocol [(6, 7, HPeerClose (snet_event_new 0 102))] h1 h1
   \<and> (\<forall>ev\<in>set [(6, 7, HPeerClose (snet_event_new 0 102))]. unrelated 5 ev)"
proof -
  have "\<exists>query h1. hh_OnEvent sample_protocol 4 5 (HMessage (HttpMsg sample_http_request)) sample_started
     = Some (Inr ([SvcDoConnect TEST_ADDR TEST_ADDR True 5000 DEFAULT_ADDR_REUSE,
                   SvcDoSendTo TEST_ADDR query DEFAULT_TIMEOUT], h1))"
    by (simp add: hh_OnEvent_def hh_DealHttpRequest_def DoTestThriftRequest_def args_write_def sample_http_request_def
        shttp_message_new_def IsReply_def sample_protocol_def sample_started_def hh_StartInThread_def sample_run)
  moreover have "http_steps sample_protocol [(6, 7, HPeerClose (snet_event_new 0 102))] h h" for h
    by (rule steps_more [OF _ steps_none]) (simp add: hh_OnEvent_def)
  ultimately show ?thesis by (simp add: unrelated_def)
qed

lemma sample_request: "\<not> IsReply sample_http_request" "url sample_http_request = ''/testthrift''"
  by (simp_all add: sample_http_request_def shttp_message_new_def IsReply_def)

definition sample_result :: sthrift_message where
  "sample_result = SetReply 0 ((sthrift_message_new 9)\<lparr>ctx := Some 5,
     thrift_body := concat (map put_token (result_tokens \<lparr>res_success = sample_student, res_isset_success = True\<rparr>))\<rparr>)"

theorem query_answers_its_request_witness:
  "\<exists>h2 h3. hh_OnEvent sample_protocol 10 11 (HMessage (ThriftMsg sample_result)) h2
     = Some (Inr ([SvcDoSendBack 3 (HttpMsg (http_answer 10 sample_http_request (student_json sample_student))),
                   DeleteEvent (HMessage (HttpMsg sample_http_request)), DeleteEvent (HMessage (ThriftMsg sample_result))], h3))
   \<and> map_of (hh_contexts h3) 5 = None"
proof -
  from sample_step obtain query h1 where
    step: "hh_OnEvent sample_protocol 4 5 (HMessage (HttpMsg sample_http_request)) sample_started
     = Some (Inr ([SvcDoConnect TEST_ADDR TEST_ADDR True 5000 DEFAULT_ADDR_REUSE,
                   SvcDoSendTo TEST_ADDR query DEFAULT_TIMEOUT], h1))"
    and between: "http_steps sample_protocol [(6, 7, HPeerClose (snet_event_new 0 102))] h1 h1"
      "\<forall>ev\<in>set [(6, 7, HPeerClose (snet_event_new 0 102))]. unrelated 5 ev" by blast
  have q: "IsReply sample_result" "ctx sample_result = Some 5"
    by (simp_all add: sample_result_def IsReply_def SetReply_def)
  have b: "sample_holds (memory_buffer sample_protocol (thrift_body sample_result))
      (result_tokens \<lparr>res_success = sample_student, res_isset_success = True\<rparr>)"
    by (simp add: sample_result_def SetReply_def sample_protocol_def sample_holds_def result_tokens_def student_tokens_def
        sample_student_def set_no_def set_name_def set_age_def Student_new_def)
  have i: "ev_connid sample_http_request = 3" by (simp add: sample_http_request_def)
  show ?thesis
    using query_answers_its_request [OF sample_lawful sample_request step between q b, of 10 11] unfolding i by blast
qed

theorem failed_query_reported_as_success_witness:
  "\<exists>query h2 h3 d. hh_OnEvent sample_protocol 10 11 (HMessage (nm_SetReply (- 1) query)) h2
     = Some (Inr ([SvcDoSendBack 3 (HttpMsg (http_answer 10 sample_http_request (student_json Student_new))),
                   DeleteEvent (HMessage (HttpMsg sample_http_request)), d], h3))
   \<and> code (http_answer 10 sample_http_request (student_json Student_new)) = 200"
proof -
  from sample_step obtain query h1 where
    step: "hh_OnEvent sample_protocol 4 5 (HMessage (HttpMsg sample_http_request)) sample_started
     = Some (Inr ([SvcDoConnect TEST_ADDR TEST_ADDR True 5000 DEFAULT_ADDR_REUSE,
                   SvcDoSendTo TEST_ADDR query DEFAULT_TIMEOUT], h1))"
    and between: "http_steps sample_protocol [(6, 7, HPeerClose (snet_event_new 0 102))] h1 h1"
      "\<forall>ev\<in>set [(6, 7, HPeerClose (snet_event_new 0 102))]. unrelated 5 ev" by blast
  have i: "ev_connid sample_http_request = 3" by (simp add: sample_http_request_def)
  show ?thesis
    using failed_query_reported_as_success [OF sample_lawful sample_request step between refl, of 10 11 "- 1"] unfolding i by blast
qed

end
