(* ===== verification/ExampleServer.thy ===== *)
theory ExampleServer
  imports ExampleProps ThriftReadLoop
begin

text \<open>
  The Thrift example from the socket back to the socket: what arrives on an accepted session goes through
  the read loop, the session, the thread and the handler, and the answers through the service and the
  session to the write buffer.
\<close>

section \<open>One read\<close>

fun serve_calls ::
  "'p protocol \<Rightarrow> net_env \<Rightarrow> u32 \<Rightarrow> nat \<Rightarrow> thrift_handle \<Rightarrow> handler_call list \<Rightarrow> net_thread \<Rightarrow> net_thread option" where
  \<comment> \<open>the handler deals with the calls of its thread, which carries its actions out; \<open>None\<close> also when it throws\<close>
  "serve_calls P env port0 na h [] t = Some t"
| "serve_calls P env port0 na h (HOnEvent i e # cs) t =
     (case th_OnEvent P na e h of
        Some (Inr acts) \<Rightarrow> Option.bind (run_actions env port0 na acts t) (serve_calls P env port0 (na + 1) h cs)
      | _ \<Rightarrow> None)"
| "serve_calls P env port0 na h (_ # cs) t = serve_calls P env port0 na h cs t"

definition serve_read ::
  "'p protocol \<Rightarrow> net_env \<Rightarrow> nat \<Rightarrow> u32 \<Rightarrow> nat \<Rightarrow> thrift_handle \<Rightarrow> u32 \<Rightarrow> bytes \<Rightarrow> net_thread \<Rightarrow> net_thread option" where
  \<comment> \<open>a completed read of the bytes \<open>c\<close> on the accepted session \<open>i\<close>\<close>
  "serve_read P env fuel port0 na h i c t = do {
     s \<leftarrow> nt_session (InSoc i) t;
     t1 \<leftarrow> nt_HandleRead env fuel (InSoc i) False (length c) (nt_put (InSoc i) (sock_fill c s) t);
     serve_calls P env port0 na h (drop (length (nt_calls t)) (nt_calls t1)) t1
   }"

section \<open>From the session to the handler\<close>

definition tells :: "sthrift_message \<Rightarrow> told" where
  "tells d = Call (thrift_method d) (thrift_body d) (seqid d)"

definition event_of :: "u32 \<Rightarrow> string \<Rightarrow> sthrift_message \<Rightarrow> handler_event" where
  "event_of i name d = HMessage (ThriftMsg (d\<lparr>ev_connid := i, ev_session_name := name\<rparr>))"

definition is_call :: "told \<Rightarrow> bool" where
  "is_call x \<longleftrightarrow> (\<exists>n b k. x = Call n b k)"

lemma is_call_simps [simp]: "is_call (Call n b k)" "\<not> is_call Told_otherwise" "\<not> is_call (told_request d)"
  by (simp_all add: is_call_def told_request_def)

lemma nt_effects_calls:
  assumes "\<forall>x\<in>set (calls es). is_call x"
  shows "\<exists>ds. nt_effects env s es t
      = Some (t\<lparr>nt_calls := nt_calls t @ map (\<lambda>d. HOnEvent (io_id (nt_io t)) (event_of (session_id s) (ss_name s) d)) ds\<rparr>)
    \<and> map tells ds = calls es \<and> (\<forall>d\<in>set ds. direction d = E_Request)"
  using assms
proof (induction es arbitrary: t)
  case Nil
  then show ?case by (intro exI [of _ "[]"]) simp
next
  case (Cons e es)
  show ?case
  proof (cases "\<exists>d. e = EvRead (ThriftMsg d)")
    case True
    then obtain d where e: "e = EvRead (ThriftMsg d)" ..
    have dir: "direction d = E_Request" and rest: "\<forall>x\<in>set (calls es). is_call x"
      using Cons.prems by (auto simp: e split: if_splits)
    let ?t = "nt_call (HOnEvent (io_id (nt_io t)) (event_of (session_id s) (ss_name s) d)) t"
    from Cons.IH [OF rest, of ?t] obtain ds where ds: "nt_effects env s es ?t
        = Some (?t\<lparr>nt_calls := nt_calls ?t @ map (\<lambda>d. HOnEvent (io_id (nt_io ?t)) (event_of (session_id s) (ss_name s) d)) ds\<rparr>)"
      "map tells ds = calls es" "\<forall>d\<in>set ds. direction d = E_Request" by blast
    have "nt_effect env s e t = Some ?t" by (simp add: e nt_OnRead_def event_of_def)
    then show ?thesis using ds dir by (intro exI [of _ "d # ds"]) (simp add: e nt_call_def, simp add: tells_def)
  next
    case False
    have "\<forall>x\<in>set (call1 e). is_call x" and rest: "\<forall>x\<in>set (calls es). is_call x" using Cons.prems by simp_all
    with False have "nt_effect env s e t = Some t \<and> call1 e = []" by (cases e rule: call1.cases) (auto split: if_splits)
    with Cons.IH [OF rest] show ?thesis by simp
  qed
qed

section \<open>Answering one call\<close>

text \<open>A connected Thrift session whose write buffer has room for \<open>n\<close> more bytes.\<close>

definition writer :: "nat \<Rightarrow> session \<Rightarrow> bool" where
  "writer n s = (\<not> ss_http s \<and> cn_connected (ss_conn s) \<and> cn_kind (ss_conn s) = ThriftParser
     \<and> cbuffer_ok (cn_writebuf (ss_conn s)) \<and> unat (cb_capacity (cn_writebuf (ss_conn s))) \<le> 1073741824
     \<and> unat (cb_loc (cn_writebuf (ss_conn s))) + n \<le> 268435456)"

lemma send_back:
  assumes s: "map_of (soc_sessions (nt_soc t)) i = Some s" and w: "writer (length (tenc r) + n) s"
  shows "\<exists>t' s'. nt_DoSendBack env i (ThriftMsg r) t = Some t' \<and> map_of (soc_sessions (nt_soc t')) i = Some s'
    \<and> writer n s' \<and> sent (strace s') = sent (strace s) @ [cb_contents (cn_writebuf (ss_conn s)) @ tenc r]
    \<and> cb_contents (cn_writebuf (ss_conn s')) = cb_contents (cn_writebuf (ss_conn s)) @ tenc r
    \<and> (\<forall>bs. stream_state bs s \<longrightarrow> stream_state bs s')"
proof -
  have "conn_encode env (ss_conn s) (ThriftMsg r) = Some (thrift_encode r)" using w by (simp add: writer_def)
  from AsyncWrite_eq [OF _ this, of False] w obtain c' where c': "AsyncWrite env (ThriftMsg r) False (ss_conn s) = Some c'"
    "cn_trace c' = strace s @ [SockWrite (ThriftMsg r) (cb_contents (cn_writebuf (ss_conn s)) @ tenc r)]"
    "cb_contents (cn_writebuf c') = cb_contents (cn_writebuf (ss_conn s)) @ tenc r" "cbuffer_ok (cn_writebuf c')"
    "unat (cb_capacity (cn_writebuf c')) \<le> 1073741824"
    "unat (cb_loc (cn_writebuf c')) = unat (cb_loc (cn_writebuf (ss_conn s))) + length (tenc r)"
    "cn_connected c'" "cn_kind c' = cn_kind (ss_conn s)" by (auto simp: writer_def)
  let ?s = "s\<lparr>ss_conn := emit (EvDelete (ThriftMsg r)) c'\<rparr>"
  have k: "cn_buffer c' = cn_buffer (ss_conn s)" "cn_session c' = cn_session (ss_conn s)" "cn_remoteip c' = cn_remoteip (ss_conn s)"
    using c'(1) by (auto simp: AsyncWrite_def emit_def split: if_splits Option.bind_splits)
  have "session_DoSendBack env (ThriftMsg r) s = Some ?s"
    using w c'(1) by (simp add: writer_def base_DoSendBack_def on_conn_def semit_def)
  then have "nt_DoSendBack env i (ThriftMsg r) t = Some (nt_put (InSoc i) ?s t)"
    using s c'(2) by (simp add: nt_DoSendBack_def on_session_def emit_def)
  moreover have "writer n ?s" using w c' by (simp add: writer_def emit_def)
  moreover have "stream_state bs s \<longrightarrow> stream_state bs ?s" for bs
    using c' k by (simp add: stream_ready_def reader_def emit_def)
  ultimately show ?thesis using c' by (simp add: update_conv' emit_def)
qed

definition answer_to :: "string \<Rightarrow> u32 \<Rightarrow> sthrift_message" where
  "answer_to body k = SetReply 0 ((sthrift_message_new 0)\<lparr>thrift_method := ''QueryByNo'', seqid := k, thrift_body := body\<rparr>)"

lemma tenc_answer:
  "tenc (SetReply 0 ((sthrift_message_new na)\<lparr>thrift_method := ''QueryByNo'', seqid := k, thrift_body := body\<rparr>))
    = tenc (answer_to body k)"
  by (simp add: answer_to_def thrift_encode_def thrift_encode_head_def SetReply_def sthrift_message_new_def IsReply_def)

lemma answer_event:
  assumes l: "lawful P holds" and service: "th_service h"
    and d: "direction d = E_Request" "holds (memory_buffer P (thrift_body d)) (args_tokens no)"
    and w: "result_write P th_result (memory_empty P 10240) = Some (Inr ((), n, buf))"
  shows "\<exists>r. th_OnEvent P na (event_of i name d) h = Some (Inr [SvcDoSendBack i (ThriftMsg r), DeleteEvent (event_of i name d)])
    \<and> tenc r = tenc (answer_to (getBufferAsString P buf) (seqid d))"
proof -
  obtain k p where "args_read P Serv_QueryByNo_args_new (memory_buffer P (thrift_body d))
      = Some (Inr (\<lparr>args_no = no, args_isset_no = True\<rparr>, k, p))" using args_read_holds [OF l, OF d(2)] by blast
  then show ?thesis using service d(1) w
    by (simp add: th_OnEvent_def th_DealThriftRequest_def event_of_def IsReply_def tenc_answer)
qed

text \<open>What is given to the socket: every write has all that the buffer holds by then.\<close>

fun growing :: "bytes \<Rightarrow> bytes list \<Rightarrow> bytes list" where
  "growing b [] = []"
| "growing b (a # as) = (b @ a) # growing (b @ a) as"

lemma serve_answers:
  assumes l: "lawful P holds" and service: "th_service h"
    and w: "result_write P th_result (memory_empty P 10240) = Some (Inr ((), n, buf))"
  defines "ans \<equiv> \<lambda>k. tenc (answer_to (getBufferAsString P buf) k)"
  assumes s: "map_of (soc_sessions (nt_soc t)) i = Some s" "writer (length (concat (map ans (map seqid ds)))) s"
    and d: "\<forall>d\<in>set ds. direction d = E_Request \<and> (\<exists>no. holds (memory_buffer P (thrift_body d)) (args_tokens no))"
  shows "\<exists>t' s'. serve_calls P env port0 na h (map (\<lambda>d. HOnEvent io (event_of i name d)) ds) t = Some t'
    \<and> map_of (soc_sessions (nt_soc t')) i = Some s'
    \<and> sent (strace s') = sent (strace s) @ growing (cb_contents (cn_writebuf (ss_conn s))) (map ans (map seqid ds))
    \<and> (\<forall>bs. stream_state bs s \<longrightarrow> stream_state bs s')"
  using s d
proof (induction ds arbitrary: t s na)
  case Nil
  then show ?case by simp
next
  case (Cons d ds)
  obtain no where "direction d = E_Request" "holds (memory_buffer P (thrift_body d)) (args_tokens no)" using Cons.prems(3) by auto
  from answer_event [OF l, OF service this w, of na i name] obtain r where
    r: "th_OnEvent P na (event_of i name d) h = Some (Inr [SvcDoSendBack i (ThriftMsg r), DeleteEvent (event_of i name d)])"
      "tenc r = ans (seqid d)" by (auto simp: ans_def)
  have "writer (length (tenc r) + length (concat (map ans (map seqid ds)))) s" using Cons.prems(2) by (simp add: r(2))
  from send_back [OF Cons.prems(1) this, of env] obtain t1 s1 where
    t1: "nt_DoSendBack env i (ThriftMsg r) t = Some t1" "map_of (soc_sessions (nt_soc t1)) i = Some s1"
      "writer (length (concat (map ans (map seqid ds)))) s1"
      "sent (strace s1) = sent (strace s) @ [cb_contents (cn_writebuf (ss_conn s)) @ ans (seqid d)]"
      "cb_contents (cn_writebuf (ss_conn s1)) = cb_contents (cn_writebuf (ss_conn s)) @ ans (seqid d)"
      "\<forall>bs. stream_state bs s \<longrightarrow> stream_state bs s1" unfolding r(2) by blast
  have rest: "\<forall>d\<in>set ds. direction d = E_Request \<and> (\<exists>no. holds (memory_buffer P (thrift_body d)) (args_tokens no))"
    using Cons.prems(3) by simp
  from Cons.IH [OF t1(2,3) rest, of "na + 1"] obtain t2 s2 where
    t2: "serve_calls P env port0 (na + 1) h (map (\<lambda>d. HOnEvent io (event_of i name d)) ds) t1 = Some t2"
      "map_of (soc_sessions (nt_soc t2)) i = Some s2"
      "sent (strace s2) = sent (strace s1) @ growing (cb_contents (cn_writebuf (ss_conn s1))) (map ans (map seqid ds))"
      "\<forall>bs. stream_state bs s1 \<longrightarrow> stream_state bs s2" by blast
  show ?case using r(1) t1 t2 by (intro exI [of _ t2] exI [of _ s2]) simp
qed

section \<open>The read of some calls\<close>

lemma nt_HandleRead_calls:
  assumes s: "map_of (soc_sessions (nt_soc t)) i = Some s" "stream_state [] s" "session_id s = i"
    and c: "c = stream ms" "length c \<le> 1024" and ms: "\<forall>m\<in>set ms. call_ok m" "length ms < fuel" and env: "endpoint_ok env"
  shows "\<exists>t' s' ds. nt_HandleRead env fuel (InSoc i) False (length c) (nt_put (InSoc i) (sock_fill c s) t) = Some t'
    \<and> map_of (soc_sessions (nt_soc t')) i = Some s' \<and> stream_state [] s' \<and> reads_on s s'
    \<and> nt_calls t' = nt_calls t @ map (\<lambda>d. HOnEvent (io_id (nt_io t)) (event_of i (ss_name s') d)) ds
    \<and> map tells ds = map call_of ms \<and> (\<forall>d\<in>set ds. direction d = E_Request) \<and> sent (strace s') = sent (strace s)"
proof -
  have pp: "proper_part [] ([] :: sthrift_message list)" by (simp add: part_of_def)
  have sp: "[] @ c = stream ms @ []" using c by simp
  have ok: "\<forall>m\<in>set (ms @ []). call_ok m" using ms by simp
  have len: "length ([] :: bytes) + 1024 \<le> MAX_PACKET_SIZE" by (simp add: MAX_PACKET_SIZE_def)
  have e: "stream_env False env" using env by (simp add: stream_env_def)
  from thrift.HandleRead_stream [OF s(2) c(2) sp pp ok ms(2) len e fair_break_anywhere] obtain p s' where
    s': "HandleRead env fuel False (length c) (sock_fill c s) = Some (RdPending p, s')" "stream_state [] s'"
      "calls (strace s') = calls (strace s) @ map call_of ms" "reads_on s s'"
    by (auto simp: view_def fold_deliver_call)
  obtain es where es: "strace s' = strace s @ es" "sent es = []" using s'(4) by (auto simp: reads_on_def)
  have id: "session_id s' = i" using s'(4) s(3) by (simp add: reads_on_def session_id_def)
  have cs: "calls es = map call_of ms" using s'(3) es(1) by simp
  then have no: "\<forall>x\<in>set (calls es). is_call x" by (auto simp: call_of_def)
  let ?t = "nt_put (InSoc i) s' (nt_put (InSoc i) (sock_fill c s) t)"
  from nt_effects_calls [OF no, of env s' ?t] obtain ds where
    ds: "nt_effects env s' es ?t = Some (?t\<lparr>nt_calls := nt_calls ?t
        @ map (\<lambda>d. HOnEvent (io_id (nt_io ?t)) (event_of (session_id s') (ss_name s') d)) ds\<rparr>)"
      "map tells ds = calls es" "\<forall>d\<in>set ds. direction d = E_Request" by blast
  have tr: "strace (sock_fill c s) = strace s" by (simp add: sock_fill_def Let_def)
  have "nt_HandleRead env fuel (InSoc i) False (length c) (nt_put (InSoc i) (sock_fill c s) t) = nt_effects env s' es ?t"
    by (simp add: nt_HandleRead_def on_session_def update_conv' s'(1) es(1) tr)
  with ds s' es id cs show ?thesis
    by (intro exI [of _ "?t\<lparr>nt_calls := nt_calls ?t
        @ map (\<lambda>d. HOnEvent (io_id (nt_io ?t)) (event_of (session_id s') (ss_name s') d)) ds\<rparr>"] exI [of _ s'] exI [of _ ds])
      (simp add: update_conv')
qed



end
