(* ===== verification/HttpRequest.thy ===== *)
theory HttpRequest
  imports HttpRoundtrip HttpLocality
begin

text \<open>
  HTTP requests on the wire: what the decoder makes of a complete request, of one that has not arrived
  completely, and that the encoder of the program writes such requests.
\<close>

section \<open>Requests\<close>

text \<open>
  A request with a method that the decoder knows, any header lines without an effect of their own, at most one
  line about the connection and, for a body, its length behind all others.
\<close>

record http_wire =
  hw_method :: string
  hw_url :: string
  hw_version :: EHttpVersion
  hw_lines1 :: "(string \<times> string) list"
  hw_connection :: "bool option"
  hw_lines2 :: "(string \<times> string) list"
  hw_body :: bytes

definition request_methods :: "string list" where
  "request_methods = [''GET'', ''POST'', ''HEAD'', ''TRACE'', ''PUT'', ''DELETE'', ''OPTIONS'', ''CONNECT'']"

definition wire_connection :: "http_wire \<Rightarrow> (string \<times> string) list" where
  "wire_connection w = (case hw_connection w of None \<Rightarrow> [] | Some ka \<Rightarrow> [(''Connection'', connection_text ka)])"

definition wire_length :: "http_wire \<Rightarrow> (string \<times> string) list" where
  "wire_length w = (if hw_body w = [] then [] else [(''Content-Length'', length_text (hw_body w))])"

definition wire_lines :: "http_wire \<Rightarrow> (string \<times> string) list" where
  "wire_lines w = hw_lines1 w @ wire_connection w @ hw_lines2 w @ wire_length w"

definition request_line :: "http_wire \<Rightarrow> bytes" where
  "request_line w = hw_method w @ SP # hw_url w @ SP # version_text (hw_version w)"

definition wire_text :: "http_wire \<Rightarrow> bytes" where
  "wire_text w = request_line w @ CRLF @ hdr_block (wire_lines w) @ CRLF @ hw_body w"

definition wire_ok :: "http_wire \<Rightarrow> bool" where
  "wire_ok w \<longleftrightarrow> hw_method w \<in> set request_methods \<and> SP \<notin> set (hw_url w) \<and> NUL \<notin> set (hw_url w)
     \<and> (\<forall>kv\<in>set (hw_lines1 w @ hw_lines2 w). line_kv_ok kv \<and> harmless_key (fst kv))
     \<and> wire_lines w \<noteq> [] \<and> length (hw_body w) < 2 ^ 31"

definition wire_keepalive :: "http_wire \<Rightarrow> bool" where
  "wire_keepalive w = (case hw_connection w of None \<Rightarrow> hw_version w = HTTP_1_1 | Some ka \<Rightarrow> ka)"

definition request_received :: "http_wire \<Rightarrow> shttp_message \<Rightarrow> shttp_message \<Rightarrow> bool" where
  "request_received w msg m' \<longleftrightarrow>
     http_method m' = hw_method w \<and> url m' = hw_url w \<and> httpversion m' = hw_version w
     \<and> keepalive m' = wire_keepalive w \<and> http_body m' = hw_body w
     \<and> map_of (headers m') = header_map (map_of (headers msg)) (wire_lines w)
     \<and> direction m' = direction msg \<and> isheartbeat m' = isheartbeat msg"

section \<open>The request line\<close>

lemma length_version_text [simp]: "length (version_text v) = 8"
  by (cases v) (simp_all add: version_text_def)

lemma length_request_line: "length (request_line w) = length (hw_method w) + length (hw_url w) + 10"
  by (simp add: request_line_def)

lemma method_size: "k \<in> set request_methods \<Longrightarrow> 3 \<le> length k \<and> length k \<le> 7 \<and> k \<noteq> ''HTTP/''"
proof -
  have "list_all (\<lambda>k. 3 \<le> length k \<and> length k \<le> 7 \<and> k \<noteq> ''HTTP/'') request_methods" by code_simp
  then show "k \<in> set request_methods \<Longrightarrow> 3 \<le> length k \<and> length k \<le> 7 \<and> k \<noteq> ''HTTP/''" by (simp add: list_all_iff)
qed

lemma first_keyword_method:
  assumes "k \<in> set request_methods"
  shows "first_keyword (pre @ k @ r) (length pre) http_keywords = Some (Some k)"
proof -
  have "list_all (\<lambda>k. first_keyword (pre @ k @ r) (length pre) http_keywords = Some (Some k)) request_methods"
    by (simp add: request_methods_def caseeq_at_def http_keywords_def c_tolower_def c_isupper_def)
  with assms show ?thesis by (simp add: list_all_iff)
qed

lemma version_at:
  "http_version_at (pre @ version_text v @ r) (length pre + 5) m = Some (Some (with_version v m))"
  by (cases v) (simp_all add: version_text_def with_version_def http_version_at_hit [simplified])

text \<open>Behind the whole request line and one byte more, decoding is decoding the headers.\<close>

definition line_read :: "http_wire \<Rightarrow> shttp_message \<Rightarrow> shttp_message" where
  "line_read w msg = with_version (hw_version w) (msg\<lparr>http_method := hw_method w, url := hw_url w\<rparr>)"

lemma decode_request_line_eq:
  assumes w: "wire_ok w" and len: "16 \<le> len" "length (request_line w) < len"
  shows "http_decode spt (pre @ request_line w @ r) (length pre) len ps msg
    = http_headers_part spt (pre @ request_line w @ r) (length pre) (length pre + len) (length pre + length (request_line w) + 2)
        (ps\<lparr>contentlen := 0, ischunked := False\<rparr>) (line_read w msg)"
proof -
  let ?k = "hw_method w" and ?u = "hw_url w"
  define M where "M = pre @ request_line w @ r"
  have m: "?k \<in> set request_methods" "SP \<notin> set ?u" "NUL \<notin> set ?u" using w by (simp_all add: wire_ok_def)
  have M1: "M = pre @ ?k @ SP # ?u @ SP # version_text (hw_version w) @ r" by (simp add: M_def request_line_def)
  have M2: "M = (pre @ ?k @ [SP]) @ ?u @ SP # version_text (hw_version w) @ r" by (simp add: M1)
  have M3: "M = (pre @ ?k @ SP # ?u @ [SP]) @ version_text (hw_version w) @ r" by (simp add: M1)
  have kw: "first_keyword M (length pre) http_keywords = Some (Some ?k)" unfolding M1 by (rule first_keyword_method [OF m(1)])
  have nh: "?k \<noteq> ''HTTP/''" using method_size [OF m(1)] by blast
  have s1: "sub M (length pre) (length ?k) = Some ?k" by (simp add: M1 sub_def)
  have c: "strchr_at M (length pre + length ?k + 1) SP = Some (Some (length pre + length ?k + 1 + length ?u))"
    unfolding strchr_at_def M2 using c_strchr_hit [OF m(2,3)] by simp
  have s2: "sub M (length pre + length ?k + 1) (length ?u) = Some ?u" by (simp add: M2 sub_def)
  have v: "http_version_at M (length pre + length ?k + 1 + length ?u + 6) m = Some (Some (with_version (hw_version w) m))" for m
    unfolding M3 using version_at [of "pre @ ?k @ SP # ?u @ [SP]" "hw_version w" r m] by (simp add: add.commute add.left_commute)
  have lim: "\<not> length pre + len \<le> length pre + length ?k + 1 + length ?u + 9"
    using len(2) by (simp add: length_request_line)
  have e: "length pre + length ?k + 1 + length ?u + 11 = length pre + length (request_line w) + 2" by (simp add: length_request_line)
  have "decode_request_line spt M (length pre) (length pre + len) (ps\<lparr>contentlen := 0, ischunked := False\<rparr>) msg ?k
    = http_headers_part spt M (length pre) (length pre + len) (length pre + length (request_line w) + 2)
        (ps\<lparr>contentlen := 0, ischunked := False\<rparr>) (line_read w msg)"
    unfolding decode_request_line_def Let_def s1 c bind.bind_lunit option.case e [symmetric]
    using lim s2 v by (simp add: line_read_def)
  then show ?thesis unfolding M_def [symmetric] using len kw nh by (simp add: http_decode_lines Let_def)
qed

section \<open>A complete request\<close>

lemma core_eq_keepalive: "core_eq m m1 \<Longrightarrow> core_eq (m\<lparr>keepalive := ka\<rparr>) ((AddHeader k v m1)\<lparr>keepalive := ka\<rparr>)"
  by (cases m; cases m1) (simp add: core_eq_def AddHeader_def)

lemma connection_parsed:
  assumes "core_eq m m1" "hw_connection w = None \<Longrightarrow> keepalive m = (hw_version w = HTTP_1_1)"
  shows "\<exists>m2. parse_lines spt (wire_connection w) (ps, m1) = Some (ps, m2) \<and> core_eq (m\<lparr>keepalive := wire_keepalive w\<rparr>) m2"
proof (cases "hw_connection w")
  case None
  have e: "m\<lparr>keepalive := wire_keepalive w\<rparr> = m" using assms(2) [OF None] None by (cases m) (simp add: wire_keepalive_def)
  show ?thesis unfolding e using None assms(1) by (simp add: wire_connection_def)
next
  case (Some ka)
  then show ?thesis
    using parse_line_connection [of spt ka ps m1] core_eq_keepalive [OF assms(1)]
    by (simp add: wire_connection_def wire_keepalive_def del: list.map)
qed

lemma length_parsed:
  assumes "length (hw_body w) < 2 ^ 31" "contentlen ps = 0"
  shows "\<exists>m2. parse_lines spt (wire_length w) (ps, m) = Some (ps\<lparr>contentlen := int (length (hw_body w))\<rparr>, m2) \<and> core_eq m m2"
proof (cases "hw_body w = []")
  case True
  have "ps\<lparr>contentlen := 0\<rparr> = ps" using assms(2) by (cases ps) simp
  with True show ?thesis by (simp add: wire_length_def)
next
  case False
  then show ?thesis using parse_line_content_length [OF assms(1), of spt ps m] by (simp add: wire_length_def)
qed

lemma wire_lines_parsed:
  assumes w: "wire_ok w" and ps: "contentlen ps = 0" and m: "keepalive m = (hw_version w = HTTP_1_1)"
  shows "\<exists>m'. parse_lines spt (wire_lines w) (ps, m) = Some (ps\<lparr>contentlen := int (length (hw_body w))\<rparr>, m')
    \<and> core_eq (m\<lparr>keepalive := wire_keepalive w\<rparr>) m'"
proof -
  have h: "\<forall>kv\<in>set (hw_lines1 w). harmless_key (fst kv)" "\<forall>kv\<in>set (hw_lines2 w). harmless_key (fst kv)"
    and b: "length (hw_body w) < 2 ^ 31" using w by (auto simp: wire_ok_def)
  obtain m1 where m1: "parse_lines spt (hw_lines1 w) (ps, m) = Some (ps, m1)" "core_eq m m1"
    using parse_lines_harmless [OF h(1)] by blast
  obtain m2 where m2: "parse_lines spt (wire_connection w) (ps, m1) = Some (ps, m2)" "core_eq (m\<lparr>keepalive := wire_keepalive w\<rparr>) m2"
    using connection_parsed [OF m1(2), of w spt ps] m by blast
  obtain m3 where m3: "parse_lines spt (hw_lines2 w) (ps, m2) = Some (ps, m3)" "core_eq m2 m3"
    using parse_lines_harmless [OF h(2)] by blast
  obtain m4 where m4: "parse_lines spt (wire_length w) (ps, m3) = Some (ps\<lparr>contentlen := int (length (hw_body w))\<rparr>, m4)" "core_eq m3 m4"
    using length_parsed [OF b ps, of spt m3] by blast
  have "core_eq (m\<lparr>keepalive := wire_keepalive w\<rparr>) m4" using m2(2) m3(2) m4(2) core_eq_trans by blast
  then show ?thesis using m1(1) m2(1) m3(1) m4(1) by (simp add: wire_lines_def parse_lines_append)
qed

lemma wire_lines_ok: "wire_ok w \<Longrightarrow> \<forall>kv\<in>set (wire_lines w). line_kv_ok kv"
  using connection_line_ok last_line_ok(1) [of "hw_body w"]
  by (auto simp: wire_ok_def wire_lines_def wire_connection_def wire_length_def split: option.splits)

lemma wire_text_size: "wire_ok w \<Longrightarrow> length (request_line w) + 7 \<le> length (wire_text w) \<and> 16 \<le> length (wire_text w)"
  using method_size [of "hw_method w"]
  by (cases "wire_lines w") (auto simp: wire_ok_def wire_text_def length_request_line)

lemma request_decoded:
  assumes w: "wire_ok w" and len: "length (wire_text w) \<le> len" and body: "http_body msg = []"
  shows "\<exists>ps' m'. http_decode spt (pre @ wire_text w @ r) (length pre) len ps msg
      = Some (PAt (int (length pre + length (wire_text w))), ps', m') \<and> request_received w msg m'"
proof -
  let ?L = "wire_lines w" and ?b = "hw_body w"
  let ?pre2 = "pre @ request_line w @ CRLF" and ?ps1 = "ps\<lparr>contentlen := 0, ischunked := False\<rparr>"
  define H where "H = ?pre2 @ hdr_block ?L @ CRLF"
  obtain kv kvs where L: "?L = kv # kvs" using w by (cases ?L) (auto simp: wire_ok_def)
  have mem: "pre @ wire_text w @ r = pre @ request_line w @ (CRLF @ hdr_block ?L @ CRLF @ ?b @ r)"
    "pre @ wire_text w @ r = ?pre2 @ hdr_block ?L @ CRLF @ (?b @ r)" "pre @ wire_text w @ r = H @ ?b @ r"
    by (simp_all add: wire_text_def H_def)
  have big: "16 \<le> len" "length (request_line w) < len" using wire_text_size [OF w] len by linarith+
  have lim: "length ?pre2 + length (hdr_block ?L) \<le> length pre + len + 2" "length H + length ?b \<le> length pre + len"
    using len by (simp_all add: wire_text_def H_def)
  obtain m' where m': "parse_lines spt ?L (?ps1, line_read w msg) = Some (?ps1\<lparr>contentlen := int (length ?b)\<rparr>, m')"
    and ce: "core_eq ((line_read w msg)\<lparr>keepalive := wire_keepalive w\<rparr>) m'"
    using wire_lines_parsed [OF w, of ?ps1 "line_read w msg" spt] by (auto simp: line_read_def with_version_def)
  define ps2 where "ps2 = ?ps1\<lparr>contentlen := int (length ?b)\<rparr>"
  have body': "http_body m' = []" using core_eq_fields(2) [OF ce] body by (simp add: line_read_def with_version_def)
  have "http_decode spt (pre @ wire_text w @ r) (length pre) len ps msg
      = http_headers_part spt (pre @ wire_text w @ r) (length pre) (length pre + len) (length ?pre2) ?ps1 (line_read w msg)"
    unfolding mem(1) using decode_request_line_eq [OF w big] by (simp add: add.assoc)
  also have "\<dots> = http_body_part (H @ ?b @ r) (length pre) (length pre + len) (length H) ps2 m'"
    unfolding mem(2) using m' http_headers_part_block [of kv kvs ?pre2 "length pre + len" spt "?b @ r"] wire_lines_ok [OF w] lim(1)
    by (simp only: L ps2_def) (simp add: H_def L add.assoc)
  also have "\<dots> = Some (PAt (int (length H + length ?b)), ps2, m'\<lparr>http_body := ?b\<rparr>)"
    by (rule plain_body_part) (use lim(2) body' in \<open>simp_all add: ps2_def\<close>)
  also have "length H + length ?b = length pre + length (wire_text w)" by (simp add: H_def wire_text_def)
  finally have d: "http_decode spt (pre @ wire_text w @ r) (length pre) len ps msg
      = Some (PAt (int (length pre + length (wire_text w))), ps2, m'\<lparr>http_body := ?b\<rparr>)" .
  have "map_of (headers m') = header_map (map_of (headers msg)) ?L"
    using parse_lines_headers [OF m'] by (simp add: line_read_def with_version_def)
  then have "request_received w msg (m'\<lparr>http_body := ?b\<rparr>)"
    using core_eq_fields [OF ce] by (simp add: request_received_def line_read_def with_version_def)
  with d show ?thesis by blast
qed

section \<open>The encoder writes such requests\<close>

definition host_line :: "shttp_message \<Rightarrow> (string \<times> string) list" where
  "host_line m = (case fst (split_url (url m)) of Some h \<Rightarrow> if h \<noteq> [] then [(''Host'', h)] else [] | None \<Rightarrow> [])"

definition wire_of :: "http_env \<Rightarrow> shttp_message \<Rightarrow> http_wire" where
  "wire_of env m =
     \<lparr>hw_method = (if http_method m = [] then ''GET'' else http_method m), hw_url = snd (split_url (url m)),
      hw_version = httpversion m, hw_lines1 = host_line m @ map cstr_pair (he_iter_h env (headers m)),
      hw_connection = Some (keepalive m),
      hw_lines2 = default_lines sm_default_request_header
        (left_defaults (he_iter_h env (headers m)) (map fst sm_default_request_header)),
      hw_body = http_body m\<rparr>"

text \<open>A request without cookies whose parts can stand in a message.\<close>

definition request_ok :: "http_env \<Rightarrow> shttp_message \<Rightarrow> bool" where
  "request_ok env m \<longleftrightarrow> http_env_ok env \<and> direction m = E_Request \<and> cookies m = []
     \<and> (http_method m = [] \<or> http_method m \<in> set request_methods) \<and> SP \<notin> set (url m) \<and> NUL \<notin> set (url m) \<and> CR \<notin> set (url m)
     \<and> (\<forall>kv\<in>set (headers m). line_kv_ok kv \<and> harmless_key (fst kv))
     \<and> NUL \<notin> set (http_body m) \<and> length (http_body m) < 2 ^ 31"

lemma method_plain: "k \<in> set request_methods \<Longrightarrow> NUL \<notin> set k"
proof -
  have "list_all (\<lambda>k. NUL \<notin> set k) request_methods" by code_simp
  then show "k \<in> set request_methods \<Longrightarrow> NUL \<notin> set k" by (simp add: list_all_iff)
qed

lemma request_encoded:
  assumes "request_ok env m"
  shows "concat (http_encode env m) = wire_text (wire_of env m)"
proof -
  obtain host target where st: "split_url (url m) = (host, target)" by (cases "split_url (url m)")
  obtain hs ds where eh: "encode_headers (he_iter_h env (headers m)) (map fst sm_default_request_header) = (hs, ds)" by fastforce
  have h: "concat hs = hdr_block (map cstr_pair (he_iter_h env (headers m)))"
    "ds = left_defaults (he_iter_h env (headers m)) (map fst sm_default_request_header)"
    using encode_headers_eq [of "he_iter_h env (headers m)" "map fst sm_default_request_header"] by (simp_all add: eh)
  have ck: "he_iter_c env (cookies m) = []" using assms by (simp add: request_ok_def http_env_ok_def)
  have me: "c_str (http_method m) = http_method m" "c_str (http_body m) = http_body m"
    using assms method_plain by (auto simp: request_ok_def c_str_def takeWhile_eq_all_conv)
  have "concat (case host of Some h \<Rightarrow> if h \<noteq> [] then [''Host: '', h, CRLF] else [] | None \<Rightarrow> []) = hdr_block (host_line m)"
    by (simp add: host_line_def st split: option.splits)
  moreover have "direction m = E_Request" using assms by (simp add: request_ok_def)
  ultimately show ?thesis
    using me by (simp add: http_encode_def EncodeRequest_def st eh h(1) h(2) [symmetric] encode_defaults_eq ck encode_request_cookies_def
        wire_text_def wire_of_def request_line_def wire_lines_def wire_connection_def wire_length_def version_text_def)
qed

lemma split_url_parts:
  assumes "x \<notin> set u" "x \<noteq> CHR ''/''" shows "x \<notin> set (snd (split_url u)) \<and> (\<forall>h. fst (split_url u) = Some h \<longrightarrow> x \<notin> set h)"
  using assms by (auto simp: split_url_def Let_def c_str_def split: option.splits if_splits dest!: in_set_takeD in_set_dropD set_takeWhileD)

lemma request_defaults_ok:
  "list_all (\<lambda>kv. line_kv_ok kv \<and> harmless_key (fst kv)) (default_lines sm_default_request_header (map fst sm_default_request_header))"
  by code_simp

lemma wire_of_ok:
  assumes ok: "request_ok env m" shows "wire_ok (wire_of env m)"
proof -
  have it: "set (he_iter_h env (headers m)) = set (headers m)" using ok by (auto simp: request_ok_def http_env_ok_def iter_perm_set)
  have u: "x \<notin> set (snd (split_url (url m))) \<and> (\<forall>h. fst (split_url (url m)) = Some h \<longrightarrow> x \<notin> set h)" if "x \<in> {SP, NUL, CR}" for x
    using that ok by (intro split_url_parts) (auto simp: request_ok_def)
  have ev: "key_ok ''Host''" "harmless_key ''Host''" by code_simp+
  have hl: "line_kv_ok kv \<and> harmless_key (fst kv)" if "kv \<in> set (host_line m)" for kv
  proof -
    from that obtain h where h: "fst (split_url (url m)) = Some h" "h \<noteq> []" "kv = (''Host'', h)"
      by (cases "fst (split_url (url m))") (auto simp: host_line_def split: if_splits)
    with u have "SP \<notin> set h" "NUL \<notin> set h" "CR \<notin> set h" by auto
    moreover from this h(2) have "hd h \<noteq> SP" "last h \<noteq> SP" by (metis hd_in_set, metis last_in_set)
    ultimately have "field_ok h" using h(2) by (simp add: field_ok_def)
    with ev h(3) show ?thesis by (simp add: line_kv_ok_def)
  qed
  have hd: "line_kv_ok (cstr_pair kv) \<and> harmless_key (fst (cstr_pair kv))" if "kv \<in> set (headers m)" for kv
  proof -
    from that ok have "line_kv_ok kv" "harmless_key (fst kv)" by (auto simp: request_ok_def)
    moreover from this(1) have "cstr_pair kv = kv" by (simp add: line_kv_ok_def key_ok_def field_ok_def cstr_pair_def)
    ultimately show ?thesis by simp
  qed
  have d: "line_kv_ok kv \<and> harmless_key (fst kv)"
    if "kv \<in> set (default_lines sm_default_request_header ds)" "set ds \<subseteq> set (map fst sm_default_request_header)" for kv ds
  proof -
    from that have "kv \<in> set (default_lines sm_default_request_header (map fst sm_default_request_header))"
      unfolding default_lines_def set_map by blast
    with request_defaults_ok show ?thesis unfolding list_all_iff by blast
  qed
  have me: "(if http_method m = [] then ''GET'' else http_method m) \<in> set request_methods"
    using ok by (auto simp: request_ok_def) (simp_all add: request_methods_def)
  have lines: "\<forall>kv\<in>set (hw_lines1 (wire_of env m) @ hw_lines2 (wire_of env m)). line_kv_ok kv \<and> harmless_key (fst kv)"
    using hl hd d [OF _ left_defaults_subset] by (auto simp: wire_of_def it)
  have "wire_lines (wire_of env m) \<noteq> []" by (simp add: wire_lines_def wire_connection_def wire_of_def)
  moreover have "length (hw_body (wire_of env m)) < 2 ^ 31" using ok by (simp add: request_ok_def wire_of_def)
  moreover have "SP \<notin> set (hw_url (wire_of env m))" "NUL \<notin> set (hw_url (wire_of env m))" using u by (simp_all add: wire_of_def)
  moreover have "hw_method (wire_of env m) \<in> set request_methods" using me by (simp add: wire_of_def)
  ultimately show ?thesis using lines by (simp add: wire_ok_def)
qed

text \<open>
  C8. The decoder inverts the encoder on requests without cookies: placed anywhere in a buffer and followed by anything, an
  encoded request is consumed exactly and gives back its method, the path of its URL, version, keep-alive flag and
  body, and every header line, with the host of an absolute URL in one of its own.
\<close>

theorem http_request_roundtrip:
  assumes "request_ok env m" and "http_body msg = []" and "length (concat (http_encode env m)) \<le> len"
  shows "\<exists>ps' m'. http_decode spt (pre @ concat (http_encode env m) @ r) (length pre) len ps msg
      = Some (PAt (int (length pre + length (concat (http_encode env m)))), ps', m')
    \<and> http_method m' = (if http_method m = [] then ''GET'' else http_method m) \<and> url m' = snd (split_url (url m))
    \<and> httpversion m' = httpversion m \<and> keepalive m' = keepalive m \<and> http_body m' = http_body m
    \<and> map_of (headers m') = header_map (map_of (headers msg)) (wire_lines (wire_of env m))"
proof -
  note e = request_encoded [OF assms(1)]
  from request_decoded [OF wire_of_ok [OF assms(1)] assms(3) [unfolded e] assms(2), of spt pre r ps] obtain ps' m' where
    d: "http_decode spt (pre @ wire_text (wire_of env m) @ r) (length pre) len ps msg
      = Some (PAt (int (length pre + length (wire_text (wire_of env m)))), ps', m')" "request_received (wire_of env m) msg m'" by blast
  then show ?thesis unfolding e
    by (intro exI [of _ ps'] exI [of _ m']) (simp add: request_received_def, simp add: wire_of_def wire_keepalive_def)
qed

definition sample_request :: shttp_message where
  "sample_request = (shttp_message_new 1)\<lparr>url := ''http://host/a/b'', httpversion := HTTP_1_1, keepalive := True,
     http_body := ''x=1'', headers := [(''X-Trace'', ''a b'')]\<rparr>"

theorem http_request_roundtrip_witness:
  "\<exists>ps' m'. http_decode (\<lambda>_. None) (''xy'' @ concat (http_encode sample_env sample_request) @ ''GE'') 2
       (length (concat (http_encode sample_env sample_request)) + 2) http_parser_new (shttp_message_new 2)
      = Some (PAt (int (2 + length (concat (http_encode sample_env sample_request)))), ps', m')
    \<and> http_method m' = ''GET'' \<and> url m' = ''/a/b'' \<and> http_body m' = ''x=1'' \<and> map_of (headers m') ''host'' = Some ''host''"
proof -
  have "http_env_ok sample_env" by (simp add: http_env_ok_def sample_env_def)
  moreover have "direction sample_request = E_Request \<and> cookies sample_request = [] \<and> http_method sample_request = []
      \<and> SP \<notin> set (url sample_request) \<and> NUL \<notin> set (url sample_request) \<and> CR \<notin> set (url sample_request)
      \<and> (\<forall>kv\<in>set (headers sample_request). line_kv_ok kv \<and> harmless_key (fst kv)) \<and> NUL \<notin> set (http_body sample_request)"
    by code_simp
  moreover have "length (http_body sample_request) < 2 ^ 31" by (simp add: sample_request_def)
  ultimately have ok: "request_ok sample_env sample_request" by (simp add: request_ok_def)
  have b: "http_body (shttp_message_new 2) = []" by (simp add: shttp_message_new_def)
  have l: "length (concat (http_encode sample_env sample_request)) \<le> length (concat (http_encode sample_env sample_request)) + 2" by simp
  have two: "length ''xy'' = 2" by simp
  have f: "http_method sample_request = []" "http_body sample_request = ''x=1''" "headers (shttp_message_new 2) = []"
    by (simp_all add: sample_request_def shttp_message_new_def)
  have u: "snd (split_url (url sample_request)) = ''/a/b''" by code_simp
  have h: "header_map (map_of []) (wire_lines (wire_of sample_env sample_request)) ''host'' = Some ''host''" by code_simp
  obtain ps' m' where d: "http_decode (\<lambda>_. None) (''xy'' @ concat (http_encode sample_env sample_request) @ ''GE'') 2
       (length (concat (http_encode sample_env sample_request)) + 2) http_parser_new (shttp_message_new 2)
      = Some (PAt (int (2 + length (concat (http_encode sample_env sample_request)))), ps', m')"
    "http_method m' = (if http_method sample_request = [] then ''GET'' else http_method sample_request)"
    "url m' = snd (split_url (url sample_request))" "http_body m' = http_body sample_request"
    "map_of (headers m') = header_map (map_of (headers (shttp_message_new 2))) (wire_lines (wire_of sample_env sample_request))"
    using http_request_roundtrip [OF ok b l, of "\<lambda>_. None" "''xy''" "''GE''" http_parser_new] unfolding two by blast
  have "map_of (headers m') ''host'' = Some ''host''" unfolding d(5) f(3) by (rule h)
  with d(1-4) f u show ?thesis by (intro exI [of _ ps'] exI [of _ m']) simp
qed

end
