(* ===== verification/HttpCut.thy ===== *)
theory HttpCut
  imports HttpRequest
begin

text \<open>
  A request that has not arrived completely. Behind what has arrived stands what the buffer held before, and the
  searches of the decoder read on into it; if the memory ends in a NUL they stay inside, and nothing they
  find there makes the decoder take the request for complete.
\<close>

section \<open>Searches in memory that ends in a NUL\<close>

lemma c_prefix_defined: "NUL \<in> set s \<Longrightarrow> NUL \<notin> set pat \<Longrightarrow> \<exists>b. c_prefix pat s = Some b"
  by (induction pat s rule: c_prefix.induct) auto

lemma c_strstr_defined: "NUL \<in> set s \<Longrightarrow> NUL \<notin> set pat \<Longrightarrow> \<exists>r. c_strstr pat s = Some r"
proof (induction s)
  case (Cons x xs)
  obtain b where "c_prefix pat (x # xs) = Some b" using c_prefix_defined [OF Cons(2,3)] by blast
  with Cons show ?case by (cases b) auto
qed simp

lemma c_strchr_defined: "NUL \<in> set s \<Longrightarrow> \<exists>r. c_strchr c s = Some r"
  by (induction s) auto

lemma last_in_drop: "p < length mem \<Longrightarrow> last mem \<in> set (drop p mem)"
  by (metis drop_eq_Nil2 last_drop last_in_set linorder_not_le)

lemma strstr_at_defined: "p < length mem \<Longrightarrow> last mem = NUL \<Longrightarrow> NUL \<notin> set pat \<Longrightarrow> \<exists>r. strstr_at mem p pat = Some r"
  using c_strstr_defined [of "drop p mem" pat] last_in_drop [of p mem] by (auto simp: strstr_at_def)

lemma strchr_at_defined: "p < length mem \<Longrightarrow> last mem = NUL \<Longrightarrow> \<exists>r. strchr_at mem p c = Some r"
  using c_strchr_defined [of "drop p mem" c] last_in_drop [of p mem] by (auto simp: strchr_at_def)

lemma c_strstr_first:
  "c_strstr pat s = Some (Some i) \<Longrightarrow> j < i \<Longrightarrow> take (length pat) (drop j s) \<noteq> pat"
proof (induction s arbitrary: i j)
  case (Cons x xs)
  obtain b where b: "c_prefix pat (x # xs) = Some b" using Cons(2) by (auto split: option.splits)
  show ?case
  proof (cases b)
    case True
    with Cons(2,3) b show ?thesis by simp
  next
    case False
    with Cons(2) b obtain i' where i': "i = Suc i'" "c_strstr pat xs = Some (Some i')" by (auto split: if_splits)
    show ?thesis
    proof (cases j)
      case 0
      with b False show ?thesis using c_prefix_True_iff [of pat "x # xs"] by auto
    next
      case (Suc k)
      with Cons(1) [OF i'(2), of k] Cons(3) i'(1) show ?thesis by simp
    qed
  qed
qed simp

section \<open>The value of a line that is cut\<close>

lemma fmt_base_prefix:
  assumes "2 \<le> b" "k \<le> length (fmt_base b n)" "0 < k"
  shows "\<exists>m\<le>n. take k (fmt_base b n) = fmt_base b m"
  using assms(2,3)
proof (induction n arbitrary: k rule: less_induct)
  case (less n)
  show ?case
  proof (cases "n < b")
    case True
    with less(2,3) have "take k (fmt_base b n) = fmt_base b n" by (simp add: fmt_base.simps [of b n])
    then show ?thesis by blast
  next
    case False
    have e: "fmt_base b n = fmt_base b (n div b) @ [xdigit (n mod b)]" using False assms(1) by (simp add: fmt_base.simps [of b n])
    have d: "n div b < n" using False assms(1) by (intro div_less_dividend) auto
    show ?thesis
    proof (cases "k \<le> length (fmt_base b (n div b))")
      case True
      from less(1) [OF d True less(3)] obtain m where "m \<le> n div b" "take k (fmt_base b (n div b)) = fmt_base b m" by blast
      then show ?thesis using True d by (intro exI [of _ m]) (simp add: e)
    next
      case F: False
      then have "take k (fmt_base b n) = fmt_base b n" by (simp add: e)
      then show ?thesis by blast
    qed
  qed
qed

definition calm :: "http_parser \<Rightarrow> bool" where
  \<comment> \<open>the parser waits for a body of a known length, if any\<close>
  "calm ps \<longleftrightarrow> \<not> ischunked ps \<and> 0 \<le> contentlen ps"

definition line_calm :: "string \<times> string \<Rightarrow> bool" where
  "line_calm kv \<longleftrightarrow> line_kv_ok kv \<and> (harmless_key (fst kv) \<or> fst kv = ''Connection''
     \<or> (\<exists>n<2 ^ 31. kv = (''Content-Length'', fmt_u n)))"

text \<open>The value that the decoder sees is a trimmed part of \<open>w\<close>, the beginning of what stands behind the colon.\<close>

definition seen_value :: "bytes \<Rightarrow> string" where
  "seen_value w = (if w = [] then [] else trim_right (trim_left w))"

lemma seen_value_digits:
  assumes "x \<noteq> []" "SP \<notin> set x" shows "seen_value (SP # x) = x"
proof -
  have "hd x \<noteq> SP" "last x \<noteq> SP" using assms by (metis hd_in_set, metis last_in_set)
  with assms(1) show ?thesis by (simp add: seen_value_def)
qed

lemma atoi_blank: "c_atoi [NUL] = Some 0" "c_atoi [SP, NUL] = Some 0"
  by code_simp+

lemma atoi_seen:
  assumes "n < 2 ^ 31" "w = take i (SP # fmt_u n @ [CR])"
  shows "\<exists>m\<ge>0. c_atoi (seen_value w @ [NUL]) = Some m"
proof -
  consider (none) "i = 0" | (space) "i = 1" | (digits) k where "i = Suc k" "0 < k" "k \<le> length (fmt_u n)"
    | (all) "length (fmt_u n) + 1 < i" by (cases i) (auto, fastforce)
  then show ?thesis
  proof cases
    case none
    then have "seen_value w = []" using assms(2) by (simp add: seen_value_def)
    then show ?thesis by (simp add: atoi_blank)
  next
    case space
    then have "seen_value w = [SP]" using assms(2) by (simp add: seen_value_def trim_right_def)
    then show ?thesis by (simp add: atoi_blank)
  next
    case digits
    obtain m where m: "m \<le> n" "take k (fmt_u n) = fmt_u m" using fmt_base_prefix [of 10 k n] digits by (auto simp: fmt_u_def)
    have "SP \<notin> set (fmt_u m)" using fmt_u_digit [of SP m] by (auto simp: c_isdigit_def)
    moreover have "w = SP # fmt_u m" using assms(2) digits m(2) by simp
    ultimately have "seen_value w = fmt_u m" by (simp add: seen_value_digits fmt_u_nonempty)
    moreover have "c_atoi (fmt_u m @ [NUL]) = Some (int m)"
      using m(1) assms(1) by (intro c_atoi_fmt_u) (simp_all add: c_isdigit_def)
    ultimately show ?thesis by simp
  next
    case all
    then have w: "w = SP # (fmt_u n @ [CR])" using assms(2) by simp
    have "SP \<notin> set (fmt_u n @ [CR])" using fmt_u_digit [of SP n] by (auto simp: c_isdigit_def)
    then have "seen_value w = fmt_u n @ [CR]" unfolding w by (intro seen_value_digits) simp_all
    moreover have "c_atoi (fmt_u n @ CR # [NUL]) = Some (int n)"
      using assms(1) by (intro c_atoi_fmt_u) (simp_all add: c_isdigit_def)
    ultimately show ?thesis by simp
  qed
qed

lemma ParseHeader_calm:
  assumes kv: "line_calm (k, v)" and v': "v' = seen_value (take i (SP # v @ [CR]))" and ps: "calm ps"
  shows "\<exists>ps1 m1. ParseHeader spt (map c_tolower k) v' ps m = Some (ps1, m1) \<and> calm ps1"
proof -
  consider (h) "harmless_key k" | (c) "k = ''Connection''" | (l) n where "n < 2 ^ 31" "k = ''Content-Length''" "v = fmt_u n"
    using kv by (auto simp: line_calm_def)
  then show ?thesis
  proof cases
    case h
    obtain m' where "DecodeCookie spt v' m = Some m'" using DecodeCookie_defined by blast
    with h ps show ?thesis by (auto simp: ParseHeader_def harmless_key_def)
  next
    case c
    then show ?thesis unfolding c connection_evals(1) using ps by (simp add: ParseHeader_def connection_evals)
  next
    case l
    obtain m where "m \<ge> 0" "c_atoi (v' @ [NUL]) = Some m" using atoi_seen [OF l(1) refl, of i] v' l(3) by auto
    then show ?thesis unfolding l(2) length_evals(1) using ps by (simp add: ParseHeader_def length_evals calm_def)
  qed
qed

section \<open>The header lines of a request that is cut\<close>

lemma header_line_no_colon:
  assumes "mem = pre @ p @ r" "CHR '':'' \<notin> set p" "r \<noteq> []" "last r = NUL"
  shows "header_line spt mem (length pre) (length pre + length p) ps m = Some (ps, m)"
proof -
  have "length pre < length mem" "last mem = NUL" using assms by simp_all
  from strchr_at_defined [OF this] obtain co where co: "strchr_at mem (length pre) (CHR '':'') = Some co" by blast
  have "\<not> colon < length pre + length p" if "co = Some colon" for colon
  proof
    assume "colon < length pre + length p"
    moreover have "length pre \<le> colon" "mem ! colon = CHR '':''" using strchr_at_SomeD co that by blast+
    moreover from calculation have lt: "colon - length pre < length p" by linarith
    ultimately have "p ! (colon - length pre) = CHR '':''" by (simp add: assms(1) nth_append)
    with assms(2) lt show False by (metis nth_mem)
  qed
  with co show ?thesis by (auto simp: header_line_def split: option.splits)
qed

lemma header_line_cut:
  assumes kv: "line_calm kv" and p: "p = take j (hdr_line kv @ [CR])" and r: "r \<noteq> []" "last r = NUL" and ps: "calm ps"
  shows "\<exists>ps1 m1. header_line spt (pre @ p @ r) (length pre) (length pre + length p) ps m = Some (ps1, m1) \<and> calm ps1"
proof -
  obtain k v where e: "kv = (k, v)" by (cases kv)
  have k: "k \<noteq> []" "hd k \<noteq> SP" "last k \<noteq> SP" "CHR '':'' \<notin> set k" "NUL \<notin> set k"
    using kv by (auto simp: e line_calm_def line_kv_ok_def key_ok_def field_ok_def)
  show ?thesis
  proof (cases "j \<le> length k")
    case True
    then have "CHR '':'' \<notin> set p" using k(4) by (auto simp: p e hdr_line_def dest: in_set_takeD)
    from header_line_no_colon [OF refl this r, of spt pre ps m] ps show ?thesis by blast
  next
    case False
    define i where "i = j - length k - 1"
    define w where "w = take i (SP # v @ [CR])"
    have "j = length k + Suc i" using False by (simp add: i_def)
    then have pw: "p = k @ CHR '':'' # w" by (simp add: p e w_def hdr_line_def)
    let ?mem = "pre @ p @ r"
    have mem: "?mem = pre @ k @ CHR '':'' # w @ r" by (simp add: pw)
    have colon: "strchr_at ?mem (length pre) (CHR '':'') = Some (Some (length pre + length k))"
      using k by (simp add: strchr_at_def mem c_strchr_hit)
    have t1: "trim ?mem (length pre) (length k) True = Some (map c_tolower k)"
      unfolding mem using trim_at [of k pre "CHR '':'' # w @ r" True] k by simp
    have t2: "trim ?mem (length pre + length k + 1) (length w) False = Some (seen_value w)"
    proof (cases "w = []")
      case True
      then show ?thesis using r(1) by (simp add: trim_def seen_value_def pw)
    next
      case False
      then show ?thesis unfolding mem using trim_at [of w "pre @ k @ '':''" r False] by (simp add: seen_value_def)
    qed
    obtain ps1 m1 where "ParseHeader spt (map c_tolower k) (seen_value w) ps (AddHeader (map c_tolower k) (seen_value w) m) = Some (ps1, m1)"
      "calm ps1" using ParseHeader_calm [OF kv [unfolded e] _ ps] w_def by blast
    with colon t1 t2 show ?thesis by (simp add: header_line_def pw)
  qed
qed

lemma parse_line_calm:
  assumes kv: "line_calm kv" and ps: "calm ps"
  shows "\<exists>ps1 m1. parse_line spt kv (ps, m) = Some (ps1, m1) \<and> calm ps1"
proof -
  obtain k v where e: "kv = (k, v)" by (cases kv)
  have v: "v \<noteq> []" "hd v \<noteq> SP" "last v \<noteq> SP" using kv by (auto simp: e line_calm_def line_kv_ok_def field_ok_def)
  have "v = seen_value (take (Suc (length v)) (SP # v @ [CR]))" using v by (simp add: seen_value_def)
  from ParseHeader_calm [OF kv [unfolded e] this ps] show ?thesis by (simp add: parse_line_def e Let_def)
qed

text \<open>What can stand before the point where the data ends.\<close>

definition piece :: "bytes \<Rightarrow> bool" where
  "piece p \<longleftrightarrow> p \<noteq> [] \<and> (p = [CR] \<or> (\<exists>kv j. line_calm kv \<and> p = take j (hdr_line kv @ [CR])))"

lemma piece_line:
  assumes "piece p" "r \<noteq> []" "last r = NUL" "calm ps"
  shows "\<exists>ps1 m1. header_line spt (pre @ p @ r) (length pre) (length pre + length p) ps m = Some (ps1, m1) \<and> calm ps1"
proof (cases "p = [CR]")
  case True
  then show ?thesis using header_line_no_colon [of "pre @ p @ r" pre p r spt ps m] assms by auto
next
  case False
  with assms(1) obtain kv j where "line_calm kv" "p = take j (hdr_line kv @ [CR])" by (auto simp: piece_def)
  from header_line_cut [OF this assms(2-4)] show ?thesis .
qed

lemma c_strstr_crlf_CR: "c_strstr CRLF (CR # CR # LF # r) = Some (Some 1)"
  by simp

lemma c_strstr_crlf_skip:
  "CR \<notin> set xs \<Longrightarrow> NUL \<notin> set xs \<Longrightarrow> c_strstr CRLF (xs @ CR # CR # LF # r) = Some (Some (length xs + 1))"
proof (induction xs)
  case (Cons x xs)
  then have "c_prefix CRLF (x # xs @ CR # CR # LF # r) = Some False" by auto
  moreover have "x \<noteq> NUL" using Cons.prems by auto
  ultimately show ?case using Cons by simp
qed simp

lemma line_calm_plain: "line_calm kv \<Longrightarrow> CR \<notin> set (hdr_line kv) \<and> NUL \<notin> set (hdr_line kv) \<and> hdr_line kv \<noteq> []"
  using line_ok_hdr_line [of kv] by (auto simp: line_calm_def line_ok_def)

lemma piece_crlf:
  assumes "piece p" shows "strstr_at (pre @ p @ CRLF @ r) (length pre) CRLF = Some (Some (length pre + length p))"
proof -
  have "c_strstr CRLF (p @ CR # LF # r) = Some (Some (length p))"
  proof (cases "CR \<in> set p")
    case False
    have "NUL \<notin> set p"
    proof (cases "p = [CR]")
      case F: False
      with assms obtain kv j where kv: "line_calm kv" "p = take j (hdr_line kv @ [CR])" by (auto simp: piece_def)
      then have "set p \<subseteq> set (hdr_line kv @ [CR])" by (metis set_take_subset)
      with line_calm_plain [OF kv(1)] show ?thesis by auto
    qed simp
    with False show ?thesis by (rule c_strstr_crlf_hit)
  next
    case True
    have "\<exists>l. CR \<notin> set l \<and> NUL \<notin> set l \<and> p = l @ [CR]"
    proof (cases "p = [CR]")
      case F: False
      with assms obtain kv j where kv: "line_calm kv" "p = take j (hdr_line kv @ [CR])" by (auto simp: piece_def)
      note pl = line_calm_plain [OF kv(1)]
      have "\<not> j \<le> length (hdr_line kv)" using True pl kv(2) by (auto dest: in_set_takeD)
      then have "p = hdr_line kv @ [CR]" using kv(2) by simp
      with pl show ?thesis by blast
    qed (auto intro: exI [of _ "[]"])
    then show ?thesis using c_strstr_crlf_skip [of _ r] by force
  qed
  then show ?thesis by (simp add: strstr_at_def)
qed

lemma header_loop_cut:
  assumes "\<forall>x\<in>set kvs. line_calm x" "piece p" "r \<noteq> []" "last r = NUL" "calm ps"
    and "headend = length pre + length (hdr_block kvs) + length p"
  shows "\<exists>e ps1 m1. strstr_at (pre @ hdr_block kvs @ p @ CRLF2 @ r) (length pre) CRLF = Some e
    \<and> header_loop spt (pre @ hdr_block kvs @ p @ CRLF2 @ r) headend (length pre) e ps m = Some (ps1, m1) \<and> calm ps1"
  using assms
proof (induction kvs arbitrary: pre ps m)
  case Nil
  let ?mem = "pre @ p @ CRLF @ CRLF @ r"
  have pn: "0 < length p" using Nil(2) by (auto simp: piece_def)
  have he: "headend = length pre + length p" using Nil(6) by simp
  have e: "strstr_at ?mem (length pre) CRLF = Some (Some headend)" using piece_crlf [OF Nil(2), of pre "CRLF @ r"] by (simp add: he)
  obtain ps1 m1 where l: "header_line spt ?mem (length pre) headend ps m = Some (ps1, m1)" "calm ps1"
    using piece_line [OF Nil(2) _ _ Nil(5), of "CRLF @ CRLF @ r" spt pre m] Nil(3,4) by (auto simp: he)
  have "headend + 2 < length ?mem" "last ?mem = NUL" using Nil(3,4) by (simp_all add: he)
  from strstr_at_defined [OF this, of CRLF] obtain e' where e': "strstr_at ?mem (headend + 2) CRLF = Some e'" by auto
  have "header_loop spt ?mem headend (headend + 2) e' ps1 m1 = Some (ps1, m1)" by (cases e') simp_all
  then have "header_loop spt ?mem headend (length pre) (Some headend) ps m = Some (ps1, m1)"
    using l e' pn he by simp
  with e l(2) show ?case by (intro exI [of _ "Some headend"] exI [of _ ps1] exI [of _ m1]) simp
next
  case (Cons kv kvs)
  let ?pre2 = "pre @ hdr_line kv @ CRLF" and ?rest = "hdr_block kvs @ p @ CRLF2 @ r" and ?e = "length pre + length (hdr_line kv)"
  define M where "M = pre @ hdr_block (kv # kvs) @ p @ CRLF2 @ r"
  have mem: "M = pre @ hdr_line kv @ CR # LF # ?rest" "M = ?pre2 @ ?rest" by (simp_all add: M_def hdr_line_def)
  have kv: "line_calm kv" "line_kv_ok kv" using Cons(2) by (auto simp: line_calm_def)
  note pl = line_calm_plain [OF kv(1)]
  have e: "strstr_at M (length pre) CRLF = Some (Some ?e)" unfolding mem(1) using pl by (intro strstr_at_crlf) simp_all
  obtain ps1 m1 where l: "parse_line spt kv (ps, m) = Some (ps1, m1)" "calm ps1" using parse_line_calm [OF kv(1) Cons(6)] by blast
  have hl: "header_line spt M (length pre) ?e ps m = Some (ps1, m1)"
    unfolding mem(1) using header_line_eq [OF kv(2), of spt pre "CR # LF # ?rest" ps m] l(1) by simp
  have he: "headend = length ?pre2 + length (hdr_block kvs) + length p" using Cons(7) by (simp add: hdr_line_def)
  have ok: "\<forall>x\<in>set kvs. line_calm x" using Cons(2) by simp
  from Cons.IH [OF ok Cons(3-5) l(2) he, of m1] obtain e' ps2 m2 where IH: "strstr_at M (length ?pre2) CRLF = Some e'"
    "header_loop spt M headend (length ?pre2) e' ps1 m1 = Some (ps2, m2)" "calm ps2" unfolding mem(2) by blast
  have len: "?e + 2 = length ?pre2" by simp
  have "length pre < headend" "?e \<le> headend" using he by simp_all
  then have "header_loop spt M headend (length pre) (Some ?e) ps m = Some (ps2, m2)"
    using hl IH(1,2) unfolding len [symmetric] by (subst header_loop.simps(2)) simp
  with e IH(3) show ?case unfolding M_def [symmetric] by (intro exI [of _ "Some ?e"] exI [of _ ps2] exI [of _ m2]) simp
qed

lemma cut_block:
  assumes "\<forall>x\<in>set kvs. line_calm x" "i < length (hdr_block kvs @ CRLF)"
  shows "\<exists>ls p. take i (hdr_block kvs @ CRLF) = hdr_block ls @ p \<and> (\<forall>x\<in>set ls. line_calm x) \<and> (p = [] \<or> piece p)"
  using assms
proof (induction kvs arbitrary: i)
  case Nil
  then have "i = 0 \<or> i = 1" by auto
  then show ?case by (intro exI [of _ "[]"] exI [of _ "take i CRLF"]) (auto simp: piece_def)
next
  case (Cons kv kvs)
  have e: "hdr_block (kv # kvs) @ CRLF = (hdr_line kv @ CRLF) @ hdr_block kvs @ CRLF" by (simp add: hdr_line_def)
  show ?case
  proof (cases "i < length (hdr_line kv @ CRLF)")
    case True
    have e2: "hdr_block (kv # kvs) @ CRLF = (hdr_line kv @ [CR]) @ LF # hdr_block kvs @ CRLF" by (simp add: hdr_line_def)
    have "take i (hdr_block (kv # kvs) @ CRLF) = take i (hdr_line kv @ [CR])"
      unfolding e2 using True by (subst take_append) simp
    moreover have "take i (hdr_line kv @ [CR]) = [] \<or> piece (take i (hdr_line kv @ [CR]))"
      using Cons.prems(1) unfolding piece_def by (metis list.set_intros(1))
    ultimately show ?thesis
      by (intro exI [of _ "[]"] exI [of _ "take i (hdr_line kv @ [CR])"]) (simp only: hdr_block_simps append_Nil list.set ball_empty simp_thms)
  next
    case False
    define i' where "i' = i - length (hdr_line kv @ CRLF)"
    have t: "take i (hdr_block (kv # kvs) @ CRLF) = (hdr_line kv @ CRLF) @ take i' (hdr_block kvs @ CRLF)"
      unfolding e i'_def using False by (subst take_append) simp
    have "i' < length (hdr_block kvs @ CRLF)" using Cons.prems(2) False unfolding e i'_def by simp
    from Cons.IH [OF _ this] Cons.prems(1) obtain ls p where "take i' (hdr_block kvs @ CRLF) = hdr_block ls @ p"
      "\<forall>x\<in>set ls. line_calm x" "p = [] \<or> piece p" by auto
    then show ?thesis using t Cons.prems(1) by (intro exI [of _ "kv # ls"] exI [of _ p]) (simp add: hdr_line_def)
  qed
qed

lemma block_end:
  assumes "kvs \<noteq> []" "\<forall>x\<in>set kvs. line_calm x"
  shows "c_strstr CRLF2 (hdr_block kvs @ CRLF) = Some (Some (length (hdr_block kvs) - 2))"
proof -
  obtain kv ks where k: "kvs = kv # ks" using assms(1) by (cases kvs) auto
  have l: "\<forall>l\<in>set (map hdr_line ks). line_ok l" "line_ok (hdr_line kv)"
    using assms(2) line_calm_plain by (auto simp: k line_ok_def)
  show ?thesis
    using c_strstr_crlf2_lines [OF l, of "[]"] by (simp add: k hdr_block_as_lines comp_def del: hdr_block_simps)
qed

text \<open>The data ends inside the header lines or right behind them.\<close>

lemma headers_part_cut:
  assumes kvs: "kvs \<noteq> []" "\<forall>x\<in>set kvs. line_calm x" and k: "k < length (hdr_block kvs @ CRLF)"
    and r: "r \<noteq> []" "last r = NUL" and ps: "calm ps"
  shows "\<exists>ps1 m1. http_headers_part spt (pre @ take k (hdr_block kvs @ CRLF) @ r) buf (length pre + k) (length pre) ps m
    = Some (PAt (int buf), ps1, m1)"
proof -
  define X where "X = hdr_block kvs @ CRLF"
  define s where "s = take k X @ r"
  define mem where "mem = pre @ s"
  have mem_eq: "pre @ take k (hdr_block kvs @ CRLF) @ r = mem" by (simp add: mem_def s_def X_def)
  have "length pre < length mem" "last mem = NUL" using r by (simp_all add: mem_def s_def)
  from strstr_at_defined [OF this, of CRLF2] obtain ho where ho: "strstr_at mem (length pre) CRLF2 = Some ho" by auto
  show ?thesis
  proof (cases "\<exists>h. ho = Some h \<and> \<not> length pre + k < h")
    case False
    with ho show ?thesis unfolding mem_eq by (auto simp: http_headers_part_def split: option.splits)
  next
    case True
    then obtain h where h: "ho = Some h" "h \<le> length pre + k" by auto
    define i where "i = h - length pre"
    have ci: "c_strstr CRLF2 s = Some (Some i)" "h = length pre + i"
      using ho h(1) by (auto simp: strstr_at_def mem_def i_def)
    have ik: "i \<le> k" using h(2) ci(2) by simp
    have iX: "i < length (hdr_block kvs @ CRLF)" using ik k by simp
    from cut_block [OF kvs(2) iX] obtain ls p where lp: "take i X = hdr_block ls @ p" "\<forall>x\<in>set ls. line_calm x" "p = [] \<or> piece p"
      by (auto simp: X_def)
    define r2 where "r2 = drop (i + 4) s"
    have "take 4 (drop i s) = CRLF2" using c_strstr_SomeD [OF ci(1)] by (simp add: numeral_eq_Suc)
    then have "drop i s = CRLF2 @ r2" by (metis append_take_drop_id drop_drop add.commute r2_def)
    moreover have ti: "take i s = take i X" using ik k by (simp add: s_def X_def min_def)
    ultimately have s: "s = hdr_block ls @ p @ CRLF2 @ r2" using lp(1) by (metis append_take_drop_id append.assoc)
    have r2: "r2 \<noteq> []" "last r2 = NUL"
    proof -
      have "last s = NUL" using r by (simp add: s_def)
      then show "r2 \<noteq> []" unfolding s by (cases "r2 = []") auto
      then show "last r2 = NUL" using \<open>last s = NUL\<close> unfolding s by simp
    qed
    have len: "length (hdr_block ls) + length p = i" using arg_cong [OF lp(1), of length] iX by (simp add: X_def)
    have "\<exists>e ps1 m1. strstr_at mem (length pre) CRLF = Some e
        \<and> header_loop spt mem h (length pre) e ps m = Some (ps1, m1) \<and> calm ps1"
    proof (cases "p = []")
      case False
      with lp(3) have "piece p" by simp
      moreover have "h = length pre + length (hdr_block ls) + length p" using len ci(2) by simp
      ultimately show ?thesis using header_loop_cut [OF lp(2) _ r2 ps] unfolding mem_def s by blast
    next
      case p: True
      have "ls = []"
      proof (rule ccontr)
        assume "ls \<noteq> []"
        then obtain xs x where "ls = xs @ [x]" by (meson rev_exhaust)
        then have sq: "s = (hdr_block xs @ hdr_line x) @ CRLF @ CRLF @ CRLF @ r2" and
          li: "i = length (hdr_block xs @ hdr_line x) + 2"
          using s p len by (simp_all add: hdr_line_def)
        have "drop (i - 2) s = CRLF @ CRLF @ CRLF @ r2" unfolding sq li by simp
        then have "take (length CRLF2) (drop (i - 2) s) = CRLF2" by simp
        moreover have "i - 2 < i" using li by simp
        ultimately show False using c_strstr_first [OF ci(1)] by blast
      qed
      with p len have "h = length pre" using ci(2) by simp
      moreover have "length pre < length mem" "last mem = NUL" using r by (simp_all add: mem_def s_def)
      then obtain e where "strstr_at mem (length pre) CRLF = Some e" using strstr_at_defined [of "length pre" mem CRLF] by auto
      ultimately show ?thesis using ps by (cases e) auto
    qed
    then obtain e ps1 m1 where e: "strstr_at mem (length pre) CRLF = Some e"
      "header_loop spt mem h (length pre) e ps m = Some (ps1, m1)" "calm ps1" by blast
    have "k < i + 4"
    proof (rule ccontr)
      assume "\<not> k < i + 4"
      moreover have kX: "k < length X" using k by (simp add: X_def)
      ultimately have "take 4 (drop i s) = take 4 (drop i X)" by (simp add: s_def drop_take)
      then have "take (length CRLF2) (drop i X) = take 4 (drop i s)" by (simp add: numeral_eq_Suc)
      also have "\<dots> = CRLF2" using \<open>drop i s = CRLF2 @ r2\<close> by simp
      finally have "\<not> i < length (hdr_block kvs) - 2" using c_strstr_first [OF block_end [OF kvs]] by (auto simp: X_def)
      with \<open>\<not> k < i + 4\<close> k show False by simp
    qed
    then have "int (length pre + k) < int (h + 4) + contentlen ps1" using e(3) ci(2) by (simp add: calm_def)
    then have "http_body_part mem buf (length pre + k) (h + 4) ps1 m1 = Some (PAt (int buf), ps1, m1)"
      using e(3) by (simp add: http_body_part_def calm_def)
    with ho h e show ?thesis unfolding mem_eq by (simp add: http_headers_part_def)
  qed
qed

section \<open>A request that has not arrived completely\<close>

lemma wire_lines_calm:
  assumes w: "wire_ok w" shows "\<forall>kv\<in>set (wire_lines w). line_calm kv"
proof
  fix kv assume kv: "kv \<in> set (wire_lines w)"
  have "harmless_key (fst kv) \<or> fst kv = ''Connection'' \<or> (\<exists>n<2 ^ 31. kv = (''Content-Length'', fmt_u n))"
  proof -
    consider "kv \<in> set (hw_lines1 w @ hw_lines2 w)" | "kv \<in> set (wire_connection w)" | "kv \<in> set (wire_length w)"
      using kv by (auto simp: wire_lines_def)
    then show ?thesis
    proof cases
      case 1
      then show ?thesis using w unfolding wire_ok_def by blast
    next
      case 2
      then show ?thesis by (auto simp: wire_connection_def split: option.splits)
    next
      case 3
      have "length (hw_body w) < 2 ^ 31" using w unfolding wire_ok_def by blast
      with 3 length_text_plain show ?thesis by (auto simp: wire_length_def split: if_splits)
    qed
  qed
  with wire_lines_ok [OF w] kv show "line_calm kv" by (simp add: line_calm_def)
qed

definition request_break :: "http_wire \<Rightarrow> nat \<Rightarrow> bool" where
  \<comment> \<open>the data does not end inside the request line behind its first 15 bytes\<close>
  "request_break w k \<longleftrightarrow> k < 16 \<or> length (request_line w) + 2 \<le> k"

lemma request_partial:
  assumes w: "wire_ok w" and k: "k < length (wire_text w)" "request_break w k" and r: "r \<noteq> []" "last r = NUL"
  shows "\<exists>ps' m'. http_decode spt (pre @ take k (wire_text w) @ r) (length pre) k ps msg = Some (PAt (int (length pre)), ps', m')"
proof (cases "k < 16")
  case True
  then show ?thesis by (simp add: http_decode_lines)
next
  case False
  let ?L = "wire_lines w" and ?b = "hw_body w" and ?ps1 = "ps\<lparr>contentlen := 0, ischunked := False\<rparr>"
  let ?pre2 = "pre @ request_line w @ CRLF"
  define j where "j = k - length (request_line w @ CRLF)"
  have kj: "k = length (request_line w @ CRLF) + j" "16 \<le> k" "length (request_line w) < k"
    using False k(2) by (auto simp: j_def request_break_def)
  have tk: "take k (wire_text w) = request_line w @ CRLF @ take j ((hdr_block ?L @ CRLF) @ ?b)"
    by (simp add: wire_text_def kj(1))
  have d: "http_decode spt (pre @ take k (wire_text w) @ r) (length pre) k ps msg
      = http_headers_part spt (?pre2 @ take j ((hdr_block ?L @ CRLF) @ ?b) @ r) (length pre) (length ?pre2 + j) (length ?pre2) ?ps1 (line_read w msg)"
    unfolding tk using decode_request_line_eq [OF w kj(2,3), of spt pre "CRLF @ take j ((hdr_block ?L @ CRLF) @ ?b) @ r" ps msg] kj(1)
    by (simp add: add.assoc add.commute add.left_commute)
  obtain kv kvs where L: "?L = kv # kvs" using w by (cases ?L) (auto simp: wire_ok_def)
  show ?thesis
  proof (cases "j < length (hdr_block ?L @ CRLF)")
    case True
    then have t: "take j ((hdr_block ?L @ CRLF) @ ?b) = take j (hdr_block ?L @ CRLF)" by (simp only: take_append) simp
    show ?thesis unfolding d t
      by (rule headers_part_cut [OF _ wire_lines_calm [OF w] True r]) (simp_all add: L calm_def)
  next
    case False
    define i where "i = j - length (hdr_block ?L @ CRLF)"
    have ji: "j = length (hdr_block ?L @ CRLF) + i" using False by (simp add: i_def)
    have t: "take j ((hdr_block ?L @ CRLF) @ ?b) @ r = hdr_block ?L @ CRLF @ (take i ?b @ r)" by (simp add: ji)
    have ib: "i < length ?b" using k(1) kj(1) ji by (simp add: wire_text_def)
    obtain m' where m': "parse_lines spt ?L (?ps1, line_read w msg) = Some (?ps1\<lparr>contentlen := int (length ?b)\<rparr>, m')"
      using wire_lines_parsed [OF w, of ?ps1 "line_read w msg" spt] by (auto simp: line_read_def with_version_def)
    have lim: "length ?pre2 + length (hdr_block (kv # kvs)) \<le> length ?pre2 + j + 2" using ji L by simp
    have ok: "\<forall>x\<in>set (kv # kvs). line_kv_ok x" using wire_lines_ok [OF w] L by simp
    have "http_headers_part spt (?pre2 @ hdr_block ?L @ CRLF @ (take i ?b @ r)) (length pre) (length ?pre2 + j) (length ?pre2) ?ps1 (line_read w msg)
      = http_body_part (?pre2 @ hdr_block ?L @ CRLF @ (take i ?b @ r)) (length pre) (length ?pre2 + j)
          (length ?pre2 + length (hdr_block ?L) + 2) (?ps1\<lparr>contentlen := int (length ?b)\<rparr>) m'"
      using http_headers_part_block [OF ok lim, of spt "take i ?b @ r" "length pre" ?ps1 "line_read w msg"] m' by (simp only: L) simp
    also have "\<dots> = Some (PAt (int (length pre)), ?ps1\<lparr>contentlen := int (length ?b)\<rparr>, m')"
      using ib ji by (simp add: http_body_part_def)
    finally show ?thesis unfolding d t by blast
  qed
qed

end
