(* ===== verification/HttpStream.thy ===== *)
theory HttpStream
  imports StreamRead HttpCut
begin

text \<open>
  The HTTP parser and session keep the contract of \<open>StreamRead\<close> for requests with a body of known length, if no
  read ends inside a request line. What happens to a request that is cut there.
\<close>

section \<open>The contract\<close>

definition wire_ready :: "http_wire \<Rightarrow> bool" where
  "wire_ready w \<longleftrightarrow> wire_ok w \<and> length (wire_text w) + 1024 \<le> MAX_PACKET_SIZE"

definition request_means :: "http_wire \<Rightarrow> net_msg \<Rightarrow> bool" where
  "request_means w m2 \<longleftrightarrow> (\<exists>m. m2 = HttpMsg m \<and> request_received w (shttp_message_new 0) m)"

definition request_of :: "u32 \<Rightarrow> http_wire \<Rightarrow> told" where
  \<comment> \<open>what the owner is told of the request, with the number the session gives it\<close>
  "request_of n w = Request n (hw_method w) (hw_url w) (hw_version w) (wire_keepalive w) (hw_body w)
     (header_map (\<lambda>_. None) (wire_lines w))"

definition deliver_request :: "http_wire \<Rightarrow> view \<Rightarrow> view" where
  "deliver_request w v =
     (let (cs, n, d) = v in (cs @ [request_of (n + 1) w], n + 1, d @ [\<lparr>ri_no = n + 1, ri_response = None\<rparr>]))"

fun numbered :: "u32 \<Rightarrow> http_wire list \<Rightarrow> told list" where
  "numbered n [] = []"
| "numbered n (w # ws) = request_of (n + 1) w # numbered (n + 1) ws"

fun waiting_items :: "u32 \<Rightarrow> nat \<Rightarrow> response_item list" where
  \<comment> \<open>so many requests behind the number \<open>n\<close>, none of them answered\<close>
  "waiting_items n 0 = []"
| "waiting_items n (Suc k) = \<lparr>ri_no = n + 1, ri_response = None\<rparr> # waiting_items (n + 1) k"

lemma fold_deliver_request:
  "fold deliver_request ws (cs, n, d) = (cs @ numbered n ws, n + of_nat (length ws), d @ waiting_items n (length ws))"
  by (induction ws arbitrary: cs n d) (simp_all add: deliver_request_def add.commute add.left_commute)

lemma http_fresh:
  assumes "msg_Init now ip port (new_message HttpParser a) = Some m1"
  obtains x where "m1 = HttpMsg x" "http_body x = []" "headers x = []" "direction x = E_Request" "\<not> isheartbeat x"
  using assms by (auto simp: new_message_def event_Init_def shttp_message_new_def bind_eq_Some_iff)

lemma http_complete:
  assumes w: "wire_ready w" and c: "cn_kind c = HttpParser" "cb_base (cn_buffer c) = pre @ wire_text w @ rest"
    and len: "length (wire_text w) \<le> len" and ini: "msg_Init now ip port (new_message HttpParser a) = Some m1"
  shows "\<exists>ps m2. conn_decode env c (length pre) len m1
    = Some (PAt (int (length pre + length (wire_text w))), c\<lparr>cn_parser := ps\<rparr>, m2) \<and> request_means w m2"
proof -
  obtain x where x: "m1 = HttpMsg x" "http_body x = []" "headers x = []" "direction x = E_Request" "\<not> isheartbeat x"
    using http_fresh [OF ini] .
  have "wire_ok w" using w by (simp add: wire_ready_def)
  from request_decoded [OF this len x(2)] obtain ps' m' where
    d: "http_decode (ne_spt env) (pre @ wire_text w @ rest) (length pre) len (cn_parser c) x
        = Some (PAt (int (length pre + length (wire_text w))), ps', m')" "request_received w x m'" by blast
  then have "request_received w (shttp_message_new 0) m'" using x(3-5) by (simp add: request_received_def shttp_message_new_def)
  with d(1) c x(1) show ?thesis by (auto simp: request_means_def)
qed

lemma http_partial:
  assumes w: "wire_ready w" and c: "cn_kind c = HttpParser" "cb_base (cn_buffer c) = pre @ take k (wire_text w) @ rest"
    and k: "k < length (wire_text w)" "request_break w k" and rest: "True \<longrightarrow> rest \<noteq> [] \<and> last rest = NUL"
    and ini: "msg_Init now ip port (new_message HttpParser a) = Some m1"
  shows "\<exists>ps m2. conn_decode env c (length pre) k m1 = Some (PAt (int (length pre)), c\<lparr>cn_parser := ps\<rparr>, m2)"
proof -
  obtain x where x: "m1 = HttpMsg x" using http_fresh [OF ini] by blast
  have "wire_ok w" using w by (simp add: wire_ready_def)
  from request_partial [OF this k, of rest "ne_spt env" pre "cn_parser c" x] rest c x show ?thesis by auto
qed

lemma http_delivered:
  assumes r: "reader HttpParser s" and mm: "request_means w m2" and w: "wire_ready w"
  shows "\<exists>s1 e. session_OnRead env m2 s = Some s1 \<and> reader HttpParser s1
    \<and> ss_conn s1 = emit (EvRead e) (ss_conn s) \<and> view s1 = deliver_request w (view s)"
proof -
  obtain m where m: "m2 = HttpMsg m" "request_received w (shttp_message_new 0) m" using mm by (auto simp: request_means_def)
  have mf: "direction m = E_Request" "\<not> isheartbeat m" using m(2) by (simp_all add: request_received_def shttp_message_new_def)
  define n where "n = ss_dwseq s + 1"
  define m' where "m' = HttpMsg (m\<lparr>requestno := n\<rparr>)"
  define s0 where "s0 = s\<lparr>ss_dwseq := n, ss_deque := ss_deque s @ [\<lparr>ri_no = n, ri_response = None\<rparr>]\<rparr>"
  have req: "nm_direction m' = E_Request" "\<not> nm_isheartbeat m'" using mf by (simp_all add: m'_def)
  have on: "session_OnRead env m2 s = Some (semit (EvRead m') (SetStatus S_CONNECTED s0))"
    using r mf(1) base_OnRead_request [OF req, of s0 env] by (simp add: m(1) reader_def n_def [symmetric] s0_def m'_def Let_def)
  have "told_request (m\<lparr>requestno := n\<rparr>) = request_of n w"
    using m(2) by (simp add: told_request_def request_of_def request_received_def shttp_message_new_def)
  then have "view (semit (EvRead m') (SetStatus S_CONNECTED s0)) = deliver_request w (view s)"
    using mf(1) by (simp add: view_def deliver_request_def semit_def emit_def SetStatus_def s0_def m'_def n_def)
  moreover have "reader HttpParser (semit (EvRead m') (SetStatus S_CONNECTED s0))"
    using r by (simp add: reader_def semit_def emit_def SetStatus_def s0_def)
  moreover have "ss_conn (semit (EvRead m') (SetStatus S_CONNECTED s0)) = emit (EvRead m') (ss_conn s)"
    by (simp add: semit_def SetStatus_def s0_def)
  ultimately show ?thesis using on by blast
qed

interpretation http: stream_protocol HttpParser True wire_text wire_ready request_break request_means deliver_request
proof (unfold_locales, goal_cases)
  case (1 w)
  then show ?case using wire_text_size [of w] by (auto simp: wire_ready_def)
next
  case 2
  then show ?case by (intro http_complete)
next
  case 3
  then show ?case by (intro http_partial)
next
  case 4
  then show ?case by (intro http_delivered)
qed

section \<open>Requests in pieces\<close>


definition sample_memory :: bytes where "sample_memory = replicate 2048 NUL"

lemma sample_memory: "length sample_memory = 2048" "last sample_memory = NUL"
  unfolding sample_memory_def by (simp, rule last_replicate) simp

definition sample_http_reader :: "session \<Rightarrow> session" where
  "sample_http_reader s = s\<lparr>ss_http := True, ss_owner := True, ss_dwseq := 0, ss_deque := [],
     ss_conn := sample_writer\<lparr>cn_kind := HttpParser,
       cn_buffer := \<lparr>cb_base = sample_memory, cb_capacity = 2048, cb_loc = 0\<rparr>\<rparr>\<rparr>"

definition sample_get :: http_wire where
  "sample_get = \<lparr>hw_method = ''GET'', hw_url = ''/testthrift'', hw_version = HTTP_1_1, hw_lines1 = [(''Host'', ''a'')],
     hw_connection = None, hw_lines2 = [], hw_body = []\<rparr>"

definition sample_post :: http_wire where
  "sample_post = \<lparr>hw_method = ''POST'', hw_url = ''/x'', hw_version = HTTP_1_0, hw_lines1 = [],
     hw_connection = Some True, hw_lines2 = [(''Accept'', ''any'')], hw_body = ''xy''\<rparr>"

lemma sample_http_reader_ready:
  "stream_ready HttpParser True [] (sample_http_reader s)" "strace (sample_http_reader s) = []"
  "ss_dwseq (sample_http_reader s) = 0" "ss_deque (sample_http_reader s) = []"
  by (simp_all add: stream_ready_def reader_def buffer_state_def sample_http_reader_def sample_writer_def cbuffer_ok_def
      cb_contents_def c_str_def sample_memory)

lemma sample_lengths: "length (wire_text sample_get) = 37" "length (wire_text sample_post) = 78" "length (request_line sample_get) = 24"
  by code_simp+

lemma sample_wires: "wire_ready sample_get" "wire_ready sample_post"
proof -
  have "list_all (\<lambda>w. hw_method w \<in> set request_methods \<and> SP \<notin> set (hw_url w) \<and> NUL \<notin> set (hw_url w)
     \<and> (\<forall>kv\<in>set (hw_lines1 w @ hw_lines2 w). line_kv_ok kv \<and> harmless_key (fst kv)) \<and> wire_lines w \<noteq> []) [sample_get, sample_post]"
    by code_simp
  moreover have "length (hw_body sample_get) < 2 ^ 31" "length (hw_body sample_post) < 2 ^ 31"
    by (simp_all add: sample_get_def sample_post_def)
  ultimately show "wire_ready sample_get" "wire_ready sample_post"
    by (simp_all add: wire_ready_def wire_ok_def sample_lengths MAX_PACKET_SIZE_def)
qed


section \<open>A request line in two pieces\<close>

lemma cut_line_rejected:
  assumes w: "wire_ok w" and k: "16 \<le> k" "k \<le> length (request_line w)" and r: "r \<noteq> []" "last r = NUL"
  shows "\<exists>ps' m'. http_decode spt (pre @ take k (wire_text w) @ r) (length pre) k ps msg = Some (PNull, ps', m')"
proof -
  let ?k = "hw_method w" and ?u = "hw_url w"
  have m: "?k \<in> set request_methods" "SP \<notin> set ?u" using w by (simp_all add: wire_ok_def)
  define j where "j = k - (length ?k + 1)"
  have kj: "k = length ?k + 1 + j" "j \<le> length ?u + 9" using method_size [OF m(1)] k by (simp_all add: j_def length_request_line)
  define D where "D = take j (?u @ SP # version_text (hw_version w) @ CRLF @ hdr_block (wire_lines w) @ CRLF @ hw_body w)"
  have t: "take k (wire_text w) = ?k @ SP # D" by (simp add: wire_text_def request_line_def kj(1) D_def)
  define M where "M = pre @ take k (wire_text w) @ r"
  have M1: "M = pre @ ?k @ (SP # D @ r)" and M2: "M = (pre @ ?k @ [SP]) @ D @ r" by (simp_all add: M_def t)
  have kw: "first_keyword M (length pre) http_keywords = Some (Some ?k)" unfolding M1 by (rule first_keyword_method [OF m(1)])
  have s1: "sub M (length pre) (length ?k) = Some ?k" by (simp add: M1 sub_def)
  let ?b = "length pre + length ?k + 1"
  have "?b < length M" "last M = NUL" using r by (simp_all add: M2)
  from strchr_at_defined [OF this] obtain eo where eo: "strchr_at M ?b SP = Some eo" by blast
  have far: "length pre + k \<le> e + 9" if "eo = Some e" for e
  proof (rule ccontr)
    assume "\<not> length pre + k \<le> e + 9"
    moreover have "?b \<le> e" "M ! e = SP" using strchr_at_SomeD eo that by blast+
    moreover define i where "i = e - ?b"
    ultimately have i: "i + 9 < j" "M ! (?b + i) = SP" using kj(1) by simp_all
    have lD: "length D \<ge> min j (length ?u + 9)" by (simp add: D_def)
    then have iD: "i < length D" "i < length ?u" using i(1) kj(2) by simp_all
    have "M ! (?b + i) = D ! i" unfolding M2 using iD(1) by (simp add: nth_append)
    also have "\<dots> = ?u ! i" using i(1) iD by (simp add: D_def nth_append)
    finally show False using i(2) m(2) iD(2) by (metis nth_mem)
  qed
  have nh: "?k \<noteq> ''HTTP/''" using method_size [OF m(1)] by blast
  have "\<exists>m'. decode_request_line spt M (length pre) (length pre + k) (ps\<lparr>contentlen := 0, ischunked := False\<rparr>) msg ?k
      = Some (PNull, ps\<lparr>contentlen := 0, ischunked := False\<rparr>, m')"
    using s1 eo far by (cases eo) (simp_all add: decode_request_line_def Let_def)
  with kw nh k(1) show ?thesis unfolding M_def [symmetric] by (auto simp: http_decode_lines Let_def)
qed

lemma clean_history_deque: "ss_deque (clean_history ts s) = ss_deque s"
  by (induction ts s rule: clean_history.induct) (simp_all add: reply_error_def)

lemma clean_waiting_deque: "ss_deque (clean_waiting ws s) = ss_deque s"
  by (induction ws s rule: clean_waiting.induct) (simp_all add: reply_error_def)

lemma close_deque: "ss_deque (conn_OnPeerClose s) = ss_deque s"
  by (simp add: conn_OnPeerClose_def Let_def session_OnPeerClose_def CleanRequestAndCallBack_def clean_history_deque clean_waiting_deque start_reconnect_def)



end
