(* ===== verification/HttpServe.thy ===== *)
theory HttpServe
  imports HttpStream
begin

text \<open>
  Pipelined HTTP from the socket to the socket: requests that arrive in pieces, answered by the application in any
  order.
\<close>

definition request_numbers :: "u32 \<Rightarrow> nat \<Rightarrow> u32 list" where
  "request_numbers n k = map (\<lambda>i. n + of_nat (Suc i)) [0..<k]"

lemma request_numbers_Suc: "request_numbers n (Suc k) = (n + 1) # request_numbers (n + 1) k"
  unfolding request_numbers_def map_upt_Suc by (simp add: add.commute add.left_commute)

lemma waiting_items_numbers: "waiting_items n k = items (\<lambda>_. None) (request_numbers n k)"
  by (induction k arbitrary: n) (simp_all add: request_numbers_Suc, simp_all add: items_def request_numbers_def)

lemma request_numbers_distinct: "k < 2 ^ 32 \<Longrightarrow> distinct (request_numbers n k)"
proof -
  assume k: "k < 2 ^ 32"
  have "inj_on (\<lambda>i. n + of_nat (Suc i)) {..<k}"
  proof (rule inj_onI)
    fix i j assume ij: "i \<in> {..<k}" "j \<in> {..<k}" "n + of_nat (Suc i) = n + of_nat (Suc j)"
    then have "(of_nat i :: u32) = of_nat j" by simp
    moreover have "unat (of_nat i :: u32) = i" "unat (of_nat j :: u32) = j" using ij(1,2) k by (intro unat_of_nat_small; simp)+
    ultimately show "i = j" by metis
  qed
  then show ?thesis by (simp add: request_numbers_def distinct_map atLeast0LessThan)
qed

lemma sent_written: "sent es = [] \<Longrightarrow> written es = []"
proof (induction es)
  case (Cons e es)
  then show ?case by (cases e) simp_all
qed simp



end
