(* ===== verification/Spec2Isabelle.thy ===== *)
theory Spec2Isabelle
  imports Buffer UrlCode Events Thrift HttpRoundtrip TimerWheelProps RequestTable Connection NetIO
    ProtocolHelper SessionManagers ThriftReadLoop
    ThreadTimerProps MsgQueueWait MsgTimerThread ManagerProps IoThread NetHolder XmlConfigProps XmlTreeProps XmlNavigate XmlQueryProps DirReader ExampleProps ExampleServer HttpServe
begin

text \<open>
  A model of ape, a C++ framework for network servers (src/frame), and of the two servers that come with
  it as examples (src/example_http, src/example_thrift).

  \<^bold>\<open>The program.\<close> A server has a \<open>CNetThreadHolder\<close> with some network threads (\<open>CSessionManager\<close>, each an
  \<open>CIoServiceThread\<close> with a boost::asio event loop and a \<open>CTimerManager\<close>) and listening sockets
  (\<open>CTcpSocketServer\<close>). A thread holds the sessions of accepted connections
  (\<open>CSocSessionManager\<close>) and those it opened itself (\<open>CSosSessionManager\<close>: short ones with a name of their
  own, and persistent ones shared by address). A session (\<open>CSession\<close>, \<open>CHttpSession\<close>) owns a connection
  (\<open>CConnection\<close>), which turns bytes into messages and back with a parser (\<open>CHttpParser\<close>,
  \<open>CThriftParser\<close>) on two growable buffers (\<open>CBuffer\<close>); it keeps the table of outstanding requests with their
  timers and the list of messages that wait for a connection. What sessions receive goes to the user's
  handler (\<open>CHandle\<close>), which sends through \<open>CNetService\<close>. Beside that stand message threads with a
  priority queue (\<open>MsgTimerThread\<close>, \<open>MsgQueuePrio\<close>), the configuration parser on a copy of tinyxml2,
  and the loading of shared libraries.

  \<^bold>\<open>Theories and source files.\<close>

  \<^item> Shared: \<open>ApePrelude\<close> (words, undefined behaviour, generic lemmas); \<open>CString\<close> (the C string
    functions, scanf and printf conversions that the code uses).
  \<^item> Buffers and text: \<open>Buffer\<close> (interface/buffer.h, handleralloc.h); \<open>UrlCode\<close> (interface/urlcode.h and the hex
    dump of loghelper.h).
  \<^item> Messages and parsers: \<open>Events\<close> (event/, protocol.h, errorcode.h); \<open>BaseParser\<close> (protocol/baseparser);
    \<open>Thrift\<close> (protocol/thriftparser); \<open>HttpDecode\<close> and \<open>HttpEncode\<close> (protocol/httpparser); \<open>ProtocolHelper\<close>.
    \<open>HttpLocality\<close>, \<open>HttpRoundtrip\<close> (responses), \<open>HttpRequest\<close> and \<open>HttpCut\<close> (requests, complete and not) hold the
    proofs on the HTTP parser.
  \<^item> Timers: \<open>NodeLink\<close> (the pointers of the lists in timermanager.h), \<open>TimerWheel\<close> (timermanager.cc),
    \<open>ThreadTimer\<close> (threadtimer), with \<open>TimerWheelProps\<close> and \<open>ThreadTimerProps\<close>.
  \<^item> Queues and threads: \<open>MsgQueuePrio\<close>, \<open>MsgQueueWait\<close> (msgqueueprio), \<open>MsgTimerThread\<close>, \<open>IoThread\<close>
    (net/ioservicethread).
  \<^item> Connections and sessions: \<open>RequestTable\<close> (the multimap of requests); \<open>Connection\<close> and \<open>NetIO\<close>
    (net/connection); \<open>Session\<close> (session/); \<open>SessionManagers\<close> (net/socsessionmanager, sossessionmanager);
    \<open>NetThread\<close> (net/sessionmanager, netservice.h, sessioncallback.h); \<open>NetHolder\<close> (net/netthreadholder,
    tcpsocketserver). \<open>SessionProps\<close>, \<open>SessionFacts\<close>, \<open>SessionScenarios\<close>, \<open>HttpPipeline\<close>, \<open>HttpReadLoop\<close>,
    \<open>StreamRead\<close> with its instances \<open>ThriftReadLoop\<close> and \<open>HttpStream\<close>, \<open>HttpServe\<close> and \<open>ManagerProps\<close> hold their
    properties.
  \<^item> XML documents (tinyxml2/): \<open>XmlText\<close> (strings with flags, read in place), \<open>XmlParse\<close> (the parser), \<open>XmlPrinter\<close>,
    \<open>XmlPool\<close> (\<open>DynArray\<close> and the memory pools), \<open>XmlDom\<close> (the pointers between nodes: insertion and deletion),
    \<open>XmlNavigate\<close> (searching among siblings, handles), \<open>XmlQuery\<close> (attributes, texts, conversions, copies); with
    \<open>XmlTextProps\<close>, \<open>XmlTreeProps\<close>, \<open>XmlDomProps\<close>, \<open>XmlDomDelete\<close>, \<open>XmlDocuments\<close>, \<open>XmlQueryProps\<close>.
  \<^item> Configuration: \<open>XmlConfig\<close> (common/xmlconfigparser) with \<open>XmlConfigProps\<close>; \<open>DirReader\<close> (common/dirreader, soloader).
  \<^item> Examples: \<open>ThriftGen\<close> and \<open>ThriftServ\<close> (student_gen_cpp/), \<open>ExampleThrift\<close> (example_thrift/business and main),
    \<open>ExampleHttp\<close> (example_http/business, coh and main), with \<open>ThriftServProps\<close>, \<open>ThriftSample\<close>,
    \<open>ExampleProps\<close> and \<open>ExampleServer\<close>.

  \<^bold>\<open>How state and operations correspond.\<close> A class is a record of its members, a method a function from the
  object to the object; definitions have the names of the methods, with a prefix where several classes
  share a name (\<open>soc_\<close>, \<open>sos_\<close>, \<open>nt_\<close>, \<open>nh_\<close>, \<open>io_\<close>, \<open>tt_\<close>, \<open>mt_\<close>, \<open>cfg_\<close>, \<open>th_\<close>, \<open>hh_\<close>, \<open>coh_\<close>). An option is undefined behaviour or,
  where a comment says so, a call that never returns; error codes are values. Messages and other heap objects
  that change hands carry an address. What a connection asks of the system and what a session tells its
  owner is the trace of effects of the connection; \<open>NetThread\<close> delivers the new part of a trace after each
  operation, and \<open>ExampleThrift.run_action\<close> carries out on a thread what a handler asks of it. The waiting of
  threads at a queue is a step relation over all interleavings. Machine integers keep their width. The parser of
  XML documents builds trees; the operations that edit a document work on a state with a pool of
  nodes for each document and kind, in which a node is a document or a chunk of a pool, and a pointer to a freed
  chunk is undefined.

  \<^bold>\<open>What the lemmas show.\<close>

  \<^item> Messages are not lost: a session settles every message exactly once (\<open>SessionFacts\<close>); a Thrift stream is
    reassembled from any cuts (\<open>ThriftReadLoop\<close>), an HTTP stream from all cuts outside request lines
    (\<open>HttpStream\<close>, which also shows what a cut inside one does); pipelined HTTP answers leave in the order of
    the requests (\<open>HttpPipeline\<close>), also from the bytes of the requests on (\<open>HttpServe\<close>); a reply ends its own request (\<open>SessionScenarios\<close>).
  \<^item> Parsers: decoding inverts encoding, prefixes are incomplete, decoding moves forward (\<open>Thrift\<close>,
    \<open>HttpRoundtrip\<close>), and the inputs on which that fails.
  \<^item> Timers: no timer is late by more than a turn, none is lost or doubled, each fires once
    (\<open>TimerWheelProps\<close>, \<open>ThreadTimerProps\<close>); the pointer code refines lists (\<open>NodeLink\<close>).
  \<^item> Queues: the ring buffers refine bounded lists, no wake-up is lost, the order is kept (\<open>MsgQueuePrio\<close>, \<open>MsgQueueWait\<close>).
  \<^item> Spreading of work: accepted connections and outgoing messages go round (\<open>NetHolder\<close>, \<open>ManagerProps\<close>).
  \<^item> Configuration: the in-place reader equals a reference definition, trees are well formed, and the
    lookups return what the file says (\<open>XmlTextProps\<close>, \<open>XmlTreeProps\<close>, \<open>XmlConfigProps\<close>).
  \<^item> XML documents: insertion and deletion by pointers refine lists of children and keep the counts of the pools,
    deletion ends (\<open>XmlDocuments\<close>, where also the moves on which \<open>InsertAfterChild\<close> fails stand); the search
    for elements finds what the lists have (\<open>XmlNavigate\<close>); attributes that are set are read back, copies are
    equal (\<open>XmlQueryProps\<close>).
  \<^item> The examples: a call through the generated client and processor gives the answer of the implementation
    (\<open>ThriftSample\<close>); the Thrift server answers all calls that a read brings, from the bytes received to the
    bytes sent (\<open>ExampleServer\<close>), the HTTP server each request with the reply to its own query, also when that
    failed (\<open>ExampleProps\<close>).

  The interfaces are locales: \<open>packet_decoder\<close> (a parser, interpreted on the Thrift parser),
  \<open>wire_decoder\<close> and \<open>stream_protocol\<close> (a parser and a session that deliver the messages of a stream, interpreted on both
  protocols; the read loop is proved once on them), \<open>bounded_queue\<close> (on the
  ring buffer), \<open>request_table\<close> (on the multimap) and \<open>allocator\<close> (on the memory pool).

  \<^bold>\<open>Bounds and fuel.\<close> The read loop (\<open>NetIO.read_loop\<close>) has fuel, because it can run for ever
  (\<open>HttpReadLoop\<close>); \<open>StreamRead\<close> shows that one unit more than there are messages is enough on a stream that keeps its contract. Walking and emptying a
  pointer list (\<open>NodeLink\<close>) has fuel with the length of the list as a bound that is proved enough. \<open>XmlDom.DeleteChildren\<close> has as much fuel as there are nodes in the tree to delete, which
  \<open>XmlDocuments\<close> proves enough, \<open>XmlNavigate.find_element\<close> the number of siblings. Reading a
  directory tree has one unit of fuel for each level; 4096 are enough where paths are shorter than that
  (\<open>DirReader\<close>). The field loop of generated code is a \<open>partial_function\<close>. All other loops are functions with a termination proof.
  Buffers are followed up to 256 MiB, beyond which the growth arithmetic wraps.

  \<^bold>\<open>Parameters.\<close> The memory that malloc returns, the clock, strptime and dates, what the sockets report, the file
  system, the dynamic linker and the Thrift library. The contract of the Thrift library is the hypothesis
  \<open>ThriftServProps.lawful\<close>; \<open>ThriftSample\<close> has a protocol that keeps it.

  \<^bold>\<open>Not modelled.\<close> Logging and all \<open>Dump\<close> functions; the Windows branches; of tinyxml2 the conversions of float
  and double (there are no floating point numbers in the library used here), output to a FILE and the debug
  reports, and the pool of attributes, whose chunks are used like those of nodes (attributes of a node are a list here); the
  factories that wire the generated processor with shared pointers; signal masks and the branch
  of the examples without \<open>DEBUG\<close>; the unit tests and their helpers, which test interfaces the frame no longer has.
\<close>

end
